(* ===== verification/Prelude.thy ===== *)
theory Prelude
  imports "HOL-Library.Word" "HOL-Library.Multiset"
begin

unbundle bit_operations_syntax

text \<open>
  Shared vocabulary of the development: the C integer types, the outcome type of C functions
  that work on a caller's buffer, checked memory writes (\<^verbatim>\<open>memcpy\<close>/\<^verbatim>\<open>memmove\<close>), big-endian
  encodings, and the generic lemmas on lists and words that the component theories use.
  The collection \<open>mem_simps\<close> rewrites reads of freshly written buffers.
\<close>

named_theorems mem_simps "reads from buffers after checked writes"

type_synonym u8 = "8 word"
type_synonym u16 = "16 word"
type_synonym u32 = "32 word"
type_synonym u64 = "64 word"
type_synonym bytes = "8 word list"

section \<open>Outcomes of C functions\<close>

text \<open>
  \<open>Done x\<close> is a successful return with its results, \<open>Fail\<close> an error return (\<^verbatim>\<open>return -1\<close>), and
  \<open>Fault\<close> a write outside the buffer, which C leaves undefined. Keeping \<open>Fault\<close> apart from
  \<open>Fail\<close> lets memory safety be a theorem instead of an assumption of the model.
\<close>

datatype 'a cres = Done 'a | Fail | Fault

primrec cbind :: "'a cres \<Rightarrow> ('a \<Rightarrow> 'b cres) \<Rightarrow> 'b cres" where
  "cbind (Done x) f = f x"
| "cbind Fail f = Fail"
| "cbind Fault f = Fault"

definition mem_then :: "'a cres \<Rightarrow> 's \<Rightarrow> ('a \<Rightarrow> 'b cres \<times> 's) \<Rightarrow> 'b cres \<times> 's" where
  \<comment> \<open>a memory operation inside code that also threads a state: the state survives its failure\<close>
  "mem_then m st f = (case m of Done x \<Rightarrow> f x | Fail \<Rightarrow> (Fail, st) | Fault \<Rightarrow> (Fault, st))"

lemma mem_then_simps [simp]:
  "mem_then (Done x) st f = f x" "mem_then Fail st f = (Fail, st)" "mem_then Fault st f = (Fault, st)"
  by (simp_all add: mem_then_def)

lemma cbind_eq_Done: "cbind m f = Done y \<longleftrightarrow> (\<exists>x. m = Done x \<and> f x = Done y)"
  by (cases m) auto

lemma cbind_eq_Fault: "cbind m f = Fault \<longleftrightarrow> m = Fault \<or> (\<exists>x. m = Done x \<and> f x = Fault)"
  by (cases m) auto

section \<open>Buffers\<close>

definition mem_read :: "'a list \<Rightarrow> nat \<Rightarrow> nat \<Rightarrow> 'a list" where
  "mem_read buf off n = take n (drop off buf)"

definition mem_write :: "'a list \<Rightarrow> nat \<Rightarrow> 'a list \<Rightarrow> 'a list cres" where
  "mem_write buf off bs =
     (if off + length bs \<le> length buf
      then Done (take off buf @ bs @ drop (off + length bs) buf) else Fault)"

definition mem_move :: "'a list \<Rightarrow> nat \<Rightarrow> nat \<Rightarrow> nat \<Rightarrow> 'a list cres" where
  \<comment> \<open>\<^verbatim>\<open>memmove(buf + dst, buf + src, n)\<close>; reading past the end is a fault as well\<close>
  "mem_move buf dst src n =
     (if src + n \<le> length buf then mem_write buf dst (mem_read buf src n) else Fault)"

lemma mem_write_Done:
  "off + length bs \<le> length buf \<Longrightarrow>
   mem_write buf off bs = Done (take off buf @ bs @ drop (off + length bs) buf)"
  by (simp add: mem_write_def)

lemma mem_write_DoneD:
  "mem_write buf off bs = Done buf' \<Longrightarrow>
   buf' = take off buf @ bs @ drop (off + length bs) buf \<and> off + length bs \<le> length buf"
  by (auto simp: mem_write_def split: if_splits)

lemma mem_write_not_Fail [simp]: "mem_write buf off bs \<noteq> Fail"
  by (simp add: mem_write_def)

lemma length_mem_write [mem_simps]:
  "mem_write buf off bs = Done buf' \<Longrightarrow> length buf' = length buf"
  by (auto dest!: mem_write_DoneD)

lemma mem_write_append:
  "cbind (mem_write buf off xs) (\<lambda>b. mem_write b (off + length xs) ys) = mem_write buf off (xs @ ys)"
proof (cases "off + length xs \<le> length buf")
  case True
  then have "take (off + length xs) (take off buf @ xs @ drop (off + length xs) buf) = take off buf @ xs"
    by simp
  with True show ?thesis by (auto simp: mem_write_def add_ac)
qed (auto simp: mem_write_def)

lemma mem_write_mid:
  "length pre = off \<Longrightarrow> length new = length old \<Longrightarrow>
   mem_write (pre @ old @ post) off new = Done (pre @ new @ post)"
  by (simp add: mem_write_def)

lemma mem_write_at:
  "length pre = off \<Longrightarrow> length xs \<le> length post \<Longrightarrow>
   mem_write (pre @ post) off xs = Done (pre @ xs @ drop (length xs) post)"
  by (simp add: mem_write_def)

lemma mem_read_mid: "length pre = off \<Longrightarrow> length xs = n \<Longrightarrow> mem_read (pre @ xs @ post) off n = xs"
  by (simp add: mem_read_def)

lemma mem_move_mid:
  \<comment> \<open>a block moved towards the end of the buffer, possibly over itself\<close>
  assumes "length pre = s" "length xs = n" "s \<le> d" "d - s \<le> length post"
  shows "mem_move (pre @ xs @ post) d s n =
    Done (pre @ take (d - s) (xs @ post) @ xs @ drop (d - s) post)"
proof -
  have "mem_read (pre @ xs @ post) s n = xs" using assms by (simp add: mem_read_mid)
  moreover have "take d (pre @ xs @ post) = pre @ take (d - s) (xs @ post)"
    using assms by (simp add: min_def)
  moreover have "drop (d + n) (pre @ xs @ post) = drop (d - s) post"
    using assms by simp
  ultimately show ?thesis using assms by (simp add: mem_move_def mem_write_def)
qed

lemma mem_move_down:
  assumes "length pre = d" "length gap = s - d" "d \<le> s" "length xs = n"
  shows "\<exists>junk. length junk = s - d + length post \<and>
    mem_move (pre @ gap @ xs @ post) d s n = Done (pre @ xs @ junk)"
proof -
  have r: "mem_read (pre @ gap @ xs @ post) s n = xs"
    using mem_read_mid [of "pre @ gap" s xs n post] assms by simp
  have "mem_write (pre @ gap @ xs @ post) d xs =
      Done (pre @ xs @ drop n (gap @ xs @ post))"
    using assms by (simp add: mem_write_def)
  then show ?thesis using assms r by (auto simp: mem_move_def)
qed

lemma cbind_assoc: "cbind (cbind m f) g = cbind m (\<lambda>x. cbind (f x) g)"
  by (cases m) auto

lemma length_mem_read [simp]: "length (mem_read buf off n) = min n (length buf - off)"
  by (simp add: mem_read_def)

section \<open>Big-endian encodings\<close>

definition be16 :: "u8 \<Rightarrow> u8 \<Rightarrow> u16" where
  "be16 a b = push_bit 8 (ucast a) OR ucast b"

definition be16_bytes :: "u16 \<Rightarrow> bytes" where
  "be16_bytes w = [ucast (drop_bit 8 w), ucast w]"

definition be32 :: "u8 \<Rightarrow> u8 \<Rightarrow> u8 \<Rightarrow> u8 \<Rightarrow> u32" where
  "be32 a b c d =
     push_bit 24 (ucast a) OR push_bit 16 (ucast b) OR push_bit 8 (ucast c) OR ucast d"

definition be32_bytes :: "u32 \<Rightarrow> bytes" where
  "be32_bytes w = [ucast (drop_bit 24 w), ucast (drop_bit 16 w), ucast (drop_bit 8 w), ucast w]"

lemma bit_add_diff: "bit w (k + (n - k)) = (if k \<le> n then bit w n else bit w k)" for k n :: nat
  by simp

lemma be16_hi: "ucast (drop_bit 8 (be16 a b)) = a"
  by (rule bit_word_eqI) (auto simp: be16_def bit_simps dest: bit_imp_le_length)

lemma be16_lo: "ucast (be16 a b) = b"
  by (rule bit_word_eqI) (auto simp: be16_def bit_simps)

lemma be16_inject [simp]: "be16 a b = be16 c d \<longleftrightarrow> a = c \<and> b = d"
  by (metis be16_hi be16_lo)

lemma be16_of_bytes [simp]: "be16 (ucast (drop_bit 8 w)) (ucast (w :: u16)) = w"
  by (rule bit_word_eqI) (auto simp: be16_def bit_simps)

lemma be32_of_bytes [simp]:
  "be32 (ucast (drop_bit 24 w)) (ucast (drop_bit 16 w)) (ucast (drop_bit 8 w)) (ucast (w :: u32)) = w"
  by (rule bit_word_eqI) (auto simp: be32_def bit_simps bit_add_diff split: if_splits)

lemma length_be_bytes [simp]: "length (be16_bytes v) = 2" "length (be32_bytes w) = 4"
  by (simp_all add: be16_bytes_def be32_bytes_def)

lemma u8_lt: "unat (w :: u8) < 256"
  using unsigned_less [of w, where ?'a = nat] by simp

lemma u16_lt: "unat (w :: u16) < 65536"
  using unsigned_less [of w, where ?'a = nat] by simp

lemma u32_lt: "unat (w :: u32) < 4294967296"
  using unsigned_less [of w, where ?'a = nat] by simp

lemma unat_be16: "unat (be16 a b) = 256 * unat a + unat b"
proof -
  have "be16 a b = push_bit 8 (ucast a) + ucast b"
    unfolding be16_def
    by (rule disjunctive_add [symmetric]) (auto simp: bit_simps dest: bit_imp_le_length)
  also have "\<dots> = word_of_nat (256 * unat a + unat b)"
    by (simp add: push_bit_eq_mult)
  finally have eq: "be16 a b = word_of_nat (256 * unat a + unat b)" .
  have "256 * unat a + unat b < 2 ^ 16"
    using u8_lt [of a] u8_lt [of b] by simp
  moreover have "unat (word_of_nat (256 * unat a + unat b) :: u16) = (256 * unat a + unat b) mod 2 ^ 16"
    by (subst unat_of_nat) simp
  ultimately show ?thesis
    unfolding eq by (metis mod_less)
qed

lemma mod_add_right_cancel:
  fixes a b c m :: nat
  assumes "(a + c) mod m = (b + c) mod m"
  shows "a mod m = b mod m"
proof -
  have "(int a + int c) mod int m = (int b + int c) mod int m"
    using assms by (metis of_nat_add zmod_int)
  then have "((int a + int c) - int c) mod int m = ((int b + int c) - int c) mod int m"
    by (rule mod_diff_cong) simp
  then show ?thesis by (simp flip: zmod_int)
qed

section \<open>Reachable states and invariants\<close>

inductive reach :: "('s \<Rightarrow> bool) \<Rightarrow> ('s \<Rightarrow> 's \<Rightarrow> bool) \<Rightarrow> 's \<Rightarrow> bool" for start step where
  reach_start: "start s \<Longrightarrow> reach start step s"
| reach_step: "reach start step s \<Longrightarrow> step s t \<Longrightarrow> reach start step t"

text \<open>The contract of an inductive invariant of a step relation; its one client lemma lifts it to all
  reachable states. The thread-level state machines of the development are interpretations.\<close>

locale step_invariant =
  fixes start :: "'s \<Rightarrow> bool" and step :: "'s \<Rightarrow> 's \<Rightarrow> bool" and inv :: "'s \<Rightarrow> bool"
  assumes inv_start: "start s \<Longrightarrow> inv s"
    and inv_step: "inv s \<Longrightarrow> step s t \<Longrightarrow> inv t"
begin

lemma reach_inv: "reach start step s \<Longrightarrow> inv s"
  by (induction rule: reach.induct) (auto intro: inv_start inv_step)

end

end
