(* ===== verification/Ring.thy ===== *)
theory Ring
  imports Prelude
begin

unbundle bit_operations_syntax

text \<open>
  The lock-protected packet rings between the threads (\<^verbatim>\<open>struct ne_ring\<close> and the
  \<^verbatim>\<open>ne_ring_*\<close> functions of \<^verbatim>\<open>src/core/iface/xdp_interface.c\<close>). \<open>head\<close> and \<open>tail\<close> are free-running
  32-bit counters that wrap; a slot is the counter masked with \<open>cap - 1\<close>. The abstraction
  \<open>ring_list\<close> reads the occupied slots as a list, and every operation is shown to be the bounded
  FIFO operation on that list, for every position of the counters. The contract is the locale
  \<open>bounded_fifo\<close>; the frame pool of theory \<open>Umem\<close> satisfies the same contract. A push or a pop runs
  under its spin lock and is one atomic step of the model.
\<close>

section \<open>Slots of a power-of-two ring\<close>

definition ring_slot :: "u32 \<Rightarrow> u32 \<Rightarrow> nat" where
  "ring_slot m i = unat (i AND m)"

definition pow2_cap :: "u32 \<Rightarrow> bool" where
  \<comment> \<open>the check of \<^verbatim>\<open>ne_ring_init\<close> and \<^verbatim>\<open>pool_init\<close>: nonzero and a power of two\<close>
  "pow2_cap cap \<longleftrightarrow> \<not> (cap = 0 \<or> cap AND (cap - 1) \<noteq> 0)"

definition slots :: "'a list \<Rightarrow> u32 \<Rightarrow> u32 \<Rightarrow> nat \<Rightarrow> 'a list" where
  \<comment> \<open>the \<open>n\<close> elements from counter \<open>start\<close> on\<close>
  "slots buf m start n = map (\<lambda>i. buf ! ring_slot m (start + word_of_nat i)) [0..<n]"

lemma length_slots [simp]: "length (slots buf m start n) = n"
  by (simp add: slots_def)

lemma nat_and_pred_pow2: "0 < n \<Longrightarrow> n AND (n - 1) = 0 \<Longrightarrow> \<exists>k. n = 2 ^ k" for n :: nat
proof (induction n rule: less_induct)
  case (less n)
  show ?case
  proof (cases "even n")
    case True
    then obtain m where m: "n = 2 * m" by blast
    with less.prems have "0 < m" by simp
    have "n - 1 = Suc (2 * (m - 1))" using \<open>0 < m\<close> m by simp
    then have "n AND (n - 1) = 2 * (m AND (m - 1))"
      using m by (simp add: and_nat_rec [of "2 * m"] and_nat_rec [of _ "Suc (2 * (m - 1))"])
    with less.prems have "m AND (m - 1) = 0" by simp
    with less.IH [of m] \<open>0 < m\<close> m obtain k where "m = 2 ^ k" by auto
    with m have "n = 2 ^ Suc k" by simp
    then show ?thesis by blast
  next
    case False
    then obtain m where m: "n = Suc (2 * m)" by (metis oddE Suc_eq_plus1)
    then have "n AND (n - 1) = 2 * m"
      by (simp add: and_nat_rec [of "Suc (2 * m)"])
    with less.prems m have "n = 2 ^ 0" by simp
    then show ?thesis by blast
  qed
qed

lemma pow2_capD:
  assumes "pow2_cap cap"
  obtains k where "k < 32" "unat cap = 2 ^ k" "cap = 2 ^ k" "cap - 1 = mask k"
proof -
  have nz: "cap \<noteq> 0" and z: "cap AND (cap - 1) = 0" using assms by (auto simp: pow2_cap_def)
  have "unat (cap - 1) = unat cap - 1"
    using nz by (simp add: unat_minus_one)
  then have "unat cap AND (unat cap - 1) = 0"
    using z by (metis unsigned_and_eq unsigned_0)
  moreover have "0 < unat cap" using nz by (simp add: unat_gt_0)
  ultimately obtain k where k: "unat cap = 2 ^ k" using nat_and_pred_pow2 by blast
  have "(2::nat) ^ k < 2 ^ 32" using u32_lt [of cap] k by simp
  then have lt: "k < 32" by (rule power_less_imp_less_exp [rotated]) simp
  have cap: "cap = 2 ^ k"
    using k by (metis of_nat_numeral of_nat_power of_nat_unat ucast_id)
  then have "cap - 1 = mask k" by (simp add: mask_eq_exp_minus_1)
  with lt k cap show ?thesis by (rule that)
qed

lemma ring_slot_mod:
  assumes "pow2_cap cap"
  shows "ring_slot (cap - 1) (start + word_of_nat i) = (unat start + i) mod unat cap"
proof -
  from assms obtain k where k: "k < 32" "unat cap = 2 ^ k" "cap - 1 = mask k"
    by (rule pow2_capD)
  have dvd: "(2::nat) ^ k dvd 2 ^ 32" by (rule le_imp_power_dvd) (use k(1) in simp)
  have "ring_slot (cap - 1) (start + word_of_nat i) = unat (start + word_of_nat i) mod 2 ^ k"
    unfolding ring_slot_def k(3)
    by (simp only: take_bit_eq_mask [symmetric] unsigned_take_bit_eq) (simp add: take_bit_eq_mod)
  also have "\<dots> = (unat start + i) mod 2 ^ 32 mod 2 ^ k"
    by (simp add: unat_word_ariths unat_of_nat mod_simps)
  also have "\<dots> = (unat start + i) mod 2 ^ k"
    by (rule mod_mod_cancel [OF dvd])
  finally show ?thesis by (simp add: k(2))
qed

lemma ring_slot_less:
  assumes "pow2_cap cap" shows "ring_slot (cap - 1) i < unat cap"
proof -
  have "0 < unat cap" using assms by (simp add: pow2_cap_def unat_gt_0)
  then show ?thesis using ring_slot_mod [OF assms, of i 0] by simp
qed

lemma mod_window_inj:
  fixes a i j c :: nat
  assumes "i < j" "j < i + c" shows "(a + i) mod c \<noteq> (a + j) mod c"
proof
  assume "(a + i) mod c = (a + j) mod c"
  then have "c dvd (a + j) - (a + i)"
    using mod_eq_dvd_iff_nat [of "a + i" "a + j" c] assms by simp
  then show False using assms by (auto dest: dvd_imp_le)
qed

lemma slots_append:
  assumes "pow2_cap cap" "length buf = unat cap" "n < unat cap"
  shows "slots (buf[ring_slot (cap - 1) (start + word_of_nat n) := x]) (cap - 1) start (Suc n) =
         slots buf (cap - 1) start n @ [x]"
proof -
  have "ring_slot (cap - 1) (start + word_of_nat n) \<noteq> ring_slot (cap - 1) (start + word_of_nat i)"
    if "i < n" for i
    using mod_window_inj [of i n "unat cap" "unat start"] that assms(3)
    by (simp add: ring_slot_mod [OF assms(1)] eq_commute)
  moreover have "ring_slot (cap - 1) (start + word_of_nat n) < length buf"
    using ring_slot_less [OF assms(1)] assms(2) by simp
  ultimately show ?thesis
    by (auto simp: slots_def nth_append intro!: nth_equalityI)
qed

lemma slots_Suc:
  "slots buf m start (Suc n) = buf ! ring_slot m start # slots buf m (start + 1) n"
  unfolding slots_def
  by (subst upt_conv_Cons) (auto simp: map_Suc_upt [symmetric] simp del: upt_Suc map_Suc_upt
      intro!: nth_equalityI simp: add.assoc)

lemma slots_drop: "drop k (slots buf m start n) = slots buf m (start + word_of_nat k) (n - k)"
  by (auto simp: slots_def intro!: nth_equalityI simp: add.assoc)

lemma slots_take: "take k (slots buf m start n) = slots buf m start (min k n)"
  by (auto simp: slots_def intro!: nth_equalityI)

section \<open>The contract of a bounded FIFO\<close>

text \<open>
  \<open>contents\<close> is the abstraction, \<open>room\<close> the capacity. The client lemmas below are proved once from
  the laws and used through the interpretations for the packet ring and the frame pool.
\<close>

locale bounded_fifo =
  fixes push :: "'q \<Rightarrow> 'a \<Rightarrow> 'q option"
    and pop :: "'q \<Rightarrow> ('a \<times> 'q) option"
    and contents :: "'q \<Rightarrow> 'a list"
    and room :: "'q \<Rightarrow> nat"
    and inv :: "'q \<Rightarrow> bool"
  assumes push_full: "inv q \<Longrightarrow> push q x = None \<longleftrightarrow> length (contents q) = room q"
    and push_contents: "inv q \<Longrightarrow> push q x = Some q' \<Longrightarrow> contents q' = contents q @ [x]"
    and push_room: "inv q \<Longrightarrow> push q x = Some q' \<Longrightarrow> room q' = room q"
    and push_inv: "inv q \<Longrightarrow> push q x = Some q' \<Longrightarrow> inv q'"
    and pop_empty: "inv q \<Longrightarrow> pop q = None \<longleftrightarrow> contents q = []"
    and pop_contents: "inv q \<Longrightarrow> pop q = Some (x, q') \<Longrightarrow> contents q = x # contents q'"
    and pop_room: "inv q \<Longrightarrow> pop q = Some (x, q') \<Longrightarrow> room q' = room q"
    and pop_inv: "inv q \<Longrightarrow> pop q = Some (x, q') \<Longrightarrow> inv q'"
    and inv_room: "inv q \<Longrightarrow> length (contents q) \<le> room q"
begin

fun push_all :: "'q \<Rightarrow> 'a list \<Rightarrow> 'q option" where
  "push_all q [] = Some q"
| "push_all q (x # xs) = (case push q x of None \<Rightarrow> None | Some q' \<Rightarrow> push_all q' xs)"

fun pop_n :: "'q \<Rightarrow> nat \<Rightarrow> ('a list \<times> 'q) option" where
  "pop_n q 0 = Some ([], q)"
| "pop_n q (Suc n) = (case pop q of None \<Rightarrow> None
     | Some (x, q') \<Rightarrow> (case pop_n q' n of None \<Rightarrow> None | Some (xs, q'') \<Rightarrow> Some (x # xs, q'')))"

lemma push_all_fits:
  assumes "inv q" "length (contents q) + length xs \<le> room q"
  shows "\<exists>q'. push_all q xs = Some q' \<and> inv q' \<and> room q' = room q \<and> contents q' = contents q @ xs"
  using assms
proof (induction xs arbitrary: q)
  case (Cons x xs)
  then obtain q1 where q1: "push q x = Some q1"
    using push_full [of q x] by (cases "push q x") auto
  note f = push_contents [OF Cons.prems(1) q1] push_room [OF Cons.prems(1) q1] push_inv [OF Cons.prems(1) q1]
  then show ?case using Cons.IH [of q1] Cons.prems(2) q1 by auto
qed simp

lemma pop_n_prefix:
  assumes "inv q" "n \<le> length (contents q)"
  shows "\<exists>q'. pop_n q n = Some (take n (contents q), q') \<and> inv q' \<and> room q' = room q \<and>
    contents q' = drop n (contents q)"
  using assms
proof (induction n arbitrary: q)
  case (Suc n)
  then obtain x q1 where q1: "pop q = Some (x, q1)"
    using pop_empty [of q] by (cases "pop q") auto
  note f = pop_contents [OF Suc.prems(1) q1] pop_room [OF Suc.prems(1) q1] pop_inv [OF Suc.prems(1) q1]
  then show ?case using Suc.IH [of q1] Suc.prems(2) q1 by auto
qed simp

lemma fifo_order:
  assumes "inv q" "contents q = []" "length xs \<le> room q"
  shows "\<exists>q1 q2. push_all q xs = Some q1 \<and> pop_n q1 (length xs) = Some (xs, q2) \<and> contents q2 = []"
proof -
  from push_all_fits [of q xs] assms obtain q1 where
    q1: "push_all q xs = Some q1" "inv q1" "contents q1 = xs" by auto
  with pop_n_prefix [of q1 "length xs"] show ?thesis by auto
qed

end

section \<open>\<^verbatim>\<open>struct ne_ring\<close>\<close>

record 'a ne_ring =
  r_buf :: "'a list"
  r_cap :: u32
  r_mask :: u32
  r_head :: u32
  r_tail :: u32
  r_mpsc_pop :: bool

definition zero_ring :: "'a ne_ring" where
  \<comment> \<open>\<^verbatim>\<open>memset(r, 0, sizeof *r)\<close>: no buffer\<close>
  "zero_ring = \<lparr>r_buf = [], r_cap = 0, r_mask = 0, r_head = 0, r_tail = 0, r_mpsc_pop = False\<rparr>"

definition ne_ring_init ::
  "bool \<Rightarrow> bool \<Rightarrow> bool \<Rightarrow> 'a \<Rightarrow> 'a ne_ring \<Rightarrow> u32 \<Rightarrow> bool \<Rightarrow> bool \<times> 'a ne_ring" where
  \<comment> \<open>the first three arguments are the outcomes of \<^verbatim>\<open>calloc\<close> and of the two lock
     initialisations, \<open>z\<close> the all-zero packet that \<^verbatim>\<open>calloc\<close> yields\<close>
  "ne_ring_init calloc_ok push_lock_ok pop_lock_ok z r cap mpsc_pop =
     (if cap = 0 \<or> cap AND (cap - 1) \<noteq> 0 then (False, r)
      else if \<not> calloc_ok then (False, zero_ring)
      else if \<not> push_lock_ok then (False, zero_ring)
      else if mpsc_pop \<and> \<not> pop_lock_ok then (False, zero_ring)
      else (True, \<lparr>r_buf = replicate (unat cap) z, r_cap = cap, r_mask = cap - 1,
                   r_head = 0, r_tail = 0, r_mpsc_pop = mpsc_pop\<rparr>))"

definition ne_ring_destroy :: "'a ne_ring \<Rightarrow> 'a ne_ring" where
  "ne_ring_destroy r = (if r_buf r = [] then r else zero_ring)"

definition ne_ring_try_push :: "'a ne_ring \<Rightarrow> 'a \<Rightarrow> 'a ne_ring option" where
  "ne_ring_try_push r pkt =
     (let head = r_head r; tail = r_tail r in
      if head - tail \<ge> r_cap r then None
      else Some (r\<lparr>r_buf := (r_buf r)[ring_slot (r_mask r) head := pkt], r_head := head + 1\<rparr>))"

definition ne_ring_try_push_pair :: "'a ne_ring \<Rightarrow> 'a \<Rightarrow> 'a \<Rightarrow> 'a ne_ring option" where
  "ne_ring_try_push_pair r first second =
     (if r_cap r < 2 then None
      else let head = r_head r; tail = r_tail r in
        if head - tail > r_cap r - 2 then None
        else Some (r\<lparr>r_buf := (r_buf r)[ring_slot (r_mask r) head := first,
                                        ring_slot (r_mask r) (head + 1) := second],
                     r_head := head + 2\<rparr>))"

definition ne_ring_try_pop :: "'a ne_ring \<Rightarrow> ('a \<times> 'a ne_ring) option" where
  "ne_ring_try_pop r =
     (let tail = r_tail r; head = r_head r in
      if tail = head then None
      else Some (r_buf r ! ring_slot (r_mask r) tail, r\<lparr>r_tail := tail + 1\<rparr>))"

definition ne_ring_count :: "'a ne_ring \<Rightarrow> u32" where
  "ne_ring_count r = r_head r - r_tail r"

definition ring_list :: "'a ne_ring \<Rightarrow> 'a list" where
  "ring_list r = slots (r_buf r) (r_mask r) (r_tail r) (unat (r_head r - r_tail r))"

definition ring_inv :: "'a ne_ring \<Rightarrow> bool" where
  "ring_inv r \<longleftrightarrow> pow2_cap (r_cap r) \<and> r_mask r = r_cap r - 1 \<and> length (r_buf r) = unat (r_cap r) \<and>
     r_head r - r_tail r \<le> r_cap r"

lemma length_ring_list: "length (ring_list r) = unat (ne_ring_count r)"
  by (simp add: ring_list_def ne_ring_count_def)

lemma unat_succ_less: "d < c \<Longrightarrow> unat (d + 1) = Suc (unat d)" for d c :: u32
  using u32_lt [of c] by (simp add: word_less_nat_alt unat_word_ariths)

lemma unat_succ_diff: "h - t < c \<Longrightarrow> unat (h + 1 - t) = Suc (unat (h - t))" for h t c :: u32
  using unat_succ_less [of "h - t" c] by (simp add: algebra_simps)

lemma unat_pred_diff: "t \<noteq> h \<Longrightarrow> unat (h - t) = Suc (unat (h - (t + 1)))" for h t :: u32
proof -
  assume "t \<noteq> h"
  then have "h - t \<noteq> 0" by auto
  then have "unat (h - t - 1) = unat (h - t) - 1" "0 < unat (h - t)"
    by (simp_all add: unat_minus_one unat_gt_0)
  then show ?thesis by (simp add: diff_diff_add)
qed

lemma ring_inv_init:
  "ne_ring_init c l1 l2 z r cap mp = (True, r') \<Longrightarrow> ring_inv r' \<and> ring_list r' = [] \<and> r_cap r' = cap"
  by (auto simp: ne_ring_init_def ring_inv_def pow2_cap_def ring_list_def slots_def split: if_splits)

lemma ring_push_Some:
  assumes "ring_inv r" "ne_ring_try_push r x = Some r'"
  shows "ring_inv r'" "ring_list r' = ring_list r @ [x]" "r_cap r' = r_cap r"
proof -
  let ?h = "r_head r" and ?t = "r_tail r" and ?c = "r_cap r"
  have lt: "?h - ?t < ?c" and r': "r' = r\<lparr>r_buf := (r_buf r)[ring_slot (r_mask r) ?h := x], r_head := ?h + 1\<rparr>"
    using assms(2) by (auto simp: ne_ring_try_push_def Let_def split: if_splits)
  have suc: "unat (?h + 1 - ?t) = Suc (unat (?h - ?t))" using lt by (rule unat_succ_diff)
  have inv: "pow2_cap ?c" "r_mask r = ?c - 1" "length (r_buf r) = unat ?c"
    using assms(1) by (auto simp: ring_inv_def)
  show "r_cap r' = r_cap r" by (simp add: r')
  show "ring_inv r'"
    using inv lt suc by (simp add: r' ring_inv_def word_le_nat_alt word_less_nat_alt)
  show "ring_list r' = ring_list r @ [x]"
    using slots_append [OF inv(1,3), of "unat (?h - ?t)" ?t x] lt
    by (simp add: r' ring_list_def suc inv(2) word_less_nat_alt)
qed

lemma ring_push_None:
  "ring_inv r \<Longrightarrow> ne_ring_try_push r x = None \<longleftrightarrow> length (ring_list r) = unat (r_cap r)"
  by (auto simp: ne_ring_try_push_def Let_def ring_inv_def ring_list_def word_le_nat_alt)

lemma ring_pop_Some:
  assumes "ring_inv r" "ne_ring_try_pop r = Some (x, r')"
  shows "ring_inv r'" "ring_list r = x # ring_list r'" "r_cap r' = r_cap r"
proof -
  let ?h = "r_head r" and ?t = "r_tail r"
  have ne: "?t \<noteq> ?h" and r': "r' = r\<lparr>r_tail := ?t + 1\<rparr>" and x: "x = r_buf r ! ring_slot (r_mask r) ?t"
    using assms(2) by (auto simp: ne_ring_try_pop_def Let_def split: if_splits)
  have suc: "unat (?h - ?t) = Suc (unat (?h - (?t + 1)))" using ne by (rule unat_pred_diff)
  show "r_cap r' = r_cap r" by (simp add: r')
  show "ring_inv r'"
    using assms(1) suc by (simp add: r' ring_inv_def word_le_nat_alt)
  show "ring_list r = x # ring_list r'"
    by (simp add: r' x ring_list_def suc slots_Suc)
qed

lemma ring_pop_None: "ne_ring_try_pop r = None \<longleftrightarrow> ring_list r = []"
  by (auto simp: ne_ring_try_pop_def Let_def ring_list_def slots_def unat_eq_zero)

interpretation packet_ring: bounded_fifo ne_ring_try_push ne_ring_try_pop ring_list
    "\<lambda>r. unat (r_cap r)" ring_inv
  by unfold_locales
    (auto simp: ring_push_None ring_pop_None length_ring_list ne_ring_count_def
      dest: ring_push_Some ring_pop_Some, simp add: ring_inv_def word_le_nat_alt)

lemma ring_push_pair_Some:
  assumes "ring_inv r" "ne_ring_try_push_pair r a b = Some r'"
  shows "\<exists>r1. ne_ring_try_push r a = Some r1 \<and> ne_ring_try_push r1 b = Some r'"
proof -
  let ?d = "r_head r - r_tail r"
  have c: "2 \<le> r_cap r" "?d \<le> r_cap r - 2"
    using assms(2) by (auto simp: ne_ring_try_push_pair_def Let_def split: if_splits)
  then have d: "unat ?d + 2 \<le> unat (r_cap r)"
    by (simp add: word_le_nat_alt unat_sub)
  then have lt: "?d < r_cap r" by (simp add: word_less_nat_alt)
  have "unat (r_head r + 1 - r_tail r) = Suc (unat ?d)" using lt by (rule unat_succ_diff)
  with d have "r_head r + 1 - r_tail r < r_cap r" by (simp add: word_less_nat_alt)
  with lt c assms(2) show ?thesis
    by (auto simp: ne_ring_try_push_pair_def ne_ring_try_push_def Let_def not_le algebra_simps
        split: if_splits)
qed

lemma ring_push_pair_None:
  assumes "ring_inv r"
  shows "ne_ring_try_push_pair r a b = None \<longleftrightarrow> unat (r_cap r) < length (ring_list r) + 2"
proof (cases "2 \<le> r_cap r")
  case True
  then have "unat (r_cap r - 2) = unat (r_cap r) - 2" "2 \<le> unat (r_cap r)"
    by (simp_all add: unat_sub word_le_nat_alt)
  with True show ?thesis
    by (auto simp: ne_ring_try_push_pair_def Let_def ring_list_def word_less_nat_alt)
next
  case False
  then have "unat (r_cap r) < 2" by (simp add: word_le_nat_alt)
  with False show ?thesis by (auto simp: ne_ring_try_push_pair_def not_le)
qed

text \<open>C22: for every position of the wrapping 32-bit counters, push and pop are the bounded FIFO
  operations on the ring's contents: a push fails exactly when the ring holds \<open>cap\<close> packets and
  otherwise appends at the end, a pop fails exactly on the empty ring and otherwise removes the front,
  and the count is the number of packets held.\<close>

theorem ne_ring_is_fifo:
  assumes "ring_inv r"
  shows "(case ne_ring_try_push r x of
            None \<Rightarrow> length (ring_list r) = unat (r_cap r)
          | Some r' \<Rightarrow> ring_inv r' \<and> length (ring_list r) < unat (r_cap r) \<and> ring_list r' = ring_list r @ [x])
       \<and> (case ne_ring_try_pop r of
            None \<Rightarrow> ring_list r = []
          | Some (y, r') \<Rightarrow> ring_inv r' \<and> ring_list r = y # ring_list r')
       \<and> unat (ne_ring_count r) = length (ring_list r)"
proof -
  have "length (ring_list r) \<le> unat (r_cap r)" using packet_ring.inv_room [OF assms] .
  moreover have "unat (ne_ring_count r) = length (ring_list r)" by (simp add: length_ring_list)
  ultimately show ?thesis
    using assms ring_push_None [OF assms, of x]
    by (auto simp: ring_pop_None le_less split: option.splits dest: ring_push_Some ring_pop_Some)
qed

definition sample_ring :: "nat ne_ring" where
  \<comment> \<open>a four-slot ring whose counters are about to wrap: two packets, tail at \<open>2 ^ 32 - 1\<close>\<close>
  "sample_ring = \<lparr>r_buf = [20, 0, 0, 10], r_cap = 4, r_mask = 3, r_head = 1, r_tail = 0xFFFFFFFF,
     r_mpsc_pop = False\<rparr>"

lemma sample_ring_inv: "ring_inv sample_ring" "ring_list sample_ring = [10, 20]"
  by (simp_all add: sample_ring_def ring_inv_def pow2_cap_def ring_list_def slots_def ring_slot_def
      upt_rec)

theorem ne_ring_is_fifo_witness:
  "ring_inv sample_ring \<and> (\<exists>r'. ne_ring_try_push sample_ring 30 = Some r' \<and> ring_list r' = [10, 20, 30])"
  using ne_ring_is_fifo [OF sample_ring_inv(1), of 30] sample_ring_inv
  by (cases "ne_ring_try_push sample_ring 30") (auto simp: sample_ring_def)

text \<open>The two fragments of a split packet are published together or not at all: the pair push
  fails exactly when fewer than two slots are free, and otherwise appends both packets adjacently, as
  two single pushes with nothing between them would.\<close>

theorem ne_ring_push_pair_atomic:
  assumes "ring_inv r"
  shows "case ne_ring_try_push_pair r a b of
           None \<Rightarrow> unat (r_cap r) < length (ring_list r) + 2
         | Some r' \<Rightarrow> ring_inv r' \<and> ring_list r' = ring_list r @ [a, b] \<and>
             (\<exists>r1. ne_ring_try_push r a = Some r1 \<and> ne_ring_try_push r1 b = Some r')"
proof (cases "ne_ring_try_push_pair r a b")
  case None
  then show ?thesis using ring_push_pair_None [OF assms, of a b] by simp
next
  case (Some r')
  from ring_push_pair_Some [OF assms Some] obtain r1 where
    r1: "ne_ring_try_push r a = Some r1" "ne_ring_try_push r1 b = Some r'" by blast
  note s1 = ring_push_Some [OF assms r1(1)]
  note s2 = ring_push_Some [OF s1(1) r1(2)]
  from s1 s2 r1 Some show ?thesis by simp
qed

theorem ne_ring_push_pair_atomic_witness:
  "\<exists>r'. ne_ring_try_push_pair sample_ring 30 40 = Some r' \<and> ring_list r' = [10, 20, 30, 40]"
  using ne_ring_push_pair_atomic [OF sample_ring_inv(1), of 30 40] sample_ring_inv
  by (cases "ne_ring_try_push_pair sample_ring 30 40") (auto simp: sample_ring_def)

end
