(* ===== verification/Ring_Conc.thy ===== *)
theory Ring_Conc
  imports Ring
begin

text \<open>
  The ring under concurrency. \<^verbatim>\<open>ne_ring_try_push\<close> and \<^verbatim>\<open>ne_ring_try_push_pair\<close> hold \<open>push_lock\<close>, so at any time at
  most one producer is inside one of them; the consumer runs at the same time without a common lock. The step
  relation below cuts the three functions at their accesses: each load of \<open>head\<close> and \<open>tail\<close>, the copy of each
  packet, and the publishing store. Producer and consumer therefore work with stale counters. The
  invariant shows that this is harmless: what was received followed by what the ring holds is exactly
  what was published, in order, both halves of a pair at once.
\<close>

datatype 'a producer = P_Idle | P_Head u32 "'a list" | P_Loaded u32 u32 "'a list" | P_Writing u32 "'a list" "'a list"
datatype 'a consumer = C_Idle | C_Tail u32 | C_Loaded u32 u32 | C_Read u32 'a

record 'a ring_sys =
  ring :: "'a ne_ring"
  prod :: "'a producer"
  cons :: "'a consumer"
  sent :: "'a list"
  rcvd :: "'a list"

definition ring_sys_start :: "'a ring_sys \<Rightarrow> bool" where
  "ring_sys_start s \<longleftrightarrow> ring_inv (ring s) \<and> ring_list (ring s) = [] \<and> prod s = P_Idle \<and>
     cons s = C_Idle \<and> sent s = [] \<and> rcvd s = []"

text \<open>The test for room, of one packet and of a pair; a pair is refused at once by a ring of capacity one.\<close>

definition push_full :: "u32 \<Rightarrow> 'a list \<Rightarrow> u32 \<Rightarrow> u32 \<Rightarrow> bool" where
  "push_full cap xs h t = (if length xs = 1 then h - t \<ge> cap else h - t > cap - 2)"

inductive ring_step :: "'a ring_sys \<Rightarrow> 'a ring_sys \<Rightarrow> bool" where
  p_head: "prod s = P_Idle \<Longrightarrow> length xs = 1 \<or> length xs = 2 \<and> \<not> r_cap (ring s) < 2 \<Longrightarrow>
     ring_step s (s\<lparr>prod := P_Head (r_head (ring s)) xs\<rparr>)"
| p_tail: "prod s = P_Head h xs \<Longrightarrow> ring_step s (s\<lparr>prod := P_Loaded h (r_tail (ring s)) xs\<rparr>)"
| p_full: "prod s = P_Loaded h t xs \<Longrightarrow> push_full (r_cap (ring s)) xs h t \<Longrightarrow> ring_step s (s\<lparr>prod := P_Idle\<rparr>)"
| p_room: "prod s = P_Loaded h t xs \<Longrightarrow> \<not> push_full (r_cap (ring s)) xs h t \<Longrightarrow> ring_step s (s\<lparr>prod := P_Writing h [] xs\<rparr>)"
| p_write: "prod s = P_Writing h ys (x # zs) \<Longrightarrow>
     ring_step s (s\<lparr>ring := (ring s)\<lparr>r_buf := (r_buf (ring s))[ring_slot (r_mask (ring s)) (h + word_of_nat (length ys)) := x]\<rparr>,
                    prod := P_Writing h (ys @ [x]) zs\<rparr>)"
| p_publish: "prod s = P_Writing h ys [] \<Longrightarrow>
     ring_step s (s\<lparr>ring := (ring s)\<lparr>r_head := h + word_of_nat (length ys)\<rparr>, prod := P_Idle, sent := sent s @ ys\<rparr>)"
| c_tail: "cons s = C_Idle \<Longrightarrow> ring_step s (s\<lparr>cons := C_Tail (r_tail (ring s))\<rparr>)"
| c_head: "cons s = C_Tail t \<Longrightarrow> ring_step s (s\<lparr>cons := C_Loaded t (r_head (ring s))\<rparr>)"
| c_empty: "cons s = C_Loaded t h \<Longrightarrow> t = h \<Longrightarrow> ring_step s (s\<lparr>cons := C_Idle\<rparr>)"
| c_read: "cons s = C_Loaded t h \<Longrightarrow> t \<noteq> h \<Longrightarrow>
     ring_step s (s\<lparr>cons := C_Read t (r_buf (ring s) ! ring_slot (r_mask (ring s)) t)\<rparr>)"
| c_publish: "cons s = C_Read t x \<Longrightarrow>
     ring_step s (s\<lparr>ring := (ring s)\<lparr>r_tail := t + 1\<rparr>, cons := C_Idle, rcvd := rcvd s @ [x]\<rparr>)"

text \<open>The slots from the tail on, as far as they are filled: the contents and, behind them, what the producer has copied
  but not published.\<close>

definition filled :: "'a ne_ring \<Rightarrow> 'a list \<Rightarrow> bool" where
  "filled r ys \<longleftrightarrow> slots (r_buf r) (r_mask r) (r_tail r) (length (ring_list r) + length ys) = ring_list r @ ys"

definition batch_ok :: "'a ne_ring \<Rightarrow> 'a list \<Rightarrow> bool" where
  "batch_ok r xs \<longleftrightarrow> length xs = 1 \<or> length xs = 2 \<and> \<not> r_cap r < 2"

definition prod_ok :: "'a ring_sys \<Rightarrow> bool" where
  "prod_ok s = (case prod s of
      P_Idle \<Rightarrow> True
    | P_Head h xs \<Rightarrow> h = r_head (ring s) \<and> batch_ok (ring s) xs
    | P_Loaded h t xs \<Rightarrow> h = r_head (ring s) \<and> unat (h - r_tail (ring s)) \<le> unat (h - t) \<and> batch_ok (ring s) xs
    | P_Writing h ys zs \<Rightarrow> h = r_head (ring s) \<and> filled (ring s) ys \<and>
        length (ring_list (ring s)) + length ys + length zs \<le> unat (r_cap (ring s)))"

definition cons_ok :: "'a ring_sys \<Rightarrow> bool" where
  "cons_ok s = (case cons s of
      C_Idle \<Rightarrow> True
    | C_Tail t \<Rightarrow> t = r_tail (ring s)
    | C_Loaded t h \<Rightarrow> t = r_tail (ring s) \<and> unat (h - t) \<le> length (ring_list (ring s))
    | C_Read t x \<Rightarrow> t = r_tail (ring s) \<and> (\<exists>ys. ring_list (ring s) = x # ys))"

definition ring_sys_inv :: "'a ring_sys \<Rightarrow> bool" where
  "ring_sys_inv s \<longleftrightarrow> ring_inv (ring s) \<and> sent s = rcvd s @ ring_list (ring s) \<and> prod_ok s \<and> cons_ok s"

lemmas ring_sys_defs = ring_sys_inv_def prod_ok_def cons_ok_def

lemma ring_list_len: "length (ring_list r) = unat (r_head r - r_tail r)"
  by (simp add: ring_list_def)

lemma write_slot:
  assumes "ring_inv r" "filled r ys" "length (ring_list r) + length ys < unat (r_cap r)"
    and "r' = r\<lparr>r_buf := (r_buf r)[ring_slot (r_mask r) (r_head r + word_of_nat (length ys)) := x]\<rparr>"
  shows "ring_inv r'" "ring_list r' = ring_list r" "filled r' (ys @ [x])"
proof -
  have inv: "pow2_cap (r_cap r)" "r_mask r = r_cap r - 1" "length (r_buf r) = unat (r_cap r)"
    using assms(1) by (auto simp: ring_inv_def)
  show "ring_inv r'" using assms(1) by (simp add: assms(4) ring_inv_def)
  let ?n = "length (ring_list r) + length ys"
  have h: "r_head r + word_of_nat (length ys) = r_tail r + word_of_nat ?n" by (simp add: ring_list_len)
  have "slots (r_buf r') (r_mask r) (r_tail r) (Suc ?n) = slots (r_buf r) (r_mask r) (r_tail r) ?n @ [x]"
    using slots_append [OF inv(1,3) assms(3)] by (simp only: assms(4) inv(2) h) simp
  then have f: "slots (r_buf r') (r_mask r) (r_tail r) (Suc ?n) = ring_list r @ ys @ [x]"
    using assms(2) by (simp add: filled_def)
  have "take (length (ring_list r)) (slots (r_buf r') (r_mask r) (r_tail r) (Suc ?n)) = slots (r_buf r') (r_mask r) (r_tail r) (length (ring_list r))"
    by (simp add: slots_take)
  moreover have "ring_list r' = slots (r_buf r') (r_mask r) (r_tail r) (length (ring_list r))"
    by (simp add: ring_list_def assms(4))
  ultimately show l: "ring_list r' = ring_list r" unfolding f by simp
  show "filled r' (ys @ [x])" using f by (simp add: filled_def l) (simp add: assms(4))
qed

lemma publish_head:
  assumes "ring_inv r" "filled r ys" "length (ring_list r) + length ys \<le> unat (r_cap r)"
    and "r' = r\<lparr>r_head := r_head r + word_of_nat (length ys)\<rparr>"
  shows "ring_inv r'" "ring_list r' = ring_list r @ ys"
proof -
  have "unat (r_head r - r_tail r + word_of_nat (length ys)) = length (ring_list r) + length ys"
    using assms(3) u32_lt [of "r_cap r"] by (simp add: ring_list_len unat_word_ariths unat_of_nat)
  then have d: "unat (r_head r' - r_tail r) = length (ring_list r) + length ys" by (simp add: assms(4) algebra_simps)
  then have "r_head r' - r_tail r \<le> r_cap r" using assms(3) by (simp add: word_le_nat_alt)
  then show "ring_inv r'" using assms(1) by (simp add: assms(4) ring_inv_def)
  show "ring_list r' = ring_list r @ ys"
    using assms(2) d by (simp add: ring_list_def [of r'] filled_def) (simp add: assms(4))
qed

lemma publish_tail:
  assumes "ring_inv r" "ring_list r = x # xs" and "r' = r\<lparr>r_tail := r_tail r + 1\<rparr>"
  shows "ring_inv r'" "ring_list r' = xs" "filled r ys \<Longrightarrow> filled r' ys"
proof -
  have ne: "r_tail r \<noteq> r_head r" using assms(2) ring_list_len [of r] by auto
  have "x = r_buf r ! ring_slot (r_mask r) (r_tail r)"
    using assms(2) unat_pred_diff [OF ne] by (simp add: ring_list_def slots_Suc)
  then have p: "ne_ring_try_pop r = Some (x, r')" using ne assms(3) by (simp add: ne_ring_try_pop_def Let_def)
  show "ring_inv r'" and l: "ring_list r' = xs" using ring_pop_Some [OF assms(1) p] assms(2) by simp_all
  show "filled r' ys" if "filled r ys"
    using that by (simp add: filled_def l assms(2) slots_Suc) (simp add: assms(3))
qed

lemma room_for_batch:
  assumes "ring_inv r" "batch_ok r xs" "\<not> push_full (r_cap r) xs (r_head r) t" "unat (r_head r - r_tail r) \<le> unat (r_head r - t)"
  shows "length (ring_list r) + length xs \<le> unat (r_cap r)"
proof (cases "length xs = 1")
  case True
  then show ?thesis using assms(3,4) by (simp add: push_full_def ring_list_len word_le_nat_alt)
next
  case False
  then have "length xs = 2" "2 \<le> unat (r_cap r)" using assms(2) by (auto simp: batch_ok_def word_less_nat_alt)
  moreover from this have "unat (r_cap r - 2) = unat (r_cap r) - 2" by (simp add: unat_sub word_le_nat_alt)
  ultimately show ?thesis using assms(3,4) by (simp add: push_full_def ring_list_len word_less_nat_alt)
qed

lemma filled_Nil: "filled r []"
  by (simp add: filled_def ring_list_len) (simp add: ring_list_def)

lemma batch_ok_cap: "r_cap r' = r_cap r \<Longrightarrow> batch_ok r' = batch_ok r"
  by (simp add: batch_ok_def fun_eq_iff)

lemma read_front:
  assumes "t = r_tail r" "t \<noteq> h" "unat (h - t) \<le> length (ring_list r)"
  shows "\<exists>ys. ring_list r = r_buf r ! ring_slot (r_mask r) t # ys"
proof -
  have "0 < unat (h - t)" using assms(2) by (simp add: unat_gt_0)
  then obtain n where "unat (r_head r - r_tail r) = Suc n" using assms(3) by (cases "unat (r_head r - r_tail r)") (auto simp: ring_list_len)
  then show ?thesis by (simp add: ring_list_def slots_Suc assms(1))
qed

lemma ring_step_inv: "ring_sys_inv s \<Longrightarrow> ring_step s s' \<Longrightarrow> ring_sys_inv s'"
proof -
  assume inv: "ring_sys_inv s" and "ring_step s s'"
  from this(2) show ?thesis
  proof cases
    case (p_room h t xs)
    then have "length (ring_list (ring s)) + length xs \<le> unat (r_cap (ring s))"
      using inv room_for_batch [of "ring s" xs t] by (auto simp: ring_sys_defs)
    then show ?thesis using inv p_room by (auto simp: ring_sys_defs filled_Nil split: consumer.splits)
  next
    case (p_write h ys x zs)
    then have "filled (ring s) ys" "length (ring_list (ring s)) + length ys < unat (r_cap (ring s))" and h: "h = r_head (ring s)" and r: "ring_inv (ring s)"
      using inv by (auto simp: ring_sys_defs)
    note w = write_slot [OF r this(1,2) refl, of x]
    show ?thesis
      using inv p_write w by (auto simp: ring_sys_defs h split: consumer.splits)
  next
    case (p_publish h ys)
    then have "filled (ring s) ys" "length (ring_list (ring s)) + length ys \<le> unat (r_cap (ring s))" and h: "h = r_head (ring s)" and r: "ring_inv (ring s)"
      using inv by (auto simp: ring_sys_defs)
    note w = publish_head [OF r this(1,2) refl]
    show ?thesis using inv p_publish w by (auto simp: ring_sys_defs h split: consumer.splits)
  next
    case (c_publish t x)
    then obtain xs where c: "ring_inv (ring s)" "ring_list (ring s) = x # xs" and t: "t = r_tail (ring s)"
      using inv by (auto simp: ring_sys_defs)
    note w = publish_tail [OF c refl]
    have "unat (r_head (ring s) - (r_tail (ring s) + 1)) \<le> unat (r_head (ring s) - r_tail (ring s))"
      using c(2) w(2) ring_list_len [of "ring s"] ring_list_len [of "(ring s)\<lparr>r_tail := r_tail (ring s) + 1\<rparr>"] by simp
    moreover have "batch_ok ((ring s)\<lparr>r_tail := r_tail (ring s) + 1\<rparr>) = batch_ok (ring s)" by (rule batch_ok_cap) simp
    ultimately show ?thesis
      using inv c_publish c w by (auto simp: ring_sys_defs t split: producer.splits)
  next
    case (c_read t h)
    then show ?thesis using inv read_front [of t "ring s" h] by (auto simp: ring_sys_defs split: producer.splits)
  next
    case (p_head xs)
    then show ?thesis using inv by (auto simp: ring_sys_defs batch_ok_def split: consumer.splits)
  next
    case (c_head t)
    then show ?thesis using inv by (auto simp: ring_sys_defs ring_list_len split: producer.splits)
  qed (use inv in \<open>auto simp: ring_sys_defs split: producer.splits consumer.splits\<close>)
qed

interpretation ring_conc: step_invariant ring_sys_start ring_step ring_sys_inv
proof unfold_locales
  show "ring_sys_inv s" if "ring_sys_start s" for s :: "'a ring_sys"
    using that by (simp add: ring_sys_start_def ring_sys_defs)
qed (rule ring_step_inv)

text \<open>Without interference the steps of a push and of a pop are the atomic operations of \<open>Ring\<close>.\<close>

lemma push_steps:
  assumes "prod s = P_Idle" "ne_ring_try_push (ring s) x = Some r"
  shows "ring_step\<^sup>*\<^sup>* s (s\<lparr>ring := r, prod := P_Idle, sent := sent s @ [x]\<rparr>)"
proof -
  let ?h = "r_head (ring s)" and ?r = "(ring s)\<lparr>r_buf := (r_buf (ring s))[ring_slot (r_mask (ring s)) (r_head (ring s)) := x]\<rparr>"
  have r: "r = ?r\<lparr>r_head := ?h + 1\<rparr>" and f: "\<not> push_full (r_cap (ring s)) [x] ?h (r_tail (ring s))"
    using assms(2) by (auto simp: ne_ring_try_push_def push_full_def Let_def split: if_splits)
  let ?s1 = "s\<lparr>prod := P_Head ?h [x]\<rparr>" let ?s2 = "s\<lparr>prod := P_Loaded ?h (r_tail (ring s)) [x]\<rparr>"
  let ?s3 = "s\<lparr>prod := P_Writing ?h [] [x]\<rparr>" let ?s4 = "s\<lparr>ring := ?r, prod := P_Writing ?h [x] []\<rparr>"
  have "ring_step s ?s1" using ring_step.p_head [OF assms(1), of "[x]"] by simp
  moreover have "ring_step ?s1 ?s2" using ring_step.p_tail [of ?s1] by simp
  moreover have "ring_step ?s2 ?s3" using ring_step.p_room [of ?s2] f by simp
  moreover have "ring_step ?s3 ?s4" using ring_step.p_write [of ?s3 ?h "[]" x "[]"] by simp
  moreover have "ring_step ?s4 (s\<lparr>ring := r, prod := P_Idle, sent := sent s @ [x]\<rparr>)" using ring_step.p_publish [of ?s4 ?h "[x]"] assms(1) r by simp
  ultimately show ?thesis by (meson rtranclp.rtrancl_refl rtranclp.rtrancl_into_rtrancl)
qed

lemma push_pair_steps:
  assumes "prod s = P_Idle" "ne_ring_try_push_pair (ring s) x y = Some r"
  shows "ring_step\<^sup>*\<^sup>* s (s\<lparr>ring := r, prod := P_Idle, sent := sent s @ [x, y]\<rparr>)"
proof -
  let ?h = "r_head (ring s)" and ?r = "(ring s)\<lparr>r_buf := (r_buf (ring s))[ring_slot (r_mask (ring s)) (r_head (ring s)) := x]\<rparr>"
  let ?q = "?r\<lparr>r_buf := (r_buf ?r)[ring_slot (r_mask (ring s)) (?h + 1) := y]\<rparr>"
  have r: "r = ?q\<lparr>r_head := ?h + 2\<rparr>" and c: "\<not> r_cap (ring s) < 2" and f: "\<not> push_full (r_cap (ring s)) [x, y] ?h (r_tail (ring s))"
    using assms(2) by (auto simp: ne_ring_try_push_pair_def push_full_def Let_def split: if_splits)
  let ?s1 = "s\<lparr>prod := P_Head ?h [x, y]\<rparr>" let ?s2 = "s\<lparr>prod := P_Loaded ?h (r_tail (ring s)) [x, y]\<rparr>"
  let ?s3 = "s\<lparr>prod := P_Writing ?h [] [x, y]\<rparr>" let ?s4 = "s\<lparr>ring := ?r, prod := P_Writing ?h [x] [y]\<rparr>"
  let ?s5 = "s\<lparr>ring := ?q, prod := P_Writing ?h [x, y] []\<rparr>"
  have "ring_step s ?s1" using ring_step.p_head [OF assms(1), of "[x, y]"] c by simp
  moreover have "ring_step ?s1 ?s2" using ring_step.p_tail [of ?s1] by simp
  moreover have "ring_step ?s2 ?s3" using ring_step.p_room [of ?s2] f by simp
  moreover have "ring_step ?s3 ?s4" using ring_step.p_write [of ?s3 ?h "[]" x "[y]"] by simp
  moreover have "ring_step ?s4 ?s5" using ring_step.p_write [of ?s4 ?h "[x]" y "[]"] by simp
  moreover have "ring_step ?s5 (s\<lparr>ring := r, prod := P_Idle, sent := sent s @ [x, y]\<rparr>)" using ring_step.p_publish [of ?s5 ?h "[x, y]"] assms(1) r by simp
  ultimately show ?thesis by (meson rtranclp.rtrancl_refl rtranclp.rtrancl_into_rtrancl)
qed

lemma pop_steps:
  assumes "cons s = C_Idle" "ne_ring_try_pop (ring s) = Some (x, r)"
  shows "ring_step\<^sup>*\<^sup>* s (s\<lparr>ring := r, cons := C_Idle, rcvd := rcvd s @ [x]\<rparr>)"
proof -
  let ?t = "r_tail (ring s)"
  have r: "r = (ring s)\<lparr>r_tail := ?t + 1\<rparr>" and ne: "?t \<noteq> r_head (ring s)" and x: "x = r_buf (ring s) ! ring_slot (r_mask (ring s)) ?t"
    using assms(2) by (auto simp: ne_ring_try_pop_def Let_def split: if_splits)
  let ?s1 = "s\<lparr>cons := C_Tail ?t\<rparr>" let ?s2 = "s\<lparr>cons := C_Loaded ?t (r_head (ring s))\<rparr>" let ?s3 = "s\<lparr>cons := C_Read ?t x\<rparr>"
  have "ring_step s ?s1" using ring_step.c_tail [OF assms(1)] by simp
  moreover have "ring_step ?s1 ?s2" using ring_step.c_head [of ?s1] by simp
  moreover have "ring_step ?s2 ?s3" using ring_step.c_read [of ?s2] ne x by simp
  moreover have "ring_step ?s3 (s\<lparr>ring := r, cons := C_Idle, rcvd := rcvd s @ [x]\<rparr>)" using ring_step.c_publish [of ?s3 ?t x] assms(1) r by simp
  ultimately show ?thesis by (meson rtranclp.rtrancl_refl rtranclp.rtrancl_into_rtrancl)
qed

text \<open>C18: under every interleaving of the accesses of a producer, pushing single packets and pairs, and a consumer, no
  packet is lost, duplicated or reordered: the published packets are the received ones followed by those
  still in the ring, and the ring never holds more than its capacity.\<close>

theorem ring_interleaving_fifo:
  assumes "reach ring_sys_start ring_step s"
  shows "sent s = rcvd s @ ring_list (ring s) \<and> length (ring_list (ring s)) \<le> unat (r_cap (ring s))"
proof -
  have "ring_sys_inv s" using assms by (rule ring_conc.reach_inv)
  then show ?thesis using packet_ring.inv_room [of "ring s"] by (simp add: ring_sys_inv_def)
qed

definition conc_start :: "nat ring_sys" where
  "conc_start = \<lparr>ring = \<lparr>r_buf = [0, 0], r_cap = 2, r_mask = 1, r_head = 0, r_tail = 0,
     r_mpsc_pop = False\<rparr>, prod = P_Idle, cons = C_Idle, sent = [], rcvd = []\<rparr>"

lemma conc_start_ok: "ring_sys_start conc_start"
  by (simp add: conc_start_def ring_sys_start_def ring_inv_def pow2_cap_def ring_list_def slots_def)

lemma reach_rtranclp: "step\<^sup>*\<^sup>* s t \<Longrightarrow> reach start step s \<Longrightarrow> reach start step t"
  by (induction rule: rtranclp_induct) (auto intro: reach_step)

theorem ring_interleaving_fifo_witness:
  "\<exists>s. reach ring_sys_start ring_step s \<and> sent s = [7, 8] \<and> rcvd s = [7] \<and> ring_list (ring s) = [8::nat]"
proof -
  let ?r1 = "(ring conc_start)\<lparr>r_buf := [7, 8], r_head := 2\<rparr>" and ?r2 = "(ring conc_start)\<lparr>r_buf := [7, 8], r_head := 2, r_tail := 1\<rparr>"
  let ?s0 = "conc_start\<lparr>cons := C_Tail 0\<rparr>"
  let ?s1 = "?s0\<lparr>ring := ?r1, sent := [7, 8]\<rparr>" let ?s2 = "?s1\<lparr>cons := C_Loaded 0 2\<rparr>" let ?s3 = "?s1\<lparr>cons := C_Read 0 7\<rparr>"
  let ?s4 = "?s1\<lparr>ring := ?r2, cons := C_Idle, rcvd := [7]\<rparr>"
  have "ring_step conc_start ?s0" using ring_step.c_tail [of conc_start] by (simp add: conc_start_def)
  then have "reach ring_sys_start ring_step ?s0" using reach_start [of ring_sys_start, OF conc_start_ok] by (meson reach_step)
  moreover have "ne_ring_try_push_pair (ring ?s0) 7 8 = Some ?r1"
    by (simp add: ne_ring_try_push_pair_def conc_start_def ring_slot_def)
  from push_pair_steps [OF _ this] have "ring_step\<^sup>*\<^sup>* ?s0 ?s1" by (simp add: conc_start_def)
  moreover have "ring_step ?s1 ?s2" using ring_step.c_head [of ?s1 0] by (simp add: conc_start_def)
  moreover have "ring_step ?s2 ?s3" using ring_step.c_read [of ?s2 0 2] by (simp add: conc_start_def ring_slot_def)
  moreover have "ring_step ?s3 ?s4" using ring_step.c_publish [of ?s3 0 7] by (simp add: conc_start_def)
  ultimately have r: "reach ring_sys_start ring_step ?s4" by (meson reach_rtranclp reach_step)
  have "sent ?s4 = [7, 8]" "rcvd ?s4 = [7]" by (simp_all add: conc_start_def)
  with ring_interleaving_fifo [OF r] r show ?thesis by (metis append_Cons append_Nil list.inject)
qed

end
