(* ===== verification/Eth_Parse.thy ===== *)
theory Eth_Parse
  imports Prelude
begin

unbundle bit_operations_syntax

text \<open>
  \<^verbatim>\<open>src/crypto/common/eth_parse.c\<close>: recognition of the L2 header, of plain IPv4 and of the
  encrypted-frame marker, and the location of the wire header's worker byte. A packet is the
  caller's buffer (a byte list, as long as the C array) with its valid length \<open>pkt_len\<close>; an
  offset result is \<open>None\<close> where the C function returns \<open>-1\<close>. The central lemma of the theory is
  that every parser reads only the first \<open>pkt_len\<close> bytes (\<open>*_take\<close>).
\<close>

definition ETH_HEADER_SIZE :: nat where "ETH_HEADER_SIZE = 14"
definition ETH_L2_HDR_MAX :: nat where "ETH_L2_HDR_MAX = 18"
definition NE_L2_FAKE_ETHERTYPE :: u16 where "NE_L2_FAKE_ETHERTYPE = 0x104A"
definition NE_L2_FAKE_ETHERTYPE_UDP :: u16 where "NE_L2_FAKE_ETHERTYPE_UDP = 0x104B"
definition ETH_P_IP :: u16 where "ETH_P_IP = 0x0800"

lemmas eth_consts = ETH_HEADER_SIZE_def ETH_L2_HDR_MAX_def NE_L2_FAKE_ETHERTYPE_def
  NE_L2_FAKE_ETHERTYPE_UDP_def ETH_P_IP_def

definition eth_read_et :: "bytes \<Rightarrow> nat \<Rightarrow> u16" where
  "eth_read_et pkt off = push_bit 8 (ucast (pkt ! off)) OR ucast (pkt ! (off + 1))"

definition eth_match_et :: "u16 \<Rightarrow> u16 \<Rightarrow> u16 \<Rightarrow> bool" where
  "eth_match_et et target fake \<longleftrightarrow> et = target \<or> (fake \<noteq> 0 \<and> et = fake)"

definition crypto_eth_inner_et_off :: "bytes \<Rightarrow> nat \<Rightarrow> nat option" where
  "crypto_eth_inner_et_off pkt pkt_len =
     (if pkt_len < 14 then None
      else let et = eth_read_et pkt 12 in
        if eth_match_et et ETH_P_IP NE_L2_FAKE_ETHERTYPE \<or> et = NE_L2_FAKE_ETHERTYPE_UDP
        then Some 12 else None)"

definition crypto_eth_ipv4_offset :: "bytes \<Rightarrow> nat \<Rightarrow> nat option" where
  "crypto_eth_ipv4_offset pkt pkt_len =
     (case crypto_eth_inner_et_off pkt pkt_len of
        None \<Rightarrow> None
      | Some et_off \<Rightarrow>
          if eth_read_et pkt et_off \<noteq> ETH_P_IP then None
          else if pkt_len < et_off + 2 + 20 then None
          else Some (et_off + 2))"

definition crypto_eth_l2_prefix_len :: "bytes \<Rightarrow> nat \<Rightarrow> nat option" where
  "crypto_eth_l2_prefix_len pkt pkt_len =
     (case crypto_eth_inner_et_off pkt pkt_len of None \<Rightarrow> None | Some et_off \<Rightarrow> Some et_off)"

definition crypto_pkt_is_ipv4 :: "bytes \<Rightarrow> nat \<Rightarrow> bool" where
  "crypto_pkt_is_ipv4 pkt pkt_len \<longleftrightarrow> crypto_eth_ipv4_offset pkt pkt_len \<noteq> None"

definition crypto_eth_set_ipv4_et :: "bytes \<Rightarrow> nat \<Rightarrow> bytes" where
  "crypto_eth_set_ipv4_et pkt inner_et_off = pkt[inner_et_off := 0x08, inner_et_off + 1 := 0x00]"

definition crypto_eth_l2_has_marker :: "bytes \<Rightarrow> nat \<Rightarrow> bool" where
  "crypto_eth_l2_has_marker pkt pkt_len =
     (case crypto_eth_inner_et_off pkt pkt_len of
        None \<Rightarrow> False
      | Some et_off \<Rightarrow>
          let et = eth_read_et pkt et_off
          in et = NE_L2_FAKE_ETHERTYPE \<or> et = NE_L2_FAKE_ETHERTYPE_UDP)"

definition crypto_eth_l2_core_id_off :: "bytes \<Rightarrow> nat \<Rightarrow> nat option" where
  "crypto_eth_l2_core_id_off packet pkt_len =
     (case crypto_eth_inner_et_off packet pkt_len of
        None \<Rightarrow> None
      | Some off \<Rightarrow> if pkt_len < off + 3 then None else Some (off + 2))"

definition crypto_eth_l2_frag_magic_off :: "bytes \<Rightarrow> nat \<Rightarrow> nat \<Rightarrow> nat option" where
  "crypto_eth_l2_frag_magic_off packet pkt_len nonce_size =
     (case crypto_eth_l2_core_id_off packet pkt_len of
        None \<Rightarrow> None
      | Some off \<Rightarrow>
          if pkt_len < off + 1 + nonce_size then None else Some (off + 1 + nonce_size))"

definition crypto_eth_l2_read_worker_idx :: "bytes \<Rightarrow> nat \<Rightarrow> u8 option" where
  "crypto_eth_l2_read_worker_idx packet pkt_len =
     (if \<not> crypto_eth_l2_has_marker packet pkt_len then None
      else case crypto_eth_l2_core_id_off packet pkt_len of
        None \<Rightarrow> None
      | Some core_off \<Rightarrow> Some (packet ! core_off))"

section \<open>Characterisation by the EtherType\<close>

lemma eth_read_et_be16: "eth_read_et pkt off = be16 (pkt ! off) (pkt ! (off + 1))"
  by (simp add: eth_read_et_def be16_def)

lemma eth_read_et_take: "off + 2 \<le> n \<Longrightarrow> eth_read_et (take n pkt) off = eth_read_et pkt off"
  by (simp add: eth_read_et_def)

lemma be16_consts:
  "be16 0x08 0x00 = ETH_P_IP" "be16 0x10 0x4A = NE_L2_FAKE_ETHERTYPE"
  "be16 0x10 0x4B = NE_L2_FAKE_ETHERTYPE_UDP"
  by (simp_all add: be16_def eth_consts)

lemma ethertypes_distinct [simp]:
  "ETH_P_IP \<noteq> NE_L2_FAKE_ETHERTYPE" "ETH_P_IP \<noteq> NE_L2_FAKE_ETHERTYPE_UDP"
  "NE_L2_FAKE_ETHERTYPE \<noteq> NE_L2_FAKE_ETHERTYPE_UDP" "NE_L2_FAKE_ETHERTYPE \<noteq> 0"
  "NE_L2_FAKE_ETHERTYPE \<noteq> ETH_P_IP" "NE_L2_FAKE_ETHERTYPE_UDP \<noteq> ETH_P_IP"
  "NE_L2_FAKE_ETHERTYPE_UDP \<noteq> NE_L2_FAKE_ETHERTYPE"
  by (simp_all add: eth_consts)

lemma inner_et_off_eq:
  "crypto_eth_inner_et_off pkt n =
     (if 14 \<le> n \<and> eth_read_et pkt 12 \<in> {ETH_P_IP, NE_L2_FAKE_ETHERTYPE, NE_L2_FAKE_ETHERTYPE_UDP}
      then Some 12 else None)"
  by (auto simp: crypto_eth_inner_et_off_def eth_match_et_def Let_def)

lemma l2_prefix_len_eq: "crypto_eth_l2_prefix_len pkt n = crypto_eth_inner_et_off pkt n"
  by (simp add: crypto_eth_l2_prefix_len_def split: option.splits)

lemma ipv4_offset_eq:
  "crypto_eth_ipv4_offset pkt n =
     (if 34 \<le> n \<and> eth_read_et pkt 12 = ETH_P_IP then Some 14 else None)"
  by (auto simp: crypto_eth_ipv4_offset_def inner_et_off_eq)

lemma is_ipv4_eq: "crypto_pkt_is_ipv4 pkt n \<longleftrightarrow> 34 \<le> n \<and> eth_read_et pkt 12 = ETH_P_IP"
  by (simp add: crypto_pkt_is_ipv4_def ipv4_offset_eq)

lemma has_marker_eq:
  "crypto_eth_l2_has_marker pkt n \<longleftrightarrow>
     14 \<le> n \<and> eth_read_et pkt 12 \<in> {NE_L2_FAKE_ETHERTYPE, NE_L2_FAKE_ETHERTYPE_UDP}"
  by (auto simp: crypto_eth_l2_has_marker_def inner_et_off_eq Let_def)

lemma core_id_off_eq:
  "crypto_eth_l2_core_id_off pkt n =
     (if 15 \<le> n \<and> eth_read_et pkt 12 \<in> {ETH_P_IP, NE_L2_FAKE_ETHERTYPE, NE_L2_FAKE_ETHERTYPE_UDP}
      then Some 14 else None)"
  by (auto simp: crypto_eth_l2_core_id_off_def inner_et_off_eq)

lemma frag_magic_off_eq:
  "crypto_eth_l2_frag_magic_off pkt n k =
     (if 15 + k \<le> n \<and>
         eth_read_et pkt 12 \<in> {ETH_P_IP, NE_L2_FAKE_ETHERTYPE, NE_L2_FAKE_ETHERTYPE_UDP}
      then Some (15 + k) else None)"
  by (auto simp: crypto_eth_l2_frag_magic_off_def core_id_off_eq)

lemma read_worker_idx_eq:
  "crypto_eth_l2_read_worker_idx pkt n =
     (if 15 \<le> n \<and> eth_read_et pkt 12 \<in> {NE_L2_FAKE_ETHERTYPE, NE_L2_FAKE_ETHERTYPE_UDP}
      then Some (pkt ! 14) else None)"
  by (auto simp: crypto_eth_l2_read_worker_idx_def has_marker_eq core_id_off_eq)

lemmas eth_eqs = inner_et_off_eq l2_prefix_len_eq ipv4_offset_eq is_ipv4_eq has_marker_eq
  core_id_off_eq frag_magic_off_eq read_worker_idx_eq

section \<open>Parsers stay inside the packet\<close>

lemma eth_parsers_take:
  "crypto_eth_inner_et_off (take n pkt) n = crypto_eth_inner_et_off pkt n"
  "crypto_eth_ipv4_offset (take n pkt) n = crypto_eth_ipv4_offset pkt n"
  "crypto_eth_l2_has_marker (take n pkt) n = crypto_eth_l2_has_marker pkt n"
  "crypto_eth_l2_core_id_off (take n pkt) n = crypto_eth_l2_core_id_off pkt n"
  "crypto_eth_l2_frag_magic_off (take n pkt) n k = crypto_eth_l2_frag_magic_off pkt n k"
  "crypto_eth_l2_read_worker_idx (take n pkt) n = crypto_eth_l2_read_worker_idx pkt n"
  by (auto simp: eth_eqs eth_read_et_take)

end
