(* ===== verification/Traffic_Crypto.thy ===== *)
theory Traffic_Crypto
  imports Prelude
begin

unbundle bit_operations_syntax

text \<open>
  \<^verbatim>\<open>src/crypto/pqc/traffic_crypto.c\<close>, \<^verbatim>\<open>src/crypto/pqc/include/crypto_pqc_layer.h\<close> and
  \<^verbatim>\<open>src/crypto/common/packet_crypto.c\<close>: the per-thread nonce generator and AES-256-GCM on a
  packet buffer in place. The cipher library \<^verbatim>\<open>scrypt_*\<close> is not part of the repository; it is
  the record \<open>scrypt_api\<close>, an argument of every definition that calls it. A call that the C code
  tests for \<^verbatim>\<open>!= 0\<close> returns an option. \<open>lib_calls\<close> numbers a thread's calls whose answer may
  differ from one call to the next (random bytes, allocation of a cipher context).
  \<^verbatim>\<open>scrypt_CipherInit\<close> sets a context up from scratch, so a thread's context is only a flag that
  says whether it has been allocated.
\<close>

record 'c scrypt_api =
  scrypt_Init :: bool
  scrypt_RandomBytes :: "nat \<Rightarrow> nat \<Rightarrow> bytes option"
  scrypt_CipherCtxNew :: "nat \<Rightarrow> bool"
  scrypt_CipherInit :: "bytes \<Rightarrow> bytes \<Rightarrow> bool \<Rightarrow> 'c option"
  scrypt_CipherSetTagSize :: "'c \<Rightarrow> nat \<Rightarrow> 'c option"
  scrypt_CipherSetTag :: "'c \<Rightarrow> bytes \<Rightarrow> 'c option"
  scrypt_CipherUpdate :: "'c \<Rightarrow> bytes \<Rightarrow> ('c \<times> bytes) option"
  scrypt_CipherFinal :: "'c \<Rightarrow> ('c \<times> bytes) option"
  scrypt_CipherGetTag :: "'c \<Rightarrow> bytes option"

datatype trf_err = TRF_PQC_ERR_INIT | TRF_PQC_ERR_CRYPTO

definition GCM_TAG_SIZE :: nat where "GCM_TAG_SIZE = 16"

text \<open>The state of \<^verbatim>\<open>traffic_crypto.c\<close> one thread sees: the process-wide \<^verbatim>\<open>initialized\<close>, its own
  \<^verbatim>\<open>__thread\<close> variables and its two cipher contexts.\<close>

record trf_state =
  initialized :: bool
  nonce_salt :: bytes
  nonce_counter :: u32
  nonce_ready :: bool
  cipher_e :: bool
  cipher_d :: bool
  lib_calls :: nat

definition trf_pqc_init_global ::
  "'c scrypt_api \<Rightarrow> ('z trf_state_scheme) \<Rightarrow> (trf_err + unit) \<times> 'z trf_state_scheme" where
  "trf_pqc_init_global lib st =
     (if initialized st then (Inr (), st)
      else if \<not> scrypt_Init lib then (Inl TRF_PQC_ERR_INIT, st)
      else (Inr (), st\<lparr>initialized := True\<rparr>))"

definition trf_pqc_cleanup :: "'z trf_state_scheme \<Rightarrow> 'z trf_state_scheme" where
  "trf_pqc_cleanup st = st\<lparr>initialized := False\<rparr>"

definition le32_bytes :: "u32 \<Rightarrow> bytes" where
  "le32_bytes w = [ucast w, ucast (drop_bit 8 w), ucast (drop_bit 16 w), ucast (drop_bit 24 w)]"

definition trf_pqc_generate_nonce ::
  "'c scrypt_api \<Rightarrow> 'z trf_state_scheme \<Rightarrow> (trf_err + bytes) \<times> 'z trf_state_scheme" where
  "trf_pqc_generate_nonce lib st =
     (if \<not> initialized st then (Inl TRF_PQC_ERR_INIT, st)
      else
        let st1 = (if nonce_ready st then Some st
                   else case scrypt_RandomBytes lib (lib_calls st) 8 of
                     None \<Rightarrow> None
                   | Some salt \<Rightarrow>
                       Some (st\<lparr>nonce_salt := salt, nonce_ready := True,
                                lib_calls := lib_calls st + 1\<rparr>))
        in case st1 of
             None \<Rightarrow> (Inl TRF_PQC_ERR_CRYPTO, st\<lparr>lib_calls := lib_calls st + 1\<rparr>)
           | Some st2 \<Rightarrow>
               let n = nonce_counter st2 + 1
               in (Inr (nonce_salt st2 @ le32_bytes n), st2\<lparr>nonce_counter := n\<rparr>))"

text \<open>The library call sequences of one encryption and of one decryption.\<close>

definition gcm_seal :: "'c scrypt_api \<Rightarrow> bytes \<Rightarrow> bytes \<Rightarrow> bytes \<Rightarrow> (bytes \<times> bytes \<times> bytes) option" where
  "gcm_seal lib key nonce data =
     Option.bind (scrypt_CipherInit lib key nonce True) (\<lambda>c0.
     Option.bind (scrypt_CipherSetTagSize lib c0 GCM_TAG_SIZE) (\<lambda>c1.
     Option.bind (scrypt_CipherUpdate lib c1 data) (\<lambda>(c2, out).
     Option.bind (scrypt_CipherFinal lib c2) (\<lambda>(c3, final).
     Option.bind (scrypt_CipherGetTag lib c3) (\<lambda>tag.
     Some (out, final, tag))))))"

definition gcm_open :: "'c scrypt_api \<Rightarrow> bytes \<Rightarrow> bytes \<Rightarrow> bytes \<Rightarrow> bytes \<Rightarrow> (bytes \<times> bytes) option" where
  "gcm_open lib key nonce tag data =
     Option.bind (scrypt_CipherInit lib key nonce False) (\<lambda>c0.
     Option.bind (scrypt_CipherSetTagSize lib c0 GCM_TAG_SIZE) (\<lambda>c1.
     Option.bind (scrypt_CipherSetTag lib c1 tag) (\<lambda>c2.
     Option.bind (scrypt_CipherUpdate lib c2 data) (\<lambda>(c3, out).
     Option.bind (scrypt_CipherFinal lib c3) (\<lambda>(c4, final).
     Some (out, final))))))"

text \<open>\<^verbatim>\<open>data\<close> is the address \<open>off\<close> inside the packet buffer. The C tests for null pointers have no
  counterpart; \<open>len\<close> is a length, so \<^verbatim>\<open>len <= 0\<close> is \<open>len = 0\<close>.\<close>

definition trf_encrypt_payload_gcm ::
  "'c scrypt_api \<Rightarrow> 'z trf_state_scheme \<Rightarrow> bytes \<Rightarrow> bytes \<Rightarrow> bytes \<Rightarrow> nat \<Rightarrow> nat \<Rightarrow> (bytes \<times> nat) cres" where
  "trf_encrypt_payload_gcm lib st key nonce buf off len =
     (if \<not> initialized st \<or> len = 0 then Fail
      else case gcm_seal lib key nonce (mem_read buf off len) of
        None \<Rightarrow> Fail
      | Some (out, final, tag) \<Rightarrow>
          cbind (mem_write buf off out) (\<lambda>b1.
          cbind (mem_write b1 (off + length out) final) (\<lambda>b2.
          cbind (mem_write b2 (off + length out + length final) tag) (\<lambda>b3.
          Done (b3, length out + length final + GCM_TAG_SIZE)))))"

definition trf_decrypt_payload_gcm ::
  "'c scrypt_api \<Rightarrow> 'z trf_state_scheme \<Rightarrow> bytes \<Rightarrow> bytes \<Rightarrow> bytes \<Rightarrow> nat \<Rightarrow> nat \<Rightarrow> (bytes \<times> nat) cres" where
  "trf_decrypt_payload_gcm lib st key nonce buf off len =
     (let cipher_len = len - GCM_TAG_SIZE in
      if \<not> initialized st \<or> cipher_len = 0 then Fail
      else
        let tag = mem_read buf (off + cipher_len) GCM_TAG_SIZE in
        case gcm_open lib key nonce tag (mem_read buf off cipher_len) of
          None \<Rightarrow> Fail
        | Some (out, final) \<Rightarrow>
            cbind (mem_write buf off out) (\<lambda>b1.
            cbind (mem_write b1 (off + length out) final) (\<lambda>b2.
            Done (b2, length out + length final))))"

section \<open>Key context and the thin layer above\<close>

record packet_crypto_ctx =
  ctx_key :: bytes
  ctx_initialized :: bool

definition packet_crypto_init :: "bytes \<Rightarrow> packet_crypto_ctx" where
  "packet_crypto_init key = \<lparr>ctx_key = take 32 key, ctx_initialized = True\<rparr>"

definition crypto_pqc_sess_load :: "packet_crypto_ctx \<Rightarrow> bytes option" where
  "crypto_pqc_sess_load ctx = (if \<not> ctx_initialized ctx then None else Some (ctx_key ctx))"

definition crypto_pqc_generate_nonce ::
  "'c scrypt_api \<Rightarrow> 'z trf_state_scheme \<Rightarrow> bytes option \<times> 'z trf_state_scheme" where
  "crypto_pqc_generate_nonce lib st =
     (case trf_pqc_generate_nonce lib st of
        (Inr nonce, st') \<Rightarrow> (Some nonce, st')
      | (Inl _, st') \<Rightarrow> (None, st'))"

definition crypto_pqc_tls_cipher ::
  "'c scrypt_api \<Rightarrow> bool \<Rightarrow> 'z trf_state_scheme \<Rightarrow> bool \<times> 'z trf_state_scheme" where
  "crypto_pqc_tls_cipher lib enc st =
     (if (if enc then cipher_e st else cipher_d st) then (True, st)
      else
        let p = scrypt_CipherCtxNew lib (lib_calls st);
            st1 = st\<lparr>lib_calls := lib_calls st + 1\<rparr>
        in (p, if enc then st1\<lparr>cipher_e := p\<rparr> else st1\<lparr>cipher_d := p\<rparr>))"

definition crypto_pqc_encrypt_payload ::
  "'c scrypt_api \<Rightarrow> bytes \<Rightarrow> bytes \<Rightarrow> bytes \<Rightarrow> nat \<Rightarrow> nat \<Rightarrow> 'z trf_state_scheme
   \<Rightarrow> (bytes \<times> nat) cres \<times> 'z trf_state_scheme" where
  "crypto_pqc_encrypt_payload lib key nonce buf off len st =
     (let (c, st1) = crypto_pqc_tls_cipher lib True st
      in (if c then trf_encrypt_payload_gcm lib st1 key nonce buf off len else Fail, st1))"

definition crypto_pqc_decrypt_payload_resilient ::
  "'c scrypt_api \<Rightarrow> packet_crypto_ctx \<Rightarrow> bytes \<Rightarrow> bytes \<Rightarrow> nat \<Rightarrow> nat \<Rightarrow> 'z trf_state_scheme
   \<Rightarrow> (bytes \<times> nat) cres \<times> 'z trf_state_scheme" where
  "crypto_pqc_decrypt_payload_resilient lib ctx nonce buf off len st =
     (let (c, st1) = crypto_pqc_tls_cipher lib False st
      in (if ctx_initialized ctx \<and> c
          then trf_decrypt_payload_gcm lib st1 (ctx_key ctx) nonce buf off len else Fail, st1))"

section \<open>What the code relies on in the cipher library\<close>

text \<open>
  \<open>aead_laws lib\<close> is the documented behaviour of AES-256-GCM through this interface: a seal with a
  32-byte key and a 12-byte nonce succeeds, keeps the length, gives a 16-byte tag, and opening the
  ciphertext under that tag, key and nonce returns the plaintext; opening never changes the length
  of its input; a context can be allocated, and
  random bytes come in the length asked for.
\<close>

definition aead_laws :: "'c scrypt_api \<Rightarrow> bool" where
  "aead_laws lib \<longleftrightarrow>
     (\<forall>n. scrypt_CipherCtxNew lib n) \<and>
     (\<forall>n k. \<exists>bs. scrypt_RandomBytes lib n k = Some bs \<and> length bs = k) \<and>
     (\<forall>key nonce data. length key = 32 \<and> length nonce = 12 \<and> data \<noteq> [] \<longrightarrow>
        (\<exists>out final tag out' final'. gcm_seal lib key nonce data = Some (out, final, tag) \<and>
           length out + length final = length data \<and> length tag = 16 \<and>
           gcm_open lib key nonce tag (out @ final) = Some (out', final') \<and>
           out' @ final' = data)) \<and>
     (\<forall>key nonce tag data out final. gcm_open lib key nonce tag data = Some (out, final) \<longrightarrow>
        length out + length final = length data)"

text \<open>A small cipher that satisfies the laws and that a proof can evaluate: the byte 1 is
  added to every byte, the tag is constant.\<close>

definition demo_api :: "bool scrypt_api" where
  "demo_api = \<lparr>scrypt_Init = True,
     scrypt_RandomBytes = (\<lambda>n k. Some (replicate k 7)),
     scrypt_CipherCtxNew = (\<lambda>n. True),
     scrypt_CipherInit = (\<lambda>key iv enc. Some enc),
     scrypt_CipherSetTagSize = (\<lambda>c n. Some c),
     scrypt_CipherSetTag = (\<lambda>c t. if t = replicate 16 9 then Some c else None),
     scrypt_CipherUpdate = (\<lambda>c bs. Some (c, map (\<lambda>b. if c then b + 1 else b - 1) bs)),
     scrypt_CipherFinal = (\<lambda>c. Some (c, [])),
     scrypt_CipherGetTag = (\<lambda>c. Some (replicate 16 9))\<rparr>"

lemma demo_seal: "gcm_seal demo_api key nonce data = Some (map (\<lambda>b. b + 1) data, [], replicate 16 9)"
  by (simp add: gcm_seal_def demo_api_def)

lemma demo_open:
  "gcm_open demo_api key nonce (replicate 16 9) data = Some (map (\<lambda>b. b - 1) data, [])"
  by (simp add: gcm_open_def demo_api_def)

lemma demo_laws: "aead_laws demo_api"
  unfolding aead_laws_def demo_seal
  by (auto simp: demo_open o_def)
    (auto simp: demo_api_def gcm_open_def bind_eq_Some_conv split: if_splits)

section \<open>Sealing and opening a buffer\<close>

definition sealed :: "'c scrypt_api \<Rightarrow> bytes \<Rightarrow> bytes \<Rightarrow> bytes \<Rightarrow> bytes" where
  \<comment> \<open>ciphertext followed by the tag, as it stands on the wire\<close>
  "sealed lib key nonce data =
     (case gcm_seal lib key nonce data of None \<Rightarrow> [] | Some (out, final, tag) \<Rightarrow> out @ final @ tag)"

lemma length_le32 [simp]: "length (le32_bytes w) = 4"
  by (simp add: le32_bytes_def)

lemma seal_obtain:
  assumes "aead_laws lib" "length key = 32" "length nonce = 12" "data \<noteq> []"
  obtains out final tag out' final' where "gcm_seal lib key nonce data = Some (out, final, tag)"
    "length out + length final = length data" "length tag = 16"
    "gcm_open lib key nonce tag (out @ final) = Some (out', final')" "out' @ final' = data"
  using assms unfolding aead_laws_def by blast

lemma length_sealed:
  assumes "aead_laws lib" "length key = 32" "length nonce = 12" "data \<noteq> []"
  shows "length (sealed lib key nonce data) = length data + 16"
  by (rule seal_obtain [OF assms]) (simp add: sealed_def)

lemma trf_encrypt_write:
  assumes "gcm_seal lib key nonce (mem_read buf off len) = Some (out, final, tag)"
    "initialized st" "0 < len"
  shows "trf_encrypt_payload_gcm lib st key nonce buf off len =
    cbind (mem_write buf off (out @ final @ tag))
      (\<lambda>b. Done (b, length out + length final + GCM_TAG_SIZE))"
  using assms
  by (simp add: trf_encrypt_payload_gcm_def flip: append_assoc mem_write_append)
    (simp add: cbind_assoc add.assoc flip: length_append)

lemma trf_decrypt_write:
  assumes "gcm_open lib key nonce (mem_read buf (off + (len - 16)) 16) (mem_read buf off (len - 16))
      = Some (out, final)" "initialized st" "16 < len"
  shows "trf_decrypt_payload_gcm lib st key nonce buf off len =
    cbind (mem_write buf off (out @ final)) (\<lambda>b. Done (b, length out + length final))"
  using assms
  by (simp add: trf_decrypt_payload_gcm_def GCM_TAG_SIZE_def cbind_assoc flip: mem_write_append)

text \<open>Encryption in place turns the plaintext bytes of the buffer into the sealed ones, 16 longer.\<close>

lemma encrypt_buffer:
  assumes laws: "aead_laws lib" "length key = 32" "length nonce = 12"
    and st: "initialized st" "data \<noteq> []" and lp: "length pre = off" "length data = len"
    and fits: "16 \<le> length post"
  shows "trf_encrypt_payload_gcm lib st key nonce (pre @ data @ post) off len =
    Done (pre @ sealed lib key nonce data @ drop 16 post, len + 16)"
proof (rule seal_obtain [OF laws st(2)])
  fix out final tag
  assume s: "gcm_seal lib key nonce data = Some (out, final, tag)"
    "length out + length final = length data" "length tag = 16"
  have d: "mem_read (pre @ data @ post) off len = data" using lp by (simp add: mem_read_def)
  have "length out + (length final + length tag) = len + 16" "0 < len" using s lp st by auto
  then show ?thesis
    using trf_encrypt_write [of lib key nonce "pre @ data @ post" off len out final tag st] s st lp fits
    by (auto simp: d sealed_def mem_write_def GCM_TAG_SIZE_def)
qed

lemma decrypt_buffer:
  assumes laws: "aead_laws lib" "length key = 32" "length nonce = 12"
    and st: "initialized st" "data \<noteq> []" and lp: "length pre = off" "length data + 16 = len"
  shows "\<exists>tag. length tag = 16 \<and>
    trf_decrypt_payload_gcm lib st key nonce (pre @ sealed lib key nonce data @ post) off len =
    Done (pre @ data @ tag @ post, length data)"
proof (rule seal_obtain [OF laws st(2)])
  fix out final tag out' final'
  assume s: "gcm_seal lib key nonce data = Some (out, final, tag)"
    "length out + length final = length data" "length tag = 16"
    "gcm_open lib key nonce tag (out @ final) = Some (out', final')" "out' @ final' = data"
  let ?b = "pre @ (out @ final) @ tag @ post"
  have b: "pre @ sealed lib key nonce data @ post = ?b" using s by (simp add: sealed_def)
  have "length (out @ final) = len - 16" using s lp by simp
  then have r: "mem_read ?b off (len - 16) = out @ final" "mem_read ?b (off + (len - 16)) 16 = tag"
    using s lp by (simp_all add: mem_read_def)
  have "len > 16" using lp st by (cases data) auto
  then have "trf_decrypt_payload_gcm lib st key nonce ?b off len =
      cbind (mem_write ?b off data) (\<lambda>b. Done (b, length data))"
    using trf_decrypt_write [of lib key nonce ?b off len out' final' st] r s st
    by (simp del: append_assoc flip: length_append)
  moreover have "mem_write ?b off data = Done (pre @ data @ tag @ post)"
    by (rule mem_write_mid) (simp_all add: s lp)
  ultimately show ?thesis
    unfolding b using s(3) by auto
qed

lemma decrypt_in_bounds:
  assumes "aead_laws lib" "off + len \<le> length buf"
  shows "trf_decrypt_payload_gcm lib st key nonce buf off len \<noteq> Fault \<and>
    (\<forall>b k. trf_decrypt_payload_gcm lib st key nonce buf off len = Done (b, k) \<longrightarrow>
       length b = length buf \<and> k + 16 \<le> len)"
proof (cases "gcm_open lib key nonce (mem_read buf (off + (len - 16)) 16) (mem_read buf off (len - 16))")
  case None
  then show ?thesis by (auto simp: trf_decrypt_payload_gcm_def GCM_TAG_SIZE_def Let_def)
next
  case (Some r)
  obtain out final where r: "r = (out, final)" by force
  have l: "length out + length final = length (mem_read buf off (len - 16))"
    using assms(1) Some unfolding aead_laws_def r by blast
  show ?thesis
  proof (cases "initialized st \<and> 16 < len")
    case True
    then show ?thesis
      using trf_decrypt_write [of lib key nonce buf off len out final st] Some r l assms(2)
      by (auto simp: mem_write_def)
  qed (auto simp: trf_decrypt_payload_gcm_def GCM_TAG_SIZE_def Let_def)
qed

lemma decrypt_resilient_in_bounds:
  assumes "aead_laws lib" "off + len \<le> length buf"
    "crypto_pqc_decrypt_payload_resilient lib ctx nonce buf off len st = (r, st')"
  shows "r \<noteq> Fault \<and> (\<forall>b k. r = Done (b, k) \<longrightarrow> length b = length buf \<and> k + 16 \<le> len)"
  using assms(3) decrypt_in_bounds [OF assms(1,2)]
  by (auto simp: crypto_pqc_decrypt_payload_resilient_def split: prod.splits if_splits)

text \<open>A thread's crypto state is usable: the library is up and a drawn salt has its eight bytes.\<close>

definition trf_ok :: "'z trf_state_scheme \<Rightarrow> bool" where
  "trf_ok st \<longleftrightarrow> initialized st \<and> (nonce_ready st \<longrightarrow> length (nonce_salt st) = 8)"

lemma tls_cipher_ok:
  assumes "aead_laws lib" "trf_ok st"
  shows "\<exists>st'. crypto_pqc_tls_cipher lib enc st = (True, st') \<and> trf_ok st' \<and>
    trf_state.more st' = trf_state.more st \<and> initialized st'"
  using assms by (auto simp: crypto_pqc_tls_cipher_def aead_laws_def trf_ok_def Let_def)

lemma generate_nonce_ok:
  assumes "aead_laws lib" "trf_ok st"
  obtains nonce st' where "crypto_pqc_generate_nonce lib st = (Some nonce, st')" "length nonce = 12"
    "trf_ok st'" "trf_state.more st' = trf_state.more st"
proof -
  obtain salt where "scrypt_RandomBytes lib (lib_calls st) 8 = Some salt" "length salt = 8"
    using assms(1) unfolding aead_laws_def by blast
  then have "\<exists>nonce st'. crypto_pqc_generate_nonce lib st = (Some nonce, st') \<and> length nonce = 12 \<and>
      trf_ok st' \<and> trf_state.more st' = trf_state.more st"
    using assms(2)
    by (cases "nonce_ready st")
      (auto simp: crypto_pqc_generate_nonce_def trf_pqc_generate_nonce_def trf_ok_def Let_def)
  then show ?thesis using that by blast
qed

lemma encrypt_payload_ok:
  assumes laws: "aead_laws lib" "length key = 32" "length nonce = 12" and st: "trf_ok st" "data \<noteq> []"
    and lp: "length pre = off" "length data = len" and fits: "16 \<le> length post"
  obtains st' where "crypto_pqc_encrypt_payload lib key nonce (pre @ data @ post) off len st =
      (Done (pre @ sealed lib key nonce data @ drop 16 post, len + 16), st')"
    "trf_ok st'" "trf_state.more st' = trf_state.more st"
proof -
  obtain st' where c: "crypto_pqc_tls_cipher lib True st = (True, st')" and ok: "trf_ok st'"
    and m: "trf_state.more st' = trf_state.more st" and i: "initialized st'"
    using tls_cipher_ok [OF laws(1) st(1), of True] by blast
  show ?thesis
    using that [OF _ ok m] encrypt_buffer [OF laws i st(2) lp fits]
    by (simp add: crypto_pqc_encrypt_payload_def c)
qed

lemma decrypt_payload_ok:
  assumes laws: "aead_laws lib" "length (ctx_key ctx) = 32" "length nonce = 12" "ctx_initialized ctx"
    and st: "trf_ok st" "data \<noteq> []" and lp: "length pre = off" "length data + 16 = len"
  obtains tag st' where "length tag = 16"
    "crypto_pqc_decrypt_payload_resilient lib ctx nonce
       (pre @ sealed lib (ctx_key ctx) nonce data @ post) off len st =
     (Done (pre @ data @ tag @ post, length data), st')"
    "trf_ok st'" "trf_state.more st' = trf_state.more st"
proof -
  obtain st' where c: "crypto_pqc_tls_cipher lib False st = (True, st')" and ok: "trf_ok st'"
    and m: "trf_state.more st' = trf_state.more st" and i: "initialized st'"
    using tls_cipher_ok [OF laws(1) st(1), of False] by blast
  obtain tag where "length tag = 16" "trf_decrypt_payload_gcm lib st' (ctx_key ctx) nonce
      (pre @ sealed lib (ctx_key ctx) nonce data @ post) off len = Done (pre @ data @ tag @ post, length data)"
    using decrypt_buffer [OF laws(1-3) i st(2) lp] by blast
  then show ?thesis
    using that [OF _ _ ok m] laws(4) by (simp add: crypto_pqc_decrypt_payload_resilient_def c)
qed

section \<open>Nonces of one thread\<close>

lemma le32_inject [simp]: "le32_bytes v = le32_bytes w \<longleftrightarrow> v = w"
proof -
  have "be32 (le32_bytes u ! 3) (le32_bytes u ! 2) (le32_bytes u ! 1) (le32_bytes u ! 0) = u" for u
    by (simp add: le32_bytes_def)
  then show ?thesis by metis
qed

definition nonce_nth :: "'c scrypt_api \<Rightarrow> 'z trf_state_scheme \<Rightarrow> nat \<Rightarrow> trf_err + bytes" where
  \<comment> \<open>the outcome of a thread's call number \<open>i\<close>, counted from the state \<open>st\<close>\<close>
  "nonce_nth lib st i =
     fst (trf_pqc_generate_nonce lib (((\<lambda>s. snd (trf_pqc_generate_nonce lib s)) ^^ i) st))"

lemma nonce_ready_iter:
  assumes "initialized st" "nonce_ready st"
  shows "((\<lambda>s. snd (trf_pqc_generate_nonce lib s)) ^^ i) st =
    st\<lparr>nonce_counter := nonce_counter st + of_nat i\<rparr>"
  using assms by (induction i) (auto simp: trf_pqc_generate_nonce_def Let_def)

lemma nonce_nth_ready:
  assumes "initialized st" "nonce_ready st"
  shows "nonce_nth lib st i = Inr (nonce_salt st @ le32_bytes (nonce_counter st + of_nat (Suc i)))"
  using assms
  by (simp add: nonce_nth_def nonce_ready_iter) (simp add: trf_pqc_generate_nonce_def Let_def add_ac)

lemma nonce_nth_closed:
  assumes "initialized st"
    and "nonce_ready st \<or> scrypt_RandomBytes lib (lib_calls st) 8 \<noteq> None"
  shows "\<exists>salt. \<forall>i. nonce_nth lib st i =
    Inr (salt @ le32_bytes (nonce_counter st + of_nat (Suc i)))"
proof (cases "nonce_ready st")
  case True
  then show ?thesis using assms nonce_nth_ready by blast
next
  case False
  then obtain salt where s: "scrypt_RandomBytes lib (lib_calls st) 8 = Some salt"
    using assms by auto
  let ?s = "st\<lparr>nonce_salt := salt, nonce_ready := True, lib_calls := lib_calls st + 1\<rparr>"
  have step: "trf_pqc_generate_nonce lib st = trf_pqc_generate_nonce lib ?s"
    using False s assms by (simp add: trf_pqc_generate_nonce_def)
  have "nonce_nth lib st i = nonce_nth lib ?s i" for i
    by (cases i) (simp_all add: nonce_nth_def step funpow_Suc_right del: funpow.simps)
  then show ?thesis using nonce_nth_ready [of ?s] assms by auto
qed

lemma of_nat_u32_eq: "(of_nat i :: u32) = of_nat j \<longleftrightarrow> i mod 2 ^ 32 = j mod 2 ^ 32"
  by (simp add: word_of_nat_eq_iff take_bit_eq_mod)

text \<open>C21: The nonces a thread hands out are all successes, and two of them are equal exactly when
  their call numbers agree modulo \<open>2 ^ 32\<close>: no nonce repeats within \<open>2 ^ 32\<close> calls, and call
  number \<open>i + 2 ^ 32\<close> reuses the nonce of call \<open>i\<close> (the 32-bit counter wraps and the salt is
  drawn once per thread).\<close>
theorem nonce_reuse_iff:
  assumes "initialized st" and "nonce_ready st \<or> scrypt_RandomBytes lib (lib_calls st) 8 \<noteq> None"
  shows "(\<exists>n. nonce_nth lib st i = Inr n) \<and>
    (nonce_nth lib st i = nonce_nth lib st j \<longleftrightarrow> i mod 2 ^ 32 = j mod 2 ^ 32)"
proof -
  obtain salt where s: "\<forall>i. nonce_nth lib st i =
      Inr (salt @ le32_bytes (nonce_counter st + of_nat (Suc i)))"
    using nonce_nth_closed [OF assms] by blast
  have "nonce_nth lib st i = nonce_nth lib st j \<longleftrightarrow> (of_nat i :: u32) = of_nat j"
    by (simp add: s)
  then show ?thesis using s of_nat_u32_eq by auto
qed

definition demo_state :: trf_state where
  "demo_state = \<lparr>initialized = True, nonce_salt = [], nonce_counter = 0, nonce_ready = False,
     cipher_e = False, cipher_d = False, lib_calls = 0\<rparr>"

theorem nonce_reuse_iff_witness:
  "nonce_nth demo_api demo_state 0 = nonce_nth demo_api demo_state (2 ^ 32)
   \<and> nonce_nth demo_api demo_state 0 \<noteq> nonce_nth demo_api demo_state 1"
  using nonce_reuse_iff [of demo_state demo_api 0 "2 ^ 32"] nonce_reuse_iff [of demo_state demo_api 0 1]
  by (simp add: demo_state_def demo_api_def)

end
