(* ===== verification/L2_Wire.thy ===== *)
theory L2_Wire
  imports Eth_Parse Traffic_Crypto
begin

unbundle bit_operations_syntax

text \<open>
  The encrypted wire formats of \<^verbatim>\<open>src/crypto/pqc/pqc_l2_option.c\<close> for one packet: DATA frames
  (EtherType 0x104A, everything from the original EtherType on is sealed) and UDP frames
  (EtherType 0x104B, marker, then a sealed 13-byte shim and the IP packet). A packet is edited in
  place in its buffer, so every operation takes the buffer and the packet length and returns both.
  The abstract formats \<open>data_wire\<close> and \<open>udp_wire\<close> say what an encrypted frame is; the lemmas
  show that the in-place code produces and consumes exactly them.
\<close>

section \<open>Constants and per-thread state\<close>

definition NE_JUMBO_FRAME_MAX :: nat where "NE_JUMBO_FRAME_MAX = 9216"
definition L2_CRYPTO_MTU :: nat where "L2_CRYPTO_MTU = 9000"
definition L2_CRYPTO_DATA_OVERHEAD :: nat where "L2_CRYPTO_DATA_OVERHEAD = 2 + 1 + 12 + 16"
definition AES_GCM_TAG_SIZE :: nat where "AES_GCM_TAG_SIZE = 16"
definition MIN_ETH_PKT :: nat where "MIN_ETH_PKT = ETH_HEADER_SIZE + 8"
definition OPT_FRAG_META_LEN :: nat where "OPT_FRAG_META_LEN = 46"
definition L2_UDP_SHIM_SIZE :: nat where "L2_UDP_SHIM_SIZE = 13"
definition L2_UDP_MARKER_SIZE :: nat where "L2_UDP_MARKER_SIZE = 4"
definition L2_CORE_ID_LEN :: nat where "L2_CORE_ID_LEN = 1"
definition L2_NONCE_SIZE :: nat where "L2_NONCE_SIZE = 12"
definition L2_UDP_KIND_FRAG0 :: u8 where "L2_UDP_KIND_FRAG0 = 0"
definition L2_UDP_KIND_FRAG1 :: u8 where "L2_UDP_KIND_FRAG1 = 1"
definition L2_UDP_KIND_FULL :: u8 where "L2_UDP_KIND_FULL = 2"

lemmas l2_sizes = NE_JUMBO_FRAME_MAX_def L2_CRYPTO_MTU_def L2_CRYPTO_DATA_OVERHEAD_def
  AES_GCM_TAG_SIZE_def MIN_ETH_PKT_def OPT_FRAG_META_LEN_def L2_UDP_SHIM_SIZE_def
  L2_UDP_MARKER_SIZE_def L2_CORE_ID_LEN_def L2_NONCE_SIZE_def ETH_HEADER_SIZE_def ETH_L2_HDR_MAX_def

lemmas l2_kinds = L2_UDP_KIND_FRAG0_def L2_UDP_KIND_FRAG1_def L2_UDP_KIND_FULL_def

datatype l2_crypto_proto = L2_PROTO_DATA | L2_PROTO_UDP | L2_PROTO_ICMP

definition l2_crypto_classify :: "u8 \<Rightarrow> l2_crypto_proto" where
  "l2_crypto_classify ip_proto =
     (if ip_proto = 17 then L2_PROTO_UDP
      else if ip_proto = 1 then L2_PROTO_ICMP else L2_PROTO_DATA)"

text \<open>The file's \<^verbatim>\<open>__thread\<close> variables, with the process-wide epoch word \<^verbatim>\<open>g_udp_epoch\<close>.\<close>

record l2_state = trf_state +
  g_worker_idx :: u8
  g_udp_epoch :: u32
  g_udp_tx_seq :: u32
  g_udp_tx_datagram_id :: u32
  g_udp_tx_datagram_clock :: u32
  g_udp_tx_valid :: bool

text \<open>What the operating system answers to \<^verbatim>\<open>getrandom\<close> (\<open>None\<close>: fewer than four bytes),
  \<^verbatim>\<open>clock_gettime(CLOCK_REALTIME)\<close> and \<^verbatim>\<open>getpid\<close>.\<close>

record os_env =
  os_getrandom :: "u32 option"
  os_tv_sec :: u64
  os_tv_nsec :: u64
  os_getpid :: u32

definition l2_crypto_bind_worker :: "u8 \<Rightarrow> l2_state \<Rightarrow> l2_state" where
  "l2_crypto_bind_worker worker_idx st = st\<lparr>g_worker_idx := worker_idx\<rparr>"

definition l2_crypto_worker :: "l2_state \<Rightarrow> u8" where
  "l2_crypto_worker st = g_worker_idx st"

definition epoch_fallback :: "os_env \<Rightarrow> u32" where
  "epoch_fallback os =
     (let e = (ucast (os_tv_nsec os) XOR ucast (os_tv_sec os)) XOR (os_getpid os * 0x9e3779b9)
      in if e = 0 then 1 else e)"

definition epoch_candidate :: "os_env \<Rightarrow> u32" where
  "epoch_candidate os =
     (case os_getrandom os of
        None \<Rightarrow> epoch_fallback os
      | Some e \<Rightarrow> if e = 0 then epoch_fallback os else e)"

definition epoch_publish :: "u32 \<Rightarrow> u32 \<Rightarrow> u32 \<times> u32" where
  \<comment> \<open>the compare-and-swap on the shared word: the epoch to use and the word afterwards\<close>
  "epoch_publish epoch shared = (if shared = 0 then (epoch, epoch) else (shared, shared))"

definition l2_crypto_epoch :: "os_env \<Rightarrow> l2_state \<Rightarrow> u32 \<times> l2_state" where
  "l2_crypto_epoch os st =
     (if g_udp_epoch st \<noteq> 0 then (g_udp_epoch st, st)
      else let (epoch, shared) = epoch_publish (epoch_candidate os) (g_udp_epoch st)
           in (epoch, st\<lparr>g_udp_epoch := shared\<rparr>))"

definition l2_crypto_udp_set_tx_seq :: "u32 \<Rightarrow> l2_state \<Rightarrow> l2_state" where
  "l2_crypto_udp_set_tx_seq seq st =
     st\<lparr>g_udp_tx_seq := seq, g_udp_tx_datagram_id := g_udp_tx_datagram_clock st,
        g_udp_tx_datagram_clock := g_udp_tx_datagram_clock st + 1, g_udp_tx_valid := True\<rparr>"

definition l2_crypto_udp_tx_meta :: "os_env \<Rightarrow> l2_state \<Rightarrow> (u32 \<times> u32 \<times> u32) option \<times> l2_state" where
  "l2_crypto_udp_tx_meta os st =
     (if \<not> g_udp_tx_valid st then (None, st)
      else let (epoch, st1) = l2_crypto_epoch os st
           in (Some (epoch, g_udp_tx_seq st1, g_udp_tx_datagram_id st1), st1))"

section \<open>Shim, marker and wire header\<close>

definition l2_udp_shim :: "u8 \<Rightarrow> u32 \<Rightarrow> u32 \<Rightarrow> u32 \<Rightarrow> bytes" where
  "l2_udp_shim kind epoch seq datagram_id =
     [push_bit 4 1 OR (kind AND 0x0f)] @ be32_bytes epoch @ be32_bytes seq @ be32_bytes datagram_id"

definition l2_udp_write_shim :: "bytes \<Rightarrow> nat \<Rightarrow> u8 \<Rightarrow> u32 \<Rightarrow> u32 \<Rightarrow> u32 \<Rightarrow> bytes cres" where
  "l2_udp_write_shim buf off kind epoch seq datagram_id =
     mem_write buf off (l2_udp_shim kind epoch seq datagram_id)"

definition l2_udp_read_shim :: "bytes \<Rightarrow> nat \<Rightarrow> (u8 \<times> u32 \<times> u32 \<times> u32) option" where
  "l2_udp_read_shim buf off =
     (let b = (\<lambda>i. buf ! (off + i));
          version = drop_bit 4 (b 0);
          kind = b 0 AND 0x0f
      in if version \<noteq> 1 \<or> L2_UDP_KIND_FULL < kind then None
         else Some (kind, be32 (b 1) (b 2) (b 3) (b 4), be32 (b 5) (b 6) (b 7) (b 8),
                    be32 (b 9) (b 10) (b 11) (b 12)))"

definition l2_udp_marker :: bytes where "l2_udp_marker = [0x5B, 0x55, 0x44, 0x01]"

definition l2_udp_marker_match :: "bytes \<Rightarrow> nat \<Rightarrow> nat option \<Rightarrow> bool" where
  "l2_udp_marker_match packet pkt_len off =
     (case off of None \<Rightarrow> False
      | Some k \<Rightarrow> k + L2_UDP_MARKER_SIZE \<le> pkt_len \<and>
                  mem_read packet k L2_UDP_MARKER_SIZE = l2_udp_marker)"

definition l2_udp_marker_write :: "bytes \<Rightarrow> nat \<Rightarrow> bytes cres" where
  "l2_udp_marker_write packet off = mem_write packet off l2_udp_marker"

definition l2_core_id_off :: "bytes \<Rightarrow> nat \<Rightarrow> nat option" where
  "l2_core_id_off packet pkt_len = crypto_eth_l2_core_id_off packet pkt_len"

definition l2_nonce_off :: "bytes \<Rightarrow> nat \<Rightarrow> nat option" where
  "l2_nonce_off packet pkt_len =
     (case l2_core_id_off packet pkt_len of None \<Rightarrow> None | Some off \<Rightarrow> Some (off + L2_CORE_ID_LEN))"

definition l2_enc_start_off :: "bytes \<Rightarrow> nat \<Rightarrow> nat option" where
  "l2_enc_start_off packet pkt_len =
     (case l2_nonce_off packet pkt_len of
        None \<Rightarrow> None
      | Some off \<Rightarrow> if pkt_len < off + L2_NONCE_SIZE then None else Some (off + L2_NONCE_SIZE))"

definition l2_frag_magic_off :: "bytes \<Rightarrow> nat \<Rightarrow> nat option" where
  "l2_frag_magic_off packet pkt_len = l2_enc_start_off packet pkt_len"

definition l2_write_wire_header_et :: "l2_state \<Rightarrow> bytes \<Rightarrow> nat \<Rightarrow> u16 \<Rightarrow> bytes \<Rightarrow> bytes cres" where
  "l2_write_wire_header_et st packet et_off fake nonce =
     cbind (mem_write packet et_off [ucast (drop_bit 8 fake), ucast (fake AND 0xFF), l2_crypto_worker st])
       (\<lambda>p. mem_write p (et_off + 3) nonce)"

definition l2_write_wire_header :: "l2_state \<Rightarrow> bytes \<Rightarrow> nat \<Rightarrow> bytes \<Rightarrow> bytes cres" where
  "l2_write_wire_header st packet et_off nonce =
     l2_write_wire_header_et st packet et_off NE_L2_FAKE_ETHERTYPE nonce"

definition l2_restore_plain_packet :: "bytes \<Rightarrow> nat \<Rightarrow> nat \<Rightarrow> nat \<Rightarrow> (bytes \<times> nat) cres" where
  \<comment> \<open>the payload pointer is the offset \<open>payload\<close> in the same buffer\<close>
  "l2_restore_plain_packet packet pkt_len payload payload_len =
     (case crypto_eth_l2_prefix_len packet pkt_len of
        None \<Rightarrow> Fail
      | Some et_off \<Rightarrow>
          cbind (mem_move packet et_off payload payload_len) (\<lambda>p. Done (p, et_off + payload_len)))"

definition l2_wire_prefix_len :: "bytes \<Rightarrow> nat \<Rightarrow> nat option" where
  "l2_wire_prefix_len packet pkt_len =
     (case crypto_eth_l2_prefix_len packet pkt_len of None \<Rightarrow> None | Some et_off \<Rightarrow> Some (et_off + 2))"

section \<open>DATA frames\<close>

definition l2_do_encrypt ::
  "'c scrypt_api \<Rightarrow> packet_crypto_ctx \<Rightarrow> bytes \<Rightarrow> nat \<Rightarrow> l2_state \<Rightarrow> (bytes \<times> nat) cres \<times> l2_state" where
  "l2_do_encrypt lib ctx packet pkt_len st =
     (case crypto_eth_l2_prefix_len packet pkt_len of
        None \<Rightarrow> (Fail, st)
      | Some et_off \<Rightarrow>
          if pkt_len < et_off + 2 then (Fail, st) else
          let payload_len = pkt_len - et_off;
              enc_start = et_off + 2 + L2_CORE_ID_LEN + L2_NONCE_SIZE in
          if pkt_len < enc_start then (Fail, st) else
          mem_then (mem_move packet enc_start et_off payload_len) st (\<lambda>p1.
          case crypto_pqc_sess_load ctx of
            None \<Rightarrow> (Fail, st)
          | Some key \<Rightarrow>
              (case crypto_pqc_generate_nonce lib st of
                 (None, st1) \<Rightarrow> (Fail, st1)
               | (Some nonce, st1) \<Rightarrow>
                   mem_then (l2_write_wire_header st1 p1 et_off nonce) st1 (\<lambda>p2.
                   case crypto_pqc_encrypt_payload lib key nonce p2 enc_start payload_len st1 of
                     (r, st2) \<Rightarrow>
                       mem_then r st2 (\<lambda>(p3, new_len). (Done (p3, enc_start + new_len), st2))))))"

definition l2_do_decrypt ::
  "'c scrypt_api \<Rightarrow> packet_crypto_ctx \<Rightarrow> bytes \<Rightarrow> nat \<Rightarrow> l2_state \<Rightarrow> (bytes \<times> nat) cres \<times> l2_state" where
  "l2_do_decrypt lib ctx packet pkt_len st =
     (case l2_enc_start_off packet pkt_len of
        None \<Rightarrow> (Fail, st)
      | Some enc_start \<Rightarrow>
          (case crypto_pqc_sess_load ctx of
             None \<Rightarrow> (Fail, st)
           | Some _ \<Rightarrow>
               let nonce = mem_read packet (the (l2_nonce_off packet pkt_len)) L2_NONCE_SIZE in
               (case crypto_pqc_decrypt_payload_resilient lib ctx nonce packet enc_start
                       (pkt_len - enc_start) st of
                  (r, st1) \<Rightarrow>
                    mem_then r st1 (\<lambda>(p1, dec_len).
                      (l2_restore_plain_packet p1 pkt_len enc_start dec_len, st1)))))"

section \<open>UDP frames\<close>

definition l2_do_encrypt_udp ::
  "os_env \<Rightarrow> 'c scrypt_api \<Rightarrow> packet_crypto_ctx \<Rightarrow> bytes \<Rightarrow> nat \<Rightarrow> l2_state
   \<Rightarrow> (bytes \<times> nat) cres \<times> l2_state" where
  "l2_do_encrypt_udp os lib ctx packet pkt_len st =
     (case (crypto_eth_ipv4_offset packet pkt_len, crypto_eth_l2_prefix_len packet pkt_len) of
        (Some l3_off, Some et_off) \<Rightarrow>
          (case l2_crypto_udp_tx_meta os st of
             (None, st1) \<Rightarrow> (Fail, st1)
           | (Some (epoch, seq, datagram_id), st1) \<Rightarrow>
               let payload_len = pkt_len - l3_off;
                   magic_off = et_off + 2 + L2_CORE_ID_LEN + L2_NONCE_SIZE;
                   enc_start = magic_off + L2_UDP_MARKER_SIZE;
                   plain_len = L2_UDP_SHIM_SIZE + payload_len in
               if NE_JUMBO_FRAME_MAX < enc_start + plain_len + AES_GCM_TAG_SIZE then (Fail, st1) else
               mem_then (mem_move packet (enc_start + L2_UDP_SHIM_SIZE) l3_off payload_len) st1 (\<lambda>p1.
               mem_then (l2_udp_write_shim p1 enc_start L2_UDP_KIND_FULL epoch seq datagram_id) st1 (\<lambda>p2.
               case crypto_pqc_sess_load ctx of
                 None \<Rightarrow> (Fail, st1)
               | Some key \<Rightarrow>
                   (case crypto_pqc_generate_nonce lib st1 of
                      (None, st2) \<Rightarrow> (Fail, st2)
                    | (Some nonce, st2) \<Rightarrow>
                        mem_then (l2_write_wire_header_et st2 p2 et_off NE_L2_FAKE_ETHERTYPE_UDP nonce)
                          st2 (\<lambda>p3.
                        mem_then (l2_udp_marker_write p3 magic_off) st2 (\<lambda>p4.
                        case crypto_pqc_encrypt_payload lib key nonce p4 enc_start plain_len st2 of
                          (r, st3) \<Rightarrow>
                            mem_then r st3 (\<lambda>(p5, new_len).
                              (Done (p5, enc_start + new_len), st3))))))))
      | _ \<Rightarrow> (Fail, st))"

text \<open>The result carries the packet, its length and the decoded \<open>(kind, epoch, seq, datagram_id)\<close>.\<close>

definition l2_do_decrypt_udp ::
  "'c scrypt_api \<Rightarrow> packet_crypto_ctx \<Rightarrow> bytes \<Rightarrow> nat \<Rightarrow> l2_state
   \<Rightarrow> (bytes \<times> nat \<times> u8 \<times> u32 \<times> u32 \<times> u32) cres \<times> l2_state" where
  "l2_do_decrypt_udp lib ctx packet pkt_len st =
     (let magic_off = l2_frag_magic_off packet pkt_len in
      if \<not> l2_udp_marker_match packet pkt_len magic_off then (Fail, st) else
      let enc_start = the magic_off + L2_UDP_MARKER_SIZE in
      if pkt_len < enc_start + L2_UDP_SHIM_SIZE + AES_GCM_TAG_SIZE then (Fail, st) else
      case crypto_pqc_sess_load ctx of
        None \<Rightarrow> (Fail, st)
      | Some _ \<Rightarrow>
          let nonce = mem_read packet (the (l2_nonce_off packet pkt_len)) L2_NONCE_SIZE in
          (case crypto_pqc_decrypt_payload_resilient lib ctx nonce packet enc_start
                  (pkt_len - enc_start) st of
             (r, st1) \<Rightarrow>
               mem_then r st1 (\<lambda>(p1, dec_len).
               if dec_len < L2_UDP_SHIM_SIZE then (Fail, st1) else
               case l2_udp_read_shim p1 enc_start of
                 None \<Rightarrow> (Fail, st1)
               | Some (kind, epoch, seq, datagram_id) \<Rightarrow>
                   let payload_len = dec_len - L2_UDP_SHIM_SIZE in
                   (case crypto_eth_l2_prefix_len p1 pkt_len of
                      None \<Rightarrow> (Fail, st1)
                    | Some et_off \<Rightarrow>
                        let l3_off = et_off + 2 in
                        mem_then (mem_move p1 l3_off (enc_start + L2_UDP_SHIM_SIZE) payload_len) st1
                          (\<lambda>p2.
                          let p3 = (if kind = L2_UDP_KIND_FULL
                                    then crypto_eth_set_ipv4_et p2 (l3_off - 2) else p2)
                          in (Done (p3, l3_off + payload_len, kind, epoch, seq, datagram_id), st1))))))"

section \<open>The entry points for one packet\<close>

definition l2_udp_encrypt ::
  "os_env \<Rightarrow> 'c scrypt_api \<Rightarrow> packet_crypto_ctx \<Rightarrow> bytes \<Rightarrow> nat \<Rightarrow> l2_state
   \<Rightarrow> (bytes \<times> nat) cres \<times> l2_state" where
  "l2_udp_encrypt os lib ctx pkt pkt_len st =
     (if \<not> ctx_initialized ctx \<or> pkt_len < MIN_ETH_PKT then (Fail, st)
      else if \<not> crypto_pkt_is_ipv4 pkt pkt_len then (Done (pkt, pkt_len), st)
      else if crypto_eth_ipv4_offset pkt pkt_len = None \<or> crypto_eth_l2_prefix_len pkt pkt_len = None
      then (Fail, st)
      else l2_do_encrypt_udp os lib ctx pkt pkt_len st)"

definition l2_udp_decrypt ::
  "'c scrypt_api \<Rightarrow> packet_crypto_ctx \<Rightarrow> bytes \<Rightarrow> nat \<Rightarrow> l2_state \<Rightarrow> (bytes \<times> nat) cres \<times> l2_state" where
  "l2_udp_decrypt lib ctx pkt pkt_len st =
     (if \<not> ctx_initialized ctx then (Fail, st)
      else if \<not> crypto_eth_l2_has_marker pkt pkt_len then (Done (pkt, pkt_len), st)
      else case l2_do_decrypt_udp lib ctx pkt pkt_len st of
        (r, st1) \<Rightarrow>
          mem_then r st1 (\<lambda>(p, n, kind, epoch, seq, datagram_id).
            if kind \<noteq> L2_UDP_KIND_FULL \<or> \<not> crypto_pkt_is_ipv4 p n then (Fail, st1)
            else (Done (p, n), st1)))"

definition l2_tcp_encrypt ::
  "'c scrypt_api \<Rightarrow> packet_crypto_ctx \<Rightarrow> bytes \<Rightarrow> nat \<Rightarrow> l2_state \<Rightarrow> (bytes \<times> nat) cres \<times> l2_state" where
  "l2_tcp_encrypt lib ctx pkt pkt_len st =
     (if \<not> ctx_initialized ctx \<or> pkt_len < MIN_ETH_PKT then (Fail, st)
      else if crypto_eth_l2_prefix_len pkt pkt_len = None then (Fail, st)
      else l2_do_encrypt lib ctx pkt pkt_len st)"

definition l2_tcp_decrypt ::
  "'c scrypt_api \<Rightarrow> packet_crypto_ctx \<Rightarrow> bytes \<Rightarrow> nat \<Rightarrow> l2_state \<Rightarrow> (bytes \<times> nat) cres \<times> l2_state" where
  "l2_tcp_decrypt lib ctx pkt pkt_len st =
     (if \<not> ctx_initialized ctx then (Fail, st)
      else if \<not> crypto_eth_l2_has_marker pkt pkt_len then (Done (pkt, pkt_len), st)
      else l2_do_decrypt lib ctx pkt pkt_len st)"

definition l2_udp_need_split :: "nat \<Rightarrow> bool" where
  "l2_udp_need_split pkt_len \<longleftrightarrow> ETH_HEADER_SIZE + L2_CRYPTO_MTU - OPT_FRAG_META_LEN < pkt_len"

definition l2_crypto_need_udp_split :: "nat \<Rightarrow> bool" where
  "l2_crypto_need_udp_split packet_len = l2_udp_need_split packet_len"

definition l2_crypto_need_split :: "l2_crypto_proto \<Rightarrow> nat \<Rightarrow> bool" where
  "l2_crypto_need_split proto packet_len =
     (if proto = L2_PROTO_UDP then l2_crypto_need_udp_split packet_len
      else if proto = L2_PROTO_ICMP
      then ETH_HEADER_SIZE + L2_CRYPTO_MTU - L2_CRYPTO_DATA_OVERHEAD < packet_len
      else False)"

definition l2_crypto_encrypt ::
  "os_env \<Rightarrow> 'c scrypt_api \<Rightarrow> l2_crypto_proto \<Rightarrow> packet_crypto_ctx \<Rightarrow> bytes \<Rightarrow> nat \<Rightarrow> l2_state
   \<Rightarrow> (bytes \<times> nat) cres \<times> l2_state" where
  "l2_crypto_encrypt os lib proto ctx packet packet_len st =
     (if proto = L2_PROTO_UDP then l2_udp_encrypt os lib ctx packet packet_len st
      else l2_tcp_encrypt lib ctx packet packet_len st)"

definition l2_crypto_decrypt ::
  "'c scrypt_api \<Rightarrow> l2_crypto_proto \<Rightarrow> packet_crypto_ctx \<Rightarrow> bytes \<Rightarrow> nat \<Rightarrow> l2_state
   \<Rightarrow> (bytes \<times> nat) cres \<times> l2_state" where
  "l2_crypto_decrypt lib proto ctx packet packet_len st =
     (if proto = L2_PROTO_UDP then l2_udp_decrypt lib ctx packet packet_len st
      else l2_tcp_decrypt lib ctx packet packet_len st)"

section \<open>The wire formats\<close>

text \<open>\<open>m\<close> is the 12 bytes of MAC addresses, \<open>body\<close> the frame from its EtherType on, \<open>l3\<close> the frame
  behind the EtherType.\<close>

definition data_wire :: "'c scrypt_api \<Rightarrow> bytes \<Rightarrow> u8 \<Rightarrow> bytes \<Rightarrow> bytes \<Rightarrow> bytes \<Rightarrow> bytes" where
  "data_wire lib key worker nonce m body =
     m @ [0x10, 0x4A, worker] @ nonce @ sealed lib key nonce body"

definition udp_wire ::
  "'c scrypt_api \<Rightarrow> bytes \<Rightarrow> u8 \<Rightarrow> bytes \<Rightarrow> bytes \<Rightarrow> u8 \<times> u32 \<times> u32 \<times> u32 \<Rightarrow> bytes \<Rightarrow> bytes" where
  "udp_wire lib key worker nonce m meta l3 =
     (case meta of (kind, epoch, seq, datagram_id) \<Rightarrow>
       m @ [0x10, 0x4B, worker] @ nonce @ l2_udp_marker
         @ sealed lib key nonce (l2_udp_shim kind epoch seq datagram_id @ l3))"

definition ctx_ok :: "packet_crypto_ctx \<Rightarrow> bool" where
  "ctx_ok ctx \<longleftrightarrow> ctx_initialized ctx \<and> length (ctx_key ctx) = 32"

lemma ctx_okD: "ctx_ok ctx \<Longrightarrow> ctx_initialized ctx" "ctx_ok ctx \<Longrightarrow> length (ctx_key ctx) = 32"
  "ctx_ok ctx \<Longrightarrow> crypto_pqc_sess_load ctx = Some (ctx_key ctx)"
  by (simp_all add: ctx_ok_def crypto_pqc_sess_load_def)

lemma et_at_12 [simp]: "length m = 12 \<Longrightarrow> eth_read_et (m @ a # b # r) 12 = be16 a b"
  by (simp add: eth_read_et_be16 nth_append)

lemma length_shim [simp]: "length (l2_udp_shim k e s d) = 13"
  by (simp add: l2_udp_shim_def)

lemma length_marker [simp]: "length l2_udp_marker = 4"
  by (simp add: l2_udp_marker_def)

lemma shim_not_Nil [simp]: "l2_udp_shim k e s d \<noteq> []" "l2_udp_shim k e s d @ xs \<noteq> []"
  by (simp_all add: l2_udp_shim_def)

lemma length_wires:
  assumes "aead_laws lib" "length key = 32" "length nonce = 12" "length m = 12"
  shows "body \<noteq> [] \<Longrightarrow> length (data_wire lib key w nonce m body) = length body + 43"
    and "length (udp_wire lib key w nonce m meta l3) = length l3 + 60"
  using assms length_sealed [OF assms(1-3) shim_not_Nil(2)]
  by (auto simp: data_wire_def udp_wire_def length_sealed split: prod.splits)

lemma enc_start_off_eq:
  "l2_enc_start_off pkt n =
     (if 27 \<le> n \<and> eth_read_et pkt 12 \<in> {ETH_P_IP, NE_L2_FAKE_ETHERTYPE, NE_L2_FAKE_ETHERTYPE_UDP}
      then Some 27 else None)"
  by (auto simp: l2_enc_start_off_def l2_nonce_off_def l2_core_id_off_def core_id_off_eq l2_sizes)

lemma nonce_off_eq:
  "l2_nonce_off pkt n =
     (if 15 \<le> n \<and> eth_read_et pkt 12 \<in> {ETH_P_IP, NE_L2_FAKE_ETHERTYPE, NE_L2_FAKE_ETHERTYPE_UDP}
      then Some 15 else None)"
  by (auto simp: l2_nonce_off_def l2_core_id_off_def core_id_off_eq l2_sizes)

lemmas l2_offsets = enc_start_off_eq nonce_off_eq l2_frag_magic_off_def l2_prefix_len_eq
  inner_et_off_eq ipv4_offset_eq has_marker_eq is_ipv4_eq be16_consts

lemma write_header_bytes:
  "l2_write_wire_header_et st p k NE_L2_FAKE_ETHERTYPE nonce =
     mem_write p k ([0x10, 0x4A, g_worker_idx st] @ nonce)"
  "l2_write_wire_header_et st p k NE_L2_FAKE_ETHERTYPE_UDP nonce =
     mem_write p k ([0x10, 0x4B, g_worker_idx st] @ nonce)"
  using mem_write_append [of p k "[_, _, _]" nonce]
  by (simp_all add: l2_write_wire_header_et_def l2_crypto_worker_def eth_consts numeral_3_eq_3)

lemma worker_more: "trf_state.more st' = trf_state.more st \<Longrightarrow> g_worker_idx st' = g_worker_idx st"
  for st st' :: l2_state
  by (cases st; cases st') simp

section \<open>DATA frames: the code implements the format\<close>

lemma do_encrypt_data:
  assumes laws: "aead_laws lib" "ctx_ok ctx" and st: "trf_ok st"
    and m: "length m = 12" and b: "length body + 12 = n" "27 \<le> n" and post: "31 \<le> length post"
    and et: "eth_read_et (m @ body @ post) 12 \<in> {ETH_P_IP, NE_L2_FAKE_ETHERTYPE, NE_L2_FAKE_ETHERTYPE_UDP}"
  obtains nonce st' where "length nonce = 12" "trf_ok st'"
    "l2_do_encrypt lib ctx (m @ body @ post) n st =
      (Done (data_wire lib (ctx_key ctx) (g_worker_idx st) nonce m body @ drop 31 post, n + 31), st')"
    "trf_state.more st' = trf_state.more st"
proof -
  obtain nonce st1 where g: "crypto_pqc_generate_nonce lib st = (Some nonce, st1)" "length nonce = 12"
    "trf_ok st1" "trf_state.more st1 = trf_state.more st"
    using generate_nonce_ok [OF laws(1) st] by blast
  let ?hdr = "[0x10, 0x4A, g_worker_idx st] @ nonce"
  have mv: "mem_move (m @ body @ post) 27 12 (n - 12) =
      Done (m @ take 15 body @ body @ drop 15 post)"
    using mem_move_mid [of m 12 body "n - 12" 27 post] m b post by simp
  have hd: "l2_write_wire_header st1 (m @ take 15 body @ body @ drop 15 post) 12 nonce =
      Done (m @ ?hdr @ body @ drop 15 post)"
    unfolding l2_write_wire_header_def write_header_bytes worker_more [OF g(4)]
    by (rule mem_write_mid) (use m b g in auto)
  have "body \<noteq> []" using b by auto
  then obtain st2 where e: "crypto_pqc_encrypt_payload lib (ctx_key ctx) nonce
        ((m @ ?hdr) @ body @ drop 15 post) 27 (n - 12) st1 =
      (Done ((m @ ?hdr) @ sealed lib (ctx_key ctx) nonce body @ drop 16 (drop 15 post), n - 12 + 16), st2)"
    "trf_ok st2" "trf_state.more st2 = trf_state.more st1"
    by (rule encrypt_payload_ok [OF laws(1) ctx_okD(2) [OF laws(2)] g(2,3),
          of body "m @ ?hdr" 27 "n - 12" "drop 15 post"])
      (use m b g post in auto)
  have "l2_do_encrypt lib ctx (m @ body @ post) n st =
      (Done (data_wire lib (ctx_key ctx) (g_worker_idx st) nonce m body @ drop 31 post, n + 31), st2)"
    using b et mv hd e(1) g(1) ctx_okD(3) [OF laws(2)]
    by (simp add: l2_do_encrypt_def l2_offsets l2_sizes data_wire_def)
  then show ?thesis using that g e by auto
qed

lemma do_decrypt_data:
  assumes laws: "aead_laws lib" "ctx_ok ctx" and st: "trf_ok st"
    and m: "length m = 12" "length nonce = 12" and b: "body \<noteq> []" and n: "n = length body + 43"
  obtains junk st' where "length junk = 31 + length post" "trf_ok st'"
    "l2_do_decrypt lib ctx (data_wire lib (ctx_key ctx) w nonce m body @ post) n st =
      (Done (m @ body @ junk, 12 + length body), st')" "trf_state.more st' = trf_state.more st"
proof -
  let ?pre = "m @ [0x10, 0x4A, w] @ nonce"
  let ?p = "?pre @ sealed lib (ctx_key ctx) nonce body @ post"
  obtain tag st1 where d: "length tag = 16"
    "crypto_pqc_decrypt_payload_resilient lib ctx nonce ?p 27 (n - 27) st =
      (Done (?pre @ body @ tag @ post, length body), st1)"
    "trf_ok st1" "trf_state.more st1 = trf_state.more st"
    using decrypt_payload_ok [OF laws(1) ctx_okD(2) [OF laws(2)] m(2) ctx_okD(1) [OF laws(2)] st b,
        of ?pre 27 "n - 27" post] m n by auto
  have nn: "mem_read ?p 15 12 = nonce"
    using mem_read_mid [of "m @ [0x10, 0x4A, w]" 15 nonce 12] m by simp
  obtain junk where j: "length junk = 15 + length (tag @ post)"
    "mem_move (m @ ([0x10, 0x4A, w] @ nonce) @ body @ (tag @ post)) 12 27 (length body) =
      Done (m @ body @ junk)"
    using mem_move_down [of m 12 "[0x10, 0x4A, w] @ nonce" 27 body "length body" "tag @ post"] m by auto
  have "l2_do_decrypt lib ctx ?p n st = (Done (m @ body @ junk, 12 + length body), st1)"
    using d nn j m n ctx_okD(3) [OF laws(2)]
    by (simp add: l2_do_decrypt_def l2_offsets l2_sizes l2_restore_plain_packet_def)
  then show ?thesis using that d j by (auto simp: data_wire_def)
qed

section \<open>UDP frames: the code implements the format\<close>

lemma epoch_candidate_nonzero: "epoch_candidate os \<noteq> 0"
  by (simp add: epoch_candidate_def epoch_fallback_def Let_def split: option.splits)

lemma tx_meta_ok:
  assumes "g_udp_tx_valid st" "trf_ok st"
  obtains st' where "l2_crypto_udp_tx_meta os st =
      (Some (g_udp_epoch st', g_udp_tx_seq st, g_udp_tx_datagram_id st), st')"
    "trf_ok st'" "g_worker_idx st' = g_worker_idx st" "g_udp_epoch st' \<noteq> 0"
    "g_udp_epoch st' = fst (l2_crypto_epoch os st)"
proof (cases "g_udp_epoch st = 0")
  case True
  let ?s = "st\<lparr>g_udp_epoch := epoch_candidate os\<rparr>"
  from True have e: "l2_crypto_epoch os st = (epoch_candidate os, ?s)"
    by (simp add: l2_crypto_epoch_def epoch_publish_def)
  have "trf_ok ?s" using assms(2) by (simp add: trf_ok_def)
  then show ?thesis
    by (intro that [of ?s])
      (use assms(1) epoch_candidate_nonzero [of os] in \<open>simp_all add: l2_crypto_udp_tx_meta_def e\<close>)
next
  case False
  then have e: "l2_crypto_epoch os st = (g_udp_epoch st, st)" by (simp add: l2_crypto_epoch_def)
  show ?thesis
    by (rule that [of st]) (use assms False in \<open>simp_all add: l2_crypto_udp_tx_meta_def e\<close>)
qed

lemma read_write_shim:
  assumes "kind \<in> {L2_UDP_KIND_FRAG0, L2_UDP_KIND_FRAG1, L2_UDP_KIND_FULL}" "length pre = off"
  shows "l2_udp_read_shim (pre @ l2_udp_shim kind e s d @ post) off = Some (kind, e, s, d)"
  using assms
  by (auto simp: l2_udp_read_shim_def l2_udp_shim_def be32_bytes_def nth_append l2_kinds Let_def)

text \<open>\<open>a\<close>, \<open>b\<close>, \<open>c\<close> are whatever stands where the wire header, the marker and the shim go.\<close>

lemma udp_writes:
  assumes "length m = 12" "length a = 15" "length b = 4" "length c = 13"
  shows "l2_udp_write_shim (m @ a @ b @ c @ r) 31 k e s d = Done (m @ a @ b @ l2_udp_shim k e s d @ r)"
    and "length nonce = 12 \<Longrightarrow> l2_write_wire_header_et st (m @ a @ b @ c @ r) 12 NE_L2_FAKE_ETHERTYPE_UDP nonce =
      Done (m @ ([0x10, 0x4B, g_worker_idx st] @ nonce) @ b @ c @ r)"
    and "length nonce = 12 \<Longrightarrow> l2_udp_marker_write (m @ x # y # z # nonce @ b @ r) 27 =
      Done (m @ x # y # z # nonce @ l2_udp_marker @ r)"
  using mem_write_mid [of "m @ a @ b" 31 "l2_udp_shim k e s d" c r]
    mem_write_mid [of m 12 "[0x10, 0x4B, g_worker_idx st] @ nonce" a "b @ c @ r"]
    mem_write_mid [of "m @ x # y # z # nonce" 27 l2_udp_marker b r] assms
  by (simp_all add: l2_udp_write_shim_def l2_udp_marker_write_def write_header_bytes)

lemma udp_seal:
  assumes laws: "aead_laws lib" "ctx_ok ctx" "length nonce = 12" and st: "trf_ok st" "length m = 12"
    and post: "16 \<le> length post" "len = 13 + length l3"
  obtains st' where "trf_ok st'" "trf_state.more st' = trf_state.more st"
    "crypto_pqc_encrypt_payload lib (ctx_key ctx) nonce
       (m @ ([0x10, 0x4B, w] @ nonce) @ l2_udp_marker @ l2_udp_shim k e s d @ l3 @ post) 31 len st =
     (Done (udp_wire lib (ctx_key ctx) w nonce m (k, e, s, d) l3 @ drop 16 post, len + 16), st')"
  by (rule encrypt_payload_ok [OF laws(1) ctx_okD(2) [OF laws(2)] laws(3) st(1),
        of "l2_udp_shim k e s d @ l3" "m @ ([0x10, 0x4B, w] @ nonce) @ l2_udp_marker" 31 len post])
    (use laws st post in \<open>auto simp: udp_wire_def\<close>)

lemma split_15_4_13:
  assumes "length xs = 32"
  obtains a b c where "xs = a @ b @ c" "length a = 15" "length b = 4" "length c = 13"
proof (rule that)
  show "xs = take 15 xs @ take 4 (drop 15 xs) @ drop 4 (drop 15 xs)" by (metis append_take_drop_id)
qed (use assms in auto)

lemma udp_move_gap:
  assumes m: "length m = 12" and post: "30 \<le> length post"
  obtains a b c where "length a = 15" "length b = 4" "length c = 13"
    "mem_move (m @ x # y # l3 @ post) 44 14 (length l3) = Done (m @ a @ b @ c @ l3 @ drop 30 post)"
proof -
  have mv: "mem_move ((m @ [x, y]) @ l3 @ post) 44 14 (length l3) =
      Done ((m @ [x, y]) @ take 30 (l3 @ post) @ l3 @ drop 30 post)"
    using mem_move_mid [of "m @ [x, y]" 14 l3 "length l3" 44 post] m post by simp
  obtain a b c where abc: "[x, y] @ take 30 (l3 @ post) = a @ b @ c"
    "length a = 15" "length b = 4" "length c = 13"
    by (rule split_15_4_13 [of "[x, y] @ take 30 (l3 @ post)"]) (use post in auto)
  have "mem_move (m @ x # y # l3 @ post) 44 14 (length l3) = Done (m @ a @ b @ c @ l3 @ drop 30 post)"
    using mv abc(1) by (metis append_assoc append_Cons append_Nil)
  then show ?thesis using that abc by blast
qed

lemma do_encrypt_udp_full:
  assumes laws: "aead_laws lib" "ctx_ok ctx" and st: "trf_ok st" "g_udp_tx_valid st"
    and m: "length m = 12" and l3: "20 \<le> length l3" "length l3 \<le> 9156" and post: "46 \<le> length post"
  obtains nonce st' e where "length nonce = 12" "trf_ok st'" "e \<noteq> 0"
    "l2_do_encrypt_udp os lib ctx (m @ [0x08, 0x00] @ l3 @ post) (14 + length l3) st =
      (Done (udp_wire lib (ctx_key ctx) (g_worker_idx st) nonce m
               (L2_UDP_KIND_FULL, e, g_udp_tx_seq st, g_udp_tx_datagram_id st) l3 @ drop 46 post,
             length l3 + 60), st')"
proof -
  obtain st1 where t: "l2_crypto_udp_tx_meta os st =
      (Some (g_udp_epoch st1, g_udp_tx_seq st, g_udp_tx_datagram_id st), st1)"
    "trf_ok st1" "g_worker_idx st1 = g_worker_idx st" "g_udp_epoch st1 \<noteq> 0"
    using tx_meta_ok [OF st(2,1)] by blast
  obtain nonce st2 where g: "crypto_pqc_generate_nonce lib st1 = (Some nonce, st2)" "length nonce = 12"
    "trf_ok st2" "trf_state.more st2 = trf_state.more st1"
    using generate_nonce_ok [OF laws(1) t(2)] by blast
  have w: "g_worker_idx st2 = g_worker_idx st" using worker_more [OF g(4)] t by simp
  obtain a b c where abc: "length a = 15" "length b = 4" "length c = 13"
    and mv: "mem_move (m @ 0x08 # 0x00 # l3 @ post) 44 14 (length l3) =
      Done (m @ a @ b @ c @ l3 @ drop 30 post)"
    by (rule udp_move_gap [OF m, of post]) (use post in auto)
  let ?e = "g_udp_epoch st1" and ?s = "g_udp_tx_seq st" and ?d = "g_udp_tx_datagram_id st"
  obtain st3 where e: "trf_ok st3"
    "crypto_pqc_encrypt_payload lib (ctx_key ctx) nonce (m @ ([0x10, 0x4B, g_worker_idx st] @ nonce)
        @ l2_udp_marker @ l2_udp_shim L2_UDP_KIND_FULL ?e ?s ?d @ l3 @ drop 30 post) 31 (13 + length l3) st2 =
     (Done (udp_wire lib (ctx_key ctx) (g_worker_idx st) nonce m (L2_UDP_KIND_FULL, ?e, ?s, ?d) l3
              @ drop 16 (drop 30 post), 13 + length l3 + 16), st3)"
    by (rule udp_seal [OF laws g(2,3) m, of "drop 30 post" "13 + length l3" l3]) (use post in auto)
  have "l2_do_encrypt_udp os lib ctx (m @ [0x08, 0x00] @ l3 @ post) (14 + length l3) st =
      (Done (udp_wire lib (ctx_key ctx) (g_worker_idx st) nonce m (L2_UDP_KIND_FULL, ?e, ?s, ?d) l3
               @ drop 46 post, length l3 + 60), st3)"
    using t(1) g(1) mv e(2) l3 m ctx_okD(3) [OF laws(2)]
    by (simp add: l2_do_encrypt_udp_def l2_offsets l2_sizes udp_writes [OF m abc(1-3)]
        udp_writes [OF m abc(1,2) length_shim] g(2) w)
  then show ?thesis using that g t e by blast
qed

lemma do_decrypt_udp_wire:
  assumes laws: "aead_laws lib" "ctx_ok ctx" and st: "trf_ok st"
    and m: "length m = 12" "length nonce = 12"
    and k: "kind \<in> {L2_UDP_KIND_FRAG0, L2_UDP_KIND_FRAG1, L2_UDP_KIND_FULL}"
  obtains junk st' where "length junk = 46 + length post" "trf_ok st'"
    "l2_do_decrypt_udp lib ctx (udp_wire lib (ctx_key ctx) w nonce m (kind, e, s, d) l3 @ post)
       (length l3 + 60) st =
     (Done (m @ (if kind = L2_UDP_KIND_FULL then [0x08, 0x00] else [0x10, 0x4B]) @ l3 @ junk,
            14 + length l3, kind, e, s, d), st')"
    "trf_state.more st' = trf_state.more st"
proof -
  let ?pre = "m @ [0x10, 0x4B, w] @ nonce @ l2_udp_marker"
  let ?sh = "l2_udp_shim kind e s d"
  let ?p = "?pre @ sealed lib (ctx_key ctx) nonce (?sh @ l3) @ post"
  obtain tag st1 where d: "length tag = 16"
    "crypto_pqc_decrypt_payload_resilient lib ctx nonce ?p 31 (29 + length l3) st =
      (Done (?pre @ (?sh @ l3) @ tag @ post, length (?sh @ l3)), st1)"
    "trf_ok st1" "trf_state.more st1 = trf_state.more st"
    by (rule decrypt_payload_ok [OF laws(1) ctx_okD(2) [OF laws(2)] m(2) ctx_okD(1) [OF laws(2)] st,
          of "?sh @ l3" ?pre 31 "29 + length l3" post]) (use m in auto)
  have nn: "mem_read ?p 15 12 = nonce" "mem_read ?p 27 4 = l2_udp_marker"
    using mem_read_mid [of "m @ [0x10, 0x4B, w]" 15 nonce 12]
      mem_read_mid [of "m @ [0x10, 0x4B, w] @ nonce" 27 l2_udp_marker 4] m by simp_all
  have sh: "l2_udp_read_shim (?pre @ (?sh @ l3) @ tag @ post) 31 = Some (kind, e, s, d)"
    using read_write_shim [OF k, of ?pre 31] m by simp
  obtain junk where j: "length junk = 30 + length (tag @ post)"
    "mem_move ((m @ [0x10, 0x4B]) @ ([w] @ nonce @ l2_udp_marker @ ?sh) @ l3 @ (tag @ post)) 14 44 (length l3) =
      Done ((m @ [0x10, 0x4B]) @ l3 @ junk)"
    using mem_move_down [of "m @ [0x10, 0x4B]" 14 "[w] @ nonce @ l2_udp_marker @ ?sh" 44 l3 "length l3" "tag @ post"]
      m by auto
  have et: "crypto_eth_set_ipv4_et (m @ 0x10 # 0x4B # l3 @ junk) 12 = m @ 0x08 # 0x00 # l3 @ junk"
    using m by (simp add: crypto_eth_set_ipv4_et_def list_update_append)
  have "l2_do_decrypt_udp lib ctx ?p (length l3 + 60) st =
     (Done (m @ (if kind = L2_UDP_KIND_FULL then [0x08, 0x00] else [0x10, 0x4B]) @ l3 @ junk,
            14 + length l3, kind, e, s, d), st1)"
    using d nn sh j m ctx_okD(3) [OF laws(2)]
    by (cases "kind = L2_UDP_KIND_FULL") (simp_all add: l2_do_decrypt_udp_def l2_udp_marker_match_def l2_offsets l2_sizes et)
  then show ?thesis using that d j by (auto simp: udp_wire_def)
qed

section \<open>Round trips and memory safety\<close>

lemma split_frame:
  assumes "14 \<le> n" "n \<le> length buf"
  obtains m body post where "buf = m @ body @ post" "length m = 12" "length body = n - 12"
    "length buf = n + length post" "take n buf = m @ body"
proof (rule that)
  have "take 12 (take n buf) = take 12 buf" using assms by (simp add: min_def)
  then have "take n buf = take 12 buf @ drop 12 (take n buf)"
    using append_take_drop_id [of 12 "take n buf"] by simp
  then show "take n buf = take 12 buf @ drop 12 (take n buf)"
    "buf = take 12 buf @ drop 12 (take n buf) @ drop n buf"
    by (simp, metis append.assoc append_take_drop_id)
qed (use assms in auto)

lemma split_ipv4_frame:
  assumes "34 \<le> n" "n \<le> length buf" "eth_read_et buf 12 = ETH_P_IP"
  obtains m l3 post where "buf = m @ [0x08, 0x00] @ l3 @ post" "length m = 12"
    "length l3 = n - 14" "length buf = n + length post" "take n buf = m @ [0x08, 0x00] @ l3"
proof -
  obtain m body post where f: "buf = m @ body @ post" "length m = 12" "length body = n - 12"
    "length buf = n + length post" "take n buf = m @ body"
    by (rule split_frame [of n buf]) (use assms in auto)
  have "2 \<le> length body" using f(3) assms(1) by simp
  then obtain a b l3 where b: "body = a # b # l3"
    by (metis Suc_le_length_iff numeral_2_eq_2)
  have "be16 a b = be16 0x08 0x00"
    using assms(3) f(2) unfolding f(1) b be16_consts by simp
  then have "body = [0x08, 0x00] @ l3" by (simp add: b)
  then show ?thesis using that [of m l3 post] f(1,2,3,5) f(4) by simp
qed

abbreviation known_et :: "bytes \<Rightarrow> bool" where
  "known_et buf \<equiv> eth_read_et buf 12 \<in> {ETH_P_IP, NE_L2_FAKE_ETHERTYPE, NE_L2_FAKE_ETHERTYPE_UDP}"

lemma encrypt_data_wire:
  assumes "aead_laws lib" "ctx_ok ctx" "trf_ok st" "proto \<noteq> L2_PROTO_UDP" "27 \<le> n" "n + 31 \<le> length buf" "known_et buf"
  shows "\<exists>nonce pkt st'. length nonce = 12 \<and> l2_crypto_encrypt os lib proto ctx buf n st = (Done (pkt, n + 31), st') \<and>
    take (n + 31) pkt = data_wire lib (ctx_key ctx) (g_worker_idx st) nonce (take 12 buf) (drop 12 (take n buf))"
proof -
  obtain m body post where f: "buf = m @ body @ post" "length m = 12" "length body = n - 12"
    "length buf = n + length post" "take n buf = m @ body"
    by (rule split_frame [of n buf]) (use assms in auto)
  then have b: "length body + 12 = n" "body \<noteq> []" "31 \<le> length post" using assms by auto
  obtain nonce st' where e: "length nonce = 12" "l2_do_encrypt lib ctx buf n st =
      (Done (data_wire lib (ctx_key ctx) (g_worker_idx st) nonce m body @ drop 31 post, n + 31), st')"
    using do_encrypt_data [OF assms(1-3) f(2) b(1) assms(5) b(3)] assms(7) unfolding f(1) by blast
  let ?w = "data_wire lib (ctx_key ctx) (g_worker_idx st) nonce m body"
  have lw: "length ?w = n + 31"
    using length_wires(1) [OF assms(1) ctx_okD(2) [OF assms(2)] e(1) f(2) b(2)] b(1) by simp
  have enc: "l2_crypto_encrypt os lib proto ctx buf n st = (Done (?w @ drop 31 post, n + 31), st')"
    using e(2) assms ctx_okD(1) [OF assms(2)]
    by (simp add: l2_crypto_encrypt_def l2_tcp_encrypt_def l2_offsets l2_sizes)
  have "take 12 buf = m" "drop 12 (take n buf) = body" using f by auto
  then show ?thesis using enc lw e(1) by auto
qed

lemma decrypt_data_wire:
  assumes "aead_laws lib" "ctx_ok ctx" "trf_ok peer" "proto \<noteq> L2_PROTO_UDP" "length nonce = 12" "length m = 12" "15 \<le> length body"
  shows "\<exists>b peer'. l2_crypto_decrypt lib proto ctx (data_wire lib (ctx_key ctx) worker nonce m body @ post) (length body + 43) peer
      = (Done (b, 12 + length body), peer') \<and> take (12 + length body) b = m @ body"
proof -
  have body: "body \<noteq> []" using assms(7) by auto
  obtain junk peer' where "l2_do_decrypt lib ctx (data_wire lib (ctx_key ctx) worker nonce m body @ post) (length body + 43) peer =
      (Done (m @ body @ junk, 12 + length body), peer')"
    by (rule do_decrypt_data [OF assms(1-3,6,5) body, of "length body + 43"]) auto
  then show ?thesis
    using assms(4,6) ctx_okD(1) [OF assms(2)]
    by (simp add: l2_crypto_decrypt_def l2_tcp_decrypt_def l2_offsets data_wire_def)
qed

lemma data_roundtrip:
  assumes "aead_laws lib" "ctx_ok ctx" "trf_ok st" "trf_ok peer" "proto \<noteq> L2_PROTO_UDP"
    and "27 \<le> n" "n + 31 \<le> length buf" "known_et buf"
  shows "\<exists>pkt st'. l2_crypto_encrypt os lib proto ctx buf n st = (Done (pkt, n + 31), st') \<and>
    (\<forall>post. \<exists>pkt' peer'. l2_crypto_decrypt lib proto ctx (take (n + 31) pkt @ post) (n + 31) peer
        = (Done (pkt', n), peer') \<and> take n pkt' = take n buf)"
proof -
  obtain nonce pkt st' where e: "length nonce = 12" "l2_crypto_encrypt os lib proto ctx buf n st = (Done (pkt, n + 31), st')"
    "take (n + 31) pkt = data_wire lib (ctx_key ctx) (g_worker_idx st) nonce (take 12 buf) (drop 12 (take n buf))"
    using encrypt_data_wire [OF assms(1-3,5-8)] by blast
  have l: "length (take 12 buf) = 12" "15 \<le> length (drop 12 (take n buf))" "length (drop 12 (take n buf)) + 43 = n + 31"
    "12 + length (drop 12 (take n buf)) = n" "take 12 buf @ drop 12 (take n buf) = take n buf"
    using assms(6,7) append_take_drop_id [of 12 "take n buf"] by (auto simp: min_def)
  show ?thesis
    using decrypt_data_wire [OF assms(1,2,4,5) e(1) l(1,2)] e(2,3) unfolding l(3-5) by auto
qed

text \<open>An IPv4 frame (or one that already carries a marker) encrypted as DATA or ICMP grows by exactly 31
  bytes, and whatever buffer the wire bytes arrive in at the peer, decrypting them there gives back
  the frame, byte for byte.\<close>
theorem l2_data_roundtrip:
  assumes "aead_laws lib" "ctx_ok ctx" "trf_ok st" "trf_ok peer" "proto \<noteq> L2_PROTO_UDP"
    and "27 \<le> n" "n + 31 \<le> length buf" "known_et buf"
  shows "\<exists>pkt st'. l2_crypto_encrypt os lib proto ctx buf n st = (Done (pkt, n + 31), st') \<and>
    (\<forall>post. \<exists>pkt' peer'. l2_crypto_decrypt lib proto ctx (take (n + 31) pkt @ post) (n + 31) peer
        = (Done (pkt', n), peer') \<and> take n pkt' = take n buf)"
  using assms by (rule data_roundtrip)

text \<open>An IPv4 datagram encrypted whole as UDP grows by exactly 46 bytes, and the peer's decryption of
  the wire bytes, in whatever buffer, gives back the datagram, byte for byte.\<close>
theorem l2_udp_roundtrip:
  assumes "aead_laws lib" "ctx_ok ctx" "trf_ok st" "g_udp_tx_valid st" "trf_ok peer"
    and "34 \<le> n" "n \<le> 9170" "n + 46 \<le> length buf" "eth_read_et buf 12 = ETH_P_IP"
  shows "\<exists>pkt st'. l2_crypto_encrypt os lib L2_PROTO_UDP ctx buf n st = (Done (pkt, n + 46), st') \<and>
    (\<forall>post. \<exists>pkt' peer'. l2_crypto_decrypt lib L2_PROTO_UDP ctx (take (n + 46) pkt @ post) (n + 46) peer
        = (Done (pkt', n), peer') \<and> take n pkt' = take n buf)"
proof -
  obtain m l3 post where f: "buf = m @ [0x08, 0x00] @ l3 @ post" "length m = 12"
    "length l3 = n - 14" "length buf = n + length post" "take n buf = m @ [0x08, 0x00] @ l3"
    by (rule split_ipv4_frame [of n buf]) (use assms in auto)
  then have b: "14 + length l3 = n" "20 \<le> length l3" "length l3 \<le> 9156" "46 \<le> length post"
    using assms by auto
  have n46: "length l3 + 60 = n + 46" using b(1) by simp
  let ?meta = "\<lambda>e. (L2_UDP_KIND_FULL, e, g_udp_tx_seq st, g_udp_tx_datagram_id st)"
  obtain nonce st' e where e: "length nonce = 12" "l2_do_encrypt_udp os lib ctx buf n st =
      (Done (udp_wire lib (ctx_key ctx) (g_worker_idx st) nonce m (?meta e) l3 @ drop 46 post,
             n + 46), st')"
    using do_encrypt_udp_full [OF assms(1-4) f(2) b(2-4), of os] unfolding f(1) b(1) n46
    by blast
  let ?w = "udp_wire lib (ctx_key ctx) (g_worker_idx st) nonce m (?meta e) l3"
  have lw: "length ?w = n + 46"
    using length_wires(2) [OF assms(1) ctx_okD(2) [OF assms(2)] e(1) f(2)] b(1) by simp
  have enc: "l2_crypto_encrypt os lib L2_PROTO_UDP ctx buf n st = (Done (?w @ drop 46 post, n + 46), st')"
    using e(2) assms ctx_okD(1) [OF assms(2)]
    by (simp add: l2_crypto_encrypt_def l2_udp_encrypt_def l2_offsets l2_sizes)
  have "\<exists>pkt' peer'. l2_crypto_decrypt lib L2_PROTO_UDP ctx (?w @ post') (n + 46) peer = (Done (pkt', n), peer')
      \<and> take n pkt' = take n buf" for post'
  proof -
    obtain junk peer' where "l2_do_decrypt_udp lib ctx (?w @ post') (length l3 + 60) peer =
        (Done (m @ [0x08, 0x00] @ l3 @ junk, 14 + length l3, ?meta e), peer')"
      by (rule do_decrypt_udp_wire [OF assms(1,2,5) f(2) e(1), of L2_UDP_KIND_FULL]) auto
    moreover have "take n (m @ [0x08, 0x00] @ l3 @ junk) = take n buf"
    proof -
      have "length (m @ [0x08, 0x00] @ l3) = n" using f(2) b(1) by simp
      then show ?thesis unfolding f(5) by (metis append_assoc append_eq_conv_conj)
    qed
    ultimately show ?thesis
      unfolding n46 using f(2) b ctx_okD(1) [OF assms(2)] assms(6)
      by (simp add: l2_crypto_decrypt_def l2_udp_decrypt_def l2_offsets udp_wire_def)
  qed
  then show ?thesis using enc lw by auto
qed

lemma do_decrypt_in_bounds:
  assumes "aead_laws lib" "n \<le> length buf" "l2_do_decrypt lib ctx buf n st = (r, st')"
  shows "r \<noteq> Fault \<and> (\<forall>p k. r = Done (p, k) \<longrightarrow> length p = length buf \<and> k + 31 \<le> n)"
proof (cases "l2_enc_start_off buf n")
  case (Some k)
  then have k: "k = 27" "27 \<le> n" by (auto simp: enc_start_off_eq split: if_splits)
  let ?d = "crypto_pqc_decrypt_payload_resilient lib ctx (mem_read buf (the (l2_nonce_off buf n)) 12) buf 27 (n - 27) st"
  obtain q st1 where q: "?d = (q, st1)" by force
  have bd: "q \<noteq> Fault \<and> (\<forall>b j. q = Done (b, j) \<longrightarrow> length b = length buf \<and> j + 16 \<le> n - 27)"
    by (rule decrypt_resilient_in_bounds [OF assms(1) _ q]) (use assms(2) k in simp)
  show ?thesis
    using assms(2,3) k bd
    by (cases q)
      (auto simp: l2_do_decrypt_def Some q l2_sizes l2_restore_plain_packet_def l2_prefix_len_eq
        inner_et_off_eq mem_move_def mem_write_def split: option.splits if_splits)
qed (use assms(3) in \<open>auto simp: l2_do_decrypt_def\<close>)

lemma do_decrypt_udp_in_bounds:
  assumes "aead_laws lib" "n \<le> length buf" "l2_do_decrypt_udp lib ctx buf n st = (r, st')"
  shows "r \<noteq> Fault \<and> (\<forall>p k meta. r = Done (p, k, meta) \<longrightarrow> length p = length buf \<and> k + 46 \<le> n)"
proof (cases "l2_udp_marker_match buf n (l2_frag_magic_off buf n) \<and> 60 \<le> n")
  case True
  then have k: "l2_frag_magic_off buf n = Some 27" "60 \<le> n"
    by (auto simp: l2_frag_magic_off_def l2_udp_marker_match_def enc_start_off_eq split: if_splits)
  let ?d = "crypto_pqc_decrypt_payload_resilient lib ctx (mem_read buf (the (l2_nonce_off buf n)) 12) buf 31 (n - 31) st"
  obtain q st1 where q: "?d = (q, st1)" by force
  have bd: "q \<noteq> Fault \<and> (\<forall>b j. q = Done (b, j) \<longrightarrow> length b = length buf \<and> j + 16 \<le> n - 31)"
    by (rule decrypt_resilient_in_bounds [OF assms(1) _ q]) (use assms(2) k in simp)
  show ?thesis
    using assms(2,3) k bd True
    by (cases q)
      (auto simp: l2_do_decrypt_udp_def Let_def q l2_sizes l2_prefix_len_eq
        inner_et_off_eq mem_move_def mem_write_def crypto_eth_set_ipv4_et_def
        split: option.splits if_splits)
next
  case False
  then have "r = Fail"
    using assms(3)
    by (auto simp: l2_do_decrypt_udp_def Let_def l2_sizes l2_frag_magic_off_def enc_start_off_eq
        l2_udp_marker_match_def split: option.splits if_splits)
  then show ?thesis by simp
qed

text \<open>C19: Decrypting any bytes whatsoever received in a buffer never writes outside the buffer, keeps its
  size, and never returns a packet longer than the received one.\<close>
theorem l2_decrypt_memory_safe:
  assumes "aead_laws lib" "n \<le> length buf" "l2_crypto_decrypt lib proto ctx buf n st = (r, st')"
  shows "r \<noteq> Fault \<and> (\<forall>p k. r = Done (p, k) \<longrightarrow> length p = length buf \<and> k \<le> n)"
proof (cases "proto = L2_PROTO_UDP")
  case True
  obtain q st1 where q: "l2_do_decrypt_udp lib ctx buf n st = (q, st1)" by force
  from do_decrypt_udp_in_bounds [OF assms(1,2) q] assms(3) True show ?thesis
    by (cases q) (auto simp: l2_crypto_decrypt_def l2_udp_decrypt_def q split: if_splits)
next
  case False
  obtain q st1 where q: "l2_do_decrypt lib ctx buf n st = (q, st1)" by force
  from do_decrypt_in_bounds [OF assms(1,2) q] assms(3) False show ?thesis
    by (auto simp: l2_crypto_decrypt_def l2_tcp_decrypt_def q split: if_splits)
qed

lemma tcp_encrypt_outcome:
  assumes "aead_laws lib" "ctx_ok ctx" "trf_ok st" "n + 31 \<le> length buf"
    "l2_tcp_encrypt lib ctx buf n st = (r, st')"
  shows "if 27 \<le> n \<and> known_et buf then \<exists>p. r = Done (p, n + 31) \<and> length p = length buf else r = Fail"
proof (cases "27 \<le> n \<and> known_et buf")
  case True
  obtain m body post where f: "buf = m @ body @ post" "length m = 12" "length body = n - 12"
    "length buf = n + length post"
    by (rule split_frame [of n buf]) (use True assms(4) in auto)
  then have b: "length body + 12 = n" "31 \<le> length post" "body \<noteq> []" using True assms(4) by auto
  obtain nonce st1 where e: "length nonce = 12" "l2_do_encrypt lib ctx buf n st =
      (Done (data_wire lib (ctx_key ctx) (g_worker_idx st) nonce m body @ drop 31 post, n + 31), st1)"
    using do_encrypt_data [OF assms(1-3) f(2) b(1) _ b(2)] True unfolding f(1) by blast
  then show ?thesis
    using True assms(5) ctx_okD(1) [OF assms(2)] f(4) b
      length_wires(1) [OF assms(1) ctx_okD(2) [OF assms(2)] e(1) f(2) b(3)]
    by (auto simp: l2_tcp_encrypt_def l2_offsets l2_sizes)
next
  case False
  then show ?thesis using assms(5)
    by (auto simp: l2_tcp_encrypt_def l2_do_encrypt_def l2_offsets l2_sizes split: if_splits)
qed

lemma udp_encrypt_outcome:
  assumes "aead_laws lib" "ctx_ok ctx" "trf_ok st" "n + 46 \<le> length buf"
    "l2_udp_encrypt os lib ctx buf n st = (r, st')"
  shows "if n < 22 then r = Fail
    else if \<not> crypto_pkt_is_ipv4 buf n then r = Done (buf, n)
    else if \<not> g_udp_tx_valid st \<or> 9170 < n then r = Fail
    else \<exists>p. r = Done (p, n + 46) \<and> length p = length buf"
proof (cases "34 \<le> n \<and> eth_read_et buf 12 = ETH_P_IP")
  case ip: True
  show ?thesis
  proof (cases "g_udp_tx_valid st \<and> n \<le> 9170")
    case True
    obtain m l3 post where f: "buf = m @ [0x08, 0x00] @ l3 @ post" "length m = 12"
      "length l3 = n - 14" "length buf = n + length post"
      by (rule split_ipv4_frame [of n buf]) (use ip assms(4) in auto)
    then have b: "14 + length l3 = n" "20 \<le> length l3" "length l3 \<le> 9156" "46 \<le> length post"
      "length l3 + 60 = n + 46"
      using assms(4) True ip by auto
    obtain nonce st1 e where e: "length nonce = 12" "l2_do_encrypt_udp os lib ctx buf n st =
        (Done (udp_wire lib (ctx_key ctx) (g_worker_idx st) nonce m
          (L2_UDP_KIND_FULL, e, g_udp_tx_seq st, g_udp_tx_datagram_id st) l3 @ drop 46 post, n + 46), st1)"
      using do_encrypt_udp_full [OF assms(1-3) _ f(2) b(2-4), of os] True unfolding f(1) b(1) b(5)
      by blast
    then show ?thesis
      using True ip assms(5) ctx_okD(1) [OF assms(2)] f(4) b
        length_wires(2) [OF assms(1) ctx_okD(2) [OF assms(2)] e(1) f(2)]
      by (auto simp: l2_udp_encrypt_def l2_offsets l2_sizes)
  next
    case False
    with ip have "r = Fail" using assms(5)
      by (auto simp: l2_udp_encrypt_def l2_do_encrypt_udp_def l2_crypto_udp_tx_meta_def l2_offsets
          l2_sizes Let_def split: if_splits prod.splits)
    then show ?thesis using False ip by (auto simp: l2_offsets)
  qed
next
  case False
  then show ?thesis using assms(2,5)
    by (auto simp: l2_udp_encrypt_def l2_offsets l2_sizes ctx_okD split: if_splits)
qed

text \<open>C20: With 46 bytes of room behind the packet, encryption never writes outside the buffer. A packet that is sealed
  grows by exactly 46 bytes (UDP) or 31 bytes (DATA, ICMP), any other passes with its length; a sealed UDP or
  ICMP packet is within the MTU of 9000 bytes plus the Ethernet header exactly when the split test says
  that it need not be split, while a sealed DATA packet, for which that test is always negative, is
  within it exactly when it had at most 8983 bytes before (TCP segments are kept below that by the MSS
  clamp; larger ones are dropped by the length test of the caller).\<close>
theorem l2_encrypt_safe_and_fits:
  assumes "aead_laws lib" "ctx_ok ctx" "trf_ok st" "n + 46 \<le> length buf"
    "l2_crypto_encrypt os lib proto ctx buf n st = (r, st')"
  shows "r \<noteq> Fault \<and>
    (\<forall>p k. r = Done (p, k) \<longrightarrow> length p = length buf \<and> (k = n \<or> k = n + (if proto = L2_PROTO_UDP then 46 else 31)) \<and>
       (k \<noteq> n \<longrightarrow> (k \<le> 14 + 9000 \<longleftrightarrow> (if proto = L2_PROTO_DATA then n \<le> 8983 else \<not> l2_crypto_need_split proto n))) \<and>
       \<not> l2_crypto_need_split L2_PROTO_DATA n)"
proof (cases "proto = L2_PROTO_UDP")
  case True
  then have "l2_udp_encrypt os lib ctx buf n st = (r, st')"
    using assms(5) by (simp add: l2_crypto_encrypt_def)
  from udp_encrypt_outcome [OF assms(1-4) this] True show ?thesis
    by (auto simp: l2_crypto_need_split_def l2_crypto_need_udp_split_def l2_udp_need_split_def
        l2_sizes split: if_splits)
next
  case False
  then have "l2_tcp_encrypt lib ctx buf n st = (r, st')"
    using assms(5) by (simp add: l2_crypto_encrypt_def)
  from tcp_encrypt_outcome [OF assms(1-3) _ this] assms(4) False show ?thesis
    by (cases proto) (auto simp: l2_crypto_need_split_def l2_sizes split: if_splits)
qed

section \<open>Witnesses\<close>

definition demo_ctx :: packet_crypto_ctx where
  "demo_ctx = \<lparr>ctx_key = replicate 32 5, ctx_initialized = True\<rparr>"

definition demo_l2 :: l2_state where
  "demo_l2 = \<lparr>initialized = True, nonce_salt = [], nonce_counter = 0, nonce_ready = False,
     cipher_e = False, cipher_d = False, lib_calls = 0, g_worker_idx = 3, g_udp_epoch = 0,
     g_udp_tx_seq = 8, g_udp_tx_datagram_id = 4, g_udp_tx_datagram_clock = 5, g_udp_tx_valid = True\<rparr>"

definition demo_frame :: bytes where
  "demo_frame = replicate 12 2 @ [0x08, 0x00] @ [0x45] @ replicate 24 1 @ replicate 61 0"

lemma demo_facts:
  "ctx_ok demo_ctx" "trf_ok demo_l2" "g_udp_tx_valid demo_l2" "length demo_frame = 100"
  "eth_read_et demo_frame 12 = ETH_P_IP"
  by (simp_all add: ctx_ok_def demo_ctx_def trf_ok_def demo_l2_def demo_frame_def eth_read_et_def
      eth_consts nth_append)

definition demo_os :: os_env where
  "demo_os = \<lparr>os_getrandom = None, os_tv_sec = 17, os_tv_nsec = 4, os_getpid = 1\<rparr>"

theorem l2_data_roundtrip_witness:
  "\<exists>pkt st'. l2_crypto_encrypt demo_os demo_api L2_PROTO_DATA demo_ctx demo_frame 39 demo_l2
      = (Done (pkt, 70), st')
   \<and> (\<exists>pkt' peer'. l2_crypto_decrypt demo_api L2_PROTO_DATA demo_ctx (take 70 pkt @ [1, 2]) 70 demo_l2
        = (Done (pkt', 39), peer') \<and> take 39 pkt' = take 39 demo_frame)"
proof -
  have "(39::nat) + 31 = 70" by simp
  then show ?thesis
    using l2_data_roundtrip [of demo_api demo_ctx demo_l2 demo_l2 L2_PROTO_DATA 39 demo_frame demo_os]
      demo_facts demo_laws by auto
qed

theorem l2_udp_roundtrip_witness:
  "\<exists>pkt st'. l2_crypto_encrypt demo_os demo_api L2_PROTO_UDP demo_ctx demo_frame 39 demo_l2
      = (Done (pkt, 85), st')
   \<and> (\<exists>pkt' peer'. l2_crypto_decrypt demo_api L2_PROTO_UDP demo_ctx (take 85 pkt @ [1, 2]) 85 demo_l2
        = (Done (pkt', 39), peer') \<and> take 39 pkt' = take 39 demo_frame)"
proof -
  have "(39::nat) + 46 = 85" by simp
  then show ?thesis
    using l2_udp_roundtrip [of demo_api demo_ctx demo_l2 demo_l2 39 demo_frame demo_os]
      demo_facts demo_laws by auto
qed

theorem l2_decrypt_memory_safe_witness:
  "fst (l2_crypto_decrypt demo_api L2_PROTO_UDP demo_ctx demo_frame 100 demo_l2) \<noteq> Fault"
  using l2_decrypt_memory_safe [of demo_api 100 demo_frame L2_PROTO_UDP demo_ctx demo_l2
      "fst (l2_crypto_decrypt demo_api L2_PROTO_UDP demo_ctx demo_frame 100 demo_l2)"
      "snd (l2_crypto_decrypt demo_api L2_PROTO_UDP demo_ctx demo_frame 100 demo_l2)"]
    demo_facts(4) demo_laws by simp

theorem l2_encrypt_safe_and_fits_witness:
  "fst (l2_crypto_encrypt demo_os demo_api L2_PROTO_UDP demo_ctx demo_frame 39 demo_l2) \<noteq> Fault"
  using l2_encrypt_safe_and_fits [of demo_api demo_ctx demo_l2 39 demo_frame demo_os L2_PROTO_UDP
      "fst (l2_crypto_encrypt demo_os demo_api L2_PROTO_UDP demo_ctx demo_frame 39 demo_l2)"
      "snd (l2_crypto_encrypt demo_os demo_api L2_PROTO_UDP demo_ctx demo_frame 39 demo_l2)"]
    demo_facts demo_laws by simp

end
