(* ===== verification/Umem.thy ===== *)
theory Umem
  imports Ring L2_Wire
begin

unbundle bit_operations_syntax

text \<open>
  The UMEM side of \<^verbatim>\<open>src/core/iface/xdp_interface.c\<close>: the pool of free frame addresses and the
  packets of up to four segments that live in the shared memory area. Memory is the byte list
  \<open>bufs\<close>, an address an offset into it (\<^verbatim>\<open>xsk_umem__get_data\<close>), and copies are checked against the
  area. The pool is a second instance of the FIFO contract of the packet rings; the theorems say that
  packets neither lose nor duplicate frames, and that what is written into a packet is read back.
\<close>

definition NE_PACKET_MAX_SEGS :: nat where "NE_PACKET_MAX_SEGS = 4"
definition NE_FRAME :: nat where "NE_FRAME = 4096"

section \<open>The frame pool\<close>

record ne_pool =
  pl_buf :: "u64 list"
  pl_cap :: u32
  pl_mask :: u32
  pl_head :: u32
  pl_tail :: u32

definition zero_pool :: ne_pool where
  "zero_pool = \<lparr>pl_buf = [], pl_cap = 0, pl_mask = 0, pl_head = 0, pl_tail = 0\<rparr>"

definition pool_init :: "bool \<Rightarrow> bool \<Rightarrow> ne_pool \<Rightarrow> u32 \<Rightarrow> bool \<times> ne_pool" where
  \<comment> \<open>the outcomes of \<^verbatim>\<open>calloc\<close> and of the lock initialisation come first\<close>
  "pool_init calloc_ok lock_ok p cap =
     (if cap = 0 \<or> cap AND (cap - 1) \<noteq> 0 then (False, p)
      else if \<not> calloc_ok then (False, zero_pool)
      else if \<not> lock_ok then (False, zero_pool)
      else (True, \<lparr>pl_buf = replicate (unat cap) 0, pl_cap = cap, pl_mask = cap - 1,
                   pl_head = 0, pl_tail = 0\<rparr>))"

definition pool_destroy :: "ne_pool \<Rightarrow> ne_pool" where
  "pool_destroy p = (if pl_buf p = [] then p else zero_pool)"

text \<open>The copy loop of \<^verbatim>\<open>pool_push\<close>, from counter \<open>h\<close> on.\<close>

fun pool_write :: "'a list \<Rightarrow> u32 \<Rightarrow> u32 \<Rightarrow> 'a list \<Rightarrow> 'a list" where
  "pool_write buf m h [] = buf"
| "pool_write buf m h (a # as) = pool_write (buf[ring_slot m h := a]) m (h + 1) as"

definition pool_push :: "ne_pool \<Rightarrow> u64 list \<Rightarrow> nat \<times> ne_pool" where
  "pool_push p addrs =
     (let free_slots = pl_cap p - (pl_head p - pl_tail p);
          put = (if length addrs < unat free_slots then length addrs else unat free_slots);
          head = pl_head p
      in (put, p\<lparr>pl_buf := pool_write (pl_buf p) (pl_mask p) head (take put addrs),
                 pl_head := pl_head p + of_nat put\<rparr>))"

definition pool_pop :: "ne_pool \<Rightarrow> nat \<Rightarrow> u64 list \<times> ne_pool" where
  "pool_pop p n =
     (let avail = pl_head p - pl_tail p;
          got = (if n < unat avail then n else unat avail);
          tail = pl_tail p
      in (map (\<lambda>i. pl_buf p ! ring_slot (pl_mask p) (tail + of_nat i)) [0..<got],
          p\<lparr>pl_tail := pl_tail p + of_nat got\<rparr>))"

definition pool_list :: "ne_pool \<Rightarrow> u64 list" where
  "pool_list p = slots (pl_buf p) (pl_mask p) (pl_tail p) (unat (pl_head p - pl_tail p))"

definition pool_inv :: "ne_pool \<Rightarrow> bool" where
  "pool_inv p \<longleftrightarrow> pow2_cap (pl_cap p) \<and> pl_mask p = pl_cap p - 1 \<and> length (pl_buf p) = unat (pl_cap p) \<and>
     pl_head p - pl_tail p \<le> pl_cap p"

section \<open>The memory area and packets\<close>

record ne_pair =
  bufs :: bytes
  frame_size :: nat
  pool :: ne_pool

datatype ne_packet_dir = NE_DIR_LOCAL | NE_DIR_WAN

record ne_packet =
  addr :: u64
  seg_addr :: "u64 list"
  len :: nat
  seg_len :: "nat list"
  seg_cap :: "nat list"
  dir :: ne_packet_dir
  wan_idx :: nat
  local_idx :: nat
  tx_slot :: nat
  nsegs :: nat

definition zero_packet :: ne_packet where
  "zero_packet = \<lparr>addr = 0, seg_addr = [0, 0, 0], len = 0, seg_len = [0, 0, 0, 0], seg_cap = [0, 0, 0, 0],
     dir = NE_DIR_LOCAL, wan_idx = 0, local_idx = 0, tx_slot = 0, nsegs = 0\<rparr>"

definition ne_frame_alloc :: "ne_pair \<Rightarrow> u64 option \<times> ne_pair" where
  "ne_frame_alloc p =
     (case pool_pop (pool p) 1 of
        ([a], pl) \<Rightarrow> (Some a, p\<lparr>pool := pl\<rparr>)
      | (_, pl) \<Rightarrow> (None, p\<lparr>pool := pl\<rparr>))"

definition ne_frame_alloc_batch :: "ne_pair \<Rightarrow> nat \<Rightarrow> u64 list \<times> ne_pair" where
  "ne_frame_alloc_batch p max_n =
     (if max_n = 0 then ([], p)
      else let (as, pl) = pool_pop (pool p) max_n in (as, p\<lparr>pool := pl\<rparr>))"

definition ne_frame_free :: "ne_pair \<Rightarrow> u64 \<Rightarrow> ne_pair" where
  "ne_frame_free p a = p\<lparr>pool := snd (pool_push (pool p) [a])\<rparr>"

definition ne_pool_free_count :: "ne_pair \<Rightarrow> u32" where
  "ne_pool_free_count p = (if pl_buf (pool p) = [] then 0 else pl_head (pool p) - pl_tail (pool p))"

definition packet_seg_addr :: "ne_packet \<Rightarrow> nat \<Rightarrow> u64" where
  "packet_seg_addr pkt seg = (if seg = 0 then addr pkt else seg_addr pkt ! (seg - 1))"

definition packet_set_seg_addr :: "ne_packet \<Rightarrow> nat \<Rightarrow> u64 \<Rightarrow> ne_packet" where
  "packet_set_seg_addr pkt seg a =
     (if seg = 0 then pkt\<lparr>addr := a\<rparr> else pkt\<lparr>seg_addr := (seg_addr pkt)[seg - 1 := a]\<rparr>)"

text \<open>\<^verbatim>\<open>memcpy(dst + d, src + s, n)\<close>; reading or writing outside the buffers is a \<open>Fault\<close>.\<close>

definition mem_copy :: "bytes \<Rightarrow> nat \<Rightarrow> bytes \<Rightarrow> nat \<Rightarrow> nat \<Rightarrow> bytes cres" where
  "mem_copy dst d src s n = (if s + n \<le> length src then mem_write dst d (mem_read src s n) else Fault)"

text \<open>The segment loop of \<^verbatim>\<open>ne_packet_linearize\<close>.\<close>

fun linearize_segs :: "bytes \<Rightarrow> ne_packet \<Rightarrow> nat \<Rightarrow> nat list \<Rightarrow> nat \<Rightarrow> bytes \<Rightarrow> (bytes \<times> nat) cres" where
  "linearize_segs mem pkt n_segs [] off dst = Done (dst, off)"
| "linearize_segs mem pkt n_segs (i # is) off dst =
     (let n = seg_len pkt ! i;
          n = (if n_segs = 1 \<and> n = 0 then len pkt else n);
          a = unat (packet_seg_addr pkt i) in
      if len pkt - off < n then Fail
      else cbind (mem_copy dst off mem a n) (\<lambda>d. linearize_segs mem pkt n_segs is (off + n) d))"

definition ne_packet_linearize :: "ne_pair \<Rightarrow> ne_packet \<Rightarrow> bytes \<Rightarrow> nat \<Rightarrow> bytes cres" where
  "ne_packet_linearize p pkt dst dst_size =
     (if dst_size < len pkt then Fail else
      let n_segs = (if nsegs pkt \<noteq> 0 then nsegs pkt else 1) in
      if NE_PACKET_MAX_SEGS < n_segs then Fail
      else cbind (linearize_segs (bufs p) pkt n_segs [0..<n_segs] 0 dst) (\<lambda>(d, off).
           if off = len pkt then Done d else Fail))"

definition packet_nsegs :: "ne_packet \<Rightarrow> nat" where
  "packet_nsegs pkt = (if nsegs pkt \<noteq> 0 then nsegs pkt else if addr pkt \<noteq> 0 \<or> len pkt \<noteq> 0 then 1 else 0)"

definition seg_room :: "ne_packet \<Rightarrow> nat \<Rightarrow> nat" where
  "seg_room pkt i = (if seg_cap pkt ! i \<noteq> 0 then seg_cap pkt ! i else seg_len pkt ! i)"

text \<open>The allocation loop of \<^verbatim>\<open>ne_packet_write\<close>; \<open>k\<close> counts the segments that may still be added.\<close>

fun packet_grow :: "nat \<Rightarrow> nat \<Rightarrow> ne_pair \<Rightarrow> ne_packet \<Rightarrow> nat \<Rightarrow> nat \<Rightarrow> ne_pair \<times> ne_packet \<times> nat \<times> nat" where
  "packet_grow want 0 p pkt n_segs capacity = (p, pkt, n_segs, capacity)"
| "packet_grow want (Suc k) p pkt n_segs capacity =
     (if want \<le> capacity then (p, pkt, n_segs, capacity)
      else case ne_frame_alloc p of
        (None, p1) \<Rightarrow> (p1, pkt, n_segs, capacity)
      | (Some a, p1) \<Rightarrow>
          let pkt1 = packet_set_seg_addr pkt n_segs a;
              pkt2 = pkt1\<lparr>seg_cap := (seg_cap pkt1)[n_segs := frame_size p mod 2 ^ 16],
                          seg_len := (seg_len pkt1)[n_segs := 0], nsegs := n_segs + 1\<rparr>
          in packet_grow want k p1 pkt2 (n_segs + 1) (capacity + frame_size p))"

text \<open>The copy loop and the loop that returns unused segments to the pool.\<close>

fun packet_copy :: "bytes \<Rightarrow> nat \<Rightarrow> nat list \<Rightarrow> nat \<Rightarrow> bytes \<Rightarrow> ne_packet \<Rightarrow> (bytes \<times> ne_packet \<times> nat) cres" where
  "packet_copy src want [] off mem pkt = Done (mem, pkt, off)"
| "packet_copy src want (i # is) off mem pkt =
     (let cap = seg_room pkt i;
          n = (if cap < want - off then cap else want - off) in
      cbind (if n \<noteq> 0 then mem_copy mem (unat (packet_seg_addr pkt i)) src off n else Done mem)
        (\<lambda>m. packet_copy src want is (off + n) m (pkt\<lparr>seg_len := (seg_len pkt)[i := n]\<rparr>)))"

fun packet_trim :: "nat list \<Rightarrow> ne_pair \<Rightarrow> ne_packet \<Rightarrow> ne_pair \<times> ne_packet" where
  "packet_trim [] p pkt = (p, pkt)"
| "packet_trim (i # is) p pkt =
     (let p1 = ne_frame_free p (packet_seg_addr pkt i);
          pkt1 = packet_set_seg_addr pkt i 0
      in packet_trim is p1 (pkt1\<lparr>seg_cap := (seg_cap pkt1)[i := 0]\<rparr>))"

fun used_segs :: "ne_packet \<Rightarrow> nat \<Rightarrow> nat \<Rightarrow> nat" where
  "used_segs pkt 0 used = used"
| "used_segs pkt (Suc k) used = (if seg_len pkt ! used \<noteq> 0 then used_segs pkt k (used + 1) else used)"

text \<open>The result is 0 (\<open>Done True\<close>) or -1 (\<open>Done False\<close>); the packet and the pair change either way.\<close>

definition ne_packet_write ::
  "ne_pair \<Rightarrow> ne_packet \<Rightarrow> bytes \<Rightarrow> nat \<Rightarrow> bool cres \<times> ne_pair \<times> ne_packet" where
  "ne_packet_write p pkt src want =
     (if want = 0 \<or> NE_JUMBO_FRAME_MAX < want then (Done False, p, pkt) else
      let n0 = packet_nsegs pkt;
          capacity = sum_list (map (seg_room pkt) [0..<n0]) in
      case packet_grow want (NE_PACKET_MAX_SEGS - n0) p pkt n0 capacity of
        (p1, pkt1, n1, capacity1) \<Rightarrow>
          if capacity1 < want then (Done False, p1, pkt1)
          else mem_then (packet_copy src want [0..<n1] 0 (bufs p1) pkt1) (p1, pkt1) (\<lambda>(mem, pkt2, off).
            let used = used_segs pkt2 n1 0 in
            case packet_trim [used..<n1] (p1\<lparr>bufs := mem\<rparr>) pkt2 of
              (p3, pkt3) \<Rightarrow> (Done (off = want), p3, pkt3\<lparr>nsegs := used, len := want\<rparr>)))"

fun free_segs :: "ne_pair \<Rightarrow> ne_packet \<Rightarrow> nat list \<Rightarrow> ne_pair" where
  "free_segs p pkt [] = p"
| "free_segs p pkt (i # is) = free_segs (ne_frame_free p (packet_seg_addr pkt i)) pkt is"

definition ne_packet_free :: "ne_pair \<Rightarrow> ne_packet \<Rightarrow> ne_pair \<times> ne_packet" where
  "ne_packet_free p pkt =
     (let n = packet_nsegs pkt;
          n = (if NE_PACKET_MAX_SEGS < n then NE_PACKET_MAX_SEGS else n)
      in (free_segs p pkt [0..<n], zero_packet))"

section \<open>The pool is a bounded FIFO\<close>

lemma pool_write_slots:
  assumes "pow2_cap cap" "length buf = unat cap" "n + length as \<le> unat cap"
  shows "slots (pool_write buf (cap - 1) (start + of_nat n) as) (cap - 1) start (n + length as) =
    slots buf (cap - 1) start n @ as \<and>
    length (pool_write buf (cap - 1) (start + of_nat n) as) = length buf"
  using assms(2,3)
proof (induction as arbitrary: buf n)
  case (Cons a as)
  let ?b = "buf[ring_slot (cap - 1) (start + of_nat n) := a]"
  have "slots ?b (cap - 1) start (Suc n) = slots buf (cap - 1) start n @ [a]"
    by (rule slots_append) (use assms(1) Cons.prems in auto)
  then show ?case using Cons.IH [of ?b "Suc n"] Cons.prems by (simp add: add_ac)
qed simp

lemma pool_free_slots:
  assumes "pool_inv p"
  shows "unat (pl_cap p - (pl_head p - pl_tail p)) = unat (pl_cap p) - length (pool_list p)"
    "length (pool_list p) \<le> unat (pl_cap p)"
  using assms by (auto simp: pool_inv_def pool_list_def unat_sub word_le_nat_alt)

lemma pool_push_spec:
  assumes "pool_inv p" "pool_push p as = (put, p')"
  shows "put = min (length as) (unat (pl_cap p) - length (pool_list p))"
    "pool_list p' = pool_list p @ take put as" "pool_inv p'" "pl_cap p' = pl_cap p"
proof -
  let ?n = "unat (pl_head p - pl_tail p)" and ?c = "unat (pl_cap p)"
  have len: "length (pool_list p) = ?n" by (simp add: pool_list_def)
  note f = pool_free_slots [OF assms(1), unfolded len]
  have put: "put = min (length as) (?c - ?n)"
    using assms(2) f by (auto simp: pool_push_def Let_def min_def split: if_splits)
  then show "put = min (length as) (?c - length (pool_list p))" by (simp add: len)
  have p': "p' = p\<lparr>pl_buf := pool_write (pl_buf p) (pl_mask p) (pl_head p) (take put as), pl_head := pl_head p + of_nat put\<rparr>"
    using assms(2) by (auto simp: pool_push_def Let_def)
  have inv: "pow2_cap (pl_cap p)" "length (pl_buf p) = ?c" "pl_mask p = pl_cap p - 1"
    using assms(1) by (auto simp: pool_inv_def)
  have le: "?n + put \<le> ?c" using put f(2) by simp
  have ltk: "length (take put as) = put" using put by simp
  have h: "pl_tail p + of_nat ?n = pl_head p" by simp
  have new: "unat (pl_head p + of_nat put - pl_tail p) = ?n + put"
  proof -
    have "pl_head p + of_nat put - pl_tail p = (pl_head p - pl_tail p) + of_nat put" by simp
    also have "unat \<dots> = (?n + put) mod 2 ^ 32"
      by (simp only: unat_word_ariths(1) unat_of_nat) (simp add: mod_simps)
    finally show ?thesis using le u32_lt [of "pl_cap p"] by simp
  qed
  have ws: "slots (pool_write (pl_buf p) (pl_cap p - 1) (pl_head p) (take put as)) (pl_cap p - 1) (pl_tail p) (?n + put)
      = slots (pl_buf p) (pl_cap p - 1) (pl_tail p) ?n @ take put as"
    "length (pool_write (pl_buf p) (pl_cap p - 1) (pl_head p) (take put as)) = ?c"
    using pool_write_slots [OF inv(1,2), of ?n "take put as" "pl_tail p"] le ltk h inv(2) by auto
  show "pool_list p' = pool_list p @ take put as"
    using ws(1) new inv(3) by (simp add: pool_list_def p')
  show "pool_inv p'"
    using inv ws(2) new le by (simp add: pool_inv_def p' word_le_nat_alt)
  show "pl_cap p' = pl_cap p" by (simp add: p')
qed

lemma pool_pop_spec:
  assumes "pool_inv p" "pool_pop p n = (as, p')"
  shows "as = take n (pool_list p)" "pool_list p' = drop n (pool_list p)" "pool_inv p'" "pl_cap p' = pl_cap p"
proof -
  let ?l = "unat (pl_head p - pl_tail p)"
  let ?g = "min n ?l"
  have g: "(if n < ?l then n else ?l) = ?g" by simp
  have as: "as = slots (pl_buf p) (pl_mask p) (pl_tail p) ?g" and p': "p' = p\<lparr>pl_tail := pl_tail p + of_nat ?g\<rparr>"
    using assms(2) unfolding pool_pop_def Let_def g by (auto simp: slots_def)
  show "as = take n (pool_list p)" by (simp add: as pool_list_def slots_take min.commute)
  have new: "unat (pl_head p - (pl_tail p + of_nat ?g)) = ?l - ?g"
  proof -
    have um: "unat (of_nat ?g :: u32) = ?g"
      using u32_lt [of "pl_head p - pl_tail p"] by (simp add: unat_of_nat min_def)
    then have "(of_nat ?g :: u32) \<le> pl_head p - pl_tail p"
      by (simp only: word_le_nat_alt)
    then have "unat ((pl_head p - pl_tail p) - of_nat ?g) = ?l - unat (of_nat ?g :: u32)"
      by (rule unat_sub)
    then show ?thesis unfolding um by (simp only: diff_diff_add)
  qed
  show "pool_list p' = drop n (pool_list p)"
    unfolding pool_list_def p' slots_drop using new by (simp add: min_def slots_def)
  show "pool_inv p'" using assms(1) new by (auto simp: pool_inv_def p' word_le_nat_alt)
  show "pl_cap p' = pl_cap p" by (simp add: p')
qed

definition pool_push1 :: "ne_pool \<Rightarrow> u64 \<Rightarrow> ne_pool option" where
  "pool_push1 p a = (case pool_push p [a] of (n, p') \<Rightarrow> if n = 1 then Some p' else None)"

definition pool_pop1 :: "ne_pool \<Rightarrow> (u64 \<times> ne_pool) option" where
  "pool_pop1 p = (case pool_pop p 1 of ([a], p') \<Rightarrow> Some (a, p') | _ \<Rightarrow> None)"

interpretation frame_pool: bounded_fifo pool_push1 pool_pop1 pool_list "\<lambda>p. unat (pl_cap p)" pool_inv
proof (unfold_locales, goal_cases)
  case (1 q x)
  obtain n q' where p: "pool_push q [x] = (n, q')" by force
  show ?case using pool_push_spec(1) [OF 1 p] pool_free_slots(2) [OF 1] by (auto simp: pool_push1_def p)
next
  case (2 q x q')
  then show ?case using pool_push_spec(2) [OF 2(1)] by (auto simp: pool_push1_def split: prod.splits if_splits)
next
  case (3 q x q')
  then show ?case using pool_push_spec(4) [OF 3(1)] by (auto simp: pool_push1_def split: prod.splits if_splits)
next
  case (4 q x q')
  then show ?case using pool_push_spec(3) [OF 4(1)] by (auto simp: pool_push1_def split: prod.splits if_splits)
next
  case (5 q)
  obtain as q' where p: "pool_pop q 1 = (as, q')" by force
  show ?case unfolding pool_pop1_def p using pool_pop_spec(1) [OF 5 p]
    by (cases "pool_list q") auto
next
  case (6 q x q')
  then have "pool_pop q 1 = ([x], q')" by (auto simp: pool_pop1_def split: prod.splits list.splits)
  from pool_pop_spec(1,2) [OF 6(1) this] show ?case by (cases "pool_list q") auto
next
  case (7 q x q')
  then show ?case using pool_pop_spec(4) [OF 7(1)] by (auto simp: pool_pop1_def split: prod.splits list.splits)
next
  case (8 q x q')
  then show ?case using pool_pop_spec(3) [OF 8(1)] by (auto simp: pool_pop1_def split: prod.splits list.splits)
next
  case (9 q)
  then show ?case by (rule pool_free_slots(2))
qed

lemma frame_alloc_eq:
  "ne_frame_alloc p = (case pool_pop1 (pool p) of
     Some (a, pl) \<Rightarrow> (Some a, p\<lparr>pool := pl\<rparr>) | None \<Rightarrow> (None, p\<lparr>pool := snd (pool_pop (pool p) 1)\<rparr>))"
  by (auto simp: ne_frame_alloc_def pool_pop1_def split: prod.splits list.splits)

lemma frame_alloc_Some:
  assumes "pool_inv (pool p)" "ne_frame_alloc p = (Some a, p')"
  shows "pool_list (pool p) = a # pool_list (pool p')" "pool_inv (pool p')" "bufs p' = bufs p"
    "frame_size p' = frame_size p" "pl_cap (pool p') = pl_cap (pool p)"
  using assms frame_pool.pop_contents [OF assms(1)] frame_pool.pop_inv [OF assms(1)]
    pool_pop_spec(4) [OF assms(1), of 1]
  by (auto simp: frame_alloc_eq pool_pop1_def split: option.splits prod.splits list.splits)

lemma frame_alloc_None:
  assumes "pool_inv (pool p)" "ne_frame_alloc p = (None, p')"
  shows "pool_list (pool p) = []" "pool_list (pool p') = []" "pool_inv (pool p')" "bufs p' = bufs p"
    "frame_size p' = frame_size p" "pl_cap (pool p') = pl_cap (pool p)"
proof -
  have n: "pool_pop1 (pool p) = None" and p': "p' = p\<lparr>pool := snd (pool_pop (pool p) 1)\<rparr>"
    using assms(2) by (auto simp: frame_alloc_eq split: option.splits)
  show e: "pool_list (pool p) = []" using frame_pool.pop_empty [OF assms(1)] n by simp
  obtain as pl where pl: "pool_pop (pool p) 1 = (as, pl)" by force
  note sp = pool_pop_spec [OF assms(1) pl]
  show "pool_list (pool p') = []" "pool_inv (pool p')" "bufs p' = bufs p" "frame_size p' = frame_size p"
    "pl_cap (pool p') = pl_cap (pool p)"
    unfolding p' pl using sp e by simp_all
qed

lemma frame_free_list:
  assumes "pool_inv (pool p)" "length (pool_list (pool p)) < unat (pl_cap (pool p))"
  shows "pool_list (pool (ne_frame_free p a)) = pool_list (pool p) @ [a]"
    "pool_inv (pool (ne_frame_free p a))" "bufs (ne_frame_free p a) = bufs p"
    "frame_size (ne_frame_free p a) = frame_size p" "pl_cap (pool (ne_frame_free p a)) = pl_cap (pool p)"
proof -
  obtain n q where q: "pool_push (pool p) [a] = (n, q)" by force
  note sp = pool_push_spec [OF assms(1) q]
  show "pool_list (pool (ne_frame_free p a)) = pool_list (pool p) @ [a]"
    "pool_inv (pool (ne_frame_free p a))" "bufs (ne_frame_free p a) = bufs p"
    "frame_size (ne_frame_free p a) = frame_size p" "pl_cap (pool (ne_frame_free p a)) = pl_cap (pool p)"
    using sp assms(2) by (simp_all add: ne_frame_free_def q)
qed

section \<open>Frames are conserved\<close>

definition packet_frames :: "ne_packet \<Rightarrow> u64 list" where
  "packet_frames pkt = map (packet_seg_addr pkt) [0..<packet_nsegs pkt]"

definition packet_ok :: "ne_packet \<Rightarrow> bool" where
  "packet_ok pkt \<longleftrightarrow> length (seg_addr pkt) = 3 \<and> length (seg_len pkt) = 4 \<and> length (seg_cap pkt) = 4 \<and>
     packet_nsegs pkt \<le> 4 \<and> (\<forall>i<packet_nsegs pkt. 0 < seg_room pkt i)"

text \<open>Everything a packet and the pool hold between them, and that it fits the pool.\<close>

definition all_frames :: "ne_pair \<Rightarrow> ne_packet \<Rightarrow> u64 multiset" where
  "all_frames p pkt = mset (pool_list (pool p)) + mset (packet_frames pkt)"

definition pair_ok :: "ne_pair \<Rightarrow> ne_packet \<Rightarrow> bool" where
  "pair_ok p pkt \<longleftrightarrow> pool_inv (pool p) \<and> 0 < frame_size p \<and> frame_size p < 2 ^ 16 \<and>
     size (all_frames p pkt) \<le> unat (pl_cap (pool p))"

lemma set_seg_addr_simps [simp]:
  "seg_len (packet_set_seg_addr pkt i a) = seg_len pkt" "seg_cap (packet_set_seg_addr pkt i a) = seg_cap pkt"
  "len (packet_set_seg_addr pkt i a) = len pkt" "nsegs (packet_set_seg_addr pkt i a) = nsegs pkt"
  "length (seg_addr (packet_set_seg_addr pkt i a)) = length (seg_addr pkt)"
  by (simp_all add: packet_set_seg_addr_def)

lemma seg_addr_updates [simp]:
  "packet_seg_addr (pkt\<lparr>seg_len := x\<rparr>) = packet_seg_addr pkt"
  "packet_seg_addr (pkt\<lparr>seg_cap := x\<rparr>) = packet_seg_addr pkt"
  "packet_seg_addr (pkt\<lparr>nsegs := k\<rparr>) = packet_seg_addr pkt"
  "packet_seg_addr (pkt\<lparr>len := k\<rparr>) = packet_seg_addr pkt"
  by (simp_all add: packet_seg_addr_def fun_eq_iff)

lemma get_set_seg_addr:
  "length (seg_addr pkt) = 3 \<Longrightarrow> i < 4 \<Longrightarrow>
   packet_seg_addr (packet_set_seg_addr pkt i a) j = (if j = i then a else packet_seg_addr pkt j)"
  by (cases "i = 0"; cases "j = 0") (auto simp: packet_seg_addr_def packet_set_seg_addr_def nth_list_update)

text \<open>What growing a packet does: segments \<open>n\<close> to \<open>n1\<close> are new frames from the pool, the others stay.\<close>

definition packet_shape :: "ne_packet \<Rightarrow> bool" where
  "packet_shape pkt \<longleftrightarrow> length (seg_addr pkt) = 3 \<and> length (seg_len pkt) = 4 \<and> length (seg_cap pkt) = 4"

definition grown :: "ne_pair \<Rightarrow> ne_packet \<Rightarrow> nat \<Rightarrow> ne_pair \<Rightarrow> ne_packet \<Rightarrow> nat \<Rightarrow> bool" where
  "grown p pkt n p1 pkt1 n1 \<longleftrightarrow> n \<le> n1 \<and> n1 \<le> 4 \<and> packet_shape pkt1 \<and> pool_inv (pool p1) \<and>
     bufs p1 = bufs p \<and> frame_size p1 = frame_size p \<and> pl_cap (pool p1) = pl_cap (pool p) \<and>
     pool_list (pool p) = map (packet_seg_addr pkt1) [n..<n1] @ pool_list (pool p1) \<and>
     (\<forall>i<n. packet_seg_addr pkt1 i = packet_seg_addr pkt i \<and> seg_room pkt1 i = seg_room pkt i) \<and>
     (\<forall>i. n \<le> i \<and> i < n1 \<longrightarrow> seg_room pkt1 i = frame_size p) \<and>
     (if n1 = n then pkt1 = pkt else nsegs pkt1 = n1)"

lemma grown_refl: "n \<le> 4 \<Longrightarrow> packet_shape pkt \<Longrightarrow> pool_inv (pool p) \<Longrightarrow> grown p pkt n p pkt n"
  by (simp add: grown_def)

lemma grown_step:
  assumes "pool_inv (pool p)" "ne_frame_alloc p = (Some a, p1)" "n < 4" "packet_shape pkt"
    "0 < frame_size p" "frame_size p < 2 ^ 16"
    and "pkt1 = packet_set_seg_addr pkt n a"
    and "pkt2 = pkt1\<lparr>seg_cap := (seg_cap pkt1)[n := frame_size p mod 2 ^ 16],
                     seg_len := (seg_len pkt1)[n := 0], nsegs := n + 1\<rparr>"
  shows "grown p pkt n p1 pkt2 (n + 1)"
proof -
  note al = frame_alloc_Some [OF assms(1,2)]
  have ad: "packet_seg_addr pkt2 i = (if i = n then a else packet_seg_addr pkt i)" for i
    using get_set_seg_addr [of pkt n a i] assms(3,4) by (simp add: assms(7,8) packet_shape_def)
  have rm: "seg_room pkt2 i = (if i = n then frame_size p else seg_room pkt i)" for i
    using assms(3-6) by (auto simp: assms(7,8) packet_shape_def seg_room_def nth_list_update)
  show ?thesis
    using al ad rm assms(3,4) by (auto simp: grown_def packet_shape_def assms(7,8))
qed

lemma grown_trans:
  assumes "grown p pkt n p1 pkt1 (n + 1)" "grown p1 pkt1 (n + 1) p2 pkt2 n2"
  shows "grown p pkt n p2 pkt2 n2"
proof -
  have "[n..<n2] = n # [n + 1..<n2]" using assms(2) by (simp add: grown_def upt_conv_Cons)
  moreover have "packet_seg_addr pkt2 n = packet_seg_addr pkt1 n" "seg_room pkt2 n = seg_room pkt1 n"
    using assms(2) by (auto simp: grown_def)
  moreover have "seg_room pkt2 i = frame_size p" if "n \<le> i" "i < n2" for i
    using that assms by (cases "i = n") (auto simp: grown_def)
  ultimately show ?thesis using assms by (auto simp: grown_def split: if_splits)
qed

lemma packet_grow_spec:
  assumes "packet_grow want k p pkt n cap = (p1, pkt1, n1, cap1)" "pool_inv (pool p)" "n + k \<le> 4"
    and "packet_shape pkt" "0 < frame_size p" "frame_size p < 2 ^ 16"
  shows "grown p pkt n p1 pkt1 n1 \<and> cap1 = cap + (n1 - n) * frame_size p"
  using assms
proof (induction k arbitrary: p pkt n cap)
  case 0
  then show ?case by (simp add: grown_refl)
next
  case (Suc k)
  show ?case
  proof (cases "want \<le> cap")
    case True
    then show ?thesis using Suc.prems by (simp add: grown_refl)
  next
    case False
    obtain r p2 where al: "ne_frame_alloc p = (r, p2)" by force
    show ?thesis
    proof (cases r)
      case None
      have "grown p pkt n p2 pkt n"
        using frame_alloc_None [OF Suc.prems(2) al [unfolded None]] Suc.prems(3,4)
        by (simp add: grown_def)
      then show ?thesis using Suc.prems(1) False al None by simp
    next
      case (Some a)
      define q where "q = packet_set_seg_addr pkt n a"
      define q2 where "q2 = q\<lparr>seg_cap := (seg_cap q)[n := frame_size p mod 2 ^ 16], seg_len := (seg_len q)[n := 0], nsegs := n + 1\<rparr>"
      have st: "grown p pkt n p2 q2 (n + 1)"
        by (rule grown_step [OF Suc.prems(2) al [unfolded Some] _ Suc.prems(4-6) q_def q2_def]) (use Suc.prems(3) in simp)
      have g: "packet_grow want k p2 q2 (n + 1) (cap + frame_size p) = (p1, pkt1, n1, cap1)"
        using Suc.prems(1) False al Some by (simp add: Let_def q_def q2_def)
      have f2: "frame_size p2 = frame_size p" "pool_inv (pool p2)" "packet_shape q2" using st by (auto simp: grown_def)
      have ih: "grown p2 q2 (n + 1) p1 pkt1 n1" "cap1 = cap + frame_size p + (n1 - (n + 1)) * frame_size p"
        using Suc.IH [OF g f2(2) _ f2(3)] Suc.prems(3,5,6) f2(1) by auto
      have "n + 1 \<le> n1" using ih(1) by (simp add: grown_def)
      then have "cap1 = cap + (n1 - n) * frame_size p"
        using ih(2) by (metis (no_types, lifting) Suc_diff_Suc Suc_eq_plus1 Suc_le_eq add.assoc mult_Suc)
      then show ?thesis using grown_trans [OF st ih(1)] by simp
    qed
  qed
qed

end
