(* ===== verification/Xsk_Ring.thy ===== *)
theory Xsk_Ring
  imports Umem
begin

unbundle bit_operations_syntax

text \<open>
  The rings shared with the kernel: the inline functions of \<^verbatim>\<open>include/xdp/xsk.h\<close> on which every queue
  operation of \<^verbatim>\<open>xdp_interface.c\<close> rests. A ring has free-running 32-bit producer and consumer counters
  in shared memory and the user's cached copies of them; on a producer ring \<open>cached_cons\<close> is kept
  \<open>size\<close> ahead of the consumer. The kernel side is an environment that may consume published entries
  of a producer ring, and publish entries on a consumer ring, between any two user operations.
\<close>

record 'a xsk_ring =
  cached_prod :: u32
  cached_cons :: u32
  xr_mask :: u32
  xr_size :: u32
  producer :: u32
  consumer :: u32
  xr_ring :: "'a list"
  need_wakeup :: bool

definition xsk_ring_prod_needs_wakeup :: "'a xsk_ring \<Rightarrow> bool" where
  "xsk_ring_prod_needs_wakeup r = need_wakeup r"

definition xsk_prod_nb_free :: "'a xsk_ring \<Rightarrow> u32 \<Rightarrow> u32 \<times> 'a xsk_ring" where
  "xsk_prod_nb_free r nb =
     (let free_entries = cached_cons r - cached_prod r in
      if free_entries \<ge> nb then (free_entries, r)
      else let r1 = r\<lparr>cached_cons := consumer r + xr_size r\<rparr>
        in (cached_cons r1 - cached_prod r1, r1))"

definition xsk_cons_nb_avail :: "'a xsk_ring \<Rightarrow> u32 \<Rightarrow> u32 \<times> 'a xsk_ring" where
  "xsk_cons_nb_avail r nb =
     (let entries = cached_prod r - cached_cons r;
          r1 = (if entries = 0 then r\<lparr>cached_prod := producer r\<rparr> else r);
          entries = (if entries = 0 then cached_prod r1 - cached_cons r1 else entries)
      in (if entries > nb then nb else entries, r1))"

text \<open>A successful reservation gives the first counter of the reserved entries.\<close>

definition xsk_ring_prod_reserve :: "'a xsk_ring \<Rightarrow> u32 \<Rightarrow> u32 option \<times> 'a xsk_ring" where
  "xsk_ring_prod_reserve r nb =
     (let (free_entries, r1) = xsk_prod_nb_free r nb in
      if free_entries < nb then (None, r1)
      else (Some (cached_prod r1), r1\<lparr>cached_prod := cached_prod r1 + nb\<rparr>))"

definition xsk_ring_prod_submit :: "'a xsk_ring \<Rightarrow> u32 \<Rightarrow> 'a xsk_ring" where
  "xsk_ring_prod_submit r nb = r\<lparr>producer := producer r + nb\<rparr>"

text \<open>Writing the entries from counter \<open>idx\<close> on, through \<^verbatim>\<open>xsk_ring_prod__fill_addr\<close> or
  \<^verbatim>\<open>xsk_ring_prod__tx_desc\<close>, and reading them through \<^verbatim>\<open>xsk_ring_cons__comp_addr\<close> or \<^verbatim>\<open>xsk_ring_cons__rx_desc\<close>.\<close>

definition xsk_ring_prod_fill :: "'a xsk_ring \<Rightarrow> u32 \<Rightarrow> 'a list \<Rightarrow> 'a xsk_ring" where
  "xsk_ring_prod_fill r idx es = r\<lparr>xr_ring := pool_write (xr_ring r) (xr_mask r) idx es\<rparr>"

definition xsk_ring_cons_entry :: "'a xsk_ring \<Rightarrow> u32 \<Rightarrow> 'a" where
  "xsk_ring_cons_entry r idx = xr_ring r ! ring_slot (xr_mask r) idx"

definition xsk_ring_cons_peek :: "'a xsk_ring \<Rightarrow> u32 \<Rightarrow> u32 \<times> u32 \<times> 'a xsk_ring" where
  "xsk_ring_cons_peek r nb =
     (let (entries, r1) = xsk_cons_nb_avail r nb in
      if entries > 0 then (entries, cached_cons r1, r1\<lparr>cached_cons := cached_cons r1 + entries\<rparr>)
      else (entries, 0, r1))"

definition xsk_ring_cons_release :: "'a xsk_ring \<Rightarrow> u32 \<Rightarrow> 'a xsk_ring" where
  "xsk_ring_cons_release r nb = r\<lparr>consumer := consumer r + nb\<rparr>"

definition xsk_ring_cons_cancel :: "'a xsk_ring \<Rightarrow> u32 \<Rightarrow> 'a xsk_ring" where
  "xsk_ring_cons_cancel r nb = r\<lparr>cached_cons := cached_cons r - nb\<rparr>"

section \<open>Abstraction and invariants\<close>

text \<open>The entries published and not yet consumed, and the part of them not yet peeked.\<close>

definition xsk_list :: "'a xsk_ring \<Rightarrow> 'a list" where
  "xsk_list r = slots (xr_ring r) (xr_mask r) (consumer r) (unat (producer r - consumer r))"

definition xsk_unread :: "'a xsk_ring \<Rightarrow> 'a list" where
  "xsk_unread r = slots (xr_ring r) (xr_mask r) (cached_cons r) (unat (producer r - cached_cons r))"

definition ring_shape :: "'a xsk_ring \<Rightarrow> bool" where
  "ring_shape r \<longleftrightarrow> pow2_cap (xr_size r) \<and> xr_mask r = xr_size r - 1 \<and> length (xr_ring r) = unat (xr_size r) \<and>
     producer r - consumer r \<le> xr_size r"

text \<open>A producer ring between operations: everything reserved is submitted, and the cached room is at
  most the real room.\<close>

definition prod_inv :: "'a xsk_ring \<Rightarrow> bool" where
  "prod_inv r \<longleftrightarrow> ring_shape r \<and> cached_prod r = producer r \<and>
     cached_cons r - producer r \<le> (consumer r + xr_size r) - producer r"

text \<open>A consumer ring: the cached counters lie between the consumer and the producer, in order.\<close>

definition cons_inv :: "'a xsk_ring \<Rightarrow> bool" where
  "cons_inv r \<longleftrightarrow> ring_shape r \<and> cached_cons r - consumer r \<le> producer r - consumer r \<and>
     cached_prod r - cached_cons r \<le> producer r - cached_cons r"

lemma unat_split: "(b :: u32) - a \<le> c - a \<Longrightarrow> unat (c - a) = unat (b - a) + unat (c - b)"
proof -
  assume "b - a \<le> c - a"
  then have "unat ((c - a) - (b - a)) = unat (c - a) - unat (b - a)" by (rule unat_sub)
  moreover have "(c - a) - (b - a) = c - b" by simp
  ultimately show ?thesis using \<open>b - a \<le> c - a\<close> by (simp add: word_le_nat_alt)
qed

lemma ring_room: "ring_shape r \<Longrightarrow> unat (consumer r + xr_size r - producer r) = unat (xr_size r) - length (xsk_list r)"
proof -
  assume "ring_shape r"
  then have "unat (xr_size r - (producer r - consumer r)) = unat (xr_size r) - unat (producer r - consumer r)"
    by (intro unat_sub) (simp add: ring_shape_def)
  then show ?thesis by (simp add: xsk_list_def algebra_simps)
qed


section \<open>User operations\<close>

lemma nb_free_spec:
  assumes "prod_inv r" "xsk_prod_nb_free r nb = (f, r1)"
  shows "prod_inv r1" "xsk_list r1 = xsk_list r" "xr_size r1 = xr_size r" "cached_prod r1 = cached_prod r"
    "unat f \<le> unat (xr_size r) - length (xsk_list r)"
    "f \<ge> nb \<longleftrightarrow> unat nb \<le> unat (xr_size r) - length (xsk_list r)"
    "r1 = r\<lparr>cached_cons := cached_cons r1\<rparr>"
proof -
  have sh: "ring_shape r" and cp: "cached_prod r = producer r"
    and st: "cached_cons r - producer r \<le> (consumer r + xr_size r) - producer r"
    using assms(1) by (auto simp: prod_inv_def)
  note room = ring_room [OF sh]
  have c: "(nb \<le> cached_cons r - producer r \<and> f = cached_cons r - producer r \<and> r1 = r) \<or>
      (\<not> nb \<le> cached_cons r - producer r \<and> f = consumer r + xr_size r - producer r \<and>
       r1 = r\<lparr>cached_cons := consumer r + xr_size r\<rparr>)"
    using assms(2) cp by (auto simp: xsk_prod_nb_free_def Let_def split: if_splits)
  then show "prod_inv r1" "xsk_list r1 = xsk_list r" "xr_size r1 = xr_size r" "cached_prod r1 = cached_prod r"
      "r1 = r\<lparr>cached_cons := cached_cons r1\<rparr>"
    using assms(1) cp by (auto simp: prod_inv_def ring_shape_def xsk_list_def)
  have le: "unat (cached_cons r - producer r) \<le> unat (xr_size r) - length (xsk_list r)"
    using st room by (simp add: word_le_nat_alt)
  show "unat f \<le> unat (xr_size r) - length (xsk_list r)" using c le room by auto
  show "f \<ge> nb \<longleftrightarrow> unat nb \<le> unat (xr_size r) - length (xsk_list r)"
    using c le room by (auto simp: word_le_nat_alt)
qed

text \<open>Reserve, write and submit, the sequence every producer of the program runs.\<close>

definition xsk_produce :: "'a xsk_ring \<Rightarrow> 'a list \<Rightarrow> bool \<times> 'a xsk_ring" where
  "xsk_produce r es =
     (case xsk_ring_prod_reserve r (of_nat (length es)) of
        (None, r1) \<Rightarrow> (False, r1)
      | (Some idx, r1) \<Rightarrow>
          (True, xsk_ring_prod_submit (xsk_ring_prod_fill r1 idx es) (of_nat (length es))))"

lemma unat_add_of_nat:
  "unat (h - t) + k \<le> unat c \<Longrightarrow> unat (h + of_nat k - t) = unat (h - t) + k" for h t c :: u32
proof -
  assume le: "unat (h - t) + k \<le> unat c"
  have "h + of_nat k - t = (h - t) + of_nat k" by simp
  also have "unat \<dots> = (unat (h - t) + k) mod 2 ^ 32"
    by (simp only: unat_word_ariths(1) unat_of_nat) (simp add: mod_simps)
  finally show ?thesis using le u32_lt [of c] by simp
qed

lemma published_entries:
  assumes "ring_shape r" "length (xsk_list r) + length es \<le> unat (xr_size r)"
    and "r' = r\<lparr>xr_ring := pool_write (xr_ring r) (xr_mask r) (producer r) es,
      producer := producer r + of_nat (length es), cached_prod := cp, cached_cons := cc\<rparr>"
  shows "ring_shape r'" "xsk_list r' = xsk_list r @ es"
proof -
  let ?n = "unat (producer r - consumer r)"
  have p: "consumer r + of_nat ?n = producer r" by simp
  have n: "length (xsk_list r) = ?n" by (simp add: xsk_list_def)
  have sh: "pow2_cap (xr_size r)" "length (xr_ring r) = unat (xr_size r)" "xr_mask r = xr_size r - 1"
    using assms(1) by (auto simp: ring_shape_def)
  have le: "?n + length es \<le> unat (xr_size r)" using assms(2) n by simp
  note w = pool_write_slots [OF sh(1,2) le, of "consumer r", unfolded p]
  have d: "unat (producer r + of_nat (length es) - consumer r) = ?n + length es"
    by (rule unat_add_of_nat [OF le])
  show "ring_shape r'" using sh w d le by (simp add: assms(3) ring_shape_def word_le_nat_alt)
  show "xsk_list r' = xsk_list r @ es" using w d by (simp add: assms(3) xsk_list_def sh(3))
qed

lemma stale_room_sub:
  "a - p \<le> b - p \<Longrightarrow> k \<le> a - p \<Longrightarrow> a - (p + k) \<le> b - (p + k)" for a b p k :: u32
proof -
  assume le: "a - p \<le> b - p" "k \<le> a - p"
  then have "unat (a - p - k) = unat (a - p) - unat k" "unat (b - p - k) = unat (b - p) - unat k"
    by (auto simp: unat_sub dest: order_trans)
  then show ?thesis using le(1) by (simp add: word_le_nat_alt diff_diff_add [symmetric] diff_le_mono)
qed

lemma xsk_produce_spec:
  assumes "prod_inv r" "xsk_produce r es = (ok, r')" "length es < 2 ^ 32"
  shows "ok \<longleftrightarrow> length (xsk_list r) + length es \<le> unat (xr_size r)"
    "xsk_list r' = xsk_list r @ (if ok then es else [])" "prod_inv r'" "xr_size r' = xr_size r"
proof -
  have u: "unat (of_nat (length es) :: u32) = length es" using assms(3) by (simp add: unat_of_nat)
  obtain f r1 where f: "xsk_prod_nb_free r (of_nat (length es)) = (f, r1)" by force
  note sp = nb_free_spec [OF assms(1) f]
  have sh1: "ring_shape r1" and cp1: "cached_prod r1 = producer r1" using sp(1) by (auto simp: prod_inv_def)
  have lel: "length (xsk_list r) \<le> unat (xr_size r)"
    using sh1 sp(2,3) by (metis ring_shape_def xsk_list_def length_slots word_le_nat_alt)
  have okc: "f < of_nat (length es) \<longleftrightarrow> \<not> length (xsk_list r) + length es \<le> unat (xr_size r)"
    using sp(6) u lel by (simp add: not_le [symmetric]) arith
  define r2 where "r2 = r1\<lparr>xr_ring := pool_write (xr_ring r1) (xr_mask r1) (producer r1) es,
    producer := producer r1 + of_nat (length es), cached_prod := cached_prod r1 + of_nat (length es),
    cached_cons := cached_cons r1\<rparr>"
  have res: "(ok, r') = (if f < of_nat (length es) then (False, r1) else (True, r2))"
    using assms(2) f cp1 unfolding r2_def
    by (cases r1) (auto simp: xsk_produce_def xsk_ring_prod_reserve_def xsk_ring_prod_submit_def
        xsk_ring_prod_fill_def split: if_splits)
  then show "ok \<longleftrightarrow> length (xsk_list r) + length es \<le> unat (xr_size r)" using okc by (auto split: if_splits)
  show "xsk_list r' = xsk_list r @ (if ok then es else [])" "prod_inv r'" "xr_size r' = xr_size r"
  proof (atomize (full), cases "f < of_nat (length es)")
    case True
    then show "xsk_list r' = xsk_list r @ (if ok then es else []) \<and> prod_inv r' \<and> xr_size r' = xr_size r"
      using res sp by simp
  next
    case False
    then have fit: "length (xsk_list r1) + length es \<le> unat (xr_size r1)" using okc sp by simp
    note pe = published_entries [OF sh1 fit r2_def]
    have "of_nat (length es) \<le> cached_cons r1 - producer r1"
      using False f cp1 assms(1) by (auto simp: prod_inv_def xsk_prod_nb_free_def Let_def split: if_splits)
    then have "cached_cons r1 - producer r2 \<le> consumer r1 + xr_size r1 - producer r2"
      using stale_room_sub sp(1) by (simp add: prod_inv_def r2_def)
    then have "prod_inv r2" using pe(1) cp1 by (simp add: prod_inv_def r2_def)
    then show "xsk_list r' = xsk_list r @ (if ok then es else []) \<and> prod_inv r' \<and> xr_size r' = xr_size r"
      using res False pe(2) sp(2,3) by (simp add: r2_def)
  qed
qed


text \<open>Peeking reads a prefix of the unread entries; it never returns more than asked for, and returns
  nothing only when nothing is there.\<close>

lemma xsk_peek_spec:
  assumes "cons_inv r" "xsk_ring_cons_peek r nb = (n, idx, r')" "es = map (\<lambda>i. xsk_ring_cons_entry r' (idx + of_nat i)) [0..<unat n]"
  shows "es = take (unat n) (xsk_unread r)" "xsk_unread r' = drop (unat n) (xsk_unread r)" "cons_inv r'"
    "unat n \<le> unat nb" "unat n \<le> length (xsk_unread r)" "nb \<noteq> 0 \<Longrightarrow> n = 0 \<longleftrightarrow> xsk_unread r = []"
    "consumer r' = consumer r" "xr_size r' = xr_size r" "producer r' = producer r"
    "cached_cons r' = cached_cons r + n"
proof -
  have inv: "ring_shape r" "cached_cons r - consumer r \<le> producer r - consumer r"
    "cached_prod r - cached_cons r \<le> producer r - cached_cons r"
    using assms(1) by (auto simp: cons_inv_def)
  define m where "m = (if cached_prod r - cached_cons r = 0 then producer r - cached_cons r else cached_prod r - cached_cons r)"
  define cp where "cp = (if cached_prod r - cached_cons r = 0 then producer r else cached_prod r)"
  have m: "m \<le> producer r - cached_cons r" "m = 0 \<longleftrightarrow> producer r = cached_cons r" "m = cp - cached_cons r"
    using inv(3) by (auto simp: m_def cp_def)
  have n: "n = (if m > nb then nb else m)"
    and r': "r' = r\<lparr>cached_prod := cp, cached_cons := cached_cons r + n\<rparr>" and idx: "n \<noteq> 0 \<Longrightarrow> idx = cached_cons r"
    using assms(2)
    by (auto simp: xsk_ring_cons_peek_def xsk_cons_nb_avail_def Let_def m_def cp_def word_gt_0 split: if_splits)
  have nm: "n \<le> m" "n \<le> nb" by (auto simp: n)
  have len: "length (xsk_unread r) = unat (producer r - cached_cons r)" by (simp add: xsk_unread_def)
  have np: "n \<le> producer r - cached_cons r" using nm(1) m(1) by simp
  then show "unat n \<le> length (xsk_unread r)" by (simp add: len word_le_nat_alt)
  show "unat n \<le> unat nb" using nm(2) by (simp add: word_le_nat_alt)
  have "take (unat n) (xsk_unread r) = slots (xr_ring r) (xr_mask r) (cached_cons r) (unat n)"
    using np by (simp add: xsk_unread_def slots_take word_le_nat_alt min_def)
  then show "es = take (unat n) (xsk_unread r)"
    using idx by (cases "n = 0") (auto simp: assms(3) xsk_ring_cons_entry_def r' slots_def)
  have sub: "unat (producer r - (cached_cons r + n)) = unat (producer r - cached_cons r) - unat n"
    using unat_sub [OF np] by (simp add: diff_diff_add)
  then show "xsk_unread r' = drop (unat n) (xsk_unread r)"
    by (simp add: xsk_unread_def r' slots_drop)
  show "nb \<noteq> 0 \<Longrightarrow> n = 0 \<longleftrightarrow> xsk_unread r = []"
    using m(2) len by (auto simp: n unat_eq_zero slots_def xsk_unread_def)
  show "consumer r' = consumer r" "xr_size r' = xr_size r" "producer r' = producer r" "cached_cons r' = cached_cons r + n"
    by (simp_all add: r')
  have "unat (cached_cons r + n - consumer r) = unat (cached_cons r - consumer r) + unat n"
    using unat_add_of_nat [of "cached_cons r" "consumer r" "unat n" "producer r - consumer r"] unat_split [OF inv(2)] np
    by (simp add: word_le_nat_alt)
  then have "cached_cons r + n - consumer r \<le> producer r - consumer r"
    using unat_split [OF inv(2)] np by (simp add: word_le_nat_alt)
  moreover have "cp - (cached_cons r + n) \<le> producer r - (cached_cons r + n)"
    by (rule stale_room_sub) (use m(1,3) nm(1) in auto)
  ultimately show "cons_inv r'" using inv(1) by (simp add: cons_inv_def r' ring_shape_def)
qed

definition xsk_held :: "'a xsk_ring \<Rightarrow> nat" where
  \<comment> \<open>entries peeked and not yet released\<close>
  "xsk_held r = unat (cached_cons r - consumer r)"

lemma xsk_release_spec:
  assumes "cons_inv r" "k \<le> xsk_held r"
  shows "cons_inv (xsk_ring_cons_release r (of_nat k))"
    "xsk_unread (xsk_ring_cons_release r (of_nat k)) = xsk_unread r"
    "xsk_held (xsk_ring_cons_release r (of_nat k)) = xsk_held r - k"
proof -
  have inv: "ring_shape r" "cached_cons r - consumer r \<le> producer r - consumer r"
    using assms(1) by (auto simp: cons_inv_def)
  have u: "unat (of_nat k :: u32) = k"
    using assms(2) u32_lt [of "cached_cons r - consumer r"] by (simp add: xsk_held_def unat_of_nat)
  have le: "of_nat k \<le> cached_cons r - consumer r" using assms(2) u by (simp add: word_le_nat_alt xsk_held_def)
  have s: "unat (cached_cons r - (consumer r + of_nat k)) = unat (cached_cons r - consumer r) - k"
    "unat (producer r - (consumer r + of_nat k)) = unat (producer r - consumer r) - k"
    using unat_sub [OF le] unat_sub [OF order_trans [OF le inv(2)]] u by (simp_all add: diff_diff_add)
  show "cons_inv (xsk_ring_cons_release r (of_nat k))"
    using assms(1) s by (auto simp: cons_inv_def ring_shape_def xsk_ring_cons_release_def word_le_nat_alt)
  show "xsk_unread (xsk_ring_cons_release r (of_nat k)) = xsk_unread r"
    by (simp add: xsk_unread_def xsk_ring_cons_release_def)
  show "xsk_held (xsk_ring_cons_release r (of_nat k)) = xsk_held r - k"
    using s(1) by (simp add: xsk_held_def xsk_ring_cons_release_def)
qed

section \<open>Interleaving with the kernel\<close>

text \<open>
  The kernel consumes the first \<open>k\<close> published entries of a producer ring, or publishes entries on a
  consumer ring when they fit behind what the user has released.
\<close>

definition kernel_consume :: "'a xsk_ring \<Rightarrow> nat \<Rightarrow> 'a xsk_ring" where
  "kernel_consume r k = r\<lparr>consumer := consumer r + of_nat k\<rparr>"

definition kernel_publish :: "'a xsk_ring \<Rightarrow> 'a list \<Rightarrow> 'a xsk_ring" where
  "kernel_publish r es = r\<lparr>xr_ring := pool_write (xr_ring r) (xr_mask r) (producer r) es,
     producer := producer r + of_nat (length es)\<rparr>"

lemma kernel_consume_spec:
  assumes "prod_inv r" "k \<le> length (xsk_list r)"
  shows "prod_inv (kernel_consume r k)" "xsk_list (kernel_consume r k) = drop k (xsk_list r)"
    "xr_size (kernel_consume r k) = xr_size r"
proof -
  have sh: "ring_shape r" and cp: "cached_prod r = producer r"
    and st: "cached_cons r - producer r \<le> (consumer r + xr_size r) - producer r"
    using assms(1) by (auto simp: prod_inv_def)
  have len: "length (xsk_list r) = unat (producer r - consumer r)" by (simp add: xsk_list_def)
  have u: "unat (of_nat k :: u32) = k"
    using assms(2) u32_lt [of "producer r - consumer r"] by (simp add: len unat_of_nat)
  then have le: "of_nat k \<le> producer r - consumer r" using assms(2) by (simp add: len word_le_nat_alt)
  have s: "unat (producer r - (consumer r + of_nat k)) = unat (producer r - consumer r) - k"
    using unat_sub [OF le] u by (simp add: diff_diff_add)
  show l: "xsk_list (kernel_consume r k) = drop k (xsk_list r)"
    using s by (simp add: xsk_list_def kernel_consume_def slots_drop)
  have sh': "ring_shape (kernel_consume r k)"
    using sh s by (auto simp: ring_shape_def kernel_consume_def word_le_nat_alt)
  have "unat (consumer r + xr_size r - producer r) \<le> unat (consumer (kernel_consume r k) + xr_size r - producer r)"
    using ring_room [OF sh] ring_room [OF sh'] l by (simp add: kernel_consume_def)
  then have "cached_cons r - producer r \<le> consumer r + of_nat k + xr_size r - producer r"
    using st by (simp add: word_le_nat_alt kernel_consume_def)
  then show "prod_inv (kernel_consume r k)" using sh' cp by (simp add: prod_inv_def kernel_consume_def)
  show "xr_size (kernel_consume r k) = xr_size r" by (simp add: kernel_consume_def)
qed

lemma xsk_unread_drop:
  "cached_cons r - consumer r \<le> producer r - consumer r \<Longrightarrow>
   xsk_unread r = drop (unat (cached_cons r - consumer r)) (xsk_list r)"
  using unat_split [of "cached_cons r" "consumer r" "producer r"]
  by (simp add: xsk_unread_def xsk_list_def slots_drop)

lemma kernel_publish_spec:
  assumes "cons_inv r" "length (xsk_list r) + length es \<le> unat (xr_size r)"
  shows "cons_inv (kernel_publish r es)" "xsk_unread (kernel_publish r es) = xsk_unread r @ es"
    "xr_size (kernel_publish r es) = xr_size r"
proof -
  have inv: "ring_shape r" "cached_cons r - consumer r \<le> producer r - consumer r"
    "cached_prod r - cached_cons r \<le> producer r - cached_cons r"
    using assms(1) by (auto simp: cons_inv_def)
  note pe = published_entries [OF inv(1) assms(2) refl, where cp = "cached_prod r" and cc = "cached_cons r"]
  have eq: "kernel_publish r es = r\<lparr>xr_ring := pool_write (xr_ring r) (xr_mask r) (producer r) es,
      producer := producer r + of_nat (length es), cached_prod := cached_prod r, cached_cons := cached_cons r\<rparr>"
    by (simp add: kernel_publish_def)
  note pe = pe [folded eq]
  let ?r = "kernel_publish r es"
  have f: "cached_cons ?r = cached_cons r" "consumer ?r = consumer r" "cached_prod ?r = cached_prod r"
    "producer ?r = producer r + of_nat (length es)" "xr_mask ?r = xr_mask r"
    by (simp_all add: kernel_publish_def)
  let ?h = "unat (cached_cons r - consumer r)"
  have p: "unat (producer ?r - consumer r) = unat (producer r - consumer r) + length es"
    using arg_cong [OF pe(2), of length] f by (simp add: xsk_list_def)
  then have le: "cached_cons r - consumer r \<le> producer ?r - consumer r"
    using inv(2) by (simp add: word_le_nat_alt)
  moreover have "?h \<le> length (xsk_list r)" using inv(2) by (simp add: xsk_list_def word_le_nat_alt)
  ultimately show "xsk_unread ?r = xsk_unread r @ es"
    using pe(2) inv(2) f by (simp add: xsk_unread_drop)
  have "unat (producer ?r - cached_cons r) = unat (producer r - cached_cons r) + length es"
    using unat_split [OF le] unat_split [OF inv(2)] p by simp
  then have "cached_prod r - cached_cons r \<le> producer ?r - cached_cons r"
    using inv(3) by (simp add: word_le_nat_alt)
  then show "cons_inv ?r" using pe(1) le f by (simp add: cons_inv_def)
  show "xr_size ?r = xr_size r" by (simp add: kernel_publish_def)
qed


text \<open>Histories: what the user handed over and the kernel took on a producer ring, and what the kernel
  published and the user read on a consumer ring.\<close>

record 'a prod_trace =
  pt_ring :: "'a xsk_ring"
  pt_given :: "'a list"
  pt_taken :: "'a list"

inductive prod_step :: "'a prod_trace \<Rightarrow> 'a prod_trace \<Rightarrow> bool" where
  prod_user: "length es < 2 ^ 32 \<Longrightarrow> xsk_produce (pt_ring s) es = (ok, r) \<Longrightarrow>
    prod_step s (s\<lparr>pt_ring := r, pt_given := pt_given s @ (if ok then es else [])\<rparr>)"
| prod_kernel: "k \<le> length (xsk_list (pt_ring s)) \<Longrightarrow>
    prod_step s (s\<lparr>pt_ring := kernel_consume (pt_ring s) k, pt_taken := pt_taken s @ take k (xsk_list (pt_ring s))\<rparr>)"

definition prod_start :: "'a prod_trace \<Rightarrow> bool" where
  "prod_start s \<longleftrightarrow> prod_inv (pt_ring s) \<and> xsk_list (pt_ring s) = [] \<and> pt_given s = [] \<and> pt_taken s = []"

record 'a cons_trace =
  ct_ring :: "'a xsk_ring"
  ct_sent :: "'a list"
  ct_read :: "'a list"

inductive cons_step :: "'a cons_trace \<Rightarrow> 'a cons_trace \<Rightarrow> bool" where
  cons_kernel: "length (xsk_list (ct_ring s)) + length es \<le> unat (xr_size (ct_ring s)) \<Longrightarrow>
    cons_step s (s\<lparr>ct_ring := kernel_publish (ct_ring s) es, ct_sent := ct_sent s @ es\<rparr>)"
| cons_peek: "xsk_ring_cons_peek (ct_ring s) nb = (n, idx, r) \<Longrightarrow>
    cons_step s (s\<lparr>ct_ring := r,
      ct_read := ct_read s @ map (\<lambda>i. xsk_ring_cons_entry r (idx + of_nat i)) [0..<unat n]\<rparr>)"
| cons_release: "k \<le> xsk_held (ct_ring s) \<Longrightarrow>
    cons_step s (s\<lparr>ct_ring := xsk_ring_cons_release (ct_ring s) (of_nat k)\<rparr>)"

definition cons_start :: "'a cons_trace \<Rightarrow> bool" where
  "cons_start s \<longleftrightarrow> cons_inv (ct_ring s) \<and> xsk_unread (ct_ring s) = [] \<and> ct_sent s = [] \<and> ct_read s = []"

interpretation xsk_prod: step_invariant prod_start prod_step
    "\<lambda>s. prod_inv (pt_ring s) \<and> pt_given s = pt_taken s @ xsk_list (pt_ring s)"
proof (unfold_locales, goal_cases)
  case (1 s)
  then show ?case by (simp add: prod_start_def)
next
  case (2 s t)
  from 2(2) show ?case
  proof cases
    case (prod_user es ok r)
    then show ?thesis using 2(1) xsk_produce_spec(2,3) [of "pt_ring s" es ok r] by simp
  next
    case (prod_kernel k)
    then show ?thesis using 2(1) kernel_consume_spec [of "pt_ring s" k] by simp
  qed
qed

interpretation xsk_cons: step_invariant cons_start cons_step
    "\<lambda>s. cons_inv (ct_ring s) \<and> ct_sent s = ct_read s @ xsk_unread (ct_ring s)"
proof (unfold_locales, goal_cases)
  case (1 s)
  then show ?case by (simp add: cons_start_def)
next
  case (2 s t)
  from 2(2) show ?case
  proof cases
    case (cons_kernel es)
    then show ?thesis using 2(1) kernel_publish_spec [of "ct_ring s" es] by simp
  next
    case (cons_peek nb n idx r)
    then show ?thesis using 2(1) xsk_peek_spec(1-3) [of "ct_ring s" nb n idx r, OF _ _ refl] by simp
  next
    case (cons_release k)
    then show ?thesis using 2(1) xsk_release_spec [of "ct_ring s" k] by simp
  qed
qed

lemma prod_room: "prod_inv r \<Longrightarrow> length (xsk_list r) \<le> unat (xr_size r)"
  by (simp add: prod_inv_def ring_shape_def xsk_list_def word_le_nat_alt)

text \<open>Descriptors handed to the kernel are neither lost nor overwritten: for every interleaving of the
  user's reserve-write-submit sequences with the kernel's consumption, on counters that wrap and with a
  stale cached consumer, what the kernel took followed by what is in the ring is what was submitted,
  in order, and the ring never holds more than its size.\<close>
theorem xsk_prod_fifo:
  assumes "reach prod_start prod_step s"
  shows "pt_given s = pt_taken s @ xsk_list (pt_ring s) \<and> length (xsk_list (pt_ring s)) \<le> unat (xr_size (pt_ring s))"
  using xsk_prod.reach_inv [OF assms] prod_room by blast

text \<open>Descriptors received from the kernel are read exactly once and in order: for every interleaving of
  the kernel's publications with peeks and releases, what was read followed by what is still unread is
  what was published.\<close>
theorem xsk_cons_fifo:
  assumes "reach cons_start cons_step s"
  shows "ct_sent s = ct_read s @ xsk_unread (ct_ring s)"
  using xsk_cons.reach_inv [OF assms] by blast

definition demo_ring :: "u64 xsk_ring" where
  \<comment> \<open>two slots, counters about to wrap\<close>
  "demo_ring = \<lparr>cached_prod = - 1, cached_cons = 1, xr_mask = 1, xr_size = 2, producer = - 1, consumer = - 1,
     xr_ring = [0, 0], need_wakeup = False\<rparr>"

lemma demo_ring_inv: "prod_inv demo_ring" "xsk_list demo_ring = []" "cons_inv (demo_ring\<lparr>cached_cons := - 1\<rparr>)"
  by (simp_all add: prod_inv_def cons_inv_def ring_shape_def demo_ring_def pow2_cap_def xsk_list_def slots_def)

theorem xsk_prod_fifo_witness:
  "\<exists>s. reach prod_start prod_step s \<and> pt_given s = [7, 9 :: u64] \<and> xsk_list (pt_ring s) = [7, 9]"
proof -
  define s where "s = \<lparr>pt_ring = demo_ring, pt_given = [], pt_taken = []\<rparr>"
  obtain ok r where p: "xsk_produce (pt_ring s) [7, 9] = (ok, r)" by force
  have ok: "ok" using xsk_produce_spec(1) [OF _ p] demo_ring_inv by (simp add: s_def demo_ring_def)
  let ?t = "s\<lparr>pt_ring := r, pt_given := pt_given s @ (if ok then [7, 9] else [])\<rparr>"
  have "reach prod_start prod_step s" by (rule reach_start) (simp add: prod_start_def s_def demo_ring_inv)
  then have t: "reach prod_start prod_step ?t" by (rule reach_step) (rule prod_user [OF _ p], simp)
  then show ?thesis using xsk_prod_fifo [OF t] ok by (intro exI [of _ ?t]) (simp add: s_def)
qed

theorem xsk_cons_fifo_witness:
  "\<exists>s. reach cons_start cons_step s \<and> ct_sent s = [5 :: u64] \<and> xsk_unread (ct_ring s) = [5]"
proof -
  define r where "r = demo_ring\<lparr>cached_cons := - 1\<rparr>"
  define s where "s = \<lparr>ct_ring = r, ct_sent = [], ct_read = []\<rparr>"
  let ?t = "s\<lparr>ct_ring := kernel_publish (ct_ring s) [5], ct_sent := ct_sent s @ [5]\<rparr>"
  have "reach cons_start cons_step s"
    by (rule reach_start)
      (simp add: cons_start_def s_def r_def demo_ring_inv xsk_unread_def slots_def, simp add: demo_ring_def)
  then have t: "reach cons_start cons_step ?t"
    by (rule reach_step) (rule cons_kernel, simp add: s_def r_def xsk_list_def demo_ring_def)
  then show ?thesis using xsk_cons_fifo [OF t] by (intro exI [of _ ?t]) (simp add: s_def)
qed

end
