(* ===== verification/Umem_Props.thy ===== *)
theory Umem_Props
  imports Umem
begin

text \<open>
  Packets and the pool: writing and freeing packets conserves frames, and a packet reads back what
  was written to it when its segments and the free frames lie in distinct 4096-byte chunks.
\<close>

section \<open>The loops of \<^verbatim>\<open>ne_packet_write\<close>\<close>

lemma packet_copy_keeps:
  assumes "packet_copy src want is off mem pkt = Done (mem', pkt', off')"
  shows "packet_seg_addr pkt' = packet_seg_addr pkt \<and> seg_cap pkt' = seg_cap pkt \<and>
    seg_addr pkt' = seg_addr pkt \<and> length (seg_len pkt') = length (seg_len pkt) \<and>
    (\<forall>j. j \<notin> set is \<longrightarrow> seg_len pkt' ! j = seg_len pkt ! j) \<and> length mem' = length mem"
  using assms
proof (induction "is" arbitrary: off mem pkt)
  case (Cons i "is")
  let ?n = "if seg_room pkt i < want - off then seg_room pkt i else want - off"
  let ?pkt = "pkt\<lparr>seg_len := (seg_len pkt)[i := ?n]\<rparr>"
  obtain m where m: "(if ?n \<noteq> 0 then mem_copy mem (unat (packet_seg_addr pkt i)) src off ?n else Done mem) = Done m"
    "packet_copy src want is (off + ?n) m ?pkt = Done (mem', pkt', off')"
    using Cons.prems by (auto simp: Let_def cbind_eq_Done)
  have "length m = length mem" using m(1) by (auto simp: mem_copy_def split: if_splits dest: length_mem_write)
  then show ?case using Cons.IH [OF m(2)] by auto
qed simp

lemma packet_copy_not_Fail: "packet_copy src want is off mem pkt \<noteq> Fail"
proof (induction "is" arbitrary: off mem pkt)
  case (Cons i "is")
  show ?case
    by (cases "if (if seg_room pkt i < want - off then seg_room pkt i else want - off) \<noteq> 0
        then mem_copy mem (unat (packet_seg_addr pkt i)) src off
          (if seg_room pkt i < want - off then seg_room pkt i else want - off) else Done mem")
      (auto simp: Let_def mem_copy_def Cons.IH split: if_splits)
qed simp

lemma packet_trim_spec:
  assumes "packet_trim is p pkt = (p', pkt')" "pool_inv (pool p)" "set is \<subseteq> {..<4}" "distinct is"
    and "length (pool_list (pool p)) + length is \<le> unat (pl_cap (pool p))" "packet_shape pkt"
  shows "pool_list (pool p') = pool_list (pool p) @ map (packet_seg_addr pkt) is \<and> pool_inv (pool p') \<and>
    bufs p' = bufs p \<and> frame_size p' = frame_size p \<and> pl_cap (pool p') = pl_cap (pool p) \<and>
    packet_shape pkt' \<and> seg_len pkt' = seg_len pkt \<and>
    (\<forall>j. j \<notin> set is \<longrightarrow> packet_seg_addr pkt' j = packet_seg_addr pkt j \<and> seg_cap pkt' ! j = seg_cap pkt ! j)"
  using assms
proof (induction "is" arbitrary: p pkt)
  case (Cons i "is")
  let ?p = "ne_frame_free p (packet_seg_addr pkt i)"
  let ?q1 = "packet_set_seg_addr pkt i 0"
  let ?q = "?q1\<lparr>seg_cap := (seg_cap ?q1)[i := 0]\<rparr>"
  have t: "packet_trim is ?p ?q = (p', pkt')" using Cons.prems(1) by (simp add: Let_def)
  have "length (pool_list (pool p)) < unat (pl_cap (pool p))" using Cons.prems(5) by simp
  note f = frame_free_list [OF Cons.prems(2) this, of "packet_seg_addr pkt i"]
  have i4: "i < 4" using Cons.prems(3) by auto
  have sh: "packet_shape ?q" using Cons.prems(6) by (simp add: packet_shape_def)
  have ad: "packet_seg_addr ?q j = (if j = i then 0 else packet_seg_addr pkt j)" for j
    using get_set_seg_addr [OF _ i4] Cons.prems(6) by (simp add: packet_shape_def)
  have "map (packet_seg_addr ?q) is = map (packet_seg_addr pkt) is"
    by (rule map_cong) (use Cons.prems(4) ad in auto)
  then show ?case
    using Cons.IH [OF t f(2) _ _ _ sh] f Cons.prems ad by auto
qed simp

lemma used_segs_spec:
  "used \<le> used_segs pkt k used \<and> used_segs pkt k used \<le> used + k \<and>
   (\<forall>i. used \<le> i \<and> i < used_segs pkt k used \<longrightarrow> seg_len pkt ! i \<noteq> 0)"
proof (induction k arbitrary: used)
  case (Suc k)
  show ?case
  proof (cases "seg_len pkt ! used = 0")
    case False
    have "seg_len pkt ! i \<noteq> 0" if "used \<le> i" "i < used_segs pkt k (Suc used)" for i
      using that False Suc.IH [of "Suc used"] by (cases "i = used") auto
    then show ?thesis using False Suc.IH [of "Suc used"] by simp
  qed simp
qed auto

lemma upt_split: "a \<le> b \<Longrightarrow> b \<le> c \<Longrightarrow> [a..<c] = [a..<b] @ [b..<c]" for a b c :: nat
  by (metis le_add_diff_inverse upt_add_eq_append)

lemma grown_frames:
  assumes "grown p pkt (packet_nsegs pkt) p1 pkt1 n1"
  shows "mset (pool_list (pool p1)) + mset (map (packet_seg_addr pkt1) [0..<n1]) = all_frames p pkt"
    "n1 = packet_nsegs pkt1"
proof -
  let ?n = "packet_nsegs pkt"
  have "[0..<n1] = [0..<?n] @ [?n..<n1]" using assms by (intro upt_split) (auto simp: grown_def)
  moreover have "map (packet_seg_addr pkt1) [0..<?n] = map (packet_seg_addr pkt) [0..<?n]"
    using assms by (simp add: grown_def)
  ultimately show "mset (pool_list (pool p1)) + mset (map (packet_seg_addr pkt1) [0..<n1]) = all_frames p pkt"
    using assms by (simp add: grown_def all_frames_def packet_frames_def del: mset_map map_eq_conv)
  show "n1 = packet_nsegs pkt1"
    using assms by (auto simp: grown_def packet_nsegs_def split: if_splits)
qed

lemma packet_ok_shape: "packet_ok pkt \<Longrightarrow> packet_shape pkt"
  by (simp add: packet_ok_def packet_shape_def)

lemma grown_ok:
  assumes "grown p pkt (packet_nsegs pkt) p1 pkt1 n1" "packet_ok pkt" "pair_ok p pkt"
  shows "packet_ok pkt1" "pair_ok p1 pkt1" "all_frames p1 pkt1 = all_frames p pkt"
proof -
  note f = grown_frames [OF assms(1)]
  show e: "all_frames p1 pkt1 = all_frames p pkt"
    using f by (simp add: all_frames_def packet_frames_def)
  show "pair_ok p1 pkt1" using assms(1,3) e by (simp add: pair_ok_def grown_def)
  have "0 < seg_room pkt1 i" if "i < n1" for i
    using that assms by (cases "i < packet_nsegs pkt") (auto simp: grown_def packet_ok_def pair_ok_def)
  then show "packet_ok pkt1" using assms(1) f(2) by (simp add: packet_ok_def grown_def packet_shape_def)
qed

lemma copy_first_nonzero:
  assumes "packet_copy src want (0 # is) 0 mem pkt = Done (mem', pkt', off')" "0 \<notin> set is"
    "0 < want" "0 < seg_room pkt 0" "packet_shape pkt"
  shows "seg_len pkt' ! 0 \<noteq> 0"
proof -
  let ?n = "if seg_room pkt 0 < want then seg_room pkt 0 else want"
  have "\<exists>m. packet_copy src want is ?n m (pkt\<lparr>seg_len := (seg_len pkt)[0 := ?n]\<rparr>) = Done (mem', pkt', off')"
    using assms(1) by (cases "seg_room pkt 0 < want") (auto simp: Let_def cbind_eq_Done)
  then obtain m where "packet_copy src want is ?n m (pkt\<lparr>seg_len := (seg_len pkt)[0 := ?n]\<rparr>) = Done (mem', pkt', off')" ..
  from packet_copy_keeps [OF this] show ?thesis using assms(2-) by (simp add: packet_shape_def)
qed

lemma packet_grow_short:
  assumes "packet_grow want k p pkt n cap = (p1, pkt1, n1, cap1)" "cap1 < want" "pool_inv (pool p)"
  shows "n1 = n + k \<or> pool_list (pool p1) = []"
  using assms
proof (induction k arbitrary: p pkt n cap)
  case (Suc k)
  obtain r p2 where al: "ne_frame_alloc p = (r, p2)" by force
  show ?case
  proof (cases r)
    case None
    then show ?thesis
      using Suc.prems al frame_alloc_None(2) [OF Suc.prems(3)] by (auto split: if_splits)
  next
    case (Some a)
    then have "pool_inv (pool p2)" using al frame_alloc_Some(2) [OF Suc.prems(3)] by simp
    with Suc.prems al Some show ?thesis
      by (cases "want \<le> cap") (auto simp: Let_def dest: Suc.IH [OF _ Suc.prems(2)])
  qed
qed simp

lemma packet_write_cases:
  assumes "ne_packet_write p pkt src want = (r, p', pkt')" "packet_ok pkt" "pair_ok p pkt"
  obtains (rejected) "r = Done False" "p' = p" "pkt' = pkt" "want = 0 \<or> 9216 < want"
  | (short) n1 where "r = Done False" "grown p pkt (packet_nsegs pkt) p' pkt' n1"
      "sum_list (map (seg_room pkt) [0..<packet_nsegs pkt]) + (n1 - packet_nsegs pkt) * frame_size p < want"
      "n1 = 4 \<or> pool_list (pool p') = []"
  | (fault) p1 pkt1 n1 where "r = Fault" "grown p pkt (packet_nsegs pkt) p1 pkt1 n1"
      "packet_copy src want [0..<n1] 0 (bufs p) pkt1 = Fault"
  | (copied) p1 pkt1 n1 mem pkt2 off pkt3 where
      "0 < want" "want \<le> 9216" "grown p pkt (packet_nsegs pkt) p1 pkt1 n1"
      "want \<le> sum_list (map (seg_room pkt) [0..<packet_nsegs pkt]) + (n1 - packet_nsegs pkt) * frame_size p"
      "packet_copy src want [0..<n1] 0 (bufs p) pkt1 = Done (mem, pkt2, off)"
      "packet_trim [used_segs pkt2 n1 0..<n1] (p1\<lparr>bufs := mem\<rparr>) pkt2 = (p', pkt3)"
      "r = Done (off = want)" "pkt' = pkt3\<lparr>nsegs := used_segs pkt2 n1 0, len := want\<rparr>"
proof (cases "want = 0 \<or> 9216 < want")
  case True
  then show ?thesis using assms(1) rejected by (auto simp: ne_packet_write_def NE_JUMBO_FRAME_MAX_def)
next
  case False
  let ?n = "packet_nsegs pkt" and ?cap = "sum_list (map (seg_room pkt) [0..<packet_nsegs pkt])"
  obtain p1 pkt1 n1 c1 where g: "packet_grow want (4 - ?n) p pkt ?n ?cap = (p1, pkt1, n1, c1)"
    by (metis prod_cases4)
  have gr: "grown p pkt ?n p1 pkt1 n1" "c1 = ?cap + (n1 - ?n) * frame_size p"
    using packet_grow_spec [OF g] assms(2,3) packet_ok_shape by (auto simp: packet_ok_def pair_ok_def)
  have b: "bufs p1 = bufs p" using gr(1) by (simp add: grown_def)
  show ?thesis
  proof (cases "c1 < want")
    case True
    then have "n1 = 4 \<or> pool_list (pool p1) = []"
      using packet_grow_short [OF g True] assms(2,3) by (auto simp: packet_ok_def pair_ok_def)
    then show ?thesis using short [of n1] gr assms(1) False g True
      by (simp add: ne_packet_write_def NE_JUMBO_FRAME_MAX_def NE_PACKET_MAX_SEGS_def Let_def)
  next
    case c1: False
    show ?thesis
    proof (cases "packet_copy src want [0..<n1] 0 (bufs p) pkt1")
      case (Done x)
      obtain mem pkt2 off where x: "x = (mem, pkt2, off)" by (cases x)
      obtain p3 pkt3 where t: "packet_trim [used_segs pkt2 n1 0..<n1] (p1\<lparr>bufs := mem\<rparr>) pkt2 = (p3, pkt3)" by force
      show ?thesis
        by (rule copied [OF _ _ gr(1) _ Done [unfolded x], of pkt3])
          (use assms(1) False g c1 gr(2) Done x t b in
            \<open>auto simp: ne_packet_write_def NE_JUMBO_FRAME_MAX_def NE_PACKET_MAX_SEGS_def Let_def\<close>)
    next
      case Fail
      then show ?thesis using packet_copy_not_Fail by metis
    next
      case Fault
      then show ?thesis using fault [OF _ gr(1)] assms(1) False g c1 b
        by (simp add: ne_packet_write_def NE_JUMBO_FRAME_MAX_def NE_PACKET_MAX_SEGS_def Let_def)
    qed
  qed
qed


lemma packet_write_used:
  assumes "packet_copy src want [0..<n1] 0 mem pkt1 = Done (mem', pkt2, off)" "0 < want" "packet_shape pkt1"
    "\<forall>i<n1. 0 < seg_room pkt1 i" "0 < n1"
  shows "0 < used_segs pkt2 n1 0" "used_segs pkt2 n1 0 \<le> n1"
proof -
  have n: "n1 = Suc (n1 - 1)" and u: "[0..<n1] = 0 # [1..<n1]" using assms(5) by (auto simp: upt_conv_Cons)
  have "seg_len pkt2 ! 0 \<noteq> 0"
    by (rule copy_first_nonzero [OF assms(1) [unfolded u]]) (use assms in auto)
  then have "used_segs pkt2 n1 0 = used_segs pkt2 (n1 - 1) 1" by (subst n) simp
  then show "0 < used_segs pkt2 n1 0" using used_segs_spec [of 1 pkt2 "n1 - 1"] by simp
  show "used_segs pkt2 n1 0 \<le> n1" using used_segs_spec [of 0 pkt2 n1] by simp
qed

lemma size_all_frames: "size (all_frames p pkt) = length (pool_list (pool p)) + packet_nsegs pkt"
  by (simp add: all_frames_def packet_frames_def)

lemma grown_n1_pos:
  "0 < want \<Longrightarrow> want \<le> sum_list (map (seg_room pkt) [0..<n]) + (n1 - n) * f \<Longrightarrow> n \<le> n1 \<Longrightarrow> 0 < n1" for n n1 :: nat
  by (cases n1) auto

text \<open>The end of a write that copied: the first \<open>u\<close> segments stay, the others go back to the pool.\<close>

lemma packet_write_copied:
  assumes "packet_ok pkt" "pair_ok p pkt" "0 < want"
    and g: "grown p pkt (packet_nsegs pkt) p1 pkt1 n1"
    and cap: "want \<le> sum_list (map (seg_room pkt) [0..<packet_nsegs pkt]) + (n1 - packet_nsegs pkt) * frame_size p"
    and cp: "packet_copy src want [0..<n1] 0 (bufs p) pkt1 = Done (mem, pkt2, off)"
    and u: "u = used_segs pkt2 n1 0"
    and t: "packet_trim [u..<n1] (p1\<lparr>bufs := mem\<rparr>) pkt2 = (p', pkt3)"
    and pkt': "pkt' = pkt3\<lparr>nsegs := u, len := want\<rparr>"
  shows "0 < u" "u \<le> n1" "n1 \<le> 4" "packet_nsegs pkt' = u" "bufs p' = mem"
    "pool_list (pool p') = pool_list (pool p1) @ map (packet_seg_addr pkt1) [u..<n1]" "pool_inv (pool p')"
    "frame_size p' = frame_size p" "pl_cap (pool p') = pl_cap (pool p)" "packet_shape pkt'" "seg_len pkt' = seg_len pkt2"
    "j < u \<Longrightarrow> packet_seg_addr pkt' j = packet_seg_addr pkt1 j \<and> seg_cap pkt' ! j = seg_cap pkt1 ! j \<and> seg_len pkt' ! j \<noteq> 0"
proof -
  note ok1 = grown_ok [OF g assms(1,2)]
  note f = grown_frames [OF g]
  have room: "\<forall>i<n1. 0 < seg_room pkt1 i" and sh1: "packet_shape pkt1" and n4: "n1 \<le> 4"
    using ok1(1) f(2) by (auto simp: packet_ok_def packet_shape_def)
  have n1: "0 < n1" using grown_n1_pos [OF assms(3) cap] g by (simp add: grown_def)
  note us = packet_write_used [OF cp assms(3) sh1 room n1, folded u]
  note k = packet_copy_keeps [OF cp]
  have inv1: "pool_inv (pool p1)" and fit: "length (pool_list (pool p1)) + (n1 - u) \<le> unat (pl_cap (pool p1))"
    using ok1(2) f(2) us by (auto simp: pair_ok_def size_all_frames)
  have sh2: "packet_shape pkt2" using k sh1 by (simp add: packet_shape_def)
  have sub: "set [u..<n1] \<subseteq> {..<4}" using n4 by auto
  note tr = packet_trim_spec [OF t _ sub _ _ sh2]
  show "0 < u" "u \<le> n1" "n1 \<le> 4" by (fact us n4)+
  show "packet_nsegs pkt' = u" using us(1) by (simp add: pkt' packet_nsegs_def)
  show "bufs p' = mem" "pool_inv (pool p')" "packet_shape pkt'" "seg_len pkt' = seg_len pkt2"
    "pool_list (pool p') = pool_list (pool p1) @ map (packet_seg_addr pkt1) [u..<n1]"
    "frame_size p' = frame_size p" "pl_cap (pool p') = pl_cap (pool p)"
    using tr inv1 fit k g by (simp_all add: pkt' grown_def packet_shape_def)
  show "packet_seg_addr pkt' j = packet_seg_addr pkt1 j \<and> seg_cap pkt' ! j = seg_cap pkt1 ! j \<and> seg_len pkt' ! j \<noteq> 0"
    if "j < u" using that tr inv1 fit k used_segs_spec [of 0 pkt2 n1] by (simp add: pkt' u)
qed

lemma packet_write_frames:
  assumes "packet_ok pkt" "pair_ok p pkt" "ne_packet_write p pkt src want = (r, p', pkt')" "r \<noteq> Fault"
  shows "all_frames p' pkt' = all_frames p pkt \<and> pair_ok p' pkt' \<and> packet_ok pkt'"
  using assms(3,1,2)
proof (cases rule: packet_write_cases)
  case rejected
  then show ?thesis using assms by simp
next
  case (short n1)
  then show ?thesis using grown_ok [OF short(2) assms(1,2)] by simp
next
  case fault
  then show ?thesis using assms(4) by simp
next
  case (copied p1 pkt1 n1 mem pkt2 off pkt3)
  define u where "u = used_segs pkt2 n1 0"
  note t = packet_write_copied [OF assms(1,2) copied(1,3,4,5) u_def copied(6) [folded u_def] copied(8) [folded u_def]]
  note f = grown_frames [OF copied(3)]
  have "packet_frames pkt' = map (packet_seg_addr pkt1) [0..<u]"
    using t(12) by (simp add: packet_frames_def t(4))
  then have "mset (packet_frames pkt') + mset (map (packet_seg_addr pkt1) [u..<n1])
      = mset (map (packet_seg_addr pkt1) [0..<n1])"
    using upt_split [OF _ t(2), of 0] by (simp del: mset_map map_eq_conv)
  moreover have "all_frames p' pkt' = mset (pool_list (pool p1)) +
      (mset (packet_frames pkt') + mset (map (packet_seg_addr pkt1) [u..<n1]))"
    by (simp add: all_frames_def t(6) add_ac del: mset_map)
  ultimately have e: "all_frames p' pkt' = all_frames p pkt" using f(1) by simp
  have "0 < seg_room pkt' j" if "j < u" for j
    using t(12) [OF that] by (auto simp: seg_room_def)
  then have "packet_ok pkt'" using t(2,3,4,10) by (simp add: packet_ok_def packet_shape_def)
  then show ?thesis using e t(7-9) assms(2) by (simp add: pair_ok_def)
qed

text \<open>Writing a payload into a packet conserves frames. Whatever the outcome short of an access outside
  the memory area, the free pool and the packet together hold exactly the frames they held before, the
  pool and the packet stay well formed, and every segment of the packet has room.
\<close>
theorem packet_write_conserves:
  assumes "packet_ok pkt" "pair_ok p pkt" "ne_packet_write p pkt src want = (r, p', pkt')" "r \<noteq> Fault"
  shows "all_frames p' pkt' = all_frames p pkt \<and> pair_ok p' pkt' \<and> packet_ok pkt'"
  using assms by (rule packet_write_frames)

end
