(* ===== verification/Cpu_Map.thy ===== *)
theory Cpu_Map
  imports Eth_Parse
begin

text \<open>
  \<^verbatim>\<open>inc/core/util/cpu_map.h\<close>, \<^verbatim>\<open>src/core/util/cpu_map.c\<close> and \<^verbatim>\<open>src/core/util/static_config.c\<close>: which CPU
  runs which dataplane role, the start-up check of that assignment, and the fixed configuration.
  The kernel's answers (\<^verbatim>\<open>sched_getaffinity\<close>, \<^verbatim>\<open>SIOCGIFMTU\<close>) are arguments.
\<close>

section \<open>CPU roles\<close>

definition NE_CPU_RX_LAN :: "u8 list" where "NE_CPU_RX_LAN = [0]"
definition NE_CPU_TX :: "u8 list" where "NE_CPU_TX = [1, 2, 9, 10]"
definition NE_CPU_CRYPTO :: "u8 list" where "NE_CPU_CRYPTO = [3, 4, 5, 6, 7, 8]"
definition NE_CPU_RX_WAN :: "u8 list" where "NE_CPU_RX_WAN = [11]"

definition NE_RX_LAN_SLOTS :: nat where "NE_RX_LAN_SLOTS = length NE_CPU_RX_LAN"
definition NE_RX_WAN_SLOTS :: nat where "NE_RX_WAN_SLOTS = length NE_CPU_RX_WAN"
definition NE_TX_SLOTS :: nat where "NE_TX_SLOTS = length NE_CPU_TX"
definition NE_CRYPTO_WORKERS :: nat where "NE_CRYPTO_WORKERS = length NE_CPU_CRYPTO"

lemma slot_counts [simp]:
  "NE_RX_LAN_SLOTS = 1" "NE_RX_WAN_SLOTS = 1" "NE_TX_SLOTS = 4" "NE_CRYPTO_WORKERS = 6"
  by (simp_all add: NE_RX_LAN_SLOTS_def NE_RX_WAN_SLOTS_def NE_TX_SLOTS_def NE_CRYPTO_WORKERS_def
      NE_CPU_RX_LAN_def NE_CPU_RX_WAN_def NE_CPU_TX_def NE_CPU_CRYPTO_def)

lemmas cpu_lists = NE_CPU_RX_LAN_def NE_CPU_RX_WAN_def NE_CPU_TX_def NE_CPU_CRYPTO_def

definition ne_cpu_rx_lan :: "nat \<Rightarrow> u8" where
  "ne_cpu_rx_lan slot = NE_CPU_RX_LAN ! (if slot < NE_RX_LAN_SLOTS then slot else 0)"
definition ne_cpu_rx_wan :: "nat \<Rightarrow> u8" where
  "ne_cpu_rx_wan slot = NE_CPU_RX_WAN ! (if slot < NE_RX_WAN_SLOTS then slot else 0)"
definition ne_cpu_tx :: "nat \<Rightarrow> u8" where
  "ne_cpu_tx slot = NE_CPU_TX ! (if slot < NE_TX_SLOTS then slot else 0)"
definition ne_cpu_crypto :: "nat \<Rightarrow> u8" where
  "ne_cpu_crypto worker = NE_CPU_CRYPTO ! (if worker < NE_CRYPTO_WORKERS then worker else 0)"

definition CPU_SETSIZE :: nat where "CPU_SETSIZE = 1024"

text \<open>\<open>seen\<close> is the \<^verbatim>\<open>seen[]\<close> array as the set of CPUs marked so far.\<close>

fun validate_group :: "(nat \<Rightarrow> bool) \<Rightarrow> u8 list \<Rightarrow> nat set \<Rightarrow> nat set option" where
  "validate_group allowed [] seen = Some seen"
| "validate_group allowed (c # cpus) seen =
     (let cpu = unat c in
      if CPU_SETSIZE \<le> cpu \<or> \<not> allowed cpu then None
      else if cpu \<in> seen then None
      else validate_group allowed cpus (insert cpu seen))"

definition ne_cpu_map_validate :: "(nat \<Rightarrow> bool) option \<Rightarrow> bool" where
  \<comment> \<open>the argument is the CPU set of \<^verbatim>\<open>sched_getaffinity\<close>, \<open>None\<close> when the call fails\<close>
  "ne_cpu_map_validate affinity =
     (case affinity of
        None \<Rightarrow> False
      | Some allowed \<Rightarrow>
          Option.bind (validate_group allowed NE_CPU_RX_LAN {}) (\<lambda>s1.
          Option.bind (validate_group allowed NE_CPU_TX s1) (\<lambda>s2.
          Option.bind (validate_group allowed NE_CPU_CRYPTO s2) (\<lambda>s3.
          validate_group allowed NE_CPU_RX_WAN s3))) \<noteq> None)"

lemma validate_group_append:
  "validate_group al (xs @ ys) seen = Option.bind (validate_group al xs seen) (validate_group al ys)"
  by (induction xs arbitrary: seen) (auto simp: Let_def)

lemma validate_group_iff:
  "validate_group al cpus seen \<noteq> None \<longleftrightarrow>
     distinct cpus \<and> (\<forall>c\<in>set cpus. al (unat c) \<and> unat c \<notin> seen)"
proof (induction cpus arbitrary: seen)
  case (Cons c cpus)
  have "unat c < CPU_SETSIZE" using u8_lt [of c] by (simp add: CPU_SETSIZE_def)
  moreover have "unat c' = unat c \<longleftrightarrow> c' = c" for c' by (simp add: word_unat_eq_iff)
  ultimately show ?case using Cons by (auto simp: Let_def)
qed simp

text \<open>The start-up check of the CPU map succeeds exactly when the affinity query succeeds and every one
  of the twelve CPUs of the map is allowed: the map itself never gives a CPU two roles.\<close>
theorem cpu_map_validate_iff:
  "ne_cpu_map_validate affinity \<longleftrightarrow> (\<exists>allowed. affinity = Some allowed \<and> {..<12} \<subseteq> Collect allowed)"
proof (cases affinity)
  case (Some al)
  let ?all = "NE_CPU_RX_LAN @ NE_CPU_TX @ NE_CPU_CRYPTO @ NE_CPU_RX_WAN"
  have "ne_cpu_map_validate affinity \<longleftrightarrow> validate_group al ?all {} \<noteq> None"
    by (simp only: ne_cpu_map_validate_def Some option.case validate_group_append [abs_def] bind_assoc)
  also have "\<dots> \<longleftrightarrow> (\<forall>c\<in>set ?all. al (unat c))"
    unfolding validate_group_iff by (simp add: cpu_lists)
  also have "\<dots> \<longleftrightarrow> (\<forall>cpu\<in>{0,1,2,3,4,5,6,7,8,9,10,11}. al cpu)"
    by (auto simp: cpu_lists)
  also have "{0,1,2,3,4,5,6,7,8,9,10,11} = {..<12::nat}"
    by (auto simp: less_Suc_eq numeral_eq_Suc)
  finally show ?thesis by (auto simp: Some)
qed (simp add: ne_cpu_map_validate_def)

section \<open>The fixed configuration\<close>

definition IF_NAMESIZE :: nat where "IF_NAMESIZE = 16"

record app_config =
  cfg_locals :: "string list"
  cfg_local_count :: nat
  cfg_wans :: "string list"
  cfg_wan_count :: nat
  cfg_bpf_file :: string
  cfg_bpf_wan_file :: string
  cfg_fake_ethertype_ipv4 :: u16
  cfg_key :: bytes

definition core_key :: bytes where
  "core_key =
     [0x73,0x21,0x4a,0x9c,0xe1,0x5d,0x2f,0xb8,
      0x16,0xc7,0x3b,0x90,0xad,0x44,0xf2,0x6e,
      0x58,0x0d,0xa1,0x37,0xcb,0x7f,0x24,0x95,
      0xee,0x63,0x18,0xd4,0x89,0xba,0x05,0xcf]"

definition copy_ifname :: "string \<Rightarrow> string" where
  \<comment> \<open>the name stored, without its terminating zero\<close>
  "copy_ifname src = take (IF_NAMESIZE - 1) src"

definition require_mtu_9000 :: "(string \<Rightarrow> int option) \<Rightarrow> string \<Rightarrow> bool" where
  \<comment> \<open>\<open>mtu\<close> answers \<^verbatim>\<open>SIOCGIFMTU\<close>; \<open>None\<close> when the socket or the ioctl fails\<close>
  "require_mtu_9000 mtu ifname \<longleftrightarrow> mtu (copy_ifname ifname) = Some 9000"

definition static_config_build :: "(string \<Rightarrow> int option) \<Rightarrow> app_config option" where
  "static_config_build mtu =
     (let lan = ''enp1s0f0''; wan = ''enp2s0f0'' in
      if \<not> require_mtu_9000 mtu lan \<or> \<not> require_mtu_9000 mtu wan then None
      else Some \<lparr>cfg_locals = [copy_ifname lan], cfg_local_count = 1,
             cfg_wans = [copy_ifname wan], cfg_wan_count = 1,
             cfg_bpf_file = ''./lib/lan.o'', cfg_bpf_wan_file = ''./lib/wan.o'',
             cfg_fake_ethertype_ipv4 = NE_L2_FAKE_ETHERTYPE, cfg_key = core_key\<rparr>)"

lemma length_core_key [simp]: "length core_key = 32"
  by (simp add: core_key_def)

end
