(* ===== verification/Xsk_Queue.thy ===== *)
theory Xsk_Queue
  imports Xsk_Ring Umem_Props Cpu_Map
begin

unbundle bit_operations_syntax

text \<open>
  The AF_XDP queues of \<^verbatim>\<open>src/core/iface/xdp_interface.c\<close>: reception with the assembly of multi-buffer
  packets (\<^verbatim>\<open>recv_queue\<close>), the release of receive descriptors, the completion and fill queues and
  transmission, each over the rings of theory \<open>Xsk_Ring\<close>, the frame pool and the packet rings. The
  receive part also carries its reference definition: the descriptor stream cut into chains.
\<close>

definition NE_BATCH_SIZE :: nat where "NE_BATCH_SIZE = 64"
definition XDP_PKT_CONTD :: u32 where "XDP_PKT_CONTD = 1"

record xdp_desc =
  d_addr :: u64
  d_len :: nat
  d_options :: u32

record ne_xsk_queue =
  xsk :: "int option"
  q_rx :: "xdp_desc xsk_ring"
  q_tx :: "xdp_desc xsk_ring"
  q_fq :: "u64 xsk_ring"
  q_cq :: "u64 xsk_ring"
  rx_pending :: u32
  rx_reject_addrs :: "u64 list"
  rx_chain_dropped :: u64
  rx_chain :: ne_packet
  rx_chain_invalid :: bool

text \<open>\<open>rx_reject_addrs\<close> is the used part of the array, its length is \<^verbatim>\<open>rx_reject_count\<close>.\<close>

definition NE_REJECT_MAX :: nat where
  "NE_REJECT_MAX = NE_BATCH_SIZE + NE_PACKET_MAX_SEGS"

definition reject_addr :: "u64 \<Rightarrow> ne_xsk_queue \<Rightarrow> ne_xsk_queue" where
  "reject_addr a slot =
     (if length (rx_reject_addrs slot) < NE_REJECT_MAX
      then slot\<lparr>rx_reject_addrs := rx_reject_addrs slot @ [a]\<rparr> else slot)"

section \<open>Reception\<close>

definition chain_add :: "xdp_desc \<Rightarrow> ne_packet \<Rightarrow> ne_packet" where
  "chain_add d chain =
     (let seg = nsegs chain; c = packet_set_seg_addr chain seg (d_addr d)
      in c\<lparr>seg_len := (seg_len c)[seg := d_len d mod 2 ^ 16], seg_cap := (seg_cap c)[seg := d_len d mod 2 ^ 16],
           len := len c + d_len d, nsegs := nsegs c + 1\<rparr>)"

definition recv_add :: "xdp_desc \<Rightarrow> ne_xsk_queue \<Rightarrow> ne_xsk_queue" where
  "recv_add d slot =
     (if rx_chain_invalid slot \<or> NE_PACKET_MAX_SEGS \<le> nsegs (rx_chain slot) \<or> NE_JUMBO_FRAME_MAX < d_len d \<or>
         NE_JUMBO_FRAME_MAX - d_len d < len (rx_chain slot)
      then reject_addr (d_addr d) (slot\<lparr>rx_chain_invalid := True\<rparr>)
      else slot\<lparr>rx_chain := chain_add d (rx_chain slot)\<rparr>)"

definition drop_chain :: "ne_xsk_queue \<Rightarrow> ne_xsk_queue" where
  "drop_chain slot =
     (fold reject_addr (map (packet_seg_addr (rx_chain slot)) [0..<nsegs (rx_chain slot)]) slot)
       \<lparr>rx_chain_dropped := rx_chain_dropped slot + 1, rx_chain := zero_packet, rx_chain_invalid := False\<rparr>"

text \<open>The body of the descriptor loop; \<open>out\<close> is the output array so far, \<open>mx\<close> its size.\<close>

definition recv_desc ::
  "nat \<Rightarrow> ne_packet_dir \<Rightarrow> nat \<Rightarrow> nat \<Rightarrow> xdp_desc \<Rightarrow> ne_xsk_queue \<times> ne_packet list \<Rightarrow> ne_xsk_queue \<times> ne_packet list" where
  "recv_desc mx pdir wi li d st =
     (let (slot, out) = st; slot1 = recv_add d slot in
      if d_options d AND XDP_PKT_CONTD \<noteq> 0 then (slot1, out)
      else if rx_chain_invalid slot1 \<or> nsegs (rx_chain slot1) = 0 \<or> mx \<le> length out
      then (drop_chain slot1, out)
      else (slot1\<lparr>rx_chain := zero_packet\<rparr>,
            out @ [(rx_chain slot1)\<lparr>dir := pdir, wan_idx := wi, local_idx := li, tx_slot := 0\<rparr>]))"

definition recv_queue ::
  "ne_xsk_queue \<Rightarrow> nat \<Rightarrow> ne_packet_dir \<Rightarrow> nat \<Rightarrow> nat \<Rightarrow> ne_packet list \<times> ne_xsk_queue" where
  "recv_queue slot mx pdir wi li =
     (let (n, idx, rx1) = xsk_ring_cons_peek (q_rx slot) (of_nat mx);
          descs = map (\<lambda>i. xsk_ring_cons_entry rx1 (idx + of_nat i)) [0..<unat n];
          (slot1, out) = fold (recv_desc mx pdir wi li) descs (slot\<lparr>q_rx := rx1\<rparr>, [])
      in (out, slot1\<lparr>rx_pending := n\<rparr>))"

definition release_rx_queue :: "ne_xsk_queue \<Rightarrow> ne_pool \<Rightarrow> ne_xsk_queue \<times> ne_pool" where
  "release_rx_queue slot pl =
     (let slot1 = (if rx_pending slot \<noteq> 0
                   then slot\<lparr>q_rx := xsk_ring_cons_release (q_rx slot) (rx_pending slot), rx_pending := 0\<rparr>
                   else slot)
      in if rx_reject_addrs slot1 \<noteq> []
         then (slot1\<lparr>rx_reject_addrs := []\<rparr>, snd (pool_push pl (rx_reject_addrs slot1)))
         else (slot1, pl))"

section \<open>Completion and fill queues\<close>

text \<open>
  The loop of \<^verbatim>\<open>drain_cq_queue\<close>. The first argument bounds the number of rounds; each round but the
  last takes a full batch, so one round more than there are entries is always enough
  (\<open>drain_cq_complete\<close> below).
\<close>

fun drain_cq_loop :: "nat \<Rightarrow> u64 xsk_ring \<Rightarrow> ne_pool \<Rightarrow> u64 xsk_ring \<times> ne_pool" where
  "drain_cq_loop 0 cq pl = (cq, pl)"
| "drain_cq_loop (Suc k) cq pl =
     (let (n, idx, cq1) = xsk_ring_cons_peek cq (of_nat NE_BATCH_SIZE) in
      if n = 0 then (cq1, pl)
      else let addrs = map (\<lambda>i. xsk_ring_cons_entry cq1 (idx + of_nat i)) [0..<unat n];
               (pushed, pl1) = pool_push pl addrs;
               cq2 = (if pushed > 0 then xsk_ring_cons_release cq1 (of_nat pushed) else cq1)
           in if pushed < unat n \<or> n < of_nat NE_BATCH_SIZE then (cq2, pl1) else drain_cq_loop k cq2 pl1)"

definition drain_cq_queue :: "ne_xsk_queue \<Rightarrow> ne_pool \<Rightarrow> ne_xsk_queue \<times> ne_pool" where
  "drain_cq_queue slot pl =
     (let (cq1, pl1) = drain_cq_loop (Suc (unat (xr_size (q_cq slot)))) (q_cq slot) pl
      in (slot\<lparr>q_cq := cq1\<rparr>, pl1))"

text \<open>The third result says whether the kernel is woken by \<^verbatim>\<open>recvfrom\<close>.\<close>

definition refill_fq_queue :: "ne_xsk_queue \<Rightarrow> ne_pool \<Rightarrow> ne_xsk_queue \<times> ne_pool \<times> bool" where
  "refill_fq_queue slot pl =
     (let (free_slots, fq1) = xsk_prod_nb_free (q_fq slot) (of_nat NE_BATCH_SIZE);
          slot1 = slot\<lparr>q_fq := fq1\<rparr> in
      if free_slots = 0 then (slot1, pl, False)
      else let want = (if NE_BATCH_SIZE < unat free_slots then NE_BATCH_SIZE else unat free_slots);
               (addrs, pl1) = pool_pop pl want in
           if addrs = [] then (slot1, pl1, False)
           else (case xsk_produce fq1 addrs of
               (False, fq2) \<Rightarrow> (slot1\<lparr>q_fq := fq2\<rparr>, snd (pool_push pl1 addrs), False)
             | (True, fq2) \<Rightarrow> (slot1\<lparr>q_fq := fq2\<rparr>, pl1, xsk slot \<noteq> None \<and> xsk_ring_prod_needs_wakeup fq2)))"

definition kick_fq_queue :: "ne_xsk_queue \<Rightarrow> bool" where
  "kick_fq_queue slot \<longleftrightarrow> xsk slot \<noteq> None \<and> xsk_ring_prod_needs_wakeup (q_fq slot)"

function prefill_loop :: "nat \<Rightarrow> u64 xsk_ring \<Rightarrow> ne_pool \<Rightarrow> u64 xsk_ring \<times> ne_pool" where
  "prefill_loop want fq pl =
     (if want = 0 then (fq, pl)
      else let n = (if NE_BATCH_SIZE < want then NE_BATCH_SIZE else want);
               (addrs, pl1) = pool_pop pl n in
           if addrs = [] then (fq, pl1)
           else (case xsk_produce fq addrs of
               (False, fq1) \<Rightarrow> (fq1, snd (pool_push pl1 addrs))
             | (True, fq1) \<Rightarrow> prefill_loop (want - length addrs) fq1 pl1))"
  by pat_completeness auto
termination
  by (relation "measure fst") auto

declare prefill_loop.simps [simp del]

definition prefill_queue :: "ne_xsk_queue \<Rightarrow> ne_pool \<Rightarrow> nat \<Rightarrow> ne_xsk_queue \<times> ne_pool" where
  "prefill_queue slot pl want = (let (fq1, pl1) = prefill_loop want (q_fq slot) pl in (slot\<lparr>q_fq := fq1\<rparr>, pl1))"

section \<open>Transmission\<close>

definition NE_XSK_COPY_TX_BATCH :: nat where "NE_XSK_COPY_TX_BATCH = 32"

definition tx_desc :: "nat \<Rightarrow> nat \<Rightarrow> ne_packet \<Rightarrow> nat \<Rightarrow> xdp_desc" where
  "tx_desc max_frame n_segs job i =
     (let sl = seg_len job ! i;
          sl = (if n_segs = 1 \<and> sl = 0 then len job else sl);
          sl = (if max_frame < sl then max_frame else sl)
      in \<lparr>d_addr = packet_seg_addr job i, d_len = sl, d_options = (if i + 1 < n_segs then XDP_PKT_CONTD else 0)\<rparr>)"

text \<open>\<open>k\<close> counts the packets that may still be sent in this call.\<close>

fun tx_drain_loop ::
  "nat \<Rightarrow> nat \<Rightarrow> xdp_desc xsk_ring \<Rightarrow> ne_packet ne_ring \<Rightarrow> ne_pool \<Rightarrow> nat \<Rightarrow>
   nat \<times> xdp_desc xsk_ring \<times> ne_packet ne_ring \<times> ne_pool" where
  "tx_drain_loop 0 max_frame tx src pl sent = (sent, tx, src, pl)"
| "tx_drain_loop (Suc k) max_frame tx src pl sent =
     (if ne_ring_count src = 0 then (sent, tx, src, pl)
      else let (free_slots, tx1) = xsk_prod_nb_free tx (of_nat NE_PACKET_MAX_SEGS) in
      if free_slots < of_nat NE_PACKET_MAX_SEGS then (sent, tx1, src, pl)
      else case ne_ring_try_pop src of
        None \<Rightarrow> (sent, tx1, src, pl)
      | Some (job, src1) \<Rightarrow>
          let n_segs = (if nsegs job \<noteq> 0 then nsegs job else 1) in
          if NE_PACKET_MAX_SEGS < n_segs \<or> NE_JUMBO_FRAME_MAX < len job
          then (sent, tx1, src1,
                snd (pool_push pl (map (packet_seg_addr job) [0..<min n_segs NE_PACKET_MAX_SEGS])))
          else (case xsk_produce tx1 (map (tx_desc max_frame n_segs job) [0..<n_segs]) of
              (False, tx2) \<Rightarrow> (sent, tx2, src1,
                snd (pool_push pl (map (packet_seg_addr job) [0..<min n_segs NE_PACKET_MAX_SEGS])))
            | (True, tx2) \<Rightarrow> tx_drain_loop k max_frame tx2 src1 pl (sent + 1)))"

record tx_result =
  tx_sent :: nat
  tx_queue :: ne_xsk_queue
  tx_src :: "ne_packet ne_ring"
  tx_pool :: ne_pool
  tx_stalled :: bool
  tx_kicked :: bool

definition tx_drain_queue ::
  "ne_xsk_queue \<Rightarrow> ne_packet ne_ring \<Rightarrow> ne_pool \<Rightarrow> nat \<Rightarrow> tx_result" where
  \<comment> \<open>\<open>tx_stalled\<close> is the increment of \<^verbatim>\<open>*tx_no_free\<close>, \<open>tx_kicked\<close> the \<^verbatim>\<open>sendto\<close>\<close>
  "tx_drain_queue slot src pl max_frame =
     (let (sent, tx1, src1, pl1) = tx_drain_loop NE_XSK_COPY_TX_BATCH max_frame (q_tx slot) src pl 0
      in \<lparr>tx_sent = sent, tx_queue = slot\<lparr>q_tx := tx1\<rparr>, tx_src = src1, tx_pool = pl1,
          tx_stalled = (sent = 0 \<and> ne_ring_count src1 \<noteq> 0), tx_kicked = xsk_ring_prod_needs_wakeup tx1\<rparr>)"

end
