(* ===== verification/Xsk_Recv.thy ===== *)
theory Xsk_Recv
  imports Xsk_Queue
begin

unbundle bit_operations_syntax

text \<open>
  Reception is chain parsing: \<^verbatim>\<open>recv_queue\<close> returns, for each chain of descriptors that ends in the batch
  and fits a packet, that packet, carries the unfinished chain over to the next batch, and accounts for
  every frame.
\<close>

section \<open>Every received frame is accounted for\<close>

definition chain_frames :: "ne_packet \<Rightarrow> u64 list" where
  "chain_frames c = map (packet_seg_addr c) [0..<nsegs c]"

definition chain_ok :: "ne_packet \<Rightarrow> bool" where
  "chain_ok c \<longleftrightarrow> packet_shape c \<and> nsegs c \<le> 4"

text \<open>The frames the receive side of a queue holds outside its rings.\<close>

definition rx_frames :: "ne_xsk_queue \<Rightarrow> u64 multiset" where
  "rx_frames slot = mset (rx_reject_addrs slot) + mset (chain_frames (rx_chain slot))"

lemma zero_packet_ok [simp]: "chain_ok zero_packet" "chain_frames zero_packet = []" "nsegs zero_packet = 0"
  by (simp_all add: chain_ok_def packet_shape_def zero_packet_def chain_frames_def)

lemma size_rx_frames: "size (rx_frames slot) = length (rx_reject_addrs slot) + nsegs (rx_chain slot)"
  by (simp add: rx_frames_def chain_frames_def)

lemma seg_addr_meta [simp]:
  "packet_seg_addr (c\<lparr>dir := a\<rparr>) = packet_seg_addr c" "packet_seg_addr (c\<lparr>wan_idx := b\<rparr>) = packet_seg_addr c"
  "packet_seg_addr (c\<lparr>local_idx := b\<rparr>) = packet_seg_addr c" "packet_seg_addr (c\<lparr>tx_slot := b\<rparr>) = packet_seg_addr c"
  by (simp_all add: packet_seg_addr_def fun_eq_iff)

lemma chain_add_frames:
  assumes "chain_ok c" "nsegs c < 4"
  shows "chain_frames (chain_add d c) = chain_frames c @ [d_addr d]" "chain_ok (chain_add d c)"
    "nsegs (chain_add d c) = nsegs c + 1"
proof -
  have ad: "packet_seg_addr (chain_add d c) j = (if j = nsegs c then d_addr d else packet_seg_addr c j)" for j
    using get_set_seg_addr [of c "nsegs c" "d_addr d" j] assms
    by (simp add: chain_add_def Let_def chain_ok_def packet_shape_def)
  show n: "nsegs (chain_add d c) = nsegs c + 1" by (simp add: chain_add_def Let_def)
  show "chain_frames (chain_add d c) = chain_frames c @ [d_addr d]"
    unfolding chain_frames_def n by (simp add: ad)
  show "chain_ok (chain_add d c)"
    using assms by (simp add: chain_ok_def packet_shape_def chain_add_def Let_def)
qed

text \<open>The reject list has room for 68 addresses; what does not fit is forgotten.\<close>

lemma take_take_append: "take k (take k xs @ ys) = take k (xs @ ys)"
  by (cases "length xs \<le> k") auto

lemma reject_addr_take:
  "length (rx_reject_addrs slot) \<le> 68 \<Longrightarrow>
   reject_addr a slot = slot\<lparr>rx_reject_addrs := take 68 (rx_reject_addrs slot @ [a])\<rparr>"
  by (auto simp: reject_addr_def NE_REJECT_MAX_def NE_BATCH_SIZE_def NE_PACKET_MAX_SEGS_def)

lemma fold_reject:
  "length (rx_reject_addrs slot) \<le> 68 \<Longrightarrow>
   fold reject_addr as slot = slot\<lparr>rx_reject_addrs := take 68 (rx_reject_addrs slot @ as)\<rparr>"
proof (induction as arbitrary: slot)
  case (Cons a as)
  then show ?case
    using Cons.IH [of "slot\<lparr>rx_reject_addrs := take 68 (rx_reject_addrs slot @ [a])\<rparr>"]
    by (simp add: reject_addr_take take_take_append del: take_append)
qed simp

text \<open>One descriptor: what becomes of its address and of the chain. \<open>rej\<close> are the addresses rejected, in order.\<close>

definition recv_effect :: "u64 list \<Rightarrow> ne_xsk_queue \<Rightarrow> ne_packet list \<Rightarrow> u64 list \<Rightarrow> ne_xsk_queue \<Rightarrow> ne_packet list \<Rightarrow> bool" where
  "recv_effect as slot out rej slot' out' \<longleftrightarrow> rx_reject_addrs slot' = take 68 (rx_reject_addrs slot @ rej) \<and> chain_ok (rx_chain slot') \<and>
     mset (concat (map chain_frames out')) + mset (chain_frames (rx_chain slot')) + mset rej =
     mset as + mset (chain_frames (rx_chain slot)) + mset (concat (map chain_frames out))"

lemma recv_effect_trans:
  "recv_effect as slot out r1 s1 o1 \<Longrightarrow> recv_effect bs s1 o1 r2 s2 o2 \<Longrightarrow> recv_effect (as @ bs) slot out (r1 @ r2) s2 o2"
  by (auto simp: recv_effect_def take_take_append add_ac simp del: take_append append_assoc simp flip: append_assoc)

lemma recv_add_effect:
  assumes "chain_ok (rx_chain slot)" "length (rx_reject_addrs slot) \<le> 68"
  shows "\<exists>rej. recv_effect [d_addr d] slot out rej (recv_add d slot) out"
proof (cases "rx_chain_invalid slot \<or> NE_PACKET_MAX_SEGS \<le> nsegs (rx_chain slot) \<or> NE_JUMBO_FRAME_MAX < d_len d \<or>
    NE_JUMBO_FRAME_MAX - d_len d < len (rx_chain slot)")
  case True
  then show ?thesis
    using assms reject_addr_take [of "slot\<lparr>rx_chain_invalid := True\<rparr>"]
    by (intro exI [of _ "[d_addr d]"]) (simp add: recv_effect_def recv_add_def)
next
  case False
  then show ?thesis
    using assms chain_add_frames [OF assms(1), of d]
    by (intro exI [of _ "[]"]) (simp add: recv_effect_def recv_add_def NE_PACKET_MAX_SEGS_def)
qed

lemma drop_chain_effect:
  assumes "length (rx_reject_addrs slot) \<le> 68"
  shows "recv_effect [] slot out (chain_frames (rx_chain slot)) (drop_chain slot) out"
  using fold_reject [OF assms] by (simp add: recv_effect_def drop_chain_def chain_frames_def)

lemma reject_len: "recv_effect as slot out rej slot' out' \<Longrightarrow> length (rx_reject_addrs slot') \<le> 68"
  by (simp add: recv_effect_def)

lemma recv_desc_effect:
  assumes "chain_ok (rx_chain slot)" "length (rx_reject_addrs slot) \<le> 68" "recv_desc mx pd wi li d (slot, out) = (slot', out')"
  shows "\<exists>rej. recv_effect [d_addr d] slot out rej slot' out'"
proof -
  obtain rej where e: "recv_effect [d_addr d] slot out rej (recv_add d slot) out" using recv_add_effect [OF assms(1,2)] by blast
  let ?s = "recv_add d slot"
  consider "slot' = ?s" "out' = out" | "slot' = drop_chain ?s" "out' = out"
    | "slot' = ?s\<lparr>rx_chain := zero_packet\<rparr>" "out' = out @ [(rx_chain ?s)\<lparr>dir := pd, wan_idx := wi, local_idx := li, tx_slot := 0\<rparr>]"
    using assms(3) by (auto simp: recv_desc_def Let_def split: if_splits)
  then show ?thesis
  proof cases
    case 2
    then show ?thesis
      using recv_effect_trans [OF e drop_chain_effect [OF reject_len [OF e]]] by auto
  next
    case 3
    have "chain_frames ((rx_chain ?s)\<lparr>dir := pd, wan_idx := wi, local_idx := li, tx_slot := 0\<rparr>) = chain_frames (rx_chain ?s)"
      by (simp add: chain_frames_def)
    then show ?thesis using 3 e by (intro exI [of _ rej]) (simp add: recv_effect_def add_ac)
  qed (use e in blast)
qed

lemma recv_fold_effect:
  assumes "chain_ok (rx_chain slot)" "length (rx_reject_addrs slot) \<le> 68"
    "fold (recv_desc mx pd wi li) ds (slot, out) = (slot', out')"
  shows "\<exists>rej. recv_effect (map d_addr ds) slot out rej slot' out'"
  using assms
proof (induction ds arbitrary: slot out)
  case Nil
  then show ?case by (intro exI [of _ "[]"]) (simp add: recv_effect_def)
next
  case (Cons d ds)
  obtain s1 o1 where r: "recv_desc mx pd wi li d (slot, out) = (s1, o1)" by force
  obtain r1 where e: "recv_effect [d_addr d] slot out r1 s1 o1" using recv_desc_effect [OF Cons.prems(1,2) r] by blast
  have "\<exists>rej. recv_effect (map d_addr ds) s1 o1 rej slot' out'"
    by (rule Cons.IH) (use e Cons.prems r in \<open>auto simp: recv_effect_def\<close>)
  then show ?case using recv_effect_trans [OF e] by fastforce
qed

section \<open>Reception as chain parsing\<close>

text \<open>The reference: cut the descriptors behind each one without the continuation flag. \<open>acc\<close> is the chain
  left unfinished by the previous batch.\<close>

definition continued :: "xdp_desc \<Rightarrow> bool" where
  "continued d \<longleftrightarrow> d_options d AND XDP_PKT_CONTD \<noteq> 0"

fun chains :: "xdp_desc list \<Rightarrow> xdp_desc list \<Rightarrow> xdp_desc list list" where
  "chains acc [] = []"
| "chains acc (d # ds) = (if continued d then chains (acc @ [d]) ds else (acc @ [d]) # chains [] ds)"

fun unfinished :: "xdp_desc list \<Rightarrow> xdp_desc list \<Rightarrow> xdp_desc list" where
  "unfinished acc [] = acc"
| "unfinished acc (d # ds) = (if continued d then unfinished (acc @ [d]) ds else unfinished [] ds)"

definition chain_fits :: "xdp_desc list \<Rightarrow> bool" where
  "chain_fits ds \<longleftrightarrow> length ds \<le> 4 \<and> sum_list (map d_len ds) \<le> 9216"

text \<open>The packet a chain stands for.\<close>

definition chain_packet :: "xdp_desc list \<Rightarrow> ne_packet" where
  "chain_packet ds = zero_packet\<lparr>addr := (case ds of [] \<Rightarrow> 0 | d # _ \<Rightarrow> d_addr d),
     seg_addr := take 3 (map d_addr (tl ds) @ replicate 3 0), len := sum_list (map d_len ds),
     seg_len := take 4 (map d_len ds @ replicate 4 0), seg_cap := take 4 (map d_len ds @ replicate 4 0),
     nsegs := length ds\<rparr>"

definition stamp :: "ne_packet_dir \<Rightarrow> nat \<Rightarrow> nat \<Rightarrow> ne_packet \<Rightarrow> ne_packet" where
  "stamp pd wi li p = p\<lparr>dir := pd, wan_idx := wi, local_idx := li, tx_slot := 0\<rparr>"

text \<open>The state of a queue represents the unfinished chain \<open>acc\<close>.\<close>

definition represents :: "ne_xsk_queue \<Rightarrow> xdp_desc list \<Rightarrow> bool" where
  "represents slot acc \<longleftrightarrow> (if rx_chain_invalid slot then \<not> chain_fits acc
     else chain_fits acc \<and> rx_chain slot = chain_packet acc)"

lemma chain_packet_Nil [simp]: "chain_packet [] = zero_packet"
  by (simp add: chain_packet_def zero_packet_def numeral_eq_Suc)

lemma chain_packet_simps [simp]: "nsegs (chain_packet ds) = length ds" "len (chain_packet ds) = sum_list (map d_len ds)"
  by (simp_all add: chain_packet_def)

lemma list_upd_pad:
  "length xs < k \<Longrightarrow> (take k (xs @ replicate k z))[length xs := x] = take k ((xs @ [x]) @ replicate k z)"
  by (auto simp: list_eq_iff_nth_eq nth_append nth_list_update min_def)

lemma chain_add_packet:
  assumes "chain_fits (acc @ [d])"
  shows "chain_add d (chain_packet acc) = chain_packet (acc @ [d])"
proof -
  have len: "length acc < 4" and dl: "d_len d < 2 ^ 16" using assms by (auto simp: chain_fits_def)
  have p4: "(take 4 (map d_len acc @ replicate 4 0))[length acc := d_len d] = take 4 (map d_len (acc @ [d]) @ replicate 4 0)"
    using list_upd_pad [of "map d_len acc" 4 0 "d_len d"] len by simp
  show ?thesis
  proof (cases acc)
    case Nil
    then show ?thesis using dl p4
      by (simp add: chain_add_def chain_packet_def packet_set_seg_addr_def del: chain_packet_Nil)
  next
    case (Cons a as)
    then have "length (map d_addr as) < 3" using len by simp
    from list_upd_pad [OF this, of 0 "d_addr d"]
    have p3: "(take 3 (map d_addr as @ replicate 3 0))[length as := d_addr d] = take 3 (map d_addr (as @ [d]) @ replicate 3 0)"
      by simp
    have "chain_add d (chain_packet acc) = (chain_packet acc)
        \<lparr>seg_addr := (seg_addr (chain_packet acc))[length as := d_addr d],
         seg_len := (seg_len (chain_packet acc))[length acc := d_len d], seg_cap := (seg_cap (chain_packet acc))[length acc := d_len d],
         len := len (chain_packet acc) + d_len d, nsegs := Suc (length acc)\<rparr>"
      using Cons dl by (simp add: chain_add_def packet_set_seg_addr_def)
    then show ?thesis using p4 p3 Cons by (simp add: chain_packet_def)
  qed
qed

lemma fits_snoc: "chain_fits (acc @ [d]) \<longleftrightarrow> chain_fits acc \<and> length acc < 4 \<and> sum_list (map d_len acc) + d_len d \<le> 9216"
  by (auto simp: chain_fits_def)

lemma recv_add_represents:
  assumes "represents slot acc"
  shows "represents (recv_add d slot) (acc @ [d])" "rx_chain_invalid (recv_add d slot) \<longleftrightarrow> \<not> chain_fits (acc @ [d])"
proof -
  have inv: "rx_chain_invalid (reject_addr a x) = rx_chain_invalid x" "rx_chain (reject_addr a x) = rx_chain x" for a x
    by (simp_all add: reject_addr_def)
  have g: "rx_chain_invalid slot \<or> NE_PACKET_MAX_SEGS \<le> nsegs (rx_chain slot) \<or> NE_JUMBO_FRAME_MAX < d_len d \<or>
      NE_JUMBO_FRAME_MAX - d_len d < len (rx_chain slot) \<longleftrightarrow> \<not> chain_fits (acc @ [d])"
    using assms unfolding fits_snoc represents_def NE_PACKET_MAX_SEGS_def NE_JUMBO_FRAME_MAX_def
    by (auto split: if_splits)
  show "rx_chain_invalid (recv_add d slot) \<longleftrightarrow> \<not> chain_fits (acc @ [d])"
    unfolding recv_add_def g using assms g by (auto simp: inv)
  then show "represents (recv_add d slot) (acc @ [d])"
    using assms g chain_add_packet [of acc d] by (auto simp: represents_def recv_add_def fits_snoc)
qed

lemma recv_desc_represents:
  assumes "represents slot acc" "length out < mx" "recv_desc mx pd wi li d (slot, out) = (slot', out')"
  shows "represents slot' (if continued d then acc @ [d] else [])"
    "out' = out @ (if \<not> continued d \<and> chain_fits (acc @ [d]) then [stamp pd wi li (chain_packet (acc @ [d]))] else [])"
proof -
  note r = recv_add_represents [OF assms(1), of d]
  show "represents slot' (if continued d then acc @ [d] else [])"
    "out' = out @ (if \<not> continued d \<and> chain_fits (acc @ [d]) then [stamp pd wi li (chain_packet (acc @ [d]))] else [])"
    using assms(2,3) r by (auto simp: recv_desc_def Let_def continued_def [symmetric] stamp_def represents_def
      drop_chain_def chain_fits_def [of "[]"] split: if_splits)
qed


lemma recv_desc_rx: "recv_desc mx pd wi li d (slot, out) = (slot', out') \<Longrightarrow> q_rx slot' = q_rx slot"
proof -
  have r: "q_rx (reject_addr a x) = q_rx x" for a x by (simp add: reject_addr_def)
  have "q_rx (fold reject_addr as x) = q_rx x" for as x by (induction as arbitrary: x) (auto simp: r)
  moreover assume "recv_desc mx pd wi li d (slot, out) = (slot', out')"
  ultimately show ?thesis by (auto simp: recv_desc_def Let_def recv_add_def drop_chain_def r split: if_splits)
qed

lemma recv_fold_rx: "fold (recv_desc mx pd wi li) ds (slot, out) = (slot', out') \<Longrightarrow> q_rx slot' = q_rx slot"
proof (induction ds arbitrary: slot out)
  case (Cons d ds)
  obtain s1 o1 where r: "recv_desc mx pd wi li d (slot, out) = (s1, o1)" by force
  then show ?case using Cons recv_desc_rx [OF r] by simp
qed simp

lemma recv_fold_represents:
  assumes "represents slot acc" "length out + length ds \<le> mx"
    "fold (recv_desc mx pd wi li) ds (slot, out) = (slot', out')"
  shows "represents slot' (unfinished acc ds) \<and>
    out' = out @ map (\<lambda>c. stamp pd wi li (chain_packet c)) (filter chain_fits (chains acc ds))"
  using assms
proof (induction ds arbitrary: slot acc out)
  case (Cons d ds)
  obtain s1 o1 where r: "recv_desc mx pd wi li d (slot, out) = (s1, o1)" by force
  have lt: "length out < mx" using Cons.prems(2) by simp
  note st = recv_desc_represents [OF Cons.prems(1) lt r]
  have "length o1 + length ds \<le> mx" using Cons.prems(2) st(2) by auto
  from Cons.IH [OF st(1) this] show ?case using Cons.prems(3) r st(2) by (auto split: if_splits)
qed simp

text \<open>C34: Receiving a batch is parsing the descriptor stream: \<^verbatim>\<open>recv_queue\<close> returns, in order, exactly one
  packet for each chain completed by the batch that has at most four segments and at most 9216 bytes,
  with the chain's addresses and lengths, and keeps the unfinished chain for the next batch, so that
  batch boundaries do not matter. No more than the batch is read from the ring.\<close>
theorem recv_queue_parses_chains:
  assumes "cons_inv (q_rx slot)" "represents slot acc" "mx \<le> 64" "recv_queue slot mx pd wi li = (out, slot')"
  shows "\<exists>n \<le> mx. out = map (\<lambda>c. stamp pd wi li (chain_packet c))
        (filter chain_fits (chains acc (take n (xsk_unread (q_rx slot))))) \<and>
      represents slot' (unfinished acc (take n (xsk_unread (q_rx slot)))) \<and>
      xsk_unread (q_rx slot') = drop n (xsk_unread (q_rx slot)) \<and> cons_inv (q_rx slot') \<and>
      (n = 0 \<longleftrightarrow> mx = 0 \<or> xsk_unread (q_rx slot) = [])"
proof -
  obtain n idx rx1 where p: "xsk_ring_cons_peek (q_rx slot) (of_nat mx) = (n, idx, rx1)" by (metis prod_cases3)
  let ?ds = "map (\<lambda>i. xsk_ring_cons_entry rx1 (idx + of_nat i)) [0..<unat n]"
  obtain s1 o1 where f: "fold (recv_desc mx pd wi li) ?ds (slot\<lparr>q_rx := rx1\<rparr>, []) = (s1, o1)" by force
  note pk = xsk_peek_spec [OF assms(1) p refl]
  have mx: "unat (of_nat mx :: u32) = mx" using assms(3) by (simp add: unat_of_nat)
  have out: "out = o1" "slot' = s1\<lparr>rx_pending := n\<rparr>" using assms(4) p f by (auto simp: recv_queue_def Let_def)
  have r: "represents (slot\<lparr>q_rx := rx1\<rparr>) acc" using assms(2) by (simp add: represents_def)
  have "length ([] :: ne_packet list) + length ?ds \<le> mx" using pk(4) mx by simp
  note rf = recv_fold_represents [OF r this f]
  have "q_rx s1 = rx1" using recv_fold_rx [OF f] by simp
  moreover have "n = 0 \<longleftrightarrow> mx = 0 \<or> xsk_unread (q_rx slot) = []"
    using pk(4,6) mx by (cases "of_nat mx = (0 :: u32)") (auto simp: unat_eq_zero)
  ultimately show ?thesis
    using pk rf mx out by (intro exI [of _ "unat n"]) (simp add: represents_def unat_eq_zero)
qed


lemma recv_fold_nsegs:
  "fold (recv_desc mx pd wi li) ds (slot, out) = (slot', out') \<Longrightarrow> \<forall>p\<in>set out. nsegs p \<noteq> 0 \<Longrightarrow>
   \<forall>p\<in>set out'. nsegs p \<noteq> 0"
proof (induction ds arbitrary: slot out)
  case (Cons d ds)
  obtain s1 o1 where r: "recv_desc mx pd wi li d (slot, out) = (s1, o1)" by force
  then have "\<forall>p\<in>set o1. nsegs p \<noteq> 0"
    using Cons.prems(2) by (auto simp: recv_desc_def Let_def split: if_splits)
  then show ?case using Cons r by simp
qed simp

lemma packet_frames_chain: "nsegs p \<noteq> 0 \<Longrightarrow> packet_frames p = chain_frames p"
  by (simp add: packet_frames_def chain_frames_def packet_nsegs_def)

text \<open>C35: Reception accounts for every frame: the frames of the packets returned, of the unfinished chain, of the
  addresses rejected in this call and of the descriptors still unread are together exactly the frames that
  were in the chain and in the ring. The rejected addresses are appended to the reject list, of which only
  the first 68 entries are kept; a call rejects at most 68 addresses, so none is lost when the list was
  empty, and exactly those beyond the 68th are lost when it was not, as after a batch that was rejected
  whole and therefore never released.\<close>
theorem recv_queue_accounts:
  assumes "cons_inv (q_rx slot)" "chain_ok (rx_chain slot)" "length (rx_reject_addrs slot) \<le> 68" "mx \<le> 64"
    "recv_queue slot mx pd wi li = (out, slot')"
  shows "\<exists>rej. mset (concat (map packet_frames out)) + mset (chain_frames (rx_chain slot')) + mset rej +
        mset (map d_addr (xsk_unread (q_rx slot'))) =
      mset (chain_frames (rx_chain slot)) + mset (map d_addr (xsk_unread (q_rx slot))) \<and>
      rx_reject_addrs slot' = take 68 (rx_reject_addrs slot @ rej) \<and> length rej \<le> 68 \<and> chain_ok (rx_chain slot')"
proof -
  obtain n idx rx1 where p: "xsk_ring_cons_peek (q_rx slot) (of_nat mx) = (n, idx, rx1)" by (metis prod_cases3)
  define ds where "ds = map (\<lambda>i. xsk_ring_cons_entry rx1 (idx + of_nat i)) [0..<unat n]"
  obtain s1 o1 where f: "fold (recv_desc mx pd wi li) ds (slot\<lparr>q_rx := rx1\<rparr>, []) = (s1, o1)" by force
  note pk = xsk_peek_spec [OF assms(1) p ds_def]
  have mx: "unat (of_nat mx :: u32) = mx" using assms(4) by (simp add: unat_of_nat)
  have out: "out = o1" "slot' = s1\<lparr>rx_pending := n\<rparr>"
    using assms(5) p f by (auto simp: recv_queue_def Let_def ds_def)
  have "chain_ok (rx_chain (slot\<lparr>q_rx := rx1\<rparr>))" "length (rx_reject_addrs (slot\<lparr>q_rx := rx1\<rparr>)) \<le> 68"
    using assms(2,3) by simp_all
  from recv_fold_effect [OF this f] obtain rej where e: "rx_reject_addrs s1 = take 68 (rx_reject_addrs slot @ rej)"
    "chain_ok (rx_chain s1)" "mset (concat (map chain_frames o1)) + mset (chain_frames (rx_chain s1)) + mset rej =
     mset (map d_addr ds) + mset (chain_frames (rx_chain slot))"
    by (auto simp: recv_effect_def)
  have "length rej \<le> 68"
  proof -
    from arg_cong [OF e(3), of size] have "length rej \<le> length ds + length (chain_frames (rx_chain slot))" by simp
    moreover have "length (chain_frames (rx_chain slot)) \<le> 4" using assms(2) by (simp add: chain_ok_def chain_frames_def)
    moreover have "length ds \<le> 64" using pk(4) mx assms(4) by (simp add: ds_def)
    ultimately show ?thesis by simp
  qed
  moreover have "map packet_frames o1 = map chain_frames o1"
    using recv_fold_nsegs [OF f] by (auto simp: packet_frames_chain)
  moreover have "mset (map d_addr (xsk_unread (q_rx slot))) = mset (map d_addr ds) + mset (map d_addr (xsk_unread rx1))"
    using pk(1,2) by (metis append_take_drop_id map_append mset_append)
  moreover have "q_rx slot' = rx1" using recv_fold_rx [OF f] out by simp
  ultimately show ?thesis using e out
    by (intro exI [of _ rej]) (simp add: add_ac del: mset_map map_eq_conv)
qed

lemma recv_queue_held:
  assumes "cons_inv (q_rx slot)" "recv_queue slot mx pd wi li = (out, slot')"
  shows "xsk_held (q_rx slot') = xsk_held (q_rx slot) + unat (rx_pending slot')" "cons_inv (q_rx slot')"
proof -
  obtain n idx rx1 where p: "xsk_ring_cons_peek (q_rx slot) (of_nat mx) = (n, idx, rx1)" by (metis prod_cases3)
  let ?ds = "map (\<lambda>i. xsk_ring_cons_entry rx1 (idx + of_nat i)) [0..<unat n]"
  obtain s1 o1 where f: "fold (recv_desc mx pd wi li) ?ds (slot\<lparr>q_rx := rx1\<rparr>, []) = (s1, o1)" by force
  note pk = xsk_peek_spec [OF assms(1) p refl]
  have s': "slot' = s1\<lparr>rx_pending := n\<rparr>" using assms(2) p f by (auto simp: recv_queue_def Let_def)
  have rx: "q_rx slot' = rx1" using recv_fold_rx [OF f] s' by simp
  then show "cons_inv (q_rx slot')" using pk(3) by simp
  have inv: "cached_cons (q_rx slot) - consumer (q_rx slot) \<le> producer (q_rx slot) - consumer (q_rx slot)"
    using assms(1) by (simp add: cons_inv_def)
  have "unat (cached_cons (q_rx slot) + n - consumer (q_rx slot)) = unat (cached_cons (q_rx slot) - consumer (q_rx slot)) + unat n"
    using unat_add_of_nat [of "cached_cons (q_rx slot)" "consumer (q_rx slot)" "unat n" "producer (q_rx slot) - consumer (q_rx slot)"]
      unat_split [OF inv] pk(5) by (simp add: xsk_unread_def)
  then show "xsk_held (q_rx slot') = xsk_held (q_rx slot) + unat (rx_pending slot')"
    using rx s' pk(7,10) by (simp add: xsk_held_def)
qed

lemma recv_queue_taken:
  assumes "cons_inv (q_rx slot)" "recv_queue slot mx pd wi li = (out, slot')" "0 < mx" "mx \<le> 64"
  shows "xsk_unread (q_rx slot') = drop (unat (rx_pending slot')) (xsk_unread (q_rx slot))"
    "rx_pending slot' = 0 \<longleftrightarrow> xsk_unread (q_rx slot) = []"
proof -
  obtain n idx rx1 where p: "xsk_ring_cons_peek (q_rx slot) (of_nat mx) = (n, idx, rx1)" by (metis prod_cases3)
  let ?ds = "map (\<lambda>i. xsk_ring_cons_entry rx1 (idx + of_nat i)) [0..<unat n]"
  obtain s1 o1 where f: "fold (recv_desc mx pd wi li) ?ds (slot\<lparr>q_rx := rx1\<rparr>, []) = (s1, o1)" by force
  note pk = xsk_peek_spec [OF assms(1) p refl]
  have s': "slot' = s1\<lparr>rx_pending := n\<rparr>" using assms(2) p f by (auto simp: recv_queue_def Let_def)
  have rx: "q_rx slot' = rx1" using recv_fold_rx [OF f] s' by simp
  show "xsk_unread (q_rx slot') = drop (unat (rx_pending slot')) (xsk_unread (q_rx slot))" using pk(2) rx s' by simp
  have "unat (of_nat mx :: u32) = mx" using assms(4) by (simp add: unat_of_nat)
  then have "(of_nat mx :: u32) \<noteq> 0" using assms(3) by (metis unat_0 less_numeral_extra(3))
  then show "rx_pending slot' = 0 \<longleftrightarrow> xsk_unread (q_rx slot) = []"
    using pk(4,5,6) s' by (auto simp: unat_eq_zero)
qed

lemma release_rx_held:
  assumes "cons_inv (q_rx slot)" "unat (rx_pending slot) \<le> xsk_held (q_rx slot)" "release_rx_queue slot pl = (slot', pl')"
  shows "xsk_held (q_rx slot') = xsk_held (q_rx slot) - unat (rx_pending slot)" "cons_inv (q_rx slot')"
    "xsk_unread (q_rx slot') = xsk_unread (q_rx slot)"
proof -
  have r: "q_rx slot' = (if rx_pending slot \<noteq> 0 then xsk_ring_cons_release (q_rx slot) (rx_pending slot) else q_rx slot)"
    using assms(3) by (auto simp: release_rx_queue_def Let_def split: if_splits)
  note rel = xsk_release_spec [OF assms(1,2)]
  show "xsk_held (q_rx slot') = xsk_held (q_rx slot) - unat (rx_pending slot)" "cons_inv (q_rx slot')"
    "xsk_unread (q_rx slot') = xsk_unread (q_rx slot)"
    using rel assms(1) by (auto simp: r)
qed

text \<open>A queue with a two-segment packet and the first segment of another in its receive ring.\<close>

definition zero_xring :: "'a \<Rightarrow> 'a xsk_ring" where
  "zero_xring z = \<lparr>cached_prod = 0, cached_cons = 4, xr_mask = 3, xr_size = 4, producer = 0, consumer = 0,
     xr_ring = [z, z, z, z], need_wakeup = False\<rparr>"

definition demo_descs :: "xdp_desc list" where
  "demo_descs = [\<lparr>d_addr = 4352, d_len = 3840, d_options = 1\<rparr>, \<lparr>d_addr = 8448, d_len = 100, d_options = 0\<rparr>,
     \<lparr>d_addr = 12544, d_len = 3840, d_options = 1\<rparr>, \<lparr>d_addr = 0, d_len = 0, d_options = 0\<rparr>]"

definition demo_queue :: ne_xsk_queue where
  "demo_queue = \<lparr>xsk = Some 5,
     q_rx = \<lparr>cached_prod = 0, cached_cons = 0, xr_mask = 3, xr_size = 4, producer = 3, consumer = 0,
       xr_ring = demo_descs, need_wakeup = False\<rparr>,
     q_tx = zero_xring \<lparr>d_addr = 0, d_len = 0, d_options = 0\<rparr>, q_fq = zero_xring 0, q_cq = (zero_xring 0)\<lparr>cached_cons := 0\<rparr>,
     rx_pending = 0, rx_reject_addrs = [], rx_chain_dropped = 0, rx_chain = zero_packet, rx_chain_invalid = False\<rparr>"

lemma demo_queue_rx: "cons_inv (q_rx demo_queue)" "xsk_unread (q_rx demo_queue) = take 3 demo_descs"
  "represents demo_queue []"
  by (simp_all add: cons_inv_def ring_shape_def demo_queue_def demo_descs_def pow2_cap_def xsk_unread_def slots_def
      ring_slot_def upt_conv_Cons represents_def chain_fits_def)

theorem recv_queue_parses_chains_witness:
  "\<exists>n out slot'. recv_queue demo_queue 64 NE_DIR_LOCAL 0 0 = (out, slot') \<and> n \<noteq> 0 \<and>
     out = map (\<lambda>c. stamp NE_DIR_LOCAL 0 0 (chain_packet c)) (filter chain_fits (chains [] (take n (take 3 demo_descs))))"
proof -
  obtain out slot' where r: "recv_queue demo_queue 64 NE_DIR_LOCAL 0 0 = (out, slot')" by force
  have "take 3 demo_descs \<noteq> []" by (simp add: demo_descs_def)
  then show ?thesis
    using recv_queue_parses_chains [OF demo_queue_rx(1,3) order_refl r] r unfolding demo_queue_rx(2) by auto
qed

text \<open>The first chain is one that was found too long before, and the reject list is full: both frames are lost.\<close>

definition full_reject_queue :: ne_xsk_queue where
  "full_reject_queue = demo_queue\<lparr>rx_reject_addrs := replicate 68 77, rx_chain_invalid := True\<rparr>"

theorem recv_queue_accounts_witness:
  "\<exists>out slot' rej. recv_queue full_reject_queue 64 NE_DIR_LOCAL 0 0 = (out, slot') \<and> length rej \<le> 68 \<and>
     mset (concat (map packet_frames out)) + mset (chain_frames (rx_chain slot')) + mset rej +
       mset (map d_addr (xsk_unread (q_rx slot'))) = {#4352, 8448, 12544#} \<and>
     rx_reject_addrs slot' = replicate 68 77"
proof -
  obtain out slot' where r: "recv_queue full_reject_queue 64 NE_DIR_LOCAL 0 0 = (out, slot')" by force
  have c: "chain_ok (rx_chain full_reject_queue)" "rx_reject_addrs full_reject_queue = replicate 68 77"
    "chain_frames (rx_chain full_reject_queue) = []" "q_rx full_reject_queue = q_rx demo_queue"
    by (simp_all only: full_reject_queue_def ne_xsk_queue.simps) (simp_all add: demo_queue_def)
  have "cons_inv (q_rx full_reject_queue)" "length (rx_reject_addrs full_reject_queue) \<le> 68"
    using demo_queue_rx(1) c(2,4) by simp_all
  from recv_queue_accounts [OF this(1) c(1) this(2) order_refl r] obtain rej where
    "mset (concat (map packet_frames out)) + mset (chain_frames (rx_chain slot')) + mset rej +
       mset (map d_addr (xsk_unread (q_rx slot'))) = {#4352, 8448, 12544#}"
    "rx_reject_addrs slot' = take 68 (replicate 68 77 @ rej)" "length rej \<le> 68"
    unfolding c demo_queue_rx(2) by (auto simp: demo_descs_def)
  with r show ?thesis by (intro exI conjI) (assumption | simp)+
qed

end
