(* ===== verification/Xsk_Flow.thy ===== *)
theory Xsk_Flow
  imports Xsk_Recv
begin

unbundle bit_operations_syntax

text \<open>
  Completion, fill and transmit queues: each moves frames between a ring and the pool, or descriptors
  into a ring, and does so completely and in order.
\<close>

section \<open>Completion queue\<close>

lemma peek_held:
  assumes "cons_inv r" "xsk_ring_cons_peek r nb = (n, idx, r')"
  shows "xsk_held r' = xsk_held r + unat n"
proof -
  note pk = xsk_peek_spec [OF assms refl]
  have inv: "cached_cons r - consumer r \<le> producer r - consumer r" using assms(1) by (simp add: cons_inv_def)
  have "unat (cached_cons r + n - consumer r) = unat (cached_cons r - consumer r) + unat n"
    using unat_add_of_nat [of "cached_cons r" "consumer r" "unat n" "producer r - consumer r"]
      unat_split [OF inv] pk(5) by (simp add: xsk_unread_def)
  then show ?thesis using pk(7,10) by (simp add: xsk_held_def)
qed

text \<open>The cached producer is either used up, so that the next peek refreshes it, or up to date.\<close>

definition cache_fresh :: "'a xsk_ring \<Rightarrow> bool" where
  "cache_fresh r \<longleftrightarrow> cached_prod r = cached_cons r \<or> cached_prod r = producer r"

lemma peek_fresh:
  assumes "cache_fresh r" "xsk_ring_cons_peek r nb = (n, idx, r')"
  shows "unat n = min (unat nb) (length (xsk_unread r))" "cache_fresh r'"
proof -
  have n: "n = (if producer r - cached_cons r > nb then nb else producer r - cached_cons r)" "cached_prod r' = producer r'"
    using assms
    by (auto simp: cache_fresh_def xsk_ring_cons_peek_def xsk_cons_nb_avail_def Let_def split: if_splits)
  show "unat n = min (unat nb) (length (xsk_unread r))"
    using n(1) by (simp add: xsk_unread_def word_less_nat_alt)
  show "cache_fresh r'" using n(2) by (simp add: cache_fresh_def)
qed

lemma drain_cq_loop_spec:
  assumes "cons_inv cq" "cache_fresh cq" "xsk_held cq = 0" "pool_inv pl" "length (xsk_unread cq) < k"
    "length (pool_list pl) + length (xsk_unread cq) \<le> unat (pl_cap pl)" "drain_cq_loop k cq pl = (cq', pl')"
  shows "pool_list pl' = pool_list pl @ xsk_unread cq \<and> xsk_unread cq' = [] \<and> xsk_held cq' = 0 \<and> cache_fresh cq' \<and>
    cons_inv cq' \<and> pool_inv pl' \<and> pl_cap pl' = pl_cap pl"
  using assms
proof (induction k arbitrary: cq pl)
  case (Suc k)
  obtain n idx cq1 where p: "xsk_ring_cons_peek cq (of_nat NE_BATCH_SIZE) = (n, idx, cq1)" by (metis prod_cases3)
  define as where "as = map (\<lambda>i. xsk_ring_cons_entry cq1 (idx + of_nat i)) [0..<unat n]"
  note pk = xsk_peek_spec [OF Suc.prems(1) p as_def]
  note h = peek_held [OF Suc.prems(1) p]
  note fr = peek_fresh [OF Suc.prems(2) p]
  have nz: "(of_nat NE_BATCH_SIZE :: u32) = 64" by (simp add: NE_BATCH_SIZE_def)
  show ?case
  proof (cases "n = 0")
    case True
    then show ?thesis using Suc.prems p pk h nz fr by simp
  next
    case False
    obtain put pl1 where pp: "pool_push pl as = (put, pl1)" by force
    have las: "length as = unat n" by (simp add: as_def)
    note ps = pool_push_spec [OF Suc.prems(4) pp]
    have put: "put = unat n" using ps(1) las pk(5) Suc.prems(6) by simp
    define cq2 where "cq2 = xsk_ring_cons_release cq1 (of_nat put)"
    have c2: "cons_inv cq2" "xsk_unread cq2 = drop (unat n) (xsk_unread cq)" "xsk_held cq2 = 0"
      unfolding cq2_def using xsk_release_spec [OF pk(3), of put] h put pk(2) Suc.prems(3) by simp_all
    have f2: "cache_fresh cq2" using fr(2) by (simp add: cq2_def cache_fresh_def xsk_ring_cons_release_def)
    have ll: "pool_list pl1 = pool_list pl @ take (unat n) (xsk_unread cq)" using ps(2) put las pk(1) by simp
    have n0: "0 < unat n" using False by (simp add: unat_gt_0)
    have eq: "drain_cq_loop (Suc k) cq pl = (if n < 64 then (cq2, pl1) else drain_cq_loop k cq2 pl1)"
      using p False pp put n0 by (simp add: as_def cq2_def nz)
    show ?thesis
    proof (cases "n < 64")
      case True
      then have "unat n = length (xsk_unread cq)" using fr(1) nz by (simp add: word_less_nat_alt min_def split: if_splits)
      then show ?thesis using True eq Suc.prems(7) c2 f2 ll ps(3,4) by simp
    next
      case n64: False
      have "length (xsk_unread cq2) < k" using c2(2) n0 pk(5) Suc.prems(5) by simp
      moreover have "length (pool_list pl1) + length (xsk_unread cq2) \<le> unat (pl_cap pl1)"
        using ll c2(2) ps(4) pk(5) Suc.prems(6) by simp
      ultimately have "pool_list pl' = pool_list pl1 @ xsk_unread cq2 \<and> xsk_unread cq' = [] \<and> xsk_held cq' = 0 \<and> cache_fresh cq' \<and>
          cons_inv cq' \<and> pool_inv pl' \<and> pl_cap pl' = pl_cap pl1"
        by (intro Suc.IH [OF c2(1) f2 c2(3) ps(3)]) (use eq n64 Suc.prems(7) in simp_all)
      then show ?thesis using ll c2(2) ps(4) by simp
    qed
  qed
qed simp


lemma drain_cq_spec:
  assumes "cons_inv (q_cq slot)" "cache_fresh (q_cq slot)" "xsk_held (q_cq slot) = 0" "pool_inv pl"
    "length (pool_list pl) + length (xsk_unread (q_cq slot)) \<le> unat (pl_cap pl)" "drain_cq_queue slot pl = (slot', pl')"
  shows "pool_list pl' = pool_list pl @ xsk_unread (q_cq slot) \<and> xsk_unread (q_cq slot') = [] \<and>
    xsk_held (q_cq slot') = 0 \<and> cache_fresh (q_cq slot') \<and> cons_inv (q_cq slot') \<and> pool_inv pl' \<and>
    pl_cap pl' = pl_cap pl \<and> slot' = slot\<lparr>q_cq := q_cq slot'\<rparr>"
proof -
  obtain cq1 pl1 where d: "drain_cq_loop (Suc (unat (xr_size (q_cq slot)))) (q_cq slot) pl = (cq1, pl1)" by force
  have "cached_cons (q_cq slot) - consumer (q_cq slot) \<le> producer (q_cq slot) - consumer (q_cq slot)"
    "producer (q_cq slot) - consumer (q_cq slot) \<le> xr_size (q_cq slot)"
    using assms(1) by (auto simp: cons_inv_def ring_shape_def)
  then have "length (xsk_unread (q_cq slot)) < Suc (unat (xr_size (q_cq slot)))"
    using unat_split [of "cached_cons (q_cq slot)" "consumer (q_cq slot)" "producer (q_cq slot)"]
    by (simp add: xsk_unread_def word_le_nat_alt)
  note sp = drain_cq_loop_spec [OF assms(1-4) this assms(5) d]
  show ?thesis using sp assms(6) d by (auto simp: drain_cq_queue_def Let_def)
qed

text \<open>C37: Draining a completion queue returns every completed frame: the loop ends, the queue is empty
  afterwards with all its descriptors released, and the pool has gained exactly the completed frames, in
  order, whenever it has room for them.\<close>
theorem drain_cq_complete:
  assumes "cons_inv (q_cq slot)" "cache_fresh (q_cq slot)" "xsk_held (q_cq slot) = 0" "pool_inv pl"
    "length (pool_list pl) + length (xsk_unread (q_cq slot)) \<le> unat (pl_cap pl)" "drain_cq_queue slot pl = (slot', pl')"
  shows "pool_list pl' = pool_list pl @ xsk_unread (q_cq slot) \<and> xsk_unread (q_cq slot') = [] \<and>
    xsk_held (q_cq slot') = 0 \<and> cache_fresh (q_cq slot') \<and> cons_inv (q_cq slot') \<and> pool_inv pl'"
  using drain_cq_spec [OF assms] by simp

section \<open>Fill queue\<close>

lemma nb_free_exact:
  assumes "prod_inv r" "xsk_prod_nb_free r nb = (f, r1)" "\<not> f \<ge> nb"
  shows "unat f = unat (xr_size r) - length (xsk_list r)"
proof -
  have "f = consumer r + xr_size r - producer r"
    using assms by (auto simp: xsk_prod_nb_free_def Let_def prod_inv_def split: if_splits)
  then show ?thesis using ring_room [of r] assms(1) by (simp add: prod_inv_def)
qed

lemma refill_fq_spec:
  assumes "prod_inv (q_fq slot)" "pool_inv pl" "refill_fq_queue slot pl = (slot', pl', kicked)"
    "m = min 64 (unat (xr_size (q_fq slot)) - length (xsk_list (q_fq slot)))"
  shows "xsk_list (q_fq slot') = xsk_list (q_fq slot) @ take m (pool_list pl) \<and> pool_list pl' = drop m (pool_list pl) \<and>
    prod_inv (q_fq slot') \<and> pool_inv pl' \<and> xr_size (q_fq slot') = xr_size (q_fq slot) \<and> pl_cap pl' = pl_cap pl"
proof -
  obtain f fq1 where nf: "xsk_prod_nb_free (q_fq slot) (of_nat NE_BATCH_SIZE) = (f, fq1)" by force
  note n = nb_free_spec [OF assms(1) nf]
  have u64: "unat (of_nat NE_BATCH_SIZE :: u32) = 64" by (simp add: NE_BATCH_SIZE_def)
  have m: "(if NE_BATCH_SIZE < unat f then NE_BATCH_SIZE else unat f) = m"
  proof (cases "f \<ge> of_nat NE_BATCH_SIZE")
    case True
    then show ?thesis using n(5,6) u64 assms(4) by (simp add: word_le_nat_alt NE_BATCH_SIZE_def)
  next
    case False
    then show ?thesis using nb_free_exact [OF assms(1) nf False] n(6) u64 assms(4)
      by (simp add: word_le_nat_alt NE_BATCH_SIZE_def)
  qed
  obtain as pl1 where pp: "pool_pop pl m = (as, pl1)" by force
  note ps = pool_pop_spec [OF assms(2) pp]
  show ?thesis
  proof (cases "f = 0 \<or> as = []")
    case True
    have "m = 0 \<or> pool_list pl = []" using True ps(1) m by (auto split: if_splits)
    then show ?thesis
      using True assms(2,3) nf n ps m pp by (auto simp: refill_fq_queue_def Let_def split: if_splits)
  next
    case False
    obtain ok fq2 where pr: "xsk_produce fq1 as = (ok, fq2)" by force
    have la: "length as \<le> m" "length as \<le> 64" using ps(1) assms(4) by auto
    note x = xsk_produce_spec [OF n(1) pr]
    have ok using x(1) la assms(4) n(2,3) prod_room [OF assms(1)] by simp
    then show ?thesis
      using False assms(3) nf pp pr m x la n(2,3) ps by (auto simp: refill_fq_queue_def Let_def split: if_splits)
  qed
qed

text \<open>Refilling hands the first free frames to the kernel: as many as the fill ring has room for, the pool
  has, and one batch holds; they leave the pool in order and are appended to the fill ring in order, and
  the reservation never fails.\<close>
theorem refill_fq_moves_frames:
  assumes "prod_inv (q_fq slot)" "pool_inv pl" "refill_fq_queue slot pl = (slot', pl', kicked)"
    "m = min 64 (unat (xr_size (q_fq slot)) - length (xsk_list (q_fq slot)))"
  shows "xsk_list (q_fq slot') = xsk_list (q_fq slot) @ take m (pool_list pl) \<and> pool_list pl' = drop m (pool_list pl) \<and>
    prod_inv (q_fq slot') \<and> pool_inv pl' \<and> xr_size (q_fq slot') = xr_size (q_fq slot) \<and> pl_cap pl' = pl_cap pl"
  using assms by (rule refill_fq_spec)


lemma prefill_loop_spec:
  assumes "prod_inv fq" "pool_inv pl" "length (xsk_list fq) + want \<le> unat (xr_size fq)" "prefill_loop want fq pl = (fq', pl')"
  shows "xsk_list fq' = xsk_list fq @ take want (pool_list pl) \<and> pool_list pl' = drop want (pool_list pl) \<and>
    prod_inv fq' \<and> pool_inv pl' \<and> pl_cap pl' = pl_cap pl \<and> xr_size fq' = xr_size fq"
  using assms
proof (induction want arbitrary: fq pl rule: less_induct)
  case (less want)
  let ?n = "if NE_BATCH_SIZE < want then NE_BATCH_SIZE else want"
  obtain as pl1 where pp: "pool_pop pl ?n = (as, pl1)" by force
  note ps = pool_pop_spec [OF less.prems(2) pp]
  show ?case
  proof (cases "want = 0 \<or> as = []")
    case True
    then have "want = 0 \<or> pool_list pl = []" using ps(1) by (auto simp: NE_BATCH_SIZE_def split: if_splits)
    then show ?thesis
      using True less.prems pp ps by (auto simp: prefill_loop.simps [of want] Let_def split: if_splits)
  next
    case False
    obtain ok fq1 where pr: "xsk_produce fq as = (ok, fq1)" by force
    have la: "length as \<le> want" "length as < 2 ^ 32" "0 < length as"
      using ps(1) False by (auto simp: NE_BATCH_SIZE_def)
    note x = xsk_produce_spec [OF less.prems(1) pr la(2)]
    have ok: ok using x(1) la(1) less.prems(3) by simp
    have e: "prefill_loop (want - length as) fq1 pl1 = (fq', pl')"
      using less.prems(4) False pp pr ok by (simp add: prefill_loop.simps [of want] Let_def)
    have "length (xsk_list fq1) + (want - length as) \<le> unat (xr_size fq1)" using x ok la less.prems(3) by simp
    note ih = less.IH [OF _ x(3) ps(3) this e]
    have as: "as = take (length as) (pool_list pl)" "pool_list pl1 = drop (length as) (pool_list pl)"
      using ps(1,2) by (auto simp: min_def)
    have "take want (pool_list pl) = as @ take (want - length as) (pool_list pl1)"
      using as la(1) by (metis le_add_diff_inverse take_add)
    moreover have "drop want (pool_list pl) = drop (want - length as) (pool_list pl1)"
      using as(2) la(1) by simp
    ultimately show ?thesis using ih x ok la ps(4) False by simp
  qed
qed

section \<open>Transmission\<close>

text \<open>What a packet is on the wire: its segments, address and length, in order, and the descriptors that say so,
  the continuation flag on all but the last. A packet without a segment count is one segment, and a single
  segment without a length has the length of the packet.\<close>

definition wire_segs :: "ne_packet \<Rightarrow> (u64 \<times> nat) list" where
  "wire_segs job = (case seg_len job of l # ls \<Rightarrow>
     if nsegs job \<le> 1 then [(addr job, if l = 0 then len job else l)]
     else (addr job, l) # zip (take (nsegs job - 1) (seg_addr job)) ls | [] \<Rightarrow> [])"

definition packet_descs :: "ne_packet \<Rightarrow> xdp_desc list" where
  "packet_descs job =
     map (\<lambda>(a, l). \<lparr>d_addr = a, d_len = l, d_options = XDP_PKT_CONTD\<rparr>) (butlast (wire_segs job)) @
     [\<lparr>d_addr = fst (last (wire_segs job)), d_len = snd (last (wire_segs job)), d_options = 0\<rparr>]"

text \<open>A packet that can be sent whole: at most four segments and 9216 bytes, no segment longer than a frame.\<close>

definition tx_ready :: "nat \<Rightarrow> ne_packet \<Rightarrow> bool" where
  "tx_ready mf job \<longleftrightarrow> length (seg_addr job) = 3 \<and> length (seg_len job) = 4 \<and> nsegs job \<le> 4 \<and> len job \<le> 9216 \<and>
     list_all (\<lambda>(a, l). l \<le> mf) (wire_segs job)"

lemma list_3: "length xs = 3 \<Longrightarrow> \<exists>a b c. xs = [a, b, c]"
  by (auto simp: numeral_3_eq_3 length_Suc_conv)

lemma list_4: "length xs = 4 \<Longrightarrow> \<exists>a b c d. xs = [a, b, c, d]"
  by (auto simp: numeral_eq_Suc length_Suc_conv)

lemma tx_descs_eq:
  assumes "tx_ready mf job" "n = max 1 (nsegs job)"
  shows "map (tx_desc mf n job) [0..<n] = packet_descs job"
proof -
  obtain a b c where sa: "seg_addr job = [a, b, c]" using assms(1) list_3 [of "seg_addr job"] by (auto simp: tx_ready_def)
  obtain p q r s where sl: "seg_len job = [p, q, r, s]" using assms(1) list_4 [of "seg_len job"] by (auto simp: tx_ready_def)
  have "nsegs job \<in> {0, 1, 2, 3, 4}" using assms(1) by (auto simp: tx_ready_def)
  then show ?thesis
    using assms sa sl
    by (auto simp: tx_ready_def packet_descs_def wire_segs_def tx_desc_def packet_seg_addr_def Let_def max_def upt_conv_Cons
        take_Cons' split: if_splits)
qed

lemma wire_segs_nonempty: "tx_ready mf job \<Longrightarrow> wire_segs job \<noteq> []"
  by (auto simp: tx_ready_def wire_segs_def split: list.splits)

lemma length_packet_descs: "tx_ready mf job \<Longrightarrow> length (packet_descs job) = max 1 (nsegs job)"
  using tx_descs_eq [of mf job, OF _ refl] by (metis length_map length_upt diff_zero)

text \<open>A receiver that cuts the descriptors behind each one without the flag finds the packets again.\<close>

lemma chains_continued: "list_all continued ds \<Longrightarrow> chains acc (ds @ es) = chains (acc @ ds) es"
  by (induction ds arbitrary: acc) auto

lemma chains_packet_descs: "chains [] (packet_descs job @ ds) = packet_descs job # chains [] ds"
proof -
  have "list_all continued (map (\<lambda>(a, l). \<lparr>d_addr = a, d_len = l, d_options = XDP_PKT_CONTD\<rparr>) (butlast (wire_segs job)))"
    by (auto simp: list_all_iff continued_def XDP_PKT_CONTD_def)
  then show ?thesis by (simp add: packet_descs_def chains_continued) (simp add: continued_def)
qed

lemma descs_wire_segs:
  assumes "tx_ready mf job"
  shows "map (\<lambda>d. (d_addr d, d_len d)) (packet_descs job) = wire_segs job"
  using append_butlast_last_id [OF wire_segs_nonempty [OF assms]] by (simp add: packet_descs_def split_beta o_def)

lemma chains_all_packets:
  "\<forall>job\<in>set js. tx_ready mf job \<Longrightarrow>
   map (map (\<lambda>d. (d_addr d, d_len d))) (chains [] (concat (map packet_descs js))) = map wire_segs js"
proof (induction js)
  case (Cons j js)
  then show ?case using chains_packet_descs [of j "concat (map packet_descs js)"] descs_wire_segs [of mf j] by simp
qed simp

lemma tx_drain_loop_spec:
  assumes "prod_inv tx" "ring_inv src" "\<forall>job\<in>set (ring_list src). tx_ready mf job" "unat (xr_size tx) \<ge> 4"
    "tx_drain_loop k mf tx src pl sent = (sent', tx', src', pl')"
  shows "\<exists>n. sent' = sent + n \<and> n \<le> k \<and> ring_list src' = drop n (ring_list src) \<and> n \<le> length (ring_list src) \<and>
    xsk_list tx' = xsk_list tx @ concat (map packet_descs (take n (ring_list src))) \<and> pl' = pl \<and>
    prod_inv tx' \<and> ring_inv src' \<and> xr_size tx' = xr_size tx \<and> r_cap src' = r_cap src \<and>
    (n = k \<or> ring_list src' = [] \<or> unat (xr_size tx) < length (xsk_list tx') + 4)"
  using assms
proof (induction k arbitrary: tx src sent)
  case (Suc k)
  obtain f tx1 where nf: "xsk_prod_nb_free tx (of_nat NE_PACKET_MAX_SEGS) = (f, tx1)" by force
  note n = nb_free_spec [OF Suc.prems(1) nf]
  have u4: "unat (of_nat NE_PACKET_MAX_SEGS :: u32) = 4" by (simp add: NE_PACKET_MAX_SEGS_def)
  have cnt: "ne_ring_count src = 0 \<longleftrightarrow> ring_list src = []"
    using length_ring_list [of src] by (metis length_0_conv unat_eq_zero)
  consider (empty) "ring_list src = []" | (full) "ring_list src \<noteq> []" "f < of_nat NE_PACKET_MAX_SEGS"
    | (go) "ring_list src \<noteq> []" "\<not> f < of_nat NE_PACKET_MAX_SEGS" by blast
  then show ?case
  proof cases
    case empty
    then show ?thesis using Suc.prems cnt by simp
  next
    case full
    then have "unat (xr_size tx) < length (xsk_list tx) + 4" using n(6) u4 by (auto simp: not_le [symmetric])
    then show ?thesis using full Suc.prems cnt nf n by simp
  next
    case go
    obtain job src1 where po: "ne_ring_try_pop src = Some (job, src1)"
      using ring_pop_None [of src] go(1) by (cases "ne_ring_try_pop src") auto
    note r = ring_pop_Some [OF Suc.prems(2) po]
    let ?s = "max 1 (nsegs job)"
    have rd: "tx_ready mf job" using Suc.prems(3) r(2) by simp
    obtain ok tx2 where pr: "xsk_produce tx1 (packet_descs job) = (ok, tx2)" by force
    have lp: "length (packet_descs job) = ?s" using length_packet_descs [OF rd] .
    have s4: "?s \<le> 4" using rd by (simp add: tx_ready_def)
    note x = xsk_produce_spec [OF n(1) pr]
    have room: "4 \<le> unat (xr_size tx) - length (xsk_list tx)" using go(2) n(6) u4 by (simp add: not_less)
    have ok: ok using x(1) lp s4 room n(2,3) by simp
    have e: "tx_drain_loop k mf tx2 src1 pl (sent + 1) = (sent', tx', src', pl')"
      using Suc.prems(5) cnt go nf po rd pr ok
      by (cases "nsegs job = 0")
        (simp_all add: Let_def max_def tx_ready_def NE_PACKET_MAX_SEGS_def NE_JUMBO_FRAME_MAX_def flip: tx_descs_eq [OF rd refl])
    have p2: "prod_inv tx2" "xsk_list tx2 = xsk_list tx @ packet_descs job" "xr_size tx2 = xr_size tx"
      using x(2-4) ok lp s4 n(2,3) by auto
    have "\<exists>n. sent' = sent + 1 + n \<and> n \<le> k \<and> ring_list src' = drop n (ring_list src1) \<and> n \<le> length (ring_list src1) \<and>
        xsk_list tx' = xsk_list tx2 @ concat (map packet_descs (take n (ring_list src1))) \<and> pl' = pl \<and>
        prod_inv tx' \<and> ring_inv src' \<and> xr_size tx' = xr_size tx2 \<and> r_cap src' = r_cap src1 \<and>
        (n = k \<or> ring_list src' = [] \<or> unat (xr_size tx2) < length (xsk_list tx') + 4)"
      by (rule Suc.IH [OF p2(1) r(1) _ _ e]) (use Suc.prems(3,4) r(2) p2(3) in auto)
    then obtain m where "sent' = sent + 1 + m \<and> m \<le> k \<and> ring_list src' = drop m (ring_list src1) \<and> m \<le> length (ring_list src1) \<and>
        xsk_list tx' = xsk_list tx2 @ concat (map packet_descs (take m (ring_list src1))) \<and> pl' = pl \<and>
        prod_inv tx' \<and> ring_inv src' \<and> xr_size tx' = xr_size tx2 \<and> r_cap src' = r_cap src1 \<and>
        (m = k \<or> ring_list src' = [] \<or> unat (xr_size tx2) < length (xsk_list tx') + 4)" by blast
    then show ?thesis using r p2 by (intro exI [of _ "Suc m"]) auto
  qed
qed simp

text \<open>C38: Transmission keeps order and packets whole. When no segment is longer than a frame, a call takes some first
  packets of the source ring, at most 32, and appends their descriptors to the transmit ring, packet after
  packet: one descriptor for each segment, with the segment's own address and full length, and the
  continuation flag on all but the last, so that cutting the new descriptors behind each one without the
  flag gives back the segments of the packets sent. It stops only when the source is empty, the batch is
  used up, or the transmit ring lacks room for a packet of four segments; no frame is freed.\<close>
theorem tx_drain_in_order:
  assumes "prod_inv (q_tx slot)" "ring_inv src" "\<forall>job\<in>set (ring_list src). tx_ready mf job" "unat (xr_size (q_tx slot)) \<ge> 4"
    "r = tx_drain_queue slot src pl mf" "new = concat (map packet_descs (take (tx_sent r) (ring_list src)))"
  shows "tx_sent r \<le> 32 \<and> tx_sent r \<le> length (ring_list src) \<and> ring_list (tx_src r) = drop (tx_sent r) (ring_list src) \<and> tx_pool r = pl \<and>
    xsk_list (q_tx (tx_queue r)) = xsk_list (q_tx slot) @ new \<and>
    map (map (\<lambda>d. (d_addr d, d_len d))) (chains [] new) = map wire_segs (take (tx_sent r) (ring_list src)) \<and>
    (tx_sent r = 32 \<or> ring_list (tx_src r) = [] \<or> unat (xr_size (q_tx slot)) < length (xsk_list (q_tx (tx_queue r))) + 4)"
proof -
  obtain sent tx1 src1 pl1 where d: "tx_drain_loop 32 mf (q_tx slot) src pl 0 = (sent, tx1, src1, pl1)"
    by (metis prod_cases4)
  have c: "map (map (\<lambda>d. (d_addr d, d_len d))) (chains [] new) = map wire_segs (take (tx_sent r) (ring_list src))"
    unfolding assms(6) by (rule chains_all_packets [of _ mf]) (use assms(3) in_set_takeD in metis)
  from tx_drain_loop_spec [OF assms(1-4) d] c show ?thesis
    by (auto simp: assms(5,6) tx_drain_queue_def NE_XSK_COPY_TX_BATCH_def d Let_def)
qed

section \<open>Witnesses\<close>

lemma demo_queue_rings:
  "prod_inv (q_fq demo_queue)" "prod_inv (q_tx demo_queue)" "xsk_list (q_fq demo_queue) = []" "xsk_list (q_tx demo_queue) = []"
  "xr_size (q_fq demo_queue) = 4" "xr_size (q_tx demo_queue) = 4"
  by (simp_all add: demo_queue_def zero_xring_def prod_inv_def ring_shape_def pow2_cap_def xsk_list_def slots_def)

definition flow_pool :: ne_pool where
  "flow_pool = \<lparr>pl_buf = [16, 32, 0, 0], pl_cap = 4, pl_mask = 3, pl_head = 2, pl_tail = 0\<rparr>"

lemma flow_pool_facts: "pool_inv flow_pool" "pool_list flow_pool = [16, 32]" "pl_cap flow_pool = 4"
  by (simp_all add: pool_inv_def pool_list_def flow_pool_def pow2_cap_def slots_def ring_slot_def
      word_le_nat_alt upt_conv_Cons)

definition done_queue :: ne_xsk_queue where
  \<comment> \<open>two completions waiting\<close>
  "done_queue = demo_queue\<lparr>q_cq := (zero_xring 0)\<lparr>cached_cons := 0, producer := 2, xr_ring := [48, 64, 0, 0]\<rparr>\<rparr>"

lemma done_queue_cq:
  "cons_inv (q_cq done_queue)" "cache_fresh (q_cq done_queue)" "xsk_held (q_cq done_queue) = 0"
  "xsk_unread (q_cq done_queue) = [48, 64]"
  by (simp_all add: done_queue_def zero_xring_def cons_inv_def ring_shape_def pow2_cap_def cache_fresh_def xsk_held_def
      xsk_unread_def slots_def ring_slot_def upt_conv_Cons)

theorem drain_cq_complete_witness:
  "\<exists>slot' pl'. drain_cq_queue done_queue flow_pool = (slot', pl') \<and> pool_list pl' = [16, 32, 48, 64] \<and>
     xsk_unread (q_cq slot') = []"
proof -
  obtain slot' pl' where d: "drain_cq_queue done_queue flow_pool = (slot', pl')" by force
  have "length (pool_list flow_pool) + length (xsk_unread (q_cq done_queue)) \<le> unat (pl_cap flow_pool)"
    by (simp add: flow_pool_facts done_queue_cq)
  from drain_cq_complete [OF done_queue_cq(1-3) flow_pool_facts(1) this d] d show ?thesis
    by (simp add: flow_pool_facts done_queue_cq)
qed

theorem refill_fq_moves_frames_witness:
  "\<exists>slot' pl' kicked. refill_fq_queue demo_queue flow_pool = (slot', pl', kicked) \<and>
     xsk_list (q_fq slot') = [16, 32] \<and> pool_list pl' = []"
proof -
  obtain slot' pl' kicked where r: "refill_fq_queue demo_queue flow_pool = (slot', pl', kicked)" by (metis prod_cases3)
  from refill_fq_moves_frames [OF demo_queue_rings(1) flow_pool_facts(1) r refl] r show ?thesis
    by (simp add: demo_queue_rings flow_pool_facts)
qed

definition tx_demo_ring :: "ne_packet ne_ring" where
  \<comment> \<open>one packet of two segments\<close>
  "tx_demo_ring = \<lparr>r_buf = [zero_packet\<lparr>addr := 16, seg_addr := [32, 0, 0], len := 4105, seg_len := [4096, 9, 0, 0],
     nsegs := 2\<rparr>, zero_packet], r_cap = 2, r_mask = 1, r_head = 1, r_tail = 0, r_mpsc_pop = False\<rparr>"

theorem tx_drain_in_order_witness:
  "\<exists>r. r = tx_drain_queue demo_queue tx_demo_ring flow_pool 4096 \<and> tx_sent r = 1 \<and> ring_list (tx_src r) = [] \<and>
     xsk_list (q_tx (tx_queue r)) =
       [\<lparr>d_addr = 16, d_len = 4096, d_options = 1\<rparr>, \<lparr>d_addr = 32, d_len = 9, d_options = 0\<rparr>]"
proof -
  have l: "ring_list tx_demo_ring = [zero_packet\<lparr>addr := 16, seg_addr := [32, 0, 0], len := 4105, seg_len := [4096, 9, 0, 0],
     nsegs := 2\<rparr>]" (is "_ = [?p]")
    by (simp add: tx_demo_ring_def ring_list_def slots_def ring_slot_def)
  have w: "wire_segs ?p = [(16, 4096), (32, 9)]" by (simp add: wire_segs_def)
  have r: "ring_inv tx_demo_ring" "\<forall>job\<in>set (ring_list tx_demo_ring). tx_ready 4096 job"
    using w unfolding l by (simp_all add: ring_inv_def tx_demo_ring_def pow2_cap_def tx_ready_def)
  define q where "q = tx_drain_queue demo_queue tx_demo_ring flow_pool 4096"
  have "unat (xr_size (q_tx demo_queue)) \<ge> 4" by (simp add: demo_queue_rings)
  note t = tx_drain_in_order [OF demo_queue_rings(2) r this q_def refl]
  have n: "tx_sent q = 1"
  proof (rule ccontr)
    assume "tx_sent q \<noteq> 1"
    then have "tx_sent q = 0" using t l by simp
    then show False using t by (auto simp: l demo_queue_rings)
  qed
  then have tk: "take (tx_sent q) [?p] = [?p]" "drop (tx_sent q) [?p] = []" by simp_all
  have d: "packet_descs ?p = [\<lparr>d_addr = 16, d_len = 4096, d_options = 1\<rparr>, \<lparr>d_addr = 32, d_len = 9, d_options = 0\<rparr>]"
    by (simp add: packet_descs_def w XDP_PKT_CONTD_def)
  show ?thesis
    using t n tk d q_def demo_queue_rings(4) unfolding l by (intro exI [of _ q]) simp
qed

end
