(* ===== verification/Xsk_Iface.thy ===== *)
theory Xsk_Iface
  imports Xsk_Flow
begin

text \<open>
  Interfaces and the pair of interface sets (\<^verbatim>\<open>struct ne_iface\<close>, \<^verbatim>\<open>struct ne_pair\<close>): which thread slot owns
  which queue, and the loops that run a queue operation over the queues of a slot. A loop visits the
  interfaces of one side in order, skips those that are not live, and within an interface the queues
  that belong to the slot. Slots are natural numbers, as the threads pass them.
\<close>

record ne_iface =
  ifindex :: nat
  ifname :: string
  queue_count :: nat
  queues :: "ne_xsk_queue list"
  tx_no_free :: u64
  if_xdp_flags :: u32
  xdp_sg_enabled :: bool

record ne_pair_io =
  io_mem :: ne_pair
  n_frames :: nat
  locals :: "ne_iface list"
  local_count :: nat
  wans :: "ne_iface list"
  wan_count :: nat
  local_queue_total :: nat
  wan_queue_total :: nat
  local_live :: "bool list"
  wan_live :: "bool list"

definition ne_pair_local_live :: "ne_pair_io \<Rightarrow> nat \<Rightarrow> bool" where
  "ne_pair_local_live p i \<longleftrightarrow> i < local_count p \<and> local_live p ! i"

definition ne_pair_wan_live :: "ne_pair_io \<Rightarrow> nat \<Rightarrow> bool" where
  "ne_pair_wan_live p i \<longleftrightarrow> i < wan_count p \<and> wan_live p ! i"

section \<open>Slots and queues\<close>

definition ne_rx_slots_for_queues :: "nat \<Rightarrow> nat \<Rightarrow> nat" where
  "ne_rx_slots_for_queues queue_total slots_max =
     (if queue_total = 0 then 1 else if queue_total < slots_max then queue_total else slots_max)"

definition ne_rx_lan_slots_for :: "nat \<Rightarrow> nat" where
  "ne_rx_lan_slots_for local_total = ne_rx_slots_for_queues local_total NE_RX_LAN_SLOTS"

definition ne_rx_wan_slots_for :: "nat \<Rightarrow> nat" where
  "ne_rx_wan_slots_for wan_total = ne_rx_slots_for_queues wan_total NE_RX_WAN_SLOTS"

definition xsk_queue_for_rx_slot :: "nat \<Rightarrow> nat \<Rightarrow> nat \<Rightarrow> nat \<Rightarrow> bool" where
  "xsk_queue_for_rx_slot q rx_slot nq rx_slots =
     (let sl = (if nq < rx_slots then (if nq > 0 then nq else 1) else rx_slots) in
      if sl \<le> rx_slot then False else q mod sl = rx_slot)"

definition xsk_queue_for_tx_slot :: "nat \<Rightarrow> nat \<Rightarrow> nat \<Rightarrow> bool" where
  "xsk_queue_for_tx_slot q txs nq =
     (let sl = (if nq < NE_TX_SLOTS then (if nq > 0 then nq else 1) else NE_TX_SLOTS) in
      if sl \<le> txs then False else q mod sl = txs)"

section \<open>Loops over queues and interfaces\<close>

type_synonym queue_op = "ne_xsk_queue \<Rightarrow> ne_pool \<Rightarrow> ne_xsk_queue \<times> ne_pool"

text \<open>One round of a loop over an array: the elements not selected are skipped.\<close>

definition list_step ::
  "(nat \<Rightarrow> bool) \<Rightarrow> ('x \<Rightarrow> 'p \<Rightarrow> 'x \<times> 'p) \<Rightarrow> nat \<Rightarrow> 'x list \<times> 'p \<Rightarrow> 'x list \<times> 'p" where
  "list_step sel f i st =
     (let (xs, pl) = st in
      if sel i then let (x, pl1) = f (xs ! i) pl in (xs[i := x], pl1) else (xs, pl))"

definition for_queues :: "(nat \<Rightarrow> bool) \<Rightarrow> queue_op \<Rightarrow> ne_iface \<Rightarrow> ne_pool \<Rightarrow> ne_iface \<times> ne_pool" where
  "for_queues sel f iface pl =
     (let (qs, pl1) = fold (list_step sel f) [0..<queue_count iface] (queues iface, pl)
      in (iface\<lparr>queues := qs\<rparr>, pl1))"

definition on_locals :: "(nat \<Rightarrow> bool) \<Rightarrow> (ne_iface \<Rightarrow> ne_pool \<Rightarrow> ne_iface \<times> ne_pool) \<Rightarrow> ne_pair_io \<Rightarrow> ne_pair_io" where
  "on_locals live g p =
     (let (ifs, pl) = fold (list_step live g) [0..<local_count p] (locals p, pool (io_mem p))
      in p\<lparr>locals := ifs, io_mem := (io_mem p)\<lparr>pool := pl\<rparr>\<rparr>)"

definition on_wans :: "(nat \<Rightarrow> bool) \<Rightarrow> (ne_iface \<Rightarrow> ne_pool \<Rightarrow> ne_iface \<times> ne_pool) \<Rightarrow> ne_pair_io \<Rightarrow> ne_pair_io" where
  "on_wans live g p =
     (let (ifs, pl) = fold (list_step live g) [0..<wan_count p] (wans p, pool (io_mem p))
      in p\<lparr>wans := ifs, io_mem := (io_mem p)\<lparr>pool := pl\<rparr>\<rparr>)"

section \<open>Release, completion and refill\<close>

definition ne_recv_release_local_slot :: "nat \<Rightarrow> ne_pair_io \<Rightarrow> ne_pair_io" where
  "ne_recv_release_local_slot rx_slot p =
     (if NE_RX_LAN_SLOTS \<le> rx_slot then p
      else on_locals (\<lambda>_. True) (\<lambda>iface. for_queues
        (\<lambda>q. xsk_queue_for_rx_slot q rx_slot (queue_count iface) NE_RX_LAN_SLOTS) release_rx_queue iface) p)"

definition ne_recv_release_wan_slot :: "nat \<Rightarrow> ne_pair_io \<Rightarrow> ne_pair_io" where
  "ne_recv_release_wan_slot rx_slot p =
     (if NE_RX_WAN_SLOTS \<le> rx_slot then p
      else on_wans (\<lambda>_. True) (\<lambda>iface. for_queues
        (\<lambda>q. xsk_queue_for_rx_slot q rx_slot (queue_count iface) NE_RX_WAN_SLOTS) release_rx_queue iface) p)"

definition drain_cq_iface_slot :: "nat \<Rightarrow> ne_iface \<Rightarrow> ne_pool \<Rightarrow> ne_iface \<times> ne_pool" where
  "drain_cq_iface_slot txs iface = for_queues
     (\<lambda>q. xsk_queue_for_tx_slot q txs (queue_count iface)) drain_cq_queue iface"

definition ne_drain_cq_local :: "nat \<Rightarrow> ne_pair_io \<Rightarrow> ne_pair_io" where
  "ne_drain_cq_local txs p =
     (if NE_TX_SLOTS \<le> txs then p else on_locals ((!) (local_live p)) (drain_cq_iface_slot txs) p)"

definition ne_drain_cq_wan :: "nat \<Rightarrow> ne_pair_io \<Rightarrow> ne_pair_io" where
  "ne_drain_cq_wan txs p =
     (if NE_TX_SLOTS \<le> txs then p else on_wans ((!) (wan_live p)) (drain_cq_iface_slot txs) p)"

definition refill_op :: queue_op where
  \<comment> \<open>the wake-up of the kernel has no effect on the model's state\<close>
  "refill_op slot pl = (case refill_fq_queue slot pl of (s, pl1, _) \<Rightarrow> (s, pl1))"

definition refill_fq_iface_slot :: "nat \<Rightarrow> nat \<Rightarrow> ne_iface \<Rightarrow> ne_pool \<Rightarrow> ne_iface \<times> ne_pool" where
  "refill_fq_iface_slot rx_slot rx_slots iface = for_queues
     (\<lambda>q. xsk_queue_for_rx_slot q rx_slot (queue_count iface) rx_slots) refill_op iface"

definition ne_refill_fq_local_slot :: "nat \<Rightarrow> ne_pair_io \<Rightarrow> ne_pair_io" where
  "ne_refill_fq_local_slot rx_slot p =
     (if NE_RX_LAN_SLOTS \<le> rx_slot then p
      else on_locals ((!) (local_live p)) (refill_fq_iface_slot rx_slot NE_RX_LAN_SLOTS) p)"

definition ne_refill_fq_wan_slot :: "nat \<Rightarrow> ne_pair_io \<Rightarrow> ne_pair_io" where
  "ne_refill_fq_wan_slot rx_slot p =
     (if NE_RX_WAN_SLOTS \<le> rx_slot then p
      else on_wans ((!) (wan_live p)) (refill_fq_iface_slot rx_slot NE_RX_WAN_SLOTS) p)"

text \<open>The queues a slot wakes or polls: indices of the queues whose kernel side asks for a wake-up, and the
  sockets to poll, at most \<open>max_n\<close> of them.\<close>

definition kick_fq_iface_slot :: "nat \<Rightarrow> nat \<Rightarrow> ne_iface \<Rightarrow> nat list" where
  "kick_fq_iface_slot rx_slot rx_slots iface = filter
     (\<lambda>q. xsk_queue_for_rx_slot q rx_slot (queue_count iface) rx_slots \<and> kick_fq_queue (queues iface ! q)) [0..<queue_count iface]"

definition ne_kick_fq_local_slot :: "nat \<Rightarrow> ne_pair_io \<Rightarrow> (nat \<times> nat) list" where
  "ne_kick_fq_local_slot rx_slot p =
     (if NE_RX_LAN_SLOTS \<le> rx_slot then []
      else concat (map (\<lambda>i. if local_live p ! i then map (Pair i) (kick_fq_iface_slot rx_slot NE_RX_LAN_SLOTS (locals p ! i)) else [])
        [0..<local_count p]))"

definition ne_kick_fq_wan_slot :: "nat \<Rightarrow> ne_pair_io \<Rightarrow> (nat \<times> nat) list" where
  "ne_kick_fq_wan_slot rx_slot p =
     (if NE_RX_WAN_SLOTS \<le> rx_slot then []
      else concat (map (\<lambda>i. if wan_live p ! i then map (Pair i) (kick_fq_iface_slot rx_slot NE_RX_WAN_SLOTS (wans p ! i)) else [])
        [0..<wan_count p]))"

definition collect_fd :: "nat \<Rightarrow> nat \<Rightarrow> nat \<Rightarrow> ne_iface \<Rightarrow> nat \<Rightarrow> int list \<Rightarrow> int list" where
  "collect_fd rx_slot rx_slots max_n iface q fds =
     (if max_n \<le> length fds \<or> \<not> xsk_queue_for_rx_slot q rx_slot (queue_count iface) rx_slots then fds
      else case xsk (queues iface ! q) of
        None \<Rightarrow> fds
      | Some fd \<Rightarrow> if fd < 0 then fds else fds @ [fd])"

definition collect_iface_rx_fds :: "nat \<Rightarrow> nat \<Rightarrow> nat \<Rightarrow> ne_iface \<Rightarrow> int list \<Rightarrow> int list" where
  "collect_iface_rx_fds rx_slot rx_slots max_n iface fds =
     (if max_n \<le> length fds then fds
      else fold (collect_fd rx_slot rx_slots max_n iface) [0..<queue_count iface] fds)"

definition ne_rx_local_fds :: "nat \<Rightarrow> nat \<Rightarrow> ne_pair_io \<Rightarrow> int list" where
  "ne_rx_local_fds rx_slot max_n p =
     (if max_n = 0 \<or> NE_RX_LAN_SLOTS \<le> rx_slot then []
      else fold (\<lambda>i fds. if length fds < max_n \<and> local_live p ! i
          then collect_iface_rx_fds rx_slot NE_RX_LAN_SLOTS max_n (locals p ! i) fds else fds) [0..<local_count p] [])"

definition ne_rx_wan_fds :: "nat \<Rightarrow> nat \<Rightarrow> ne_pair_io \<Rightarrow> int list" where
  "ne_rx_wan_fds rx_slot max_n p =
     (if max_n = 0 \<or> NE_RX_WAN_SLOTS \<le> rx_slot then []
      else fold (\<lambda>i fds. if length fds < max_n \<and> wan_live p ! i
          then collect_iface_rx_fds rx_slot NE_RX_WAN_SLOTS max_n (wans p ! i) fds else fds) [0..<wan_count p] [])"

section \<open>Receiving on a slot\<close>

definition recv_step ::
  "(nat \<Rightarrow> bool) \<Rightarrow> nat \<Rightarrow> ne_packet_dir \<Rightarrow> nat \<Rightarrow> nat \<Rightarrow> nat \<Rightarrow> ne_iface \<times> ne_packet list \<Rightarrow> ne_iface \<times> ne_packet list" where
  "recv_step sel mx pd wi li q st =
     (let (iface, out) = st in
      if mx \<le> length out \<or> \<not> sel q then (iface, out)
      else let (pkts, s) = recv_queue ((queues iface ! q)\<lparr>rx_pending := 0\<rparr>) (mx - length out) pd wi li
        in (iface\<lparr>queues := (queues iface)[q := s]\<rparr>, out @ pkts))"

definition ne_recv_local_slot :: "nat \<Rightarrow> nat \<Rightarrow> ne_pair_io \<Rightarrow> ne_packet list \<times> ne_pair_io" where
  "ne_recv_local_slot rx_slot mx p =
     (if NE_RX_LAN_SLOTS \<le> rx_slot then ([], p)
      else let (ifs, out) = fold (\<lambda>i (ifs, out).
          if mx \<le> length out \<or> \<not> local_live p ! i then (ifs, out)
          else let (iface, out1) = fold (recv_step
                (\<lambda>q. xsk_queue_for_rx_slot q rx_slot (queue_count (ifs ! i)) NE_RX_LAN_SLOTS) mx NE_DIR_LOCAL 0 i)
                [0..<queue_count (ifs ! i)] (ifs ! i, out)
            in (ifs[i := iface], out1)) [0..<local_count p] (locals p, [])
        in (out, p\<lparr>locals := ifs\<rparr>))"

definition ne_recv_wan_slot :: "nat \<Rightarrow> nat \<Rightarrow> ne_pair_io \<Rightarrow> ne_packet list \<times> ne_pair_io" where
  "ne_recv_wan_slot rx_slot mx p =
     (if NE_RX_WAN_SLOTS \<le> rx_slot then ([], p)
      else let (ifs, out) = fold (\<lambda>i (ifs, out).
          if mx \<le> length out \<or> \<not> wan_live p ! i then (ifs, out)
          else let (iface, out1) = fold (recv_step
                (\<lambda>q. xsk_queue_for_rx_slot q rx_slot (queue_count (ifs ! i)) NE_RX_WAN_SLOTS) mx NE_DIR_WAN i 0)
                [0..<queue_count (ifs ! i)] (ifs ! i, out)
            in (ifs[i := iface], out1)) [0..<wan_count p] (wans p, [])
        in (out, p\<lparr>wans := ifs\<rparr>))"

section \<open>Transmitting on a slot\<close>

text \<open>Only the first queue of the slot transmits.\<close>

definition tx_drain_iface_ring ::
  "ne_iface \<Rightarrow> ne_packet ne_ring \<Rightarrow> ne_pool \<Rightarrow> nat \<Rightarrow> nat \<Rightarrow> nat \<times> ne_iface \<times> ne_packet ne_ring \<times> ne_pool" where
  "tx_drain_iface_ring iface src pl max_frame txs =
     (case filter (\<lambda>q. xsk_queue_for_tx_slot q txs (queue_count iface)) [0..<queue_count iface] of
        [] \<Rightarrow> (0, iface, src, pl)
      | primary # _ \<Rightarrow>
          let r = tx_drain_queue (queues iface ! primary) src pl max_frame
          in (tx_sent r, iface\<lparr>queues := (queues iface)[primary := tx_queue r],
                tx_no_free := tx_no_free iface + (if tx_stalled r then 1 else 0)\<rparr>, tx_src r, tx_pool r))"

text \<open>The source rings in the order of the round-robin cursor \<open>rr\<close> of the thread; the cursor moves on when
  something was sent.\<close>

definition tx_drain_iface_all_rings ::
  "ne_iface \<Rightarrow> ne_packet ne_ring list \<Rightarrow> ne_pool \<Rightarrow> nat \<Rightarrow> nat \<Rightarrow> u32 \<Rightarrow>
   nat \<times> ne_iface \<times> ne_packet ne_ring list \<times> ne_pool \<times> u32" where
  "tx_drain_iface_all_rings iface srcs pl max_frame txs rr =
     (if srcs = [] then (0, iface, srcs, pl, rr)
      else let start = unat rr mod length srcs;
               (sent, iface1, srcs1, pl1) = fold (\<lambda>i (sent, iface, srcs, pl).
                   let s = (start + i) mod length srcs;
                       (n, iface', src', pl') = tx_drain_iface_ring iface (srcs ! s) pl max_frame txs
                   in (sent + n, iface', srcs[s := src'], pl')) [0..<length srcs] (0, iface, srcs, pl)
        in (sent, iface1, srcs1, pl1, if sent > 0 then rr + 1 else rr))"

definition ne_tx_drain_local_all ::
  "ne_pair_io \<Rightarrow> ne_packet ne_ring list \<Rightarrow> nat \<Rightarrow> nat \<Rightarrow> u32 \<Rightarrow> nat \<times> ne_pair_io \<times> ne_packet ne_ring list \<times> u32" where
  "ne_tx_drain_local_all p srcs i txs rr =
     (if local_count p \<le> i \<or> \<not> local_live p ! i \<or> NE_TX_SLOTS \<le> txs then (0, p, srcs, rr)
      else let (sent, iface, srcs1, pl, rr1) =
             tx_drain_iface_all_rings (locals p ! i) srcs (pool (io_mem p)) (frame_size (io_mem p)) txs rr
        in (sent, p\<lparr>locals := (locals p)[i := iface], io_mem := (io_mem p)\<lparr>pool := pl\<rparr>\<rparr>, srcs1, rr1))"

definition ne_tx_drain_wan_all ::
  "ne_pair_io \<Rightarrow> ne_packet ne_ring list \<Rightarrow> nat \<Rightarrow> nat \<Rightarrow> u32 \<Rightarrow> nat \<times> ne_pair_io \<times> ne_packet ne_ring list \<times> u32" where
  "ne_tx_drain_wan_all p srcs i txs rr =
     (if wan_count p \<le> i \<or> \<not> wan_live p ! i \<or> NE_TX_SLOTS \<le> txs then (0, p, srcs, rr)
      else let (sent, iface, srcs1, pl, rr1) =
             tx_drain_iface_all_rings (wans p ! i) srcs (pool (io_mem p)) (frame_size (io_mem p)) txs rr
        in (sent, p\<lparr>wans := (wans p)[i := iface], io_mem := (io_mem p)\<lparr>pool := pl\<rparr>\<rparr>, srcs1, rr1))"


section \<open>Ownership of queues\<close>

definition tx_slots_of :: "nat \<Rightarrow> nat" where
  "tx_slots_of nq = (if nq < NE_TX_SLOTS then (if nq > 0 then nq else 1) else NE_TX_SLOTS)"

lemma tx_slot_iff: "xsk_queue_for_tx_slot q s nq \<longleftrightarrow> s < tx_slots_of nq \<and> q mod tx_slots_of nq = s"
  by (auto simp: xsk_queue_for_tx_slot_def tx_slots_of_def Let_def)

lemma tx_slots_of_pos: "0 < tx_slots_of nq" "0 < nq \<Longrightarrow> tx_slots_of nq \<le> nq"
  by (auto simp: tx_slots_of_def)

lemma first_queue_of_slot:
  assumes "s < tx_slots_of nq" "0 < nq"
  shows "\<exists>rest. filter (\<lambda>q. xsk_queue_for_tx_slot q s nq) [0..<nq] = s # rest"
proof -
  have sn: "s < nq" using assms tx_slots_of_pos(2) by (meson order_less_le_trans)
  then have "[0..<nq] = [0..<s] @ s # [Suc s..<nq]"
    using upt_split [of 0 s nq] by (simp add: upt_conv_Cons)
  moreover have "filter (\<lambda>q. xsk_queue_for_tx_slot q s nq) [0..<s] = []"
    using assms(1) by (auto simp: filter_empty_conv tx_slot_iff)
  moreover have "xsk_queue_for_tx_slot s s nq" using assms(1) by (simp add: tx_slot_iff)
  ultimately show ?thesis by simp
qed

text \<open>Every queue of an interface has exactly one owning transmit slot, below four and below the number of
  queues, and each such slot transmits on the queue of its own number: two transmit threads never share a
  queue, and no completion queue is left without a thread.\<close>
theorem tx_queue_ownership:
  assumes "q < nq"
  shows "(\<exists>!s. xsk_queue_for_tx_slot q s nq) \<and> (xsk_queue_for_tx_slot q s nq \<longrightarrow> s < min 4 nq) \<and>
    (s < min 4 nq \<longrightarrow> (\<exists>rest. filter (\<lambda>q. xsk_queue_for_tx_slot q s nq) [0..<nq] = s # rest))"
proof -
  have "tx_slots_of nq = min 4 nq" using assms by (simp add: tx_slots_of_def)
  moreover have "q mod tx_slots_of nq < tx_slots_of nq" using tx_slots_of_pos(1) by simp
  ultimately show ?thesis
    using first_queue_of_slot [of s nq] assms by (auto simp: tx_slot_iff)
qed

theorem tx_queue_ownership_witness:
  "\<exists>rest. filter (\<lambda>q. xsk_queue_for_tx_slot q 2 6) [0..<6] = 2 # rest"
  using tx_queue_ownership [of 5 6 2] by simp

end
