(* ===== verification/Xsk_Frames.thy ===== *)
theory Xsk_Frames
  imports Xsk_Iface
begin

text \<open>
  Ownership of frames across the queues: the operations that move frames between the pool and the rings
  conserve the frames of the whole side they run over. The contract of such an operation is the locale
  \<open>frame_mover\<close>; its client lemmas lift it from one queue to the queues of an interface and to all
  interfaces of a side, and the release, drain and refill operations are its interpretations.
\<close>

definition queue_frames :: "ne_xsk_queue \<Rightarrow> u64 multiset" where
  "queue_frames q = mset (xsk_list (q_fq q)) + mset (map d_addr (xsk_list (q_tx q))) +
     mset (xsk_unread (q_cq q)) + mset (map d_addr (xsk_unread (q_rx q))) + rx_frames q"

definition queue_inv :: "ne_xsk_queue \<Rightarrow> bool" where
  "queue_inv q \<longleftrightarrow> prod_inv (q_fq q) \<and> prod_inv (q_tx q) \<and> cons_inv (q_rx q) \<and> unat (rx_pending q) \<le> xsk_held (q_rx q) \<and>
     cons_inv (q_cq q) \<and> cache_fresh (q_cq q) \<and> xsk_held (q_cq q) = 0 \<and> chain_ok (rx_chain q)"

definition iface_frames :: "ne_iface \<Rightarrow> u64 multiset" where
  "iface_frames iface = sum_list (map queue_frames (queues iface))"

definition iface_inv :: "ne_iface \<Rightarrow> bool" where
  "iface_inv iface \<longleftrightarrow> queue_count iface \<le> length (queues iface) \<and> (\<forall>q\<in>set (queues iface). queue_inv q)"

definition side_frames :: "ne_iface list \<Rightarrow> u64 multiset" where
  "side_frames ifs = sum_list (map iface_frames ifs)"

lemma sum_list_update_add: "k < length xs \<Longrightarrow> sum_list (xs[k := y]) + xs ! k = sum_list xs + y"
  for xs :: "'a :: comm_monoid_add list"
proof (induction xs arbitrary: k)
  case (Cons x xs)
  show ?case
  proof (cases k)
    case (Suc j)
    then show ?thesis using Cons.IH [of j] Cons.prems by (simp add: add_ac)
  qed (simp add: add_ac)
qed simp

lemma sum_list_member_le: "k < length xs \<Longrightarrow> size (xs ! k) \<le> size (sum_list xs)" for xs :: "'a multiset list"
  using arg_cong [OF sum_list_update_add [of k xs "{#}"], of size] by simp

section \<open>The contract of a frame mover\<close>

locale frame_mover =
  fixes f :: "'q \<Rightarrow> ne_pool \<Rightarrow> 'q \<times> ne_pool" and frames :: "'q \<Rightarrow> u64 multiset" and inv :: "'q \<Rightarrow> bool"
  assumes mover: "inv q \<Longrightarrow> pool_inv pl \<Longrightarrow> size (frames q) + length (pool_list pl) \<le> unat (pl_cap pl) \<Longrightarrow> f q pl = (q', pl') \<Longrightarrow>
    frames q' + mset (pool_list pl') = frames q + mset (pool_list pl) \<and> inv q' \<and> pool_inv pl' \<and> pl_cap pl' = pl_cap pl"
begin

lemma list_step_mover:
  assumes "\<forall>x\<in>set xs. inv x" "pool_inv pl" "size (sum_list (map frames xs)) + length (pool_list pl) \<le> unat (pl_cap pl)"
    "i < length xs" "list_step sel f i (xs, pl) = (xs', pl')"
  shows "sum_list (map frames xs') + mset (pool_list pl') = sum_list (map frames xs) + mset (pool_list pl) \<and>
    (\<forall>x\<in>set xs'. inv x) \<and> pool_inv pl' \<and> pl_cap pl' = pl_cap pl \<and> length xs' = length xs"
proof (cases "sel i")
  case True
  obtain x pl1 where x: "f (xs ! i) pl = (x, pl1)" by force
  have e: "xs' = xs[i := x]" "pl' = pl1" using assms(5) True x by (auto simp: list_step_def)
  have "size (frames (xs ! i)) \<le> size (sum_list (map frames xs))"
    using sum_list_member_le [of i "map frames xs"] assms(4) by simp
  then have m: "frames x + mset (pool_list pl1) = frames (xs ! i) + mset (pool_list pl) \<and> inv x \<and> pool_inv pl1 \<and> pl_cap pl1 = pl_cap pl"
    using assms(1-4) by (intro mover [OF _ _ _ x]) auto
  have u: "sum_list (map frames xs') + frames (xs ! i) = sum_list (map frames xs) + frames x"
    using sum_list_update_add [of i "map frames xs" "frames x"] assms(4) by (simp add: e map_update)
  have "sum_list (map frames xs') + mset (pool_list pl1) + frames (xs ! i) =
      (sum_list (map frames xs') + frames (xs ! i)) + mset (pool_list pl1)" by (simp add: add_ac)
  also have "\<dots> = sum_list (map frames xs) + (frames x + mset (pool_list pl1))" unfolding u by (simp add: add_ac)
  also have "\<dots> = sum_list (map frames xs) + mset (pool_list pl) + frames (xs ! i)"
    using m by (simp add: add_ac)
  finally have "sum_list (map frames xs') + mset (pool_list pl1) = sum_list (map frames xs) + mset (pool_list pl)" by simp
  moreover have "set xs' \<subseteq> insert x (set xs)" unfolding e by (rule set_update_subset_insert)
  ultimately show ?thesis using m e assms(1) by auto
next
  case False
  then show ?thesis using assms by (auto simp: list_step_def)
qed

lemma fold_mover:
  assumes "\<forall>x\<in>set xs. inv x" "pool_inv pl" "size (sum_list (map frames xs)) + length (pool_list pl) \<le> unat (pl_cap pl)"
    "set is \<subseteq> {..<length xs}" "fold (list_step sel f) is (xs, pl) = (xs', pl')"
  shows "sum_list (map frames xs') + mset (pool_list pl') = sum_list (map frames xs) + mset (pool_list pl) \<and>
    (\<forall>x\<in>set xs'. inv x) \<and> pool_inv pl' \<and> pl_cap pl' = pl_cap pl \<and> length xs' = length xs"
  using assms
proof (induction "is" arbitrary: xs pl)
  case (Cons i "is")
  obtain xs1 pl1 where s: "list_step sel f i (xs, pl) = (xs1, pl1)" by force
  have i: "i < length xs" using Cons.prems(4) by simp
  note st = list_step_mover [OF Cons.prems(1-3) i s]
  then have "size (sum_list (map frames xs1)) + length (pool_list pl1) = size (sum_list (map frames xs)) + length (pool_list pl)"
    by (metis size_mset size_union)
  then show ?case using Cons.IH [of xs1 pl1] Cons.prems st s by simp
qed simp

end

text \<open>A mover of queues is a mover of interfaces.\<close>

locale queue_mover = frame_mover f queue_frames queue_inv for f :: queue_op
begin

lemma for_queues_mover:
  assumes "iface_inv iface" "pool_inv pl" "size (iface_frames iface) + length (pool_list pl) \<le> unat (pl_cap pl)"
    "for_queues sel f iface pl = (iface', pl')"
  shows "iface_frames iface' + mset (pool_list pl') = iface_frames iface + mset (pool_list pl) \<and>
    iface_inv iface' \<and> pool_inv pl' \<and> pl_cap pl' = pl_cap pl"
proof -
  obtain qs pl1 where fo: "fold (list_step sel f) [0..<queue_count iface] (queues iface, pl) = (qs, pl1)" by force
  have "iface' = iface\<lparr>queues := qs\<rparr>" "pl' = pl1" using assms(4) fo by (auto simp: for_queues_def)
  moreover have "set [0..<queue_count iface] \<subseteq> {..<length (queues iface)}" using assms(1) by (auto simp: iface_inv_def)
  ultimately show ?thesis
    using fold_mover [OF _ assms(2) _ _ fo] assms(1,3) by (simp add: iface_inv_def iface_frames_def)
qed

end

sublocale queue_mover \<subseteq> iface: frame_mover "\<lambda>iface. for_queues (sel iface) f iface" iface_frames iface_inv for sel
  by unfold_locales (rule for_queues_mover)

section \<open>Release, drain and refill are movers\<close>

interpretation release_mover: queue_mover release_rx_queue
proof (unfold_locales, goal_cases)
  case (1 q pl q' pl')
  have i: "cons_inv (q_rx q)" "unat (rx_pending q) \<le> xsk_held (q_rx q)" using 1(1) by (auto simp: queue_inv_def)
  note h = release_rx_held [OF i 1(4)]
  obtain put pl1 where pp: "pool_push pl (rx_reject_addrs q) = (put, pl1)" by force
  note ps = pool_push_spec [OF 1(2) pp]
  have put: "put = length (rx_reject_addrs q)"
    using ps(1) 1(3) by (simp add: queue_frames_def rx_frames_def)
  have e: "pl' = pl1" "rx_reject_addrs q' = []" if "rx_reject_addrs q \<noteq> []"
    using 1(4) that pp by (auto simp: release_rx_queue_def Let_def split: if_splits)
  have e2: "pl' = pl" "rx_reject_addrs q' = []" if "rx_reject_addrs q = []"
    using 1(4) that by (auto simp: release_rx_queue_def Let_def split: if_splits)
  have same: "q_fq q' = q_fq q" "q_tx q' = q_tx q" "q_cq q' = q_cq q" "rx_chain q' = rx_chain q" "rx_pending q' = 0"
    using 1(4) by (auto simp: release_rx_queue_def Let_def split: if_splits)
  show ?case
    using 1(1,2) h same e e2 ps put by (cases "rx_reject_addrs q = []") (auto simp: queue_frames_def queue_inv_def rx_frames_def)
qed

interpretation drain_mover: queue_mover drain_cq_queue
proof (unfold_locales, goal_cases)
  case (1 q pl q' pl')
  have i: "cons_inv (q_cq q)" "cache_fresh (q_cq q)" "xsk_held (q_cq q) = 0" using 1(1) by (auto simp: queue_inv_def)
  have fit: "length (pool_list pl) + length (xsk_unread (q_cq q)) \<le> unat (pl_cap pl)"
    using 1(3) by (simp add: queue_frames_def)
  note d = drain_cq_spec [OF i 1(2) fit 1(4)]
  have "q_fq q' = q_fq q" "q_tx q' = q_tx q" "q_rx q' = q_rx q" "rx_chain q' = rx_chain q" "rx_pending q' = rx_pending q"
    "rx_reject_addrs q' = rx_reject_addrs q"
    by (subst d [THEN conjunct2, THEN conjunct2, THEN conjunct2, THEN conjunct2, THEN conjunct2, THEN conjunct2, THEN conjunct2], simp)+
  then show ?case using d 1(1) by (simp add: queue_frames_def queue_inv_def rx_frames_def)
qed

interpretation refill_mover: queue_mover refill_op
proof (unfold_locales, goal_cases)
  case (1 q pl q' pl')
  obtain k where r: "refill_fq_queue q pl = (q', pl', k)" using 1(4) by (auto simp: refill_op_def split: prod.splits)
  have i: "prod_inv (q_fq q)" using 1(1) by (simp add: queue_inv_def)
  let ?m = "min 64 (unat (xr_size (q_fq q)) - length (xsk_list (q_fq q)))"
  note s = refill_fq_spec [OF i 1(2) r refl]
  have same: "q_cq q' = q_cq q" "q_tx q' = q_tx q" "q_rx q' = q_rx q" "rx_chain q' = rx_chain q"
    "rx_pending q' = rx_pending q" "rx_reject_addrs q' = rx_reject_addrs q"
    using r by (auto simp: refill_fq_queue_def Let_def split: if_splits prod.splits bool.splits)
  have "mset (pool_list pl) = mset (take ?m (pool_list pl)) + mset (drop ?m (pool_list pl))"
    by (metis append_take_drop_id mset_append)
  then show ?case using s same 1(1) by (simp add: queue_frames_def queue_inv_def rx_frames_def)
qed


section \<open>The frames of the pair\<close>

definition pair_frames :: "ne_pair_io \<Rightarrow> u64 multiset" where
  "pair_frames p = side_frames (locals p) + side_frames (wans p) + mset (pool_list (pool (io_mem p)))"

definition pair_inv :: "ne_pair_io \<Rightarrow> bool" where
  "pair_inv p \<longleftrightarrow> (\<forall>i\<in>set (locals p). iface_inv i) \<and> (\<forall>i\<in>set (wans p). iface_inv i) \<and> pool_inv (pool (io_mem p)) \<and>
     local_count p \<le> length (locals p) \<and> wan_count p \<le> length (wans p) \<and>
     size (pair_frames p) \<le> unat (pl_cap (pool (io_mem p)))"

lemma on_locals_mover:
  assumes "frame_mover g iface_frames iface_inv" "pair_inv p"
  shows "pair_frames (on_locals live g p) = pair_frames p" "pair_inv (on_locals live g p)"
proof -
  obtain ifs pl where fo: "fold (list_step live g) [0..<local_count p] (locals p, pool (io_mem p)) = (ifs, pl)" by force
  have e: "on_locals live g p = p\<lparr>locals := ifs, io_mem := (io_mem p)\<lparr>pool := pl\<rparr>\<rparr>" by (simp add: on_locals_def fo)
  have c: "sum_list (map iface_frames ifs) + mset (pool_list pl) = sum_list (map iface_frames (locals p)) + mset (pool_list (pool (io_mem p))) \<and>
      (\<forall>x\<in>set ifs. iface_inv x) \<and> pool_inv pl \<and> pl_cap pl = pl_cap (pool (io_mem p)) \<and> length ifs = length (locals p)"
    by (rule frame_mover.fold_mover [OF assms(1) _ _ _ _ fo])
      (use assms(2) in \<open>auto simp: pair_inv_def pair_frames_def side_frames_def\<close>)
  have "pair_frames (on_locals live g p) = (sum_list (map iface_frames ifs) + mset (pool_list pl)) + side_frames (wans p)"
    by (simp add: e pair_frames_def side_frames_def add_ac)
  then show f: "pair_frames (on_locals live g p) = pair_frames p"
    using c by (simp add: pair_frames_def side_frames_def add_ac)
  show "pair_inv (on_locals live g p)" using assms(2) c unfolding pair_inv_def f by (simp add: e)
qed

lemma on_wans_mover:
  assumes "frame_mover g iface_frames iface_inv" "pair_inv p"
  shows "pair_frames (on_wans live g p) = pair_frames p" "pair_inv (on_wans live g p)"
proof -
  obtain ifs pl where fo: "fold (list_step live g) [0..<wan_count p] (wans p, pool (io_mem p)) = (ifs, pl)" by force
  have e: "on_wans live g p = p\<lparr>wans := ifs, io_mem := (io_mem p)\<lparr>pool := pl\<rparr>\<rparr>" by (simp add: on_wans_def fo)
  have c: "sum_list (map iface_frames ifs) + mset (pool_list pl) = sum_list (map iface_frames (wans p)) + mset (pool_list (pool (io_mem p))) \<and>
      (\<forall>x\<in>set ifs. iface_inv x) \<and> pool_inv pl \<and> pl_cap pl = pl_cap (pool (io_mem p)) \<and> length ifs = length (wans p)"
    by (rule frame_mover.fold_mover [OF assms(1) _ _ _ _ fo])
      (use assms(2) in \<open>auto simp: pair_inv_def pair_frames_def side_frames_def\<close>)
  have "pair_frames (on_wans live g p) = (sum_list (map iface_frames ifs) + mset (pool_list pl)) + side_frames (locals p)"
    by (simp add: e pair_frames_def side_frames_def add_ac)
  then show f: "pair_frames (on_wans live g p) = pair_frames p"
    using c by (simp add: pair_frames_def side_frames_def add_ac)
  show "pair_inv (on_wans live g p)" using assms(2) c unfolding pair_inv_def f by (simp add: e)
qed

text \<open>The housekeeping operations of the threads, by slot.\<close>

datatype pair_op = ReleaseLocal nat | ReleaseWan nat | DrainLocal nat | DrainWan nat | RefillLocal nat | RefillWan nat

fun run_pair_op :: "pair_op \<Rightarrow> ne_pair_io \<Rightarrow> ne_pair_io" where
  "run_pair_op (ReleaseLocal s) = ne_recv_release_local_slot s"
| "run_pair_op (ReleaseWan s) = ne_recv_release_wan_slot s"
| "run_pair_op (DrainLocal s) = ne_drain_cq_local s"
| "run_pair_op (DrainWan s) = ne_drain_cq_wan s"
| "run_pair_op (RefillLocal s) = ne_refill_fq_local_slot s"
| "run_pair_op (RefillWan s) = ne_refill_fq_wan_slot s"

lemma run_pair_op_mover: "pair_inv p \<Longrightarrow> pair_frames (run_pair_op oper p) = pair_frames p \<and> pair_inv (run_pair_op oper p)"
  by (cases oper)
    (auto simp: ne_recv_release_local_slot_def ne_recv_release_wan_slot_def ne_drain_cq_local_def ne_drain_cq_wan_def
      ne_refill_fq_local_slot_def ne_refill_fq_wan_slot_def drain_cq_iface_slot_def [abs_def] refill_fq_iface_slot_def [abs_def]
      intro: on_locals_mover on_wans_mover release_mover.iface.frame_mover_axioms drain_mover.iface.frame_mover_axioms
        refill_mover.iface.frame_mover_axioms)

text \<open>C33: Housekeeping never loses or duplicates a frame: any sequence of release, completion-drain and refill
  operations of any thread slots, on any number of interfaces and queues, leaves the multiset of frames in
  the pool, the fill, transmit, completion and receive rings, the unfinished chains and the reject lists
  unchanged.\<close>
theorem housekeeping_conserves_frames:
  assumes "pair_inv p"
  shows "pair_frames (fold run_pair_op ops p) = pair_frames p \<and> pair_inv (fold run_pair_op ops p)"
  using assms
proof (induction ops arbitrary: p)
  case (Cons oper ops)
  then show ?case using run_pair_op_mover [OF Cons.prems, of oper] by simp
qed simp

definition demo_iface :: ne_iface where
  "demo_iface = \<lparr>ifindex = 3, ifname = ''enp1s0f0'', queue_count = 1, queues = [done_queue], tx_no_free = 0,
     if_xdp_flags = 4, xdp_sg_enabled = True\<rparr>"

definition demo_io :: ne_pair_io where
  "demo_io = \<lparr>io_mem = \<lparr>bufs = [], frame_size = 4096, pool = flow_pool\<lparr>pl_cap := 8, pl_mask := 7, pl_buf := [16, 32, 0, 0, 0, 0, 0, 0]\<rparr>\<rparr>,
     n_frames = 8, locals = [demo_iface], local_count = 1, wans = [], wan_count = 0, local_queue_total = 1, wan_queue_total = 0,
     local_live = [True], wan_live = []\<rparr>"

lemma demo_io_inv: "pair_inv demo_io" "size (pair_frames demo_io) = 7"
proof -
  have q: "queue_inv done_queue" "size (queue_frames done_queue) = 5"
    using done_queue_cq demo_queue_rings demo_queue_rx
    by (simp_all add: queue_inv_def queue_frames_def done_queue_def rx_frames_def)
      (simp_all add: demo_queue_def demo_descs_def)
  have p: "pool_inv (pool (io_mem demo_io))" "length (pool_list (pool (io_mem demo_io))) = 2"
    by (simp_all add: demo_io_def flow_pool_def pool_inv_def pow2_cap_def word_le_nat_alt pool_list_def)
  show "size (pair_frames demo_io) = 7"
    using q p by (simp add: pair_frames_def side_frames_def iface_frames_def) (simp add: demo_io_def demo_iface_def side_frames_def iface_frames_def)
  then show "pair_inv demo_io"
    using q p by (simp add: pair_inv_def) (simp add: demo_io_def demo_iface_def iface_inv_def flow_pool_def)
qed

theorem housekeeping_conserves_frames_witness:
  "size (pair_frames (fold run_pair_op [DrainLocal 0, RefillLocal 0, ReleaseLocal 0] demo_io)) = 7"
  using housekeeping_conserves_frames [OF demo_io_inv(1)] demo_io_inv(2) by metis

end
