(* ===== verification/Xsk_Slot.thy ===== *)
theory Xsk_Slot
  imports Xsk_Frames
begin

text \<open>
  Receiving and releasing on a slot, queue by queue: what \<^verbatim>\<open>ne_recv_local_slot\<close>, \<^verbatim>\<open>ne_recv_wan_slot\<close> and the
  release operations do to each queue of the slot, and what becomes of a batch that is not released.
\<close>

section \<open>The loops, element by element\<close>

lemma list_step_elems:
  assumes "fold (list_step sel f) [0..<n] (xs, pl) = (xs', pl')" "n \<le> length xs"
  shows "length xs' = length xs \<and> (\<forall>i. if i < n \<and> sel i then \<exists>pl1. xs' ! i = fst (f (xs ! i) pl1) else xs' ! i = xs ! i)"
  using assms
proof (induction n arbitrary: xs' pl')
  case (Suc n)
  obtain ys q where y: "fold (list_step sel f) [0..<n] (xs, pl) = (ys, q)" by force
  have ih: "length ys = length xs" "\<And>i. if i < n \<and> sel i then \<exists>pl1. ys ! i = fst (f (xs ! i) pl1) else ys ! i = xs ! i"
    using Suc.IH [OF y] Suc.prems(2) by auto
  have s: "list_step sel f n (ys, q) = (xs', pl')" using Suc.prems(1) y by simp
  show ?case
  proof (cases "sel n")
    case False
    then have "xs' = ys" using s by (simp add: list_step_def)
    then show ?thesis using ih False by (auto simp: less_Suc_eq)
  next
    case True
    then have x: "xs' = ys[n := fst (f (ys ! n) q)]" using s by (simp add: list_step_def split: prod.splits)
    have "ys ! n = xs ! n" using ih(2) [of n] by simp
    then show ?thesis using ih Suc.prems(2) True unfolding x
      by (auto simp: nth_list_update less_Suc_eq)
  qed
qed simp

text \<open>A queue that a receive call reaches: \<^verbatim>\<open>rx_pending\<close> is cleared, then a batch is received.\<close>

definition received :: "nat \<Rightarrow> ne_xsk_queue \<Rightarrow> ne_xsk_queue \<Rightarrow> bool" where
  "received mx slot slot' \<longleftrightarrow> (\<exists>m pd wi li out. 0 < m \<and> m \<le> mx \<and> recv_queue (slot\<lparr>rx_pending := 0\<rparr>) m pd wi li = (out, slot'))"

lemma recv_steps_elems:
  assumes "fold (recv_step sel mx pd wi li) [0..<n] (f, out) = (f', out')" "n \<le> length (queues f)"
  shows "length out \<le> length out' \<and> queue_count f' = queue_count f \<and> length (queues f') = length (queues f) \<and>
    (length out' < mx \<longrightarrow> (\<forall>q. if q < n \<and> sel q then received mx (queues f ! q) (queues f' ! q) else queues f' ! q = queues f ! q))"
  using assms
proof (induction n arbitrary: f' out')
  case (Suc n)
  obtain g o1 where y: "fold (recv_step sel mx pd wi li) [0..<n] (f, out) = (g, o1)" by force
  have "n \<le> length (queues f)" using Suc.prems(2) by simp
  note ih = Suc.IH [OF y this]
  have s: "recv_step sel mx pd wi li n (g, o1) = (f', out')" using Suc.prems(1) y by simp
  show ?case
  proof (cases "mx \<le> length o1 \<or> \<not> sel n")
    case True
    then have "f' = g" "out' = o1" using s by (auto simp: recv_step_def)
    then show ?thesis using ih True by (auto simp: less_Suc_eq)
  next
    case False
    obtain pkts r where rq: "recv_queue ((queues g ! n)\<lparr>rx_pending := 0\<rparr>) (mx - length o1) pd wi li = (pkts, r)" by force
    have f': "f' = g\<lparr>queues := (queues g)[n := r]\<rparr>" "out' = o1 @ pkts" using s False rq by (auto simp: recv_step_def)
    have all: "if q < n \<and> sel q then received mx (queues f ! q) (queues g ! q) else queues g ! q = queues f ! q" for q
      using ih False by auto
    have "received mx (queues f ! n) r"
      using rq False all [of n] unfolding received_def by (intro exI [of _ "mx - length o1"] exI conjI) auto
    then have "if q < Suc n \<and> sel q then received mx (queues f ! q) (queues f' ! q) else queues f' ! q = queues f ! q" for q
      using all [of q] False ih Suc.prems(2) by (auto simp: f' nth_list_update less_Suc_eq split: if_splits)
    then have "\<forall>q. if q < Suc n \<and> sel q then received mx (queues f ! q) (queues f' ! q) else queues f' ! q = queues f ! q"
      by (rule allI)
    moreover have "length out \<le> length out'" "queue_count f' = queue_count f" "length (queues f') = length (queues f)"
      using ih by (simp_all add: f')
    ultimately show ?thesis by simp
  qed
qed simp

definition recv_iface ::
  "(nat \<Rightarrow> bool) \<Rightarrow> (ne_iface \<Rightarrow> nat \<Rightarrow> bool) \<Rightarrow> nat \<Rightarrow> ne_packet_dir \<Rightarrow> (nat \<Rightarrow> nat) \<Rightarrow> (nat \<Rightarrow> nat) \<Rightarrow> nat \<Rightarrow>
   ne_iface list \<times> ne_packet list \<Rightarrow> ne_iface list \<times> ne_packet list" where
  "recv_iface live sel mx pd wi li i st = (case st of (ifs, out) \<Rightarrow>
     if mx \<le> length out \<or> \<not> live i then (ifs, out)
     else let (iface, out1) = fold (recv_step (sel (ifs ! i)) mx pd (wi i) (li i)) [0..<queue_count (ifs ! i)] (ifs ! i, out)
       in (ifs[i := iface], out1))"

definition roomy :: "nat \<Rightarrow> ne_iface list \<Rightarrow> bool" where
  "roomy n ifs \<longleftrightarrow> n \<le> length ifs \<and> (\<forall>i<n. queue_count (ifs ! i) \<le> length (queues (ifs ! i)))"

text \<open>When the call returns with room left, it reached every queue of the slot on a live interface.\<close>

lemma recv_ifaces_elems:
  assumes "fold (recv_iface live sel mx pd wi li) [0..<n] (ifs, []) = (ifs', out')" "roomy m ifs" "n \<le> m"
  shows "roomy m ifs' \<and> (\<forall>i<m. queue_count (ifs' ! i) = queue_count (ifs ! i)) \<and>
    (length out' < mx \<longrightarrow> (\<forall>i<m. if i < n \<and> live i
      then \<forall>q<queue_count (ifs ! i). sel (ifs ! i) q \<longrightarrow> received mx (queues (ifs ! i) ! q) (queues (ifs' ! i) ! q)
      else ifs' ! i = ifs ! i))"
  using assms
proof (induction n arbitrary: ifs' out')
  case (Suc n)
  obtain js o1 where y: "fold (recv_iface live sel mx pd wi li) [0..<n] (ifs, []) = (js, o1)" by force
  have "n \<le> m" using Suc.prems(3) by simp
  note ih = Suc.IH [OF y Suc.prems(2) this]
  have s: "recv_iface live sel mx pd wi li n (js, o1) = (ifs', out')" using Suc.prems(1) y by simp
  show ?case
  proof (cases "mx \<le> length o1 \<or> \<not> live n")
    case True
    then have "ifs' = js" "out' = o1" using s by (auto simp: recv_iface_def)
    then show ?thesis using ih True by (auto simp: less_Suc_eq)
  next
    case False
    obtain f o2 where st: "fold (recv_step (sel (js ! n)) mx pd (wi n) (li n)) [0..<queue_count (js ! n)] (js ! n, o1) = (f, o2)" by force
    have e: "ifs' = js[n := f]" "out' = o2" using s False st by (auto simp: recv_iface_def)
    have n: "n < length js" "queue_count (js ! n) \<le> length (queues (js ! n))" using ih Suc.prems(3) by (auto simp: roomy_def)
    note fs = recv_steps_elems [OF st n(2)]
    have js: "js ! n = ifs ! n" if "length out' < mx"
    proof -
      have "length o1 < mx" "n < m" using fs that e(2) Suc.prems(3) by auto
      then show ?thesis using ih by auto
    qed
    have nm: "n < m" using Suc.prems(3) by simp
    have r: "roomy m ifs'" "\<forall>i<m. queue_count (ifs' ! i) = queue_count (ifs ! i)"
      using ih fs e nm n by (auto simp: roomy_def nth_list_update)
    have "if i < Suc n \<and> live i
      then \<forall>q<queue_count (ifs ! i). sel (ifs ! i) q \<longrightarrow> received mx (queues (ifs ! i) ! q) (queues (ifs' ! i) ! q)
      else ifs' ! i = ifs ! i" if "length out' < mx" "i < m" for i
    proof (cases "i = n")
      case True
      have "\<forall>q<queue_count (ifs ! n). sel (ifs ! n) q \<longrightarrow> received mx (queues (ifs ! n) ! q) (queues f ! q)"
        using fs that(1) js [OF that(1)] e(2) by (metis (no_types, lifting))
      then show ?thesis using True False n(1) by (simp add: e(1))
    next
      case i: False
      have "length o1 < mx" using fs that(1) e(2) by auto
      then have "if i < n \<and> live i
        then \<forall>q<queue_count (ifs ! i). sel (ifs ! i) q \<longrightarrow> received mx (queues (ifs ! i) ! q) (queues (js ! i) ! q)
        else js ! i = ifs ! i" using ih that(2) by blast
      then show ?thesis using i by (auto simp: e(1) less_Suc_eq)
    qed
    then show ?thesis using r by blast
  qed
qed simp

lemma recv_local_eq:
  "ne_recv_local_slot k mx p = (if NE_RX_LAN_SLOTS \<le> k then ([], p) else
     case fold (recv_iface ((!) (local_live p)) (\<lambda>f q. xsk_queue_for_rx_slot q k (queue_count f) NE_RX_LAN_SLOTS) mx NE_DIR_LOCAL
       (\<lambda>_. 0) (\<lambda>i. i)) [0..<local_count p] (locals p, []) of (ifs, out) \<Rightarrow> (out, p\<lparr>locals := ifs\<rparr>))"
  by (simp only: ne_recv_local_slot_def Let_def recv_iface_def [abs_def])

lemma recv_wan_eq:
  "ne_recv_wan_slot k mx p = (if NE_RX_WAN_SLOTS \<le> k then ([], p) else
     case fold (recv_iface ((!) (wan_live p)) (\<lambda>f q. xsk_queue_for_rx_slot q k (queue_count f) NE_RX_WAN_SLOTS) mx NE_DIR_WAN
       (\<lambda>i. i) (\<lambda>_. 0)) [0..<wan_count p] (wans p, []) of (ifs, out) \<Rightarrow> (out, p\<lparr>wans := ifs\<rparr>))"
  by (simp only: ne_recv_wan_slot_def Let_def recv_iface_def [abs_def])

text \<open>Releasing runs \<^verbatim>\<open>release_rx_queue\<close> on every queue of the slot.\<close>

lemma release_elems:
  assumes "fold (list_step (\<lambda>_. True) (\<lambda>f. for_queues (sel f) release_rx_queue f)) [0..<n] (ifs, pl) = (ifs', pl')" "roomy n ifs"
    "i < n" "q < queue_count (ifs ! i)" "sel (ifs ! i) q"
  shows "\<exists>pl1. queues (ifs' ! i) ! q = fst (release_rx_queue (queues (ifs ! i) ! q) pl1)"
proof -
  have "n \<le> length ifs" using assms(2) by (simp add: roomy_def)
  from list_step_elems [OF assms(1) this] have
    "\<forall>i. if i < n \<and> True then \<exists>pl1. ifs' ! i = fst (for_queues (sel (ifs ! i)) release_rx_queue (ifs ! i) pl1) else ifs' ! i = ifs ! i"
    by blast
  from spec [OF this, of i] assms(3) obtain pl1 where
    f: "ifs' ! i = fst (for_queues (sel (ifs ! i)) release_rx_queue (ifs ! i) pl1)" by auto
  obtain qs pl2 where g: "fold (list_step (sel (ifs ! i)) release_rx_queue) [0..<queue_count (ifs ! i)] (queues (ifs ! i), pl1) = (qs, pl2)"
    by force
  have "queue_count (ifs ! i) \<le> length (queues (ifs ! i))" using assms(2,3) by (simp add: roomy_def)
  from list_step_elems [OF g this] assms(4,5) f g show ?thesis by (auto simp: for_queues_def)
qed

section \<open>A batch that is not released\<close>

lemma received_held:
  assumes "cons_inv (q_rx slot)" "received mx slot slot'" "mx \<le> 64"
  shows "xsk_held (q_rx slot') = xsk_held (q_rx slot) + unat (rx_pending slot')" "cons_inv (q_rx slot')"
    "xsk_unread (q_rx slot') = drop (unat (rx_pending slot')) (xsk_unread (q_rx slot))"
    "rx_pending slot' = 0 \<longleftrightarrow> xsk_unread (q_rx slot) = []"
proof -
  obtain m pd wi li out where m: "0 < m" "m \<le> 64" and r: "recv_queue (slot\<lparr>rx_pending := 0\<rparr>) m pd wi li = (out, slot')"
    using assms(2,3) by (auto simp: received_def)
  have i: "cons_inv (q_rx (slot\<lparr>rx_pending := 0\<rparr>))" using assms(1) by simp
  show "xsk_held (q_rx slot') = xsk_held (q_rx slot) + unat (rx_pending slot')" "cons_inv (q_rx slot')"
    "xsk_unread (q_rx slot') = drop (unat (rx_pending slot')) (xsk_unread (q_rx slot))"
    "rx_pending slot' = 0 \<longleftrightarrow> xsk_unread (q_rx slot) = []"
    using recv_queue_held [OF i r] recv_queue_taken [OF i r m] by simp_all
qed

text \<open>Two receive calls and one release, for one queue: the first batch stays taken.\<close>

lemma twice_received_held:
  assumes "cons_inv (q_rx slot)" "received mx slot slot1" "received mx slot1 slot2" "mx \<le> 64"
    "slot3 = fst (release_rx_queue slot2 pl)"
  shows "xsk_held (q_rx slot3) = xsk_held (q_rx slot) + unat (rx_pending slot1) \<and>
    xsk_unread (q_rx slot1) = drop (unat (rx_pending slot1)) (xsk_unread (q_rx slot)) \<and>
    (rx_pending slot1 = 0 \<longleftrightarrow> xsk_unread (q_rx slot) = [])"
proof -
  note h1 = received_held [OF assms(1,2,4)]
  note h2 = received_held [OF h1(2) assms(3,4)]
  obtain pl' where r: "release_rx_queue slot2 pl = (slot3, pl')" using assms(5) by (metis prod.collapse)
  from release_rx_held(1) [OF h2(2) _ r] h1 h2 show ?thesis by simp
qed

abbreviation local_queue :: "ne_pair_io \<Rightarrow> nat \<Rightarrow> nat \<Rightarrow> ne_xsk_queue" where
  "local_queue p i q \<equiv> queues (locals p ! i) ! q"

text \<open>C36: The descriptors of a batch that is not released before the next receive call are lost for good. Both the
  LAN and the WAN thread skip the release when a receive call returns no packet, although it may have taken
  descriptors of rejected or unfinished packets; the next call clears \<^verbatim>\<open>rx_pending\<close> of every queue it reaches,
  and the release after it gives back only the second batch. So after receive, receive, release (each call
  with room left in its batch, so that it reached all queues of the slot) a receive ring holds as many
  descriptors more as the first call took from it, at least one whenever one was waiting. Shown here for
  \<^verbatim>\<open>ne_recv_local_slot\<close>, and by \<open>unreleased_batch_is_lost_wan\<close> for the WAN side.\<close>
theorem unreleased_batch_is_lost:
  assumes "ne_recv_local_slot k mx p = (out1, p1)" "ne_recv_local_slot k mx p1 = (out2, p2)" "p3 = ne_recv_release_local_slot k p2"
    and "length out1 < mx" "length out2 < mx" "mx \<le> NE_BATCH_SIZE" "k < NE_RX_LAN_SLOTS" "roomy (local_count p) (locals p)"
    and "ne_pair_local_live p i" "q < queue_count (locals p ! i)"
    and "xsk_queue_for_rx_slot q k (queue_count (locals p ! i)) NE_RX_LAN_SLOTS" "cons_inv (q_rx (local_queue p i q))"
  shows "xsk_held (q_rx (local_queue p3 i q)) = xsk_held (q_rx (local_queue p i q)) + unat (rx_pending (local_queue p1 i q)) \<and>
    xsk_unread (q_rx (local_queue p1 i q)) =
      drop (unat (rx_pending (local_queue p1 i q))) (xsk_unread (q_rx (local_queue p i q))) \<and>
    (rx_pending (local_queue p1 i q) = 0 \<longleftrightarrow> xsk_unread (q_rx (local_queue p i q)) = [])"
proof -
  let ?sel = "\<lambda>f q. xsk_queue_for_rx_slot q k (queue_count f) NE_RX_LAN_SLOTS"
  let ?F = "\<lambda>p. fold (recv_iface ((!) (local_live p)) ?sel mx NE_DIR_LOCAL (\<lambda>_. 0) (\<lambda>i. i)) [0..<local_count p] (locals p, [])"
  have f1: "?F p = (locals p1, out1)" and p1: "local_count p1 = local_count p" "local_live p1 = local_live p"
    using assms(1,7) unfolding recv_local_eq by (auto split: prod.splits)
  have f2: "?F p1 = (locals p2, out2)" and p2: "local_count p2 = local_count p"
    using assms(2,7) p1 unfolding recv_local_eq by (auto split: prod.splits)
  note r1 = recv_ifaces_elems [OF f1 assms(8) order_refl]
  from r1 p1 have rm: "roomy (local_count p1) (locals p1)" by simp
  note r2 = recv_ifaces_elems [OF f2 rm order_refl]
  have i: "i < local_count p" "local_live p ! i" using assms(9) by (auto simp: ne_pair_local_live_def)
  have c: "queue_count (locals p1 ! i) = queue_count (locals p ! i)" "queue_count (locals p2 ! i) = queue_count (locals p ! i)"
    using r1 r2 i p1 by auto
  have a: "received mx (local_queue p i q) (local_queue p1 i q)" using r1 i assms(4,10,11) by auto
  have b: "received mx (local_queue p1 i q) (local_queue p2 i q)" using r2 i p1 c assms(5,10,11) by auto
  obtain ifs pl where g: "fold (list_step (\<lambda>_. True) (\<lambda>f. for_queues (?sel f) release_rx_queue f)) [0..<local_count p2]
      (locals p2, pool (io_mem p2)) = (ifs, pl)" by force
  have p3: "locals p3 = ifs" using assms(3,7) g by (simp add: ne_recv_release_local_slot_def on_locals_def)
  have "roomy (local_count p2) (locals p2)" "i < local_count p2" using r2 p1 p2 i by auto
  from release_elems [OF g this] c p3 assms(10,11) obtain pl1 where
    "local_queue p3 i q = fst (release_rx_queue (local_queue p2 i q) pl1)" by auto
  from twice_received_held [OF assms(12) a b _ this] assms(6) show ?thesis by (simp add: NE_BATCH_SIZE_def)
qed

text \<open>The WAN side.\<close>

abbreviation wan_queue :: "ne_pair_io \<Rightarrow> nat \<Rightarrow> nat \<Rightarrow> ne_xsk_queue" where
  "wan_queue p i q \<equiv> queues (wans p ! i) ! q"

theorem unreleased_batch_is_lost_wan:
  assumes "ne_recv_wan_slot k mx p = (out1, p1)" "ne_recv_wan_slot k mx p1 = (out2, p2)" "p3 = ne_recv_release_wan_slot k p2"
    and "length out1 < mx" "length out2 < mx" "mx \<le> NE_BATCH_SIZE" "k < NE_RX_WAN_SLOTS" "roomy (wan_count p) (wans p)"
    and "ne_pair_wan_live p i" "q < queue_count (wans p ! i)"
    and "xsk_queue_for_rx_slot q k (queue_count (wans p ! i)) NE_RX_WAN_SLOTS" "cons_inv (q_rx (wan_queue p i q))"
  shows "xsk_held (q_rx (wan_queue p3 i q)) = xsk_held (q_rx (wan_queue p i q)) + unat (rx_pending (wan_queue p1 i q)) \<and>
    xsk_unread (q_rx (wan_queue p1 i q)) = drop (unat (rx_pending (wan_queue p1 i q))) (xsk_unread (q_rx (wan_queue p i q))) \<and>
    (rx_pending (wan_queue p1 i q) = 0 \<longleftrightarrow> xsk_unread (q_rx (wan_queue p i q)) = [])"
proof -
  let ?sel = "\<lambda>f q. xsk_queue_for_rx_slot q k (queue_count f) NE_RX_WAN_SLOTS"
  let ?F = "\<lambda>p. fold (recv_iface ((!) (wan_live p)) ?sel mx NE_DIR_WAN (\<lambda>i. i) (\<lambda>_. 0)) [0..<wan_count p] (wans p, [])"
  have f1: "?F p = (wans p1, out1)" and p1: "wan_count p1 = wan_count p" "wan_live p1 = wan_live p"
    using assms(1,7) unfolding recv_wan_eq by (auto split: prod.splits)
  have f2: "?F p1 = (wans p2, out2)" and p2: "wan_count p2 = wan_count p"
    using assms(2,7) p1 unfolding recv_wan_eq by (auto split: prod.splits)
  note r1 = recv_ifaces_elems [OF f1 assms(8) order_refl]
  from r1 p1 have rm: "roomy (wan_count p1) (wans p1)" by simp
  note r2 = recv_ifaces_elems [OF f2 rm order_refl]
  have i: "i < wan_count p" "wan_live p ! i" using assms(9) by (auto simp: ne_pair_wan_live_def)
  have c: "queue_count (wans p1 ! i) = queue_count (wans p ! i)" "queue_count (wans p2 ! i) = queue_count (wans p ! i)"
    using r1 r2 i p1 by auto
  have a: "received mx (wan_queue p i q) (wan_queue p1 i q)" using r1 i assms(4,10,11) by auto
  have b: "received mx (wan_queue p1 i q) (wan_queue p2 i q)" using r2 i p1 c assms(5,10,11) by auto
  obtain ifs pl where g: "fold (list_step (\<lambda>_. True) (\<lambda>f. for_queues (?sel f) release_rx_queue f)) [0..<wan_count p2]
      (wans p2, pool (io_mem p2)) = (ifs, pl)" by force
  have p3: "wans p3 = ifs" using assms(3,7) g by (simp add: ne_recv_release_wan_slot_def on_wans_def)
  have "roomy (wan_count p2) (wans p2)" "i < wan_count p2" using r2 p1 p2 i by auto
  from release_elems [OF g this] c p3 assms(10,11) obtain pl1 where
    "wan_queue p3 i q = fst (release_rx_queue (wan_queue p2 i q) pl1)" by auto
  from twice_received_held [OF assms(12) a b _ this] assms(6) show ?thesis by (simp add: NE_BATCH_SIZE_def)
qed

text \<open>A call returns at most as many packets as there were descriptors.\<close>

lemma recv_desc_length: "length (snd (recv_desc mx pd wi li d st)) \<le> Suc (length (snd st))"
  by (cases st) (simp add: recv_desc_def Let_def)

lemma recv_fold_length: "length (snd (fold (recv_desc mx pd wi li) ds st)) \<le> length ds + length (snd st)"
proof (induction ds arbitrary: st)
  case (Cons d ds)
  show ?case
    using Cons.IH [of "recv_desc mx pd wi li d st"] recv_desc_length [of mx pd wi li d st]
    unfolding fold_Cons comp_apply list.size by linarith
qed simp

lemma recv_queue_length:
  assumes "cons_inv (q_rx slot)" "recv_queue slot mx pd wi li = (out, slot')"
  shows "length out \<le> length (xsk_unread (q_rx slot))"
proof -
  obtain n idx rx1 where p: "xsk_ring_cons_peek (q_rx slot) (of_nat mx) = (n, idx, rx1)" by (metis prod_cases3)
  let ?ds = "map (\<lambda>i. xsk_ring_cons_entry rx1 (idx + of_nat i)) [0..<unat n]"
  note pk = xsk_peek_spec [OF assms(1) p refl]
  have "out = snd (fold (recv_desc mx pd wi li) ?ds (slot\<lparr>q_rx := rx1\<rparr>, []))"
    using assms(2) p by (auto simp: recv_queue_def Let_def split: prod.splits)
  then have "length out \<le> unat n" using recv_fold_length [of mx pd wi li ?ds "(slot\<lparr>q_rx := rx1\<rparr>, [])"] by simp
  then show ?thesis using pk(5) by simp
qed

lemma recv_one_queue:
  assumes "locals p = [f]" "local_count p = 1" "local_live p = [True]" "queue_count f = 1" "queues f = [slot]"
    "recv_queue (slot\<lparr>rx_pending := 0\<rparr>) 64 NE_DIR_LOCAL 0 0 = (out, slot')"
  shows "ne_recv_local_slot 0 64 p = (out, p\<lparr>locals := [f\<lparr>queues := [slot']\<rparr>]\<rparr>)"
  using assms by (simp add: ne_recv_local_slot_def NE_RX_LAN_SLOTS_def recv_step_def xsk_queue_for_rx_slot_def)
text \<open>One LAN queue with three descriptors waiting: the first call takes some, and they stay held.\<close>

theorem unreleased_batch_is_lost_witness:
  "\<exists>out1 p1 out2 p2. ne_recv_local_slot 0 64 demo_io = (out1, p1) \<and> ne_recv_local_slot 0 64 p1 = (out2, p2) \<and>
     0 < xsk_held (q_rx (local_queue (ne_recv_release_local_slot 0 p2) 0 0))"
proof -
  have d: "locals demo_io = [demo_iface]" "local_count demo_io = 1" "local_live demo_io = [True]" "queue_count demo_iface = 1"
    "queues demo_iface = [done_queue]" "q_rx done_queue = q_rx demo_queue"
    by (simp_all add: demo_io_def demo_iface_def done_queue_def)
  obtain out1 s1 where q1: "recv_queue (done_queue\<lparr>rx_pending := 0\<rparr>) 64 NE_DIR_LOCAL 0 0 = (out1, s1)" by force
  obtain out2 s2 where q2: "recv_queue (s1\<lparr>rx_pending := 0\<rparr>) 64 NE_DIR_LOCAL 0 0 = (out2, s2)" by force
  define p1 where "p1 = demo_io\<lparr>locals := [demo_iface\<lparr>queues := [s1]\<rparr>]\<rparr>"
  define p2 where "p2 = p1\<lparr>locals := [demo_iface\<lparr>queues := [s2]\<rparr>]\<rparr>"
  have r1: "ne_recv_local_slot 0 64 demo_io = (out1, p1)" unfolding p1_def by (rule recv_one_queue [OF d(1-5) q1])
  have r2: "ne_recv_local_slot 0 64 p1 = (out2, p2)"
    using recv_one_queue [of p1 "demo_iface\<lparr>queues := [s1]\<rparr>" s1 out2 s2] d q2 by (simp add: p1_def p2_def)
  have i: "cons_inv (q_rx (done_queue\<lparr>rx_pending := 0\<rparr>))" "cons_inv (q_rx (s1\<lparr>rx_pending := 0\<rparr>))"
    using demo_queue_rx(1) recv_queue_held(2) [OF _ q1] d(6) by simp_all
  have u: "length (xsk_unread (q_rx s1)) \<le> 3" "length (xsk_unread (q_rx done_queue)) = 3"
    using recv_queue_taken(1) [OF i(1) q1] demo_queue_rx(2) d(6) by (simp_all add: demo_descs_def)
  have q: "q_rx (local_queue demo_io 0 0) = q_rx demo_queue" "roomy (local_count demo_io) (locals demo_io)"
    "ne_pair_local_live demo_io 0" "queue_count (locals demo_io ! 0) = 1"
    by (simp_all add: demo_io_def demo_iface_def done_queue_def roomy_def ne_pair_local_live_def)
  have "length out1 < 64" "length out2 < 64"
    using recv_queue_length [OF i(1) q1] recv_queue_length [OF i(2) q2] u by simp_all
  then show ?thesis
    using unreleased_batch_is_lost [OF r1 r2 refl, of 0 0] q demo_queue_rx r1 r2
    by (auto simp: NE_BATCH_SIZE_def NE_RX_LAN_SLOTS_def xsk_queue_for_rx_slot_def demo_descs_def unat_gt_0)
qed

end
