(* ===== verification/Tcp_Mss.thy ===== *)
theory Tcp_Mss
  imports Eth_Parse
begin

unbundle bit_operations_syntax

text \<open>
  \<^verbatim>\<open>tcp_checksum_replace_word\<close> and \<^verbatim>\<open>crypto_tcp_clamp_mss\<close> of
  \<^verbatim>\<open>src/crypto/common/eth_parse.c\<close>. The packet is edited in place, so the model returns the new
  buffer next to the C return code. Checksums are specified by \<open>sum16\<close>, the plain sum of the
  16-bit words of a byte range: the Internet checksum of a range is valid when its sum is a
  multiple of 65535, so an edit keeps the checksum valid when it keeps \<open>sum16\<close> modulo 65535.
\<close>

section \<open>Definitions\<close>

lemma unat_and_0xFFFF: "unat (s AND 0xFFFF) = unat (s :: u32) mod 65536"
proof -
  have "s AND 0xFFFF = take_bit 16 s"
    by (simp add: take_bit_eq_mask mask_eq_exp_minus_1)
  then show ?thesis
    by (simp add: take_bit_eq_mod unat_mod)
qed

lemma unat_drop_bit_16: "unat (drop_bit 16 s) = unat (s :: u32) div 65536"
  by (simp add: drop_bit_eq_div unat_div)

lemma unat_fold_step:
  "unat ((s AND 0xFFFF) + drop_bit 16 s) = unat (s :: u32) mod 65536 + unat s div 65536"
proof -
  have "unat s div 65536 < 65536"
    using u32_lt [of s] by (simp add: less_mult_imp_div_less)
  moreover have "unat s mod 65536 < 65536" by simp
  ultimately have "unat s mod 65536 + unat s div 65536 < 2 ^ 32"
    by simp
  then show ?thesis
    by (simp add: unat_word_ariths unat_and_0xFFFF unat_drop_bit_16)
qed

function csum_fold :: "u32 \<Rightarrow> u32" where
  "csum_fold s =
     (if drop_bit 16 s \<noteq> 0 then csum_fold ((s AND 0xFFFF) + drop_bit 16 s) else s)"
  by pat_completeness auto
termination
proof (relation "measure unat", goal_cases)
  case (2 s)
  then have "unat s div 65536 \<noteq> 0"
    by (metis unat_drop_bit_16 unat_eq_zero)
  then have "unat s mod 65536 + unat s div 65536 < unat s"
    using div_mult_mod_eq [of "unat s" 65536] by linarith
  then show ?case
    by (simp only: unat_fold_step in_measure)
qed simp

declare csum_fold.simps [simp del]

definition tcp_checksum_replace_word :: "bytes \<Rightarrow> nat \<Rightarrow> u16 \<Rightarrow> u16 \<Rightarrow> bytes" where
  \<comment> \<open>\<open>tcp\<close> is the offset of the TCP header in the packet buffer\<close>
  "tcp_checksum_replace_word pkt tcp old_word new_word =
     (if old_word = new_word then pkt
      else let hc = be16 (pkt ! (tcp + 16)) (pkt ! (tcp + 17));
               s = ucast (NOT hc) + ucast (NOT old_word) + ucast new_word :: u32;
               hc' = ucast (NOT (csum_fold s)) :: u16
           in pkt[tcp + 16 := ucast (drop_bit 8 hc'), tcp + 17 := ucast hc'])"

function clamp_opts :: "bytes \<Rightarrow> nat \<Rightarrow> u16 \<Rightarrow> nat \<Rightarrow> nat \<Rightarrow> bytes \<times> bool" where
  \<comment> \<open>the option loop; the flag is the local \<^verbatim>\<open>changed\<close>\<close>
  "clamp_opts pkt tcp mss_cap opt_end opt_off =
     (if opt_off + 1 < opt_end then
        let kind = pkt ! (tcp + opt_off) in
        if kind = 0 then (pkt, False)
        else if kind = 1 then clamp_opts pkt tcp mss_cap opt_end (opt_off + 1)
        else let olen = unat (pkt ! (tcp + opt_off + 1)) in
          if olen < 2 \<or> opt_off + olen > opt_end then (pkt, False)
          else if kind = 2 \<and> olen = 4 \<and> opt_off + 4 \<le> opt_end then
            let old_mss = be16 (pkt ! (tcp + opt_off + 2)) (pkt ! (tcp + opt_off + 3));
                new_mss = (if old_mss > mss_cap then mss_cap else old_mss)
            in if new_mss \<noteq> old_mss
               then (tcp_checksum_replace_word
                       (pkt[tcp + opt_off + 2 := ucast (drop_bit 8 new_mss),
                            tcp + opt_off + 3 := ucast new_mss]) tcp old_mss new_mss, True)
               else (pkt, False)
          else clamp_opts pkt tcp mss_cap opt_end (opt_off + olen)
      else (pkt, False))"
  by pat_completeness auto
termination
  by (relation "measure (\<lambda>(pkt, tcp, mss_cap, opt_end, opt_off). opt_end - opt_off)") auto

declare clamp_opts.simps [simp del]

definition mss_cap :: "nat \<Rightarrow> nat \<Rightarrow> nat \<Rightarrow> nat" where
  \<comment> \<open>the local \<^verbatim>\<open>mss_cap\<close>, computed after the guard that makes the subtraction non-negative\<close>
  "mss_cap ihl path_mtu wire_overhead =
     (let c = path_mtu - ihl - 20 - wire_overhead;
          c1 = (if c < 536 then 536 else c)
      in if c1 > 0xFFFF then 0xFFFF else c1)"

definition crypto_tcp_clamp_mss :: "bytes \<Rightarrow> nat \<Rightarrow> nat \<Rightarrow> nat \<Rightarrow> int \<times> bytes" where
  "crypto_tcp_clamp_mss pkt pkt_len path_mtu wire_overhead =
     (if path_mtu < 576 then (-1, pkt)
      else case crypto_eth_ipv4_offset pkt pkt_len of
        None \<Rightarrow> (-1, pkt)
      | Some l3_off \<Rightarrow>
          if pkt_len < l3_off + 20 then (-1, pkt)
          else if pkt ! l3_off AND 0xF0 \<noteq> 0x40 then (-1, pkt)
          else if pkt ! (l3_off + 9) \<noteq> 6 then (-1, pkt)
          else let ihl = unat (pkt ! l3_off AND 0x0F) * 4 in
            if ihl < 20 \<or> pkt_len < l3_off + ihl + 20 then (-1, pkt)
            else let tcp = l3_off + ihl; flags = pkt ! (tcp + 13) in
              if flags AND 0x02 = 0 then (0, pkt)
              else let data_off = unat (drop_bit 4 (pkt ! (tcp + 12)) AND 0x0F) * 4 in
                if data_off < 20 \<or> pkt_len < l3_off + ihl + data_off then (-1, pkt)
                else if path_mtu \<le> ihl + 20 + wire_overhead then (-1, pkt)
                else let cap = mss_cap ihl path_mtu wire_overhead;
                         (pkt', changed) = clamp_opts pkt tcp (word_of_nat cap) data_off 20
                     in (if changed then 1 else 0, pkt'))"

fun sum16 :: "bytes \<Rightarrow> nat" where
  "sum16 (a # b # xs) = 256 * unat a + unat b + sum16 xs"
| "sum16 [a] = 256 * unat a"
| "sum16 [] = 0"

section \<open>One's-complement arithmetic\<close>

lemma csum_fold_spec:
  "unat (csum_fold s) < 65536 \<and> unat (csum_fold s) mod 65535 = unat s mod 65535"
proof (induction s rule: csum_fold.induct)
  case (1 s)
  show ?case
  proof (cases "drop_bit 16 s = 0")
    case True
    then have "unat s div 65536 = 0"
      by (metis unat_drop_bit_16 unat_eq_zero)
    then have "unat s < 65536" by (simp add: div_eq_0_iff)
    with True show ?thesis by (simp add: csum_fold.simps [of s])
  next
    case False
    let ?t = "(s AND 0xFFFF) + drop_bit 16 s"
    have "unat s = unat s div 65536 * 65536 + unat s mod 65536"
      by simp
    then have "unat s = unat s div 65536 * 65535 + unat ?t"
      unfolding unat_fold_step by linarith
    then have "unat ?t mod 65535 = unat s mod 65535"
      by (metis mod_mult_self3)
    with False "1.IH" [OF False] show ?thesis
      by (simp add: csum_fold.simps [of s])
  qed
qed

lemma unat_NOT_u16: "unat (NOT (w :: u16)) = 65535 - unat w"
proof -
  have "unat (NOT w) = unat (- 1 - w)"
    by (simp add: not_eq_complement minus_diff_commute)
  also have "\<dots> = unat (- 1 :: u16) - unat w"
    by (rule unat_sub) simp
  finally show ?thesis by (simp add: unsigned_minus_1_eq_mask mask_eq_exp_minus_1)
qed

lemma replace_word_sum:
  assumes "hc' = ucast (NOT (csum_fold (ucast (NOT hc) + ucast (NOT old) + ucast new)))"
  shows "(unat (hc' :: u16) + unat (new :: u16)) mod 65535 =
         (unat (hc :: u16) + unat (old :: u16)) mod 65535"
proof -
  define s :: u32 where "s = ucast (NOT hc) + ucast (NOT old) + ucast new"
  define f where "f = unat (csum_fold s)"
  have f: "f < 65536" "f mod 65535 = unat s mod 65535"
    using csum_fold_spec [of s] by (auto simp: f_def)
  have us: "unat s = (65535 - unat hc) + (65535 - unat old) + unat new"
    using u16_lt [of hc] u16_lt [of old] u16_lt [of new]
    by (simp add: s_def unat_word_ariths unsigned_ucast_eq take_bit_eq_mod unat_NOT_u16)
  have "hc' = NOT (ucast (csum_fold s))"
    unfolding assms s_def [symmetric] by (rule bit_word_eqI) (auto simp: bit_simps)
  then have uh: "unat hc' = 65535 - f"
    using f(1) by (simp add: unat_NOT_u16 f_def unsigned_ucast_eq take_bit_eq_mod)
  have "(unat hc' + unat new + f) mod 65535 = (unat hc + unat old + f) mod 65535"
  proof -
    have "unat hc' + unat new + f = 65535 + unat new" using uh f(1) by simp
    moreover have "(unat hc + unat old + f) mod 65535 = (unat hc + unat old + unat s) mod 65535"
      using f(2) by (metis mod_add_right_eq)
    moreover have "unat hc + unat old + unat s = 2 * 65535 + unat new"
      using us u16_lt [of hc] u16_lt [of old] by simp
    ultimately show ?thesis by (metis mod_add_self1 mod_mult_self3 mult.commute)
  qed
  then show ?thesis by (rule mod_add_right_cancel)
qed

section \<open>The option walk\<close>

text \<open>\<open>mss_find\<close> is the position at which the loop stops on an MSS option, \<open>clamp_at\<close> what it does
  there; together they are the loop.\<close>

function mss_find :: "bytes \<Rightarrow> nat \<Rightarrow> nat \<Rightarrow> nat \<Rightarrow> nat option" where
  "mss_find pkt tcp opt_end opt_off =
     (if opt_off + 1 < opt_end then
        let kind = pkt ! (tcp + opt_off) in
        if kind = 0 then None
        else if kind = 1 then mss_find pkt tcp opt_end (opt_off + 1)
        else let olen = unat (pkt ! (tcp + opt_off + 1)) in
          if olen < 2 \<or> opt_off + olen > opt_end then None
          else if kind = 2 \<and> olen = 4 then Some opt_off
          else mss_find pkt tcp opt_end (opt_off + olen)
      else None)"
  by pat_completeness auto
termination
  by (relation "measure (\<lambda>(pkt, tcp, opt_end, opt_off). opt_end - opt_off)") auto

declare mss_find.simps [simp del]

definition mss_at :: "bytes \<Rightarrow> nat \<Rightarrow> nat \<Rightarrow> u16" where
  "mss_at pkt tcp i = be16 (pkt ! (tcp + i + 2)) (pkt ! (tcp + i + 3))"

definition clamp_at :: "bytes \<Rightarrow> nat \<Rightarrow> u16 \<Rightarrow> nat \<Rightarrow> bytes \<times> bool" where
  "clamp_at pkt tcp cap i =
     (if mss_at pkt tcp i > cap
      then (tcp_checksum_replace_word
              (pkt[tcp + i + 2 := ucast (drop_bit 8 cap), tcp + i + 3 := ucast cap])
              tcp (mss_at pkt tcp i) cap, True)
      else (pkt, False))"

lemma clamp_opts_find:
  "clamp_opts pkt tcp cap e o' =
     (case mss_find pkt tcp e o' of None \<Rightarrow> (pkt, False) | Some i \<Rightarrow> clamp_at pkt tcp cap i)"
proof (induction pkt tcp cap e o' rule: clamp_opts.induct)
  case (1 pkt tcp cap e o')
  show ?case
    using "1.IH" unfolding clamp_opts.simps [of pkt tcp cap e o'] mss_find.simps [of pkt tcp e o']
    by (auto simp: Let_def clamp_at_def mss_at_def)
qed

lemma mss_find_SomeD:
  "mss_find pkt tcp e o' = Some i \<Longrightarrow>
   o' \<le> i \<and> i + 4 \<le> e \<and> pkt ! (tcp + i) = 2 \<and> unat (pkt ! (tcp + i + 1)) = 4"
proof (induction pkt tcp e o' rule: mss_find.induct)
  case (1 pkt tcp e o')
  from "1.prems" "1.IH" show ?case
    unfolding mss_find.simps [of pkt tcp e o']
    by (fastforce simp: Let_def split: if_splits)
qed

lemma mss_find_cong:
  assumes "mss_find pkt tcp e o' = Some i"
    and "\<And>k. o' \<le> k \<Longrightarrow> k < i + 2 \<Longrightarrow> pkt' ! (tcp + k) = pkt ! (tcp + k)"
  shows "mss_find pkt' tcp e o' = Some i"
  using assms
proof (induction pkt tcp e o' rule: mss_find.induct)
  case (1 pkt tcp e o')
  have b: "o' \<le> i" using mss_find_SomeD [OF "1.prems"(1)] by simp
  have k: "pkt' ! (tcp + o') = pkt ! (tcp + o')" "pkt' ! Suc (tcp + o') = pkt ! Suc (tcp + o')"
    using "1.prems"(2) [of o'] "1.prems"(2) [of "Suc o'"] b by auto
  from "1.prems" "1.IH" k show ?case
    unfolding mss_find.simps [of pkt tcp e o'] mss_find.simps [of pkt' tcp e o']
    by (auto simp: Let_def split: if_splits)
qed

lemma replace_word_nth:
  "k \<noteq> tcp + 16 \<Longrightarrow> k \<noteq> tcp + 17 \<Longrightarrow> tcp_checksum_replace_word pkt tcp a b ! k = pkt ! k"
  by (simp add: tcp_checksum_replace_word_def Let_def)

lemma length_replace_word [simp]: "length (tcp_checksum_replace_word pkt tcp a b) = length pkt"
  by (simp add: tcp_checksum_replace_word_def Let_def)

lemma clamp_at_nth:
  "k \<notin> {tcp + 16, tcp + 17, tcp + i + 2, tcp + i + 3} \<Longrightarrow> fst (clamp_at pkt tcp cap i) ! k = pkt ! k"
  by (simp add: clamp_at_def replace_word_nth)

lemma length_clamp_at [simp]: "length (fst (clamp_at pkt tcp cap i)) = length pkt"
  by (simp add: clamp_at_def)

lemma mss_at_clamp_at:
  assumes "20 \<le> i" and "tcp + i + 3 < length pkt"
  shows "mss_at (fst (clamp_at pkt tcp cap i)) tcp i = min cap (mss_at pkt tcp i)"
proof (cases "cap < mss_at pkt tcp i")
  case True
  with assms show ?thesis
    by (simp add: clamp_at_def mss_at_def replace_word_nth min.absorb1 less_imp_le)
next
  case False
  then have "clamp_at pkt tcp cap i = (pkt, False)" by (simp add: clamp_at_def)
  with False show ?thesis by (simp add: min.absorb2)
qed

section \<open>Effect on the checksum\<close>


lemma sum16_update_even:
  "even i \<Longrightarrow> i + 1 < length xs \<Longrightarrow>
   sum16 (xs[i := a, i + 1 := b]) + unat (be16 (xs ! i) (xs ! (i + 1))) = sum16 xs + unat (be16 a b)"
proof (induction xs arbitrary: i rule: sum16.induct)
  case (1 x y xs)
  show ?case
  proof (cases i)
    case 0
    then show ?thesis by (simp add: unat_be16)
  next
    case (Suc j)
    with "1.prems" obtain i' where i: "i = Suc (Suc i')" by (cases j) auto
    then have "sum16 (xs[i' := a, i' + 1 := b]) + unat (be16 (xs ! i') (xs ! (i' + 1))) =
        sum16 xs + unat (be16 a b)"
      using "1.IH" [of i'] "1.prems" by simp
    with i show ?thesis by simp
  qed
qed simp_all

lemma sum16_update_even':
  assumes "even i" "j = i + 1" "j < length xs"
  shows "sum16 (xs[i := a, j := b]) + unat (be16 (xs ! i) (xs ! j)) = sum16 xs + unat (be16 a b)"
  using sum16_update_even [of i xs a b] assms by simp

lemma sum16_clamp_at:
  assumes "20 \<le> i" "even i" "tcp + i + 3 < length pkt" "i + 4 \<le> m" "tcp + m \<le> length pkt"
  shows "sum16 (mem_read (fst (clamp_at pkt tcp cap i)) tcp m) mod 65535 =
         sum16 (mem_read pkt tcp m) mod 65535"
proof (cases "cap < mss_at pkt tcp i")
  case False
  then show ?thesis by (simp add: clamp_at_def)
next
  case True
  let ?old = "mss_at pkt tcp i"
  let ?seg = "mem_read pkt tcp m"
  let ?seg1 = "?seg[i + 2 := ucast (drop_bit 8 cap), i + 3 := ucast cap]"
  define hc where "hc = be16 (pkt ! (tcp + 16)) (pkt ! (tcp + 17))"
  define hc' :: u16 where
    "hc' = ucast (NOT (csum_fold (ucast (NOT hc) + ucast (NOT ?old) + ucast cap)))"
  let ?seg2 = "?seg1[16 := ucast (drop_bit 8 hc'), 17 := ucast hc']"
  have len: "length ?seg = m" using assms by simp
  have nth: "\<And>k. k < m \<Longrightarrow> ?seg ! k = pkt ! (tcp + k)"
    using assms by (simp add: mem_read_def)
  have seg2: "mem_read (fst (clamp_at pkt tcp cap i)) tcp m = ?seg2"
    using True assms
    by (simp add: clamp_at_def tcp_checksum_replace_word_def Let_def mem_read_def hc_def hc'_def
        drop_update_swap take_update_swap add.commute add.left_commute)
  have s1: "sum16 ?seg1 + unat ?old = sum16 ?seg + unat cap"
    using sum16_update_even' [of "i + 2" "i + 3" ?seg "ucast (drop_bit 8 cap)" "ucast cap"] assms
    by (simp add: nth mss_at_def add.assoc)
  have s2: "sum16 ?seg2 + unat hc = sum16 ?seg1 + unat hc'"
    using sum16_update_even' [of 16 17 ?seg1 "ucast (drop_bit 8 hc')" "ucast hc'"] assms
    by (simp add: nth hc_def)
  have r: "(unat hc' + unat cap) mod 65535 = (unat hc + unat ?old) mod 65535"
    by (rule replace_word_sum) (simp add: hc'_def)
  have "sum16 ?seg2 + (unat hc + unat ?old) = sum16 ?seg + (unat hc' + unat cap)"
    using s1 s2 by linarith
  then have "(sum16 ?seg2 + (unat hc + unat ?old)) mod 65535 = (sum16 ?seg + (unat hc' + unat cap)) mod 65535"
    by (rule arg_cong)
  also have "\<dots> = (sum16 ?seg + (unat hc + unat ?old)) mod 65535"
    using r by (rule mod_add_cong [OF refl])
  finally show ?thesis
    unfolding seg2 by (rule mod_add_right_cancel)
qed

text \<open>One byte weighs 256 at an even offset and 1 at an odd one.\<close>

lemma sum16_update_byte:
  "i < length xs \<Longrightarrow>
   int (sum16 (xs[i := a])) = int (sum16 xs) + (if even i then 256 else 1) * (int (unat a) - int (unat (xs ! i)))"
proof (induction xs arbitrary: i rule: sum16.induct)
  case (1 x y xs)
  show ?case
  proof (cases i)
    case (Suc j)
    with "1.IH" [of "j - 1"] "1.prems" show ?thesis by (cases j) (auto simp: algebra_simps)
  qed (simp add: algebra_simps)
qed (auto simp: algebra_simps)

lemma mod_eq_iff_dvd_int: "(a :: nat) mod m = b mod m \<longleftrightarrow> int m dvd int a - int b"
  by (metis mod_eq_dvd_iff of_nat_eq_iff of_nat_mod)

text \<open>A word split over an odd offset is added with its bytes swapped, so that replacing it moves the sum by 255
  times the change of the difference of its bytes.\<close>

lemma swapped_bytes_dvd:
  fixes h l h' l' d :: int
  assumes "65535 dvd d - (h' - h + 256 * (l' - l)) - ((256 * h + l) - (256 * h' + l'))"
  shows "65535 dvd d \<longleftrightarrow> 257 dvd (256 * h + l) - (256 * h' + l')"
proof -
  define x where "x = (h - l) - (h' - l')"
  have e: "(h' - h + 256 * (l' - l)) + ((256 * h + l) - (256 * h' + l')) = 255 * x"
    "(256 * h + l) - (256 * h' + l') = 257 * (h - h') - x" by (simp_all add: x_def algebra_simps)
  have "65535 dvd d - 255 * x" using assms e(1) by (simp add: algebra_simps)
  then have "65535 dvd d \<longleftrightarrow> 65535 dvd 255 * x" by (metis dvd_diff_commute dvd_add_right_iff diff_add_cancel)
  also have "\<dots> \<longleftrightarrow> 257 dvd x" using dvd_mult_cancel_left [of "255 :: int" 257 x] by simp
  also have "\<dots> \<longleftrightarrow> 257 dvd 257 * (h - h') - x"
    using dvd_add_right_iff [of 257 "257 * (h - h')" "- x"] by simp
  finally show ?thesis unfolding e(2) .
qed

lemma sum16_clamp_at_odd:
  assumes "20 \<le> i" "odd i" "tcp + i + 3 < length pkt" "i + 4 \<le> m" "tcp + m \<le> length pkt" "cap < mss_at pkt tcp i"
  shows "sum16 (mem_read (fst (clamp_at pkt tcp cap i)) tcp m) mod 65535 = sum16 (mem_read pkt tcp m) mod 65535 \<longleftrightarrow>
    unat (mss_at pkt tcp i) mod 257 = unat cap mod 257"
proof -
  let ?old = "mss_at pkt tcp i" and ?seg = "mem_read pkt tcp m"
  let ?H = "ucast (drop_bit 8 cap) :: u8" and ?L = "ucast cap :: u8"
  let ?seg1 = "?seg[i + 2 := ?H, i + 3 := ?L]"
  define hc where "hc = be16 (pkt ! (tcp + 16)) (pkt ! (tcp + 17))"
  define hc' :: u16 where
    "hc' = ucast (NOT (csum_fold (ucast (NOT hc) + ucast (NOT ?old) + ucast cap)))"
  let ?seg2 = "?seg1[16 := ucast (drop_bit 8 hc'), 17 := ucast hc']"
  have nth: "\<And>k. k < m \<Longrightarrow> ?seg ! k = pkt ! (tcp + k)" using assms by (simp add: mem_read_def)
  have seg2: "mem_read (fst (clamp_at pkt tcp cap i)) tcp m = ?seg2"
    using assms
    by (simp add: clamp_at_def tcp_checksum_replace_word_def Let_def mem_read_def hc_def hc'_def
        drop_update_swap take_update_swap add.commute add.left_commute)
  have s1: "int (sum16 ?seg1) = int (sum16 ?seg) + (int (unat ?H) - int (unat (pkt ! (tcp + i + 2)))) +
      256 * (int (unat ?L) - int (unat (pkt ! (tcp + i + 3))))"
    using sum16_update_byte [of "i + 2" ?seg ?H] sum16_update_byte [of "i + 3" "?seg[i + 2 := ?H]" ?L] assms nth
    by (simp add: add.assoc)
  have s2: "sum16 ?seg2 + unat hc = sum16 ?seg1 + unat hc'"
    using sum16_update_even' [of 16 17 ?seg1 "ucast (drop_bit 8 hc')" "ucast hc'"] assms
    by (simp add: nth hc_def)
  have "(unat hc' + unat cap) mod 65535 = (unat hc + unat ?old) mod 65535"
    by (rule replace_word_sum) (simp add: hc'_def)
  then have r: "65535 dvd (int (unat hc') + int (unat cap)) - (int (unat hc) + int (unat ?old))"
    unfolding mod_eq_iff_dvd_int by simp
  have old: "unat ?old = 256 * unat (pkt ! (tcp + i + 2)) + unat (pkt ! (tcp + i + 3))"
    by (simp add: mss_at_def unat_be16)
  have "be16 ?H ?L = cap" by simp
  then have cap: "unat cap = 256 * unat ?H + unat ?L" using unat_be16 [of ?H ?L] by simp
  define d h l h' l' where "d = int (sum16 ?seg2) - int (sum16 ?seg)" and "h = int (unat (pkt ! (tcp + i + 2)))"
    and "l = int (unat (pkt ! (tcp + i + 3)))" and "h' = int (unat ?H)" and "l' = int (unat ?L)"
  have v: "int (unat ?old) = 256 * h + l" "int (unat cap) = 256 * h' + l'"
    unfolding old cap h_def l_def h'_def l'_def by simp_all
  have "d = h' - h + 256 * (l' - l) + (int (unat hc') - int (unat hc))"
    unfolding d_def h_def l_def h'_def l'_def using s1 s2 by linarith
  then have "d - (h' - h + 256 * (l' - l)) - ((256 * h + l) - (256 * h' + l')) =
      (int (unat hc') + (256 * h' + l')) - (int (unat hc) + (256 * h + l))"
    by simp
  with r [unfolded v] have "65535 dvd d - (h' - h + 256 * (l' - l)) - ((256 * h + l) - (256 * h' + l'))"
    by (simp only:)
  from swapped_bytes_dvd [OF this] show ?thesis
    unfolding seg2 mod_eq_iff_dvd_int v d_def by simp
qed

section \<open>The whole function\<close>

definition ip_ihl :: "bytes \<Rightarrow> nat" where
  "ip_ihl pkt = unat (pkt ! 14 AND 0x0F) * 4"

definition tcp_off :: "bytes \<Rightarrow> nat" where
  "tcp_off pkt = 14 + ip_ihl pkt"

definition tcp_data_off :: "bytes \<Rightarrow> nat" where
  "tcp_data_off pkt = unat (drop_bit 4 (pkt ! (tcp_off pkt + 12)) AND 0x0F) * 4"

definition tcp_is_syn :: "bytes \<Rightarrow> bool" where
  "tcp_is_syn pkt \<longleftrightarrow> pkt ! (tcp_off pkt + 13) AND 0x02 \<noteq> 0"

definition mss_opt :: "bytes \<Rightarrow> nat option" where
  \<comment> \<open>position, relative to the TCP header, of the MSS option the code would edit\<close>
  "mss_opt pkt = mss_find pkt (tcp_off pkt) (tcp_data_off pkt) 20"

definition clamp_pre :: "bytes \<Rightarrow> nat \<Rightarrow> nat \<Rightarrow> nat \<Rightarrow> bool" where
  \<comment> \<open>the guards under which the option walk is reached\<close>
  "clamp_pre pkt n mtu ov \<longleftrightarrow>
     576 \<le> mtu \<and> 34 \<le> n \<and> eth_read_et pkt 12 = ETH_P_IP \<and> pkt ! 14 AND 0xF0 = 0x40 \<and>
     pkt ! 23 = 6 \<and> 20 \<le> ip_ihl pkt \<and> 14 + ip_ihl pkt + 20 \<le> n \<and> tcp_is_syn pkt \<and>
     20 \<le> tcp_data_off pkt \<and> tcp_off pkt + tcp_data_off pkt \<le> n \<and> ip_ihl pkt + 20 + ov < mtu"

lemma clamp_mss_eq:
  assumes "clamp_pre pkt n mtu ov"
  shows "crypto_tcp_clamp_mss pkt n mtu ov =
     (case mss_opt pkt of
        None \<Rightarrow> (0, pkt)
      | Some i \<Rightarrow>
          let (p, ch) = clamp_at pkt (tcp_off pkt) (word_of_nat (mss_cap (ip_ihl pkt) mtu ov)) i
          in (if ch then 1 else 0, p))"
  using assms
  by (simp add: crypto_tcp_clamp_mss_def clamp_pre_def ipv4_offset_eq clamp_opts_find mss_opt_def
      ip_ihl_def tcp_off_def tcp_data_off_def tcp_is_syn_def Let_def split: option.splits prod.splits)

lemma clamp_mss_skip:
  assumes "\<not> clamp_pre pkt n mtu ov"
  shows "\<exists>rc \<in> {-1, 0}. crypto_tcp_clamp_mss pkt n mtu ov = (rc, pkt)"
  using assms
  by (auto simp: crypto_tcp_clamp_mss_def clamp_pre_def ipv4_offset_eq
      ip_ihl_def tcp_off_def tcp_data_off_def tcp_is_syn_def Let_def)

lemma clamp_at_header:
  assumes "mss_opt pkt = Some i" and "n \<le> length pkt" and "clamp_pre pkt n mtu ov"
    and "p = fst (clamp_at pkt (tcp_off pkt) cap i)"
  shows "ip_ihl p = ip_ihl pkt" "tcp_off p = tcp_off pkt" "tcp_data_off p = tcp_data_off pkt"
    "mss_opt p = Some i" "clamp_pre p n mtu ov"
proof -
  have i: "20 \<le> i" using assms(1) mss_find_SomeD unfolding mss_opt_def by blast
  have same: "\<And>k. k < tcp_off pkt + 16 \<Longrightarrow> p ! k = pkt ! k"
    using i assms(4) by (auto intro!: clamp_at_nth)
  have off: "34 \<le> tcp_off pkt" using assms(3) by (auto simp: clamp_pre_def tcp_off_def)
  show ihl: "ip_ihl p = ip_ihl pkt"
    using same [of 14] off by (simp add: ip_ihl_def)
  then show toff: "tcp_off p = tcp_off pkt" by (simp add: tcp_off_def)
  show doff: "tcp_data_off p = tcp_data_off pkt"
    using same [of "tcp_off pkt + 12"] toff by (simp add: tcp_data_off_def)
  show "mss_opt p = Some i"
    unfolding mss_opt_def toff doff
  proof (rule mss_find_cong [OF assms(1) [unfolded mss_opt_def]])
    fix k assume "20 \<le> k" "k < i + 2"
    then show "p ! (tcp_off pkt + k) = pkt ! (tcp_off pkt + k)"
      using assms(4) by (auto intro!: clamp_at_nth)
  qed
  show "clamp_pre p n mtu ov"
    using assms(3) same [of 12] same [of 13] same [of 14] same [of 23]
      same [of "tcp_off pkt + 13"] off ihl toff doff
    by (simp add: clamp_pre_def tcp_is_syn_def eth_read_et_def)
qed

lemma clamp_mss_changedD:
  assumes "crypto_tcp_clamp_mss pkt n mtu ov = (1, pkt')"
  obtains i where "clamp_pre pkt n mtu ov" "mss_opt pkt = Some i"
    "pkt' = fst (clamp_at pkt (tcp_off pkt) (word_of_nat (mss_cap (ip_ihl pkt) mtu ov)) i)"
proof (cases "clamp_pre pkt n mtu ov")
  case True
  with assms show ?thesis
    using that by (auto simp: clamp_mss_eq Let_def split: option.splits prod.splits if_splits)
next
  case False
  then show ?thesis using assms clamp_mss_skip by fastforce
qed

lemma unat_mss_cap: "unat (word_of_nat (mss_cap a b c) :: u16) = mss_cap a b c"
  by (simp add: unat_of_nat mss_cap_def Let_def)

text \<open>The clamp is idempotent: applied to its own output it returns 0 when it had changed the
  packet (its old return code otherwise) and leaves the packet as it is.\<close>

theorem clamp_mss_idempotent:
  assumes "n \<le> length pkt" and "crypto_tcp_clamp_mss pkt n mtu ov = (rc, pkt')"
  shows "crypto_tcp_clamp_mss pkt' n mtu ov = (if rc = 1 then 0 else rc, pkt')"
proof (cases "rc = 1")
  case False
  then have "pkt' = pkt"
    using assms(2) clamp_mss_skip [of pkt n mtu ov]
    by (cases "clamp_pre pkt n mtu ov")
      (auto simp: clamp_mss_eq clamp_at_def Let_def split: option.splits if_splits)
  with False assms(2) show ?thesis by simp
next
  case True
  let ?cap = "word_of_nat (mss_cap (ip_ihl pkt) mtu ov) :: u16"
  from assms(2) True obtain i where i: "clamp_pre pkt n mtu ov" "mss_opt pkt = Some i"
      "pkt' = fst (clamp_at pkt (tcp_off pkt) ?cap i)"
    by (auto elim: clamp_mss_changedD)
  note h = clamp_at_header [OF i(2) assms(1) i(1) i(3)]
  have b: "20 \<le> i" "tcp_off pkt + i + 3 < length pkt"
    using mss_find_SomeD [OF i(2) [unfolded mss_opt_def]] i(1) assms(1)
    by (auto simp: clamp_pre_def)
  have "mss_at pkt' (tcp_off pkt) i \<le> ?cap"
    unfolding i(3) mss_at_clamp_at [OF b] by simp
  then have "clamp_at pkt' (tcp_off pkt) ?cap i = (pkt', False)"
    by (simp add: clamp_at_def)
  with True h show ?thesis by (simp add: clamp_mss_eq)
qed

definition syn_sample :: "u8 \<Rightarrow> bytes \<Rightarrow> bytes" where
  \<comment> \<open>an untagged IPv4 TCP SYN with the given data-offset byte and option bytes\<close>
  "syn_sample off opts = [0, 0, 0, 0, 0, 0, 0, 0, 0, 0, 0, 0, 0x08, 0x00] @
     [0x45, 0, 0, 44, 0, 0, 0, 0, 64, 6, 0, 0, 10, 0, 0, 1, 10, 0, 0, 2] @
     [0x1F, 0x90, 0, 80, 0, 0, 0, 1, 0, 0, 0, 0, off, 0x02, 0xFF, 0xFF, 0x12, 0x34, 0, 0] @ opts"

lemma length_syn_sample: "58 \<le> length (syn_sample 0x60 [2, 4, 0x23, 0x28])"
  by (simp add: syn_sample_def)

lemmas tcp_eval = syn_sample_def mss_opt_def tcp_off_def tcp_data_off_def tcp_is_syn_def ip_ihl_def
  mss_find.simps clamp_opts.simps crypto_tcp_clamp_mss_def ipv4_offset_eq eth_read_et_def eth_consts
  mss_cap_def tcp_checksum_replace_word_def be16_def csum_fold.simps Let_def mem_read_def

lemma syn_sample_mss:
  "mss_opt (syn_sample 0x60 [2, 4, 0x23, 0x28]) = Some 20"
  "tcp_data_off (syn_sample 0x60 [2, 4, 0x23, 0x28]) = 24"
  "tcp_off (syn_sample 0x60 [2, 4, 0x23, 0x28]) = 34"
  "tcp_is_syn (syn_sample 0x60 [2, 4, 0x23, 0x28])"
  "fst (crypto_tcp_clamp_mss (syn_sample 0x60 [2, 4, 0x23, 0x28]) 58 9000 31) = 1"
  by (simp_all add: tcp_eval)

theorem clamp_mss_idempotent_witness:
  "\<exists>pkt'. crypto_tcp_clamp_mss (syn_sample 0x60 [2, 4, 0x23, 0x28]) 58 9000 31 = (1, pkt') \<and>
     crypto_tcp_clamp_mss pkt' 58 9000 31 = (0, pkt')"
proof -
  let ?p = "syn_sample 0x60 [2, 4, 0x23, 0x28]"
  obtain pkt' where "crypto_tcp_clamp_mss ?p 58 9000 31 = (1, pkt')"
    using syn_sample_mss(5) by (metis prod.collapse)
  moreover have "58 \<le> length ?p" by (simp add: syn_sample_def)
  ultimately show ?thesis using clamp_mss_idempotent [of 58 ?p 9000 31 1 pkt'] by auto
qed

text \<open>C23: when the MSS option stands at an even offset of the TCP header, rewriting the MSS and
  patching the checksum keeps the 16-bit one's-complement sum of the TCP segment (any segment
  length \<open>m\<close> that covers the header): a valid TCP checksum stays valid.\<close>

theorem clamp_mss_keeps_checksum:
  assumes "n \<le> length pkt" and "crypto_tcp_clamp_mss pkt n mtu ov = (rc, pkt')"
    and "\<And>i. mss_opt pkt = Some i \<Longrightarrow> even i"
    and "tcp_data_off pkt \<le> m" and "tcp_off pkt + m \<le> length pkt"
  shows "sum16 (mem_read pkt' (tcp_off pkt) m) mod 65535 = sum16 (mem_read pkt (tcp_off pkt) m) mod 65535"
proof (cases "clamp_pre pkt n mtu ov \<and> mss_opt pkt \<noteq> None")
  case True
  then obtain i where i: "mss_opt pkt = Some i" by auto
  have b: "20 \<le> i" "i + 4 \<le> tcp_data_off pkt"
    using mss_find_SomeD [OF i [unfolded mss_opt_def]] by auto
  have "pkt' = fst (clamp_at pkt (tcp_off pkt) (word_of_nat (mss_cap (ip_ihl pkt) mtu ov)) i)"
    using True i assms(2) by (auto simp: clamp_mss_eq Let_def split: prod.splits)
  then show ?thesis
    using sum16_clamp_at [of i "tcp_off pkt" pkt m] b i assms(3-5) by simp
next
  case False
  then have "pkt' = pkt"
    using assms(2) clamp_mss_skip [of pkt n mtu ov]
    by (cases "clamp_pre pkt n mtu ov") (auto simp: clamp_mss_eq)
  then show ?thesis by simp
qed

theorem clamp_mss_keeps_checksum_witness:
  "sum16 (mem_read (snd (crypto_tcp_clamp_mss (syn_sample 0x60 [2, 4, 0x23, 0x28]) 58 9000 31)) 34 24) mod 65535 =
   sum16 (mem_read (syn_sample 0x60 [2, 4, 0x23, 0x28]) 34 24) mod 65535"
  using clamp_mss_keeps_checksum [of 58 "syn_sample 0x60 [2, 4, 0x23, 0x28]" 9000 31 _ _ 24]
  by (simp add: syn_sample_mss length_syn_sample prod_eq_iff)

text \<open>C25: at an odd offset of the TCP header (a single NOP before the option is enough) the patch is wrong: the code
  rewrites the MSS and reports success, but the one's-complement sum of the segment is kept only when the
  old and the new MSS are equal modulo 257; in every other case a valid TCP checksum becomes invalid.\<close>

theorem clamp_mss_odd_offset_breaks_checksum:
  assumes "n \<le> length pkt" and "crypto_tcp_clamp_mss pkt n mtu ov = (1, pkt')"
    and "mss_opt pkt = Some i" and "odd i"
    and "tcp_data_off pkt \<le> m" and "tcp_off pkt + m \<le> length pkt"
  shows "sum16 (mem_read pkt' (tcp_off pkt) m) mod 65535 = sum16 (mem_read pkt (tcp_off pkt) m) mod 65535 \<longleftrightarrow>
    unat (mss_at pkt (tcp_off pkt) i) mod 257 = unat (mss_at pkt' (tcp_off pkt) i) mod 257"
proof -
  let ?cap = "word_of_nat (mss_cap (ip_ihl pkt) mtu ov) :: u16"
  from assms(2,3) have pre: "clamp_pre pkt n mtu ov" and p: "pkt' = fst (clamp_at pkt (tcp_off pkt) ?cap i)"
    by (auto elim: clamp_mss_changedD)
  have lt: "?cap < mss_at pkt (tcp_off pkt) i"
    using assms(2,3) pre by (auto simp: clamp_mss_eq clamp_at_def Let_def split: if_splits)
  have b: "20 \<le> i" "i + 4 \<le> tcp_data_off pkt" "tcp_off pkt + i + 3 < length pkt"
    using mss_find_SomeD [OF assms(3) [unfolded mss_opt_def]] pre assms(1) by (auto simp: clamp_pre_def)
  have "mss_at pkt' (tcp_off pkt) i = ?cap"
    unfolding p mss_at_clamp_at [OF b(1,3)] using lt by (simp add: min.absorb1 less_imp_le)
  then show ?thesis
    using sum16_clamp_at_odd [OF b(1) assms(4) b(3) _ assms(6) lt] b(2) assms(5) unfolding p by simp
qed

lemma odd_sample:
  "mss_opt (syn_sample 0x70 [1, 2, 4, 0x23, 0x28, 0, 0, 0]) = Some 21"
  "tcp_data_off (syn_sample 0x70 [1, 2, 4, 0x23, 0x28, 0, 0, 0]) = 28"
  "tcp_off (syn_sample 0x70 [1, 2, 4, 0x23, 0x28, 0, 0, 0]) = 34"
  "length (syn_sample 0x70 [1, 2, 4, 0x23, 0x28, 0, 0, 0]) = 62"
  "fst (crypto_tcp_clamp_mss (syn_sample 0x70 [1, 2, 4, 0x23, 0x28, 0, 0, 0]) 62 9000 31) = 1"
  "unat (mss_at (syn_sample 0x70 [1, 2, 4, 0x23, 0x28, 0, 0, 0]) 34 21) = 9000"
  "unat (mss_at (snd (crypto_tcp_clamp_mss (syn_sample 0x70 [1, 2, 4, 0x23, 0x28, 0, 0, 0]) 62 9000 31)) 34 21) = 8929"
  by (simp_all add: tcp_eval mss_at_def)

text \<open>With one NOP before the option, an MSS of 9000 becomes 8929 and the checksum breaks.\<close>

theorem clamp_mss_odd_offset_witness:
  "\<exists>pkt'. crypto_tcp_clamp_mss (syn_sample 0x70 [1, 2, 4, 0x23, 0x28, 0, 0, 0]) 62 9000 31 = (1, pkt') \<and>
     sum16 (mem_read pkt' 34 28) mod 65535 \<noteq>
     sum16 (mem_read (syn_sample 0x70 [1, 2, 4, 0x23, 0x28, 0, 0, 0]) 34 28) mod 65535"
proof -
  let ?p = "syn_sample 0x70 [1, 2, 4, 0x23, 0x28, 0, 0, 0]"
  obtain pkt' where r: "crypto_tcp_clamp_mss ?p 62 9000 31 = (1, pkt')"
    using odd_sample(5) by (metis prod.collapse)
  then have "unat (mss_at pkt' 34 21) = 8929" using odd_sample(7) by simp
  then show ?thesis
    using clamp_mss_odd_offset_breaks_checksum [of 62 ?p 9000 31 pkt' 21 28] r odd_sample by auto
qed

text \<open>C24: with the dataplane's parameters (MTU 9000, 31 bytes of wire overhead) a processed SYN with an
  MSS option announces at most what fits: IP header, 20-byte TCP header, that many payload bytes and
  the overhead stay within the MTU; the announced value is the old one or the limit, whichever is
  smaller.\<close>

theorem clamp_mss_fits_mtu:
  assumes "n \<le> length pkt" and "crypto_tcp_clamp_mss pkt n 9000 31 = (rc, pkt')" and "0 \<le> rc"
    and "tcp_is_syn pkt" and "mss_opt pkt = Some i"
  shows "mss_opt pkt' = Some i \<and> tcp_off pkt' = tcp_off pkt \<and>
    ip_ihl pkt' + 20 + unat (mss_at pkt' (tcp_off pkt') i) + 31 \<le> 9000 \<and>
    unat (mss_at pkt' (tcp_off pkt') i) =
      min (9000 - ip_ihl pkt - 20 - 31) (unat (mss_at pkt (tcp_off pkt) i))"
proof -
  let ?cap = "word_of_nat (mss_cap (ip_ihl pkt) 9000 31) :: u16"
  have pre: "clamp_pre pkt n 9000 31"
  proof (rule ccontr)
    assume "\<not> clamp_pre pkt n 9000 31"
    with assms(2-4) show False
      by (auto simp: crypto_tcp_clamp_mss_def clamp_pre_def ipv4_offset_eq ip_ihl_def tcp_off_def
          tcp_data_off_def tcp_is_syn_def Let_def split: if_splits)
  qed
  then have p: "pkt' = fst (clamp_at pkt (tcp_off pkt) ?cap i)"
    using assms(2,5) by (auto simp: clamp_mss_eq Let_def split: prod.splits)
  note h = clamp_at_header [OF assms(5) assms(1) pre p]
  have b: "20 \<le> i" "tcp_off pkt + i + 3 < length pkt"
    using mss_find_SomeD [OF assms(5) [unfolded mss_opt_def]] pre assms(1)
    by (auto simp: clamp_pre_def)
  have "unat (pkt ! 14 AND 0x0F) \<le> unat (0x0F :: u8)"
    using word_and_le1 word_le_nat_alt by blast
  then have "ip_ihl pkt \<le> 60" by (simp add: ip_ihl_def)
  then have "mss_cap (ip_ihl pkt) 9000 31 = 9000 - ip_ihl pkt - 20 - 31"
    unfolding mss_cap_def Let_def by auto
  then have cap: "unat ?cap = 9000 - ip_ihl pkt - 20 - 31"
    using unat_mss_cap [of "ip_ihl pkt" 9000 31] by simp
  have m: "mss_at pkt' (tcp_off pkt) i = min ?cap (mss_at pkt (tcp_off pkt) i)"
    unfolding p by (rule mss_at_clamp_at [OF b])
  have "unat (mss_at pkt' (tcp_off pkt) i) = min (unat ?cap) (unat (mss_at pkt (tcp_off pkt) i))"
    unfolding m by (simp add: min_def word_le_nat_alt)
  then show ?thesis
    using h cap \<open>ip_ihl pkt \<le> 60\<close> by simp
qed

theorem clamp_mss_fits_mtu_witness:
  "unat (mss_at (snd (crypto_tcp_clamp_mss (syn_sample 0x60 [2, 4, 0x23, 0x28]) 58 9000 31)) 34 20) =
   min (9000 - ip_ihl (syn_sample 0x60 [2, 4, 0x23, 0x28]) - 20 - 31)
       (unat (mss_at (syn_sample 0x60 [2, 4, 0x23, 0x28]) 34 20))"
  using clamp_mss_fits_mtu [of 58 "syn_sample 0x60 [2, 4, 0x23, 0x28]" 1 _ 20]
    syn_sample_mss by (metis (no_types, lifting) prod.collapse zero_le_one length_syn_sample)

end
