(* ===== verification/L2_Frag.thy ===== *)
theory L2_Frag
  imports L2_Wire Cpu_Map
begin

unbundle bit_operations_syntax

text \<open>
  Splitting of oversized datagrams and their reassembly in \<^verbatim>\<open>src/crypto/pqc/pqc_l2_option.c\<close>:
  the two authenticated fragments of \<^verbatim>\<open>l2_split\<close>, the per-worker table of half-received
  datagrams (\<^verbatim>\<open>opt_*\<close>), \<^verbatim>\<open>l2_reassemble\<close>, \<^verbatim>\<open>l2_udp_reasm\<close> and the garbage collector. The
  payload arrays of an entry keep their C capacity, so copies into them are checked. Times are
  64-bit nanoseconds and ages are differences that wrap, as in C.
\<close>

section \<open>The reassembly table\<close>

definition L2_FRAG_TABLE_SIZE :: nat where "L2_FRAG_TABLE_SIZE = 256"
definition L2_FRAG_TIMEOUT_NS :: u64 where "L2_FRAG_TIMEOUT_NS = 200 * 1000000"

record opt_entry =
  e_epoch :: u32
  e_datagram_id :: u32
  e_udp_seq :: u32
  e_first_len :: nat
  e_second_len :: nat
  e_timestamp_ns :: u64
  e_eth_hdr :: bytes
  e_eth_len :: nat
  e_got_first :: bool
  e_got_second :: bool
  e_first :: bytes
  e_second :: bytes

record opt_table =
  gc_cursor :: u32
  entries :: "opt_entry list"

definition opt_clear_entry :: "opt_entry \<Rightarrow> opt_entry" where
  "opt_clear_entry e =
     e\<lparr>e_epoch := 0, e_datagram_id := 0, e_udp_seq := 0, e_first_len := 0, e_second_len := 0,
       e_timestamp_ns := 0, e_eth_len := 0, e_got_first := False, e_got_second := False\<rparr>"

definition opt_occupied :: "opt_entry \<Rightarrow> bool" where
  "opt_occupied e \<longleftrightarrow> e_got_first e \<or> e_got_second e"

definition opt_expired :: "u64 \<Rightarrow> opt_entry \<Rightarrow> bool" where
  "opt_expired now e \<longleftrightarrow> L2_FRAG_TIMEOUT_NS < now - e_timestamp_ns e"

definition opt_prepare_entry :: "opt_entry \<Rightarrow> u32 \<Rightarrow> u32 \<Rightarrow> u32 \<Rightarrow> u64 \<Rightarrow> opt_entry" where
  "opt_prepare_entry entry epoch datagram_id udp_seq now =
     (let e = (if e_epoch entry \<noteq> epoch \<or> e_datagram_id entry \<noteq> datagram_id \<or> e_udp_seq entry \<noteq> udp_seq
                  \<or> (opt_occupied entry \<and> opt_expired now entry)
               then opt_clear_entry entry else entry)
      in e\<lparr>e_epoch := epoch, e_datagram_id := datagram_id, e_udp_seq := udp_seq,
            e_timestamp_ns := now\<rparr>)"

text \<open>The probe loop of \<^verbatim>\<open>opt_pick_slot\<close>: \<open>k\<close> probes are left and \<open>i\<close> is the next one; the result is
  the table, in which expired entries on the way have been cleared, and the slot.\<close>

fun opt_probe ::
  "u32 \<Rightarrow> u32 \<Rightarrow> u64 \<Rightarrow> nat \<Rightarrow> nat \<Rightarrow> nat \<Rightarrow> nat option \<Rightarrow> (nat \<times> u64) option \<Rightarrow> opt_entry list
   \<Rightarrow> nat \<times> opt_entry list" where
  "opt_probe epoch datagram_id now base 0 i empty_idx oldest es =
     ((case empty_idx of Some k \<Rightarrow> k
       | None \<Rightarrow> (case oldest of Some (k, _) \<Rightarrow> k | None \<Rightarrow> base)), es)"
| "opt_probe epoch datagram_id now base (Suc left) i empty_idx oldest es =
     (let idx = (base + i) mod L2_FRAG_TABLE_SIZE;
          e = es ! idx;
          es' = (if opt_occupied e \<and> opt_expired now e then es[idx := opt_clear_entry e] else es);
          occupied = (opt_occupied e \<and> \<not> opt_expired now e)
      in if \<not> occupied
         then opt_probe epoch datagram_id now base left (i + 1)
                (case empty_idx of None \<Rightarrow> Some idx | Some _ \<Rightarrow> empty_idx) oldest es'
         else if e_epoch e = epoch \<and> e_datagram_id e = datagram_id then (idx, es')
         else
           let age = now - e_timestamp_ns e
           in opt_probe epoch datagram_id now base left (i + 1) empty_idx
                (case oldest of
                   None \<Rightarrow> Some (idx, age)
                 | Some (k, oldest_age) \<Rightarrow> if oldest_age < age then Some (idx, age) else oldest) es')"

definition opt_base :: "u32 \<Rightarrow> u32 \<Rightarrow> nat" where
  "opt_base epoch datagram_id =
     unat (datagram_id XOR (epoch * 0x9e3779b9)) mod L2_FRAG_TABLE_SIZE"

definition opt_pick_slot :: "opt_table \<Rightarrow> u32 \<Rightarrow> u32 \<Rightarrow> u64 \<Rightarrow> nat \<times> opt_table" where
  "opt_pick_slot ft epoch datagram_id now =
     (let (idx, es) = opt_probe epoch datagram_id now (opt_base epoch datagram_id) 8 0 None None
                        (entries ft)
      in (idx, ft\<lparr>entries := es\<rparr>))"

text \<open>The stores return the entry and an outcome; a rejected length leaves the entry as it is.\<close>

definition opt_store_first ::
  "opt_entry \<Rightarrow> u32 \<Rightarrow> u32 \<Rightarrow> u32 \<Rightarrow> bytes \<Rightarrow> nat \<Rightarrow> bytes \<Rightarrow> u64 \<Rightarrow> opt_entry cres" where
  "opt_store_first entry epoch datagram_id udp_seq eth eth_len data now =
     (if NE_JUMBO_FRAME_MAX < length data then Fail
      else if eth_len = 0 \<or> ETH_L2_HDR_MAX < eth_len then Fail
      else
        let e = opt_prepare_entry entry epoch datagram_id udp_seq now in
        cbind (mem_write (e_first e) 0 data) (\<lambda>f.
        cbind (mem_write (e_eth_hdr e) 0 (take eth_len eth)) (\<lambda>h.
        Done (e\<lparr>e_first_len := length data, e_first := f, e_eth_hdr := h, e_eth_len := eth_len,
                e_got_first := True\<rparr>))))"

definition opt_store_second ::
  "opt_entry \<Rightarrow> u32 \<Rightarrow> u32 \<Rightarrow> u32 \<Rightarrow> bytes \<Rightarrow> u64 \<Rightarrow> opt_entry cres" where
  "opt_store_second entry epoch datagram_id udp_seq data now =
     (if NE_JUMBO_FRAME_MAX < length data then Fail
      else
        let e = opt_prepare_entry entry epoch datagram_id udp_seq now in
        cbind (mem_write (e_second e) 0 data) (\<lambda>s.
        Done (e\<lparr>e_second_len := length data, e_second := s, e_got_second := True\<rparr>)))"

text \<open>\<open>Done None\<close> is the C result 0 (a half is missing), \<open>Done (Some (out, n))\<close> the result 1.\<close>

definition opt_emit_join ::
  "opt_entry \<Rightarrow> bytes \<Rightarrow> (bytes \<times> nat) option cres \<times> opt_entry" where
  "opt_emit_join entry out_buf =
     (if \<not> e_got_first entry \<or> \<not> e_got_second entry then (Done None, entry)
      else
        let eth_len = (if e_eth_len entry \<noteq> 0 then e_eth_len entry else ETH_HEADER_SIZE) in
        if NE_JUMBO_FRAME_MAX < e_first_len entry + e_second_len entry + eth_len
        then (Fail, opt_clear_entry entry)
        else
          mem_then (mem_write out_buf 0 (take eth_len (e_eth_hdr entry))) entry (\<lambda>o1.
          mem_then (mem_write o1 eth_len (take (e_first_len entry) (e_first entry))) entry (\<lambda>o2.
          let off = eth_len + e_first_len entry in
          mem_then (if 0 < e_second_len entry
                    then mem_write o2 off (take (e_second_len entry) (e_second entry)) else Done o2)
            entry (\<lambda>o3.
          let out_len = off + e_second_len entry;
              o4 = (if 2 \<le> eth_len then crypto_eth_set_ipv4_et o3 (eth_len - 2) else o3)
          in (Done (Some (o4, out_len)), opt_clear_entry entry)))))"

definition opt_frag_gc_table :: "opt_table \<Rightarrow> u64 \<Rightarrow> opt_table" where
  "opt_frag_gc_table ft now_ns =
     (let start = gc_cursor ft;
          es = fold (\<lambda>n es.
                 let i = unat (start + of_nat n) mod L2_FRAG_TABLE_SIZE;
                     e = es ! i
                 in if opt_occupied e \<and> opt_expired now_ns e then es[i := opt_clear_entry e] else es)
               [0..<256] (entries ft)
      in ft\<lparr>entries := es, gc_cursor := (start + 256) mod 256\<rparr>)"

definition zero_entry :: opt_entry where
  "zero_entry = \<lparr>e_epoch = 0, e_datagram_id = 0, e_udp_seq = 0, e_first_len = 0, e_second_len = 0,
     e_timestamp_ns = 0, e_eth_hdr = replicate ETH_L2_HDR_MAX 0, e_eth_len = 0, e_got_first = False,
     e_got_second = False, e_first = replicate NE_JUMBO_FRAME_MAX 0,
     e_second = replicate NE_JUMBO_FRAME_MAX 0\<rparr>"

definition zero_table :: opt_table where
  "zero_table = \<lparr>gc_cursor = 0, entries = replicate L2_FRAG_TABLE_SIZE zero_entry\<rparr>"

text \<open>\<^verbatim>\<open>g_tables\<close> is a function of the worker index; \<open>calloc_ok\<close> says whether \<^verbatim>\<open>calloc\<close> returns memory.\<close>

definition opt_table_idx :: "int \<Rightarrow> nat" where
  "opt_table_idx worker_idx =
     (if worker_idx < 0 \<or> int NE_CRYPTO_WORKERS \<le> worker_idx then 0 else nat worker_idx)"

definition opt_table_get ::
  "bool \<Rightarrow> int \<Rightarrow> bool \<Rightarrow> (nat \<Rightarrow> opt_table option) \<Rightarrow> opt_table option \<times> (nat \<Rightarrow> opt_table option)" where
  "opt_table_get calloc_ok worker_idx create g_tables =
     (let w = opt_table_idx worker_idx in
      case g_tables w of
        Some t \<Rightarrow> (Some t, g_tables)
      | None \<Rightarrow>
          if create \<and> calloc_ok then (Some zero_table, g_tables(w := Some zero_table))
          else (None, g_tables))"

section \<open>Splitting\<close>

definition l2_encrypt_fragment_single ::
  "'c scrypt_api \<Rightarrow> packet_crypto_ctx \<Rightarrow> bytes \<Rightarrow> bytes \<Rightarrow> u32 \<Rightarrow> u32 \<Rightarrow> u32 \<Rightarrow> u8 \<Rightarrow> bytes \<Rightarrow> nat
   \<Rightarrow> nat \<Rightarrow> l2_state \<Rightarrow> (bytes \<times> nat) cres \<times> l2_state" where
  "l2_encrypt_fragment_single lib ctx eth_hdr enc_plain epoch seq datagram_id frag_index out_buf out_max
     et_off st =
     (let magic_off = et_off + 2 + L2_CORE_ID_LEN + L2_NONCE_SIZE;
          enc_off = magic_off + L2_UDP_MARKER_SIZE;
          plain_len = L2_UDP_SHIM_SIZE + length enc_plain;
          need = enc_off + plain_len + AES_GCM_TAG_SIZE in
      if out_max < need then (Fail, st) else
      mem_then (mem_write out_buf 0 (take et_off eth_hdr)) st (\<lambda>b0.
      case crypto_pqc_sess_load ctx of
        None \<Rightarrow> (Fail, st)
      | Some key \<Rightarrow>
          (case crypto_pqc_generate_nonce lib st of
             (None, st1) \<Rightarrow> (Fail, st1)
           | (Some nonce, st1) \<Rightarrow>
               mem_then (mem_write b0 (enc_off + L2_UDP_SHIM_SIZE) enc_plain) st1 (\<lambda>b1.
               mem_then (l2_udp_write_shim b1 enc_off frag_index epoch seq datagram_id) st1 (\<lambda>b2.
               mem_then (l2_write_wire_header_et st1 b2 et_off NE_L2_FAKE_ETHERTYPE_UDP nonce) st1 (\<lambda>b3.
               mem_then (l2_udp_marker_write b3 magic_off) st1 (\<lambda>b4.
               case crypto_pqc_encrypt_payload lib key nonce b4 enc_off plain_len st1 of
                 (r, st2) \<Rightarrow>
                   mem_then r st2 (\<lambda>(b5, new_len). (Done (b5, enc_off + new_len), st2)))))))))"

definition l2_encrypt_fragment0_inplace ::
  "'c scrypt_api \<Rightarrow> packet_crypto_ctx \<Rightarrow> bytes \<Rightarrow> nat \<Rightarrow> u32 \<Rightarrow> u32 \<Rightarrow> u32 \<Rightarrow> nat \<Rightarrow> nat \<Rightarrow> nat
   \<Rightarrow> l2_state \<Rightarrow> (bytes \<times> nat) cres \<times> l2_state" where
  "l2_encrypt_fragment0_inplace lib ctx packet frag0_plain_len epoch seq datagram_id out_max et_off
     l3_off st =
     (let magic_off = et_off + 2 + L2_CORE_ID_LEN + L2_NONCE_SIZE;
          enc_off = magic_off + L2_UDP_MARKER_SIZE;
          plain_len = L2_UDP_SHIM_SIZE + frag0_plain_len;
          need = enc_off + plain_len + AES_GCM_TAG_SIZE in
      if out_max < need then (Fail, st) else
      mem_then (mem_move packet (enc_off + L2_UDP_SHIM_SIZE) l3_off frag0_plain_len) st (\<lambda>p1.
      mem_then (l2_udp_write_shim p1 enc_off L2_UDP_KIND_FRAG0 epoch seq datagram_id) st (\<lambda>p2.
      case crypto_pqc_sess_load ctx of
        None \<Rightarrow> (Fail, st)
      | Some key \<Rightarrow>
          (case crypto_pqc_generate_nonce lib st of
             (None, st1) \<Rightarrow> (Fail, st1)
           | (Some nonce, st1) \<Rightarrow>
               mem_then (l2_write_wire_header_et st1 p2 et_off NE_L2_FAKE_ETHERTYPE_UDP nonce) st1 (\<lambda>p3.
               mem_then (l2_udp_marker_write p3 magic_off) st1 (\<lambda>p4.
               case crypto_pqc_encrypt_payload lib key nonce p4 enc_off plain_len st1 of
                 (r, st2) \<Rightarrow>
                   mem_then r st2 (\<lambda>(p5, new_len). (Done (p5, enc_off + new_len), st2))))))))"

text \<open>The sizes \<^verbatim>\<open>l2_split\<close> computes from the IP header: \<open>(ip_hdr_len, half1, half2)\<close>, or \<open>None\<close> where
  it returns before anything is written.\<close>

definition l2_split_sizes :: "bytes \<Rightarrow> nat \<Rightarrow> nat \<Rightarrow> (nat \<times> nat \<times> nat) option" where
  "l2_split_sizes pkt_data pkt_len l3_off =
     (let frag_mtu = ETH_HEADER_SIZE + L2_CRYPTO_MTU;
          b0 = pkt_data ! l3_off;
          ip_hdr_len = unat (b0 AND 0x0F) * 4 in
      if drop_bit 4 b0 \<noteq> 4 \<or> ip_hdr_len < 20 \<or> pkt_len < l3_off + ip_hdr_len then None else
      let ip_proto = pkt_data ! (l3_off + 9);
          ip_payload_len = pkt_len - l3_off - ip_hdr_len in
      if ip_proto \<noteq> 17 \<and> ip_proto \<noteq> 1 then None else
      if ip_payload_len < 8 then None else
      let app_len = ip_payload_len - 8 in
      if app_len = 0 then None else
      let frag_overhead = l3_off + OPT_FRAG_META_LEN in
      if frag_mtu \<le> frag_overhead then None else
      let max_plain0 = frag_mtu - frag_overhead;
          fixed_plain0 = ip_hdr_len + 8 in
      if max_plain0 \<le> fixed_plain0 then None else
      let half1 = max_plain0 - fixed_plain0;
          half1 = (if app_len \<le> half1 then app_len - 1 else half1)
      in Some (ip_hdr_len, half1, app_len - half1))"

text \<open>The result is fragment 0 in the packet's own buffer and fragment 1 in the second buffer, each with
  its length. A missing L2 prefix would make C copy \<^verbatim>\<open>(size_t)-1\<close> bytes; it is a \<open>Fault\<close> here.\<close>

definition l2_split ::
  "os_env \<Rightarrow> 'c scrypt_api \<Rightarrow> packet_crypto_ctx \<Rightarrow> bytes \<Rightarrow> nat \<Rightarrow> nat \<Rightarrow> bytes \<Rightarrow> nat \<Rightarrow> l2_state
   \<Rightarrow> ((bytes \<times> nat) \<times> (bytes \<times> nat)) cres \<times> l2_state" where
  "l2_split os lib ctx pkt_data pkt_len frag0_max frag1 frag1_max st =
     (case crypto_eth_ipv4_offset pkt_data pkt_len of
        None \<Rightarrow> (Fail, st)
      | Some l3_off \<Rightarrow>
          (case l2_split_sizes pkt_data pkt_len l3_off of
             None \<Rightarrow> (Fail, st)
           | Some (ip_hdr_len, half1, half2) \<Rightarrow>
               (case l2_crypto_udp_tx_meta os st of
                  (None, st1) \<Rightarrow> (Fail, st1)
                | (Some (epoch, seq, datagram_id), st1) \<Rightarrow>
                    let frag0_plain_len = ip_hdr_len + 8 + half1;
                        frag1_plain = mem_read pkt_data (l3_off + ip_hdr_len + 8 + half1) half2 in
                    (case crypto_eth_l2_prefix_len pkt_data ETH_L2_HDR_MAX of
                       None \<Rightarrow> (Fault, st1)
                     | Some et_off1 \<Rightarrow>
                         (case l2_encrypt_fragment_single lib ctx pkt_data frag1_plain epoch seq
                                 datagram_id L2_UDP_KIND_FRAG1 frag1 frag1_max et_off1 st1 of
                            (r1, st2) \<Rightarrow>
                              mem_then r1 st2 (\<lambda>f1.
                              case crypto_eth_l2_prefix_len pkt_data pkt_len of
                                None \<Rightarrow> (Fault, st2)
                              | Some et_off0 \<Rightarrow>
                                  (case l2_encrypt_fragment0_inplace lib ctx pkt_data frag0_plain_len
                                          epoch seq datagram_id frag0_max et_off0 l3_off st2 of
                                     (r0, st3) \<Rightarrow>
                                       mem_then r0 st3 (\<lambda>f0. (Done (f0, f1), st3)))))))))"

definition l2_udp_split ::
  "os_env \<Rightarrow> 'c scrypt_api \<Rightarrow> packet_crypto_ctx \<Rightarrow> bytes \<Rightarrow> nat \<Rightarrow> nat \<Rightarrow> bytes \<Rightarrow> nat \<Rightarrow> l2_state
   \<Rightarrow> ((bytes \<times> nat) \<times> (bytes \<times> nat)) cres \<times> l2_state" where
  "l2_udp_split os lib ctx pkt_data pkt_len frag0_max frag1 frag1_max st =
     l2_split os lib ctx pkt_data pkt_len frag0_max frag1 frag1_max st"

definition l2_crypto_split_udp ::
  "os_env \<Rightarrow> 'c scrypt_api \<Rightarrow> packet_crypto_ctx \<Rightarrow> bytes \<Rightarrow> nat \<Rightarrow> nat \<Rightarrow> bytes \<Rightarrow> nat \<Rightarrow> l2_state
   \<Rightarrow> ((bytes \<times> nat) \<times> (bytes \<times> nat)) cres \<times> l2_state" where
  "l2_crypto_split_udp os lib ctx packet packet_len first_max second second_max st =
     l2_udp_split os lib ctx packet packet_len first_max second second_max st"

section \<open>Reassembly\<close>

text \<open>\<open>now\<close> is the monotonic clock at the call (\<^verbatim>\<open>opt_time_ns\<close>).\<close>

definition l2_reassemble ::
  "opt_table \<Rightarrow> bytes \<Rightarrow> nat \<Rightarrow> u32 \<Rightarrow> u32 \<Rightarrow> u32 \<Rightarrow> u8 \<Rightarrow> bytes \<Rightarrow> u64
   \<Rightarrow> (bytes \<times> nat) option cres \<times> opt_table" where
  "l2_reassemble ft pkt_data pkt_len epoch datagram_id udp_seq frag_index out_buf now =
     (case l2_wire_prefix_len pkt_data pkt_len of
        None \<Rightarrow> (Fail, ft)
      | Some wire_eth \<Rightarrow>
          if ETH_L2_HDR_MAX < wire_eth then (Fail, ft) else
          if pkt_len < wire_eth then (Fail, ft) else
          let inner_len = pkt_len - wire_eth;
              inner = mem_read pkt_data wire_eth inner_len;
              (idx, ft1) = opt_pick_slot ft epoch datagram_id now;
              entry = entries ft1 ! idx;
              put = (\<lambda>e. ft1\<lparr>entries := (entries ft1)[idx := e]\<rparr>) in
          if frag_index = L2_UDP_KIND_FRAG0 then
            if inner_len < 20 \<or> drop_bit 4 (inner ! 0) \<noteq> 4 then (Fail, ft1) else
            let ip_hdr_len = unat (inner ! 0 AND 0x0F) * 4 in
            if ip_hdr_len < 20 \<or> inner_len < ip_hdr_len then (Fail, ft1) else
            mem_then (opt_store_first entry epoch datagram_id udp_seq (take wire_eth pkt_data) wire_eth
                        inner now) ft1 (\<lambda>e1.
            let (r, e2) = opt_emit_join e1 out_buf in (r, put e2))
          else if frag_index = L2_UDP_KIND_FRAG1 then
            let entry1 = (if opt_occupied entry \<and> e_epoch entry = epoch \<and>
                             e_datagram_id entry = datagram_id \<and> opt_expired now entry
                          then opt_clear_entry entry else entry) in
            mem_then (opt_store_second entry1 epoch datagram_id udp_seq inner now) (put entry1) (\<lambda>e1.
            let (r, e2) = opt_emit_join e1 out_buf in (r, put e2))
          else (Fail, ft1))"

text \<open>The state of reassembly one worker sees: its crypto state and \<^verbatim>\<open>g_tables\<close>. The result is the
  output buffer's packet (C result 1), \<open>None\<close> for a stored first half (result 0).\<close>

definition l2_udp_reasm ::
  "bool \<Rightarrow> 'c scrypt_api \<Rightarrow> int \<Rightarrow> packet_crypto_ctx \<Rightarrow> bytes \<Rightarrow> nat \<Rightarrow> bytes \<Rightarrow> u64
   \<Rightarrow> l2_state \<times> (nat \<Rightarrow> opt_table option)
   \<Rightarrow> (bytes \<times> nat) option cres \<times> (l2_state \<times> (nat \<Rightarrow> opt_table option))" where
  "l2_udp_reasm calloc_ok lib worker_idx ctx pkt_data pkt_len out_buf now s =
     (case s of (st, g_tables) \<Rightarrow>
      (case l2_do_decrypt_udp lib ctx pkt_data pkt_len st of
         (r, st1) \<Rightarrow>
           mem_then r (st1, g_tables) (\<lambda>(p, nd, kind, epoch, seq, datagram_id).
           if kind = L2_UDP_KIND_FULL then
             (if \<not> crypto_pkt_is_ipv4 p nd then (Fail, (st1, g_tables))
              else mem_then (mem_write out_buf 0 (take nd p)) (st1, g_tables) (\<lambda>out.
                (Done (Some (out, nd)), (st1, g_tables))))
           else if L2_UDP_KIND_FRAG1 < kind then (Fail, (st1, g_tables))
           else
             (case opt_table_get calloc_ok worker_idx True g_tables of
                (None, g1) \<Rightarrow> (Fail, (st1, g1))
              | (Some ft, g1) \<Rightarrow>
                  (case l2_reassemble ft p nd epoch datagram_id seq kind out_buf now of
                     (rr, ft') \<Rightarrow>
                       (rr, (st1, g1(opt_table_idx worker_idx := Some ft'))))))))"

definition l2_crypto_reassemble_udp ::
  "bool \<Rightarrow> 'c scrypt_api \<Rightarrow> int \<Rightarrow> packet_crypto_ctx \<Rightarrow> bytes \<Rightarrow> nat \<Rightarrow> bytes \<Rightarrow> u64
   \<Rightarrow> l2_state \<times> (nat \<Rightarrow> opt_table option)
   \<Rightarrow> (bytes \<times> nat) option cres \<times> (l2_state \<times> (nat \<Rightarrow> opt_table option))" where
  "l2_crypto_reassemble_udp calloc_ok lib worker_idx ctx packet packet_len output now s =
     l2_udp_reasm calloc_ok lib worker_idx ctx packet packet_len output now s"

definition l2_udp_frag_gc :: "int \<Rightarrow> u64 \<Rightarrow> (nat \<Rightarrow> opt_table option) \<Rightarrow> (nat \<Rightarrow> opt_table option)" where
  "l2_udp_frag_gc worker_idx now_ns g_tables =
     (case opt_table_get True worker_idx False g_tables of
        (None, g) \<Rightarrow> g
      | (Some ft, g) \<Rightarrow> g(opt_table_idx worker_idx := Some (opt_frag_gc_table ft now_ns)))"

definition l2_crypto_frag_gc :: "int \<Rightarrow> u64 \<Rightarrow> (nat \<Rightarrow> opt_table option) \<Rightarrow> (nat \<Rightarrow> opt_table option)" where
  "l2_crypto_frag_gc worker_idx now_ns g_tables = l2_udp_frag_gc worker_idx now_ns g_tables"

section \<open>Slot choice\<close>

text \<open>\<open>live\<close>: a half is stored and has not timed out. Probing only clears entries that are not live.\<close>

definition live :: "u64 \<Rightarrow> opt_entry \<Rightarrow> bool" where
  "live now e \<longleftrightarrow> opt_occupied e \<and> \<not> opt_expired now e"

definition key_live :: "u32 \<Rightarrow> u32 \<Rightarrow> u64 \<Rightarrow> opt_entry \<Rightarrow> bool" where
  "key_live epoch did now e \<longleftrightarrow> live now e \<and> e_epoch e = epoch \<and> e_datagram_id e = did"

definition age :: "u64 \<Rightarrow> opt_entry \<Rightarrow> u64" where "age now e = now - e_timestamp_ns e"

definition purged :: "u64 \<Rightarrow> opt_entry list \<Rightarrow> opt_entry list \<Rightarrow> bool" where
  "purged now es es' \<longleftrightarrow> length es' = length es \<and>
     (\<forall>k<length es. es' ! k = es ! k \<or> (\<not> live now (es ! k) \<and> es' ! k = opt_clear_entry (es ! k)))"

definition probe_window :: "nat \<Rightarrow> nat \<Rightarrow> nat set" where
  "probe_window base n = (\<lambda>j. (base + j) mod L2_FRAG_TABLE_SIZE) ` {..<n}"

lemma clear_not_live [simp]: "\<not> opt_occupied (opt_clear_entry e)" "\<not> live now (opt_clear_entry e)"
  by (simp_all add: live_def opt_occupied_def opt_clear_entry_def)

lemma purged_refl [simp]: "purged now es es"
  by (simp add: purged_def)

lemma purged_live:
  assumes "purged now es es'" "k < length es"
  shows "live now (es' ! k) \<longleftrightarrow> live now (es ! k)" "live now (es ! k) \<Longrightarrow> es' ! k = es ! k"
  using assms unfolding purged_def by (metis clear_not_live(2))+

lemma purged_step:
  assumes "purged now es es'" "k < length es" "\<not> live now (es ! k)"
  shows "purged now es (es'[k := opt_clear_entry (es' ! k)])"
proof -
  have "opt_clear_entry (es' ! k) = opt_clear_entry (es ! k)"
    using assms by (auto simp: purged_def opt_clear_entry_def)
  then show ?thesis using assms by (auto simp: purged_def nth_list_update)
qed

lemma window_Suc: "probe_window base (Suc n) = insert ((base + n) mod L2_FRAG_TABLE_SIZE) (probe_window base n)"
  by (auto simp: probe_window_def lessThan_Suc)

lemma window_0 [simp]: "probe_window base 0 = {}"
  by (simp add: probe_window_def)

lemma window_bound: "k \<in> probe_window base n \<Longrightarrow> k < 256"
  by (auto simp: probe_window_def L2_FRAG_TABLE_SIZE_def)

lemma window_mono: "m \<le> n \<Longrightarrow> probe_window base m \<subseteq> probe_window base n"
  by (auto simp: probe_window_def)

text \<open>What the loop knows after \<open>i\<close> probes of the table \<open>es\<close>.\<close>

definition probe_inv ::
  "u32 \<Rightarrow> u32 \<Rightarrow> u64 \<Rightarrow> nat \<Rightarrow> opt_entry list \<Rightarrow> nat \<Rightarrow> nat option \<Rightarrow> (nat \<times> u64) option \<Rightarrow> bool" where
  "probe_inv epoch did now base es i free oldest \<longleftrightarrow>
     (\<forall>k\<in>probe_window base i. \<not> key_live epoch did now (es ! k)) \<and>
     (case free of
        Some k \<Rightarrow> k \<in> probe_window base i \<and> \<not> live now (es ! k)
      | None \<Rightarrow> \<forall>k\<in>probe_window base i. live now (es ! k)) \<and>
     (case oldest of
        Some (k, a) \<Rightarrow> k \<in> probe_window base i \<and> live now (es ! k) \<and> a = age now (es ! k) \<and>
          (\<forall>k'\<in>probe_window base i. live now (es ! k') \<longrightarrow> age now (es ! k') \<le> a)
      | None \<Rightarrow> \<forall>k\<in>probe_window base i. \<not> live now (es ! k))"

definition slot_ok :: "u32 \<Rightarrow> u32 \<Rightarrow> u64 \<Rightarrow> nat set \<Rightarrow> opt_entry list \<Rightarrow> nat \<Rightarrow> bool" where
  "slot_ok epoch did now W es idx \<longleftrightarrow> idx \<in> W \<and>
     (if \<exists>k\<in>W. key_live epoch did now (es ! k) then key_live epoch did now (es ! idx)
      else if \<exists>k\<in>W. \<not> live now (es ! k) then \<not> live now (es ! idx)
      else \<forall>k\<in>W. age now (es ! k) \<le> age now (es ! idx))"

lemma opt_probe_spec:
  assumes "length es0 = 256" "purged now es0 es" "0 < i + left"
    and "probe_inv epoch did now base es0 i free oldest"
    and "opt_probe epoch did now base left i free oldest es = (idx, es')"
  shows "purged now es0 es' \<and> slot_ok epoch did now (probe_window base (i + left)) es0 idx"
  using assms(2-)
proof (induction left arbitrary: i free oldest es)
  case 0
  then have "probe_window base i \<noteq> {}" by (auto simp: probe_window_def)
  with 0 show ?case
    by (auto simp: probe_inv_def slot_ok_def split: option.splits prod.splits)
next
  case (Suc left)
  let ?k = "(base + i) mod L2_FRAG_TABLE_SIZE"
  let ?e = "es ! ?k"
  let ?es = "if opt_occupied ?e \<and> opt_expired now ?e then es[?k := opt_clear_entry ?e] else es"
  have k: "?k < length es0" by (simp add: assms(1) L2_FRAG_TABLE_SIZE_def)
  note lv = purged_live [OF Suc.prems(1) k]
  have W: "probe_window base (i + Suc left) = probe_window base (Suc i + left)" by simp
  have pg: "purged now es0 ?es"
  proof (cases "opt_occupied ?e \<and> opt_expired now ?e")
    case True
    then have "\<not> live now (es0 ! ?k)" using lv(1) by (simp add: live_def)
    then show ?thesis using purged_step [OF Suc.prems(1) k] True by simp
  qed (use Suc.prems in auto)
  show ?case
  proof (cases "live now ?e")
    case False
    let ?free = "case free of None \<Rightarrow> Some ?k | Some _ \<Rightarrow> free"
    have inv: "probe_inv epoch did now base es0 (Suc i) ?free oldest"
      using Suc.prems(3) False lv by (auto simp: probe_inv_def window_Suc key_live_def split: option.splits)
    have eq: "opt_probe epoch did now base left (Suc i) ?free oldest ?es = (idx, es')"
      using Suc.prems(4) False by (auto simp: Let_def live_def split: if_splits)
    show ?thesis unfolding W by (rule Suc.IH [OF pg _ inv eq]) simp
  next
    case True
    then have e: "?e = es0 ! ?k" using lv by simp
    show ?thesis
    proof (cases "e_epoch ?e = epoch \<and> e_datagram_id ?e = did")
      case key: True
      then have "idx = ?k" "es' = es" using Suc.prems(4) True by (auto simp: Let_def live_def)
      moreover have "?k \<in> probe_window base (i + Suc left)" by (auto simp: probe_window_def)
      moreover have "key_live epoch did now (es0 ! ?k)" using key True e by (simp add: key_live_def)
      ultimately show ?thesis using Suc.prems(1) by (auto simp: slot_ok_def)
    next
      case key: False
      let ?old = "case oldest of None \<Rightarrow> Some (?k, now - e_timestamp_ns ?e)
         | Some (k, a) \<Rightarrow> if a < now - e_timestamp_ns ?e then Some (?k, now - e_timestamp_ns ?e) else oldest"
      have inv: "probe_inv epoch did now base es0 (Suc i) free ?old"
        using Suc.prems(3) True key e
        by (auto simp: probe_inv_def window_Suc key_live_def age_def split: option.splits if_splits)
      have eq: "opt_probe epoch did now base left (Suc i) free ?old ?es = (idx, es')"
        using Suc.prems(4) True key by (auto simp: Let_def live_def split: if_splits)
      show ?thesis unfolding W by (rule Suc.IH [OF pg _ inv eq]) simp
    qed
  qed
qed

lemma probe_inv_start: "probe_inv epoch did now base es 0 None None"
  by (simp add: probe_inv_def)

lemma pick_slot_facts:
  assumes "length (entries ft) = 256" and "opt_pick_slot ft epoch did now = (idx, ft')"
  shows "purged now (entries ft) (entries ft') \<and>
    slot_ok epoch did now (probe_window (opt_base epoch did) 8) (entries ft) idx"
proof -
  obtain es' where "opt_probe epoch did now (opt_base epoch did) 8 0 None None (entries ft) = (idx, es')"
    "ft' = ft\<lparr>entries := es'\<rparr>"
    using assms(2) by (auto simp: opt_pick_slot_def split: prod.splits)
  then show ?thesis
    using opt_probe_spec [OF assms(1) purged_refl _ probe_inv_start, where left = 8] by auto
qed

text \<open>The slot chosen for a fragment lies in its window of eight probes. If a live half of the same
  (epoch, datagram id) is in the window the choice is such an entry; otherwise a live entry is
  given up only if all eight are live, and then it is the oldest. Nothing but timed-out entries
  is cleared on the way.\<close>
theorem opt_pick_slot_spec:
  assumes "length (entries ft) = 256" and "opt_pick_slot ft epoch did now = (idx, ft')"
  shows "purged now (entries ft) (entries ft') \<and>
    slot_ok epoch did now (probe_window (opt_base epoch did) 8) (entries ft) idx"
  by (rule pick_slot_facts [OF assms])

theorem opt_pick_slot_spec_witness:
  "slot_ok 1 2 3 (probe_window (opt_base 1 2) 8) (entries zero_table) (fst (opt_pick_slot zero_table 1 2 3))"
  using opt_pick_slot_spec [of zero_table 1 2 3 "fst (opt_pick_slot zero_table 1 2 3)"
      "snd (opt_pick_slot zero_table 1 2 3)"]
  by (simp add: zero_table_def L2_FRAG_TABLE_SIZE_def)

section \<open>Garbage collection\<close>

definition gc_entry :: "u64 \<Rightarrow> opt_entry \<Rightarrow> opt_entry" where
  "gc_entry now e = (if opt_occupied e \<and> opt_expired now e then opt_clear_entry e else e)"

lemma gc_entry_idem [simp]: "gc_entry now (gc_entry now e) = gc_entry now e"
  by (simp add: gc_entry_def)

lemma fold_gc_nth:
  assumes "\<forall>n\<in>set ns. g n < length es"
  shows "length (fold (\<lambda>n es. es[g n := gc_entry now (es ! g n)]) ns es) = length es \<and>
    (\<forall>k<length es. fold (\<lambda>n es. es[g n := gc_entry now (es ! g n)]) ns es ! k =
       (if k \<in> g ` set ns then gc_entry now (es ! k) else es ! k))"
  using assms by (induction ns arbitrary: es) (auto simp: nth_list_update)

lemma gc_index_mod: "unat (start + of_nat n :: u32) mod 256 = (unat start + n) mod 256"
proof -
  have "unat (start + of_nat n :: u32) = (unat start + n) mod 2 ^ 32"
    by (simp add: unat_word_ariths unat_of_nat mod_simps)
  moreover have "(256 :: nat) dvd 2 ^ 32" by simp
  ultimately show ?thesis by (simp only: mod_mod_cancel)
qed

lemma gc_index_onto: "k < 256 \<Longrightarrow> \<exists>n<256. unat (start + of_nat n :: u32) mod 256 = k"
proof -
  assume k: "k < 256"
  let ?s = "unat start mod 256"
  have s: "?s < 256" by simp
  have "(unat start + (k + (256 - ?s)) mod 256) mod 256 = (?s + (k + (256 - ?s))) mod 256"
    by (simp only: mod_add_left_eq mod_add_right_eq)
  also have "?s + (k + (256 - ?s)) = k + 256" using s by linarith
  finally have "(unat start + (k + (256 - ?s)) mod 256) mod 256 = k" using k by simp
  then show ?thesis unfolding gc_index_mod
    by (intro exI [of _ "(k + (256 - ?s)) mod 256"]) simp
qed

text \<open>One garbage-collection pass over a worker's table clears exactly the half-received datagrams older
  than 200 ms, wherever the cursor stands, and leaves every other entry untouched.\<close>
theorem frag_gc_exact:
  assumes "length (entries ft) = 256"
  shows "entries (opt_frag_gc_table ft now) =
    map (\<lambda>e. if opt_occupied e \<and> opt_expired now e then opt_clear_entry e else e) (entries ft)"
proof -
  define g where "g n = unat (gc_cursor ft + of_nat n) mod 256" for n
  have "entries (opt_frag_gc_table ft now) =
      fold (\<lambda>n es. es[g n := gc_entry now (es ! g n)]) [0..<256] (entries ft)" (is "_ = ?f")
  proof -
    have "(if opt_occupied (es ! i) \<and> opt_expired now (es ! i) then es[i := opt_clear_entry (es ! i)] else es)
        = es[i := gc_entry now (es ! i)]" for es i
      by (simp add: gc_entry_def)
    then show ?thesis by (simp add: opt_frag_gc_table_def Let_def g_def L2_FRAG_TABLE_SIZE_def)
  qed
  moreover have "length ?f = 256 \<and> (\<forall>k<256. ?f ! k = (if k \<in> g ` {0..<256} then gc_entry now (entries ft ! k) else entries ft ! k))"
    using fold_gc_nth [of "[0..<256]" g "entries ft" now] assms by (simp add: g_def)
  moreover have "k \<in> g ` {0..<256}" if "k < 256" for k
    using gc_index_onto [OF that, of "gc_cursor ft"] by (force simp: g_def)
  ultimately show ?thesis
    using assms by (intro nth_equalityI) (auto simp: gc_entry_def)
qed

theorem frag_gc_exact_witness:
  "entries (opt_frag_gc_table zero_table 5) = entries zero_table"
  using frag_gc_exact [of zero_table 5]
  by (simp add: zero_table_def L2_FRAG_TABLE_SIZE_def opt_occupied_def zero_entry_def)

end
