(* ===== verification/L2_Reasm.thy ===== *)
theory L2_Reasm
  imports L2_Frag
begin

unbundle bit_operations_syntax

text \<open>
  Correctness of splitting and reassembly: \<^verbatim>\<open>l2_split\<close> produces two UDP frames that fit the MTU,
  and a receiver whose table holds nothing for the datagram joins them, in either order of
  arrival, to the original packet.
\<close>

section \<open>Fragments are UDP frames\<close>

lemma take_three: "take k xs @ take l (drop k xs) @ drop (k + l) xs = xs"
  by (metis add.commute append_take_drop_id drop_drop)

lemma fragment_single_ok:
  assumes laws: "aead_laws lib" "ctx_ok ctx" and st: "trf_ok st"
    and m: "length m = 12" "take 12 hdr = m" and buf: "60 + length l3 \<le> length buf" "60 + length l3 \<le> mx"
  obtains nonce st' rest where "length nonce = 12" "trf_ok st'"
    "g_worker_idx st' = g_worker_idx st" "length rest + (60 + length l3) = length buf"
    "l2_encrypt_fragment_single lib ctx hdr l3 e s d k buf mx 12 st =
      (Done (udp_wire lib (ctx_key ctx) (g_worker_idx st) nonce m (k, e, s, d) l3 @ rest,
             length l3 + 60), st')"
proof -
  obtain nonce st1 where g: "crypto_pqc_generate_nonce lib st = (Some nonce, st1)" "length nonce = 12"
    "trf_ok st1" "trf_state.more st1 = trf_state.more st"
    using generate_nonce_ok [OF laws(1) st] by blast
  note w = worker_more [OF g(4)]
  obtain a b c where abc: "take 32 (drop 12 buf) = a @ b @ c" "length a = 15" "length b = 4" "length c = 13"
    by (rule split_15_4_13 [of "take 32 (drop 12 buf)"]) (use buf in auto)
  let ?r = "drop (44 + length l3) buf"
  have b0: "mem_write buf 0 (take 12 hdr) = Done (m @ drop 12 buf)"
    using m buf by (simp add: mem_write_def)
  have b1: "mem_write (m @ drop 12 buf) 44 l3 = Done (m @ a @ b @ c @ l3 @ ?r)"
  proof -
    have "drop 12 buf = (a @ b @ c) @ take (length l3) (drop 44 buf) @ ?r"
      using take_three [of 32 "drop 12 buf" "length l3"] unfolding abc(1) by (simp add: add.commute)
    moreover have "length (take (length l3) (drop 44 buf)) = length l3" using buf by simp
    ultimately show ?thesis
      using mem_write_mid [of "m @ a @ b @ c" 44 l3 "take (length l3) (drop 44 buf)" ?r] m abc by simp
  qed
  obtain st2 where e: "trf_ok st2" "trf_state.more st2 = trf_state.more st1"
    "crypto_pqc_encrypt_payload lib (ctx_key ctx) nonce (m @ ([0x10, 0x4B, g_worker_idx st] @ nonce)
        @ l2_udp_marker @ l2_udp_shim k e s d @ l3 @ ?r) 31 (13 + length l3) st1 =
     (Done (udp_wire lib (ctx_key ctx) (g_worker_idx st) nonce m (k, e, s, d) l3 @ drop 16 ?r,
            13 + length l3 + 16), st2)"
    by (rule udp_seal [OF laws g(2,3) m(1), of ?r "13 + length l3" l3]) (use buf in auto)
  have "l2_encrypt_fragment_single lib ctx hdr l3 e s d k buf mx 12 st =
      (Done (udp_wire lib (ctx_key ctx) (g_worker_idx st) nonce m (k, e, s, d) l3 @ drop 16 ?r,
             length l3 + 60), st2)"
    using b0 b1 g(1) e(3) buf ctx_okD(3) [OF laws(2)]
    by (simp add: l2_encrypt_fragment_single_def l2_sizes udp_writes [OF m(1) abc(2-4)]
        udp_writes [OF m(1) abc(2,3) length_shim] g(2) w)
  then show ?thesis
    using that [of nonce st2 "drop 16 ?r"] g e buf worker_more [OF e(2)] w by simp
qed

lemma fragment0_ok:
  assumes laws: "aead_laws lib" "ctx_ok ctx" and st: "trf_ok st"
    and m: "length m = 12" and buf: "46 \<le> length post" "60 + length l3 \<le> mx"
  obtains nonce st' where "length nonce = 12" "trf_ok st'"
    "l2_encrypt_fragment0_inplace lib ctx (m @ x # y # l3 @ post) (length l3) e s d mx 12 14 st =
      (Done (udp_wire lib (ctx_key ctx) (g_worker_idx st) nonce m (L2_UDP_KIND_FRAG0, e, s, d) l3
               @ drop 46 post, length l3 + 60), st')"
proof -
  obtain nonce st1 where g: "crypto_pqc_generate_nonce lib st = (Some nonce, st1)" "length nonce = 12"
    "trf_ok st1" "trf_state.more st1 = trf_state.more st"
    using generate_nonce_ok [OF laws(1) st] by blast
  note w = worker_more [OF g(4)]
  obtain a b c where abc: "length a = 15" "length b = 4" "length c = 13"
    and mv: "mem_move (m @ x # y # l3 @ post) 44 14 (length l3) = Done (m @ a @ b @ c @ l3 @ drop 30 post)"
    by (rule udp_move_gap [OF m, of post]) (use buf in auto)
  obtain st2 where e: "trf_ok st2"
    "crypto_pqc_encrypt_payload lib (ctx_key ctx) nonce (m @ ([0x10, 0x4B, g_worker_idx st] @ nonce)
        @ l2_udp_marker @ l2_udp_shim L2_UDP_KIND_FRAG0 e s d @ l3 @ drop 30 post) 31 (13 + length l3) st1 =
     (Done (udp_wire lib (ctx_key ctx) (g_worker_idx st) nonce m (L2_UDP_KIND_FRAG0, e, s, d) l3
              @ drop 16 (drop 30 post), 13 + length l3 + 16), st2)"
    by (rule udp_seal [OF laws g(2,3) m, of "drop 30 post" "13 + length l3" l3]) (use buf in auto)
  have "l2_encrypt_fragment0_inplace lib ctx (m @ x # y # l3 @ post) (length l3) e s d mx 12 14 st =
      (Done (udp_wire lib (ctx_key ctx) (g_worker_idx st) nonce m (L2_UDP_KIND_FRAG0, e, s, d) l3
               @ drop 46 post, length l3 + 60), st2)"
    using mv g(1) e(2) buf ctx_okD(3) [OF laws(2)]
    by (simp add: l2_encrypt_fragment0_inplace_def l2_sizes udp_writes [OF m abc]
        udp_writes [OF m abc(1,2) length_shim] g(2) w)
  then show ?thesis using that g e by blast
qed

lemma split_sizes_bounds:
  assumes "l2_split_sizes buf n 14 = Some (ihl, h1, h2)"
  shows "20 \<le> ihl" "ihl + 8 + h1 \<le> 8954" "0 < h2" "14 + (ihl + 8 + h1) + h2 = n"
    "drop_bit 4 (buf ! 14) = 4" "ihl = unat (buf ! 14 AND 0x0F) * 4" "h2 = 1 \<or> n = 8968 + h2"
  using assms by (auto simp: l2_split_sizes_def Let_def l2_sizes split: if_splits)

lemma l2_split_ok:
  assumes laws: "aead_laws lib" "ctx_ok ctx" and st: "trf_ok st" "g_udp_tx_valid st"
    and et: "eth_read_et buf 12 = ETH_P_IP" and n: "n \<le> 9216" "length buf = 9216" "length aux = 9216"
    and sz: "l2_split_sizes buf n 14 = Some (ihl, h1, h2)"
  obtains m p0 p1 nonce0 nonce1 r0 r1 st' where
    "take n buf = m @ [0x08, 0x00] @ p0 @ p1" "length m = 12" "length p0 = ihl + 8 + h1" "length p1 = h2"
    "length nonce0 = 12" "length nonce1 = 12" "trf_ok st'"
    "l2_crypto_split_udp os lib ctx buf n 9216 aux 9216 st = (Done
      ((udp_wire lib (ctx_key ctx) (g_worker_idx st) nonce0 m
          (L2_UDP_KIND_FRAG0, fst (l2_crypto_epoch os st), g_udp_tx_seq st, g_udp_tx_datagram_id st) p0 @ r0, length p0 + 60),
       (udp_wire lib (ctx_key ctx) (g_worker_idx st) nonce1 m
          (L2_UDP_KIND_FRAG1, fst (l2_crypto_epoch os st), g_udp_tx_seq st, g_udp_tx_datagram_id st) p1 @ r1, length p1 + 60)), st')"
    "length p0 + 60 + length r0 = 9216" "length p1 + 60 + length r1 = 9216"
proof -
  note b = split_sizes_bounds [OF sz]
  obtain m l3 post where f: "buf = m @ [0x08, 0x00] @ l3 @ post" "length m = 12"
    "length l3 = n - 14" "length buf = n + length post" "take n buf = m @ [0x08, 0x00] @ l3"
    by (rule split_ipv4_frame [of n buf]) (use et n b in auto)
  define p0 p1 where p: "p0 = take (ihl + 8 + h1) l3" "p1 = drop (ihl + 8 + h1) l3"
  have lp: "length p0 = ihl + 8 + h1" "length p1 = h2" "l3 = p0 @ p1" using f(3) b by (auto simp: p)
  let ?s = "g_udp_tx_seq st" and ?d = "g_udp_tx_datagram_id st"
  obtain st1 where t: "l2_crypto_udp_tx_meta os st = (Some (g_udp_epoch st1, ?s, ?d), st1)"
    "trf_ok st1" "g_worker_idx st1 = g_worker_idx st" "g_udp_epoch st1 = fst (l2_crypto_epoch os st)"
    using tx_meta_ok [OF st(2,1)] by blast
  let ?e = "g_udp_epoch st1"
  have r: "mem_read buf (14 + ihl + 8 + h1) h2 = p1"
    using mem_read_mid [of "m @ [0x08, 0x00] @ p0" "14 + ihl + 8 + h1" p1 h2 post] f(1,2) lp by simp
  have m12: "take 12 buf = m" using f(1,2) by simp
  obtain nonce1 st2 r1 where f1: "length nonce1 = 12" "trf_ok st2" "g_worker_idx st2 = g_worker_idx st1"
    and lr1: "length r1 + (60 + length p1) = length aux"
    and f1e: "l2_encrypt_fragment_single lib ctx buf p1 ?e ?s ?d L2_UDP_KIND_FRAG1 aux 9216 12 st1 =
      (Done (udp_wire lib (ctx_key ctx) (g_worker_idx st1) nonce1 m (L2_UDP_KIND_FRAG1, ?e, ?s, ?d) p1 @ r1,
             length p1 + 60), st2)"
    by (rule fragment_single_ok [OF laws t(2) f(2) m12, of p1 aux 9216]) (use n lp b in auto)
  have lpost: "46 \<le> length (p1 @ post)" using f(4) n b lp by simp
  obtain nonce0 st3 where f0: "length nonce0 = 12" "trf_ok st3"
    "l2_encrypt_fragment0_inplace lib ctx (m @ 0x08 # 0x00 # p0 @ (p1 @ post)) (length p0) ?e ?s ?d 9216 12 14 st2 =
      (Done (udp_wire lib (ctx_key ctx) (g_worker_idx st2) nonce0 m (L2_UDP_KIND_FRAG0, ?e, ?s, ?d) p0
               @ drop 46 (p1 @ post), length p0 + 60), st3)"
    by (rule fragment0_ok [OF laws f1(2) f(2) lpost, of p0 9216]) (use n lp b in auto)
  have bufeq: "m @ 0x08 # 0x00 # p0 @ (p1 @ post) = buf" using f(1) lp by simp
  have "l2_crypto_split_udp os lib ctx buf n 9216 aux 9216 st = (Done
      ((udp_wire lib (ctx_key ctx) (g_worker_idx st) nonce0 m (L2_UDP_KIND_FRAG0, ?e, ?s, ?d) p0
          @ drop 46 (p1 @ post), length p0 + 60),
       (udp_wire lib (ctx_key ctx) (g_worker_idx st) nonce1 m (L2_UDP_KIND_FRAG1, ?e, ?s, ?d) p1
          @ r1, length p1 + 60)), st3)"
    using t(1-3) f1(3) f1e f0(3) sz r et b lp(1) unfolding bufeq
    by (simp add: l2_crypto_split_udp_def l2_udp_split_def l2_split_def ipv4_offset_eq l2_prefix_len_eq
        inner_et_off_eq l2_sizes)
  then show ?thesis
    using that [of m p0 p1 nonce0 nonce1 st3] f(2,4,5) lp f0 f1 lr1 lpost n(2,3) b(4) unfolding t(4) by simp
qed

section \<open>Table entries\<close>

definition entry_ok :: "opt_entry \<Rightarrow> bool" where
  "entry_ok e \<longleftrightarrow> length (e_first e) = 9216 \<and> length (e_second e) = 9216 \<and> length (e_eth_hdr e) = 18"

definition table_ok :: "opt_table \<Rightarrow> bool" where
  "table_ok ft \<longleftrightarrow> length (entries ft) = 256 \<and> (\<forall>k<256. entry_ok (entries ft ! k))"

definition no_key :: "u32 \<Rightarrow> u32 \<Rightarrow> opt_entry \<Rightarrow> bool" where
  "no_key ep did e \<longleftrightarrow> \<not> (opt_occupied e \<and> e_epoch e = ep \<and> e_datagram_id e = did)"

definition fresh :: "u32 \<Rightarrow> u32 \<Rightarrow> opt_table \<Rightarrow> bool" where
  "fresh ep did ft \<longleftrightarrow> (\<forall>k<256. no_key ep did (entries ft ! k))"

text \<open>The halves an entry may hold for one datagram.\<close>

definition has_first :: "bytes \<Rightarrow> bytes \<Rightarrow> opt_entry \<Rightarrow> bool" where
  "has_first m p0 e \<longleftrightarrow> e_got_first e \<and> e_first_len e = length p0 \<and> take (length p0) (e_first e) = p0 \<and>
     e_eth_len e = 14 \<and> take 12 (e_eth_hdr e) = m"

definition has_second :: "bytes \<Rightarrow> opt_entry \<Rightarrow> bool" where
  "has_second p1 e \<longleftrightarrow> e_got_second e \<and> e_second_len e = length p1 \<and> take (length p1) (e_second e) = p1"

definition for_key :: "u32 \<Rightarrow> u32 \<Rightarrow> u32 \<Rightarrow> u64 \<Rightarrow> opt_entry \<Rightarrow> bool" where
  "for_key ep did seq t e \<longleftrightarrow>
     e_epoch e = ep \<and> e_datagram_id e = did \<and> e_udp_seq e = seq \<and> e_timestamp_ns e = t"

lemma entry_ok_clear [simp]: "entry_ok (opt_clear_entry e) = entry_ok e"
  by (simp add: entry_ok_def opt_clear_entry_def)

lemma no_key_clear [simp]: "no_key ep did (opt_clear_entry e)"
  by (simp add: no_key_def)

lemma prepare_fresh:
  assumes "no_key ep did e"
  shows "\<not> opt_occupied (opt_prepare_entry e ep did seq now)"
  using assms
  by (auto simp: no_key_def opt_prepare_entry_def Let_def opt_occupied_def opt_clear_entry_def)

lemma prepare_same:
  assumes "for_key ep did seq t e" "\<not> L2_FRAG_TIMEOUT_NS < now - t"
  shows "opt_prepare_entry e ep did seq now = e\<lparr>e_timestamp_ns := now\<rparr>"
  using assms by (simp add: for_key_def opt_prepare_entry_def opt_expired_def)

lemma prepare_keeps:
  "entry_ok (opt_prepare_entry e ep did seq now) = entry_ok e"
  "for_key ep did seq now (opt_prepare_entry e ep did seq now)"
  by (simp_all add: opt_prepare_entry_def for_key_def entry_ok_def Let_def opt_clear_entry_def)

lemma store_first_ok:
  assumes "entry_ok e" "length p0 \<le> 9216" "length m = 12"
  obtains e' where "opt_store_first e ep did seq (m @ [x, y]) 14 p0 now = Done e'"
    "entry_ok e'" "has_first m p0 e'" "for_key ep did seq now e'"
    "e_got_second e' = e_got_second (opt_prepare_entry e ep did seq now)"
    "has_second p1 e' = has_second p1 (opt_prepare_entry e ep did seq now)"
proof -
  let ?e = "opt_prepare_entry e ep did seq now"
  have "entry_ok ?e" using assms(1) prepare_keeps(1) by simp
  then have ok: "length (e_first ?e) = 9216" "length (e_eth_hdr ?e) = 18" "entry_ok ?e"
    by (simp_all add: entry_ok_def)
  let ?e' = "?e\<lparr>e_first_len := length p0, e_first := p0 @ drop (length p0) (e_first ?e),
     e_eth_hdr := (m @ [x, y]) @ drop 14 (e_eth_hdr ?e), e_eth_len := 14, e_got_first := True\<rparr>"
  have "opt_store_first e ep did seq (m @ [x, y]) 14 p0 now = Done ?e'"
    using ok assms by (simp add: opt_store_first_def l2_sizes mem_write_def Let_def)
  then show ?thesis
    using that [of ?e'] ok assms prepare_keeps(2) [of ep did seq now e]
    by (simp add: entry_ok_def has_first_def has_second_def for_key_def)
qed

lemma store_second_ok:
  assumes "entry_ok e" "length p1 \<le> 9216"
  obtains e' where "opt_store_second e ep did seq p1 now = Done e'"
    "entry_ok e'" "has_second p1 e'" "for_key ep did seq now e'"
    "e_got_first e' = e_got_first (opt_prepare_entry e ep did seq now)"
    "has_first m p0 e' = has_first m p0 (opt_prepare_entry e ep did seq now)"
proof -
  let ?e = "opt_prepare_entry e ep did seq now"
  have "entry_ok ?e" using assms(1) prepare_keeps(1) by simp
  then have ok: "length (e_second ?e) = 9216" "entry_ok ?e"
    by (simp_all add: entry_ok_def)
  let ?e' = "?e\<lparr>e_second_len := length p1, e_second := p1 @ drop (length p1) (e_second ?e), e_got_second := True\<rparr>"
  have "opt_store_second e ep did seq p1 now = Done ?e'"
    using ok assms by (simp add: opt_store_second_def l2_sizes mem_write_def Let_def)
  then show ?thesis
    using that [of ?e'] ok assms prepare_keeps(2) [of ep did seq now e]
    by (simp add: entry_ok_def has_first_def has_second_def for_key_def)
qed

lemma emit_join_waits:
  "\<not> e_got_first e \<or> \<not> e_got_second e \<Longrightarrow> opt_emit_join e out = (Done None, e)"
  by (simp add: opt_emit_join_def)

lemma emit_join_ok:
  assumes "entry_ok e" "has_first m p0 e" "has_second p1 e" "length m = 12"
    and "14 + length p0 + length p1 \<le> 9216" "length out = 9216"
  obtains out' where "opt_emit_join e out = (Done (Some (out', 14 + length p0 + length p1)), opt_clear_entry e)"
    "take (14 + length p0 + length p1) out' = m @ [0x08, 0x00] @ p0 @ p1" "length out' = 9216"
proof -
  obtain x y where h: "take 14 (e_eth_hdr e) = m @ [x, y]"
  proof -
    have "take 14 (e_eth_hdr e) = m @ take 2 (drop 12 (e_eth_hdr e))"
      using assms(2) take_add [of 12 2 "e_eth_hdr e"] by (simp add: has_first_def)
    moreover have "length (take 2 (drop 12 (e_eth_hdr e))) = 2" using assms(1) by (simp add: entry_ok_def)
    then obtain x y where "take 2 (drop 12 (e_eth_hdr e)) = [x, y]"
      by (metis (no_types) length_0_conv length_Suc_conv numeral_2_eq_2)
    ultimately show ?thesis using that by simp
  qed
  have w1: "mem_write out 0 (m @ [x, y]) = Done (m @ x # y # drop 14 out)"
    using mem_write_at [of "[]" 0 "m @ [x, y]" out] assms(4-6) by simp
  have w2: "mem_write (m @ x # y # drop 14 out) 14 p0 = Done (m @ x # y # p0 @ drop (14 + length p0) out)"
    using mem_write_at [of "m @ [x, y]" 14 p0 "drop 14 out"] assms(4-6) by (simp add: add.commute)
  have w3: "(if 0 < length p1 then mem_write (m @ x # y # p0 @ drop (14 + length p0) out) (14 + length p0) p1
      else Done (m @ x # y # p0 @ drop (14 + length p0) out)) =
      Done (m @ x # y # p0 @ p1 @ drop (14 + length p0 + length p1) out)"
    using mem_write_at [of "m @ [x, y] @ p0" "14 + length p0" p1 "drop (14 + length p0) out"] assms(4-6)
    by (simp add: add.commute add.left_commute)
  have et: "crypto_eth_set_ipv4_et (m @ x # y # r) 12 = m @ 0x08 # 0x00 # r" for r
    using assms(4) by (simp add: crypto_eth_set_ipv4_et_def list_update_append)
  let ?out = "m @ 0x08 # 0x00 # p0 @ p1 @ drop (14 + length p0 + length p1) out"
  have "opt_emit_join e out = (Done (Some (?out, 14 + length p0 + length p1)), opt_clear_entry e)"
    using assms(2,3,5) h w1 w2 w3
    by (cases "p1 = []") (simp_all add: opt_emit_join_def has_first_def has_second_def l2_sizes et Let_def)
  then show ?thesis using that [of ?out] assms(4-6) by simp
qed

section \<open>Reassembly of one datagram\<close>

text \<open>\<open>waiting\<close>: the table holds exactly one entry for the datagram, inside its probe window.\<close>

definition waiting ::
  "u32 \<Rightarrow> u32 \<Rightarrow> u32 \<Rightarrow> u64 \<Rightarrow> opt_table \<Rightarrow> nat \<Rightarrow> bool" where
  "waiting ep did seq t ft idx \<longleftrightarrow> table_ok ft \<and> idx \<in> probe_window (opt_base ep did) 8 \<and>
     opt_occupied (entries ft ! idx) \<and> for_key ep did seq t (entries ft ! idx) \<and>
     (\<forall>k<256. k \<noteq> idx \<longrightarrow> no_key ep did (entries ft ! k))"

lemma purged_table_ok:
  assumes "table_ok ft" "purged now (entries ft) (entries ft')"
  shows "table_ok ft'" "\<forall>k<256. no_key ep did (entries ft ! k) \<longrightarrow> no_key ep did (entries ft' ! k)"
  using assms unfolding table_ok_def purged_def by (metis entry_ok_clear no_key_clear)+

lemma pick_fresh:
  assumes "table_ok ft" "fresh ep did ft"
  obtains idx ft' where "opt_pick_slot ft ep did now = (idx, ft')" "idx \<in> probe_window (opt_base ep did) 8"
    "table_ok ft'" "fresh ep did ft'"
proof -
  obtain idx ft' where p: "opt_pick_slot ft ep did now = (idx, ft')" by force
  have len: "length (entries ft) = 256" using assms(1) by (simp add: table_ok_def)
  note sp = pick_slot_facts [OF len p]
  show ?thesis
    using that [OF p] sp purged_table_ok [OF assms(1)] assms(2) by (auto simp: slot_ok_def fresh_def)
qed

lemma pick_waiting:
  assumes "waiting ep did seq t ft idx" "\<not> L2_FRAG_TIMEOUT_NS < now - t"
  obtains ft' where "opt_pick_slot ft ep did now = (idx, ft')" "waiting ep did seq t ft' idx"
    "entries ft' ! idx = entries ft ! idx"
proof -
  obtain j ft' where p: "opt_pick_slot ft ep did now = (j, ft')" by force
  have ok: "table_ok ft" and len: "length (entries ft) = 256"
    using assms(1) by (auto simp: table_ok_def waiting_def)
  note sp = pick_slot_facts [OF len p]
  have kl: "key_live ep did now (entries ft ! idx)"
    using assms by (simp add: waiting_def key_live_def live_def opt_expired_def for_key_def)
  have w: "idx \<in> probe_window (opt_base ep did) 8" using assms(1) by (simp add: waiting_def)
  have "key_live ep did now (entries ft ! j)" and jw: "j < 256"
    using sp kl w window_bound by (auto simp: slot_ok_def split: if_splits)
  then have "\<not> no_key ep did (entries ft ! j)" by (simp add: no_key_def key_live_def live_def)
  then have j: "j = idx" using assms(1) jw by (auto simp: waiting_def)
  have same: "entries ft' ! idx = entries ft ! idx"
    using purged_live(2) [of now "entries ft" "entries ft'" idx] sp kl jw j len by (simp add: key_live_def)
  have "waiting ep did seq t ft' idx"
    using assms(1) same purged_table_ok [OF ok] sp by (auto simp: waiting_def)
  then show ?thesis using that p j same by blast
qed

lemma put_waiting:
  assumes "table_ok ft" "\<forall>k<256. k \<noteq> idx \<longrightarrow> no_key ep did (entries ft ! k)"
    "idx \<in> probe_window (opt_base ep did) 8" "entry_ok e" "opt_occupied e" "for_key ep did seq t e"
  shows "waiting ep did seq t (ft\<lparr>entries := (entries ft)[idx := e]\<rparr>) idx"
  using assms window_bound by (auto simp: waiting_def table_ok_def nth_list_update)

lemma put_clear:
  assumes "table_ok ft" "\<forall>k<256. k \<noteq> idx \<longrightarrow> no_key ep did (entries ft ! k)" "entry_ok e" "idx < 256"
  shows "table_ok (ft\<lparr>entries := (entries ft)[idx := opt_clear_entry e]\<rparr>)"
    "fresh ep did (ft\<lparr>entries := (entries ft)[idx := opt_clear_entry e]\<rparr>)"
  using assms by (auto simp: table_ok_def fresh_def nth_list_update)

text \<open>The frame a fragment becomes after decryption: MAC addresses, the wire EtherType, its part.\<close>

abbreviation frag_pkt :: "bytes \<Rightarrow> bytes \<Rightarrow> bytes \<Rightarrow> bytes" where
  "frag_pkt m part junk \<equiv> m @ 0x10 # 0x4B # part @ junk"

definition first_part_ok :: "bytes \<Rightarrow> bool" where
  "first_part_ok p0 \<longleftrightarrow> 20 \<le> length p0 \<and> drop_bit 4 (p0 ! 0) = 4 \<and> 20 \<le> unat (p0 ! 0 AND 0x0F) * 4 \<and>
     unat (p0 ! 0 AND 0x0F) * 4 \<le> length p0"

lemma frag_pkt_parse:
  assumes "length m = 12"
  shows "l2_wire_prefix_len (frag_pkt m part junk) (14 + length part) = Some 14"
    "mem_read (frag_pkt m part junk) 14 (length part) = part"
    "take 14 (frag_pkt m part junk) = m @ [0x10, 0x4B]"
  using assms mem_read_mid [of "m @ [0x10, 0x4B]" 14 part "length part" junk]
  by (simp_all add: l2_wire_prefix_len_def l2_offsets)

text \<open>Storing a fragment into the entry that was picked, and joining.\<close>

lemma reassemble_unfold0:
  assumes "length m = 12" "first_part_ok p0" "opt_pick_slot ft ep did now = (idx, ft1)"
    "opt_store_first (entries ft1 ! idx) ep did seq (m @ [0x10, 0x4B]) 14 p0 now = Done e"
  shows "l2_reassemble ft (frag_pkt m p0 junk) (14 + length p0) ep did seq L2_UDP_KIND_FRAG0 out now =
    (fst (opt_emit_join e out), ft1\<lparr>entries := (entries ft1)[idx := snd (opt_emit_join e out)]\<rparr>)"
  using assms frag_pkt_parse [OF assms(1), of p0 junk]
  by (simp add: l2_reassemble_def l2_sizes first_part_ok_def case_prod_beta Let_def)

lemma reassemble_unfold1:
  assumes "length m = 12" "opt_pick_slot ft ep did now = (idx, ft1)" "\<not> opt_expired now (entries ft1 ! idx) \<or> no_key ep did (entries ft1 ! idx)"
    "opt_store_second (entries ft1 ! idx) ep did seq p1 now = Done e"
  shows "l2_reassemble ft (frag_pkt m p1 junk) (14 + length p1) ep did seq L2_UDP_KIND_FRAG1 out now =
    (fst (opt_emit_join e out), ft1\<lparr>entries := (entries ft1)[idx := snd (opt_emit_join e out)]\<rparr>)"
  using assms frag_pkt_parse [OF assms(1), of p1 junk]
  by (auto simp: l2_reassemble_def l2_sizes l2_kinds case_prod_beta Let_def no_key_def)

lemma reassemble_first_half:
  assumes "table_ok ft" "fresh ep did ft" "length m = 12" "first_part_ok p0" "14 + length p0 \<le> 9216"
  obtains ft' idx where
    "l2_reassemble ft (frag_pkt m p0 junk) (14 + length p0) ep did seq L2_UDP_KIND_FRAG0 out now = (Done None, ft')"
    "waiting ep did seq now ft' idx" "has_first m p0 (entries ft' ! idx)"
proof -
  obtain idx ft1 where p: "opt_pick_slot ft ep did now = (idx, ft1)" "idx \<in> probe_window (opt_base ep did) 8"
    "table_ok ft1" "fresh ep did ft1"
    using pick_fresh [OF assms(1,2)] by blast
  let ?e = "entries ft1 ! idx"
  have i: "idx < 256" "entry_ok ?e" "no_key ep did ?e"
    using p window_bound by (auto simp: table_ok_def fresh_def)
  obtain e where e: "opt_store_first ?e ep did seq (m @ [0x10, 0x4B]) 14 p0 now = Done e" "entry_ok e"
    "has_first m p0 e" "for_key ep did seq now e" "e_got_second e = e_got_second (opt_prepare_entry ?e ep did seq now)"
    by (rule store_first_ok [OF i(2) _ assms(3), of p0]) (use assms in auto)
  have "\<not> e_got_second e" using e(5) prepare_fresh [OF i(3)] by (simp add: opt_occupied_def)
  then have j: "opt_emit_join e out = (Done None, e)" by (simp add: emit_join_waits)
  let ?ft = "ft1\<lparr>entries := (entries ft1)[idx := e]\<rparr>"
  have "waiting ep did seq now ?ft idx"
    by (rule put_waiting) (use p e in \<open>auto simp: fresh_def opt_occupied_def has_first_def\<close>)
  moreover have "entries ?ft ! idx = e" using i p(3) by (simp add: table_ok_def)
  ultimately show ?thesis
    using that [of ?ft idx] reassemble_unfold0 [OF assms(3,4) p(1) e(1)] j e(3) by simp
qed

lemma reassemble_second_half:
  assumes "table_ok ft" "fresh ep did ft" "length m = 12" "14 + length p1 \<le> 9216"
  obtains ft' idx where
    "l2_reassemble ft (frag_pkt m p1 junk) (14 + length p1) ep did seq L2_UDP_KIND_FRAG1 out now = (Done None, ft')"
    "waiting ep did seq now ft' idx" "has_second p1 (entries ft' ! idx)"
proof -
  obtain idx ft1 where p: "opt_pick_slot ft ep did now = (idx, ft1)" "idx \<in> probe_window (opt_base ep did) 8"
    "table_ok ft1" "fresh ep did ft1"
    using pick_fresh [OF assms(1,2)] by blast
  let ?e = "entries ft1 ! idx"
  have i: "idx < 256" "entry_ok ?e" "no_key ep did ?e"
    using p window_bound by (auto simp: table_ok_def fresh_def)
  obtain e where e: "opt_store_second ?e ep did seq p1 now = Done e" "entry_ok e"
    "has_second p1 e" "for_key ep did seq now e" "e_got_first e = e_got_first (opt_prepare_entry ?e ep did seq now)"
    by (rule store_second_ok [OF i(2), of p1]) (use assms in auto)
  have "\<not> e_got_first e" using e(5) prepare_fresh [OF i(3)] by (simp add: opt_occupied_def)
  then have j: "opt_emit_join e out = (Done None, e)" by (simp add: emit_join_waits)
  let ?ft = "ft1\<lparr>entries := (entries ft1)[idx := e]\<rparr>"
  have "waiting ep did seq now ?ft idx"
    by (rule put_waiting) (use p e in \<open>auto simp: fresh_def opt_occupied_def has_second_def\<close>)
  moreover have "entries ?ft ! idx = e" using i p(3) by (simp add: table_ok_def)
  ultimately show ?thesis
    using that [of ?ft idx] reassemble_unfold1 [OF assms(3) p(1) _ e(1)] i(3) j e(3) by simp
qed

lemma reassemble_join1:
  assumes w: "waiting ep did seq t ft idx" "\<not> L2_FRAG_TIMEOUT_NS < now - t"
    and h: "has_first m p0 (entries ft ! idx)" "length m = 12"
    and l: "14 + length p0 + length p1 \<le> 9216" "length out = 9216"
  obtains ft' out' where
    "l2_reassemble ft (frag_pkt m p1 junk) (14 + length p1) ep did seq L2_UDP_KIND_FRAG1 out now =
      (Done (Some (out', 14 + length p0 + length p1)), ft')"
    "take (14 + length p0 + length p1) out' = m @ [0x08, 0x00] @ p0 @ p1"
    "table_ok ft'" "fresh ep did ft'"
proof -
  obtain ft1 where p: "opt_pick_slot ft ep did now = (idx, ft1)" "waiting ep did seq t ft1 idx"
    "entries ft1 ! idx = entries ft ! idx"
    using pick_waiting [OF w] by blast
  let ?e = "entries ft1 ! idx"
  have i: "entry_ok ?e" "idx < 256" "for_key ep did seq t ?e"
    using p(2) window_bound by (auto simp: waiting_def table_ok_def)
  have x: "\<not> opt_expired now ?e" using i(3) w(2) by (simp add: opt_expired_def for_key_def)
  obtain e where e: "opt_store_second ?e ep did seq p1 now = Done e" "entry_ok e" "has_second p1 e"
    "has_first m p0 e = has_first m p0 (opt_prepare_entry ?e ep did seq now)"
    by (rule store_second_ok [OF i(1), of p1]) (use l in auto)
  have hf: "has_first m p0 e"
    using e(4) h(1) p(3) prepare_same [OF i(3) w(2)] by (simp add: has_first_def)
  obtain out' where o: "opt_emit_join e out = (Done (Some (out', 14 + length p0 + length p1)), opt_clear_entry e)"
    "take (14 + length p0 + length p1) out' = m @ [0x08, 0x00] @ p0 @ p1"
    using emit_join_ok [OF e(2) hf e(3) h(2) l] by blast
  have tk: "table_ok ft1" "\<forall>k<256. k \<noteq> idx \<longrightarrow> no_key ep did (entries ft1 ! k)"
    using p(2) by (simp_all add: waiting_def)
  note pc = put_clear [OF tk e(2) i(2)]
  show ?thesis
    using that [OF _ o(2) pc(1) pc(2)] reassemble_unfold1 [OF h(2) p(1) _ e(1)] x o(1)
    by simp
qed

lemma reassemble_join0:
  assumes w: "waiting ep did seq t ft idx" "\<not> L2_FRAG_TIMEOUT_NS < now - t"
    and h: "has_second p1 (entries ft ! idx)" "length m = 12" "first_part_ok p0"
    and l: "14 + length p0 + length p1 \<le> 9216" "length out = 9216"
  obtains ft' out' where
    "l2_reassemble ft (frag_pkt m p0 junk) (14 + length p0) ep did seq L2_UDP_KIND_FRAG0 out now =
      (Done (Some (out', 14 + length p0 + length p1)), ft')"
    "take (14 + length p0 + length p1) out' = m @ [0x08, 0x00] @ p0 @ p1"
    "table_ok ft'" "fresh ep did ft'"
proof -
  obtain ft1 where p: "opt_pick_slot ft ep did now = (idx, ft1)" "waiting ep did seq t ft1 idx"
    "entries ft1 ! idx = entries ft ! idx"
    using pick_waiting [OF w] by blast
  let ?e = "entries ft1 ! idx"
  have i: "entry_ok ?e" "idx < 256" "for_key ep did seq t ?e"
    using p(2) window_bound by (auto simp: waiting_def table_ok_def)
  obtain e where e: "opt_store_first ?e ep did seq (m @ [0x10, 0x4B]) 14 p0 now = Done e" "entry_ok e"
    "has_first m p0 e" "has_second p1 e = has_second p1 (opt_prepare_entry ?e ep did seq now)"
    by (rule store_first_ok [OF i(1) _ h(2), of p0]) (use l in auto)
  have hs: "has_second p1 e"
    using e(4) h(1) p(3) prepare_same [OF i(3) w(2)] by (simp add: has_second_def)
  obtain out' where o: "opt_emit_join e out = (Done (Some (out', 14 + length p0 + length p1)), opt_clear_entry e)"
    "take (14 + length p0 + length p1) out' = m @ [0x08, 0x00] @ p0 @ p1"
    using emit_join_ok [OF e(2,3) hs h(2) l] by blast
  have tk: "table_ok ft1" "\<forall>k<256. k \<noteq> idx \<longrightarrow> no_key ep did (entries ft1 ! k)"
    using p(2) by (simp_all add: waiting_def)
  note pc = put_clear [OF tk e(2) i(2)]
  show ?thesis
    using that [OF _ o(2) pc(1) pc(2)] reassemble_unfold0 [OF h(2,3) p(1) e(1)] o(1)
    by simp
qed

section \<open>Split and reassembly end to end\<close>

lemma reasm_fragment:
  assumes "aead_laws lib" "ctx_ok ctx" "trf_ok peer" "length m = 12" "length nonce = 12"
    and "k \<in> {L2_UDP_KIND_FRAG0, L2_UDP_KIND_FRAG1}" "opt_table_get c wi True g = (Some ft, g1)"
  obtains junk peer' where "trf_ok peer'"
    "l2_crypto_reassemble_udp c lib wi ctx
        (udp_wire lib (ctx_key ctx) w nonce m (k, e, s, d) part @ post) (length part + 60) out now (peer, g) =
      (case l2_reassemble ft (frag_pkt m part junk) (14 + length part) e d s k out now of
         (rr, ft') \<Rightarrow> (rr, (peer', g1(opt_table_idx wi := Some ft'))))"
proof -
  have k: "k \<in> {L2_UDP_KIND_FRAG0, L2_UDP_KIND_FRAG1, L2_UDP_KIND_FULL}" "k \<noteq> L2_UDP_KIND_FULL"
    "\<not> L2_UDP_KIND_FRAG1 < k"
    using assms(6) by (auto simp: l2_kinds)
  obtain junk peer' where d: "trf_ok peer'"
    "l2_do_decrypt_udp lib ctx (udp_wire lib (ctx_key ctx) w nonce m (k, e, s, d) part @ post)
       (length part + 60) peer =
     (Done (frag_pkt m part junk, 14 + length part, k, e, s, d), peer')"
    by (rule do_decrypt_udp_wire [OF assms(1-5) k(1)]) (use k(2) in auto)
  show ?thesis
    by (rule that [OF d(1), of junk])
      (use d(2) k assms(7) in \<open>simp add: l2_crypto_reassemble_udp_def l2_udp_reasm_def\<close>)
qed

text \<open>The first of two fragments is kept, the second completes the datagram, at times \<open>t1\<close> and \<open>t2\<close>.\<close>

definition delivers ::
  "'c scrypt_api \<Rightarrow> int \<Rightarrow> packet_crypto_ctx \<Rightarrow> l2_state \<times> (nat \<Rightarrow> opt_table option) \<Rightarrow> bytes
   \<Rightarrow> bytes \<times> nat \<Rightarrow> u64 \<Rightarrow> bytes \<times> nat \<Rightarrow> u64 \<Rightarrow> bytes \<Rightarrow> bool" where
  "delivers lib wi ctx s out f1 t1 f2 t2 frame =
     (case l2_crypto_reassemble_udp True lib wi ctx (fst f1) (snd f1) out t1 s of
        (Done None, s1) \<Rightarrow>
          (case l2_crypto_reassemble_udp True lib wi ctx (fst f2) (snd f2) out t2 s1 of
             (Done (Some (out', n)), _) \<Rightarrow> take n out' = frame \<and> n = length frame
           | _ \<Rightarrow> False)
      | _ \<Rightarrow> False)"

lemma delivers_in_order:
  assumes laws: "aead_laws lib" "ctx_ok ctx" "trf_ok peer" and m: "length m = 12"
    and nn: "length nonce0 = 12" "length nonce1 = 12"
    and t: "g (opt_table_idx wi) = Some ft" "table_ok ft" "fresh e d ft" "\<not> L2_FRAG_TIMEOUT_NS < t2 - t1"
    and p: "first_part_ok p0" "14 + length p0 + length p1 \<le> 9216" "length out = 9216"
  shows "delivers lib wi ctx (peer, g) out
    (udp_wire lib (ctx_key ctx) w nonce0 m (L2_UDP_KIND_FRAG0, e, s, d) p0 @ r0, length p0 + 60) t1
    (udp_wire lib (ctx_key ctx) w nonce1 m (L2_UDP_KIND_FRAG1, e, s, d) p1 @ r1, length p1 + 60) t2
    (m @ [0x08, 0x00] @ p0 @ p1)" (is "delivers _ _ _ _ _ ?f0 _ ?f1 _ _")
proof -
  let ?i = "opt_table_idx wi"
  obtain junk peer1 where a: "trf_ok peer1"
    "l2_crypto_reassemble_udp True lib wi ctx (fst ?f0) (snd ?f0) out t1 (peer, g) =
      (case l2_reassemble ft (frag_pkt m p0 junk) (14 + length p0) e d s L2_UDP_KIND_FRAG0 out t1 of
         (rr, ft') \<Rightarrow> (rr, (peer1, g(?i := Some ft'))))"
    unfolding fst_conv snd_conv
    by (rule reasm_fragment [OF laws m nn(1), where k = L2_UDP_KIND_FRAG0 and g = g and ?g1.0 = g and c = True and wi = wi and ft = ft]) (use t(1) in \<open>auto simp: opt_table_get_def\<close>)
  have "14 + length p0 \<le> 9216" using p(2) by simp
  then obtain ft1 idx where b:
    "l2_reassemble ft (frag_pkt m p0 junk) (14 + length p0) e d s L2_UDP_KIND_FRAG0 out t1 = (Done None, ft1)"
    "waiting e d s t1 ft1 idx" "has_first m p0 (entries ft1 ! idx)"
    using reassemble_first_half [OF t(2,3) m p(1)] by blast
  obtain junk' peer2 where c:
    "l2_crypto_reassemble_udp True lib wi ctx (fst ?f1) (snd ?f1) out t2 (peer1, g(?i := Some ft1)) =
      (case l2_reassemble ft1 (frag_pkt m p1 junk') (14 + length p1) e d s L2_UDP_KIND_FRAG1 out t2 of
         (rr, ft') \<Rightarrow> (rr, (peer2, g(?i := Some ft1, ?i := Some ft'))))"
    unfolding fst_conv snd_conv
    by (rule reasm_fragment [OF laws(1,2) a(1) m nn(2), where k = L2_UDP_KIND_FRAG1 and g = "g(?i := Some ft1)" and ?g1.0 = "g(?i := Some ft1)" and c = True and wi = wi and ft = ft1]) (auto simp: opt_table_get_def)
  obtain ft2 out' where j:
    "l2_reassemble ft1 (frag_pkt m p1 junk') (14 + length p1) e d s L2_UDP_KIND_FRAG1 out t2 =
      (Done (Some (out', 14 + length p0 + length p1)), ft2)"
    "take (14 + length p0 + length p1) out' = m @ [0x08, 0x00] @ p0 @ p1"
    using reassemble_join1 [OF b(2) t(4) b(3) m p(2,3)] by blast
  show ?thesis
    unfolding delivers_def a(2) b(1) prod.case cres.case option.case c j(1) using j(2) m by simp
qed

lemma delivers_swapped:
  assumes laws: "aead_laws lib" "ctx_ok ctx" "trf_ok peer" and m: "length m = 12"
    and nn: "length nonce0 = 12" "length nonce1 = 12"
    and t: "g (opt_table_idx wi) = Some ft" "table_ok ft" "fresh e d ft" "\<not> L2_FRAG_TIMEOUT_NS < t2 - t1"
    and p: "first_part_ok p0" "14 + length p0 + length p1 \<le> 9216" "length out = 9216"
  shows "delivers lib wi ctx (peer, g) out
    (udp_wire lib (ctx_key ctx) w nonce1 m (L2_UDP_KIND_FRAG1, e, s, d) p1 @ r1, length p1 + 60) t1
    (udp_wire lib (ctx_key ctx) w nonce0 m (L2_UDP_KIND_FRAG0, e, s, d) p0 @ r0, length p0 + 60) t2
    (m @ [0x08, 0x00] @ p0 @ p1)" (is "delivers _ _ _ _ _ ?f1 _ ?f0 _ _")
proof -
  let ?i = "opt_table_idx wi"
  obtain junk peer1 where a: "trf_ok peer1"
    "l2_crypto_reassemble_udp True lib wi ctx (fst ?f1) (snd ?f1) out t1 (peer, g) =
      (case l2_reassemble ft (frag_pkt m p1 junk) (14 + length p1) e d s L2_UDP_KIND_FRAG1 out t1 of
         (rr, ft') \<Rightarrow> (rr, (peer1, g(?i := Some ft'))))"
    unfolding fst_conv snd_conv
    by (rule reasm_fragment [OF laws m nn(2), where k = L2_UDP_KIND_FRAG1 and g = g and ?g1.0 = g and c = True and wi = wi and ft = ft]) (use t(1) in \<open>auto simp: opt_table_get_def\<close>)
  have "14 + length p1 \<le> 9216" using p(2) by simp
  then obtain ft1 idx where b:
    "l2_reassemble ft (frag_pkt m p1 junk) (14 + length p1) e d s L2_UDP_KIND_FRAG1 out t1 = (Done None, ft1)"
    "waiting e d s t1 ft1 idx" "has_second p1 (entries ft1 ! idx)"
    using reassemble_second_half [OF t(2,3) m] by blast
  obtain junk' peer2 where c:
    "l2_crypto_reassemble_udp True lib wi ctx (fst ?f0) (snd ?f0) out t2 (peer1, g(?i := Some ft1)) =
      (case l2_reassemble ft1 (frag_pkt m p0 junk') (14 + length p0) e d s L2_UDP_KIND_FRAG0 out t2 of
         (rr, ft') \<Rightarrow> (rr, (peer2, g(?i := Some ft1, ?i := Some ft'))))"
    unfolding fst_conv snd_conv
    by (rule reasm_fragment [OF laws(1,2) a(1) m nn(1), where k = L2_UDP_KIND_FRAG0 and g = "g(?i := Some ft1)" and ?g1.0 = "g(?i := Some ft1)" and c = True and wi = wi and ft = ft1]) (auto simp: opt_table_get_def)
  obtain ft2 out' where j:
    "l2_reassemble ft1 (frag_pkt m p0 junk') (14 + length p0) e d s L2_UDP_KIND_FRAG0 out t2 =
      (Done (Some (out', 14 + length p0 + length p1)), ft2)"
    "take (14 + length p0 + length p1) out' = m @ [0x08, 0x00] @ p0 @ p1"
    using reassemble_join0 [OF b(2) t(4) b(3) m p] by blast
  show ?thesis
    unfolding delivers_def a(2) b(1) prod.case cres.case option.case c j(1) using j(2) m by simp
qed

text \<open>C11: A UDP or ICMP packet that needs splitting (IPv4, up to 9216 bytes) is split into two frames
  that each fit the MTU of 9000 plus the Ethernet header. A peer whose table holds nothing for this
  (epoch, datagram id) joins the two, arriving in either order within 200 ms, to a packet equal to
  the original, byte for byte.\<close>
theorem split_reassemble_roundtrip:
  assumes "aead_laws lib" "ctx_ok ctx" "trf_ok st" "g_udp_tx_valid st" "trf_ok peer"
    and "eth_read_et buf 12 = ETH_P_IP" "n \<le> 9216" "length buf = 9216" "length aux = 9216"
    and "l2_split_sizes buf n 14 \<noteq> None"
    and "g (opt_table_idx wi) = Some ft" "table_ok ft"
    and "fresh (fst (l2_crypto_epoch os st)) (g_udp_tx_datagram_id st) ft"
    and "t2 - t1 \<le> L2_FRAG_TIMEOUT_NS" "length out = 9216"
  shows "\<exists>f0 n0 f1 n1 st'.
    l2_crypto_split_udp os lib ctx buf n 9216 aux 9216 st = (Done ((f0, n0), (f1, n1)), st') \<and>
    n0 \<le> 14 + 9000 \<and> n1 \<le> 14 + 9000 \<and>
    delivers lib wi ctx (peer, g) out (f0, n0) t1 (f1, n1) t2 (take n buf) \<and>
    delivers lib wi ctx (peer, g) out (f1, n1) t1 (f0, n0) t2 (take n buf)"
proof -
  obtain ihl h1 h2 where sz: "l2_split_sizes buf n 14 = Some (ihl, h1, h2)" using assms(10) by auto
  note b = split_sizes_bounds [OF sz]
  obtain m p0 p1 nonce0 nonce1 r0 r1 st' where f:
    "take n buf = m @ [0x08, 0x00] @ p0 @ p1" "length m = 12" "length p0 = ihl + 8 + h1" "length p1 = h2"
    "length nonce0 = 12" "length nonce1 = 12"
    and eq: "l2_crypto_split_udp os lib ctx buf n 9216 aux 9216 st = (Done
      ((udp_wire lib (ctx_key ctx) (g_worker_idx st) nonce0 m
          (L2_UDP_KIND_FRAG0, fst (l2_crypto_epoch os st), g_udp_tx_seq st, g_udp_tx_datagram_id st) p0 @ r0, length p0 + 60),
       (udp_wire lib (ctx_key ctx) (g_worker_idx st) nonce1 m
          (L2_UDP_KIND_FRAG1, fst (l2_crypto_epoch os st), g_udp_tx_seq st, g_udp_tx_datagram_id st) p1 @ r1, length p1 + 60)), st')"
    by (rule l2_split_ok [OF assms(1-4) assms(6-9) sz, of os]) (rule that; assumption)
  have "buf ! 14 = take n buf ! 14" using b by simp
  also have "\<dots> = p0 ! 0" using f(1-3) by (simp add: nth_append)
  finally have p0: "buf ! 14 = p0 ! 0" .
  have fp: "first_part_ok p0" using b f(3) p0 by (simp add: first_part_ok_def)
  have l: "14 + length p0 + length p1 \<le> 9216" using b f assms(7) by simp
  have t: "\<not> L2_FRAG_TIMEOUT_NS < t2 - t1" using assms(14) by simp
  have sizes: "length p0 + 60 \<le> 14 + 9000" "length p1 + 60 \<le> 14 + 9000" using b f assms(7) by auto
  show ?thesis
    unfolding f(1)
    using eq sizes
      delivers_in_order [where g = g and wi = wi, OF assms(1,2,5) f(2,5,6) assms(11-13) t fp l assms(15)]
      delivers_swapped [where g = g and wi = wi, OF assms(1,2,5) f(2,5,6) assms(11-13) t fp l assms(15)]
    by blast
qed

definition demo_jumbo :: bytes where
  "demo_jumbo = replicate 12 2 @ [0x08, 0x00] @ [0x45] @ replicate 8 0 @ [17] @ replicate 9192 0"

lemma demo_jumbo_nth:
  "demo_jumbo ! 12 = 0x08" "demo_jumbo ! 13 = 0x00" "demo_jumbo ! 14 = 0x45" "demo_jumbo ! 23 = 17"
  by (simp_all add: demo_jumbo_def nth_append)

lemma demo_jumbo_facts:
  "length demo_jumbo = 9216" "eth_read_et demo_jumbo 12 = ETH_P_IP"
  "l2_split_sizes demo_jumbo 9000 14 = Some (20, 8926, 32)"
proof -
  show "length demo_jumbo = 9216" by (simp add: demo_jumbo_def)
qed (simp_all add: demo_jumbo_nth eth_read_et_def eth_consts l2_split_sizes_def l2_sizes)

lemma zero_table_facts: "table_ok zero_table" "fresh ep did zero_table"
  by (simp_all add: table_ok_def zero_table_def entry_ok_def zero_entry_def l2_sizes fresh_def
      L2_FRAG_TABLE_SIZE_def no_key_def opt_occupied_def)

theorem split_reassemble_roundtrip_witness:
  "\<exists>f0 n0 f1 n1 st'. l2_crypto_split_udp demo_os demo_api demo_ctx demo_jumbo 9000 9216 demo_jumbo 9216 demo_l2
      = (Done ((f0, n0), (f1, n1)), st') \<and>
    delivers demo_api 3 demo_ctx (demo_l2, \<lambda>_. Some zero_table) demo_jumbo (f0, n0) 10 (f1, n1) 20 (take 9000 demo_jumbo) \<and>
    delivers demo_api 3 demo_ctx (demo_l2, \<lambda>_. Some zero_table) demo_jumbo (f1, n1) 10 (f0, n0) 20 (take 9000 demo_jumbo)"
  using split_reassemble_roundtrip [of demo_api demo_ctx demo_l2 demo_l2 demo_jumbo 9000 demo_jumbo
      "\<lambda>_. Some zero_table" 3 zero_table demo_os 20 10 demo_jumbo]
    demo_facts(1-3) demo_laws demo_jumbo_facts zero_table_facts
  by (auto simp: L2_FRAG_TIMEOUT_NS_def)

end
