(* ===== verification/L2_Safe.thy ===== *)
theory L2_Safe 
  imports L2_Reasm
begin

text \<open>
  Outcomes of the crypto entry points on the worker's buffers of 9216 bytes, for arbitrary packets: no
  write outside a buffer, buffers keep their size, and the thread's crypto state and the reassembly tables
  stay well formed.
\<close>

section \<open>The crypto state\<close>

lemma trf_ok_nonce:
  assumes "crypto_pqc_generate_nonce lib st = (r, st')" "aead_laws lib" "trf_ok st"
  shows "trf_ok st'"
  by (rule generate_nonce_ok [OF assms(2,3)]) (use assms(1) in simp)

lemma trf_ok_cipher: "crypto_pqc_tls_cipher lib enc st = (r, st') \<Longrightarrow> trf_ok st \<Longrightarrow> trf_ok st'"
  by (auto simp: crypto_pqc_tls_cipher_def trf_ok_def Let_def split: if_splits)

lemma trf_ok_payload:
  "crypto_pqc_encrypt_payload lib key nonce buf off n st = (r, st') \<Longrightarrow> trf_ok st \<Longrightarrow> trf_ok st'"
  "crypto_pqc_decrypt_payload_resilient lib ctx nonce buf off n st = (q, st') \<Longrightarrow> trf_ok st \<Longrightarrow> trf_ok st'"
  by (auto simp: crypto_pqc_encrypt_payload_def crypto_pqc_decrypt_payload_resilient_def
      split: prod.splits if_splits dest: trf_ok_cipher)

lemma trf_ok_meta: "l2_crypto_udp_tx_meta os st = (r, st') \<Longrightarrow> trf_ok st \<Longrightarrow> trf_ok st'"
  by (auto simp: l2_crypto_udp_tx_meta_def l2_crypto_epoch_def epoch_publish_def trf_ok_def Let_def split: if_splits prod.splits)

lemma mem_then_eqD:
  "mem_then m st f = (r, s') \<Longrightarrow> (\<And>x. m = Done x \<Longrightarrow> f x = (r, s') \<Longrightarrow> P s') \<Longrightarrow> P st \<Longrightarrow> P s'"
  by (cases m) auto

lemma trf_ok_decrypt:
  assumes "trf_ok st" "l2_do_decrypt lib ctx buf n st = (r, st')"
  shows "trf_ok st'"
  using assms by (auto simp: l2_do_decrypt_def Let_def split: option.splits prod.splits
      elim!: mem_then_eqD [where P = trf_ok] dest: trf_ok_payload)

lemma trf_ok_decrypt_udp:
  assumes "trf_ok st" "l2_do_decrypt_udp lib ctx buf n st = (r, st')"
  shows "trf_ok st'"
  using assms by (auto simp: l2_do_decrypt_udp_def Let_def split: option.splits prod.splits if_splits
      elim!: mem_then_eqD [where P = trf_ok] dest: trf_ok_payload)

lemma trf_ok_encrypt:
  assumes "aead_laws lib" "trf_ok st" "l2_do_encrypt lib ctx buf n st = (r, st')"
  shows "trf_ok st'"
  using assms
  by (auto simp: l2_do_encrypt_def Let_def split: option.splits prod.splits if_splits
      elim!: mem_then_eqD [where P = trf_ok] )
    (metis trf_ok_payload(1) trf_ok_nonce)+

lemma trf_ok_encrypt_udp:
  assumes "aead_laws lib" "trf_ok st" "l2_do_encrypt_udp os lib ctx buf n st = (r, st')"
  shows "trf_ok st'"
  using assms
  by (auto simp: l2_do_encrypt_udp_def Let_def split: option.splits prod.splits if_splits
      elim!: mem_then_eqD [where P = trf_ok] )
    (metis trf_ok_payload(1) trf_ok_nonce trf_ok_meta)+

section \<open>Encryption\<close>

lemma encrypt_outcome:
  assumes "aead_laws lib" "ctx_ok ctx" "trf_ok st" "n + 46 \<le> length buf"
    "l2_crypto_encrypt os lib pr ctx buf n st = (r, st')"
  shows "trf_ok st'" "r = Fail \<or> (\<exists>p k. r = Done (p, k) \<and> length p = length buf \<and> k \<le> n + 46)"
proof -
  show "trf_ok st'"
    using assms(1,3,5)
    by (auto simp: l2_crypto_encrypt_def l2_udp_encrypt_def l2_tcp_encrypt_def split: if_splits
        dest: trf_ok_encrypt trf_ok_encrypt_udp)
  show "r = Fail \<or> (\<exists>p k. r = Done (p, k) \<and> length p = length buf \<and> k \<le> n + 46)"
  proof (cases "pr = L2_PROTO_UDP")
    case True
    then have "l2_udp_encrypt os lib ctx buf n st = (r, st')" using assms(5) by (simp add: l2_crypto_encrypt_def)
    from udp_encrypt_outcome [OF assms(1-4) this] show ?thesis by (auto split: if_splits)
  next
    case False
    then have "l2_tcp_encrypt lib ctx buf n st = (r, st')" using assms(5) by (simp add: l2_crypto_encrypt_def)
    from tcp_encrypt_outcome [OF assms(1-3) _ this] assms(4) show ?thesis by (auto split: if_splits)
  qed
qed

lemma split_outcome:
  assumes "aead_laws lib" "ctx_ok ctx" "trf_ok st" "g_udp_tx_valid st" "n \<le> 9216" "length buf = 9216" "length aux = 9216"
    "l2_crypto_split_udp os lib ctx buf n 9216 aux 9216 st = (r, st')"
  shows "trf_ok st' \<and> (r = Fail \<or> (\<exists>p0 n0 p1 n1. r = Done ((p0, n0), (p1, n1)) \<and> n0 \<le> length p0 \<and> n1 \<le> length p1 \<and>
    n0 \<le> 9014 \<and> n1 \<le> 9014 \<and> length p0 = 9216 \<and> length p1 = 9216))"
proof (cases "34 \<le> n \<and> eth_read_et buf 12 = ETH_P_IP \<and> l2_split_sizes buf n 14 \<noteq> None")
  case True
  then obtain ihl h1 h2 where sz: "l2_split_sizes buf n 14 = Some (ihl, h1, h2)" by auto
  note b = split_sizes_bounds [OF sz]
  show ?thesis
    by (rule l2_split_ok [OF assms(1-4) _ assms(5-7) sz, of os])
      (use True assms(5,8) b in \<open>auto simp: length_wires(2) [OF assms(1) ctx_okD(2) [OF assms(2)]]\<close>)
next
  case False
  then have "r = Fail" "st' = st"
    using assms(8)
    by (cases "l2_split_sizes buf n 14";
        auto simp: l2_crypto_split_udp_def l2_udp_split_def l2_split_def ipv4_offset_eq split: if_splits)+
  then show ?thesis using assms(3) by simp
qed


section \<open>Decryption and reassembly\<close>

lemma decrypt_outcome:
  assumes "aead_laws lib" "trf_ok st" "n \<le> length buf" "l2_crypto_decrypt lib L2_PROTO_DATA ctx buf n st = (r, st')"
  shows "trf_ok st' \<and> r \<noteq> Fault \<and> (\<forall>p k. r = Done (p, k) \<longrightarrow> length p = length buf \<and> k \<le> n)"
proof -
  obtain q st1 where q: "l2_do_decrypt lib ctx buf n st = (q, st1)" by force
  show ?thesis
    using do_decrypt_in_bounds [OF assms(1,3) q] trf_ok_decrypt [OF assms(2) q] assms(2-4)
    by (auto simp: l2_crypto_decrypt_def l2_tcp_decrypt_def q split: if_splits)
qed

lemma entry_ok_prepare [simp]: "entry_ok (opt_prepare_entry e ep did sq now) = entry_ok e"
  by (simp add: opt_prepare_entry_def entry_ok_def Let_def opt_clear_entry_def)

lemma store_first_outcome:
  assumes "entry_ok e" "opt_store_first e ep did sq eth k data now = r"
  shows "r \<noteq> Fault" "r = Done e' \<Longrightarrow> entry_ok e'"
proof -
  let ?p = "opt_prepare_entry e ep did sq now"
  have l: "length (e_first ?p) = 9216" "length (e_second ?p) = 9216" "length (e_eth_hdr ?p) = 18"
    using assms(1) entry_ok_prepare [of e ep did sq now] by (auto simp: entry_ok_def)
  show "r \<noteq> Fault" "r = Done e' \<Longrightarrow> entry_ok e'"
    using assms(2) l by (auto simp: opt_store_first_def Let_def l2_sizes eth_consts mem_write_def entry_ok_def split: if_splits)
qed

lemma store_second_outcome:
  assumes "entry_ok e" "opt_store_second e ep did sq data now = r"
  shows "r \<noteq> Fault" "r = Done e' \<Longrightarrow> entry_ok e'"
proof -
  let ?p = "opt_prepare_entry e ep did sq now"
  have l: "length (e_first ?p) = 9216" "length (e_second ?p) = 9216" "length (e_eth_hdr ?p) = 18"
    using assms(1) entry_ok_prepare [of e ep did sq now] by (auto simp: entry_ok_def)
  show "r \<noteq> Fault" "r = Done e' \<Longrightarrow> entry_ok e'"
    using assms(2) l by (auto simp: opt_store_second_def Let_def l2_sizes mem_write_def entry_ok_def split: if_splits)
qed

lemma mem_write_total:
  "length bs \<le> k \<Longrightarrow> off + k \<le> length buf \<Longrightarrow> \<exists>b. mem_write buf off bs = Done b \<and> length b = length buf"
  by (auto simp: mem_write_def)

lemma emit_join_outcome:
  assumes "entry_ok e" "length out = 9216" "opt_emit_join e out = (r, e')"
  shows "entry_ok e' \<and> r \<noteq> Fault \<and> (\<forall>b k. r = Done (Some (b, k)) \<longrightarrow> length b = 9216 \<and> k \<le> 9216)"
proof -
  define h where "h = (if e_eth_len e \<noteq> 0 then e_eth_len e else ETH_HEADER_SIZE)"
  note j = assms(3) [unfolded opt_emit_join_def Let_def NE_JUMBO_FRAME_MAX_def, folded h_def]
  show ?thesis
  proof (cases "e_got_first e \<and> e_got_second e \<and> e_first_len e + e_second_len e + h \<le> 9216")
    case True
    obtain o1 where o1: "mem_write out 0 (take h (e_eth_hdr e)) = Done o1" "length o1 = 9216"
      using mem_write_total [of "take h (e_eth_hdr e)" h 0 out] True assms(2) by auto
    obtain o2 where o2: "mem_write o1 h (take (e_first_len e) (e_first e)) = Done o2" "length o2 = 9216"
      using mem_write_total [of "take (e_first_len e) (e_first e)" "e_first_len e" h o1] True o1(2) by auto
    obtain o3 where o3: "(if 0 < e_second_len e then mem_write o2 (h + e_first_len e) (take (e_second_len e) (e_second e))
        else Done o2) = Done o3" "length o3 = 9216"
      using mem_write_total [of "take (e_second_len e) (e_second e)" "e_second_len e" "h + e_first_len e" o2] True o2(2) by (cases "0 < e_second_len e") auto
    have "e' = opt_clear_entry e \<and> (\<exists>b. r = Done (Some (b, h + e_first_len e + e_second_len e)) \<and> length b = 9216)"
      using j True o1 o2 o3 by (auto simp: crypto_eth_set_ipv4_et_def)
    then show ?thesis using assms(1) True by auto
  next
    case False
    then show ?thesis
      using assms(1) j by (auto split: if_splits)
  qed
qed

definition tables_ok :: "(nat \<Rightarrow> opt_table option) \<Rightarrow> bool" where
  "tables_ok g \<longleftrightarrow> (\<forall>w ft. g w = Some ft \<longrightarrow> table_ok ft)"


lemma reassemble_outcome:
  assumes "table_ok ft" "length out = 9216" "l2_reassemble ft buf n ep did sq k out now = (r, ft')"
  shows "table_ok ft' \<and> r \<noteq> Fault \<and> (\<forall>b m. r = Done (Some (b, m)) \<longrightarrow> length b = 9216 \<and> m \<le> 9216)"
proof -
  obtain idx ft1 where pk: "opt_pick_slot ft ep did now = (idx, ft1)" by force
  have len: "length (entries ft) = 256" using assms(1) by (simp add: table_ok_def)
  note sp = pick_slot_facts [OF len pk]
  have t1: "table_ok ft1" "idx < 256"
    using sp purged_table_ok(1) [OF assms(1)] by (auto simp: slot_ok_def dest: window_bound)
  have e1: "entry_ok (entries ft1 ! idx)" "entry_ok (opt_clear_entry (entries ft1 ! idx))" using t1 by (auto simp: table_ok_def)
  have put: "table_ok (ft1\<lparr>entries := (entries ft1)[idx := e]\<rparr>)" if "entry_ok e" for e
    using t1 that by (auto simp: table_ok_def nth_list_update)
  define good where "good = (\<lambda>(r :: (bytes \<times> nat) option cres, f). table_ok f \<and> r \<noteq> Fault \<and>
    (\<forall>b m. r = Done (Some (b, m)) \<longrightarrow> length b = 9216 \<and> m \<le> 9216))"
  have join: "good (case opt_emit_join e out of (r, e2) \<Rightarrow> (r, ft1\<lparr>entries := (entries ft1)[idx := e2]\<rparr>))" if "entry_ok e" for e
    using emit_join_outcome [OF that assms(2)] put by (auto simp: good_def split: prod.splits)
  have fail: "good (Fail, f)" if "table_ok f" for f using that by (simp add: good_def)
  have first: "case opt_store_first (entries ft1 ! idx) ep did sq eth j data now of Fault \<Rightarrow> False | Done e \<Rightarrow> entry_ok e | Fail \<Rightarrow> True" for eth j data
    using store_first_outcome [OF e1(1) refl] by (auto split: cres.splits)
  have second: "case opt_store_second e ep did sq data now of Fault \<Rightarrow> False | Done e \<Rightarrow> entry_ok e | Fail \<Rightarrow> True" if "entry_ok e" for e data
    using store_second_outcome [OF that refl] by (auto split: cres.splits)
  have "good (l2_reassemble ft buf n ep did sq k out now)"
  proof (cases "l2_wire_prefix_len buf n")
    case None
    then show ?thesis using fail [OF assms(1)] by (simp add: l2_reassemble_def)
  next
    case (Some w)
    let ?in = "mem_read buf w (n - w)"
    let ?e = "if opt_occupied (entries ft1 ! idx) \<and> e_epoch (entries ft1 ! idx) = ep \<and>
      e_datagram_id (entries ft1 ! idx) = did \<and> opt_expired now (entries ft1 ! idx)
      then opt_clear_entry (entries ft1 ! idx) else entries ft1 ! idx"
    have e: "entry_ok ?e" using e1 by simp
    have "good (mem_then (opt_store_first (entries ft1 ! idx) ep did sq (take w buf) w ?in now) ft1 (\<lambda>e1.
        case opt_emit_join e1 out of (r, e2) \<Rightarrow> (r, ft1\<lparr>entries := (entries ft1)[idx := e2]\<rparr>)))"
      using first [of "take w buf" w ?in] join fail t1(1) by (auto simp: mem_then_def split: cres.splits)
    moreover have "good (mem_then (opt_store_second ?e ep did sq ?in now) (ft1\<lparr>entries := (entries ft1)[idx := ?e]\<rparr>) (\<lambda>e1.
        case opt_emit_join e1 out of (r, e2) \<Rightarrow> (r, ft1\<lparr>entries := (entries ft1)[idx := e2]\<rparr>)))"
      using second [OF e, of ?in] join fail put [OF e] by (auto simp: mem_then_def simp del: if_split split: cres.splits)
    ultimately show ?thesis
      using fail [OF assms(1)] fail [OF t1(1)]
      unfolding l2_reassemble_def Some pk Let_def by (simp del: mem_then_simps)
  qed
  then show ?thesis unfolding assms(3) by (simp add: good_def)
qed

lemma reasm_outcome:
  assumes "aead_laws lib" "trf_ok st" "tables_ok g" "n \<le> length buf" "length buf = 9216" "length out = 9216"
    "l2_crypto_reassemble_udp calloc_ok lib wi ctx buf n out now (st, g) = (r, (st', g'))"
  shows "trf_ok st' \<and> tables_ok g' \<and> r \<noteq> Fault \<and> (\<forall>b m. r = Done (Some (b, m)) \<longrightarrow> length b = 9216 \<and> m \<le> 9216)"
proof -
  obtain q st1 where q: "l2_do_decrypt_udp lib ctx buf n st = (q, st1)" by force
  note b = do_decrypt_udp_in_bounds [OF assms(1,4) q] and t = trf_ok_decrypt_udp [OF assms(2) q]
  have z: "table_ok zero_table" by (rule zero_table_facts)
  show ?thesis
  proof (cases q)
    case (Done x)
    obtain p nd k ep sq did where x: "x = (p, nd, k, ep, sq, did)" by (metis prod_cases6)
    have l: "length p = 9216" "nd \<le> 9216" using b Done x assms(4,5) by auto
    obtain o1 where o1: "mem_write out 0 (take nd p) = Done o1" "length o1 = 9216"
      using mem_write_total [of "take nd p" nd 0 out] l assms(6) by auto
    obtain fo g1 where g1: "opt_table_get calloc_ok wi True g = (fo, g1)" by force
    have tg: "tables_ok g1" "fo = Some ft \<Longrightarrow> table_ok ft" for ft
      using g1 assms(3) z by (auto simp: opt_table_get_def tables_ok_def Let_def split: option.splits if_splits)
    show ?thesis
    proof (cases "k = L2_UDP_KIND_FULL \<or> L2_UDP_KIND_FRAG1 < k \<or> fo = None")
      case True
      then show ?thesis
        using assms(3,7) t l o1 tg(1)
        by (auto simp: l2_crypto_reassemble_udp_def l2_udp_reasm_def q Done x g1 split: if_splits)
    next
      case False
      then obtain ft where ft: "fo = Some ft" by auto
      obtain rr ft' where rr: "l2_reassemble ft p nd ep did sq k out now = (rr, ft')" by force
      have "r = rr" "st' = st1" "g' = g1(opt_table_idx wi := Some ft')"
        using assms(7) False by (auto simp: l2_crypto_reassemble_udp_def l2_udp_reasm_def q Done x g1 ft rr)
      then show ?thesis
        using reassemble_outcome [OF tg(2) [OF ft] assms(6) rr] t tg(1) by (auto simp: tables_ok_def)
    qed
  qed (use assms(3,7) b t in \<open>auto simp: l2_crypto_reassemble_udp_def l2_udp_reasm_def q\<close>)
qed

end
