(* ===== verification/Flow_Route.thy ===== *)
theory Flow_Route
  imports Cpu_Map Ring
begin

unbundle bit_operations_syntax

text \<open>
  \<^verbatim>\<open>src/core/dataplane/packet_util.c\<close> (flow parsing) and \<^verbatim>\<open>src/core/dataplane/crypto_route.c\<close>: the
  flow hash, the route table of 8192 sets of eight immutable entries that pins a flow to a crypto
  worker and a TX slot, the choice of the least loaded worker, and the per-flow UDP sequence
  numbers with their thread-local fallback. \<open>route_state\<close> holds the process-wide tables together
  with the variables of the calling thread; \<^verbatim>\<open>uint_fast32_t\<close> has 64 bits on the target.
\<close>

section \<open>Flow parsing\<close>

definition le32 :: "u8 \<Rightarrow> u8 \<Rightarrow> u8 \<Rightarrow> u8 \<Rightarrow> u32" where
  \<comment> \<open>a 32-bit load on the little-endian target\<close>
  "le32 a b c d = be32 d c b a"

definition ntohl :: "u32 \<Rightarrow> u32" where
  "ntohl w = be32 (ucast w) (ucast (drop_bit 8 w)) (ucast (drop_bit 16 w)) (ucast (drop_bit 24 w))"

definition IPPROTO_ICMP :: u8 where "IPPROTO_ICMP = 1"
definition IPPROTO_TCP :: u8 where "IPPROTO_TCP = 6"
definition IPPROTO_UDP :: u8 where "IPPROTO_UDP = 17"

record flow_tuple =
  src_ip :: u32
  dst_ip :: u32
  src_port :: u16
  dst_port :: u16
  proto :: u8

definition dp_parse_flow :: "bytes \<Rightarrow> nat \<Rightarrow> flow_tuple option" where
  "dp_parse_flow pkt_data pkt_len =
     (case crypto_eth_ipv4_offset pkt_data pkt_len of
        None \<Rightarrow> None
      | Some l3_off \<Rightarrow>
          let b = (\<lambda>i. pkt_data ! (l3_off + i));
              ihl = unat (b 0 AND 0x0F) * 4 in
          if ihl < 20 \<or> pkt_len < l3_off + ihl then None else
          let protocol = b 9;
              sip = le32 (b 12) (b 13) (b 14) (b 15);
              dip = le32 (b 16) (b 17) (b 18) (b 19) in
          if protocol = IPPROTO_TCP \<or> protocol = IPPROTO_UDP then
            let l4 = l3_off + ihl in
            if pkt_len < l4 + 4 then None
            else Some \<lparr>src_ip = sip, dst_ip = dip,
                   src_port = be16 (pkt_data ! l4) (pkt_data ! (l4 + 1)),
                   dst_port = be16 (pkt_data ! (l4 + 2)) (pkt_data ! (l4 + 3)), proto = protocol\<rparr>
          else Some \<lparr>src_ip = sip, dst_ip = dip, src_port = 0, dst_port = 0, proto = protocol\<rparr>)"

section \<open>Hashing\<close>

definition dp_flow_hash_mix :: "u32 \<Rightarrow> u32 \<Rightarrow> u16 \<Rightarrow> u16 \<Rightarrow> u8 \<Rightarrow> u32" where
  "dp_flow_hash_mix sip dip sport dport protocol =
     (let h = sip XOR dip;
          h = h XOR (push_bit 16 (ucast sport) OR ucast dport);
          h = h XOR ucast protocol;
          h = h XOR drop_bit 16 h;
          h = h * 0x85ebca6b;
          h = h XOR drop_bit 13 h;
          h = h * 0xc2b2ae35
      in h XOR drop_bit 16 h)"

definition dp_hash_to_n :: "u32 \<Rightarrow> u32 \<Rightarrow> nat" where
  "dp_hash_to_n hash n =
     (if n = 0 then 0
      else if n AND (n - 1) = 0 then unat (hash AND (n - 1))
      else unat (hash mod n))"

definition dp_pkt_flow_hash :: "bytes \<Rightarrow> nat \<Rightarrow> u32" where
  "dp_pkt_flow_hash pkt len =
     (if len < 14 then 0
      else case dp_parse_flow pkt len of
        None \<Rightarrow>
          let hash = fold (\<lambda>i h. h * 31 + ucast (pkt ! i)) [0..<min 14 len] (of_nat len)
          in dp_flow_hash_mix hash (drop_bit 16 hash) (of_nat len) 0 0
      | Some f \<Rightarrow> dp_flow_hash_mix (ntohl (src_ip f)) (ntohl (dst_ip f)) (src_port f) (dst_port f) (proto f))"

section \<open>Keys\<close>

record dp_route_key =
  ip_a :: u32
  ip_b :: u32
  port_a :: u16
  port_b :: u16
  protocol :: u8

definition dp_route_key_from_tuple :: "flow_tuple \<Rightarrow> (dp_route_key \<times> nat) option" where
  \<comment> \<open>the key and \<^verbatim>\<open>*dir_out\<close>\<close>
  "dp_route_key_from_tuple f =
     (if proto f \<noteq> IPPROTO_TCP \<and> proto f \<noteq> IPPROTO_UDP then None
      else
        let ia = ntohl (src_ip f); ib = ntohl (dst_ip f); pa = src_port f; pb = dst_port f in
        if ia > ib \<or> (ia = ib \<and> pa > pb)
        then Some (\<lparr>ip_a = ib, ip_b = ia, port_a = pb, port_b = pa, protocol = proto f\<rparr>, 1)
        else Some (\<lparr>ip_a = ia, ip_b = ib, port_a = pa, port_b = pb, protocol = proto f\<rparr>, 0))"

definition dp_route_key_parse_direction :: "bytes \<Rightarrow> nat \<Rightarrow> (dp_route_key \<times> nat) option" where
  "dp_route_key_parse_direction pkt len = Option.bind (dp_parse_flow pkt len) dp_route_key_from_tuple"

definition dp_route_key_parse :: "bytes \<Rightarrow> nat \<Rightarrow> dp_route_key option" where
  "dp_route_key_parse pkt len = map_option fst (dp_route_key_parse_direction pkt len)"

definition dp_route_key_hash :: "dp_route_key \<Rightarrow> u32" where
  "dp_route_key_hash key = dp_flow_hash_mix (ip_a key) (ip_b key) (port_a key) (port_b key) (protocol key)"

definition dp_route_key_equal :: "dp_route_key \<Rightarrow> dp_route_key \<Rightarrow> bool" where
  "dp_route_key_equal a b \<longleftrightarrow> ip_a a = ip_a b \<and> ip_b a = ip_b b \<and> port_a a = port_a b \<and>
     port_b a = port_b b \<and> protocol a = protocol b"

section \<open>State\<close>

record dp_route_entry =
  re_key :: dp_route_key
  re_udp_tx_seq :: "u64 list"
  re_worker_idx :: nat
  re_tx_slot :: nat
  re_valid :: bool

record dp_flow_route =
  worker_idx :: nat
  tx_slot :: nat

record dp_udp_seq_fallback =
  fb_key :: dp_route_key
  fb_next_seq :: "u32 list"
  fb_stamp :: u32
  fb_valid :: bool

record route_state =
  g_route_table :: "nat \<Rightarrow> dp_route_entry list"
  g_worker_connection_count :: "u64 list"
  g_tx_connection_count :: "u64 list"
  g_worker_rr :: u32
  g_tx_rr :: u32
  g_active_tx_slots :: u32
  tls_crypto_worker_idx :: int
  tls_out_ring_idx :: nat
  tls_udp_seq_fallback :: "nat \<Rightarrow> dp_udp_seq_fallback list"
  tls_udp_seq_stamp :: u32

definition DP_ROUTE_SET_COUNT :: u32 where "DP_ROUTE_SET_COUNT = 8192"
definition DP_ROUTE_WAYS :: nat where "DP_ROUTE_WAYS = 8"
definition DP_UDP_SEQ_FALLBACK_SETS :: u32 where "DP_UDP_SEQ_FALLBACK_SETS = 256"
definition DP_UDP_SEQ_FALLBACK_WAYS :: nat where "DP_UDP_SEQ_FALLBACK_WAYS = 4"

definition dp_active_tx_slots :: "route_state \<Rightarrow> u32" where
  "dp_active_tx_slots st =
     (let n = g_active_tx_slots st
      in if 0 < n \<and> n \<le> of_nat NE_TX_SLOTS then n else 1)"

definition dp_route_set_active_tx_slots :: "u32 \<Rightarrow> route_state \<Rightarrow> route_state" where
  "dp_route_set_active_tx_slots n st =
     (let n = (if n = 0 then 1 else n);
          n = (if of_nat NE_TX_SLOTS < n then of_nat NE_TX_SLOTS else n)
      in st\<lparr>g_active_tx_slots := n\<rparr>)"

definition dp_out_ring_bind :: "int \<Rightarrow> route_state \<Rightarrow> route_state" where
  "dp_out_ring_bind ring_idx st =
     st\<lparr>tls_out_ring_idx :=
         (if ring_idx < 0 \<or> int (unat (dp_active_tx_slots st)) \<le> ring_idx then 0 else nat ring_idx)\<rparr>"

definition dp_out_ring_idx :: "route_state \<Rightarrow> nat" where
  "dp_out_ring_idx st = tls_out_ring_idx st"

definition dp_crypto_worker_bind :: "int \<Rightarrow> route_state \<Rightarrow> route_state" where
  "dp_crypto_worker_bind w st =
     (let w = (if w < 0 \<or> int NE_CRYPTO_WORKERS \<le> w then 0 else w)
      in st\<lparr>tls_crypto_worker_idx := w,
            tls_out_ring_idx := nat w mod unat (dp_active_tx_slots st)\<rparr>)"

definition dp_crypto_current_worker_idx :: "route_state \<Rightarrow> int" where
  "dp_crypto_current_worker_idx st = tls_crypto_worker_idx st"

fun first_index :: "('a \<Rightarrow> bool) \<Rightarrow> nat \<Rightarrow> 'a list \<Rightarrow> nat option" where
  "first_index P i [] = None"
| "first_index P i (x # xs) = (if P x then Some i else first_index P (i + 1) xs)"

definition dp_crypto_worker_idx_for_cpu :: "u8 \<Rightarrow> nat option" where
  "dp_crypto_worker_idx_for_cpu cpu_id = first_index (\<lambda>c. c = cpu_id) 0 NE_CPU_CRYPTO"

section \<open>Choosing and remembering a route\<close>

text \<open>The loop of \<^verbatim>\<open>dp_route_least_loaded\<close> with its running minimum.\<close>

fun least_loaded_loop :: "u64 list \<Rightarrow> nat \<Rightarrow> u32 \<Rightarrow> nat \<Rightarrow> nat \<Rightarrow> u64 \<Rightarrow> nat \<Rightarrow> nat" where
  "least_loaded_loop counts cnt start 0 off best_count best = best"
| "least_loaded_loop counts cnt start (Suc k) off best_count best =
     (let idx = unat (start + of_nat off) mod cnt;
          load = counts ! idx
      in if load < best_count then least_loaded_loop counts cnt start k (off + 1) load idx
         else least_loaded_loop counts cnt start k (off + 1) best_count best)"

definition dp_route_least_loaded :: "u64 list \<Rightarrow> nat \<Rightarrow> u32 \<Rightarrow> nat \<times> u32" where
  \<comment> \<open>the choice and the advanced cursor\<close>
  "dp_route_least_loaded counts cnt cursor =
     (least_loaded_loop counts cnt cursor cnt 0 (- 1) 0, cursor + 1)"

definition route_set_idx :: "u32 \<Rightarrow> nat" where
  "route_set_idx hash = unat (hash AND (DP_ROUTE_SET_COUNT - 1))"

definition route_lookup :: "dp_route_key \<Rightarrow> dp_route_entry list \<Rightarrow> nat option" where
  "route_lookup key rset = first_index (\<lambda>e. re_valid e \<and> dp_route_key_equal (re_key e) key) 0 rset"

text \<open>The scan under the insert lock: \<open>Inl\<close> the way that holds the key, or \<open>Inr\<close> the first free way.\<close>

fun route_scan :: "dp_route_key \<Rightarrow> nat \<Rightarrow> nat option \<Rightarrow> dp_route_entry list \<Rightarrow> nat + nat option" where
  "route_scan key way free [] = Inr free"
| "route_scan key way free (e # es) =
     (if \<not> re_valid e
      then route_scan key (way + 1) (case free of None \<Rightarrow> Some way | Some _ \<Rightarrow> free) es
      else if dp_route_key_equal (re_key e) key then Inl way
      else route_scan key (way + 1) free es)"

definition entry_route :: "dp_route_entry \<Rightarrow> dp_flow_route" where
  "entry_route e = \<lparr>worker_idx = re_worker_idx e, tx_slot = re_tx_slot e\<rparr>"

definition hash_route :: "u32 \<Rightarrow> route_state \<Rightarrow> dp_flow_route" where
  "hash_route hash st =
     \<lparr>worker_idx = dp_hash_to_n hash (of_nat NE_CRYPTO_WORKERS),
      tx_slot = dp_hash_to_n hash (dp_active_tx_slots st)\<rparr>"

definition dp_flow_route_get_key ::
  "dp_route_key \<Rightarrow> int \<Rightarrow> route_state \<Rightarrow> dp_flow_route \<times> route_state" where
  "dp_flow_route_get_key key worker_hint st =
     (let hash = dp_route_key_hash key;
          si = route_set_idx hash;
          rset = g_route_table st si in
      case route_lookup key rset of
        Some way \<Rightarrow> (entry_route (rset ! way), st)
      | None \<Rightarrow>
          (case route_scan key 0 None rset of
             Inl way \<Rightarrow> (entry_route (rset ! way), st)
           | Inr None \<Rightarrow> (hash_route hash st, st)
           | Inr (Some free) \<Rightarrow>
               let (w, st1) =
                     (if 0 \<le> worker_hint \<and> worker_hint < int NE_CRYPTO_WORKERS then (nat worker_hint, st)
                      else let (b, c) = dp_route_least_loaded (g_worker_connection_count st)
                                          NE_CRYPTO_WORKERS (g_worker_rr st)
                           in (b, st\<lparr>g_worker_rr := c\<rparr>));
                   (t, c2) = dp_route_least_loaded (g_tx_connection_count st1)
                               (unat (dp_active_tx_slots st1)) (g_tx_rr st1);
                   e = \<lparr>re_key = key, re_udp_tx_seq = [0, 0], re_worker_idx = w, re_tx_slot = t,
                        re_valid = True\<rparr>
               in (\<lparr>worker_idx = w, tx_slot = t\<rparr>,
                   st1\<lparr>g_tx_rr := c2,
                       g_worker_connection_count := (g_worker_connection_count st1)
                         [w := g_worker_connection_count st1 ! w + 1],
                       g_tx_connection_count := (g_tx_connection_count st1)
                         [t := g_tx_connection_count st1 ! t + 1],
                       g_route_table := (g_route_table st1)(si := rset[free := e])\<rparr>)))"

definition dp_flow_route_get ::
  "bytes \<Rightarrow> nat \<Rightarrow> int \<Rightarrow> route_state \<Rightarrow> dp_flow_route \<times> route_state" where
  "dp_flow_route_get pkt len worker_hint st =
     (case dp_route_key_parse pkt len of
        None \<Rightarrow> (hash_route (dp_pkt_flow_hash pkt len) st, st)
      | Some key \<Rightarrow> dp_flow_route_get_key key worker_hint st)"

definition dp_pick_tx_slot :: "bytes \<Rightarrow> nat \<Rightarrow> route_state \<Rightarrow> nat" where
  "dp_pick_tx_slot pkt len st =
     (case dp_route_key_parse pkt len of
        Some key \<Rightarrow> dp_hash_to_n (dp_route_key_hash key) (dp_active_tx_slots st)
      | None \<Rightarrow> dp_hash_to_n (dp_pkt_flow_hash pkt len) (dp_active_tx_slots st))"

definition dp_crypto_pick_local_worker :: "bytes \<Rightarrow> nat \<Rightarrow> route_state \<Rightarrow> (nat \<times> nat) \<times> route_state" where
  \<comment> \<open>the worker and \<^verbatim>\<open>*tx_slot_out\<close>\<close>
  "dp_crypto_pick_local_worker pkt len st =
     (let (route, st') = dp_flow_route_get pkt len (- 1) st in ((worker_idx route, tx_slot route), st'))"

definition dp_flow_pick_tx_slot :: "bytes \<Rightarrow> nat \<Rightarrow> int \<Rightarrow> route_state \<Rightarrow> nat \<times> route_state" where
  "dp_flow_pick_tx_slot pkt len worker_hint st =
     (let (route, st') = dp_flow_route_get pkt len worker_hint st in (tx_slot route, st'))"

definition dp_crypto_pick_wan_worker :: "bool \<Rightarrow> bytes \<Rightarrow> nat \<Rightarrow> nat option" where
  \<comment> \<open>\<open>has_cfg\<close> is \<^verbatim>\<open>fwd->cfg != NULL\<close>; the null tests of the pointers themselves have no counterpart\<close>
  "dp_crypto_pick_wan_worker has_cfg pkt len =
     (if \<not> has_cfg \<or> \<not> crypto_eth_l2_has_marker pkt len then None
      else case crypto_eth_l2_read_worker_idx pkt len of
        None \<Rightarrow> None
      | Some wire_id \<Rightarrow>
          if unat wire_id < NE_CRYPTO_WORKERS then Some (unat wire_id)
          else dp_crypto_worker_idx_for_cpu wire_id)"

section \<open>UDP sequence numbers\<close>

definition entry_take_seq ::
  "nat \<Rightarrow> nat \<Rightarrow> nat \<Rightarrow> route_state \<Rightarrow> u32 \<times> route_state" where
  \<comment> \<open>\<^verbatim>\<open>atomic_fetch_add(&set[way].udp_tx_seq[direction], 1)\<close>\<close>
  "entry_take_seq si way direction st =
     (let rset = g_route_table st si;
          e = rset ! way;
          n = re_udp_tx_seq e ! direction
      in (ucast n,
          st\<lparr>g_route_table := (g_route_table st)
              (si := rset[way := e\<lparr>re_udp_tx_seq := (re_udp_tx_seq e)[direction := n + 1]\<rparr>])\<rparr>))"

text \<open>The fallback loop: \<open>Inl\<close> the way that holds the key, else \<open>Inr\<close> the victim.\<close>

fun fallback_scan :: "dp_route_key \<Rightarrow> dp_udp_seq_fallback list \<Rightarrow> nat \<Rightarrow> nat \<Rightarrow> nat \<Rightarrow> nat + nat" where
  "fallback_scan key fs 0 way victim = Inr victim"
| "fallback_scan key fs (Suc k) way victim =
     (let f = fs ! way in
      if fb_valid f \<and> dp_route_key_equal (fb_key f) key then Inl way
      else if \<not> fb_valid f then fallback_scan key fs k (way + 1) way
      else if fb_stamp f < fb_stamp (fs ! victim) then fallback_scan key fs k (way + 1) way
      else fallback_scan key fs k (way + 1) victim)"

definition fallback_take_seq ::
  "dp_route_key \<Rightarrow> u32 \<Rightarrow> nat \<Rightarrow> route_state \<Rightarrow> u32 \<times> route_state" where
  "fallback_take_seq key hash direction st =
     (let fi = unat (hash AND (DP_UDP_SEQ_FALLBACK_SETS - 1));
          fs = tls_udp_seq_fallback st fi;
          stamp = tls_udp_seq_stamp st + 1 in
      case fallback_scan key fs DP_UDP_SEQ_FALLBACK_WAYS 0 0 of
        Inl way \<Rightarrow>
          let f = fs ! way; n = fb_next_seq f ! direction in
          (n, st\<lparr>tls_udp_seq_stamp := stamp,
                 tls_udp_seq_fallback := (tls_udp_seq_fallback st)
                   (fi := fs[way := f\<lparr>fb_stamp := stamp,
                                      fb_next_seq := (fb_next_seq f)[direction := n + 1]\<rparr>])\<rparr>)
      | Inr victim \<Rightarrow>
          (0, st\<lparr>tls_udp_seq_stamp := stamp,
                 tls_udp_seq_fallback := (tls_udp_seq_fallback st)
                   (fi := fs[victim := \<lparr>fb_key = key, fb_next_seq = [0, 0][direction := 1],
                                        fb_stamp = stamp, fb_valid = True\<rparr>])\<rparr>))"

definition dp_next_udp_tx_seq :: "bytes \<Rightarrow> nat \<Rightarrow> route_state \<Rightarrow> u32 option \<times> route_state" where
  "dp_next_udp_tx_seq pkt len st =
     (case dp_route_key_parse_direction pkt len of
        None \<Rightarrow> (None, st)
      | Some (key, direction) \<Rightarrow>
          if protocol key \<noteq> IPPROTO_UDP \<and> protocol key \<noteq> IPPROTO_ICMP then (None, st)
          else
            let hash = dp_route_key_hash key;
                si = route_set_idx hash in
            (case route_lookup key (g_route_table st si) of
               Some way \<Rightarrow> apfst Some (entry_take_seq si way direction st)
             | None \<Rightarrow>
                 let (_, st1) = dp_flow_route_get pkt len (dp_crypto_current_worker_idx st) st in
                 (case route_lookup key (g_route_table st1 si) of
                    Some way \<Rightarrow> apfst Some (entry_take_seq si way direction st1)
                  | None \<Rightarrow> apfst Some (fallback_take_seq key hash direction st1))))"

definition dp_udp_next_tx_seq :: "bytes \<Rightarrow> nat \<Rightarrow> route_state \<Rightarrow> u32 option \<times> route_state" where
  "dp_udp_next_tx_seq pkt len st = dp_next_udp_tx_seq pkt len st"

section \<open>Hash reduction\<close>

lemma hash_to_n_mod:
  assumes "n \<noteq> 0"
  shows "dp_hash_to_n hash n = unat hash mod unat n"
proof (cases "n AND (n - 1) = 0")
  case True
  then have "pow2_cap n" using assms by (simp add: pow2_cap_def)
  then show ?thesis using ring_slot_mod [of n hash 0] True assms by (simp add: dp_hash_to_n_def ring_slot_def)
qed (use assms in \<open>simp add: dp_hash_to_n_def unat_mod\<close>)

lemma hash_to_n_less: "n \<noteq> 0 \<Longrightarrow> dp_hash_to_n hash n < unat n"
  by (simp add: hash_to_n_mod unat_gt_0)

lemma active_slots_range: "0 < unat (dp_active_tx_slots st)" "unat (dp_active_tx_slots st) \<le> 4"
  "dp_active_tx_slots st \<noteq> 0"
proof -
  have "dp_active_tx_slots st \<noteq> 0 \<and> dp_active_tx_slots st \<le> 4"
    by (auto simp: dp_active_tx_slots_def Let_def word_gt_0)
  then show "0 < unat (dp_active_tx_slots st)" "unat (dp_active_tx_slots st) \<le> 4" "dp_active_tx_slots st \<noteq> 0"
    by (auto simp: word_le_nat_alt unat_gt_0)
qed

section \<open>Scanning a set\<close>

lemma first_index_SomeD:
  "first_index P i xs = Some k \<Longrightarrow> i \<le> k \<and> k - i < length xs \<and> P (xs ! (k - i))"
  by (induction xs arbitrary: i) (force split: if_splits simp: Suc_le_eq Suc_diff_Suc nth_Cons')+

lemma first_index_update:
  "k < length xs \<Longrightarrow> P y = P (xs ! k) \<Longrightarrow> first_index P i (xs[k := y]) = first_index P i xs"
  by (induction xs arbitrary: i k) (auto split: nat.splits)

lemma first_index_None: "first_index P i xs = None \<longleftrightarrow> (\<forall>x\<in>set xs. \<not> P x)"
  by (induction xs arbitrary: i) auto

lemma key_equal_iff [simp]: "dp_route_key_equal a b \<longleftrightarrow> a = b"
  by (cases a; cases b) (auto simp: dp_route_key_equal_def)

lemma lookup_SomeD:
  "route_lookup key s = Some w \<Longrightarrow> w < length s \<and> re_valid (s ! w) \<and> re_key (s ! w) = key"
  by (auto simp: route_lookup_def dest!: first_index_SomeD)

lemma lookup_None: "route_lookup key s = None \<longleftrightarrow> (\<forall>e\<in>set s. re_valid e \<longrightarrow> re_key e \<noteq> key)"
  by (auto simp: route_lookup_def first_index_None)

lemma route_scan_spec:
  assumes "\<forall>e\<in>set es. re_valid e \<longrightarrow> re_key e \<noteq> key"
  shows "case route_scan key i free es of
      Inl _ \<Rightarrow> False
    | Inr None \<Rightarrow> free = None \<and> (\<forall>e\<in>set es. re_valid e)
    | Inr (Some k) \<Rightarrow> free = Some k \<or> (i \<le> k \<and> k - i < length es \<and> \<not> re_valid (es ! (k - i)))"
  using assms
proof (induction es arbitrary: i free)
  case (Cons e es)
  show ?case
  proof (cases "re_valid e")
    case True
    with Cons.prems have ne: "re_key e \<noteq> key" by simp
    have "case route_scan key (Suc i) free es of
      Inl _ \<Rightarrow> False
    | Inr None \<Rightarrow> free = None \<and> (\<forall>e\<in>set es. re_valid e)
    | Inr (Some k) \<Rightarrow> free = Some k \<or> (Suc i \<le> k \<and> k - Suc i < length es \<and> \<not> re_valid (es ! (k - Suc i)))"
      using Cons by simp
    then show ?thesis using True ne
      by (auto simp: nth_Cons' split: sum.splits option.splits)
  next
    case False
    let ?f = "case free of None \<Rightarrow> Some i | Some _ \<Rightarrow> free"
    have "case route_scan key (Suc i) ?f es of
      Inl _ \<Rightarrow> False
    | Inr None \<Rightarrow> ?f = None \<and> (\<forall>e\<in>set es. re_valid e)
    | Inr (Some k) \<Rightarrow> ?f = Some k \<or> (Suc i \<le> k \<and> k - Suc i < length es \<and> \<not> re_valid (es ! (k - Suc i)))"
      using Cons by simp
    then show ?thesis using False
      by (auto simp: nth_Cons' split: sum.splits option.splits)
  qed
qed (auto split: option.splits)

text \<open>What one lookup does, by cases: the flow is known, its set is full, or it takes a free way.\<close>

lemma get_key_cases:
  fixes st key hint
  defines "si \<equiv> route_set_idx (dp_route_key_hash key)"
  obtains (known) w where "route_lookup key (g_route_table st si) = Some w"
      "dp_flow_route_get_key key hint st = (entry_route (g_route_table st si ! w), st)"
  | (full) "route_lookup key (g_route_table st si) = None" "\<forall>e\<in>set (g_route_table st si). re_valid e"
      "dp_flow_route_get_key key hint st = (hash_route (dp_route_key_hash key) st, st)"
  | (insert) w st' e where "route_lookup key (g_route_table st si) = None"
      "w < length (g_route_table st si)" "\<not> re_valid (g_route_table st si ! w)"
      "dp_flow_route_get_key key hint st = (entry_route e, st')"
      "g_route_table st' = (g_route_table st)(si := (g_route_table st si)[w := e])"
      "re_valid e" "re_key e = key" "re_udp_tx_seq e = [0, 0]"
      "g_active_tx_slots st' = g_active_tx_slots st"
      "re_worker_idx e = (if 0 \<le> hint \<and> hint < 6 then nat hint
         else fst (dp_route_least_loaded (g_worker_connection_count st) 6 (g_worker_rr st)))"
      "re_tx_slot e = fst (dp_route_least_loaded (g_tx_connection_count st) (unat (dp_active_tx_slots st)) (g_tx_rr st))"
      "g_worker_connection_count st' = (g_worker_connection_count st)
         [re_worker_idx e := g_worker_connection_count st ! re_worker_idx e + 1]"
      "g_tx_connection_count st' = (g_tx_connection_count st)
         [re_tx_slot e := g_tx_connection_count st ! re_tx_slot e + 1]"
proof (cases "route_lookup key (g_route_table st si)")
  case (Some w)
  then show ?thesis using known by (simp add: dp_flow_route_get_key_def si_def)
next
  case None
  let ?s = "g_route_table st si"
  have nk: "\<forall>e\<in>set ?s. re_valid e \<longrightarrow> re_key e \<noteq> key" using None lookup_None by blast
  note sc = route_scan_spec [OF nk, where i = 0 and free = None]
  show ?thesis
  proof (cases "route_scan key 0 None ?s")
    case (Inr f)
    show ?thesis
    proof (cases f)
      case None
      then show ?thesis
        using full sc Inr \<open>route_lookup key ?s = None\<close> by (simp add: dp_flow_route_get_key_def si_def Let_def)
    next
      case (Some k)
      then have k: "k < length ?s" "\<not> re_valid (?s ! k)" using sc Inr by auto
      have act: "dp_active_tx_slots (st\<lparr>g_worker_rr := c\<rparr>) = dp_active_tx_slots st" for c
        by (simp add: dp_active_tx_slots_def)
      let ?w = "if 0 \<le> hint \<and> hint < 6 then nat hint
         else fst (dp_route_least_loaded (g_worker_connection_count st) 6 (g_worker_rr st))"
      let ?t = "fst (dp_route_least_loaded (g_tx_connection_count st) (unat (dp_active_tx_slots st)) (g_tx_rr st))"
      let ?e = "\<lparr>re_key = key, re_udp_tx_seq = [0, 0], re_worker_idx = ?w, re_tx_slot = ?t, re_valid = True\<rparr>"
      show ?thesis
        by (rule insert [of k ?e "snd (dp_flow_route_get_key key hint st)"])
          (use k Inr Some \<open>route_lookup key ?s = None\<close> in
            \<open>auto simp: dp_flow_route_get_key_def si_def Let_def entry_route_def act split: prod.splits\<close>)
    qed
  qed (use sc in auto)
qed

end
