(* ===== verification/Umem_Copy.thy ===== *)
theory Umem_Copy
  imports Umem_Props
begin

text \<open>
  What a packet stores: when the segments of a packet and the free frames occupy disjoint parts of the
  memory area, a payload written by \<^verbatim>\<open>ne_packet_write\<close> is what \<^verbatim>\<open>ne_packet_linearize\<close> reads back, and
  nothing else in the area changes.
\<close>

section \<open>Spans of memory\<close>

definition away :: "nat \<times> nat \<Rightarrow> nat \<times> nat \<Rightarrow> bool" where
  "away s t \<longleftrightarrow> fst s + snd s \<le> fst t \<or> fst t + snd t \<le> fst s"

definition seg_span :: "ne_packet \<Rightarrow> nat \<Rightarrow> nat \<times> nat" where
  "seg_span pkt i = (unat (packet_seg_addr pkt i), seg_room pkt i)"

definition spans :: "ne_pair \<Rightarrow> ne_packet \<Rightarrow> (nat \<times> nat) list" where
  "spans p pkt = map (seg_span pkt) [0..<packet_nsegs pkt] @
     map (\<lambda>a. (unat a, frame_size p)) (pool_list (pool p))"

definition spans_ok :: "ne_pair \<Rightarrow> ne_packet \<Rightarrow> bool" where
  "spans_ok p pkt \<longleftrightarrow> sorted_wrt away (spans p pkt) \<and> (\<forall>s\<in>set (spans p pkt). fst s + snd s \<le> length (bufs p))"

lemma away_sym: "away s t \<longleftrightarrow> away t s"
  by (auto simp: away_def)

lemma away_mono: "away (a, n) t \<Longrightarrow> m \<le> n \<Longrightarrow> away (a, m) t"
  by (auto simp: away_def)

lemma mem_copy_Done:
  assumes "mem_copy mem a src s n = Done mem'"
  shows "mem_read mem' a n = mem_read src s n" "away (a, n) (b, m) \<Longrightarrow> mem_read mem' b m = mem_read mem b m"
    "length mem' = length mem" "a + n \<le> length mem"
proof -
  have s: "s + n \<le> length src" and w: "mem_write mem a (mem_read src s n) = Done mem'"
    using assms by (auto simp: mem_copy_def split: if_splits)
  have l: "length (mem_read src s n) = n" using s by simp
  have m: "mem' = take a mem @ mem_read src s n @ drop (a + n) mem" and le: "a + n \<le> length mem"
    using mem_write_DoneD [OF w] l by auto
  show "mem_read mem' a n = mem_read src s n" unfolding m using le l by (intro mem_read_mid) auto
  show "length mem' = length mem" "a + n \<le> length mem" using le l m by auto
  show "mem_read mem' b m = mem_read mem b m" if "away (a, n) (b, m)"
  proof (cases "b + m \<le> a")
    case True
    have "take (b + m) mem' = take (b + m) mem" using True le by (simp add: m)
    then show ?thesis by (simp add: mem_read_def take_drop add.commute)
  next
    case False
    then have b: "a + n \<le> b" using that by (auto simp: away_def)
    then have "drop b mem' = drop (b - (a + n)) (drop (a + n) mem)" using le l by (simp add: m)
    then show ?thesis using b by (simp add: mem_read_def)
  qed
qed

lemma mem_copy_total: "a + n \<le> length mem \<Longrightarrow> s + n \<le> length src \<Longrightarrow> \<exists>mem'. mem_copy mem a src s n = Done mem'"
  by (simp add: mem_copy_def mem_write_def)

lemma mem_read_append: "mem_read buf off (m + n) = mem_read buf off m @ mem_read buf (off + m) n"
  by (simp add: mem_read_def take_add add.commute)

section \<open>The copy loop\<close>

definition stored :: "bytes \<Rightarrow> ne_packet \<Rightarrow> nat list \<Rightarrow> bytes" where
  "stored mem pkt is = concat (map (\<lambda>i. mem_read mem (unat (packet_seg_addr pkt i)) (seg_len pkt ! i)) is)"

text \<open>One round of the loop, as the four facts the inductions below use.\<close>

lemma packet_copy_step:
  assumes "packet_copy src want (i # is) off mem pkt = Done (mem', pkt', off')" "off \<le> want" "want \<le> length src"
  obtains n m where "n = min (seg_room pkt i) (want - off)"
    "packet_copy src want is (off + n) m (pkt\<lparr>seg_len := (seg_len pkt)[i := n]\<rparr>) = Done (mem', pkt', off')"
    "mem_read m (unat (packet_seg_addr pkt i)) n = mem_read src off n"
    "\<And>b k. away (unat (packet_seg_addr pkt i), n) (b, k) \<Longrightarrow> mem_read m b k = mem_read mem b k"
    "length m = length mem"
proof -
  define n where "n = min (seg_room pkt i) (want - off)"
  have n: "(if seg_room pkt i < want - off then seg_room pkt i else want - off) = n" by (simp add: n_def)
  obtain m where m: "(if n \<noteq> 0 then mem_copy mem (unat (packet_seg_addr pkt i)) src off n else Done mem) = Done m"
    "packet_copy src want is (off + n) m (pkt\<lparr>seg_len := (seg_len pkt)[i := n]\<rparr>) = Done (mem', pkt', off')"
    using assms(1) unfolding packet_copy.simps Let_def n cbind_eq_Done by blast
  show ?thesis
  proof (cases "n = 0")
    case True
    with m(1) show ?thesis by (intro that [OF n_def m(2)]) (auto simp: mem_read_def)
  next
    case False
    with m(1) have c: "mem_copy mem (unat (packet_seg_addr pkt i)) src off n = Done m" by simp
    show ?thesis by (rule that [OF n_def m(2)]) (use mem_copy_Done [OF c] in auto)
  qed
qed

lemma seg_span_update:
  "j \<noteq> i \<Longrightarrow> seg_span (pkt\<lparr>seg_len := (seg_len pkt)[i := n]\<rparr>) j = seg_span pkt j"
  "j \<noteq> i \<Longrightarrow> seg_room (pkt\<lparr>seg_len := (seg_len pkt)[i := n]\<rparr>) j = seg_room pkt j"
  by (simp_all add: seg_span_def seg_room_def)

lemma packet_copy_mem:
  assumes "packet_copy src want is off mem pkt = Done (mem', pkt', off')" "off \<le> want" "want \<le> length src"
    and "distinct is" "set is \<subseteq> {..<4}" "packet_shape pkt" "sorted_wrt away (map (seg_span pkt) is)"
  shows "stored mem' pkt' is = mem_read src off (off' - off) \<and> off \<le> off' \<and>
    off' = min want (off + sum_list (map (seg_room pkt) is)) \<and>
    (\<forall>b k. (\<forall>i\<in>set is. away (seg_span pkt i) (b, k)) \<longrightarrow> mem_read mem' b k = mem_read mem b k)"
  using assms
proof (induction "is" arbitrary: off mem pkt)
  case Nil
  then show ?case by (simp add: stored_def mem_read_def)
next
  case (Cons i "is")
  obtain n m where st: "n = min (seg_room pkt i) (want - off)"
    "packet_copy src want is (off + n) m (pkt\<lparr>seg_len := (seg_len pkt)[i := n]\<rparr>) = Done (mem', pkt', off')"
    "mem_read m (unat (packet_seg_addr pkt i)) n = mem_read src off n"
    "\<And>b k. away (unat (packet_seg_addr pkt i), n) (b, k) \<Longrightarrow> mem_read m b k = mem_read mem b k"
    by (rule packet_copy_step [OF Cons.prems(1-3)]) blast
  let ?q = "pkt\<lparr>seg_len := (seg_len pkt)[i := n]\<rparr>"
  have sp: "map (seg_span ?q) is = map (seg_span pkt) is" "map (seg_room ?q) is = map (seg_room pkt) is"
    using Cons.prems(4) by (auto intro!: seg_span_update map_cong)
  have "off + n \<le> want" "packet_shape ?q" "sorted_wrt away (map (seg_span ?q) is)"
    using Cons.prems(2,6,7) st(1) unfolding sp(1) by (auto simp: packet_shape_def)
  note IH = Cons.IH [OF st(2) this(1) Cons.prems(3) _ _ this(2,3), unfolded sp(2)]
  have "distinct is" "set is \<subseteq> {..<4}" using Cons.prems(4,5) by auto
  note IH = IH [OF this]
  have ih: "stored mem' pkt' is = mem_read src (off + n) (off' - (off + n))" "off + n \<le> off'"
    "off' = min want (off + n + sum_list (map (seg_room pkt) is))"
    "\<And>b k. \<forall>j\<in>set is. away (seg_span pkt j) (b, k) \<Longrightarrow> mem_read mem' b k = mem_read m b k"
    using IH sp(1) [unfolded map_eq_conv] by auto
  have k: "seg_len pkt' ! i = n" "packet_seg_addr pkt' = packet_seg_addr pkt"
    using packet_copy_keeps [OF st(2)] Cons.prems(4-6) by (auto simp: packet_shape_def)
  have "away (seg_span pkt j) (unat (packet_seg_addr pkt i), n)" if "j \<in> set is" for j
    using that Cons.prems(7) away_mono [of "unat (packet_seg_addr pkt i)" "seg_room pkt i" _ n] st(1)
    by (auto simp: seg_span_def away_sym)
  then have "mem_read mem' (unat (packet_seg_addr pkt i)) n = mem_read src off n" using ih(4) st(3) by simp
  then have "stored mem' pkt' (i # is) = mem_read src off (off' - off)"
    using ih(1,2) k mem_read_append [of src off n "off' - (off + n)"] by (simp add: stored_def)
  moreover have "mem_read mem' b k = mem_read mem b k" if "\<forall>j\<in>set (i # is). away (seg_span pkt j) (b, k)" for b k
    using that ih(4) st(4) st(1) away_mono by (auto simp: seg_span_def)
  moreover have "off' = min want (off + sum_list (map (seg_room pkt) (i # is)))"
    using ih(3) st(1) Cons.prems(2) by (auto simp: min_def)
  ultimately show ?case using ih(2) by auto
qed

lemma packet_copy_total:
  assumes "\<forall>i\<in>set is. fst (seg_span pkt i) + snd (seg_span pkt i) \<le> length mem" "off \<le> want" "want \<le> length src" "distinct is"
  shows "\<exists>x. packet_copy src want is off mem pkt = Done x"
  using assms
proof (induction "is" arbitrary: off mem pkt)
  case (Cons i "is")
  define n where "n = min (seg_room pkt i) (want - off)"
  have n: "(if seg_room pkt i < want - off then seg_room pkt i else want - off) = n" by (simp add: n_def)
  have "\<exists>m. mem_copy mem (unat (packet_seg_addr pkt i)) src off n = Done m"
    using Cons.prems by (intro mem_copy_total) (auto simp: n_def seg_span_def)
  then obtain m where m: "(if n \<noteq> 0 then mem_copy mem (unat (packet_seg_addr pkt i)) src off n else Done mem) = Done m"
    by (cases "n = 0") auto
  then have "length m = length mem" by (auto split: if_splits dest: mem_copy_Done)
  then have "\<exists>x. packet_copy src want is (off + n) m (pkt\<lparr>seg_len := (seg_len pkt)[i := n]\<rparr>) = Done x"
  proof (intro Cons.IH ballI)
    fix j assume "j \<in> set is"
    moreover from this have "seg_span (pkt\<lparr>seg_len := (seg_len pkt)[i := n]\<rparr>) j = seg_span pkt j"
      using Cons.prems(4) by (intro seg_span_update) auto
    ultimately show "fst (seg_span (pkt\<lparr>seg_len := (seg_len pkt)[i := n]\<rparr>) j) +
        snd (seg_span (pkt\<lparr>seg_len := (seg_len pkt)[i := n]\<rparr>) j) \<le> length m"
      using Cons.prems(1) \<open>length m = length mem\<close> by simp
  qed (use Cons.prems in \<open>auto simp: n_def\<close>)
  then show ?case unfolding packet_copy.simps Let_def n m by simp
qed simp


lemma packet_copy_done_zero:
  assumes "packet_copy src want is off mem pkt = Done (mem', pkt', off')" "off = want" "want \<le> length src"
    and "distinct is" "set is \<subseteq> {..<4}" "packet_shape pkt"
  shows "\<forall>i\<in>set is. seg_len pkt' ! i = 0"
  using assms
proof (induction "is" arbitrary: off mem pkt)
  case (Cons i "is")
  have le: "off \<le> want" using Cons.prems(2) by simp
  obtain n m where st: "n = min (seg_room pkt i) (want - off)"
    "packet_copy src want is (off + n) m (pkt\<lparr>seg_len := (seg_len pkt)[i := n]\<rparr>) = Done (mem', pkt', off')"
    by (rule packet_copy_step [OF Cons.prems(1) le Cons.prems(3)]) blast
  have "n = 0" using st(1) Cons.prems(2) by simp
  moreover have "seg_len pkt' ! i = n"
    using packet_copy_keeps [OF st(2)] Cons.prems(4-6) by (auto simp: packet_shape_def)
  moreover have "\<forall>j\<in>set is. seg_len pkt' ! j = 0"
    by (rule Cons.IH [OF st(2)]) (use Cons.prems \<open>n = 0\<close> in \<open>auto simp: packet_shape_def\<close>)
  ultimately show ?case by simp
qed simp

lemma packet_copy_zero_tail:
  assumes "packet_copy src want is off mem pkt = Done (mem', pkt', off')" "off \<le> want" "want \<le> length src"
    and "distinct is" "set is \<subseteq> {..<4}" "packet_shape pkt" "\<forall>i\<in>set is. 0 < seg_room pkt i"
    and "k < length is" "seg_len pkt' ! (is ! k) = 0"
  shows "\<forall>i\<in>set (drop k is). seg_len pkt' ! i = 0"
  using assms
proof (induction "is" arbitrary: off mem pkt k)
  case (Cons i "is")
  obtain n m where st: "n = min (seg_room pkt i) (want - off)"
    "packet_copy src want is (off + n) m (pkt\<lparr>seg_len := (seg_len pkt)[i := n]\<rparr>) = Done (mem', pkt', off')"
    by (rule packet_copy_step [OF Cons.prems(1-3)]) blast
  have i: "seg_len pkt' ! i = n"
    using packet_copy_keeps [OF st(2)] Cons.prems(4-6) by (auto simp: packet_shape_def)
  let ?q = "pkt\<lparr>seg_len := (seg_len pkt)[i := n]\<rparr>"
  have c: "off + n \<le> want" "distinct is" "set is \<subseteq> {..<4}" "packet_shape ?q"
    using Cons.prems st(1) by (auto simp: packet_shape_def)
  have r: "\<forall>j\<in>set is. 0 < seg_room ?q j"
    using Cons.prems(4,7) seg_span_update(2) [of _ i pkt n] by (metis distinct.simps(2) list.set_intros(2))
  show ?case
  proof (cases k)
    case 0
    then have "n = 0" and "off = want" using i st(1) Cons.prems(2,7,9) by auto
    then show ?thesis using 0 i packet_copy_done_zero [OF st(2) _ Cons.prems(3) c(2-4)] by simp
  next
    case (Suc k')
    then show ?thesis using Cons.IH [OF st(2) c(1) Cons.prems(3) c(2-4) r, of k'] Cons.prems(8,9) by simp
  qed
qed simp

lemma used_segs_stop: "used_segs pkt k used < used + k \<Longrightarrow> seg_len pkt ! used_segs pkt k used = 0"
  by (induction k arbitrary: used) auto

section \<open>Reading back\<close>

lemma linearize_stored:
  assumes "\<forall>i\<in>set is. seg_len pkt ! i \<noteq> 0 \<and> unat (packet_seg_addr pkt i) + seg_len pkt ! i \<le> length mem"
    and "off + sum_list (map ((!) (seg_len pkt)) is) \<le> len pkt" "len pkt \<le> length dst"
  shows "linearize_segs mem pkt n is off dst =
    Done (take off dst @ stored mem pkt is @ drop (off + sum_list (map ((!) (seg_len pkt)) is)) dst,
          off + sum_list (map ((!) (seg_len pkt)) is))"
  using assms
proof (induction "is" arbitrary: off dst)
  case Nil
  then show ?case by (simp add: stored_def)
next
  case (Cons i "is")
  let ?k = "seg_len pkt ! i" and ?s = "sum_list (map ((!) (seg_len pkt)) is)"
  define b where "b = mem_read mem (unat (packet_seg_addr pkt i)) ?k"
  define d where "d = take off dst @ b @ drop (off + ?k) dst"
  have l: "length b = ?k" using Cons.prems(1) by (auto simp: b_def)
  have le: "off + ?k + ?s \<le> len pkt" using Cons.prems(2) by simp
  have nlt: "\<not> len pkt - off < ?k" using le by linarith
  have w: "mem_copy dst off mem (unat (packet_seg_addr pkt i)) ?k = Done d"
    using Cons.prems(1,3) l le by (simp add: mem_copy_def mem_write_def d_def flip: b_def)
  have ld: "length d = length dst" using Cons.prems(3) le l by (simp add: d_def)
  have ih: "linearize_segs mem pkt n is (off + ?k) d =
      Done (take (off + ?k) d @ stored mem pkt is @ drop (off + ?k + ?s) d, off + ?k + ?s)"
    by (rule Cons.IH) (use Cons.prems le ld in auto)
  have t: "take (off + ?k) d = take off dst @ b" "drop (off + ?k + ?s) d = drop (off + ?k + ?s) dst"
    using l le Cons.prems(3) by (simp_all add: d_def add_ac)
  have st: "stored mem pkt (i # is) = b @ stored mem pkt is" by (simp add: stored_def b_def)
  have "linearize_segs mem pkt n (i # is) off dst = linearize_segs mem pkt n is (off + ?k) d"
    using w nlt Cons.prems(1) by (simp add: Let_def)
  then show ?case unfolding ih t st by (simp add: add.assoc)
qed


section \<open>A write is read back\<close>

text \<open>The bytes a packet can hold: its own segments and the frames it may still take from the pool.\<close>

definition packet_capacity :: "ne_pair \<Rightarrow> ne_packet \<Rightarrow> nat" where
  "packet_capacity p pkt = sum_list (map (seg_room pkt) [0..<packet_nsegs pkt]) +
     min (4 - packet_nsegs pkt) (length (pool_list (pool p))) * frame_size p"

lemma grown_spans:
  assumes "grown p pkt (packet_nsegs pkt) p1 pkt1 n1"
  shows "spans p pkt = map (seg_span pkt1) [0..<n1] @ map (\<lambda>a. (unat a, frame_size p)) (pool_list (pool p1))"
proof -
  let ?n = "packet_nsegs pkt"
  have "[0..<n1] = [0..<?n] @ [?n..<n1]" using assms by (intro upt_split) (auto simp: grown_def)
  then show ?thesis using assms by (simp add: grown_def spans_def seg_span_def)
qed

lemma grown_capacity:
  assumes "grown p pkt (packet_nsegs pkt) p1 pkt1 n1"
  shows "n1 - packet_nsegs pkt \<le> min (4 - packet_nsegs pkt) (length (pool_list (pool p)))"
    "n1 = 4 \<or> pool_list (pool p1) = [] \<Longrightarrow> n1 - packet_nsegs pkt = min (4 - packet_nsegs pkt) (length (pool_list (pool p)))"
  using assms by (auto simp: grown_def)

lemma grown_room_sum:
  assumes "grown p pkt (packet_nsegs pkt) p1 pkt1 n1"
  shows "sum_list (map (seg_room pkt1) [0..<n1]) =
    sum_list (map (seg_room pkt) [0..<packet_nsegs pkt]) + (n1 - packet_nsegs pkt) * frame_size p"
proof -
  let ?n = "packet_nsegs pkt"
  have "[0..<n1] = [0..<?n] @ [?n..<n1]" using assms by (intro upt_split) (auto simp: grown_def)
  moreover have "map (seg_room pkt1) [0..<?n] = map (seg_room pkt) [0..<?n]"
    "map (seg_room pkt1) [?n..<n1] = map (\<lambda>_. frame_size p) [?n..<n1]"
    using assms by (auto simp: grown_def)
  ultimately show ?thesis by (simp add: sum_list_triv del: map_eq_conv)
qed

lemma packet_copy_lens:
  assumes "packet_copy src want is off mem pkt = Done (mem', pkt', off')" "off \<le> want" "want \<le> length src"
    and "distinct is" "set is \<subseteq> {..<4}" "packet_shape pkt"
  shows "off' = off + sum_list (map ((!) (seg_len pkt')) is) \<and> (\<forall>i\<in>set is. seg_len pkt' ! i \<le> seg_room pkt i)"
  using assms
proof (induction "is" arbitrary: off mem pkt)
  case (Cons i "is")
  obtain n m where st: "n = min (seg_room pkt i) (want - off)"
    "packet_copy src want is (off + n) m (pkt\<lparr>seg_len := (seg_len pkt)[i := n]\<rparr>) = Done (mem', pkt', off')"
    by (rule packet_copy_step [OF Cons.prems(1-3)]) blast
  let ?q = "pkt\<lparr>seg_len := (seg_len pkt)[i := n]\<rparr>"
  have i: "seg_len pkt' ! i = n"
    using packet_copy_keeps [OF st(2)] Cons.prems(4-6) by (auto simp: packet_shape_def)
  have c: "off + n \<le> want" "distinct is" "set is \<subseteq> {..<4}" "packet_shape ?q"
    using Cons.prems st(1) by (auto simp: packet_shape_def)
  have "seg_room ?q j = seg_room pkt j" if "j \<in> set is" for j
    using that Cons.prems(4) by (intro seg_span_update) auto
  then show ?case using Cons.IH [OF st(2) c(1) Cons.prems(3) c(2-4)] i st(1) by auto
qed simp


text \<open>What a completed write leaves behind.\<close>

lemma packet_write_stored:
  assumes "packet_ok pkt" "pair_ok p pkt" "spans_ok p pkt" "want \<le> length src" "0 < want"
    and g: "grown p pkt (packet_nsegs pkt) p1 pkt1 n1"
    and cap: "want \<le> sum_list (map (seg_room pkt) [0..<packet_nsegs pkt]) + (n1 - packet_nsegs pkt) * frame_size p"
    and cp: "packet_copy src want [0..<n1] 0 (bufs p) pkt1 = Done (mem, pkt2, off)"
    and u: "u = used_segs pkt2 n1 0"
  shows "off = want" "stored mem pkt2 [0..<u] = mem_read src 0 want" "sum_list (map ((!) (seg_len pkt2)) [0..<u]) = want"
    "\<And>b k. \<forall>s\<in>set (spans p pkt). away s (b, k) \<Longrightarrow> mem_read mem b k = mem_read (bufs p) b k"
    "\<And>i. i < u \<Longrightarrow> unat (packet_seg_addr pkt1 i) + seg_len pkt2 ! i \<le> length mem"
proof -
  note sp = grown_spans [OF g]
  have sh: "packet_shape pkt1" and n4: "set [0..<n1] \<subseteq> {..<4}" using g by (auto simp: grown_def)
  have aw: "sorted_wrt away (map (seg_span pkt1) [0..<n1])" and fit: "\<forall>s\<in>set (spans p pkt). fst s + snd s \<le> length (bufs p)"
    using assms(3) by (auto simp: spans_ok_def sp sorted_wrt_append)
  note m = packet_copy_mem [OF cp _ assms(4) _ n4 sh aw]
  show off: "off = want" using m cap grown_room_sum [OF g] by simp
  have ule: "u \<le> n1" unfolding u using used_segs_spec [of 0 pkt2 n1] by simp
  have room: "\<forall>i\<in>set [0..<n1]. 0 < seg_room pkt1 i"
    using grown_ok(1) [OF g assms(1,2)] grown_frames(2) [OF g] by (auto simp: packet_ok_def)
  have z: "seg_len pkt2 ! i = 0" if "u \<le> i" "i < n1" for i
  proof -
    have un: "u < n1" using that by simp
    then have "seg_len pkt2 ! u = 0" using used_segs_stop [of pkt2 n1 0] u by simp
    with un have "\<forall>i\<in>set (drop u [0..<n1]). seg_len pkt2 ! i = 0"
      by (intro packet_copy_zero_tail [OF cp _ assms(4) _ n4 sh room]) auto
    then show ?thesis using that by simp
  qed
  have spl: "[0..<n1] = [0..<u] @ [u..<n1]" by (rule upt_split) (use ule in auto)
  have z0: "map ((!) (seg_len pkt2)) [u..<n1] = map (\<lambda>_. 0) [u..<n1]" using z by simp
  have "stored mem pkt2 [u..<n1] = []" using z by (simp add: stored_def mem_read_def)
  then have "stored mem pkt2 [0..<n1] = stored mem pkt2 [0..<u]" unfolding spl by (simp add: stored_def)
  then show "stored mem pkt2 [0..<u] = mem_read src 0 want" using m off by simp
  note l = packet_copy_lens [OF cp _ assms(4) _ n4 sh]
  show "sum_list (map ((!) (seg_len pkt2)) [0..<u]) = want"
    using l off spl z0 by (simp add: sum_list_triv del: map_eq_conv)
  show "mem_read mem b k = mem_read (bufs p) b k" if "\<forall>s\<in>set (spans p pkt). away s (b, k)" for b k
    using that m by (simp add: sp)
  show "unat (packet_seg_addr pkt1 i) + seg_len pkt2 ! i \<le> length mem" if "i < u" for i
  proof -
    have i: "i \<in> set [0..<n1]" using that ule by simp
    then have "seg_len pkt2 ! i \<le> seg_room pkt1 i" using l by simp
    moreover have "unat (packet_seg_addr pkt1 i) + seg_room pkt1 i \<le> length (bufs p)"
      using fit [unfolded sp] i bspec [of "set (map (seg_span pkt1) [0..<n1])" _ "seg_span pkt1 i"]
      by (simp add: seg_span_def ball_Un)
    ultimately show ?thesis using packet_copy_keeps [OF cp] by simp
  qed
qed

lemma packet_write_no_fault:
  assumes "packet_ok pkt" "pair_ok p pkt" "spans_ok p pkt" "want \<le> length src"
    "ne_packet_write p pkt src want = (r, p', pkt')"
  shows "r \<noteq> Fault"
  using assms(5,1,2)
proof (cases rule: packet_write_cases)
  case (fault p1 pkt1 n1)
  have "\<exists>x. packet_copy src want [0..<n1] 0 (bufs p) pkt1 = Done x"
    using assms(3,4) by (intro packet_copy_total) (auto simp: spans_ok_def grown_spans [OF fault(2)])
  then show ?thesis using fault(3) by simp
qed auto

lemma packet_write_reads_back:
  assumes "packet_ok pkt" "pair_ok p pkt" "spans_ok p pkt" "ne_packet_write p pkt src (length src) = (r, p', pkt')"
  shows "r \<noteq> Fault \<and>
    (r = Done True \<longleftrightarrow> 0 < length src \<and> length src \<le> 9216 \<and> length src \<le> packet_capacity p pkt) \<and>
    (r = Done True \<and> length src \<le> length dst \<longrightarrow>
       ne_packet_linearize p' pkt' dst (length dst) = Done (src @ drop (length src) dst)) \<and>
    ((\<forall>s\<in>set (spans p pkt). away s (b, k)) \<longrightarrow> mem_read (bufs p') b k = mem_read (bufs p) b k)"
  using assms(4,1,2)
proof (cases rule: packet_write_cases)
  case rejected
  have "\<not> (0 < length src \<and> length src \<le> 9216)" using rejected(4) by linarith
  then show ?thesis by (auto simp: rejected(1-3))
next
  case (short n1)
  have "\<not> length src \<le> packet_capacity p pkt"
    using short(3) by (simp add: packet_capacity_def flip: grown_capacity(2) [OF short(2,4)])
  moreover have "bufs p' = bufs p" using short(2) by (simp add: grown_def)
  ultimately show ?thesis using short(1) by simp
next
  case fault
  then show ?thesis using packet_write_no_fault [OF assms(1-3) order_refl assms(4)] by simp
next
  case (copied p1 pkt1 n1 mem pkt2 off pkt3)
  define u where "u = used_segs pkt2 n1 0"
  note t = packet_write_copied [OF assms(1,2) copied(1,3,4,5) u_def copied(6) [folded u_def] copied(8) [folded u_def]]
  note s = packet_write_stored [OF assms(1-3) order_refl copied(1,3,4,5) u_def]
  have ad: "packet_seg_addr pkt2 = packet_seg_addr pkt1" using packet_copy_keeps [OF copied(5)] by simp
  have nl: "nsegs pkt' = u" "len pkt' = length src" using copied(8) by (simp_all add: u_def)
  have "stored mem pkt' [0..<u] = stored mem pkt2 [0..<u]"
    unfolding stored_def by (intro arg_cong [of _ _ concat] map_cong) (use t(11,12) ad in auto)
  moreover have "length src \<le> packet_capacity p pkt"
    unfolding packet_capacity_def
    by (rule order_trans [OF copied(4)]) (intro add_left_mono mult_le_mono1 grown_capacity(1) [OF copied(3)])
  moreover have "linearize_segs mem pkt' n [0..<u] 0 dst =
      Done (stored mem pkt' [0..<u] @ drop (length src) dst, length src)" if "length src \<le> length dst" for n
  proof -
    have "\<forall>i\<in>set [0..<u]. seg_len pkt' ! i \<noteq> 0 \<and> unat (packet_seg_addr pkt' i) + seg_len pkt' ! i \<le> length mem"
      using t(11,12) s(5) by auto
    from linearize_stored [OF this, of 0 dst n] show ?thesis using that s(3) by (simp add: nl t(11))
  qed
  ultimately show ?thesis
    using s(1,2,4) t(1-5) copied(1,2,7) mem_read_def [of src 0 "length src"]
    by (simp add: ne_packet_linearize_def NE_PACKET_MAX_SEGS_def nl)
qed

text \<open>C26: What is written into a packet is what is read from it. When the segments of the packet and the free
  frames occupy disjoint parts of the memory area, \<^verbatim>\<open>ne_packet_write\<close> never leaves the area; it succeeds
  exactly when the length is between 1 and 9216 bytes and the packet's segments together with the frames it
  may take hold it; after success \<^verbatim>\<open>ne_packet_linearize\<close> returns the payload; and memory away from the
  packet and the pool is untouched.
\<close>
theorem packet_write_linearize:
  assumes "packet_ok pkt" "pair_ok p pkt" "spans_ok p pkt" "ne_packet_write p pkt src (length src) = (r, p', pkt')"
  shows "r \<noteq> Fault \<and>
    (r = Done True \<longleftrightarrow> 0 < length src \<and> length src \<le> 9216 \<and> length src \<le> packet_capacity p pkt) \<and>
    (r = Done True \<and> length src \<le> length dst \<longrightarrow>
       ne_packet_linearize p' pkt' dst (length dst) = Done (src @ drop (length src) dst)) \<and>
    ((\<forall>s\<in>set (spans p pkt). away s (b, k)) \<longrightarrow> mem_read (bufs p') b k = mem_read (bufs p) b k)"
  using assms by (rule packet_write_reads_back)


text \<open>A packet with one received segment of 8 bytes and two free frames of 16 bytes.\<close>

definition demo_pool :: ne_pool where
  "demo_pool = \<lparr>pl_buf = [16, 32, 0, 0], pl_cap = 4, pl_mask = 3, pl_head = 2, pl_tail = 0\<rparr>"

definition demo_pair :: ne_pair where
  "demo_pair = \<lparr>bufs = replicate 48 0, frame_size = 16, pool = demo_pool\<rparr>"

definition demo_packet :: ne_packet where
  "demo_packet = zero_packet\<lparr>addr := 8, len := 5, seg_len := [5, 0, 0, 0], seg_cap := [8, 0, 0, 0], nsegs := 1\<rparr>"

lemma demo_pool_facts: "pool_inv demo_pool" "pool_list demo_pool = [16, 32]"
  by (simp_all add: pool_inv_def pool_list_def demo_pool_def pow2_cap_def slots_def ring_slot_def
      word_le_nat_alt upt_conv_Cons)

lemma demo_packet_facts:
  "packet_ok demo_packet" "pair_ok demo_pair demo_packet" "spans_ok demo_pair demo_packet"
  using demo_pool_facts
  by (auto simp: packet_ok_def packet_nsegs_def demo_packet_def zero_packet_def seg_room_def pair_ok_def demo_pair_def
      all_frames_def packet_frames_def packet_seg_addr_def spans_ok_def spans_def seg_span_def away_def)
   (simp_all add: demo_pool_def)


definition demo_payload :: bytes where
  "demo_payload = [1, 2, 3, 4, 5, 6, 7, 8, 9, 10, 11, 12]"

theorem packet_write_linearize_witness:
  "\<exists>p' pkt'. ne_packet_write demo_pair demo_packet demo_payload 12 = (Done True, p', pkt') \<and>
     ne_packet_linearize p' pkt' (replicate 14 0) 14 = Done (demo_payload @ [0, 0])"
proof -
  obtain r p' pkt' where w: "ne_packet_write demo_pair demo_packet demo_payload (length demo_payload) = (r, p', pkt')"
    by (metis prod_cases3)
  have "packet_capacity demo_pair demo_packet = 40"
    by (simp add: packet_capacity_def demo_pair_def demo_pool_facts)
      (simp add: demo_packet_def zero_packet_def packet_nsegs_def seg_room_def)
  then show ?thesis
    using packet_write_linearize [OF demo_packet_facts w, of "replicate 14 0"] w
    by (simp add: demo_payload_def) (auto simp: replicate_Suc numeral_eq_Suc)
qed

theorem packet_write_conserves_witness:
  "\<exists>r p' pkt'. ne_packet_write demo_pair demo_packet demo_payload 12 = (r, p', pkt') \<and>
     all_frames p' pkt' = {#8, 16, 32#} \<and> packet_ok pkt'"
proof -
  obtain r p' pkt' where w: "ne_packet_write demo_pair demo_packet demo_payload 12 = (r, p', pkt')"
    by (metis prod_cases3)
  have "r \<noteq> Fault" by (rule packet_write_no_fault [OF demo_packet_facts _ w]) (simp add: demo_payload_def)
  moreover have "all_frames demo_pair demo_packet = {#8, 16, 32#}"
    by (simp add: all_frames_def packet_frames_def demo_pair_def demo_pool_facts)
      (simp add: demo_packet_def zero_packet_def packet_nsegs_def packet_seg_addr_def)
  ultimately show ?thesis using packet_write_conserves [OF demo_packet_facts(1,2) w] w by auto
qed

section \<open>Freeing a packet\<close>

lemma free_segs_list:
  assumes "pool_inv (pool p)" "length (pool_list (pool p)) + length is \<le> unat (pl_cap (pool p))"
  shows "pool_list (pool (free_segs p pkt is)) = pool_list (pool p) @ map (packet_seg_addr pkt) is \<and>
    pool_inv (pool (free_segs p pkt is)) \<and> bufs (free_segs p pkt is) = bufs p \<and>
    frame_size (free_segs p pkt is) = frame_size p \<and> pl_cap (pool (free_segs p pkt is)) = pl_cap (pool p)"
  using assms
proof (induction "is" arbitrary: p)
  case (Cons i "is")
  have "length (pool_list (pool p)) < unat (pl_cap (pool p))" using Cons.prems(2) by simp
  note f = frame_free_list [OF Cons.prems(1) this, of "packet_seg_addr pkt i"]
  show ?case using Cons.IH [OF f(2)] Cons.prems(2) f by simp
qed simp

lemma packet_free_frames:
  assumes "packet_ok pkt" "pair_ok p pkt" "ne_packet_free p pkt = (p', pkt')"
  shows "pool_list (pool p') = pool_list (pool p) @ packet_frames pkt \<and> bufs p' = bufs p \<and>
    packet_frames pkt' = [] \<and> pair_ok p' pkt' \<and> packet_ok pkt' \<and> ne_packet_free p' pkt' = (p', pkt')"
proof -
  let ?n = "packet_nsegs pkt"
  have n4: "?n \<le> 4" using assms(1) by (simp add: packet_ok_def)
  then have e: "p' = free_segs p pkt [0..<?n]" "pkt' = zero_packet"
    using assms(3) by (auto simp: ne_packet_free_def NE_PACKET_MAX_SEGS_def Let_def)
  have f: "length (pool_list (pool p)) + length [0..<?n] \<le> unat (pl_cap (pool p))" "pool_inv (pool p)"
    using assms(2) by (auto simp: pair_ok_def size_all_frames)
  have z: "packet_nsegs zero_packet = 0" by (simp add: packet_nsegs_def zero_packet_def)
  note l = free_segs_list [OF f(2,1), of pkt, folded e(1)]
  have "packet_ok zero_packet" using z by (simp add: packet_ok_def) (simp add: zero_packet_def)
  then show ?thesis
    using l assms(2) f(1) z by (simp add: e(2) packet_frames_def pair_ok_def size_all_frames ne_packet_free_def NE_PACKET_MAX_SEGS_def)
qed

text \<open>Freeing a packet returns each of its frames to the pool exactly once, in order and behind the frames
  that are free already, without touching memory; the packet is empty afterwards, and freeing it a second
  time changes nothing.
\<close>
theorem packet_free_once:
  assumes "packet_ok pkt" "pair_ok p pkt" "ne_packet_free p pkt = (p', pkt')"
  shows "pool_list (pool p') = pool_list (pool p) @ packet_frames pkt \<and> bufs p' = bufs p \<and>
    packet_frames pkt' = [] \<and> pair_ok p' pkt' \<and> packet_ok pkt' \<and> ne_packet_free p' pkt' = (p', pkt')"
  using assms by (rule packet_free_frames)

theorem packet_free_once_witness:
  "pool_list (pool (fst (ne_packet_free demo_pair demo_packet))) = [16, 32, 8]"
proof -
  have "pool_list (pool demo_pair) = [16, 32]" "packet_frames demo_packet = [8]"
    by (simp_all add: demo_pair_def demo_pool_facts packet_frames_def)
      (simp add: demo_packet_def zero_packet_def packet_nsegs_def packet_seg_addr_def)
  then show ?thesis
    using packet_free_once [OF demo_packet_facts(1,2), of "fst (ne_packet_free demo_pair demo_packet)"
        "snd (ne_packet_free demo_pair demo_packet)"] by simp
qed

section \<open>Recycled addresses keep their headroom\<close>

lemma packet_grow_enough: "want \<le> cap \<Longrightarrow> packet_grow want k p pkt n cap = (p, pkt, n, cap)"
  by (cases k) auto

lemma packet_grow_four: "packet_grow want 4 p pkt n cap = packet_grow want (Suc 3) p pkt n cap"
  by simp

text \<open>Writing at most a frame into an empty packet puts the bytes at the first free address, whatever lies there.\<close>

lemma write_one_frame:
  assumes "pool_inv (pool p)" "pool_list (pool p) = a # as" "src \<noteq> []" "length src \<le> frame_size p"
    "frame_size p < 2 ^ 16" "length src \<le> 9216" "ne_packet_write p zero_packet src (length src) = (r, p', pkt')"
  shows "if unat a + length src \<le> length (bufs p)
    then r = Done True \<and> bufs p' = take (unat a) (bufs p) @ src @ drop (unat a + length src) (bufs p) else r = Fault"
proof -
  obtain a' p1 where al: "ne_frame_alloc p = (Some a', p1)"
    using frame_alloc_None(1) [OF assms(1)] assms(2) by (metis list.distinct(1) option.exhaust prod.exhaust_sel)
  note fa = frame_alloc_Some [OF assms(1) al]
  have a: "a' = a" using fa(1) assms(2) by simp
  define pk where "pk = (packet_set_seg_addr zero_packet 0 a)\<lparr>seg_cap := [frame_size p, 0, 0, 0], seg_len := [0, 0, 0, 0], nsegs := 1\<rparr>"
  have z: "packet_nsegs zero_packet = 0" "length src \<noteq> 0" "\<not> frame_size p < length src"
    using assms(3,4) by (simp_all add: packet_nsegs_def zero_packet_def)
  have g: "packet_grow (length src) 4 p zero_packet 0 0 = (p1, pk, 1, frame_size p)"
    using al a z assms(4,5) packet_grow_enough
    by (simp add: packet_grow_four pk_def zero_packet_def packet_set_seg_addr_def del: Suc_numeral)
  have pk: "seg_room pk 0 = frame_size p" "packet_seg_addr pk 0 = a" "seg_len pk = [0, 0, 0, 0]"
    using assms(3,4) by (simp_all add: pk_def seg_room_def packet_seg_addr_def packet_set_seg_addr_def)
  have c: "packet_copy src (length src) [0..<1] 0 (bufs p1) pk =
      cbind (mem_write (bufs p) (unat a) src) (\<lambda>m. Done (m, pk\<lparr>seg_len := [length src, 0, 0, 0]\<rparr>, length src))"
    using pk z(2,3) fa(3) by (simp add: mem_copy_def mem_read_def Let_def)
  have u: "used_segs (pk\<lparr>seg_len := [length src, 0, 0, 0]\<rparr>) 1 0 = 1" using z(2) by simp
  have w: "ne_packet_write p zero_packet src (length src) =
      mem_then (cbind (mem_write (bufs p) (unat a) src) (\<lambda>m. Done (m, pk\<lparr>seg_len := [length src, 0, 0, 0]\<rparr>, length src)))
        (p1, pk) (\<lambda>(mem, pkt2, off). case packet_trim [used_segs pkt2 1 0..<1] (p1\<lparr>bufs := mem\<rparr>) pkt2 of
          (p3, pkt3) \<Rightarrow> (Done (off = length src), p3, pkt3\<lparr>nsegs := used_segs pkt2 1 0, len := length src\<rparr>))"
    unfolding ne_packet_write_def NE_PACKET_MAX_SEGS_def NE_JUMBO_FRAME_MAX_def z(1) Let_def
    using assms(6) z(2,3) by (simp add: g del: packet_copy.simps used_segs.simps One_nat_def) (simp only: c)
  show ?thesis
  proof (cases "unat a + length src \<le> length (bufs p)")
    case True
    then show ?thesis using assms(7) w u by (auto simp: mem_write_def simp del: used_segs.simps)
  next
    case False
    then show ?thesis using assms(7) w by (simp add: mem_write_def)
  qed
qed

text \<open>C27: A frame that comes back from reception is pooled under the address of its data, \<open>h\<close> bytes of headroom
  behind the start of the frame, and \<^verbatim>\<open>ne_packet_write\<close> gives every frame it takes from the pool the capacity of
  a whole frame. So once the frames that were free before it are taken, writing a frame's worth of bytes
  into an empty packet runs past the end of that frame: out of the memory area when it is the last frame,
  and otherwise, reporting success, over the first \<open>h\<close> bytes of the next frame.\<close>
theorem recycled_frame_overruns:
  assumes "packet_ok pkt" "pair_ok p pkt" "ne_packet_free p pkt = (p1, pkt1)" "packet_frames pkt = a # as"
    and "fs = frame_size p" "length (bufs p) = nframes * fs" "unat a = f * fs + h" "f < nframes" "0 < h" "h < fs"
    and "p2 = p1\<lparr>pool := snd (pool_pop (pool p1) (length (pool_list (pool p))))\<rparr>"
    and "length src = fs" "fs \<le> 9216" "ne_packet_write p2 pkt1 src fs = (r, p3, pkt3)"
  shows "if Suc f = nframes then r = Fault
    else r = Done True \<and> mem_read (bufs p3) (Suc f * fs) h = drop (fs - h) src"
proof -
  note fr = packet_free_frames [OF assms(1-3)]
  have z: "pkt1 = zero_packet" "frame_size p1 = frame_size p"
  proof -
    have "packet_nsegs pkt \<le> 4" using assms(1) by (simp add: packet_ok_def)
    moreover have "pool_inv (pool p)" "length (pool_list (pool p)) + packet_nsegs pkt \<le> unat (pl_cap (pool p))"
      using assms(2) by (auto simp: pair_ok_def size_all_frames)
    ultimately show "pkt1 = zero_packet" "frame_size p1 = frame_size p"
      using assms(3) free_segs_list [of p "[0..<packet_nsegs pkt]" pkt]
      by (auto simp: ne_packet_free_def NE_PACKET_MAX_SEGS_def Let_def)
  qed
  obtain xs pl where pp: "pool_pop (pool p1) (length (pool_list (pool p))) = (xs, pl)" by force
  have inv: "pool_inv (pool p1)" "fs < 2 ^ 16" using fr assms(2,5) by (auto simp: pair_ok_def)
  note ps = pool_pop_spec [OF inv(1) pp]
  have p2: "pool_inv (pool p2)" "pool_list (pool p2) = a # as" "frame_size p2 = fs" "bufs p2 = bufs p"
    using ps fr assms(4,5,11) pp z(2) by auto
  have src: "src \<noteq> []" using assms(9,10,12) by auto
  have fit: "unat a + fs \<le> length (bufs p) \<longleftrightarrow> Suc f \<noteq> nframes"
  proof (cases "Suc f = nframes")
    case False
    then have "Suc (Suc f) * fs \<le> nframes * fs" using assms(8) by (intro mult_le_mono1) simp
    then show ?thesis using False assms(6,7,10) by simp
  next
    case True
    then show ?thesis using assms(6,7,9) by auto
  qed
  have "mem_read (take (unat a) (bufs p) @ src @ drop (unat a + fs) (bufs p)) (Suc f * fs) h = drop (fs - h) src"
    if "unat a + fs \<le> length (bufs p)"
  proof -
    have "Suc f * fs - unat a = fs - h" "unat a \<le> Suc f * fs" using assms(7,10) by simp_all
    then show ?thesis using that assms(10,12) by (simp add: mem_read_def)
  qed
  then show ?thesis
    using write_one_frame [OF p2(1,2) src, of r p3 pkt3] fit inv(2) assms(12-14) p2(3,4) z(1)
    by (simp split: if_splits)
qed

text \<open>Two frames of 4096 bytes; packets received behind 256 bytes of headroom in the first and in the last.\<close>

definition recycled_pair :: ne_pair where
  "recycled_pair = \<lparr>bufs = replicate 8192 0, frame_size = NE_FRAME,
     pool = \<lparr>pl_buf = [0, 0], pl_cap = 2, pl_mask = 1, pl_head = 0, pl_tail = 0\<rparr>\<rparr>"

definition recycled_packet :: "u64 \<Rightarrow> ne_packet" where
  "recycled_packet a = zero_packet\<lparr>addr := a, len := 60, seg_len := [60, 0, 0, 0], seg_cap := [60, 0, 0, 0], nsegs := 1\<rparr>"

lemma recycled_facts: "packet_ok (recycled_packet a)" "pair_ok recycled_pair (recycled_packet a)"
  "packet_frames (recycled_packet a) = [a]" "frame_size recycled_pair = 4096" "length (bufs recycled_pair) = 2 * 4096"
  "pool_list (pool recycled_pair) = []"
  by (simp_all add: packet_ok_def recycled_packet_def zero_packet_def packet_nsegs_def seg_room_def pair_ok_def recycled_pair_def
      NE_FRAME_def pool_inv_def pow2_cap_def pool_list_def slots_def all_frames_def packet_frames_def packet_seg_addr_def)

text \<open>Writing into an empty packet after the packet at \<open>a\<close> was freed.\<close>

definition recycled_write :: "u64 \<Rightarrow> bool cres \<times> ne_pair \<times> ne_packet" where
  "recycled_write a = (case ne_packet_free recycled_pair (recycled_packet a) of (p1, pkt1) \<Rightarrow>
     ne_packet_write (p1\<lparr>pool := snd (pool_pop (pool p1) 0)\<rparr>) pkt1 (replicate 4096 7) 4096)"

theorem recycled_frame_overruns_witness:
  "fst (recycled_write 4352) = Fault \<and> fst (recycled_write 256) = Done True \<and>
   mem_read (bufs (fst (snd (recycled_write 256)))) 4096 256 = replicate 256 7"
proof -
  have r: "if Suc f = 2 then fst (recycled_write a) = Fault else fst (recycled_write a) = Done True \<and>
      mem_read (bufs (fst (snd (recycled_write a)))) (Suc f * 4096) 256 = drop (4096 - 256) (replicate 4096 7)"
    if "unat a = f * 4096 + 256" "f < 2" for a f
  proof -
    obtain p1 pkt1 where fr: "ne_packet_free recycled_pair (recycled_packet a) = (p1, pkt1)" by force
    have w: "ne_packet_write (p1\<lparr>pool := snd (pool_pop (pool p1) (length (pool_list (pool recycled_pair))))\<rparr>) pkt1
        (replicate 4096 7) 4096 = (fst (recycled_write a), fst (snd (recycled_write a)), snd (snd (recycled_write a)))"
      unfolding recycled_write_def recycled_facts(6) using fr by simp
    show ?thesis
      by (rule recycled_frame_overruns [OF recycled_facts(1,2) fr recycled_facts(3) recycled_facts(4) [symmetric]
            recycled_facts(5) that _ _ refl _ _ w]) simp_all
  qed
  show ?thesis using r [of 4352 1] r [of 256 0] by simp
qed

end
