(* ===== verification/Idle.thy ===== *)
theory Idle
  imports Cpu_Map
begin

text \<open>
  Adaptive idling of the worker threads (\<^verbatim>\<open>src/core/dataplane/idle.c\<close>, \<^verbatim>\<open>inc/core/dataplane/dp_idle.h\<close>): a thread
  without work spins, then naps, then announces that it sleeps and polls its event descriptor; a
  producer that finds the sleep flag set writes to the descriptor. The globals are a record with the
  kernel's counter of each event descriptor; time, the environment and the results of \<^verbatim>\<open>eventfd\<close> are
  arguments. The interleaving theorem runs the sleeper and the producers with store buffers, since the
  code orders the flag and the rings by release and acquire only.
\<close>

definition NE_DP_WAKE_CRYPTO :: "nat \<Rightarrow> int" where "NE_DP_WAKE_CRYPTO w = int w"
definition NE_DP_WAKE_TX :: "nat \<Rightarrow> int" where "NE_DP_WAKE_TX s = int NE_CRYPTO_WORKERS + int s"
definition NE_DP_WAKE_N :: nat where "NE_DP_WAKE_N = NE_CRYPTO_WORKERS + NE_TX_SLOTS"
definition NE_DP_POLLFD_MAX :: nat where "NE_DP_POLLFD_MAX = 128"
definition NE_DP_IDLE_HOT_NS :: u64 where "NE_DP_IDLE_HOT_NS = 5000"
definition NE_DP_IDLE_COLD_NS :: u64 where "NE_DP_IDLE_COLD_NS = 25000"

record idle_globals =
  g_busy_poll :: int
  g_efd :: "int list"
  g_sleeping :: "bool list"
  g_ready :: bool
  efd_ctr :: "nat list"

definition idle_zero :: idle_globals where
  \<comment> \<open>the static initial values\<close>
  "idle_zero = \<lparr>g_busy_poll = - 1, g_efd = replicate NE_DP_WAKE_N 0, g_sleeping = replicate NE_DP_WAKE_N False,
     g_ready = False, efd_ctr = replicate NE_DP_WAKE_N 0\<rparr>"

definition wake_ok :: "int \<Rightarrow> bool" where
  "wake_ok wake_id \<longleftrightarrow> 0 \<le> wake_id \<and> wake_id < int NE_DP_WAKE_N"

definition ne_dp_idle_init :: "string option \<Rightarrow> (nat \<Rightarrow> int) \<Rightarrow> idle_globals \<Rightarrow> idle_globals" where
  \<comment> \<open>\<open>env\<close> is \<^verbatim>\<open>NE_DP_BUSY_POLL\<close>, \<open>efd i\<close> the result of the \<open>i\<close>-th \<^verbatim>\<open>eventfd\<close> call\<close>
  "ne_dp_idle_init env efd g =
     (if g_ready g then g
      else g\<lparr>g_busy_poll := (case env of Some (c # _) \<Rightarrow> if c = CHR ''1'' then 1 else 0 | _ \<Rightarrow> 0),
             g_efd := map efd [0..<NE_DP_WAKE_N], g_sleeping := replicate NE_DP_WAKE_N False,
             efd_ctr := replicate NE_DP_WAKE_N 0, g_ready := True\<rparr>)"

definition ne_dp_idle_shutdown :: "idle_globals \<Rightarrow> idle_globals" where
  "ne_dp_idle_shutdown g =
     (if \<not> g_ready g then g
      else g\<lparr>g_efd := map (\<lambda>fd. if fd \<ge> 0 then - 1 else fd) (g_efd g), g_sleeping := map (\<lambda>_. False) (g_sleeping g),
             g_ready := False, g_busy_poll := - 1\<rparr>)"

definition set_sleeping :: "int \<Rightarrow> bool \<Rightarrow> idle_globals \<Rightarrow> idle_globals" where
  "set_sleeping wake_id on g =
     (if \<not> wake_ok wake_id then g else g\<lparr>g_sleeping := (g_sleeping g)[nat wake_id := on]\<rparr>)"

record ne_dp_idle =
  idle_start_ns :: u64

definition ne_dp_idle_note_work :: "ne_dp_idle \<Rightarrow> ne_dp_idle" where
  "ne_dp_idle_note_work st = st\<lparr>idle_start_ns := 0\<rparr>"

text \<open>What a thread does while idle: yield, pause the CPU, sleep for the warm interval, or poll.\<close>

datatype idle_act = IdleYield | IdleRelax | IdleNap | IdleCold

definition ne_dp_idle_arm ::
  "string option \<Rightarrow> (nat \<Rightarrow> int) \<Rightarrow> u64 \<Rightarrow> int \<Rightarrow> ne_dp_idle \<Rightarrow> idle_globals \<Rightarrow> idle_act \<times> ne_dp_idle \<times> idle_globals" where
  \<comment> \<open>\<open>t\<close> is the time of \<^verbatim>\<open>now_ns\<close>, 0 when the clock fails; \<open>IdleCold\<close> is the return value 1\<close>
  "ne_dp_idle_arm env efd t wake_id st g =
     (let g1 = (if g_ready g then g else ne_dp_idle_init env efd g) in
      if g_busy_poll g1 \<noteq> 0 then (IdleYield, st, g1)
      else if t = 0 then (IdleRelax, st, g1)
      else let st1 = (if idle_start_ns st = 0 then st\<lparr>idle_start_ns := t\<rparr> else st);
               dt = t - idle_start_ns st1 in
        if dt < NE_DP_IDLE_HOT_NS then (IdleRelax, st1, g1)
        else if dt < NE_DP_IDLE_COLD_NS then (IdleNap, st1, g1)
        else (IdleCold, st1, set_sleeping wake_id True g1))"

definition drain_eventfd :: "nat \<Rightarrow> idle_globals \<Rightarrow> idle_globals" where
  "drain_eventfd i g = (if g_efd g ! i < 0 then g else g\<lparr>efd_ctr := (efd_ctr g)[i := 0]\<rparr>)"

definition eventfd_signal :: "nat \<Rightarrow> idle_globals \<Rightarrow> idle_globals" where
  "eventfd_signal i g = (if g_efd g ! i < 0 then g else g\<lparr>efd_ctr := (efd_ctr g)[i := efd_ctr g ! i + 1]\<rparr>)"

definition ne_dp_idle_disarm :: "int \<Rightarrow> idle_globals \<Rightarrow> idle_globals" where
  "ne_dp_idle_disarm wake_id = set_sleeping wake_id False"

text \<open>The descriptors handed to \<^verbatim>\<open>poll\<close>: the thread's own event descriptor first, then the valid extra ones.\<close>

definition idle_pollfds :: "int \<Rightarrow> int list \<Rightarrow> idle_globals \<Rightarrow> int list" where
  "idle_pollfds wake_id extra g =
     (let own = (if wake_ok wake_id \<and> g_efd g ! nat wake_id \<ge> 0 then [g_efd g ! nat wake_id] else [])
      in take (NE_DP_POLLFD_MAX + 1) (own @ filter (\<lambda>fd. fd \<ge> 0) extra))"

definition ne_dp_idle_poll :: "string option \<Rightarrow> (nat \<Rightarrow> int) \<Rightarrow> int \<Rightarrow> idle_globals \<Rightarrow> idle_globals" where
  \<comment> \<open>the state after the call; the wait itself, at most one millisecond, changes nothing\<close>
  "ne_dp_idle_poll env efd wake_id g =
     (let g1 = (if g_ready g then g else ne_dp_idle_init env efd g) in
      if g_busy_poll g1 \<noteq> 0 then ne_dp_idle_disarm wake_id g1
      else ne_dp_idle_disarm wake_id (if wake_ok wake_id then drain_eventfd (nat wake_id) g1 else g1))"

definition ne_dp_idle_wake :: "int \<Rightarrow> idle_globals \<Rightarrow> idle_globals" where
  "ne_dp_idle_wake wake_id g =
     (if \<not> g_ready g \<or> g_busy_poll g \<noteq> 0 then g
      else if \<not> wake_ok wake_id \<or> g_efd g ! nat wake_id < 0 then g
      else if \<not> g_sleeping g ! nat wake_id then g
      else eventfd_signal (nat wake_id) g)"

definition ne_dp_idle_wake_all :: "idle_globals \<Rightarrow> idle_globals" where
  "ne_dp_idle_wake_all g =
     (if \<not> g_ready g then g
      else fold (\<lambda>i g. if g_efd g ! i < 0 then g
          else eventfd_signal i (g\<lparr>g_sleeping := (g_sleeping g)[i := True]\<rparr>)) [0..<NE_DP_WAKE_N] g)"

definition ne_dp_idle_wake_tx_slot :: "int \<Rightarrow> idle_globals \<Rightarrow> idle_globals" where
  "ne_dp_idle_wake_tx_slot txs g =
     (if txs < 0 \<or> int NE_TX_SLOTS \<le> txs then g else ne_dp_idle_wake (NE_DP_WAKE_TX (nat txs)) g)"

definition ne_dp_idle_wake_tx_worker :: "int \<Rightarrow> idle_globals \<Rightarrow> idle_globals" where
  "ne_dp_idle_wake_tx_worker worker g =
     (if worker < 0 then g else ne_dp_idle_wake_tx_slot (worker mod int NE_TX_SLOTS) g)"

lemmas idle_consts = NE_DP_WAKE_N_def NE_DP_WAKE_CRYPTO_def NE_DP_WAKE_TX_def NE_DP_IDLE_HOT_NS_def NE_DP_IDLE_COLD_NS_def

section \<open>Thresholds\<close>

text \<open>A thread goes to sleep only after 25 microseconds without work: with adaptive idling and a working
  clock, the first idle call records the time and spins, and later calls spin below 5 microseconds of
  recorded idleness, nap below 25, and announce sleep from then on; the sleep flag is set in the last case
  and in no other.\<close>
theorem idle_arm_stages:
  assumes "g_ready g" "g_busy_poll g = 0" "t \<noteq> 0" "start = (if idle_start_ns st = 0 then t else idle_start_ns st)"
  shows "ne_dp_idle_arm env efd t w st g =
    (if t - start < 5000 then (IdleRelax, st\<lparr>idle_start_ns := start\<rparr>, g)
     else if t - start < 25000 then (IdleNap, st\<lparr>idle_start_ns := start\<rparr>, g)
     else (IdleCold, st\<lparr>idle_start_ns := start\<rparr>, set_sleeping w True g))"
  using assms by (cases st) (auto simp: ne_dp_idle_arm_def Let_def idle_consts)

definition demo_idle :: idle_globals where
  "demo_idle = ne_dp_idle_init None (\<lambda>i. int i + 20) idle_zero"

lemma demo_idle_simps [simp]: "g_ready demo_idle" "g_busy_poll demo_idle = 0" "g_efd demo_idle = map (\<lambda>i. int i + 20) [0..<10]"
  "g_sleeping demo_idle = replicate 10 False" "efd_ctr demo_idle = replicate 10 0"
  by (simp_all add: demo_idle_def ne_dp_idle_init_def idle_zero_def NE_DP_WAKE_N_def)

theorem idle_arm_stages_witness:
  "ne_dp_idle_arm None (\<lambda>i. 0) 30000 3 \<lparr>idle_start_ns = 1000\<rparr> demo_idle =
     (IdleCold, \<lparr>idle_start_ns = 1000\<rparr>, set_sleeping 3 True demo_idle)"
  using idle_arm_stages [of demo_idle 30000 1000 "\<lparr>idle_start_ns = 1000\<rparr>" None "\<lambda>i. 0" 3] by simp

section \<open>Wake-ups and store buffers\<close>

text \<open>
  One sleeper with identifier \<open>w\<close> and any number of producers, under total store order: a store first sits
  in the store buffer of its thread and reaches memory later. \<open>flagbuf\<close> holds the sleeper's stores to
  \<^verbatim>\<open>g_sleeping[w]\<close> that are not yet visible, oldest first; \<open>jobs\<close> counts the packets visible in the sleeper's
  rings. A producer pushes (\<open>in_buffer\<close>: its store to the ring is still buffered), the store becomes visible
  (\<open>owed\<close>: \<^verbatim>\<open>ne_dp_idle_wake\<close> is still to be called), and it calls \<^verbatim>\<open>ne_dp_idle_wake\<close>; without a fence it
  may make this call while its push is still buffered (\<open>overdue\<close>). The sleeper runs, announces sleep
  (\<^verbatim>\<open>ne_dp_idle_arm\<close>), looks at its rings again, and either disarms or polls; after the poll it drains the
  descriptor and clears the flag. \<open>sf\<close> says that the sleeper has a full fence between its store to the flag
  and the look at its rings, \<open>pf\<close> that a producer has one between its push and the look at the flag. The
  code has neither: \<^verbatim>\<open>set_sleeping\<close> is a release store, \<^verbatim>\<open>ne_dp_idle_wake\<close> an acquire load.
\<close>

datatype sleeper_pc = Running | Armed | Polling | Waking

record wake_state =
  glob :: idle_globals
  flagbuf :: "bool list"
  pc :: sleeper_pc
  jobs :: nat
  in_buffer :: nat
  owed :: nat
  overdue :: nat

inductive wake_step :: "bool \<Rightarrow> bool \<Rightarrow> nat \<Rightarrow> wake_state \<Rightarrow> wake_state \<Rightarrow> bool" for sf pf w where
  ws_pop: "pc s = Running \<Longrightarrow> jobs s = Suc n \<Longrightarrow> wake_step sf pf w s (s\<lparr>jobs := n\<rparr>)"
| ws_arm: "pc s = Running \<Longrightarrow> wake_step sf pf w s (s\<lparr>pc := Armed, flagbuf := flagbuf s @ [True]\<rparr>)"
| ws_flush: "flagbuf s = on # rest \<Longrightarrow>
    wake_step sf pf w s (s\<lparr>flagbuf := rest, glob := set_sleeping (int w) on (glob s)\<rparr>)"
| ws_disarm: "pc s = Armed \<Longrightarrow> (sf \<longrightarrow> flagbuf s = []) \<Longrightarrow> jobs s \<noteq> 0 \<Longrightarrow>
    wake_step sf pf w s (s\<lparr>pc := Running, flagbuf := flagbuf s @ [False]\<rparr>)"
| ws_poll: "pc s = Armed \<Longrightarrow> (sf \<longrightarrow> flagbuf s = []) \<Longrightarrow> jobs s = 0 \<Longrightarrow> wake_step sf pf w s (s\<lparr>pc := Polling\<rparr>)"
| ws_drain: "pc s = Polling \<Longrightarrow> wake_step sf pf w s (s\<lparr>pc := Waking, glob := drain_eventfd w (glob s)\<rparr>)"
| ws_wakeup: "pc s = Waking \<Longrightarrow> wake_step sf pf w s (s\<lparr>pc := Running, flagbuf := flagbuf s @ [False]\<rparr>)"
| ws_push: "wake_step sf pf w s (s\<lparr>in_buffer := in_buffer s + 1\<rparr>)"
| ws_commit: "in_buffer s = Suc k \<Longrightarrow> wake_step sf pf w s (s\<lparr>in_buffer := k, jobs := jobs s + 1, owed := owed s + 1\<rparr>)"
| ws_signal: "owed s = Suc k \<Longrightarrow> wake_step sf pf w s (s\<lparr>owed := k, glob := ne_dp_idle_wake (int w) (glob s)\<rparr>)"
| ws_early: "\<not> pf \<Longrightarrow> in_buffer s = Suc k \<Longrightarrow>
    wake_step sf pf w s (s\<lparr>in_buffer := k, overdue := overdue s + 1, glob := ne_dp_idle_wake (int w) (glob s)\<rparr>)"
| ws_late: "overdue s = Suc k \<Longrightarrow> wake_step sf pf w s (s\<lparr>overdue := k, jobs := jobs s + 1\<rparr>)"

definition wake_start :: "nat \<Rightarrow> wake_state \<Rightarrow> bool" where
  "wake_start w s \<longleftrightarrow> pc s = Running \<and> jobs s = 0 \<and> flagbuf s = [] \<and> in_buffer s = 0 \<and> owed s = 0 \<and> overdue s = 0 \<and>
     g_ready (glob s) \<and> g_busy_poll (glob s) = 0 \<and>
     w < NE_DP_WAKE_N \<and> length (g_efd (glob s)) = NE_DP_WAKE_N \<and> length (g_sleeping (glob s)) = NE_DP_WAKE_N \<and>
     length (efd_ctr (glob s)) = NE_DP_WAKE_N \<and> g_efd (glob s) ! w \<ge> 0"

text \<open>A lost wake-up: the sleeper polls although its rings hold a packet, no event is pending, and nothing is
  under way any more that could raise one.\<close>

definition wake_lost :: "nat \<Rightarrow> wake_state \<Rightarrow> bool" where
  "wake_lost w s \<longleftrightarrow> pc s = Polling \<and> jobs s \<noteq> 0 \<and> efd_ctr (glob s) ! w = 0 \<and> flagbuf s = [] \<and>
     in_buffer s = 0 \<and> owed s = 0 \<and> overdue s = 0"

definition wake_inv :: "nat \<Rightarrow> wake_state \<Rightarrow> bool" where
  "wake_inv w s \<longleftrightarrow> g_ready (glob s) \<and> g_busy_poll (glob s) = 0 \<and> w < NE_DP_WAKE_N \<and>
     length (g_efd (glob s)) = NE_DP_WAKE_N \<and> length (g_sleeping (glob s)) = NE_DP_WAKE_N \<and>
     length (efd_ctr (glob s)) = NE_DP_WAKE_N \<and> g_efd (glob s) ! w \<ge> 0 \<and> overdue s = 0 \<and>
     (pc s = Armed \<longrightarrow> (if flagbuf s = [] then g_sleeping (glob s) ! w else last (flagbuf s))) \<and>
     (pc s = Polling \<longrightarrow> flagbuf s = [] \<and> g_sleeping (glob s) ! w) \<and>
     (pc s = Polling \<and> jobs s \<noteq> 0 \<longrightarrow> owed s \<noteq> 0 \<or> efd_ctr (glob s) ! w \<noteq> 0)"

lemmas idle_ops = set_sleeping_def ne_dp_idle_disarm_def drain_eventfd_def ne_dp_idle_wake_def eventfd_signal_def wake_ok_def

interpretation wakeup: step_invariant "wake_start w" "wake_step True True w" "wake_inv w" for w
proof (unfold_locales, goal_cases)
  case (1 s)
  then show ?case by (simp add: wake_start_def wake_inv_def)
next
  case (2 s t)
  from 2(2,1) show ?case
    by cases (auto simp: wake_inv_def idle_ops split: if_splits)
qed

lemma fenced_never_lost: "reach (wake_start w) (wake_step True True w) s \<Longrightarrow> \<not> wake_lost w s"
  using wakeup.reach_inv [of w s] by (auto simp: wake_inv_def wake_lost_def)

lemma wake_start_ex:
  assumes "w < NE_DP_WAKE_N"
  shows "wake_start w \<lparr>glob = demo_idle, flagbuf = [], pc = Running, jobs = 0, in_buffer = 0, owed = 0, overdue = 0\<rparr>"
  using assms by (simp add: wake_start_def NE_DP_WAKE_N_def)

text \<open>Without the sleeper's fence: it looks at its rings before the flag is visible, a producer pushes and finds the
  flag clear, then the flag becomes visible.\<close>

lemma lost_without_sleeper_fence:
  assumes "w < NE_DP_WAKE_N"
  shows "\<exists>s. reach (wake_start w) (wake_step False pf w) s \<and> wake_lost w s"
proof -
  let ?R = "reach (wake_start w) (wake_step False pf w)"
  let ?s = "\<lparr>glob = demo_idle, flagbuf = [], pc = Running, jobs = 0, in_buffer = 0, owed = 0, overdue = 0\<rparr>"
  have "?R ?s" by (rule reach_start) (rule wake_start_ex [OF assms])
  from reach_step [OF this ws_arm] have "?R (?s\<lparr>pc := Armed, flagbuf := [True]\<rparr>)" by simp
  from reach_step [OF this ws_poll] have "?R (?s\<lparr>pc := Polling, flagbuf := [True]\<rparr>)" by simp
  from reach_step [OF this ws_push] have "?R (?s\<lparr>pc := Polling, flagbuf := [True], in_buffer := 1\<rparr>)" by simp
  from reach_step [OF this ws_commit] have "?R (?s\<lparr>pc := Polling, flagbuf := [True], jobs := 1, owed := 1\<rparr>)" by simp
  from reach_step [OF this ws_signal] have "?R (?s\<lparr>pc := Polling, flagbuf := [True], jobs := 1\<rparr>)"
    using assms by (simp add: ne_dp_idle_wake_def wake_ok_def NE_DP_WAKE_N_def)
  from reach_step [OF this ws_flush]
  have "?R (?s\<lparr>pc := Polling, jobs := 1, glob := set_sleeping (int w) True demo_idle\<rparr>)" by simp
  moreover have "efd_ctr (set_sleeping (int w) True demo_idle) ! w = 0"
    using assms by (simp add: set_sleeping_def NE_DP_WAKE_N_def)
  ultimately show ?thesis by (intro exI conjI) (assumption, simp add: wake_lost_def)
qed

text \<open>Without the producer's fence: it finds the flag clear while its push is still buffered, the sleeper announces
  sleep and finds its rings empty, then the push becomes visible.\<close>

lemma lost_without_producer_fence:
  assumes "w < NE_DP_WAKE_N"
  shows "\<exists>s. reach (wake_start w) (wake_step sf False w) s \<and> wake_lost w s"
proof -
  let ?R = "reach (wake_start w) (wake_step sf False w)"
  let ?s = "\<lparr>glob = demo_idle, flagbuf = [], pc = Running, jobs = 0, in_buffer = 0, owed = 0, overdue = 0\<rparr>"
  let ?g = "set_sleeping (int w) True demo_idle"
  have "?R ?s" by (rule reach_start) (rule wake_start_ex [OF assms])
  from reach_step [OF this ws_push] have "?R (?s\<lparr>in_buffer := 1\<rparr>)" by simp
  from reach_step [OF this ws_early] have "?R (?s\<lparr>overdue := 1\<rparr>)"
    using assms by (simp add: ne_dp_idle_wake_def wake_ok_def NE_DP_WAKE_N_def)
  from reach_step [OF this ws_arm] have "?R (?s\<lparr>overdue := 1, pc := Armed, flagbuf := [True]\<rparr>)" by simp
  from reach_step [OF this ws_flush] have "?R (?s\<lparr>overdue := 1, pc := Armed, glob := ?g\<rparr>)" by simp
  from reach_step [OF this ws_poll] have "?R (?s\<lparr>overdue := 1, pc := Polling, glob := ?g\<rparr>)" by simp
  from reach_step [OF this ws_late] have "?R (?s\<lparr>jobs := 1, pc := Polling, glob := ?g\<rparr>)" by simp
  moreover have "efd_ctr ?g ! w = 0" using assms by (simp add: set_sleeping_def NE_DP_WAKE_N_def)
  ultimately show ?thesis by (intro exI conjI) (assumption, simp add: wake_lost_def)
qed

text \<open>C39: A wake-up can be lost exactly when a fence is missing: under total store order a state in which a thread
  polls while its rings hold a packet, with no event pending and no producer left to signal it, is
  reachable for a wake identifier if and only if the sleeper has no full fence between announcing sleep and
  looking at its rings again, or the producers have none between pushing and testing the flag. The code has
  neither (\<open>sf = pf = False\<close>): \<^verbatim>\<open>set_sleeping\<close> is a release store and \<^verbatim>\<open>ne_dp_idle_wake\<close> an acquire
  load, so such a packet waits for the one-millisecond timeout of \<^verbatim>\<open>poll\<close>. With both fences none is ever
  lost, for any number of producers and every interleaving.\<close>
theorem wakeup_lost_iff_unfenced:
  "(\<exists>s. reach (wake_start w) (wake_step sf pf w) s \<and> wake_lost w s) \<longleftrightarrow> w < NE_DP_WAKE_N \<and> \<not> (sf \<and> pf)"
proof (cases "w < NE_DP_WAKE_N")
  case False
  have "\<not> reach (wake_start w) (wake_step sf pf w) s" for s
  proof
    assume "reach (wake_start w) (wake_step sf pf w) s"
    then show False by (induction rule: reach.induct) (use False in \<open>auto simp: wake_start_def\<close>)
  qed
  then show ?thesis using False by blast
next
  case True
  then show ?thesis
    using lost_without_sleeper_fence [OF True] lost_without_producer_fence [OF True] fenced_never_lost [of w]
    by (cases sf; cases pf) auto
qed

section \<open>Stopping\<close>

definition wake_one :: "nat \<Rightarrow> idle_globals \<Rightarrow> idle_globals" where
  "wake_one i g = (if g_efd g ! i < 0 then g else eventfd_signal i (g\<lparr>g_sleeping := (g_sleeping g)[i := True]\<rparr>))"

lemma wake_fold:
  assumes "set is \<subseteq> {..<length (efd_ctr g)}" "distinct is" "length (g_sleeping g) = length (efd_ctr g)" "g_efd g ! i \<ge> 0"
  shows "efd_ctr (fold wake_one is g) ! i = efd_ctr g ! i + (if i \<in> set is then 1 else 0) \<and>
    g_sleeping (fold wake_one is g) ! i = (i \<in> set is \<or> g_sleeping g ! i)"
  using assms
proof (induction "is" arbitrary: g)
  case (Cons j "is")
  have w: "g_efd (wake_one j g) = g_efd g" "length (efd_ctr (wake_one j g)) = length (efd_ctr g)"
    "length (g_sleeping (wake_one j g)) = length (g_sleeping g)"
    by (simp_all add: wake_one_def eventfd_signal_def)
  have "efd_ctr (wake_one j g) ! i = efd_ctr g ! i + (if i = j then 1 else 0) \<and>
      g_sleeping (wake_one j g) ! i = (i = j \<or> g_sleeping g ! i)"
    using Cons.prems by (auto simp: wake_one_def eventfd_signal_def)
  then show ?case using Cons.IH [of "wake_one j g"] Cons.prems w by auto
qed simp

text \<open>Stopping wakes everybody: after \<^verbatim>\<open>ne_dp_idle_wake_all\<close> every worker with an event descriptor has an
  event pending, whether or not it had announced sleep.\<close>
theorem wake_all_reaches_everyone:
  assumes "g_ready g" "length (g_efd g) = 10" "length (g_sleeping g) = 10" "length (efd_ctr g) = 10" "i < 10" "g_efd g ! i \<ge> 0"
  shows "efd_ctr (ne_dp_idle_wake_all g) ! i = efd_ctr g ! i + 1 \<and> g_sleeping (ne_dp_idle_wake_all g) ! i"
proof -
  have "ne_dp_idle_wake_all g = fold wake_one [0..<10] g"
    using assms(1) by (simp add: ne_dp_idle_wake_all_def wake_one_def [abs_def] NE_DP_WAKE_N_def)
  then show ?thesis using wake_fold [of "[0..<10]" g i] assms by (simp add: lessThan_atLeast0)
qed

theorem wake_all_reaches_everyone_witness:
  "efd_ctr (ne_dp_idle_wake_all demo_idle) ! 4 = 1 \<and> g_sleeping (ne_dp_idle_wake_all demo_idle) ! 4"
  using wake_all_reaches_everyone [of demo_idle 4] by simp

end
