(* ===== verification/Dataplane.thy ===== *)
theory Dataplane
  imports Tcp_Mss L2_Safe Flow_Route Xsk_Frames Umem_Copy Idle
begin

unbundle bit_operations_syntax

text \<open>
  The packet path of a crypto worker: \<^verbatim>\<open>src/core/dataplane/local_egress.c\<close> (LAN to WAN),
  \<^verbatim>\<open>src/core/dataplane/wan_ingress.c\<close> (WAN to LAN) and \<^verbatim>\<open>dp_ring_push\<close> of \<^verbatim>\<open>packet_util.c\<close>, over the forwarder of
  \<^verbatim>\<open>forwarder.h\<close>. The state \<open>dp_state\<close> is the forwarder with the worker thread's routing, crypto,
  reassembly and idling state; the clock, the operating system and the cipher library are the record
  \<open>dp_env\<close>. \<open>crypto_buf\<close> and \<open>crypto_aux\<close> are scratch: a failed call may leave other bytes in them than the
  model keeps, and each packet first overwrites the part it uses. A worker index outside the arrays is a
  \<open>Fault\<close>.
\<close>

section \<open>State\<close>

record fwd_iface =
  fi_ifindex :: nat
  fi_ifname :: string

record forwarder =
  fwd_locals :: "fwd_iface list"
  fwd_local_count :: nat
  fwd_wans :: "fwd_iface list"
  fwd_wan_count :: nat
  pair :: ne_pair_io
  crypto :: packet_crypto_ctx
  local_to_mid :: "ne_packet ne_ring list"
  wan_to_mid :: "ne_packet ne_ring list"
  mid_to_wan :: "ne_packet ne_ring list list"
  mid_to_local :: "ne_packet ne_ring list list"
  crypto_buf :: "bytes list"
  crypto_aux :: "bytes list"

record dp_state =
  fwd :: forwarder
  rt :: route_state
  l2 :: l2_state
  g_tables :: "nat \<Rightarrow> opt_table option"
  idle :: idle_globals

record 'c dp_env =
  env_os :: os_env
  env_lib :: "'c scrypt_api"
  env_now :: u64
  env_calloc :: bool

definition dp_mem :: "dp_state \<Rightarrow> ne_pair" where
  "dp_mem s = io_mem (pair (fwd s))"

definition set_mem :: "ne_pair \<Rightarrow> dp_state \<Rightarrow> dp_state" where
  "set_mem m s = s\<lparr>fwd := (fwd s)\<lparr>pair := (pair (fwd s))\<lparr>io_mem := m\<rparr>\<rparr>\<rparr>"

definition set_buf :: "nat \<Rightarrow> bytes \<Rightarrow> dp_state \<Rightarrow> dp_state" where
  "set_buf w b s = s\<lparr>fwd := (fwd s)\<lparr>crypto_buf := (crypto_buf (fwd s))[w := b]\<rparr>\<rparr>"

definition set_aux :: "nat \<Rightarrow> bytes \<Rightarrow> dp_state \<Rightarrow> dp_state" where
  "set_aux w b s = s\<lparr>fwd := (fwd s)\<lparr>crypto_aux := (crypto_aux (fwd s))[w := b]\<rparr>\<rparr>"

text \<open>The output ring a pointer refers to: interface and ring index.\<close>

datatype ring_ref = MidToWan nat nat | MidToLocal nat nat

fun ring_at :: "ring_ref \<Rightarrow> forwarder \<Rightarrow> ne_packet ne_ring" where
  "ring_at (MidToWan i k) f = mid_to_wan f ! i ! k"
| "ring_at (MidToLocal i k) f = mid_to_local f ! i ! k"

fun ring_put :: "ring_ref \<Rightarrow> ne_packet ne_ring \<Rightarrow> forwarder \<Rightarrow> forwarder" where
  "ring_put (MidToWan i k) r f = f\<lparr>mid_to_wan := (mid_to_wan f)[i := (mid_to_wan f ! i)[k := r]]\<rparr>"
| "ring_put (MidToLocal i k) r f = f\<lparr>mid_to_local := (mid_to_local f)[i := (mid_to_local f ! i)[k := r]]\<rparr>"

section \<open>Shared steps\<close>

definition dp_free :: "ne_packet \<Rightarrow> dp_state \<Rightarrow> dp_state" where
  "dp_free pkt s = set_mem (fst (ne_packet_free (dp_mem s) pkt)) s"

definition dp_wake :: "dp_state \<Rightarrow> dp_state" where
  "dp_wake s = s\<lparr>idle := ne_dp_idle_wake_tx_worker (int (dp_out_ring_idx (rt s))) (idle s)\<rparr>"

definition dp_ring_push :: "ring_ref \<Rightarrow> ne_packet \<Rightarrow> dp_state \<Rightarrow> bool \<times> ne_packet \<times> dp_state" where
  "dp_ring_push ring pkt s =
     (case (if NE_JUMBO_FRAME_MAX < len pkt then None else ne_ring_try_push (ring_at ring (fwd s)) pkt) of
        None \<Rightarrow> (False, zero_packet, dp_free pkt s)
      | Some r \<Rightarrow> (True, pkt, dp_wake (s\<lparr>fwd := ring_put ring r (fwd s)\<rparr>)))"

text \<open>The protocol byte \<^verbatim>\<open>dp_parse_flow\<close> stores before it looks at the ports, 0 when it stores none.\<close>

definition flow_proto :: "bytes \<Rightarrow> nat \<Rightarrow> u8" where
  "flow_proto pkt_data pkt_len =
     (case crypto_eth_ipv4_offset pkt_data pkt_len of
        None \<Rightarrow> 0
      | Some l3_off \<Rightarrow>
          let ihl = unat (pkt_data ! l3_off AND 0x0F) * 4 in
          if ihl < 20 \<or> pkt_len < l3_off + ihl then 0 else pkt_data ! (l3_off + 9))"

section \<open>LAN to WAN\<close>

definition push_to_wan :: "nat \<Rightarrow> ne_packet \<Rightarrow> dp_state \<Rightarrow> bool \<times> ne_packet \<times> dp_state" where
  "push_to_wan wan_dp job s =
     dp_ring_push (MidToWan wan_dp (dp_out_ring_idx (rt s))) (job\<lparr>dir := NE_DIR_WAN, wan_idx := wan_dp mod 256\<rparr>) s"

definition push_split_to_wan ::
  "ne_packet \<Rightarrow> nat \<Rightarrow> ne_packet \<Rightarrow> nat \<Rightarrow> nat \<Rightarrow> dp_state \<Rightarrow> bool \<times> ne_packet \<times> dp_state" where
  "push_split_to_wan job l1 tail n2 wan_dp s =
     (let ref = MidToWan wan_dp (dp_out_ring_idx (rt s));
          tx = ring_at ref (fwd s) in
      if fwd_wan_count (fwd s) \<le> wan_dp \<or> r_cap tx < ne_ring_count tx + 2 then (False, job, dp_free tail s)
      else if l1 = 0 \<or> n2 = 0 \<or> NE_JUMBO_FRAME_MAX < l1 \<or> NE_JUMBO_FRAME_MAX < n2 then (False, job, dp_free tail s)
      else let tail1 = tail\<lparr>len := n2, dir := NE_DIR_WAN, wan_idx := wan_dp mod 256\<rparr>;
               job1 = job\<lparr>len := l1, dir := NE_DIR_WAN, wan_idx := wan_dp mod 256\<rparr> in
        case ne_ring_try_push_pair tx job1 tail1 of
          None \<Rightarrow> (False, job1, dp_free tail1 s)
        | Some r \<Rightarrow> (True, job1, dp_wake (s\<lparr>fwd := ring_put ref r (fwd s)\<rparr>)))"

text \<open>The two ways \<^verbatim>\<open>encrypt_to_wan\<close> ends: as two frames, pushed at once (\<open>Done 1\<close>), or as one frame that
  is still in the caller's hands (\<open>Done 0\<close>). \<open>Fail\<close> is the return value -1.\<close>

definition encrypt_split ::
  "'c dp_env \<Rightarrow> nat \<Rightarrow> nat \<Rightarrow> ne_packet \<Rightarrow> bytes \<Rightarrow> dp_state \<Rightarrow> int cres \<times> (dp_state \<times> ne_packet)" where
  "encrypt_split env wan_dp w job pkt s =
     (case l2_crypto_split_udp (env_os env) (env_lib env) (crypto (fwd s)) pkt (len job) NE_JUMBO_FRAME_MAX
             (crypto_aux (fwd s) ! w) NE_JUMBO_FRAME_MAX (l2 s) of
        (res, ls) \<Rightarrow>
          mem_then res (s\<lparr>l2 := ls\<rparr>, job) (\<lambda>((pkt1, l1), (tail_buf, l2n)).
            let s1 = set_aux w tail_buf (set_buf w pkt1 (s\<lparr>l2 := ls\<rparr>)) in
            case ne_packet_write (dp_mem s1) job pkt1 l1 of (r1, m1, job1) \<Rightarrow>
              mem_then r1 (set_mem m1 s1, job1) (\<lambda>ok1.
                if \<not> ok1 then (Fail, (dp_free zero_packet (set_mem m1 s1), job1))
                else case ne_packet_write m1 zero_packet tail_buf l2n of (r2, m2, tail) \<Rightarrow>
                  mem_then r2 (set_mem m2 s1, job1) (\<lambda>ok2.
                    if \<not> ok2 then (Fail, (dp_free tail (set_mem m2 s1), job1))
                    else case push_split_to_wan job1 l1 tail l2n wan_dp (set_mem m2 s1) of
                      (pushed, job2, s2) \<Rightarrow> (if pushed then Done 1 else Fail, (s2, job2))))))"

definition encrypt_whole ::
  "'c dp_env \<Rightarrow> l2_crypto_proto \<Rightarrow> nat \<Rightarrow> ne_packet \<Rightarrow> bytes \<Rightarrow> dp_state \<Rightarrow> int cres \<times> (dp_state \<times> ne_packet)" where
  "encrypt_whole env pr w job pkt s =
     (case l2_crypto_encrypt (env_os env) (env_lib env) pr (crypto (fwd s)) pkt (len job) (l2 s) of
        (res, ls) \<Rightarrow>
          mem_then res (s\<lparr>l2 := ls\<rparr>, job) (\<lambda>(pkt1, n).
            let s1 = set_buf w pkt1 (s\<lparr>l2 := ls\<rparr>) in
            if ETH_HEADER_SIZE + L2_CRYPTO_MTU < n then (Fail, (s1, job))
            else case ne_packet_write (dp_mem s1) job pkt1 n of (r, m, job1) \<Rightarrow>
              mem_then r (set_mem m s1, job1) (\<lambda>ok.
                (if ok then Done 0 else Fail, (set_mem m s1, job1)))))"

definition encrypt_to_wan ::
  "'c dp_env \<Rightarrow> nat \<Rightarrow> l2_crypto_proto \<Rightarrow> bool \<Rightarrow> ne_packet \<Rightarrow> dp_state \<Rightarrow> int cres \<times> (dp_state \<times> ne_packet)" where
  "encrypt_to_wan env wan_dp pr flow_ok job s =
     (let wi = dp_crypto_current_worker_idx (rt s) in
      if wi < 0 \<or> int NE_CRYPTO_WORKERS \<le> wi then (Fault, (s, job))
      else let w = nat wi;
               pkt0 = crypto_buf (fwd s) ! w;
               n = len job;
               split = l2_crypto_need_split pr n;
               pkt = (if pr \<noteq> L2_PROTO_UDP
                      then snd (crypto_tcp_clamp_mss pkt0 n L2_CRYPTO_MTU L2_CRYPTO_DATA_OVERHEAD) else pkt0);
               s1 = set_buf w pkt s in
        if pr = L2_PROTO_UDP \<or> split then
          if \<not> flow_ok then (Fail, (s1, job))
          else case dp_udp_next_tx_seq pkt n (rt s1) of
            (None, rs) \<Rightarrow> (Fail, (s1\<lparr>rt := rs\<rparr>, job))
          | (Some udp_seq, rs) \<Rightarrow>
              let s2 = s1\<lparr>rt := rs, l2 := l2_crypto_udp_set_tx_seq udp_seq (l2 s1)\<rparr> in
              if split then encrypt_split env wan_dp w job pkt s2 else encrypt_whole env pr w job pkt s2
        else encrypt_whole env pr w job pkt s1)"

definition dataplane_local_needs_mid :: "bytes \<Rightarrow> nat \<Rightarrow> nat \<Rightarrow> bool" where
  "dataplane_local_needs_mid pkt n li = True"

definition dataplane_process_local :: "'c dp_env \<Rightarrow> ne_packet \<Rightarrow> dp_state \<Rightarrow> dp_state cres" where
  "dataplane_process_local env job s =
     (let wi = dp_crypto_current_worker_idx (rt s) in
      if wi < 0 \<or> int NE_CRYPTO_WORKERS \<le> wi then Fault
      else let w = nat wi in
      case ne_packet_linearize (dp_mem s) job (crypto_buf (fwd s) ! w) NE_JUMBO_FRAME_MAX of
        Fault \<Rightarrow> Fault
      | Fail \<Rightarrow> Done (dp_free job s)
      | Done pkt \<Rightarrow>
          let s1 = set_buf w pkt s;
              flow_ok = (dp_parse_flow pkt (len job) \<noteq> None);
              wan_dp = 0 in
          if fwd_wan_count (fwd s1) \<noteq> 1 then Done (dp_free job s1)
          else case encrypt_to_wan env wan_dp (l2_crypto_classify (flow_proto pkt (len job))) flow_ok job s1 of
            (Fault, _) \<Rightarrow> Fault
          | (Fail, (s2, job2)) \<Rightarrow> Done (dp_free job2 s2)
          | (Done enc, (s2, job2)) \<Rightarrow>
              if enc > 0 then Done s2 else Done (snd (snd (push_to_wan wan_dp job2 s2))))"

section \<open>WAN to LAN\<close>

definition udp_mark :: bytes where "udp_mark = [0x5b, 0x55, 0x44, 0x01]"

definition is_udp_wire :: "bytes \<Rightarrow> nat \<Rightarrow> bool" where
  "is_udp_wire pkt n =
     (if \<not> crypto_eth_l2_has_marker pkt n then False
      else case crypto_eth_l2_frag_magic_off pkt n L2_NONCE_SIZE of
        None \<Rightarrow> False
      | Some off \<Rightarrow> off + 4 \<le> n \<and> mem_read pkt off 4 = udp_mark)"

definition forward_local :: "ne_packet \<Rightarrow> dp_state \<Rightarrow> bool \<times> ne_packet \<times> dp_state" where
  "forward_local job s =
     (if fwd_local_count (fwd s) \<noteq> 1 then (False, job, s)
      else dp_ring_push (MidToLocal 0 (dp_out_ring_idx (rt s))) (job\<lparr>dir := NE_DIR_LOCAL, local_idx := 0\<rparr>) s)"

definition dataplane_wan_needs_mid :: "bytes \<Rightarrow> nat \<Rightarrow> bool" where
  "dataplane_wan_needs_mid pkt n = crypto_eth_l2_has_marker pkt n"

text \<open>The end of \<^verbatim>\<open>dataplane_process_wan\<close>: the plain frame \<open>pkt\<close> of \<open>n\<close> bytes is stored in the job and
  handed to the LAN side.\<close>

definition deliver_local :: "nat \<Rightarrow> ne_packet \<Rightarrow> bytes \<Rightarrow> nat \<Rightarrow> dp_state \<Rightarrow> dp_state cres" where
  "deliver_local w job pkt n s =
     (case ne_packet_write (dp_mem s) job pkt n of
        (Fault, _) \<Rightarrow> Fault
      | (Fail, (m, job1)) \<Rightarrow> Done (dp_free job1 (set_mem m s))
      | (Done ok, (m, job1)) \<Rightarrow>
          let s1 = set_mem m s in
          if \<not> ok then Done (dp_free job1 s1)
          else let (txs, rs) = dp_flow_pick_tx_slot pkt (len job1) (int w) (rt s1);
                   s2 = s1\<lparr>rt := dp_out_ring_bind (int txs) rs\<rparr>;
                   (ok, job2, s3) = forward_local job1 s2
               in Done (if ok then s3 else dp_free job2 s3))"

definition dataplane_process_wan :: "'c dp_env \<Rightarrow> ne_packet \<Rightarrow> dp_state \<Rightarrow> dp_state cres" where
  "dataplane_process_wan env job s =
     (let wi = dp_crypto_current_worker_idx (rt s) in
      if wi < 0 \<or> int NE_CRYPTO_WORKERS \<le> wi then Done (dp_free job s)
      else let w = nat wi in
      case ne_packet_linearize (dp_mem s) job (crypto_buf (fwd s) ! w) NE_JUMBO_FRAME_MAX of
        Fault \<Rightarrow> Fault
      | Fail \<Rightarrow> Done (dp_free job s)
      | Done pkt \<Rightarrow>
          let s1 = set_buf w pkt s in
          if \<not> crypto_eth_l2_has_marker pkt (len job) then Done (dp_free job s1)
          else if is_udp_wire pkt (len job) then
            (case l2_crypto_reassemble_udp (env_calloc env) (env_lib env) wi (crypto (fwd s1)) pkt (len job)
                    (crypto_aux (fwd s1) ! w) (env_now env) (l2 s1, g_tables s1) of
               (res, (ls, gt)) \<Rightarrow>
                 let s2 = s1\<lparr>l2 := ls, g_tables := gt\<rparr> in
                 (case res of
                    Fault \<Rightarrow> Fault
                  | Fail \<Rightarrow> Done (dp_free job s2)
                  | Done None \<Rightarrow> Done (dp_free job s2)
                  | Done (Some (out, out_len)) \<Rightarrow> deliver_local w job out out_len (set_aux w out s2)))
          else
            (case l2_crypto_decrypt (env_lib env) L2_PROTO_DATA (crypto (fwd s1)) pkt (len job) (l2 s1) of
               (res, ls) \<Rightarrow>
                 let s2 = s1\<lparr>l2 := ls\<rparr> in
                 (case res of
                    Fault \<Rightarrow> Fault
                  | Fail \<Rightarrow> Done (dp_free job s2)
                  | Done (pkt1, n) \<Rightarrow> deliver_local w job pkt1 n (set_buf w pkt1 s2))))"

end
