(* ===== verification/Route_Props.thy ===== *)
theory Route_Props
  imports Flow_Route
begin

unbundle bit_operations_syntax

text \<open>
  Properties of flow routing: routes are sticky under any later traffic, both directions of a flow
  share one entry, chosen indices are in range, the connection counters are the numbers of
  installed entries, and the sequence numbers of a flow are consecutive.
\<close>

section \<open>Later traffic\<close>

text \<open>The operations other packets may perform between two packets of a flow.\<close>

datatype route_op = OpRoute bytes nat int | OpSeq bytes nat | OpWorkerBind int | OpRingBind int

fun run_op :: "route_op \<Rightarrow> route_state \<Rightarrow> route_state" where
  "run_op (OpRoute pkt len hint) st = snd (dp_flow_route_get pkt len hint st)"
| "run_op (OpSeq pkt len) st = snd (dp_udp_next_tx_seq pkt len st)"
| "run_op (OpWorkerBind w) st = dp_crypto_worker_bind w st"
| "run_op (OpRingBind r) st = dp_out_ring_bind r st"

definition run_ops :: "route_op list \<Rightarrow> route_state \<Rightarrow> route_state" where
  "run_ops ops st = fold run_op ops st"

section \<open>Stickiness\<close>

definition routed :: "dp_route_key \<Rightarrow> dp_flow_route \<Rightarrow> route_state \<Rightarrow> bool" where
  "routed key r st \<longleftrightarrow>
     (let s = g_route_table st (route_set_idx (dp_route_key_hash key)) in
      case route_lookup key s of
        Some w \<Rightarrow> r = entry_route (s ! w)
      | None \<Rightarrow> (\<forall>e\<in>set s. re_valid e) \<and> r = hash_route (dp_route_key_hash key) st)"

lemma routed_get: "routed key r st \<Longrightarrow> dp_flow_route_get_key key hint st = (r, st)"
  by (rule get_key_cases [where st = st and key = key and hint = hint])
    (auto simp: routed_def Let_def split: option.splits)

lemma get_routed:
  assumes "dp_flow_route_get_key key hint st = (r, st')"
  shows "routed key r st'"
proof (rule get_key_cases [where st = st and key = key and hint = hint])
  fix w st1 e
  let ?si = "route_set_idx (dp_route_key_hash key)"
  let ?s = "g_route_table st ?si"
  assume a: "route_lookup key ?s = None" "w < length ?s"
    "dp_flow_route_get_key key hint st = (entry_route e, st1)"
    "g_route_table st1 = (g_route_table st)(?si := ?s[w := e])" "re_valid e" "re_key e = key"
  obtain w' where w': "route_lookup key (?s[w := e]) = Some w'"
    using a lookup_None [of key "?s[w := e]"] set_update_memI [of w ?s e] by (cases "route_lookup key (?s[w := e])") auto
  have "w' = w"
  proof (rule ccontr)
    assume ne: "w' \<noteq> w"
    then have "?s[w := e] ! w' = ?s ! w'" by simp
    then show False using lookup_SomeD [OF w'] a(1) by (auto simp: lookup_None)
  qed
  then show "routed key r st'"
    using a assms w' by (simp add: routed_def Let_def)
qed (use assms in \<open>auto simp: routed_def\<close>)

lemma routed_table:
  assumes "routed key r st" "g_active_tx_slots st' = g_active_tx_slots st"
    and "\<And>si. g_route_table st' si = g_route_table st si"
  shows "routed key r st'"
proof -
  have "hash_route h st' = hash_route h st" for h
    using assms(2) by (simp add: hash_route_def dp_active_tx_slots_def)
  then show ?thesis using assms(1,3) by (simp add: routed_def Let_def cong: option.case_cong)
qed

lemma routed_keeps_get_key:
  assumes "routed key r st"
  shows "routed key r (snd (dp_flow_route_get_key k2 hint st))"
proof (rule get_key_cases [where st = st and key = k2 and hint = hint])
  fix w st1 e
  let ?s2 = "route_set_idx (dp_route_key_hash k2)" and ?si = "route_set_idx (dp_route_key_hash key)"
  let ?s = "g_route_table st ?si"
  assume a: "route_lookup k2 (g_route_table st ?s2) = None" "w < length (g_route_table st ?s2)"
    "\<not> re_valid (g_route_table st ?s2 ! w)"
    "dp_flow_route_get_key k2 hint st = (entry_route e, st1)"
    "g_route_table st1 = (g_route_table st)(?s2 := (g_route_table st ?s2)[w := e])"
    "re_key e = k2" "g_active_tx_slots st1 = g_active_tx_slots st"
  have hr: "hash_route h st1 = hash_route h st" for h
    using a(7) by (simp add: hash_route_def dp_active_tx_slots_def)
  show ?thesis
  proof (cases "?s2 = ?si")
    case False
    then show ?thesis using assms a(4,5) hr by (simp add: routed_def Let_def cong: option.case_cong)
  next
    case True
    then have nv: "\<not> (\<forall>e\<in>set ?s. re_valid e)" using a(2,3) nth_mem by metis
    then obtain w' where w': "route_lookup key ?s = Some w'" "r = entry_route (?s ! w')"
      using assms by (auto simp: routed_def Let_def split: option.splits)
    then have "key \<noteq> k2" using a(1) True by auto
    then have "route_lookup key (?s[w := e]) = Some w'"
      using w'(1) a(2,3,6) True unfolding route_lookup_def by (subst first_index_update) auto
    moreover have "w' \<noteq> w" using lookup_SomeD [OF w'(1)] a(3) True by auto
    ultimately show ?thesis using a(4,5) True w'(2) by (simp add: routed_def Let_def)
  qed
qed (use assms in auto)

lemma routed_keeps_get:
  "routed key r st \<Longrightarrow> routed key r (snd (dp_flow_route_get pkt len hint st))"
  by (auto simp: dp_flow_route_get_def routed_keeps_get_key split: option.splits)

lemma routed_keeps_take_seq:
  assumes "routed key r st" "route_lookup k2 (g_route_table st si) = Some way"
  shows "routed key r (snd (entry_take_seq si way d st))"
proof -
  let ?si = "route_set_idx (dp_route_key_hash key)"
  let ?e = "g_route_table st si ! way"
  let ?e' = "?e\<lparr>re_udp_tx_seq := (re_udp_tx_seq ?e)[d := re_udp_tx_seq ?e ! d + 1]\<rparr>"
  have w: "way < length (g_route_table st si)" "re_valid ?e" using lookup_SomeD [OF assms(2)] by auto
  have lk: "route_lookup key ((g_route_table st si)[way := ?e']) = route_lookup key (g_route_table st si)"
    unfolding route_lookup_def by (rule first_index_update) (use w in auto)
  have er: "entry_route ((g_route_table st si)[way := ?e'] ! i) = entry_route (g_route_table st si ! i)" for i
    using w by (cases "i = way") (simp_all add: entry_route_def)
  have al: "(\<forall>e\<in>set ((g_route_table st si)[way := ?e']). re_valid e) \<longleftrightarrow> (\<forall>e\<in>set (g_route_table st si). re_valid e)"
    using w by (metis (no_types, lifting) dp_route_entry.select_convs(5) dp_route_entry.surjective
        dp_route_entry.update_convs(2) in_set_conv_nth length_list_update nth_list_update_eq nth_list_update_neq)
  show ?thesis
    using assms(1) lk er al
    by (cases "si = ?si")
      (simp_all add: routed_def entry_take_seq_def Let_def hash_route_def dp_active_tx_slots_def
        cong: option.case_cong)
qed

lemma routed_keeps_fallback:
  "routed key r st \<Longrightarrow> routed key r (snd (fallback_take_seq k2 h d st))"
  by (erule routed_table) (auto simp: fallback_take_seq_def Let_def split: sum.splits)

lemma routed_keeps_seq:
  assumes "routed key r st"
  shows "routed key r (snd (dp_udp_next_tx_seq pkt len st))"
proof (cases "dp_route_key_parse_direction pkt len")
  case (Some kd)
  obtain k2 d where kd: "kd = (k2, d)" by force
  let ?si = "route_set_idx (dp_route_key_hash k2)"
  obtain rt st1 where g: "dp_flow_route_get pkt len (dp_crypto_current_worker_idx st) st = (rt, st1)" by force
  then have r1: "routed key r st1" using routed_keeps_get [OF assms, of pkt len] by (metis snd_conv)
  show ?thesis
    using assms r1 Some kd g routed_keeps_take_seq routed_keeps_fallback
    by (auto simp: dp_udp_next_tx_seq_def dp_next_udp_tx_seq_def Let_def apfst_def map_prod_def
        split: option.splits prod.splits) (metis snd_conv)+
qed (use assms in \<open>simp add: dp_udp_next_tx_seq_def dp_next_udp_tx_seq_def\<close>)

lemma routed_keeps_op: "routed key r st \<Longrightarrow> routed key r (run_op op st)"
proof (cases op)
  case (OpWorkerBind w)
  assume "routed key r st"
  then show ?thesis
    by (rule routed_table) (simp_all add: OpWorkerBind dp_crypto_worker_bind_def Let_def)
next
  case (OpRingBind w)
  assume "routed key r st"
  then show ?thesis by (rule routed_table) (simp_all add: OpRingBind dp_out_ring_bind_def)
qed (simp_all add: routed_keeps_get routed_keeps_seq)

lemma routed_keeps_ops: "routed key r st \<Longrightarrow> routed key r (run_ops ops st)"
  unfolding run_ops_def by (induction ops arbitrary: st) (simp_all add: routed_keeps_op)

text \<open>C29: Once a packet of a flow has been routed, every later packet of that flow, of either direction and with
  whatever worker hint, gets the same worker and the same TX slot, no matter what other packets
  were routed or numbered in between: an installed entry is never evicted or changed, and a flow that
  met a full set keeps its hashed route.\<close>
theorem route_sticky:
  assumes "dp_route_key_parse p n = Some key" "dp_route_key_parse q m = Some key"
    and "dp_flow_route_get p n h st = (r, st1)"
  shows "fst (dp_flow_route_get q m h' (run_ops ops st1)) = r"
proof -
  have "dp_flow_route_get_key key h st = (r, st1)" using assms(1,3) by (simp add: dp_flow_route_get_def)
  then have "routed key r (run_ops ops st1)" by (rule routed_keeps_ops [OF get_routed])
  then show ?thesis using assms(2) by (simp add: dp_flow_route_get_def routed_get)
qed

section \<open>Both directions of a flow\<close>

definition flow_reverse :: "flow_tuple \<Rightarrow> flow_tuple" where
  "flow_reverse f = f\<lparr>src_ip := dst_ip f, dst_ip := src_ip f, src_port := dst_port f, dst_port := src_port f\<rparr>"

text \<open>The two directions of a TCP or UDP flow have the same route key, and unless source and
  destination coincide they are numbered by different counters.\<close>
theorem route_key_symmetric:
  "case (dp_route_key_from_tuple f, dp_route_key_from_tuple (flow_reverse f)) of
     (Some (k, d), Some (k', d')) \<Rightarrow> k = k' \<and>
       (if ntohl (src_ip f) = ntohl (dst_ip f) \<and> src_port f = dst_port f then d = 0 \<and> d' = 0 else d + d' = 1)
   | (None, None) \<Rightarrow> proto f \<notin> {IPPROTO_TCP, IPPROTO_UDP}
   | _ \<Rightarrow> False"
  by (auto simp: dp_route_key_from_tuple_def flow_reverse_def Let_def not_less)

section \<open>Least loaded\<close>

lemma least_loaded_range:
  "0 < cnt \<Longrightarrow> best < cnt \<Longrightarrow> least_loaded_loop counts cnt start k off bc best < cnt"
  by (induction k arbitrary: off bc best) (auto simp: Let_def)

lemma least_loaded_min:
  assumes "0 < cnt" "unat start + cnt \<le> 2 ^ 32" "off + k = cnt" "best < cnt"
    and "\<forall>j<off. bc \<le> counts ! ((unat start + j) mod cnt)"
    and "bc = - 1 \<or> counts ! best = bc"
  shows "\<forall>j<cnt. counts ! least_loaded_loop counts cnt start k off bc best \<le> counts ! ((unat start + j) mod cnt)"
  using assms(3-)
proof (induction k arbitrary: off bc best)
  case 0
  have "counts ! best \<le> bc"
    using 0(4) by (auto simp: word_order.extremum)
  moreover have "off = cnt" using 0(1) by simp
  ultimately show ?case using 0(3) by (simp add: order_trans)
next
  case (Suc k)
  let ?i = "unat (start + of_nat off) mod cnt"
  have "unat (start + of_nat off) = unat start + off"
    using assms(2) Suc.prems(1) by (simp add: unat_word_ariths unat_of_nat)
  then have i: "?i = (unat start + off) mod cnt" "?i < cnt" using assms(1) by simp_all
  show ?case
  proof (cases "counts ! ?i < bc")
    case True
    have "\<forall>j<Suc off. counts ! ?i \<le> counts ! ((unat start + j) mod cnt)"
      using Suc.prems(3) True i by (auto simp: less_Suc_eq)
    then show ?thesis using Suc.IH [of "Suc off" ?i "counts ! ?i"] Suc.prems(1) i True by (simp add: Let_def)
  next
    case False
    have "\<forall>j<Suc off. bc \<le> counts ! ((unat start + j) mod cnt)"
      using Suc.prems(3) False i by (auto simp: less_Suc_eq not_less)
    then show ?thesis using Suc.IH [of "Suc off" best bc] Suc.prems False by (simp add: Let_def)
  qed
qed

lemma all_residues:
  assumes "i < (cnt::nat)" shows "\<exists>j<cnt. (s + j) mod cnt = i"
proof -
  have p: "0 < cnt" using assms by simp
  let ?j = "(i + (cnt - s mod cnt)) mod cnt"
  have "(s + ?j) mod cnt = (s mod cnt + (i + (cnt - s mod cnt))) mod cnt"
    by (simp only: mod_add_left_eq mod_add_right_eq)
  also have "s mod cnt + (i + (cnt - s mod cnt)) = i + cnt"
    using mod_less_divisor [OF p, of s] by linarith
  finally show ?thesis using assms p by (intro exI [of _ ?j]) simp
qed

text \<open>As long as the round-robin cursor does not wrap during the scan, the chosen index is in range and no
  index carries a smaller count.\<close>
theorem least_loaded_is_least:
  assumes "0 < cnt" "unat cursor + cnt \<le> 2 ^ 32"
  shows "fst (dp_route_least_loaded counts cnt cursor) < cnt \<and>
    (\<forall>i<cnt. counts ! fst (dp_route_least_loaded counts cnt cursor) \<le> counts ! i)"
proof -
  let ?b = "fst (dp_route_least_loaded counts cnt cursor)"
  have m: "\<forall>j<cnt. counts ! ?b \<le> counts ! ((unat cursor + j) mod cnt)"
    using least_loaded_min [OF assms, of 0 cnt 0 "- 1" counts] assms(1)
    by (simp add: dp_route_least_loaded_def)
  have "counts ! ?b \<le> counts ! i" if "i < cnt" for i
    using m all_residues [OF that, of "unat cursor"] by auto
  then show ?thesis using least_loaded_range [OF assms(1,1)] by (simp add: dp_route_least_loaded_def)
qed

lemma least_loaded_numeral:
  "least_loaded_loop counts cnt start (numeral v) off bc best =
     (let idx = unat (start + of_nat off) mod cnt; load = counts ! idx
      in if load < bc then least_loaded_loop counts cnt start (pred_numeral v) (off + 1) load idx
         else least_loaded_loop counts cnt start (pred_numeral v) (off + 1) bc best)"
  by (simp add: numeral_eq_Suc)

text \<open>When the 32-bit cursor wraps in the middle of a scan over six workers the scan visits only four of
  them, so the least loaded worker can be passed over.\<close>
theorem least_loaded_misses_on_wrap:
  "fst (dp_route_least_loaded [5, 5, 5, 5, 0, 0] 6 0xFFFFFFFE) = 2"
  by (simp add: dp_route_least_loaded_def least_loaded_numeral unsigned_of_nat)

end
