(* ===== verification/Route_Inv.thy ===== *)
theory Route_Inv
  imports Route_Props
begin

unbundle bit_operations_syntax

text \<open>
  The invariant of the route tables (shapes, index ranges, exact connection counters), its
  preservation by every routing operation, and the UDP sequence numbers.
\<close>

section \<open>Invariant\<close>

definition installed :: "(dp_route_entry \<Rightarrow> bool) \<Rightarrow> route_state \<Rightarrow> nat" where
  "installed P st = (\<Sum>si<8192. length (filter (\<lambda>e. re_valid e \<and> P e) (g_route_table st si)))"

definition entry_in_range :: "dp_route_entry \<Rightarrow> bool" where
  "entry_in_range e \<longleftrightarrow> length (re_udp_tx_seq e) = 2 \<and> (re_valid e \<longrightarrow> re_worker_idx e < 6 \<and> re_tx_slot e < 4)"

definition route_inv :: "route_state \<Rightarrow> bool" where
  "route_inv st \<longleftrightarrow>
     length (g_worker_connection_count st) = 6 \<and> length (g_tx_connection_count st) = 4 \<and>
     (\<forall>si. length (g_route_table st si) = 8 \<and> (\<forall>e\<in>set (g_route_table st si). entry_in_range e)) \<and>
     (\<forall>w<6. g_worker_connection_count st ! w = of_nat (installed (\<lambda>e. re_worker_idx e = w) st)) \<and>
     (\<forall>t<4. g_tx_connection_count st ! t = of_nat (installed (\<lambda>e. re_tx_slot e = t) st))"

lemma length_filter_update:
  "k < length xs \<Longrightarrow> length (filter P (xs[k := y])) + (if P (xs ! k) then 1 else 0) =
     length (filter P xs) + (if P y then 1 else 0)"
proof (induction xs arbitrary: k)
  case (Cons x xs)
  show ?case
  proof (cases k)
    case (Suc j)
    then show ?thesis using Cons.IH [of j] Cons.prems by simp
  qed simp
qed simp

lemma route_inv_entry:
  "route_inv st \<Longrightarrow> i < length (g_route_table st si) \<Longrightarrow> entry_in_range (g_route_table st si ! i)"
  unfolding route_inv_def by (metis nth_mem)

lemma route_set_idx_less: "route_set_idx h < 8192"
proof -
  have "h AND 8191 \<le> (8191 :: u32)" by (rule word_and_le1)
  then have "unat (h AND 8191) \<le> unat (8191 :: u32)" by (simp only: word_le_nat_alt)
  then show ?thesis by (simp add: route_set_idx_def DP_ROUTE_SET_COUNT_def)
qed

lemma installed_update:
  assumes "si < 8192" "w < length (g_route_table st si)"
    and "g_route_table st' = (g_route_table st)(si := (g_route_table st si)[w := e])"
  shows "installed P st' + (if re_valid (g_route_table st si ! w) \<and> P (g_route_table st si ! w) then 1 else 0) =
    installed P st + (if re_valid e \<and> P e then 1 else 0)"
proof -
  let ?f = "\<lambda>s i. length (filter (\<lambda>e. re_valid e \<and> P e) (g_route_table s i))"
  have s: "installed P s = ?f s si + (\<Sum>i\<in>{..<8192} - {si}. ?f s i)" for s
    unfolding installed_def by (rule sum.remove) (use assms(1) in auto)
  have "(\<Sum>i\<in>{..<8192} - {si}. ?f st' i) = (\<Sum>i\<in>{..<8192} - {si}. ?f st i)"
    by (rule sum.cong) (auto simp: assms(3))
  then show ?thesis
    unfolding s using length_filter_update [OF assms(2), of "\<lambda>e. re_valid e \<and> P e" e] assms(3) by simp
qed

lemma tx_choice_range: "fst (dp_route_least_loaded counts (unat (dp_active_tx_slots st)) c) < 4"
  using least_loaded_range [OF active_slots_range(1), of 0 st] active_slots_range [of st]
  by (simp add: dp_route_least_loaded_def) (meson less_le_trans)

lemma worker_choice_range: "fst (dp_route_least_loaded counts 6 c) < 6"
  by (simp add: dp_route_least_loaded_def least_loaded_range)

lemma route_inv_get_key:
  assumes "route_inv st" "dp_flow_route_get_key key hint st = (r, st')"
  shows "route_inv st' \<and> worker_idx r < 6 \<and> tx_slot r < 4"
proof (rule get_key_cases [where st = st and key = key and hint = hint])
  fix w
  assume "route_lookup key (g_route_table st (route_set_idx (dp_route_key_hash key))) = Some w"
    "dp_flow_route_get_key key hint st = (entry_route (g_route_table st (route_set_idx (dp_route_key_hash key)) ! w), st)"
  then show ?thesis
    using assms route_inv_entry [OF assms(1), of w] lookup_SomeD
    by (force simp: entry_in_range_def entry_route_def)
next
  assume "dp_flow_route_get_key key hint st = (hash_route (dp_route_key_hash key) st, st)"
  then show ?thesis
    using assms hash_to_n_less [of 6 "dp_route_key_hash key"]
      hash_to_n_less [OF active_slots_range(3), of "dp_route_key_hash key" st] active_slots_range(2) [of st]
    by (auto simp: hash_route_def)
next
  fix w st1 e
  let ?si = "route_set_idx (dp_route_key_hash key)"
  let ?s = "g_route_table st ?si"
  assume a: "w < length ?s" "\<not> re_valid (?s ! w)"
    "dp_flow_route_get_key key hint st = (entry_route e, st1)"
    "g_route_table st1 = (g_route_table st)(?si := ?s[w := e])" "re_valid e" "re_udp_tx_seq e = [0, 0]"
    and wk: "re_worker_idx e = (if 0 \<le> hint \<and> hint < 6 then nat hint
         else fst (dp_route_least_loaded (g_worker_connection_count st) 6 (g_worker_rr st)))"
    and tx: "re_tx_slot e = fst (dp_route_least_loaded (g_tx_connection_count st) (unat (dp_active_tx_slots st)) (g_tx_rr st))"
    and c: "g_worker_connection_count st1 = (g_worker_connection_count st)
         [re_worker_idx e := g_worker_connection_count st ! re_worker_idx e + 1]"
      "g_tx_connection_count st1 = (g_tx_connection_count st)
         [re_tx_slot e := g_tx_connection_count st ! re_tx_slot e + 1]"
  have rg: "re_worker_idx e < 6" "re_tx_slot e < 4"
    using wk tx worker_choice_range tx_choice_range by (auto split: if_splits)
  have i: "installed P st1 = installed P st + (if P e then 1 else 0)" for P
    using installed_update [OF route_set_idx_less a(1,4), of P] a(2,5) by simp
  have sh: "length (g_route_table st1 si) = 8 \<and> (\<forall>e\<in>set (g_route_table st1 si). entry_in_range e)" for si
    using assms(1) a(4,5,6) rg set_update_subset_insert [of ?s w e]
    by (auto simp: route_inv_def entry_in_range_def)
  have "route_inv st1"
    using assms(1) sh rg c unfolding route_inv_def by (auto simp: i nth_list_update)
  then show ?thesis using a(3) assms(2) rg by (simp add: entry_route_def)
qed

lemma route_inv_get:
  assumes "route_inv st" "dp_flow_route_get pkt len hint st = (r, st')"
  shows "route_inv st' \<and> worker_idx r < 6 \<and> tx_slot r < 4"
proof (cases "dp_route_key_parse pkt len")
  case None
  then show ?thesis
    using assms hash_to_n_less [of 6 "dp_pkt_flow_hash pkt len"]
      hash_to_n_less [OF active_slots_range(3), of "dp_pkt_flow_hash pkt len" st] active_slots_range(2) [of st]
    by (auto simp: dp_flow_route_get_def hash_route_def)
qed (use assms route_inv_get_key in \<open>auto simp: dp_flow_route_get_def\<close>)

lemma route_inv_same_tables:
  assumes "route_inv st" "g_route_table st' = g_route_table st"
    "g_worker_connection_count st' = g_worker_connection_count st"
    "g_tx_connection_count st' = g_tx_connection_count st"
  shows "route_inv st'"
  using assms by (simp add: route_inv_def installed_def)

lemma route_inv_take_seq:
  assumes "route_inv st" "route_lookup k (g_route_table st si) = Some way" "si < 8192"
  shows "route_inv (snd (entry_take_seq si way d st))"
proof -
  let ?s = "g_route_table st si" and ?e = "g_route_table st si ! way"
  let ?e' = "?e\<lparr>re_udp_tx_seq := (re_udp_tx_seq ?e)[d := re_udp_tx_seq ?e ! d + 1]\<rparr>"
  let ?st = "snd (entry_take_seq si way d st)"
  have w: "way < length ?s" using lookup_SomeD [OF assms(2)] by simp
  have t: "g_route_table ?st = (g_route_table st)(si := ?s[way := ?e'])"
    by (simp add: entry_take_seq_def Let_def)
  have "installed P ?st = installed P st" if "\<And>e q. P (e\<lparr>re_udp_tx_seq := q\<rparr>) = P e" for P
    using installed_update [OF assms(3) w t, of P] that by (simp split: if_splits)
  moreover have "entry_in_range ?e'" using route_inv_entry [OF assms(1) w] by (simp add: entry_in_range_def)
  ultimately show ?thesis
    using assms(1) t set_update_subset_insert [of ?s way ?e']
    by (auto simp: route_inv_def entry_take_seq_def Let_def)
qed

lemma route_inv_seq:
  assumes "route_inv st"
  shows "route_inv (snd (dp_udp_next_tx_seq pkt len st))"
proof (cases "dp_route_key_parse_direction pkt len")
  case (Some kd)
  obtain key d where kd: "kd = (key, d)" by force
  let ?si = "route_set_idx (dp_route_key_hash key)"
  obtain rt st1 where g: "dp_flow_route_get pkt len (dp_crypto_current_worker_idx st) st = (rt, st1)" by force
  have i1: "route_inv st1" using route_inv_get [OF assms g] by simp
  have fb: "route_inv (snd (fallback_take_seq key h d st1))" for h
    by (rule route_inv_same_tables [OF i1]) (auto simp: fallback_take_seq_def Let_def split: sum.splits)
  show ?thesis
    using assms i1 fb Some kd g route_inv_take_seq [OF _ _ route_set_idx_less]
    by (auto simp: dp_udp_next_tx_seq_def dp_next_udp_tx_seq_def Let_def apfst_def map_prod_def
        split: option.splits prod.splits) (metis snd_conv)+
qed (use assms in \<open>simp add: dp_udp_next_tx_seq_def dp_next_udp_tx_seq_def\<close>)

lemma route_inv_op: "route_inv st \<Longrightarrow> route_inv (run_op op st)"
proof (cases op)
  case (OpRoute p n h)
  assume "route_inv st"
  then show ?thesis using OpRoute route_inv_get by (metis run_op.simps(1) prod.collapse)
next
  case (OpSeq p n)
  assume "route_inv st"
  then show ?thesis using OpSeq route_inv_seq by simp
next
  case (OpWorkerBind w)
  assume "route_inv st"
  then show ?thesis
    by (rule route_inv_same_tables) (simp_all add: OpWorkerBind dp_crypto_worker_bind_def Let_def)
next
  case (OpRingBind w)
  assume "route_inv st"
  then show ?thesis by (rule route_inv_same_tables) (simp_all add: OpRingBind dp_out_ring_bind_def)
qed

lemma route_inv_ops: "route_inv st \<Longrightarrow> route_inv (run_ops ops st)"
  unfolding run_ops_def by (induction ops arbitrary: st) (simp_all add: route_inv_op)

definition route_init :: route_state where
  \<comment> \<open>the zero-initialised tables of the process\<close>
  "route_init = \<lparr>g_route_table = (\<lambda>_. replicate DP_ROUTE_WAYS
       \<lparr>re_key = \<lparr>ip_a = 0, ip_b = 0, port_a = 0, port_b = 0, protocol = 0\<rparr>, re_udp_tx_seq = [0, 0],
        re_worker_idx = 0, re_tx_slot = 0, re_valid = False\<rparr>),
     g_worker_connection_count = replicate NE_CRYPTO_WORKERS 0,
     g_tx_connection_count = replicate NE_TX_SLOTS 0, g_worker_rr = 0, g_tx_rr = 0,
     g_active_tx_slots = of_nat NE_TX_SLOTS, tls_crypto_worker_idx = - 1, tls_out_ring_idx = 0,
     tls_udp_seq_fallback = (\<lambda>_. replicate DP_UDP_SEQ_FALLBACK_WAYS
       \<lparr>fb_key = \<lparr>ip_a = 0, ip_b = 0, port_a = 0, port_b = 0, protocol = 0\<rparr>, fb_next_seq = [0, 0],
        fb_stamp = 0, fb_valid = False\<rparr>),
     tls_udp_seq_stamp = 0\<rparr>"

lemma route_init_inv: "route_inv route_init"
  by (simp add: route_inv_def route_init_def installed_def entry_in_range_def DP_ROUTE_WAYS_def)

text \<open>C30: From the zeroed tables on, after any sequence of routing, numbering and binding operations: every
  packet is routed to one of the six workers and one of the four TX slots, and each connection
  counter equals (modulo \<open>2 ^ 64\<close>) the number of installed flows of its worker or slot.\<close>
theorem routes_in_range_and_counted:
  shows "worker_idx (fst (dp_flow_route_get p n h (run_ops ops route_init))) < 6 \<and>
    tx_slot (fst (dp_flow_route_get p n h (run_ops ops route_init))) < 4 \<and>
    g_worker_connection_count (run_ops ops route_init) =
      map (\<lambda>w. of_nat (installed (\<lambda>e. re_worker_idx e = w) (run_ops ops route_init))) [0..<6] \<and>
    g_tx_connection_count (run_ops ops route_init) =
      map (\<lambda>t. of_nat (installed (\<lambda>e. re_tx_slot e = t) (run_ops ops route_init))) [0..<4]"
proof -
  let ?st = "run_ops ops route_init"
  have i: "route_inv ?st" by (rule route_inv_ops [OF route_init_inv])
  obtain r st' where g: "dp_flow_route_get p n h ?st = (r, st')" by force
  then show ?thesis using route_inv_get [OF i g] i by (auto simp: route_inv_def intro!: nth_equalityI)
qed

section \<open>Sequence numbers\<close>

text \<open>ICMP packets are never numbered: the route key rejects every protocol but TCP and UDP, although the
  sequencing code means to accept ICMP.\<close>

lemma icmp_not_numbered:
  assumes "dp_parse_flow pkt len = Some f" "proto f = IPPROTO_ICMP"
  shows "dp_udp_next_tx_seq pkt len st = (None, st)"
  using assms
  by (simp add: dp_udp_next_tx_seq_def dp_next_udp_tx_seq_def dp_route_key_parse_direction_def
      dp_route_key_from_tuple_def IPPROTO_ICMP_def IPPROTO_TCP_def IPPROTO_UDP_def)

definition demo_icmp :: bytes where
  "demo_icmp = replicate 12 2 @ [0x08, 0x00] @ [0x45] @ replicate 8 0 @ [1] @ replicate 26 3"

lemma direction_less_2: "dp_route_key_parse_direction pkt len = Some (key, d) \<Longrightarrow> d < 2"
  by (auto simp: dp_route_key_parse_direction_def dp_route_key_from_tuple_def Let_def
      bind_eq_Some_conv split: if_splits)

lemma lookup_take_seq:
  assumes "route_lookup key (g_route_table st si) = Some way"
  shows "route_lookup key (g_route_table (snd (entry_take_seq si way d st)) si) = Some way"
proof -
  have w: "way < length (g_route_table st si)" using lookup_SomeD [OF assms] by simp
  show ?thesis using assms w
    unfolding route_lookup_def by (simp add: entry_take_seq_def Let_def first_index_update)
qed

lemma ucast_succ: "(ucast (n + 1) :: u32) = ucast n + 1" for n :: u64
proof -
  have "(ucast (n + 1) :: u32) = word_of_nat (unat (n + 1))" by simp
  also have "unat (n + 1) = (unat n + 1) mod 2 ^ 64" by (simp add: unat_word_ariths)
  also have "(word_of_nat ((unat n + 1) mod 2 ^ 64) :: u32) = word_of_nat (unat n + 1)"
    by (simp only: word_of_nat_eq_iff take_bit_eq_mod len_of_numeral_defs) (simp add: mod_mod_cancel)
  finally show ?thesis by simp
qed

section \<open>The fallback numbering\<close>

abbreviation fb_match :: "dp_route_key \<Rightarrow> dp_udp_seq_fallback \<Rightarrow> bool" where
  "fb_match key f \<equiv> fb_valid f \<and> fb_key f = key"

lemma fallback_scan_step:
  "fallback_scan key fs (Suc k) way victim =
     (if fb_match key (fs ! way) then Inl way
      else fallback_scan key fs k (Suc way)
        (if \<not> fb_valid (fs ! way) \<or> fb_stamp (fs ! way) < fb_stamp (fs ! victim) then way else victim))"
  by (auto simp: Let_def)

lemma fallback_scan_Inl:
  "fallback_scan key fs k way victim = Inl w \<Longrightarrow>
     way \<le> w \<and> w < way + k \<and> fb_match key (fs ! w) \<and> (\<forall>j. way \<le> j \<and> j < w \<longrightarrow> \<not> fb_match key (fs ! j))"
proof (induction k arbitrary: way victim)
  case (Suc k)
  show ?case
  proof (cases "fb_match key (fs ! way)")
    case True
    then show ?thesis using Suc.prems by (auto simp: Let_def)
  next
    case False
    then obtain v where "fallback_scan key fs k (Suc way) v = Inl w"
      using Suc.prems unfolding fallback_scan_step by (simp only: if_False)
    then have r: "Suc way \<le> w" "w < Suc way + k" "fb_match key (fs ! w)"
      "\<forall>j. Suc way \<le> j \<and> j < w \<longrightarrow> \<not> fb_match key (fs ! j)"
      using Suc.IH [of "Suc way" v] by blast+
    have "\<not> fb_match key (fs ! j)" if "way \<le> j" "j < w" for j
      using that r(4) False by (cases "j = way") auto
    then show ?thesis using r by auto
  qed
qed simp

lemma fallback_scan_Inr:
  "fallback_scan key fs k way victim = Inr v \<Longrightarrow>
     (v = victim \<or> v < way + k) \<and> (\<forall>j. way \<le> j \<and> j < way + k \<longrightarrow> \<not> fb_match key (fs ! j))"
proof (induction k arbitrary: way victim)
  case (Suc k)
  let ?v = "if \<not> fb_valid (fs ! way) \<or> fb_stamp (fs ! way) < fb_stamp (fs ! victim) then way else victim"
  have n: "\<not> fb_match key (fs ! way)" and e: "fallback_scan key fs k (Suc way) ?v = Inr v"
    using Suc.prems unfolding fallback_scan_step by (auto split: if_splits)
  have r: "v = ?v \<or> v < Suc way + k" "\<forall>j. Suc way \<le> j \<and> j < Suc way + k \<longrightarrow> \<not> fb_match key (fs ! j)"
    using Suc.IH [OF e] by auto
  have "\<not> fb_match key (fs ! j)" if "way \<le> j" "j < way + Suc k" for j
    using that r(2) n by (cases "j = way") auto
  then show ?case using r(1) by (auto split: if_splits)
qed auto

definition fallback_ok :: "route_state \<Rightarrow> bool" where
  "fallback_ok st \<longleftrightarrow> (\<forall>fi. length (tls_udp_seq_fallback st fi) = 4 \<and>
     (\<forall>j<4. length (fb_next_seq (tls_udp_seq_fallback st fi ! j)) = 2))"

lemma fallback_scan_unique:
  assumes "w < 4" "fb_match key (fs ! w)" "\<forall>j<w. \<not> fb_match key (fs ! j)"
  shows "fallback_scan key fs 4 0 0 = Inl w"
proof (cases "fallback_scan key fs 4 0 0")
  case (Inl w')
  then show ?thesis using fallback_scan_Inl [OF Inl] assms by (metis linorder_neqE_nat zero_le)
next
  case (Inr v)
  then show ?thesis using fallback_scan_Inr [OF Inr] assms by auto
qed

lemma fallback_twice:
  assumes "fallback_ok st" "d < 2"
  shows "fst (fallback_take_seq key h d (snd (fallback_take_seq key h d st))) = fst (fallback_take_seq key h d st) + 1"
proof -
  define fi where "fi = unat (h AND (DP_UDP_SEQ_FALLBACK_SETS - 1))"
  let ?fs = "tls_udp_seq_fallback st fi" and ?t = "tls_udp_seq_stamp st + 1"
  have len: "length ?fs = 4" "\<And>j. j < 4 \<Longrightarrow> length (fb_next_seq (?fs ! j)) = 2"
    using assms(1) by (auto simp: fallback_ok_def)
  show ?thesis
  proof (cases "fallback_scan key ?fs 4 0 0")
    case (Inl w)
    let ?f = "(?fs ! w)\<lparr>fb_stamp := ?t, fb_next_seq := (fb_next_seq (?fs ! w))[d := fb_next_seq (?fs ! w) ! d + 1]\<rparr>"
    note r = fallback_scan_Inl [OF Inl]
    have "fallback_scan key (?fs[w := ?f]) 4 0 0 = Inl w"
      by (rule fallback_scan_unique) (use r len in auto)
    then show ?thesis using Inl r len assms(2)
      by (simp add: fallback_take_seq_def Let_def DP_UDP_SEQ_FALLBACK_WAYS_def flip: fi_def)
  next
    case (Inr v)
    let ?f = "\<lparr>fb_key = key, fb_next_seq = [0, 0][d := 1], fb_stamp = ?t, fb_valid = True\<rparr>"
    note r = fallback_scan_Inr [OF Inr]
    have v: "v < 4" using r by auto
    have "fallback_scan key (?fs[v := ?f]) 4 0 0 = Inl v"
      by (rule fallback_scan_unique) (use r v len in auto)
    then show ?thesis using Inr v len assms(2)
      by (simp add: fallback_take_seq_def Let_def DP_UDP_SEQ_FALLBACK_WAYS_def flip: fi_def)
        (auto simp: less_2_cases_iff)
  qed
qed

lemma get_keeps_fallback:
  "tls_udp_seq_fallback (snd (dp_flow_route_get pkt len hint st)) = tls_udp_seq_fallback st"
  by (auto simp: dp_flow_route_get_def dp_flow_route_get_key_def Let_def
      split: option.splits sum.splits prod.splits)

lemma next_seq_unfold:
  assumes "dp_route_key_parse_direction pkt len = Some (key, d)" "protocol key = IPPROTO_UDP"
    and "si = route_set_idx (dp_route_key_hash key)"
    and "dp_flow_route_get pkt len (dp_crypto_current_worker_idx st) st = (rt, sa)"
  shows "dp_udp_next_tx_seq pkt len st =
    (case route_lookup key (g_route_table st si) of
       Some way \<Rightarrow> apfst Some (entry_take_seq si way d st)
     | None \<Rightarrow> (case route_lookup key (g_route_table sa si) of
          Some way \<Rightarrow> apfst Some (entry_take_seq si way d sa)
        | None \<Rightarrow> apfst Some (fallback_take_seq key (dp_route_key_hash key) d sa)))"
  unfolding assms(3)
  using assms(1,2,4) by (simp add: dp_udp_next_tx_seq_def dp_next_udp_tx_seq_def Let_def cong: option.case_cong)

lemma parsed_protocol:
  assumes "dp_route_key_parse_direction pkt len = Some (key, d)"
    "dp_udp_next_tx_seq pkt len st = (Some s, st1)"
  shows "protocol key = IPPROTO_UDP"
  using assms
  by (auto simp: dp_udp_next_tx_seq_def dp_next_udp_tx_seq_def dp_route_key_parse_direction_def
      dp_route_key_from_tuple_def bind_eq_Some_conv Let_def IPPROTO_ICMP_def IPPROTO_TCP_def
      IPPROTO_UDP_def split: if_splits)

section \<open>A flow's counter under other traffic\<close>

text \<open>The next number of a flow direction that has a route entry.\<close>

definition flow_counter :: "dp_route_key \<Rightarrow> nat \<Rightarrow> route_state \<Rightarrow> u64 option" where
  "flow_counter key d st =
     (let rset = g_route_table st (route_set_idx (dp_route_key_hash key))
      in map_option (\<lambda>way. re_udp_tx_seq (rset ! way) ! d) (route_lookup key rset))"

fun numbers :: "dp_route_key \<Rightarrow> nat \<Rightarrow> route_op \<Rightarrow> bool" where
  "numbers key d (OpSeq pkt len) \<longleftrightarrow> dp_route_key_parse_direction pkt len = Some (key, d)"
| "numbers key d _ \<longleftrightarrow> False"

lemma counter_table: "g_route_table st' = g_route_table st \<Longrightarrow> flow_counter key d st' = flow_counter key d st"
  by (simp add: flow_counter_def)

lemma counter_keeps_get_key:
  assumes "flow_counter key d st = Some c"
  shows "flow_counter key d (snd (dp_flow_route_get_key k2 hint st)) = Some c"
proof (rule get_key_cases [where st = st and key = k2 and hint = hint])
  fix w st1 e
  let ?s2 = "route_set_idx (dp_route_key_hash k2)" and ?si = "route_set_idx (dp_route_key_hash key)"
  let ?s = "g_route_table st ?si"
  assume a: "route_lookup k2 (g_route_table st ?s2) = None" "w < length (g_route_table st ?s2)"
    "\<not> re_valid (g_route_table st ?s2 ! w)"
    "dp_flow_route_get_key k2 hint st = (entry_route e, st1)"
    "g_route_table st1 = (g_route_table st)(?s2 := (g_route_table st ?s2)[w := e])" "re_key e = k2"
  obtain w' where w': "route_lookup key ?s = Some w'" "c = re_udp_tx_seq (?s ! w') ! d"
    using assms by (auto simp: flow_counter_def Let_def)
  show ?thesis
  proof (cases "?s2 = ?si")
    case False
    then show ?thesis using assms a(4,5) by (simp add: flow_counter_def)
  next
    case True
    then have "key \<noteq> k2" using a(1) w' by auto
    then have "route_lookup key (?s[w := e]) = Some w'"
      using w'(1) a(2,3,6) True unfolding route_lookup_def by (subst first_index_update) auto
    moreover have "w' \<noteq> w" using lookup_SomeD [OF w'(1)] a(3) True by auto
    ultimately show ?thesis using a(4,5) True w'(2) by (simp add: flow_counter_def)
  qed
qed (use assms in auto)

lemma counter_keeps_get:
  "flow_counter key d st = Some c \<Longrightarrow> flow_counter key d (snd (dp_flow_route_get pkt len hint st)) = Some c"
  by (auto simp: dp_flow_route_get_def counter_keeps_get_key split: option.splits)

lemma counter_keeps_take_seq:
  assumes "flow_counter key d st = Some c" "si = route_set_idx (dp_route_key_hash k2)"
    "route_lookup k2 (g_route_table st si) = Some way" "(k2, d2) \<noteq> (key, d)"
  shows "flow_counter key d (snd (entry_take_seq si way d2 st)) = Some c"
proof (cases "route_set_idx (dp_route_key_hash key) = si")
  case False
  then show ?thesis using assms(1) by (simp add: flow_counter_def entry_take_seq_def Let_def)
next
  case True
  let ?s = "g_route_table st si"
  let ?e = "?s ! way"
  let ?e' = "?e\<lparr>re_udp_tx_seq := (re_udp_tx_seq ?e)[d2 := re_udp_tx_seq ?e ! d2 + 1]\<rparr>"
  obtain w' where w': "route_lookup key ?s = Some w'" "c = re_udp_tx_seq (?s ! w') ! d"
    using assms(1) True by (auto simp: flow_counter_def Let_def)
  note l2 = lookup_SomeD [OF assms(3)] and l1 = lookup_SomeD [OF w'(1)]
  have lk: "route_lookup key (?s[way := ?e']) = route_lookup key ?s"
    unfolding route_lookup_def by (rule first_index_update) (use l2 in auto)
  have "way \<noteq> w' \<or> d2 \<noteq> d" using l1 l2 assms(4) by auto
  then have "re_udp_tx_seq (?s[way := ?e'] ! w') ! d = c" using w'(2) l2 by (cases "way = w'") auto
  then show ?thesis using lk w'(1) True by (simp add: flow_counter_def entry_take_seq_def Let_def)
qed

lemma counter_keeps_seq:
  assumes "flow_counter key d st = Some c" "dp_route_key_parse_direction pkt len \<noteq> Some (key, d)"
  shows "flow_counter key d (snd (dp_udp_next_tx_seq pkt len st)) = Some c"
proof (cases "dp_route_key_parse_direction pkt len")
  case (Some kd)
  obtain k2 d2 where kd: "kd = (k2, d2)" by force
  obtain rt st1 where g: "dp_flow_route_get pkt len (dp_crypto_current_worker_idx st) st = (rt, st1)" by force
  have c1: "flow_counter key d st1 = Some c" using counter_keeps_get [OF assms(1), of pkt len] g by (metis snd_conv)
  have ne: "(k2, d2) \<noteq> (key, d)" using assms(2) Some kd by simp
  have fb: "flow_counter key d (snd (fallback_take_seq k2 h d2 st1)) = Some c" for h
    using c1 by (subst counter_table [of _ st1]) (auto simp: fallback_take_seq_def Let_def split: sum.splits)
  show ?thesis
    using assms(1) c1 Some kd g counter_keeps_take_seq [OF assms(1) refl _ ne] counter_keeps_take_seq [OF c1 refl _ ne] fb
    by (auto simp: dp_udp_next_tx_seq_def dp_next_udp_tx_seq_def Let_def apfst_def map_prod_def
        split: option.splits prod.splits) (metis snd_conv)+
qed (use assms in \<open>simp add: dp_udp_next_tx_seq_def dp_next_udp_tx_seq_def\<close>)

lemma counter_keeps_op: "flow_counter key d st = Some c \<Longrightarrow> \<not> numbers key d oper \<Longrightarrow> flow_counter key d (run_op oper st) = Some c"
  by (cases oper) (simp_all add: counter_keeps_get counter_keeps_seq,
      (subst counter_table [of _ st], simp_all add: dp_crypto_worker_bind_def dp_out_ring_bind_def Let_def)+)

lemma counter_keeps_ops:
  "flow_counter key d st = Some c \<Longrightarrow> list_all (\<lambda>oper. \<not> numbers key d oper) ops \<Longrightarrow> flow_counter key d (run_ops ops st) = Some c"
  unfolding run_ops_def by (induction ops arbitrary: st) (simp_all add: counter_keeps_op)

text \<open>Taking a number from the entry returns the counter and advances it.\<close>

lemma take_seq_counter:
  assumes "route_inv st" "si = route_set_idx (dp_route_key_hash key)" "route_lookup key (g_route_table st si) = Some way" "d < 2"
  shows "flow_counter key d st = Some c \<Longrightarrow> fst (entry_take_seq si way d st) = ucast c"
    "\<exists>c. flow_counter key d (snd (entry_take_seq si way d st)) = Some c \<and> ucast c = fst (entry_take_seq si way d st) + 1"
proof -
  have w: "way < length (g_route_table st si)" using lookup_SomeD [OF assms(3)] by simp
  have l: "length (re_udp_tx_seq (g_route_table st si ! way)) = 2"
    using route_inv_entry [OF assms(1) w] by (simp add: entry_in_range_def)
  show "fst (entry_take_seq si way d st) = ucast c" if "flow_counter key d st = Some c"
    using that assms(2,3) by (auto simp: flow_counter_def entry_take_seq_def Let_def)
  show "\<exists>c. flow_counter key d (snd (entry_take_seq si way d st)) = Some c \<and> ucast c = fst (entry_take_seq si way d st) + 1"
    using lookup_take_seq [OF assms(3), of d] assms(2,4) w l
    by (simp add: flow_counter_def) (simp add: entry_take_seq_def Let_def ucast_succ)
qed

lemma next_seq_counter:
  assumes "flow_counter key d st = Some c" "dp_route_key_parse_direction q m = Some (key, d)" "protocol key = IPPROTO_UDP"
  shows "fst (dp_udp_next_tx_seq q m st) = Some (ucast c)"
proof -
  obtain rt sa where g: "dp_flow_route_get q m (dp_crypto_current_worker_idx st) st = (rt, sa)" by force
  show ?thesis
    unfolding next_seq_unfold [OF assms(2,3) refl g]
    using assms(1) by (auto simp: flow_counter_def entry_take_seq_def Let_def fst_apfst)
qed

text \<open>C31: Two datagrams of one UDP flow and direction that are numbered one after the other get consecutive sequence
  numbers (modulo \<open>2 ^ 32\<close>). When the flow has a route entry after the first, any operations may come in
  between that do not number this flow direction: routing and numbering of other flows and of the
  opposite direction, binding of workers and rings. When the route set is full and the flow is numbered by
  the thread-local fallback, this is shown for the second datagram following at once, since other flows may
  take over the fallback slot.\<close>
theorem udp_seq_consecutive:
  assumes "route_inv st" "fallback_ok st" "dp_udp_next_tx_seq p n st = (Some s, st1)"
    and "dp_route_key_parse_direction p n = Some (key, d)" "dp_route_key_parse_direction q m = Some (key, d)"
    and "ops = [] \<or> flow_counter key d st1 \<noteq> None \<and> list_all (\<lambda>oper. \<not> numbers key d oper) ops"
  shows "fst (dp_udp_next_tx_seq q m (run_ops ops st1)) = Some (s + 1)"
proof -
  note p = assms(4)
  note u = parsed_protocol [OF p assms(3)]
  define si where "si = route_set_idx (dp_route_key_hash key)"
  obtain rt sa where g: "dp_flow_route_get p n (dp_crypto_current_worker_idx st) st = (rt, sa)" by force
  note un = next_seq_unfold [OF p u si_def g]
  note d2 = direction_less_2 [OF p]
  have ia: "route_inv sa" using route_inv_get [OF assms(1) g] by simp
  have entry: "fst (dp_udp_next_tx_seq q m (run_ops ops st1)) = Some (s + 1)"
    if "flow_counter key d st1 = Some c" "ucast c = s + 1" for c
  proof -
    have "list_all (\<lambda>oper. \<not> numbers key d oper) ops" using assms(6) by auto
    from next_seq_counter [OF counter_keeps_ops [OF that(1) this] assms(5) u] that(2) show ?thesis by simp
  qed
  show ?thesis
  proof (cases "route_lookup key (g_route_table st si)")
    case (Some way)
    then have "s = fst (entry_take_seq si way d st)" "st1 = snd (entry_take_seq si way d st)"
      using assms(3) un by (auto simp: apfst_def map_prod_def split: prod.splits)
    then show ?thesis using take_seq_counter(2) [OF assms(1) si_def Some d2] entry by blast
  next
    case None
    show ?thesis
    proof (cases "route_lookup key (g_route_table sa si)")
      case (Some way)
      then have "s = fst (entry_take_seq si way d sa)" "st1 = snd (entry_take_seq si way d sa)"
        using assms(3) un None by (auto simp: apfst_def map_prod_def split: prod.splits)
      then show ?thesis using take_seq_counter(2) [OF ia si_def Some d2] entry by blast
    next
      case none: None
      let ?h = "dp_route_key_hash key"
      have s: "s = fst (fallback_take_seq key ?h d sa)" "st1 = snd (fallback_take_seq key ?h d sa)"
        using assms(3) un None none by (auto simp: apfst_def map_prod_def split: prod.splits)
      have kp: "dp_route_key_parse p n = Some key" "dp_route_key_parse q m = Some key"
        using p assms(5) by (simp_all add: dp_route_key_parse_def)
      have "routed key rt sa" using g get_routed kp(1) by (simp add: dp_flow_route_get_def)
      then have "routed key rt st1" unfolding s(2) by (rule routed_keeps_fallback)
      then have g1: "dp_flow_route_get q m (dp_crypto_current_worker_idx st1) st1 = (rt, st1)"
        using kp(2) by (simp add: dp_flow_route_get_def routed_get)
      have "g_route_table st1 = g_route_table sa"
        by (auto simp: s(2) fallback_take_seq_def Let_def split: sum.splits)
      then have l1: "route_lookup key (g_route_table st1 si) = None" using none by simp
      then have "ops = []" using assms(6) by (auto simp: flow_counter_def si_def)
      moreover have "fallback_ok sa"
        using assms(2) get_keeps_fallback [of p n _ st] g unfolding fallback_ok_def by (metis snd_conv)
      ultimately show ?thesis
        unfolding run_ops_def
        using next_seq_unfold [OF assms(5) u si_def g1] l1 fallback_twice [OF _ d2, of sa key ?h] s by (simp add: fst_apfst)
    qed
  qed
qed

definition demo_udp :: bytes where
  "demo_udp = replicate 12 2 @ [0x08, 0x00] @ [0x45] @ replicate 8 0 @ [17] @ replicate 26 3"

lemma demo_udp_flow: "\<exists>key. dp_route_key_parse_direction demo_udp 42 = Some (key, 0) \<and> protocol key = IPPROTO_UDP"
  by (simp add: dp_route_key_parse_direction_def dp_parse_flow_def ipv4_offset_eq eth_read_et_def eth_consts
      demo_udp_def nth_append IPPROTO_TCP_def IPPROTO_UDP_def Let_def dp_route_key_from_tuple_def)

lemma fallback_init: "fallback_ok route_init"
  by (simp add: fallback_ok_def route_init_def DP_UDP_SEQ_FALLBACK_WAYS_def)

definition demo_udp2 :: bytes where
  \<comment> \<open>another datagram of the same flow, with other payload\<close>
  "demo_udp2 = replicate 12 2 @ [0x08, 0x00] @ [0x45] @ replicate 8 0 @ [17] @ replicate 18 3 @ replicate 20 9"

lemma demo_udp2_flow: "dp_route_key_parse_direction demo_udp2 62 = dp_route_key_parse_direction demo_udp 42"
  by (simp add: dp_route_key_parse_direction_def dp_parse_flow_def ipv4_offset_eq eth_read_et_def eth_consts
      demo_udp_def demo_udp2_def nth_append IPPROTO_TCP_def IPPROTO_UDP_def Let_def dp_route_key_from_tuple_def)

lemma demo_other_flow: "dp_route_key_parse_direction demo_icmp 42 = None"
  by (simp add: dp_route_key_parse_direction_def dp_parse_flow_def ipv4_offset_eq eth_read_et_def eth_consts
      demo_icmp_def nth_append IPPROTO_TCP_def IPPROTO_UDP_def IPPROTO_ICMP_def Let_def dp_route_key_from_tuple_def)

lemma init_installs:
  assumes "dp_flow_route_get_key key hint route_init = (r, sa)"
  shows "route_lookup key (g_route_table sa (route_set_idx (dp_route_key_hash key))) \<noteq> None"
proof (rule get_key_cases [where st = route_init and key = key and hint = hint])
  assume "\<forall>e\<in>set (g_route_table route_init (route_set_idx (dp_route_key_hash key))). re_valid e"
  then show ?thesis by (simp add: route_init_def DP_ROUTE_WAYS_def)
next
  fix w st' e
  let ?si = "route_set_idx (dp_route_key_hash key)"
  assume a: "w < length (g_route_table route_init ?si)" "dp_flow_route_get_key key hint route_init = (entry_route e, st')"
    "g_route_table st' = (g_route_table route_init)(?si := (g_route_table route_init ?si)[w := e])" "re_valid e" "re_key e = key"
  then have "e \<in> set (g_route_table sa ?si)" using assms set_update_memI [OF a(1), of e] by simp
  then show ?thesis using a(4,5) lookup_None [of key "g_route_table sa ?si"] by auto
qed (use assms in auto)

text \<open>Two different datagrams of a flow, another packet routed, a worker bound and a packet refused in between.\<close>

theorem udp_seq_consecutive_witness:
  "\<exists>s st1. dp_udp_next_tx_seq demo_udp 42 route_init = (Some s, st1) \<and>
     fst (dp_udp_next_tx_seq demo_udp2 62 (run_ops [OpRoute demo_udp 42 3, OpWorkerBind 4, OpSeq demo_icmp 42] st1)) = Some (s + 1)"
proof -
  let ?ops = "[OpRoute demo_udp 42 3, OpWorkerBind 4, OpSeq demo_icmp 42]"
  obtain key where k: "dp_route_key_parse_direction demo_udp 42 = Some (key, 0)" "protocol key = IPPROTO_UDP"
    using demo_udp_flow by blast
  obtain rt sa where g: "dp_flow_route_get demo_udp 42 (dp_crypto_current_worker_idx route_init) route_init = (rt, sa)"
    by force
  obtain s st1 where n: "dp_udp_next_tx_seq demo_udp 42 route_init = (Some s, st1)"
    using next_seq_unfold [OF k refl g]
    by (auto simp: apfst_def map_prod_def split: option.splits prod.splits)
  let ?si = "route_set_idx (dp_route_key_hash key)"
  have kp: "dp_route_key_parse demo_udp 42 = Some key" using k by (simp add: dp_route_key_parse_def)
  then have "dp_flow_route_get_key key (dp_crypto_current_worker_idx route_init) route_init = (rt, sa)"
    using g by (simp add: dp_flow_route_get_def)
  then obtain way where way: "route_lookup key (g_route_table sa ?si) = Some way" using init_installs by blast
  have i0: "route_lookup key (g_route_table route_init ?si) = None"
    by (auto simp: lookup_None route_init_def)
  have "st1 = snd (entry_take_seq ?si way 0 sa)"
    using n next_seq_unfold [OF k refl g] way i0 by (auto simp: apfst_def map_prod_def split: prod.splits)
  then have c: "flow_counter key 0 st1 \<noteq> None" using lookup_take_seq [OF way] by (simp add: flow_counter_def)
  have o: "list_all (\<lambda>oper. \<not> numbers key 0 oper) ?ops" using demo_other_flow by simp
  have q: "dp_route_key_parse_direction demo_udp2 62 = Some (key, 0)" using k(1) demo_udp2_flow by simp
  from udp_seq_consecutive [OF route_init_inv fallback_init n k(1) q disjI2 [OF conjI [OF c o]]] n show ?thesis by blast
qed

theorem route_sticky_witness:
  "fst (dp_flow_route_get demo_udp 42 3
      (run_ops [OpSeq demo_udp 42, OpRoute demo_icmp 42 2, OpWorkerBind 4]
        (snd (dp_flow_route_get demo_udp 42 (- 1) route_init)))) =
   fst (dp_flow_route_get demo_udp 42 (- 1) route_init)"
proof -
  obtain key where k: "dp_route_key_parse_direction demo_udp 42 = Some (key, 0)"
    using demo_udp_flow by blast
  then have "dp_route_key_parse demo_udp 42 = Some key" by (simp add: dp_route_key_parse_def)
  from route_sticky [OF this this, where h = "- 1" and st = route_init] show ?thesis
    by (metis prod.collapse)
qed

theorem least_loaded_is_least_witness: "fst (dp_route_least_loaded [4, 2, 9] 3 7) = 1"
proof -
  let ?b = "fst (dp_route_least_loaded [4, 2, 9] 3 7)"
  have t: "?b < 3 \<and> (\<forall>i<3. ([4, 2, 9] :: u64 list) ! ?b \<le> [4, 2, 9] ! i)"
    by (rule least_loaded_is_least) simp_all
  note b = conjunct1 [OF t] conjunct2 [OF t, rule_format, of 1]
  from b(1) consider "?b = 0" | "?b = 1" | "?b = 2" by linarith
  then show ?thesis
  proof cases
    case 1
    then show ?thesis using b(2) unfolding 1 by simp
  next
    case 3
    then show ?thesis using b(2) unfolding 3 by simp
  qed
qed

end
