(* ===== verification/Dataplane_Safe.thy ===== *)
theory Dataplane_Safe
  imports Dataplane Route_Inv
begin

text \<open>
  Frame ownership and memory safety of the packet path. \<open>holds F js s\<close> says that the frames in the pool, in the
  output rings and in the packets \<open>js\<close> a worker has in its hands are together the multiset \<open>F\<close>; every
  step of the path keeps it, so a packet that enters ends in an output ring or back in the pool, on every
  branch. The same invariant bounds all memory accesses.
\<close>

section \<open>Writing a packet inside the area\<close>

definition spans_fit :: "ne_pair \<Rightarrow> ne_packet \<Rightarrow> bool" where
  "spans_fit p pkt \<longleftrightarrow> (\<forall>s\<in>set (spans p pkt). fst s + snd s \<le> length (bufs p))"

definition rooms_le :: "nat \<Rightarrow> ne_packet \<Rightarrow> bool" where
  "rooms_le k pkt \<longleftrightarrow> (\<forall>i<packet_nsegs pkt. seg_room pkt i \<le> k)"

lemma packet_write_keeps:
  assumes "packet_ok pkt" "pair_ok p pkt" "rooms_le (frame_size p) pkt" "want \<le> length src"
    "ne_packet_write p pkt src want = (r, p', pkt')" "r \<noteq> Fault"
  shows "r = Done True \<or> r = Done False" "length (bufs p') = length (bufs p)" "frame_size p' = frame_size p"
    "pl_cap (pool p') = pl_cap (pool p)" "rooms_le (frame_size p) pkt'"
proof -
  have "(r = Done True \<or> r = Done False) \<and> length (bufs p') = length (bufs p) \<and> frame_size p' = frame_size p \<and>
    pl_cap (pool p') = pl_cap (pool p) \<and> rooms_le (frame_size p) pkt'"
    using assms(5,1,2)
  proof (cases rule: packet_write_cases)
    case rejected
    then show ?thesis using assms(3) by simp
  next
    case (short n1)
    have "packet_nsegs pkt' = n1" using grown_frames(2) [OF short(2)] by simp
    then have "rooms_le (frame_size p) pkt'"
      using short(2) assms(3) by (auto simp: rooms_le_def grown_def) (metis linorder_not_less order_refl)
    then show ?thesis using short by (auto simp: grown_def)
  next
    case (fault p1 pkt1 n1)
    then show ?thesis using assms(6) by simp
  next
    case (copied p1 pkt1 n1 mem pkt2 off pkt3)
    define u where "u = used_segs pkt2 n1 0"
    note t = packet_write_copied [OF assms(1,2) copied(1,3,4,5) u_def copied(6) [folded u_def] copied(8) [folded u_def]]
    have sh: "packet_shape pkt1" using copied(3) by (simp add: grown_def)
    have sub: "set [0..<n1] \<subseteq> {..<4}" using t(3) by auto
    note l = packet_copy_lens [OF copied(5) _ assms(4) _ sub sh]
    have r1: "seg_room pkt1 i \<le> frame_size p" if "i < n1" for i
      using copied(3) assms(3) that by (cases "i < packet_nsegs pkt") (auto simp: grown_def rooms_le_def)
    have "seg_room pkt' j \<le> frame_size p" if "j < u" for j
    proof -
      have "seg_len pkt' ! j \<le> seg_room pkt1 j" using l t(2,11) that by simp
      moreover have "seg_cap pkt' ! j = seg_cap pkt1 ! j" using t(12) [OF that] by simp
      moreover have "seg_room pkt1 j \<le> frame_size p" using r1 that t(2) by simp
      ultimately show ?thesis by (auto simp: seg_room_def split: if_splits)
    qed
    then show ?thesis
      using copied(7) t(4,5,8,9) packet_copy_keeps [OF copied(5)] by (auto simp: rooms_le_def)
  qed
  then show "r = Done True \<or> r = Done False" "length (bufs p') = length (bufs p)" "frame_size p' = frame_size p"
    "pl_cap (pool p') = pl_cap (pool p)" "rooms_le (frame_size p) pkt'" by auto
qed

lemma packet_write_area:
  assumes "packet_ok pkt" "pair_ok p pkt" "spans_fit p pkt" "rooms_le (frame_size p) pkt" "want \<le> length src"
    "ne_packet_write p pkt src want = (r, p', pkt')"
  shows "r = Done True \<or> r = Done False" "length (bufs p') = length (bufs p)" "frame_size p' = frame_size p"
    "pl_cap (pool p') = pl_cap (pool p)" "rooms_le (frame_size p) pkt'"
proof -
  have "r \<noteq> Fault"
    using assms(6,1,2)
  proof (cases rule: packet_write_cases)
    case (fault p1 pkt1 n1)
    have "\<exists>x. packet_copy src want [0..<n1] 0 (bufs p) pkt1 = Done x"
      using assms(3,5) by (intro packet_copy_total) (auto simp: spans_fit_def grown_spans [OF fault(2)])
    then show ?thesis using fault(3) by simp
  qed auto
  from packet_write_keeps [OF assms(1,2,4-6) this]
  show "r = Done True \<or> r = Done False" "length (bufs p') = length (bufs p)" "frame_size p' = frame_size p"
    "pl_cap (pool p') = pl_cap (pool p)" "rooms_le (frame_size p) pkt'" by auto
qed

section \<open>Frames in rings\<close>

definition frames_of :: "ne_packet list \<Rightarrow> u64 multiset" where
  "frames_of js = sum_list (map (\<lambda>j. mset (packet_frames j)) js)"

definition ring_frames :: "ne_packet ne_ring \<Rightarrow> u64 multiset" where
  "ring_frames r = frames_of (ring_list r)"

definition grid_frames :: "ne_packet ne_ring list list \<Rightarrow> u64 multiset" where
  "grid_frames g = sum_list (map (\<lambda>rs. sum_list (map ring_frames rs)) g)"

definition out_frames :: "forwarder \<Rightarrow> u64 multiset" where
  "out_frames f = grid_frames (mid_to_wan f) + grid_frames (mid_to_local f)"

definition ring_ok :: "ne_packet ne_ring \<Rightarrow> bool" where
  "ring_ok r \<longleftrightarrow> ring_inv r \<or> r = zero_ring"

definition grid_ok :: "ne_packet ne_ring list list \<Rightarrow> bool" where
  "grid_ok g \<longleftrightarrow> g \<noteq> [] \<and> (\<forall>rs\<in>set g. length rs = NE_CRYPTO_WORKERS \<and> (\<forall>r\<in>set rs. ring_ok r))"

definition rings_ok :: "forwarder \<Rightarrow> bool" where
  "rings_ok f \<longleftrightarrow> grid_ok (mid_to_wan f) \<and> grid_ok (mid_to_local f)"

fun ref_ok :: "ring_ref \<Rightarrow> bool" where
  "ref_ok (MidToWan i k) \<longleftrightarrow> i = 0 \<and> k < NE_CRYPTO_WORKERS"
| "ref_ok (MidToLocal i k) \<longleftrightarrow> i = 0 \<and> k < NE_CRYPTO_WORKERS"

lemma frames_of_simps [simp]:
  "frames_of [] = {#}" "frames_of (j # js) = mset (packet_frames j) + frames_of js"
  "frames_of (js @ ks) = frames_of js + frames_of ks"
  by (simp_all add: frames_of_def)

lemma multiset_exchange:
  fixes a :: "'a multiset"
  assumes "a + b = c + d" "d + e = b + h"
  shows "a + e = c + h"
proof -
  have "(a + e) + b = (a + b) + e" by (simp add: add_ac)
  also have "\<dots> = c + (d + e)" unfolding assms(1) by (simp add: add_ac)
  also have "\<dots> = (c + h) + b" unfolding assms(2) by (simp add: add_ac)
  finally show ?thesis by simp
qed

lemma grid_put:
  assumes "grid_ok g" "k < NE_CRYPTO_WORKERS" "ring_ok r"
  shows "grid_ok (g[0 := (g ! 0)[k := r]])"
    "grid_frames (g[0 := (g ! 0)[k := r]]) + ring_frames (g ! 0 ! k) = grid_frames g + ring_frames r"
    "ring_ok (g ! 0 ! k)"
proof -
  have g0: "0 < length g" "length (g ! 0) = NE_CRYPTO_WORKERS" "\<forall>r\<in>set (g ! 0). ring_ok r"
    using assms(1) by (auto simp: grid_ok_def)
  have "\<forall>x\<in>set ((g ! 0)[k := r]). ring_ok x"
    using g0(3) assms(3) set_update_subset_insert [of "g ! 0" k r] by blast
  then show "grid_ok (g[0 := (g ! 0)[k := r]])"
    using assms(1) g0 set_update_subset_insert [of g 0 "(g ! 0)[k := r]"] by (auto simp: grid_ok_def)
  show "ring_ok (g ! 0 ! k)" using g0 assms(2) by simp
  let ?s = "\<lambda>rs. sum_list (map ring_frames rs)"
  have "grid_frames (g[0 := (g ! 0)[k := r]]) + ?s (g ! 0) = grid_frames g + ?s ((g ! 0)[k := r])"
    using sum_list_update_add [of 0 "map ?s g" "?s ((g ! 0)[k := r])"] g0(1) by (simp add: grid_frames_def map_update)
  moreover have "?s ((g ! 0)[k := r]) + ring_frames (g ! 0 ! k) = ?s (g ! 0) + ring_frames r"
    using sum_list_update_add [of k "map ring_frames (g ! 0)" "ring_frames r"] g0(2) assms(2) by (simp add: map_update)
  ultimately show "grid_frames (g[0 := (g ! 0)[k := r]]) + ring_frames (g ! 0 ! k) = grid_frames g + ring_frames r"
    by (rule multiset_exchange)
qed

lemma ring_put_frames:
  assumes "rings_ok f" "ref_ok ref" "ring_ok r"
  shows "rings_ok (ring_put ref r f)" "out_frames (ring_put ref r f) + ring_frames (ring_at ref f) = out_frames f + ring_frames r"
    "ring_ok (ring_at ref f)"
  using assms grid_put [of "mid_to_wan f" _ r] grid_put [of "mid_to_local f" _ r]
  by (cases ref; auto simp: rings_ok_def out_frames_def add_ac)+

lemma ring_push_ok:
  assumes "ring_ok r" "ne_ring_try_push r x = Some r'"
  shows "ring_inv r'" "ring_list r' = ring_list r @ [x]"
proof -
  have "ring_inv r" using assms by (auto simp: ring_ok_def ne_ring_try_push_def zero_ring_def Let_def)
  then show "ring_inv r'" "ring_list r' = ring_list r @ [x]" using ring_push_Some [OF _ assms(2)] by auto
qed

lemma ring_push_pair_ok:
  assumes "ring_ok r" "ne_ring_try_push_pair r x y = Some r'"
  shows "ring_inv r'" "ring_list r' = ring_list r @ [x, y]"
proof -
  have i: "ring_inv r" using assms by (auto simp: ring_ok_def ne_ring_try_push_pair_def zero_ring_def)
  then obtain r1 where r1: "ne_ring_try_push r x = Some r1" "ne_ring_try_push r1 y = Some r'"
    using ring_push_pair_Some [OF _ assms(2)] by blast
  note p = ring_push_Some [OF i r1(1)]
  show "ring_inv r'" "ring_list r' = ring_list r @ [x, y]" using ring_push_Some [OF p(1) r1(2)] p(2) by auto
qed


section \<open>Ownership\<close>

definition dp_frames :: "dp_state \<Rightarrow> u64 multiset" where
  "dp_frames s = mset (pool_list (pool (dp_mem s))) + out_frames (fwd s)"

text \<open>
  The frames in the pool, in the output rings and in the packets \<open>js\<close> are \<open>F\<close>. \<open>accounts\<close> says no more than that
  (and that the data structures are well formed); \<open>holds\<close> adds the room condition: every frame address has a
  whole frame of memory behind it. Addresses recycled with their headroom break it in the last frame, so the
  theorems on whole handlers start from \<open>accounts\<close> and say what happens without it. The first argument of
  \<open>owned\<close> tells whether the condition is waived.
\<close>

definition owned :: "bool \<Rightarrow> u64 multiset \<Rightarrow> ne_packet list \<Rightarrow> dp_state \<Rightarrow> bool" where
  "owned T F js s \<longleftrightarrow> dp_frames s + frames_of js = F \<and> size F \<le> unat (pl_cap (pool (dp_mem s))) \<and>
     pool_inv (pool (dp_mem s)) \<and> 0 < frame_size (dp_mem s) \<and> frame_size (dp_mem s) < 2 ^ 16 \<and>
     (\<forall>a\<in>#F. T \<or> unat a + frame_size (dp_mem s) \<le> length (bufs (dp_mem s))) \<and>
     (\<forall>j\<in>set js. packet_ok j \<and> rooms_le (frame_size (dp_mem s)) j) \<and> rings_ok (fwd s)"

abbreviation holds :: "u64 multiset \<Rightarrow> ne_packet list \<Rightarrow> dp_state \<Rightarrow> bool" where
  "holds \<equiv> owned False"

abbreviation accounts :: "u64 multiset \<Rightarrow> ne_packet list \<Rightarrow> dp_state \<Rightarrow> bool" where
  "accounts \<equiv> owned True"

text \<open>Some frame address has less than a frame of memory behind it.\<close>

definition short_frame :: "u64 multiset \<Rightarrow> dp_state \<Rightarrow> bool" where
  "short_frame F s \<longleftrightarrow> (\<exists>a\<in>#F. length (bufs (dp_mem s)) < unat a + frame_size (dp_mem s))"

lemmas holds_def = owned_def

lemma accounts_owned: "accounts F js s \<longleftrightarrow> owned (short_frame F s) F js s"
  by (auto simp: owned_def short_frame_def not_less)

lemma owned_short: "owned T F js s \<Longrightarrow> short_frame F s \<Longrightarrow> T"
  by (auto simp: owned_def short_frame_def)

lemma owned_mono: "owned T F js s \<Longrightarrow> accounts F js s"
  by (auto simp: owned_def)

lemma mem_simps_dp [simp]:
  "dp_mem (set_mem m s) = m" "dp_mem (set_buf w b s) = dp_mem s" "dp_mem (set_aux w b s) = dp_mem s"
  "dp_mem (s\<lparr>rt := a\<rparr>) = dp_mem s" "dp_mem (s\<lparr>l2 := c\<rparr>) = dp_mem s" "dp_mem (s\<lparr>g_tables := d\<rparr>) = dp_mem s"
  "dp_mem (s\<lparr>idle := e\<rparr>) = dp_mem s"
  by (simp_all add: dp_mem_def set_mem_def set_buf_def set_aux_def)

lemma set_mem_twice [simp]: "set_mem m (set_mem k s) = set_mem m s"
  by (simp add: set_mem_def)

lemma holds_scratch [simp]:
  "owned T F js (set_buf w b s) = owned T F js s" "owned T F js (set_aux w b s) = owned T F js s"
  "owned T F js (s\<lparr>rt := a\<rparr>) = owned T F js s" "owned T F js (s\<lparr>l2 := c\<rparr>) = owned T F js s"
  "owned T F js (s\<lparr>g_tables := d\<rparr>) = owned T F js s" "owned T F js (s\<lparr>idle := e\<rparr>) = owned T F js s"
  by (simp_all add: holds_def dp_frames_def)
    (simp_all add: set_buf_def set_aux_def out_frames_def rings_ok_def)

lemma fwd_set_mem [simp]:
  "out_frames (fwd (set_mem m s)) = out_frames (fwd s)" "rings_ok (fwd (set_mem m s)) = rings_ok (fwd s)"
  by (simp_all add: set_mem_def out_frames_def rings_ok_def)

lemma ownedD:
  assumes "owned T F (j # js) s"
  shows "packet_ok j" "pair_ok (dp_mem s) j" "rooms_le (frame_size (dp_mem s)) j" "\<not> T \<Longrightarrow> spans_fit (dp_mem s) j"
proof -
  let ?m = "dp_mem s"
  show ok: "packet_ok j" and rm: "rooms_le (frame_size ?m) j" using assms by (auto simp: owned_def)
  have sub: "all_frames ?m j \<subseteq># F"
    using assms by (auto simp: owned_def dp_frames_def all_frames_def add_ac)
  then show "pair_ok ?m j"
    using assms size_mset_mono [OF sub] by (auto simp: pair_ok_def owned_def)
  assume T: "\<not> T"
  have "a \<in># F" if "a \<in> set (packet_frames j) \<union> set (pool_list (pool ?m))" for a
    by (rule mset_subset_eqD [OF sub]) (use that in \<open>auto simp: all_frames_def\<close>)
  then have fit: "unat a + frame_size ?m \<le> length (bufs ?m)" if "a \<in> set (packet_frames j) \<union> set (pool_list (pool ?m))" for a
    using assms that T by (auto simp: owned_def)
  have "unat (packet_seg_addr j i) + seg_room j i \<le> length (bufs ?m)" if "i < packet_nsegs j" for i
    using fit [of "packet_seg_addr j i"] rm that by (fastforce simp: packet_frames_def rooms_le_def)
  then show "spans_fit ?m j" using fit by (auto simp: spans_fit_def spans_def seg_span_def)
qed

lemma holdsD:
  assumes "holds F (j # js) s"
  shows "packet_ok j" "pair_ok (dp_mem s) j" "spans_fit (dp_mem s) j" "rooms_le (frame_size (dp_mem s)) j"
  using ownedD [OF assms] by simp_all

lemma owned_write:
  assumes "owned T F (j # js) s" "n \<le> length src" "ne_packet_write (dp_mem s) j src n = (r, m, j')"
  shows "owned T F (j' # js) (set_mem m s) \<and> (r = Done True \<or> r = Done False) \<or> T \<and> r = Fault"
proof (cases "r = Fault")
  case True
  have T using True packet_write_area(1) [OF ownedD(1,2) [OF assms(1)] _ ownedD(3) [OF assms(1)] assms(2,3)] ownedD(4) [OF assms(1)] by auto
  then show ?thesis using True by simp
next
  case False
  note d = ownedD [OF assms(1)]
  note a = packet_write_keeps [OF d(1-3) assms(2,3) False]
  have fr: "all_frames m j' = all_frames (dp_mem s) j" "pair_ok m j'" "packet_ok j'"
    using packet_write_frames [OF d(1,2) assms(3)] a(1) by auto
  have "dp_frames (set_mem m s) + frames_of (j' # js) = (all_frames m j') + out_frames (fwd s) + frames_of js"
    by (simp add: dp_frames_def all_frames_def add_ac)
  also have "\<dots> = dp_frames s + frames_of (j # js)" unfolding fr(1) by (simp add: dp_frames_def all_frames_def add_ac)
  finally show ?thesis using assms(1) a fr by (auto simp: owned_def pair_ok_def)
qed

lemma holds_write:
  assumes "holds F (j # js) s" "n \<le> length src" "ne_packet_write (dp_mem s) j src n = (r, m, j')"
  shows "holds F (j' # js) (set_mem m s) \<and> (r = Done True \<or> r = Done False)"
  using owned_write [OF assms] by simp

lemma free_segs_keeps:
  "frame_size (free_segs p pkt is) = frame_size p \<and> pl_cap (pool (free_segs p pkt is)) = pl_cap (pool p)"
  by (induction "is" arbitrary: p) (simp_all add: ne_frame_free_def pool_push_def Let_def)

lemma holds_free:
  assumes "owned T F (j # js) s"
  shows "owned T F js (dp_free j s)"
proof -
  note d = ownedD [OF assms]
  obtain m z where f: "ne_packet_free (dp_mem s) j = (m, z)" by force
  note p = packet_free_frames [OF d(1,2) f]
  have m: "frame_size m = frame_size (dp_mem s) \<and> pl_cap (pool m) = pl_cap (pool (dp_mem s))"
    using f free_segs_keeps by (auto simp: ne_packet_free_def Let_def)
  show ?thesis
    using assms p m by (auto simp: holds_def dp_free_def f dp_frames_def pair_ok_def add_ac)
qed


lemma holds_zero: "owned T F (zero_packet # js) s \<longleftrightarrow> owned T F js s"
proof -
  have "packet_nsegs zero_packet = 0" by (simp add: packet_nsegs_def zero_packet_def)
  then have "packet_frames zero_packet = []" "packet_ok zero_packet" "rooms_le k zero_packet" for k
    by (simp_all add: packet_frames_def packet_ok_def rooms_le_def) (simp_all add: zero_packet_def)
  then show ?thesis by (simp add: holds_def)
qed

lemma holds_swap: "owned T F (a # b # js) s \<Longrightarrow> owned T F (b # a # js) s"
  by (auto simp: holds_def add_ac)

text \<open>The fields of a packet that say nothing about its frames.\<close>

lemma holds_relabel:
  assumes "owned T F (j # js) s" "addr j' = addr j" "seg_addr j' = seg_addr j" "seg_len j' = seg_len j" "seg_cap j' = seg_cap j"
    "nsegs j' = nsegs j" "nsegs j \<noteq> 0 \<or> len j' = len j"
  shows "owned T F (j' # js) s"
proof -
  have n: "packet_nsegs j' = packet_nsegs j" using assms by (auto simp: packet_nsegs_def)
  moreover have "packet_seg_addr j' = packet_seg_addr j" "seg_room j' = seg_room j"
    using assms by (auto simp: packet_seg_addr_def seg_room_def fun_eq_iff)
  ultimately show ?thesis using assms by (auto simp: holds_def packet_frames_def packet_ok_def rooms_le_def)
qed

lemma holds_wake [simp]: "owned T F js (dp_wake s) = owned T F js s"
  by (simp add: dp_wake_def)

lemma holds_put:
  assumes "owned T F (ps @ js) s" "ref_ok ref" "ring_inv r" "ring_list r = ring_list (ring_at ref (fwd s)) @ ps"
  shows "owned T F js (s\<lparr>fwd := ring_put ref r (fwd s)\<rparr>)"
proof -
  have k: "rings_ok (fwd s)" "ring_ok r" using assms(1,3) by (auto simp: holds_def ring_ok_def)
  note p = ring_put_frames [OF k(1) assms(2) k(2)]
  have m: "dp_mem (s\<lparr>fwd := ring_put ref r (fwd s)\<rparr>) = dp_mem s" by (cases ref) (simp_all add: dp_mem_def)
  have "ring_frames r = ring_frames (ring_at ref (fwd s)) + frames_of ps"
    using assms(4) by (simp add: ring_frames_def)
  then have "out_frames (ring_put ref r (fwd s)) + ring_frames (ring_at ref (fwd s)) =
      (out_frames (fwd s) + frames_of ps) + ring_frames (ring_at ref (fwd s))"
    using p(2) by (simp add: add_ac)
  then have "out_frames (ring_put ref r (fwd s)) = out_frames (fwd s) + frames_of ps" by simp
  then show ?thesis using assms(1) p(1) by (auto simp: holds_def dp_frames_def m add_ac)
qed

lemma holds_push:
  assumes "owned T F (j # js) s" "ref_ok ref" "dp_ring_push ref j s = (ok, j', s')"
  shows "owned T F js s'" "\<not> ok \<Longrightarrow> j' = zero_packet"
proof -
  have k: "ring_ok (ring_at ref (fwd s))"
    using ring_put_frames(3) [OF _ assms(2), of "fwd s" zero_ring] assms(1) by (simp add: holds_def ring_ok_def)
  show "owned T F js s'" "\<not> ok \<Longrightarrow> j' = zero_packet"
    using assms(3) holds_free [OF assms(1)] holds_put [where ps = "[j]", OF _ assms(2)] assms(1) ring_push_ok [OF k]
    by (auto simp: dp_ring_push_def split: if_splits option.splits)
qed

lemma holds_push_split:
  assumes "owned T F (j # t # js) s" "nsegs j \<noteq> 0 \<or> l1 = len j" "nsegs t \<noteq> 0 \<or> l2n = len t" "dp_out_ring_idx (rt s) < NE_CRYPTO_WORKERS"
    "push_split_to_wan j l1 t l2n 0 s = (ok, j', s')"
  shows "owned T F (if ok then js else j' # js) s'"
proof -
  let ?ref = "MidToWan 0 (dp_out_ring_idx (rt s))"
  let ?j = "j\<lparr>len := l1, dir := NE_DIR_WAN, wan_idx := 0\<rparr>" and ?t = "t\<lparr>len := l2n, dir := NE_DIR_WAN, wan_idx := 0\<rparr>"
  have r: "ref_ok ?ref" using assms(4) by simp
  have k: "ring_ok (ring_at ?ref (fwd s))"
    using ring_put_frames(3) [OF _ r, of "fwd s" zero_ring] assms(1) by (simp add: holds_def ring_ok_def)
  have h1: "owned T F (?j # t # js) s" by (rule holds_relabel [OF assms(1)]) (use assms(2) in auto)
  have h2: "owned T F (?t # ?j # js) s" by (rule holds_relabel [OF holds_swap [OF h1]]) (use assms(3) in auto)
  have h3: "owned T F ([?j, ?t] @ js) s" using holds_swap [OF h2] by simp
  have fr: "owned T F (j # js) (dp_free t s)" "owned T F (?j # js) (dp_free ?t s)"
    using holds_free [OF holds_swap [OF assms(1)]] holds_free [OF h2] by auto
  show ?thesis
    using assms(5) fr holds_put [OF h3 r] ring_push_pair_ok [OF k]
    by (auto simp: push_split_to_wan_def Let_def split: if_splits option.splits)
qed


section \<open>The worker's own state\<close>

definition bufs_ok :: "bytes list \<Rightarrow> bool" where
  "bufs_ok bs \<longleftrightarrow> length bs = NE_CRYPTO_WORKERS \<and> (\<forall>b\<in>set bs. length b = NE_JUMBO_FRAME_MAX)"

definition worker_ok :: "'c dp_env \<Rightarrow> dp_state \<Rightarrow> bool" where
  "worker_ok env s \<longleftrightarrow> aead_laws (env_lib env) \<and> ctx_ok (crypto (fwd s)) \<and> trf_ok (l2 s) \<and> tables_ok (g_tables s) \<and>
     0 \<le> dp_crypto_current_worker_idx (rt s) \<and> dp_crypto_current_worker_idx (rt s) < int NE_CRYPTO_WORKERS \<and>
     dp_out_ring_idx (rt s) < NE_CRYPTO_WORKERS \<and> bufs_ok (crypto_buf (fwd s)) \<and> bufs_ok (crypto_aux (fwd s))"

lemma route_get_tls:
  assumes "dp_flow_route_get pkt n hint st = (r, st')"
  shows "tls_crypto_worker_idx st' = tls_crypto_worker_idx st \<and> tls_out_ring_idx st' = tls_out_ring_idx st"
  using assms
  by (auto simp: dp_flow_route_get_def dp_flow_route_get_key_def Let_def split: option.splits sum.splits prod.splits if_splits)

lemma next_seq_tls:
  assumes "dp_udp_next_tx_seq pkt n st = (r, st')"
  shows "tls_crypto_worker_idx st' = tls_crypto_worker_idx st \<and> tls_out_ring_idx st' = tls_out_ring_idx st"
proof -
  have t: "tls_crypto_worker_idx (snd (entry_take_seq si way d sa)) = tls_crypto_worker_idx sa"
    "tls_out_ring_idx (snd (entry_take_seq si way d sa)) = tls_out_ring_idx sa"
    "tls_crypto_worker_idx (snd (fallback_take_seq key h d sa)) = tls_crypto_worker_idx sa"
    "tls_out_ring_idx (snd (fallback_take_seq key h d sa)) = tls_out_ring_idx sa" for si way d sa key h
    by (simp_all add: entry_take_seq_def fallback_take_seq_def Let_def split: sum.splits)
  obtain q sa where g: "dp_flow_route_get pkt n (dp_crypto_current_worker_idx st) st = (q, sa)" by force
  have "st' = snd (dp_next_udp_tx_seq pkt n st)" using assms by (simp add: dp_udp_next_tx_seq_def)
  then show ?thesis
    using route_get_tls [OF g]
    by (auto simp: dp_next_udp_tx_seq_def Let_def g t split: option.splits prod.splits)
qed

lemma ring_bind_bound: "dp_out_ring_idx (dp_out_ring_bind k st) < NE_CRYPTO_WORKERS"
proof -
  have "unat (dp_active_tx_slots st) \<le> 4"
    by (simp add: dp_active_tx_slots_def NE_TX_SLOTS_def Let_def word_le_nat_alt not_less)
  moreover have "nat k < unat (dp_active_tx_slots st)" if "\<not> (k < 0 \<or> int (unat (dp_active_tx_slots st)) \<le> k)"
    using that nat_less_iff [of k "unat (dp_active_tx_slots st)"] by linarith
  ultimately have "(if k < 0 \<or> int (unat (dp_active_tx_slots st)) \<le> k then 0 else nat k) < 6" by fastforce
  then show ?thesis
    by (simp add: dp_out_ring_idx_def dp_out_ring_bind_def NE_CRYPTO_WORKERS_def NE_CPU_CRYPTO_def)
qed

lemma bufs_okD: "bufs_ok bs \<Longrightarrow> w < NE_CRYPTO_WORKERS \<Longrightarrow> length (bs ! w) = 9216"
  by (simp add: bufs_ok_def NE_JUMBO_FRAME_MAX_def)

lemma bufs_ok_update: "bufs_ok bs \<Longrightarrow> length b = 9216 \<Longrightarrow> bufs_ok (bs[w := b])"
  using set_update_subset_insert [of bs w b] by (auto simp: bufs_ok_def NE_JUMBO_FRAME_MAX_def)

lemma fwd_simps [simp]:
  "crypto_buf (fwd (set_mem m s)) = crypto_buf (fwd s)" "crypto_aux (fwd (set_mem m s)) = crypto_aux (fwd s)"
  "crypto (fwd (set_mem m s)) = crypto (fwd s)" "rt (set_mem m s) = rt s" "l2 (set_mem m s) = l2 s"
  "g_tables (set_mem m s) = g_tables s" "fwd_wan_count (fwd (set_mem m s)) = fwd_wan_count (fwd s)"
  "crypto_buf (fwd (set_buf w b s)) = (crypto_buf (fwd s))[w := b]" "crypto_aux (fwd (set_buf w b s)) = crypto_aux (fwd s)"
  "crypto (fwd (set_buf w b s)) = crypto (fwd s)" "rt (set_buf w b s) = rt s" "l2 (set_buf w b s) = l2 s"
  "g_tables (set_buf w b s) = g_tables s" "fwd_wan_count (fwd (set_buf w b s)) = fwd_wan_count (fwd s)"
  "crypto_buf (fwd (set_aux w b s)) = crypto_buf (fwd s)" "crypto_aux (fwd (set_aux w b s)) = (crypto_aux (fwd s))[w := b]"
  "crypto (fwd (set_aux w b s)) = crypto (fwd s)" "rt (set_aux w b s) = rt s" "l2 (set_aux w b s) = l2 s"
  "g_tables (set_aux w b s) = g_tables s" "fwd_wan_count (fwd (set_aux w b s)) = fwd_wan_count (fwd s)"
  by (simp_all add: set_mem_def set_buf_def set_aux_def)

lemma worker_ok_updates:
  "worker_ok env (set_mem m s) = worker_ok env s"
  "worker_ok env s \<Longrightarrow> length b = 9216 \<Longrightarrow> worker_ok env (set_buf w b s)"
  "worker_ok env s \<Longrightarrow> length b = 9216 \<Longrightarrow> worker_ok env (set_aux w b s)"
  "worker_ok env s \<Longrightarrow> trf_ok ls \<Longrightarrow> worker_ok env (s\<lparr>l2 := ls\<rparr>)"
  "worker_ok env s \<Longrightarrow> tables_ok g \<Longrightarrow> worker_ok env (s\<lparr>g_tables := g\<rparr>)"
  "worker_ok env (s\<lparr>idle := i\<rparr>) = worker_ok env s"
  "worker_ok env (s\<lparr>fwd := ring_put ref r (fwd s)\<rparr>) = worker_ok env s"
  "worker_ok env (dp_free j s) = worker_ok env s"
  "worker_ok env (dp_wake s) = worker_ok env s"
  by (auto simp: worker_ok_def bufs_ok_update dp_free_def dp_wake_def)
    (cases ref; simp add: worker_ok_def)+

lemma worker_ok_push: "dp_ring_push ref j s = (ok, j', s') \<Longrightarrow> worker_ok env s' = worker_ok env s"
  by (auto simp: dp_ring_push_def worker_ok_updates split: if_splits option.splits)

lemma worker_ok_push_split: "push_split_to_wan j l1 t l2n w s = (ok, j', s') \<Longrightarrow> worker_ok env s' = worker_ok env s"
  by (auto simp: push_split_to_wan_def Let_def worker_ok_updates simp del: ring_put.simps split: if_splits option.splits)

section \<open>Reading a packet\<close>

definition readable :: "nat \<Rightarrow> ne_packet \<Rightarrow> bool" where
  "readable k pkt \<longleftrightarrow> (\<forall>i<packet_nsegs pkt. (if seg_len pkt ! i = 0 then len pkt else seg_len pkt ! i) \<le> k)"

lemma linearize_segs_outcome:
  assumes "\<forall>i\<in>set is. unat (packet_seg_addr pkt i) + (if seg_len pkt ! i = 0 then len pkt else seg_len pkt ! i) \<le> length mem"
    and "off \<le> len pkt" "len pkt \<le> length dst" "linearize_segs mem pkt n is off dst = r"
  shows "r \<noteq> Fault \<and> (\<forall>d k. r = Done (d, k) \<longrightarrow> length d = length dst)"
  using assms
proof (induction "is" arbitrary: off dst)
  case (Cons i "is")
  define k where "k = (if n = 1 \<and> seg_len pkt ! i = 0 then len pkt else seg_len pkt ! i)"
  let ?a = "unat (packet_seg_addr pkt i)"
  show ?case
  proof (cases "len pkt - off < k")
    case True
    then have "r = Fail" using Cons.prems(4) by (simp add: Let_def k_def)
    then show ?thesis by simp
  next
    case False
    have "?a + k \<le> length mem" using Cons.prems(1) by (auto simp: k_def split: if_splits)
    moreover have "off + k \<le> length dst" using False Cons.prems(2,3) by simp
    ultimately obtain d where d: "mem_copy dst off mem ?a k = Done d" using mem_copy_total by blast
    have ld: "length d = length dst" by (rule mem_copy_Done(3) [OF d])
    have "linearize_segs mem pkt n is (off + k) d = r" using Cons.prems(4) False d by (simp add: Let_def k_def)
    from Cons.IH [OF _ _ _ this] show ?thesis using Cons.prems(1-3) False ld by auto
  qed
qed auto

lemma linearize_segs_length: "linearize_segs mem pkt n is off dst = Done (d, k) \<Longrightarrow> length d = length dst"
proof (induction "is" arbitrary: off dst)
  case (Cons i "is")
  then show ?case by (auto simp: Let_def cbind_eq_Done mem_copy_def mem_write_def split: if_splits)
qed simp

lemma linearize_length:
  assumes "ne_packet_linearize m j dst NE_JUMBO_FRAME_MAX = Done d"
  shows "length d = length dst" "len j \<le> 9216"
  using assms linearize_segs_length [of "bufs m" j]
  by (auto simp: ne_packet_linearize_def NE_JUMBO_FRAME_MAX_def Let_def cbind_eq_Done mem_copy_Done(3)
      simp del: linearize_segs.simps split: if_splits)

lemma linearize_no_fault:
  assumes "holds F (j # js) s" "readable (frame_size (dp_mem s)) j" "length dst = 9216"
    "ne_packet_linearize (dp_mem s) j dst NE_JUMBO_FRAME_MAX = r"
  shows "r \<noteq> Fault"
proof -
  let ?m = "dp_mem s" and ?n = "if nsegs j \<noteq> 0 then nsegs j else 1"
  have frame: "unat (packet_seg_addr j i) + frame_size ?m \<le> length (bufs ?m)" if "i < packet_nsegs j" for i
  proof -
    have "packet_seg_addr j i \<in># F" using assms(1) that by (auto simp: holds_def packet_frames_def)
    then show ?thesis using assms(1) by (auto simp: holds_def)
  qed
  have fit: "unat (packet_seg_addr j i) + (if seg_len j ! i = 0 then len j else seg_len j ! i) \<le> length (bufs ?m)"
    if "i < packet_nsegs j" for i
    using frame [OF that] assms(2) that by (fastforce simp: readable_def split: if_splits)
  have all: "\<forall>i\<in>set [0..<?n]. unat (packet_seg_addr j i) + (if seg_len j ! i = 0 then len j else seg_len j ! i) \<le> length (bufs ?m)"
    if "packet_nsegs j \<noteq> 0"
    using fit that by (auto simp: packet_nsegs_def split: if_splits)
  have none: "linearize_segs (bufs ?m) j 1 [0] 0 dst = (if seg_len j ! 0 = 0 then Done (dst, 0) else Fail)" if "packet_nsegs j = 0"
    using that by (auto simp: packet_nsegs_def packet_seg_addr_def mem_copy_def mem_write_def mem_read_def split: if_splits)
  show ?thesis
  proof (cases "len j \<le> 9216 \<and> ?n \<le> 4")
    case le: True
    show ?thesis
    proof (cases "packet_nsegs j = 0")
      case True
      then have "nsegs j = 0" by (auto simp: packet_nsegs_def split: if_splits)
      then show ?thesis
        using assms(3,4) le none [OF True]
        by (cases "seg_len j ! 0 = 0")
          (auto simp: ne_packet_linearize_def NE_JUMBO_FRAME_MAX_def NE_PACKET_MAX_SEGS_def split: if_splits)
    next
      case False
      obtain q where q: "linearize_segs (bufs ?m) j ?n [0..<?n] 0 dst = q" by simp
      have "q \<noteq> Fault \<and> (\<forall>d k. q = Done (d, k) \<longrightarrow> length d = length dst)"
        by (rule linearize_segs_outcome [OF all [OF False] _ _ q]) (use le assms(3) in auto)
      then show ?thesis
        using assms(3,4) le q
        by (cases q) (auto simp: ne_packet_linearize_def NE_JUMBO_FRAME_MAX_def NE_PACKET_MAX_SEGS_def Let_def split: if_splits)
    qed
  next
    case False
    then have "r = Fail"
      using assms(4) by (auto simp: ne_packet_linearize_def NE_JUMBO_FRAME_MAX_def NE_PACKET_MAX_SEGS_def Let_def)
    then show ?thesis by simp
  qed
qed

lemma linearize_outcome:
  assumes "owned T F (j # js) s" "readable (frame_size (dp_mem s)) j" "length dst = 9216"
    "ne_packet_linearize (dp_mem s) j dst NE_JUMBO_FRAME_MAX = r"
  shows "r = Fault \<Longrightarrow> T" "r = Done d \<Longrightarrow> length d = 9216 \<and> len j \<le> 9216"
proof -
  show T if "r = Fault"
  proof (rule ccontr)
    assume "\<not> T"
    then have "holds F (j # js) s" using assms(1) by simp
    from linearize_no_fault [OF this assms(2-4)] that show False by simp
  qed
  show "length d = 9216 \<and> len j \<le> 9216" if "r = Done d" using linearize_length [of "dp_mem s" j dst d] assms(3,4) that by simp
qed

section \<open>LAN to WAN\<close>

lemma packet_write_len: "ne_packet_write p pkt src want = (Done True, p', pkt') \<Longrightarrow> len pkt' = want"
  by (auto simp: ne_packet_write_def Let_def mem_then_def split: if_splits prod.splits cres.splits)

lemma worker_okD:
  assumes "worker_ok env s"
  shows "aead_laws (env_lib env)" "ctx_ok (crypto (fwd s))" "trf_ok (l2 s)" "tables_ok (g_tables s)"
    "dp_out_ring_idx (rt s) < NE_CRYPTO_WORKERS" "w < NE_CRYPTO_WORKERS \<Longrightarrow> length (crypto_buf (fwd s) ! w) = 9216"
    "w < NE_CRYPTO_WORKERS \<Longrightarrow> length (crypto_aux (fwd s) ! w) = 9216"
  using assms by (auto simp: worker_ok_def bufs_okD)

lemma encrypt_whole_ok:
  assumes "worker_ok env s" "owned T F [job] s" "length pkt = 9216" "len job \<le> 9014"
    "encrypt_whole env pr w job pkt s = (r, (s', job'))"
  shows "r \<in> {Done 0, Fail} \<and> worker_ok env s' \<and> owned T F [job'] s' \<or> T \<and> r = Fault"
proof -
  note k = worker_okD [OF assms(1)]
  obtain q ls where q: "l2_crypto_encrypt (env_os env) (env_lib env) pr (crypto (fwd s)) pkt (len job) (l2 s) = (q, ls)" by force
  note o = encrypt_outcome [OF k(1-3) _ q]
  have room: "len job + 46 \<le> length pkt" using assms(3,4) by simp
  have w1: "worker_ok env (s\<lparr>l2 := ls\<rparr>)" using worker_ok_updates(4) [OF assms(1) o(1) [OF room]] .
  show ?thesis
  proof (cases "q = Fail")
    case True
    then show ?thesis using assms(2,5) w1 by (auto simp: encrypt_whole_def q)
  next
    case False
    then obtain p n where p: "q = Done (p, n)" "length p = 9216" "n \<le> 9060" using o(2) [OF room] assms(3,4) by auto
    let ?s1 = "set_buf w p (s\<lparr>l2 := ls\<rparr>)"
    have w2: "worker_ok env ?s1" by (rule worker_ok_updates(2) [OF w1 p(2)])
    have h2: "owned T F [job] ?s1" using assms(2) by simp
    obtain x m j1 where wr: "ne_packet_write (dp_mem ?s1) job p n = (x, m, j1)" by (metis prod_cases3)
    have hw: "owned T F [j1] (set_mem m ?s1) \<and> (x = Done True \<or> x = Done False) \<or> T \<and> x = Fault"
      using owned_write [OF h2 _ wr] p by auto
    show ?thesis
      using assms(5) w2 h2 hw wr worker_ok_updates(1) [of env m ?s1]
      by (auto simp: encrypt_whole_def q p(1) Let_def split: if_splits)
  qed
qed

lemma encrypt_split_ok:
  assumes "worker_ok env s" "owned T F [job] s" "length pkt = 9216" "len job \<le> 9216" "g_udp_tx_valid (l2 s)" "w < NE_CRYPTO_WORKERS"
    "encrypt_split env 0 w job pkt s = (r, (s', job'))"
  shows "worker_ok env s' \<and> (r = Fail \<and> owned T F [job'] s' \<or> r = Done 1 \<and> owned T F [] s') \<or> T \<and> r = Fault"
proof -
  note k = worker_okD [OF assms(1)]
  obtain q ls where q: "l2_crypto_split_udp (env_os env) (env_lib env) (crypto (fwd s)) pkt (len job) NE_JUMBO_FRAME_MAX
      (crypto_aux (fwd s) ! w) NE_JUMBO_FRAME_MAX (l2 s) = (q, ls)" by force
  note o = split_outcome [OF k(1-3) assms(5,4,3) k(7) [OF assms(6)] q [unfolded NE_JUMBO_FRAME_MAX_def]]
  have w1: "worker_ok env (s\<lparr>l2 := ls\<rparr>)" using worker_ok_updates(4) [OF assms(1)] o by blast
  show ?thesis
  proof (cases "q = Fail")
    case True
    then show ?thesis using assms(2,7) w1 by (auto simp: encrypt_split_def q)
  next
    case False
    then obtain p0 n0 p1 n1 where p: "q = Done ((p0, n0), (p1, n1))" "n0 \<le> length p0" "n1 \<le> length p1"
      "length p0 = 9216" "length p1 = 9216" using o by auto
    let ?s1 = "set_aux w p1 (set_buf w p0 (s\<lparr>l2 := ls\<rparr>))"
    have w2: "worker_ok env ?s1" by (intro worker_ok_updates(2,3) w1 p)
    have h2: "owned T F [job] ?s1" using assms(2) by simp
    obtain x m j1 where wr: "ne_packet_write (dp_mem s) job p0 n0 = (x, m, j1)" by (metis prod_cases3)
    have h3: "owned T F [j1] (set_mem m ?s1) \<and> (x = Done True \<or> x = Done False) \<or> T \<and> x = Fault"
      by (rule owned_write [OF h2 p(2)]) (simp add: wr)
    show ?thesis
    proof (cases "x = Done True")
      case False
      then show ?thesis
        using assms(7) h3 w2 holds_free [of T F zero_packet "[j1]" "set_mem m ?s1"]
        by (auto simp: encrypt_split_def q p(1) Let_def wr worker_ok_updates holds_zero split: if_splits)
    next
      case True
      have h4: "owned T F [zero_packet, j1] (set_mem m ?s1)" using h3 True by (simp add: holds_zero)
      obtain y m2 t where wt: "ne_packet_write m zero_packet p1 n1 = (y, m2, t)" by (metis prod_cases3)
      have h5: "owned T F [t, j1] (set_mem m2 ?s1) \<and> (y = Done True \<or> y = Done False) \<or> T \<and> y = Fault"
        using owned_write [OF h4 p(3), of y m2 t] wt by auto
      let ?s5 = "set_mem m2 ?s1"
      obtain ok j2 s5 where ps: "push_split_to_wan j1 n0 t n1 0 ?s5 = (ok, j2, s5)" by (metis prod_cases3)
      have out: "dp_out_ring_idx (rt ?s5) < NE_CRYPTO_WORKERS" using k(5) by simp
      have h6: "owned T F (if ok then [] else [j2]) s5" if "y = Done True"
      proof -
        have "owned T F [j1, t] ?s5" using h5 that by (auto intro: holds_swap)
        from holds_push_split [OF this _ _ out ps] show ?thesis using packet_write_len wr wt True that by blast
      qed
      show ?thesis
        using assms(7) True h5 h6 holds_free [of T F t "[j1]" ?s5] w2 worker_ok_push_split [OF ps, of env]
        by (auto simp: encrypt_split_def q p(1) Let_def wr wt ps worker_ok_updates split: if_splits)
    qed
  qed
qed


lemma length_clamp_opts [simp]: "length (fst (clamp_opts pkt tcp cap e i)) = length pkt"
  by (induction pkt tcp cap e i rule: clamp_opts.induct, subst clamp_opts.simps)
    (auto simp: Let_def tcp_checksum_replace_word_def)

lemma length_clamp [simp]: "length (snd (crypto_tcp_clamp_mss pkt n mtu ov)) = length pkt"
  by (simp add: crypto_tcp_clamp_mss_def Let_def split_beta split: option.split)

lemma encrypt_to_wan_ok:
  assumes "worker_ok env s" "owned T F [job] s" "len job \<le> 9014" "encrypt_to_wan env 0 pr flow_ok job s = (r, (s', job'))"
  shows "worker_ok env s' \<and> (r \<in> {Done 0, Fail} \<and> owned T F [job'] s' \<or> r = Done 1 \<and> owned T F [] s') \<or> T \<and> r = Fault"
proof -
  define w where "w = nat (dp_crypto_current_worker_idx (rt s))"
  have wi: "\<not> (dp_crypto_current_worker_idx (rt s) < 0 \<or> int NE_CRYPTO_WORKERS \<le> dp_crypto_current_worker_idx (rt s))" "w < NE_CRYPTO_WORKERS"
    using assms(1) by (auto simp: worker_ok_def w_def nat_less_iff)
  note k = worker_okD [OF assms(1)]
  define pkt where "pkt = (if pr \<noteq> L2_PROTO_UDP
    then snd (crypto_tcp_clamp_mss (crypto_buf (fwd s) ! w) (len job) L2_CRYPTO_MTU L2_CRYPTO_DATA_OVERHEAD) else crypto_buf (fwd s) ! w)"
  have lp: "length pkt = 9216" using k(6) [OF wi(2)] by (simp add: pkt_def)
  let ?s1 = "set_buf w pkt s"
  have w1: "worker_ok env ?s1" by (rule worker_ok_updates(2) [OF assms(1) lp])
  have h1: "owned T F [job] ?s1" using assms(2) by simp
  obtain q rs where q: "dp_udp_next_tx_seq pkt (len job) (rt s) = (q, rs)" by force
  let ?s2 = "\<lambda>sq. ?s1\<lparr>rt := rs, l2 := l2_crypto_udp_set_tx_seq sq (l2 s)\<rparr>"
  have w2: "worker_ok env (?s1\<lparr>rt := rs\<rparr>)" "worker_ok env (?s2 sq)" "g_udp_tx_valid (l2 (?s2 sq))" for sq
    using w1 next_seq_tls [OF q]
    by (auto simp: worker_ok_def dp_crypto_current_worker_idx_def dp_out_ring_idx_def l2_crypto_udp_set_tx_seq_def trf_ok_def)
  have h2: "owned T F [job] (?s1\<lparr>rt := rs\<rparr>)" "owned T F [job] (?s2 sq)" for sq using assms(2) by auto
  have l: "len job \<le> 9216" using assms(3) by simp
  note sp = encrypt_split_ok [OF w2(2) h2(2) lp l w2(3) wi(2)] and wh = encrypt_whole_ok [OF w2(2) h2(2) lp assms(3)]
    and wh1 = encrypt_whole_ok [OF w1 h1 lp assms(3)]
  note e = assms(4) [unfolded encrypt_to_wan_def Let_def if_not_P [OF wi(1)], folded w_def, folded pkt_def]
  show ?thesis
    using e w1 w2(1) h1 h2(1) by (auto simp: q split: if_splits option.splits dest!: sp [simplified] wh [simplified] wh1 [simplified])
qed


lemma process_local_owned:
  assumes "worker_ok env s" "owned T F [job] s" "readable (frame_size (dp_mem s)) job" "len job \<le> 9014"
  shows "(\<exists>s'. dataplane_process_local env job s = Done s' \<and> owned T F [] s' \<and> worker_ok env s') \<or>
    T \<and> dataplane_process_local env job s = Fault"
proof -
  define w where "w = nat (dp_crypto_current_worker_idx (rt s))"
  have wi: "\<not> (dp_crypto_current_worker_idx (rt s) < 0 \<or> int NE_CRYPTO_WORKERS \<le> dp_crypto_current_worker_idx (rt s))" "w < NE_CRYPTO_WORKERS"
    using assms(1) by (auto simp: worker_ok_def w_def nat_less_iff)
  note k = worker_okD [OF assms(1)]
  obtain r where r: "ne_packet_linearize (dp_mem s) job (crypto_buf (fwd s) ! w) NE_JUMBO_FRAME_MAX = r" by simp
  note lo = linearize_outcome [OF assms(2,3) k(6) [OF wi(2)] r]
  note e = dataplane_process_local_def [of env job s, unfolded Let_def if_not_P [OF wi(1)], folded w_def, unfolded r]
  show ?thesis
  proof (cases r)
    case Fail
    then show ?thesis using e holds_free [OF assms(2)] assms(1) by (simp add: worker_ok_updates)
  next
    case Fault
    then show ?thesis using e lo(1) by simp
  next
    case (Done pkt)
    let ?s1 = "set_buf w pkt s"
    have w1: "worker_ok env ?s1" using worker_ok_updates(2) [OF assms(1)] lo(2) [OF Done] by simp
    have h1: "owned T F [job] ?s1" using assms(2) by simp
    obtain q s2 j2 where q: "encrypt_to_wan env 0 (l2_crypto_classify (flow_proto pkt (len job)))
        (dp_parse_flow pkt (len job) \<noteq> None) job ?s1 = (q, (s2, j2))" by (metis prod_cases3)
    note o = encrypt_to_wan_ok [OF w1 h1 assms(4) q]
    obtain ok j3 s3 where pw: "push_to_wan 0 j2 s2 = (ok, j3, s3)" by (metis prod_cases3)
    have "worker_ok env s3 \<and> owned T F [] s3" if "owned T F [j2] s2" "worker_ok env s2"
    proof -
      have "owned T F [j2\<lparr>dir := NE_DIR_WAN, wan_idx := 0\<rparr>] s2" by (rule holds_relabel [OF that(1)]) auto
      moreover have "ref_ok (MidToWan 0 (dp_out_ring_idx (rt s2)))" using that(2) by (simp add: worker_ok_def)
      ultimately show ?thesis
        using holds_push(1) worker_ok_push pw that(2) unfolding push_to_wan_def by (metis mod_0)
    qed
    then show ?thesis
      using e Done q o pw h1 w1 holds_free [of T F job "[]" ?s1] holds_free [of T F j2 "[]" s2]
      by (cases q) (auto simp: worker_ok_updates)
  qed
qed

lemma process_local_ok:
  assumes "worker_ok env s" "holds F [job] s" "readable (frame_size (dp_mem s)) job" "len job \<le> 9014"
  shows "\<exists>s'. dataplane_process_local env job s = Done s' \<and> holds F [] s' \<and> worker_ok env s'"
  using process_local_owned [OF assms] by simp


section \<open>WAN to LAN\<close>

lemma deliver_local_ok:
  assumes "worker_ok env s" "owned T F [job] s" "n \<le> length pkt"
  shows "(\<exists>s'. deliver_local w job pkt n s = Done s' \<and> owned T F [] s' \<and> worker_ok env s') \<or> T \<and> deliver_local w job pkt n s = Fault"
proof -
  obtain x m j1 where wr: "ne_packet_write (dp_mem s) job pkt n = (x, m, j1)" by (metis prod_cases3)
  note h = owned_write [OF assms(2,3) wr]
  let ?s1 = "set_mem m s"
  have w1: "worker_ok env ?s1" using assms(1) by (simp add: worker_ok_updates)
  obtain txs rs where p: "dp_flow_pick_tx_slot pkt (len j1) (int w) (rt s) = (txs, rs)" by force
  obtain q where q: "dp_flow_route_get pkt (len j1) (int w) (rt s) = (q, rs)"
    using p by (auto simp: dp_flow_pick_tx_slot_def split: prod.splits)
  let ?s2 = "?s1\<lparr>rt := dp_out_ring_bind (int txs) rs\<rparr>"
  have w2: "worker_ok env ?s2"
    using w1 route_get_tls [OF q] ring_bind_bound [of "int txs" rs]
    by (simp add: worker_ok_def dp_crypto_current_worker_idx_def) (simp add: dp_out_ring_bind_def)
  have h2: "owned T F [j1] ?s2" if "x \<noteq> Fault" using h that by auto
  obtain ok j2 s3 where f: "forward_local j1 ?s2 = (ok, j2, s3)" by (metis prod_cases3)
  have "owned T F [] (if ok then s3 else dp_free j2 s3) \<and> worker_ok env s3" if "x \<noteq> Fault"
  proof (cases "fwd_local_count (fwd ?s2) = 1")
    case True
    then have pu: "dp_ring_push (MidToLocal 0 (dp_out_ring_idx (rt ?s2))) (j1\<lparr>dir := NE_DIR_LOCAL, local_idx := 0\<rparr>) ?s2 = (ok, j2, s3)"
      using f by (simp add: forward_local_def)
    have h3: "owned T F [j1\<lparr>dir := NE_DIR_LOCAL, local_idx := 0\<rparr>] ?s2" by (rule holds_relabel [OF h2 [OF that]]) auto
    have rf: "ref_ok (MidToLocal 0 (dp_out_ring_idx (rt ?s2)))" using w2 by (simp add: worker_ok_def)
    note o = holds_push [OF h3 rf pu]
    have "owned T F [] (dp_free zero_packet s3)" by (rule holds_free) (simp add: holds_zero o(1))
    then show ?thesis using o worker_ok_push [OF pu, of env] w2 by auto
  next
    case False
    then show ?thesis using f h2 [OF that] w2 holds_free [OF h2 [OF that]] by (auto simp: forward_local_def)
  qed
  then show ?thesis
    using h w1 holds_free [of T F j1 "[]" ?s1] by (auto simp: deliver_local_def wr p f Let_def worker_ok_updates)
qed

lemma process_wan_owned:
  assumes "worker_ok env s" "owned T F [job] s" "readable (frame_size (dp_mem s)) job"
  shows "(\<exists>s'. dataplane_process_wan env job s = Done s' \<and> owned T F [] s' \<and> worker_ok env s') \<or>
    T \<and> dataplane_process_wan env job s = Fault"
proof -
  define w where "w = nat (dp_crypto_current_worker_idx (rt s))"
  have wi: "\<not> (dp_crypto_current_worker_idx (rt s) < 0 \<or> int NE_CRYPTO_WORKERS \<le> dp_crypto_current_worker_idx (rt s))" "w < NE_CRYPTO_WORKERS"
    using assms(1) by (auto simp: worker_ok_def w_def nat_less_iff)
  note k = worker_okD [OF assms(1)]
  obtain r where r: "ne_packet_linearize (dp_mem s) job (crypto_buf (fwd s) ! w) NE_JUMBO_FRAME_MAX = r" by simp
  note lo = linearize_outcome [OF assms(2,3) k(6) [OF wi(2)] r]
  note e = dataplane_process_wan_def [of env job s, unfolded Let_def if_not_P [OF wi(1)], folded w_def, unfolded r]
  show ?thesis
  proof (cases r)
    case Fail
    then show ?thesis using e holds_free [OF assms(2)] assms(1) by (simp add: worker_ok_updates)
  next
    case Fault
    then show ?thesis using e lo(1) by simp
  next
    case (Done pkt)
    let ?s1 = "set_buf w pkt s"
    have lp: "length pkt = 9216" "len job \<le> length pkt" using lo(2) [OF Done] by auto
    have w1: "worker_ok env ?s1" by (rule worker_ok_updates(2) [OF assms(1) lp(1)])
    note k1 = worker_okD [OF w1]
    have h1: "owned T F [job] ?s1" using assms(2) by simp
    obtain q ls gt where q: "l2_crypto_reassemble_udp (env_calloc env) (env_lib env) (dp_crypto_current_worker_idx (rt s))
        (crypto (fwd s)) pkt (len job) (crypto_aux (fwd s) ! w) (env_now env) (l2 s, g_tables s) = (q, (ls, gt))"
      by (metis prod_cases3)
    note ro = reasm_outcome [OF k(1,3,4) lp(2,1) k(7) [OF wi(2)] q]
    obtain d ls' where d: "l2_crypto_decrypt (env_lib env) L2_PROTO_DATA (crypto (fwd s)) pkt (len job) (l2 s) = (d, ls')" by force
    note do = decrypt_outcome [OF k(1,3) lp(2) d]
    have wu: "worker_ok env (?s1\<lparr>l2 := ls, g_tables := gt\<rparr>)" "worker_ok env (?s1\<lparr>l2 := ls'\<rparr>)"
      using w1 ro do by (auto intro!: worker_ok_updates(4,5))
    have hu: "owned T F [job] (?s1\<lparr>l2 := ls, g_tables := gt\<rparr>)" "owned T F [job] (?s1\<lparr>l2 := ls'\<rparr>)" using assms(2) by auto
    have udp: "(\<exists>s'. deliver_local w job b n (set_aux w b (?s1\<lparr>l2 := ls, g_tables := gt\<rparr>)) = Done s' \<and> owned T F [] s' \<and> worker_ok env s') \<or>
        T \<and> deliver_local w job b n (set_aux w b (?s1\<lparr>l2 := ls, g_tables := gt\<rparr>)) = Fault"
      if "q = Done (Some (b, n))" for b n
      by (rule deliver_local_ok) (use that ro wu(1) assms(2) in \<open>auto intro: worker_ok_updates(3)\<close>)
    have data: "(\<exists>s'. deliver_local w job b n (set_buf w b (?s1\<lparr>l2 := ls'\<rparr>)) = Done s' \<and> owned T F [] s' \<and> worker_ok env s') \<or>
        T \<and> deliver_local w job b n (set_buf w b (?s1\<lparr>l2 := ls'\<rparr>)) = Fault"
      if "d = Done (b, n)" for b n
      by (rule deliver_local_ok) (use that do wu(2) assms(2) lp in \<open>auto intro: worker_ok_updates(2)\<close>)
    note fr = holds_free [OF h1] holds_free [OF hu(1)] holds_free [OF hu(2)]
    show ?thesis
    proof (cases "crypto_eth_l2_has_marker pkt (len job) \<and> is_udp_wire pkt (len job)")
      case True
      then show ?thesis
        using e Done q udp fr(2) wu(1) ro
        by (auto simp: worker_ok_updates split: cres.splits option.splits prod.splits)
    next
      case False
      then show ?thesis
        using e Done d data fr(1,3) wu(2) w1 do
        by (auto simp: worker_ok_updates split: cres.splits prod.splits)
    qed
  qed
qed

lemma process_wan_ok:
  assumes "worker_ok env s" "holds F [job] s" "readable (frame_size (dp_mem s)) job"
  shows "\<exists>s'. dataplane_process_wan env job s = Done s' \<and> holds F [] s' \<and> worker_ok env s'"
  using process_wan_owned [OF assms] by simp


section \<open>A concrete worker\<close>

text \<open>Worker 2 with three frames of 4096 bytes: one holds a received packet with the bytes \<open>bs\<close>, two are free.\<close>

definition work_pool :: ne_pool where
  "work_pool = \<lparr>pl_buf = [4096, 8192, 0, 0], pl_cap = 4, pl_mask = 3, pl_head = 2, pl_tail = 0\<rparr>"

definition work_ring :: "ne_packet ne_ring" where
  "work_ring = \<lparr>r_buf = replicate 2 zero_packet, r_cap = 2, r_mask = 1, r_head = 0, r_tail = 0, r_mpsc_pop = False\<rparr>"

definition work_job :: "bytes \<Rightarrow> ne_packet" where
  "work_job bs = zero_packet\<lparr>len := length bs, seg_len := [length bs, 0, 0, 0], seg_cap := [length bs, 0, 0, 0], nsegs := 1\<rparr>"

definition work_state :: "bytes \<Rightarrow> dp_state" where
  "work_state bs = \<lparr>fwd = \<lparr>fwd_locals = [\<lparr>fi_ifindex = 3, fi_ifname = ''lan0''\<rparr>], fwd_local_count = 1,
       fwd_wans = [\<lparr>fi_ifindex = 4, fi_ifname = ''wan0''\<rparr>], fwd_wan_count = 1,
       pair = demo_io\<lparr>io_mem := \<lparr>bufs = bs @ replicate (12288 - length bs) 0, frame_size = 4096, pool = work_pool\<rparr>\<rparr>,
       crypto = demo_ctx, local_to_mid = replicate 6 work_ring, wan_to_mid = replicate 6 work_ring,
       mid_to_wan = [replicate 6 work_ring], mid_to_local = [replicate 6 work_ring],
       crypto_buf = replicate 6 (replicate 9216 0), crypto_aux = replicate 6 (replicate 9216 0)\<rparr>,
     rt = route_init\<lparr>tls_crypto_worker_idx := 2, tls_out_ring_idx := 2\<rparr>, l2 = demo_l2, g_tables = (\<lambda>_. None), idle = demo_idle\<rparr>"

definition work_env :: "bool dp_env" where
  "work_env = \<lparr>env_os = demo_os, env_lib = demo_api, env_now = 7, env_calloc = True\<rparr>"

lemma work_ring_ok: "ring_inv work_ring" "ring_list work_ring = []"
  by (simp_all add: ring_inv_def work_ring_def pow2_cap_def ring_list_def slots_def)

lemma work_pool_ok: "pool_inv work_pool" "pool_list work_pool = [4096, 8192]"
  by (simp_all add: pool_inv_def pool_list_def work_pool_def pow2_cap_def slots_def ring_slot_def word_le_nat_alt upt_conv_Cons)

lemma work_state_ok:
  assumes "aead_laws (env_lib env)"
  shows "worker_ok env (work_state bs)"
  using assms demo_facts(1,2)
  by (simp add: worker_ok_def work_state_def bufs_ok_def tables_ok_def dp_crypto_current_worker_idx_def dp_out_ring_idx_def
      NE_JUMBO_FRAME_MAX_def)

lemma work_state_holds:
  assumes "0 < length bs" "length bs \<le> 4096"
  shows "holds {#0, 4096, 8192#} [work_job bs] (work_state bs)" "readable 4096 (work_job bs)"
    "frame_size (dp_mem (work_state bs)) = 4096"
proof -
  have m: "dp_mem (work_state bs) = \<lparr>bufs = bs @ replicate (12288 - length bs) 0, frame_size = 4096, pool = work_pool\<rparr>"
    by (simp add: dp_mem_def work_state_def)
  have n: "packet_nsegs (work_job bs) = 1" "packet_frames (work_job bs) = [0]" "packet_ok (work_job bs)" "rooms_le 4096 (work_job bs)"
    using assms
    by (simp_all add: packet_ok_def rooms_le_def packet_frames_def packet_nsegs_def work_job_def zero_packet_def packet_seg_addr_def
        seg_room_def)
  have g: "grid_frames [replicate 6 work_ring] = {#}" "grid_ok [replicate 6 work_ring]"
    using work_ring_ok by (auto simp: grid_frames_def grid_ok_def ring_frames_def ring_ok_def)
      (simp_all add: numeral_eq_Suc)
  have u: "unat (4096 :: u64) = 4096" "unat (8192 :: u64) = 8192" by simp_all
  from g have o: "out_frames (fwd (work_state bs)) = {#}" "rings_ok (fwd (work_state bs))"
    by (simp_all add: out_frames_def rings_ok_def work_state_def)
  show "holds {#0, 4096, 8192#} [work_job bs] (work_state bs)"
    using n o work_pool_ok assms u by (simp add: holds_def dp_frames_def m add_ac del: unsigned_numeral) (simp add: work_pool_def)
  show "readable 4096 (work_job bs)" using assms n(1) by (simp add: readable_def work_job_def zero_packet_def)
  show "frame_size (dp_mem (work_state bs)) = 4096" by (simp add: m)
qed

lemma work_env_ok: "worker_ok work_env (work_state bs)"
  by (rule work_state_ok) (simp add: work_env_def demo_laws)



end
