(* ===== verification/Dataplane_E2E.thy ===== *)
theory Dataplane_E2E
  imports Dataplane_Safe
begin

text \<open>
  The tunnel end to end: a packet a worker takes from the LAN side of one machine and a worker of the peer
  takes from its WAN side leaves on the peer's LAN side with the same bytes (TCP SYNs with the clamped MSS).
  The statement composes linearization, the MSS clamp, encryption, the packet write, the rings, decryption
  and flow routing, as the two functions \<^verbatim>\<open>dataplane_process_local\<close> and \<^verbatim>\<open>dataplane_process_wan\<close> compose them.
\<close>

definition carries :: "ne_pair \<Rightarrow> ne_packet \<Rightarrow> bytes \<Rightarrow> bool" where
  "carries m pkt bs \<longleftrightarrow> len pkt = length bs \<and> (\<forall>dst. length dst = 9216 \<longrightarrow>
     ne_packet_linearize m pkt dst NE_JUMBO_FRAME_MAX = Done (bs @ drop (length bs) dst))"

definition can_store :: "nat \<Rightarrow> ne_packet \<Rightarrow> dp_state \<Rightarrow> bool" where
  "can_store n job s \<longleftrightarrow> spans_ok (dp_mem s) job \<and> n \<le> packet_capacity (dp_mem s) job"

definition has_room :: "ring_ref \<Rightarrow> dp_state \<Rightarrow> bool" where
  "has_room ref s \<longleftrightarrow> ring_inv (ring_at ref (fwd s)) \<and> length (ring_list (ring_at ref (fwd s))) < unat (r_cap (ring_at ref (fwd s)))"

definition emits :: "ring_ref \<Rightarrow> dp_state \<Rightarrow> dp_state \<Rightarrow> bytes \<Rightarrow> bool" where
  "emits ref s s' bs \<longleftrightarrow> (\<exists>p. ring_list (ring_at ref (fwd s')) = ring_list (ring_at ref (fwd s)) @ [p] \<and> carries (dp_mem s') p bs)"

section \<open>Storing\<close>

lemma packet_copy_take:
  assumes "off \<le> want" "want \<le> length src"
  shows "packet_copy (take want src) want is off mem pkt = packet_copy src want is off mem pkt"
  using assms
proof (induction "is" arbitrary: off mem pkt)
  case (Cons i "is")
  define n where "n = (if seg_room pkt i < want - off then seg_room pkt i else want - off)"
  have le: "off + n \<le> want" using Cons.prems(1) by (auto simp: n_def)
  then have r: "mem_read (take want src) off n = mem_read src off n"
    by (simp add: mem_read_def drop_take min_def)
  have "mem_copy mem a (take want src) off n = mem_copy mem a src off n" for a
    using le Cons.prems(2) r by (simp add: mem_copy_def)
  then show ?case using Cons.IH [OF le Cons.prems(2)]
    by (simp only: packet_copy.simps Let_def flip: n_def)
qed simp

lemma packet_write_take:
  "want \<le> length src \<Longrightarrow> ne_packet_write p pkt (take want src) want = ne_packet_write p pkt src want"
  by (simp add: ne_packet_write_def packet_copy_take Let_def split: prod.split)

lemma write_carries:
  assumes "holds F (job # js) s" "can_store n job s" "0 < n" "n \<le> 9216" "n \<le> length src"
  obtains m j where "ne_packet_write (dp_mem s) job src n = (Done True, m, j)" "carries m j (take n src)"
proof -
  let ?b = "take n src"
  have lb: "length ?b = n" using assms(5) by simp
  obtain r m j where w: "ne_packet_write (dp_mem s) job ?b (length ?b) = (r, m, j)" by (metis prod_cases3)
  note rb = packet_write_reads_back [OF holdsD(1,2) [OF assms(1)] _ w]
  have sp: "spans_ok (dp_mem s) job" using assms(2) by (simp add: can_store_def)
  have r: "r = Done True" using rb [OF sp] assms(2-4) lb by (auto simp: can_store_def)
  have "ne_packet_linearize m j dst NE_JUMBO_FRAME_MAX = Done (?b @ drop (length ?b) dst)" if "length dst = 9216" for dst
    using rb [OF sp, of dst] r that assms(4) lb by (simp add: NE_JUMBO_FRAME_MAX_def)
  then have "carries m j ?b" using packet_write_len w r lb by (auto simp: carries_def)
  then show ?thesis using that w r packet_write_take [OF assms(5)] lb by simp
qed

lemma push_emits:
  assumes "has_room ref s" "ref_ok ref" "carries (dp_mem s) job bs" "length bs \<le> 9216"
    "\<And>d dst. ne_packet_linearize d job' dst NE_JUMBO_FRAME_MAX = ne_packet_linearize d job dst NE_JUMBO_FRAME_MAX" "len job' = len job"
    "rings_ok (fwd s)"
  shows "\<exists>s'. dp_ring_push ref job' s = (True, job', s') \<and> emits ref s s' bs \<and> rt s' = rt s"
proof -
  let ?r = "ring_at ref (fwd s)"
  have inv: "ring_inv ?r" and lt: "length (ring_list ?r) \<noteq> unat (r_cap ?r)" using assms(1) by (auto simp: has_room_def)
  obtain r where r: "ne_ring_try_push ?r job' = Some r" using ring_push_None [OF inv, of job'] lt by auto
  note p = ring_push_Some [OF inv r]
  let ?s = "s\<lparr>fwd := ring_put ref r (fwd s)\<rparr>"
  have at: "ring_at ref (fwd ?s) = r"
    using assms(2,7) by (cases ref) (auto simp: rings_ok_def grid_ok_def)
  have m: "dp_mem ?s = dp_mem s" by (cases ref) (simp_all add: dp_mem_def)
  have l: "len job' \<le> NE_JUMBO_FRAME_MAX" using assms(3,4,6) by (simp add: carries_def NE_JUMBO_FRAME_MAX_def)
  have "emits ref s (dp_wake ?s) bs"
    unfolding emits_def using p(2) at m assms(3,5,6)
    by (intro exI [of _ job']) (auto simp: dp_wake_def carries_def)
  then show ?thesis using r l by (intro exI [of _ "dp_wake ?s"]) (simp add: dp_ring_push_def, simp add: dp_wake_def)
qed

lemma linearize_relabel:
  assumes "addr j' = addr j" "seg_addr j' = seg_addr j" "seg_len j' = seg_len j" "nsegs j' = nsegs j" "len j' = len j"
  shows "ne_packet_linearize m j' dst k = ne_packet_linearize m j dst k"
proof -
  have a: "packet_seg_addr j' = packet_seg_addr j" using assms by (auto simp: packet_seg_addr_def fun_eq_iff)
  have "linearize_segs mem j' n is = linearize_segs mem j n is" for mem n "is"
  proof (induction "is")
    case (Cons i "is")
    show ?case by (intro ext) (simp only: linearize_segs.simps assms a Cons.IH)
  qed (simp add: fun_eq_iff)
  then show ?thesis by (simp only: ne_packet_linearize_def assms)
qed

section \<open>The clamp on a larger buffer\<close>

lemma replace_word_append:
  "tcp + 17 < length p \<Longrightarrow> tcp_checksum_replace_word (p @ r) tcp a b = tcp_checksum_replace_word p tcp a b @ r"
  by (simp add: tcp_checksum_replace_word_def nth_append list_update_append1 Let_def)

lemma mss_find_append: "tcp + e \<le> length p \<Longrightarrow> mss_find (p @ r) tcp e i = mss_find p tcp e i"
proof (induction p tcp e i rule: mss_find.induct)
  case (1 p tcp e i)
  show ?case
  proof (cases "i + 1 < e")
    case True
    then have "(p @ r) ! (tcp + i) = p ! (tcp + i)" "(p @ r) ! (tcp + i + 1) = p ! (tcp + i + 1)"
      using 1(3) by (simp_all add: nth_append)
    then show ?thesis
      using 1 unfolding mss_find.simps [of "p @ r" tcp e i] mss_find.simps [of p tcp e i] by (simp add: Let_def)
  qed (simp add: mss_find.simps [of _ _ e i])
qed

lemma clamp_opts_append:
  assumes "20 \<le> i" "tcp + e \<le> length p"
  shows "clamp_opts (p @ r) tcp cap e i = apfst (\<lambda>q. q @ r) (clamp_opts p tcp cap e i)"
proof (cases "mss_find p tcp e i")
  case (Some k)
  then have k: "20 \<le> k" "tcp + k + 3 < length p" using mss_find_SomeD [OF Some] assms by auto
  then have "mss_at (p @ r) tcp k = mss_at p tcp k" by (simp add: mss_at_def nth_append)
  then show ?thesis
    using k by (simp add: clamp_opts_find mss_find_append assms Some clamp_at_def replace_word_append list_update_append1)
qed (simp add: clamp_opts_find mss_find_append assms)

lemma clamp_append:
  assumes "length p = n"
  shows "snd (crypto_tcp_clamp_mss (p @ r) n mtu ov) = snd (crypto_tcp_clamp_mss p n mtu ov) @ r"
proof -
  have et: "eth_read_et (p @ r) 12 = eth_read_et p 12" if "14 \<le> n" using that assms by (simp add: eth_read_et_def nth_append)
  have off: "crypto_eth_ipv4_offset (p @ r) n = crypto_eth_ipv4_offset p n"
    by (auto simp: crypto_eth_ipv4_offset_def crypto_eth_inner_et_off_def Let_def et)
  show ?thesis
    using assms clamp_opts_append [of 20 _ _ p r]
    by (auto simp: crypto_tcp_clamp_mss_def off nth_append Let_def split_beta split: option.split)
qed

lemma clamp_keeps:
  assumes "k < 34" shows "snd (crypto_tcp_clamp_mss p n mtu ov) ! k = p ! k"
proof -
  have o: "fst (clamp_opts p tcp cap e 20) ! k = p ! k" if "18 < tcp" for tcp cap e
    using that assms mss_find_SomeD [of p tcp e 20]
    by (auto simp: clamp_opts_find clamp_at_nth split: option.split)
  have i: "20 \<le> ihl \<Longrightarrow> 18 < x + ihl" for x ihl :: nat by simp
  show ?thesis
    by (simp add: crypto_tcp_clamp_mss_def Let_def split_beta o split: option.split)
qed

lemma flow_proto_append:
  assumes "length p = n" shows "flow_proto (p @ r) n = flow_proto p n"
proof -
  have et: "eth_read_et (p @ r) 12 = eth_read_et p 12" if "14 \<le> n" using that assms by (simp add: eth_read_et_def nth_append)
  have off: "crypto_eth_ipv4_offset (p @ r) n = crypto_eth_ipv4_offset p n"
    by (auto simp: crypto_eth_ipv4_offset_def crypto_eth_inner_et_off_def Let_def et)
  have "x + 20 \<le> n" if "crypto_eth_ipv4_offset p n = Some x" for x
    using that by (auto simp: crypto_eth_ipv4_offset_def split: option.splits if_splits)
  then show ?thesis using assms by (auto simp: flow_proto_def off nth_append Let_def split: option.split)
qed

lemma ring_at_scratch [simp]:
  "ring_at ref (fwd (set_mem m s)) = ring_at ref (fwd s)" "ring_at ref (fwd (set_buf w b s)) = ring_at ref (fwd s)"
  "ring_at ref (fwd (set_aux w b s)) = ring_at ref (fwd s)"
  by (cases ref; simp add: set_mem_def set_buf_def set_aux_def)+

lemma store_scratch:
  "can_store n job (set_buf w b s) = can_store n job s" "can_store n job (set_aux w b s) = can_store n job s"
  "can_store n job (s\<lparr>l2 := c\<rparr>) = can_store n job s" "can_store n job (s\<lparr>g_tables := d\<rparr>) = can_store n job s"
  by (simp_all add: can_store_def)

section \<open>Sending\<close>

lemma send_frame:
  assumes "holds F [j1] s" "carries (dp_mem s) j1 wire" "length wire \<le> 9216"
    "has_room (MidToWan 0 (dp_out_ring_idx (rt s))) s" "dp_out_ring_idx (rt s) < NE_CRYPTO_WORKERS"
  shows "\<exists>s'. snd (snd (push_to_wan 0 j1 s)) = s' \<and> emits (MidToWan 0 (dp_out_ring_idx (rt s))) s s' wire"
proof -
  have "rings_ok (fwd s)" using assms(1) by (simp add: holds_def)
  then show ?thesis
    using push_emits [OF assms(4) _ assms(2,3), of "j1\<lparr>dir := NE_DIR_WAN, wan_idx := 0\<rparr>"] assms(5)
      linearize_relabel [of "j1\<lparr>dir := NE_DIR_WAN, wan_idx := 0\<rparr>" j1]
    by (auto simp: push_to_wan_def)
qed

definition clamped :: "bytes \<Rightarrow> bytes" where
  "clamped plain = snd (crypto_tcp_clamp_mss plain (length plain) L2_CRYPTO_MTU L2_CRYPTO_DATA_OVERHEAD)"

text \<open>The wire frame of a plain frame: the MAC addresses stay, everything behind them is sealed.\<close>

definition wire_of :: "'c dp_env \<Rightarrow> dp_state \<Rightarrow> bytes \<Rightarrow> bytes \<Rightarrow> bytes" where
  "wire_of env s nonce plain = data_wire (env_lib env) (ctx_key (crypto (fwd s))) (g_worker_idx (l2 s)) nonce (take 12 plain) (drop 12 plain)"

lemma length_wire_of:
  assumes "worker_ok env s" "length nonce = 12" "13 \<le> length plain"
  shows "length (wire_of env s nonce plain) = length plain + 31"
  using length_wires(1) [OF worker_okD(1) [OF assms(1)] ctx_okD(2) [OF worker_okD(2) [OF assms(1)]] assms(2), of "take 12 plain" "drop 12 plain"]
    assms(3) by (simp add: wire_of_def)

lemma encrypt_whole_emits:
  assumes "worker_ok env s" "holds F [job] s" "len job = n" "can_store (n + 31) job s" "27 \<le> n" "n \<le> 8983" "pr \<noteq> L2_PROTO_UDP"
    "length pkt = 9216" "known_et pkt"
  shows "\<exists>s' j' nonce. encrypt_whole env pr w job pkt s = (Done 0, (s', j')) \<and> holds F [j'] s' \<and> length nonce = 12 \<and>
    carries (dp_mem s') j' (wire_of env s nonce (take n pkt)) \<and> rt s' = rt s \<and> (\<forall>ref. ring_at ref (fwd s') = ring_at ref (fwd s))"
proof -
  note k = worker_okD [OF assms(1)]
  have room: "n + 31 \<le> length pkt" using assms(6,8) by simp
  obtain nonce p ls where e: "length nonce = 12"
    "l2_crypto_encrypt (env_os env) (env_lib env) pr (crypto (fwd s)) pkt n (l2 s) = (Done (p, n + 31), ls)"
    "take (n + 31) p = data_wire (env_lib env) (ctx_key (crypto (fwd s))) (g_worker_idx (l2 s)) nonce (take 12 pkt) (drop 12 (take n pkt))"
    using encrypt_data_wire [OF k(1-3) assms(7,5) room assms(9)] by blast
  have wire: "take (n + 31) p = wire_of env s nonce (take n pkt)" using e(3) assms(5) by (simp add: wire_of_def)
  have lp: "n + 31 \<le> length p" using encrypt_outcome(2) [OF k(1-3) _ e(2)] assms(6,8) by auto
  let ?s1 = "set_buf w p (s\<lparr>l2 := ls\<rparr>)"
  have h1: "holds F [job] ?s1" "can_store (n + 31) job ?s1" using assms(2,4) by (simp_all add: store_scratch)
  obtain m j where w: "ne_packet_write (dp_mem ?s1) job p (n + 31) = (Done True, m, j)" "carries m j (take (n + 31) p)"
    by (rule write_carries [OF h1, of p]) (use room assms(6) lp in auto)
  have "holds F [j] (set_mem m ?s1)" using holds_write [OF h1(1) _ w(1)] lp by auto
  moreover have "encrypt_whole env pr w job pkt s = (Done 0, (set_mem m ?s1, j))"
    using w(1) assms(3,6) e(2) by (simp add: encrypt_whole_def l2_sizes Let_def)
  ultimately show ?thesis using e(1) w(2) wire by (intro exI [of _ "set_mem m ?s1"] exI [of _ j] exI [of _ nonce]) simp
qed

lemma length_clamped [simp]: "length (clamped plain) = length plain"
  by (simp add: clamped_def)

definition sender_ready :: "'c dp_env \<Rightarrow> u64 multiset \<Rightarrow> ne_packet \<Rightarrow> dp_state \<Rightarrow> bytes \<Rightarrow> bool" where
  "sender_ready env F job s plain \<longleftrightarrow> worker_ok env s \<and> holds F [job] s \<and> carries (dp_mem s) job plain \<and>
     can_store (length plain + 31) job s \<and> fwd_wan_count (fwd s) = 1 \<and> has_room (MidToWan 0 (dp_out_ring_idx (rt s))) s"

lemma send_data:
  assumes ready: "sender_ready env F job s plain"
    and et: "eth_read_et plain 12 = ETH_P_IP" and n: "27 \<le> length plain" "length plain \<le> 8983"
    and proto: "flow_proto plain (length plain) \<noteq> IPPROTO_UDP"
  shows "\<exists>s' nonce. dataplane_process_local env job s = Done s' \<and> length nonce = 12 \<and>
    emits (MidToWan 0 (dp_out_ring_idx (rt s))) s s' (wire_of env s nonce (clamped plain))"
proof -
  note a = ready [unfolded sender_ready_def]
  have ok: "worker_ok env s" using a by simp
  define w where "w = nat (dp_crypto_current_worker_idx (rt s))"
  have wi: "\<not> (dp_crypto_current_worker_idx (rt s) < 0 \<or> int NE_CRYPTO_WORKERS \<le> dp_crypto_current_worker_idx (rt s))" "w < NE_CRYPTO_WORKERS"
    using ok by (auto simp: worker_ok_def w_def nat_less_iff)
  define r where "r = drop (length plain) (crypto_buf (fwd s) ! w)"
  have lb: "length (crypto_buf (fwd s) ! w) = 9216" by (rule worker_okD(6) [OF ok wi(2)])
  have ln: "ne_packet_linearize (dp_mem s) job (crypto_buf (fwd s) ! w) NE_JUMBO_FRAME_MAX = Done (plain @ r)" "len job = length plain"
    using a lb by (auto simp: carries_def r_def)
  let ?s1 = "set_buf w (plain @ r) s" and ?c = "clamped plain @ r"
  define pr where "pr = l2_crypto_classify (flow_proto (plain @ r) (length plain))"
  have pr: "pr \<noteq> L2_PROTO_UDP" "\<not> l2_crypto_need_split pr (length plain)"
    using n(2) proto flow_proto_append [of plain _ r]
    by (auto simp: pr_def l2_crypto_classify_def l2_crypto_need_split_def IPPROTO_UDP_def l2_sizes)
  have cl: "snd (crypto_tcp_clamp_mss (plain @ r) (length plain) L2_CRYPTO_MTU L2_CRYPTO_DATA_OVERHEAD) = ?c"
    using clamp_append [of plain _ r] by (simp add: clamped_def)
  have lr: "length ?c = 9216" using n(2) lb by (simp add: r_def)
  have w1: "worker_ok env (set_buf w ?c ?s1)"
    using worker_ok_updates(2) [OF worker_ok_updates(2) [OF ok]] lr by auto
  have et: "known_et ?c" using n(1) et by (simp add: eth_read_et_def nth_append clamped_def clamp_keeps)
  have h: "holds F [job] (set_buf w ?c ?s1)" "can_store (length plain + 31) job (set_buf w ?c ?s1)" using a by (simp_all add: store_scratch)
  obtain s2 j2 nonce where e: "encrypt_whole env pr w job ?c (set_buf w ?c ?s1) = (Done 0, (s2, j2))" "holds F [j2] s2" "length nonce = 12"
    "carries (dp_mem s2) j2 (wire_of env s nonce (clamped plain))" "rt s2 = rt s" "\<And>ref. ring_at ref (fwd s2) = ring_at ref (fwd s)"
    using encrypt_whole_emits [OF w1 h(1) ln(2) h(2) n pr(1) lr et, of w] by (auto simp: wire_of_def)
  have buf: "(crypto_buf (fwd s))[w := plain @ r] ! w = plain @ r" using ok wi(2) by (simp add: worker_ok_def bufs_ok_def)
  have enc: "encrypt_to_wan env 0 pr flow_ok job ?s1 = (Done 0, (s2, j2))" for flow_ok
    using wi(1) e(1) pr cl ln(2) buf by (simp add: encrypt_to_wan_def Let_def flip: w_def)
  have "length (wire_of env s nonce (clamped plain)) \<le> 9216" using length_wire_of [OF ok e(3)] n by simp
  then have "\<exists>s'. snd (snd (push_to_wan 0 j2 s2)) = s' \<and> emits (MidToWan 0 (dp_out_ring_idx (rt s))) s2 s' (wire_of env s nonce (clamped plain))"
    using send_frame [OF e(2,4)] e(5,6) a worker_okD(5) [OF ok] by (simp add: has_room_def)
  moreover have "dataplane_process_local env job s = Done (snd (snd (push_to_wan 0 j2 s2)))"
    using wi ln a enc by (simp add: dataplane_process_local_def Let_def flip: w_def pr_def)
  ultimately show ?thesis using e(3,6) by (auto simp: emits_def)
qed

section \<open>Receiving\<close>

lemma deliver_emits:
  assumes "worker_ok env s" "holds F [job] s" "can_store n job s" "0 < n" "n \<le> 9216" "n \<le> length b" "fwd_local_count (fwd s) = 1"
    "\<And>k. k < NE_CRYPTO_WORKERS \<Longrightarrow> has_room (MidToLocal 0 k) s"
  shows "\<exists>s' k. deliver_local w job b n s = Done s' \<and> k < NE_CRYPTO_WORKERS \<and> emits (MidToLocal 0 k) s s' (take n b)"
proof -
  obtain m j where wr: "ne_packet_write (dp_mem s) job b n = (Done True, m, j)" "carries m j (take n b)"
    by (rule write_carries [OF assms(2-6)])
  obtain txs rs where p: "dp_flow_pick_tx_slot b (len j) (int w) (rt s) = (txs, rs)" by force
  let ?s2 = "(set_mem m s)\<lparr>rt := dp_out_ring_bind (int txs) rs\<rparr>" and ?j = "j\<lparr>dir := NE_DIR_LOCAL, local_idx := 0\<rparr>"
  define k where "k = dp_out_ring_idx (dp_out_ring_bind (int txs) rs)"
  have kb: "k < NE_CRYPTO_WORKERS" unfolding k_def by (rule ring_bind_bound)
  have room: "has_room (MidToLocal 0 k) ?s2"
    using assms(8) [OF kb] unfolding has_room_def by (simp del: ring_at.simps)
  have ri: "rings_ok (fwd ?s2)" using assms(2) by (simp add: holds_def)
  have c: "carries (dp_mem ?s2) j (take n b)" using wr(2) by simp
  have ref: "ref_ok (MidToLocal 0 k)" using kb by simp
  obtain s' where s': "dp_ring_push (MidToLocal 0 k) ?j ?s2 = (True, ?j, s')" "emits (MidToLocal 0 k) ?s2 s' (take n b)"
    using push_emits [OF room ref c _ linearize_relabel [of ?j j] _ ri] assms(5,6) by auto
  have lc: "fwd_local_count (fwd ?s2) = 1" using assms(7) by (simp add: set_mem_def)
  have "forward_local j ?s2 = (True, ?j, s')" using s'(1) lc by (simp add: forward_local_def k_def)
  then have "deliver_local w job b n s = Done s'" by (simp add: deliver_local_def wr(1) p)
  moreover have "emits (MidToLocal 0 k) s s' (take n b)"
    using s'(2) unfolding emits_def by (simp del: ring_at.simps)
  ultimately show ?thesis using kb by blast
qed

definition receiver_ready :: "'c dp_env \<Rightarrow> u64 multiset \<Rightarrow> ne_packet \<Rightarrow> dp_state \<Rightarrow> bytes \<Rightarrow> bool" where
  "receiver_ready env F job s wire \<longleftrightarrow> worker_ok env s \<and> holds F [job] s \<and> carries (dp_mem s) job wire \<and>
     can_store (length wire - 31) job s \<and> fwd_local_count (fwd s) = 1 \<and> (\<forall>k<NE_CRYPTO_WORKERS. has_room (MidToLocal 0 k) s) \<and>
     mem_read wire 27 4 \<noteq> udp_mark"

lemma is_udp_wire_append:
  assumes "31 \<le> length wire" "mem_read wire 27 4 \<noteq> udp_mark"
  shows "\<not> is_udp_wire (wire @ post) (length wire)"
proof -
  have "mem_read (wire @ post) 27 4 = mem_read wire 27 4" using assms(1) by (simp add: mem_read_def)
  then show ?thesis
    using assms(2)
    by (auto simp: is_udp_wire_def crypto_eth_l2_frag_magic_off_def crypto_eth_l2_core_id_off_def crypto_eth_inner_et_off_def
        L2_NONCE_SIZE_def Let_def split: option.splits if_splits)
qed

lemma receive_data:
  assumes ready: "receiver_ready env F job s wire"
    and wire: "wire = data_wire (env_lib env) (ctx_key (crypto (fwd s))) worker nonce m body"
    and l: "length nonce = 12" "length m = 12" "15 \<le> length body" "length body \<le> 9000"
  shows "\<exists>s' k. dataplane_process_wan env job s = Done s' \<and> k < NE_CRYPTO_WORKERS \<and> emits (MidToLocal 0 k) s s' (m @ body)"
proof -
  note a = ready [unfolded receiver_ready_def]
  have ok: "worker_ok env s" using a by simp
  note k = worker_okD [OF ok]
  define w where "w = nat (dp_crypto_current_worker_idx (rt s))"
  have wi: "\<not> (dp_crypto_current_worker_idx (rt s) < 0 \<or> int NE_CRYPTO_WORKERS \<le> dp_crypto_current_worker_idx (rt s))" "w < NE_CRYPTO_WORKERS"
    using ok by (auto simp: worker_ok_def w_def nat_less_iff)
  have body: "body \<noteq> []" using l(3) by auto
  have lw: "length wire = length body + 43"
    using length_wires(1) [OF k(1) ctx_okD(2) [OF k(2)] l(1,2) body] by (simp add: wire)
  define r where "r = drop (length wire) (crypto_buf (fwd s) ! w)"
  have ln: "ne_packet_linearize (dp_mem s) job (crypto_buf (fwd s) ! w) NE_JUMBO_FRAME_MAX = Done (wire @ r)" "len job = length wire"
    using a k(6) [OF wi(2)] by (auto simp: carries_def r_def)
  have lp: "length (wire @ r) = 9216" using l(4) lw k(6) [OF wi(2)] by (simp add: r_def)
  let ?s1 = "set_buf w (wire @ r) s" and ?n = "12 + length body"
  obtain b ls where d: "l2_crypto_decrypt (env_lib env) L2_PROTO_DATA (crypto (fwd s)) (wire @ r) (length wire) (l2 s)
      = (Done (b, ?n), ls)" "take ?n b = m @ body"
    using decrypt_data_wire [OF k(1-3) _ l(1-3), of L2_PROTO_DATA worker r, folded wire lw] by auto
  have do: "trf_ok ls" "length b = 9216" using decrypt_outcome [OF k(1,3) _ d(1)] lp by auto
  let ?s2 = "set_buf w b (?s1\<lparr>l2 := ls\<rparr>)"
  have w2: "worker_ok env ?s2"
    by (intro worker_ok_updates(2) [OF worker_ok_updates(4) [OF worker_ok_updates(2) [OF ok lp] do(1)] do(2)])
  have h2: "holds F [job] ?s2" "can_store ?n job ?s2" "fwd_local_count (fwd ?s2) = 1"
    using a lw by (simp_all add: store_scratch add.commute) (simp add: set_buf_def)
  have room: "has_room (MidToLocal 0 k) ?s2" if "k < NE_CRYPTO_WORKERS" for k
    using a that unfolding has_room_def by (simp del: ring_at.simps)
  obtain s' i where e: "deliver_local w job b ?n ?s2 = Done s'" "i < NE_CRYPTO_WORKERS" "emits (MidToLocal 0 i) ?s2 s' (m @ body)"
    using deliver_emits [OF w2 h2(1,2) _ _ _ h2(3) room, of b w] l(4) do(2) d(2) by auto
  have "emits (MidToLocal 0 i) s s' (m @ body)" using e(3) unfolding emits_def by (simp del: ring_at.simps)
  moreover have "crypto_eth_l2_has_marker (wire @ r) (length wire)" using l lw by (simp add: wire data_wire_def l2_offsets)
  moreover have "\<not> is_udp_wire (wire @ r) (length wire)" using is_udp_wire_append [of wire r] a lw by simp
  ultimately show ?thesis
    using wi ln d(1) e(1,2)
    by (intro exI [of _ s'] exI [of _ i]) (simp add: dataplane_process_wan_def Let_def flip: w_def)
qed

section \<open>End to end\<close>

text \<open>C1: The tunnel end to end, for IPv4 frames that are not UDP and fit the MTU: a worker puts the encrypted frame
  into its WAN ring, and any worker of a peer with the same key that takes these wire bytes puts the
  original frame into a LAN ring, with only the MSS of a TCP SYN lowered. The peer's condition includes that
  the ciphertext does not happen to start with the UDP marker.\<close>
theorem tunnel_data_end_to_end:
  assumes "sender_ready env F job s plain" "eth_read_et plain 12 = ETH_P_IP" "27 \<le> length plain" "length plain \<le> 8983"
    "flow_proto plain (length plain) \<noteq> IPPROTO_UDP"
  shows "\<exists>s' nonce wire. dataplane_process_local env job s = Done s' \<and> emits (MidToWan 0 (dp_out_ring_idx (rt s))) s s' wire \<and>
    length nonce = 12 \<and> wire = wire_of env s nonce (clamped plain) \<and> length wire = length plain + 31 \<and>
    (\<forall>penv G pjob p. env_lib penv = env_lib env \<and> ctx_key (crypto (fwd p)) = ctx_key (crypto (fwd s)) \<and> receiver_ready penv G pjob p wire \<longrightarrow>
       (\<exists>p' k. dataplane_process_wan penv pjob p = Done p' \<and> k < NE_CRYPTO_WORKERS \<and> emits (MidToLocal 0 k) p p' (clamped plain)))"
proof -
  obtain s' nonce where s': "dataplane_process_local env job s = Done s'" "length nonce = 12"
    "emits (MidToWan 0 (dp_out_ring_idx (rt s))) s s' (wire_of env s nonce (clamped plain))"
    using send_data [OF assms] by blast
  let ?w = "wire_of env s nonce (clamped plain)"
  have "\<exists>p' k. dataplane_process_wan penv pjob p = Done p' \<and> k < NE_CRYPTO_WORKERS \<and> emits (MidToLocal 0 k) p p' (clamped plain)"
    if p: "env_lib penv = env_lib env" "ctx_key (crypto (fwd p)) = ctx_key (crypto (fwd s))" "receiver_ready penv G pjob p ?w"
    for penv :: "'a dp_env" and G pjob p
  proof -
    have "?w = data_wire (env_lib penv) (ctx_key (crypto (fwd p))) (g_worker_idx (l2 s)) nonce (take 12 (clamped plain)) (drop 12 (clamped plain))"
      using p(1,2) by (simp add: wire_of_def)
    from receive_data [OF p(3) this s'(2)] assms(3,4) show ?thesis by simp
  qed
  moreover have "worker_ok env s" using assms(1) by (simp add: sender_ready_def)
  then have "length ?w = length plain + 31" using length_wire_of [OF _ s'(2), of env s "clamped plain"] assms(3) by simp
  ultimately show ?thesis using s' by blast
qed

section \<open>A ping through the tunnel\<close>

definition ping :: bytes where "ping = replicate 12 2 @ [0x08, 0x00] @ [0x45] @ replicate 24 1"

lemma work_mem: "dp_mem (work_state bs) = \<lparr>bufs = bs @ replicate (12288 - length bs) 0, frame_size = 4096, pool = work_pool\<rparr>"
  by (simp add: dp_mem_def work_state_def)

lemma work_nsegs:
  assumes "0 < length bs" shows "packet_nsegs (work_job bs) = 1" "seg_room (work_job bs) 0 = length bs"
    "packet_seg_addr (work_job bs) 0 = 0"
  using assms by (simp_all add: packet_nsegs_def work_job_def zero_packet_def seg_room_def packet_seg_addr_def)

lemma work_carries:
  assumes "0 < length bs" "length bs \<le> 4096"
  shows "carries (dp_mem (work_state bs)) (work_job bs) bs" "can_store n (work_job bs) (work_state bs) \<longleftrightarrow> n \<le> length bs + 8192"
    "ref_ok ref \<Longrightarrow> has_room ref (work_state bs)"
proof -
  have u: "unat (4096 :: u64) = 4096" "unat (8192 :: u64) = 8192" by simp_all
  have "ne_packet_linearize (dp_mem (work_state bs)) (work_job bs) dst 9216 = Done (bs @ drop (length bs) dst)" if "length dst = 9216" for dst
    using assms that
    by (simp add: ne_packet_linearize_def work_mem NE_PACKET_MAX_SEGS_def mem_copy_def mem_write_def mem_read_def)
      (simp add: work_job_def zero_packet_def packet_seg_addr_def mem_copy_def mem_write_def mem_read_def Let_def)
  then show "carries (dp_mem (work_state bs)) (work_job bs) bs"
    by (simp add: carries_def NE_JUMBO_FRAME_MAX_def) (simp add: work_job_def)
  have "spans (dp_mem (work_state bs)) (work_job bs) = [(0, length bs), (4096, 4096), (8192, 4096)]"
    using assms work_pool_ok(2) u by (simp add: spans_def seg_span_def work_nsegs work_mem del: unsigned_numeral)
  then show "can_store n (work_job bs) (work_state bs) \<longleftrightarrow> n \<le> length bs + 8192"
    using assms work_pool_ok(2)
    by (simp add: can_store_def spans_ok_def away_def packet_capacity_def work_nsegs work_mem)
  show "has_room ref (work_state bs)" if "ref_ok ref"
    using that work_ring_ok by (cases ref) (simp_all add: has_room_def work_state_def, simp_all add: work_ring_def)
qed

lemma ping_facts:
  "length ping = 39" "eth_read_et ping 12 = ETH_P_IP" "flow_proto ping (length ping) \<noteq> IPPROTO_UDP"
  by (simp_all add: ping_def eth_read_et_def eth_consts flow_proto_def crypto_eth_ipv4_offset_def crypto_eth_inner_et_off_def
      eth_match_et_def IPPROTO_UDP_def nth_append)

lemma ping_unmarked:
  assumes "length nonce = 12" shows "mem_read (wire_of work_env (work_state ping) nonce (clamped ping)) 27 4 \<noteq> udp_mark"
proof
  let ?w = "wire_of work_env (work_state ping) nonce (clamped ping)"
  have l: "length (clamped ping) = 39" by (simp add: ping_facts)
  assume "mem_read ?w 27 4 = udp_mark"
  moreover have "mem_read ?w 27 4 ! 0 = ?w ! 27"
    using length_wire_of [OF work_env_ok assms, of "clamped ping" ping] l by (simp add: mem_read_def)
  moreover have "?w ! 27 = clamped ping ! 12 + 1"
    using assms l by (simp add: wire_of_def data_wire_def sealed_def work_env_def demo_seal nth_append)
  moreover have "clamped ping ! 12 = 8" by (simp add: clamped_def clamp_keeps) (simp add: ping_def nth_append)
  ultimately show False by (simp add: udp_mark_def)
qed

theorem tunnel_data_end_to_end_witness:
  "\<exists>s' wire p' k. dataplane_process_local work_env (work_job ping) (work_state ping) = Done s' \<and> length wire = 70 \<and>
     dataplane_process_wan work_env (work_job wire) (work_state wire) = Done p' \<and>
     emits (MidToLocal 0 k) (work_state wire) p' (clamped ping)"
proof -
  have l: "0 < length ping" "length ping \<le> 4096" by (simp_all add: ping_facts)
  have ready: "sender_ready work_env {#0, 4096, 8192#} (work_job ping) (work_state ping) ping"
    using work_env_ok work_state_holds [OF l] work_carries [OF l]
    by (simp add: sender_ready_def ping_facts dp_out_ring_idx_def) (simp add: work_state_def)
  have n: "27 \<le> length ping" "length ping \<le> 8983" by (simp_all add: ping_facts)
  obtain s' nonce wire where w: "dataplane_process_local work_env (work_job ping) (work_state ping) = Done s'"
    "length nonce = 12" "wire = wire_of work_env (work_state ping) nonce (clamped ping)" "length wire = length ping + 31"
    "\<forall>penv G pjob p. env_lib penv = env_lib work_env \<and> ctx_key (crypto (fwd p)) = ctx_key (crypto (fwd (work_state ping))) \<and>
       receiver_ready penv G pjob p wire \<longrightarrow>
       (\<exists>p' k. dataplane_process_wan penv pjob p = Done p' \<and> k < NE_CRYPTO_WORKERS \<and> emits (MidToLocal 0 k) p p' (clamped ping))"
    using tunnel_data_end_to_end [OF ready ping_facts(2) n ping_facts(3)] by blast
  have lw: "0 < length wire" "length wire \<le> 4096" using w(4) by (simp_all add: ping_facts)
  have "receiver_ready work_env {#0, 4096, 8192#} (work_job wire) (work_state wire) wire"
    using work_env_ok work_state_holds [OF lw] work_carries [OF lw] ping_unmarked [OF w(2)]
    by (simp add: receiver_ready_def w(3)) (simp add: work_state_def)
  moreover have "ctx_key (crypto (fwd (work_state wire))) = ctx_key (crypto (fwd (work_state ping)))" by (simp add: work_state_def)
  ultimately obtain p' k where "dataplane_process_wan work_env (work_job wire) (work_state wire) = Done p'"
    "emits (MidToLocal 0 k) (work_state wire) p' (clamped ping)" using w(5) by blast
  moreover have "length wire = 70" using w(4) by (simp add: ping_facts)
  ultimately show ?thesis using w(1) by blast
qed

end
