(* ===== verification/Forwarder.thy ===== *)
theory Forwarder
  imports Dataplane_E2E
begin

text \<open>
  The dataplane threads of \<^verbatim>\<open>src/core/forwarder/forwarder.c\<close>: the LAN and WAN receive threads, the crypto
  workers and the transmit threads. The body of each loop is one function on the thread's view of the state;
  a thread is the iteration of its body over the list of the environments it meets, one per round in which it
  read \<^verbatim>\<open>running\<close> as true. Pinning to a CPU, the warnings and the kernel wake-ups have no effect on the state.
\<close>

section \<open>Shared steps\<close>

definition on_pair :: "(ne_pair_io \<Rightarrow> ne_pair_io) \<Rightarrow> dp_state \<Rightarrow> dp_state" where
  "on_pair f s = s\<lparr>fwd := (fwd s)\<lparr>pair := f (pair (fwd s))\<rparr>\<rparr>"

text \<open>What the operating system tells a thread in one round: the value of \<^verbatim>\<open>NE_DP_BUSY_POLL\<close>, the results of
  \<^verbatim>\<open>eventfd\<close>, and the clock readings of \<^verbatim>\<open>now_ns\<close> and \<^verbatim>\<open>core_now_ns\<close>.\<close>

record round_env =
  re_busy :: "string option"
  re_efd :: "nat \<Rightarrow> int"
  re_idle_now :: u64
  re_core_now :: u64

text \<open>The bytes at \<^verbatim>\<open>ne_packet_data(pair, addr)\<close>.\<close>

definition packet_bytes :: "ne_packet \<Rightarrow> dp_state \<Rightarrow> bytes" where
  "packet_bytes pkt s = drop (unat (addr pkt)) (bufs (dp_mem s))"

definition dp_burst_refill_local :: "nat \<Rightarrow> dp_state \<Rightarrow> dp_state" where
  "dp_burst_refill_local rx_slot = on_pair (ne_refill_fq_local_slot rx_slot)"

definition dp_burst_refill_wan :: "nat \<Rightarrow> dp_state \<Rightarrow> dp_state" where
  "dp_burst_refill_wan rx_slot = on_pair (ne_refill_fq_wan_slot rx_slot)"

section \<open>Receive threads\<close>

text \<open>Hand a packet to the worker's input ring, or return its frames to the pool when the ring is full.\<close>

definition push_local_to_mid :: "nat \<Rightarrow> ne_packet \<Rightarrow> dp_state \<Rightarrow> dp_state" where
  "push_local_to_mid wi pkt s =
     (case ne_ring_try_push (local_to_mid (fwd s) ! wi) pkt of
        None \<Rightarrow> dp_free pkt s
      | Some r \<Rightarrow> s\<lparr>fwd := (fwd s)\<lparr>local_to_mid := (local_to_mid (fwd s))[wi := r]\<rparr>,
                    idle := ne_dp_idle_wake (NE_DP_WAKE_CRYPTO wi) (idle s)\<rparr>)"

definition push_wan_to_mid :: "nat \<Rightarrow> ne_packet \<Rightarrow> dp_state \<Rightarrow> dp_state" where
  "push_wan_to_mid wi pkt s =
     (case ne_ring_try_push (wan_to_mid (fwd s) ! wi) pkt of
        None \<Rightarrow> dp_free pkt s
      | Some r \<Rightarrow> s\<lparr>fwd := (fwd s)\<lparr>wan_to_mid := (wan_to_mid (fwd s))[wi := r]\<rparr>,
                    idle := ne_dp_idle_wake (NE_DP_WAKE_CRYPTO wi) (idle s)\<rparr>)"

definition local_rx_packet :: "'c dp_env \<Rightarrow> ne_packet \<Rightarrow> dp_state \<Rightarrow> dp_state cres" where
  "local_rx_packet env job s =
     (let pkt = packet_bytes job s;
          li = (if local_idx job < fwd_local_count (fwd s) then local_idx job else 0) in
      if dataplane_local_needs_mid pkt (len job) li then
        let ((wi, txs), rs) = dp_crypto_pick_local_worker pkt (len job) (rt s)
        in Done (push_local_to_mid wi (ne_packet.tx_slot_update (\<lambda>_. txs mod 256) job) (s\<lparr>rt := rs\<rparr>))
      else dataplane_process_local env job
             (s\<lparr>rt := dp_out_ring_bind (int (dp_pick_tx_slot pkt (len job) (rt s))) (rt s)\<rparr>))"

definition wan_rx_packet :: "'c dp_env \<Rightarrow> ne_packet \<Rightarrow> dp_state \<Rightarrow> dp_state cres" where
  "wan_rx_packet env job s =
     (let pkt = packet_bytes job s in
      if dataplane_wan_needs_mid pkt (len job) then
        (case dp_crypto_pick_wan_worker True pkt (len job) of
           None \<Rightarrow> Done (dp_free job s)
         | Some wi \<Rightarrow> Done (if NE_CRYPTO_WORKERS \<le> wi then dp_free job s else push_wan_to_mid wi job s))
      else dataplane_process_wan env job
             (s\<lparr>rt := dp_out_ring_bind (int (dp_pick_tx_slot pkt (len job) (rt s))) (rt s)\<rparr>))"

fun rx_packets :: "(ne_packet \<Rightarrow> dp_state \<Rightarrow> dp_state cres) \<Rightarrow> ne_packet list \<Rightarrow> dp_state \<Rightarrow> dp_state cres" where
  "rx_packets f [] s = Done s"
| "rx_packets f (job # rest) s = cbind (f job s) (rx_packets f rest)"

text \<open>The idle branch of a receive thread: there is no wake-up number, the thread polls its sockets.\<close>

definition rx_idle :: "round_env \<Rightarrow> ne_dp_idle \<Rightarrow> dp_state \<Rightarrow> ne_dp_idle \<times> dp_state" where
  "rx_idle re st s =
     (case ne_dp_idle_arm (re_busy re) (re_efd re) (re_idle_now re) (- 1) st (idle s) of
        (act, st1, g1) \<Rightarrow>
          (st1, s\<lparr>idle := (if act = IdleCold then ne_dp_idle_poll (re_busy re) (re_efd re) (- 1) g1 else g1)\<rparr>))"

definition local_rx_round ::
  "'c dp_env \<Rightarrow> round_env \<Rightarrow> nat \<Rightarrow> ne_dp_idle \<times> dp_state \<Rightarrow> (ne_dp_idle \<times> dp_state) cres" where
  "local_rx_round env re rx_slot = (\<lambda>(st, s).
     let s1 = dp_burst_refill_local rx_slot s;
         (batch, p) = ne_recv_local_slot rx_slot NE_BATCH_SIZE (pair (fwd s1));
         s2 = on_pair (\<lambda>_. p) s1 in
     if batch = [] then Done (rx_idle re st s2)
     else cbind (rx_packets (local_rx_packet env) batch s2) (\<lambda>s3.
       Done (ne_dp_idle_note_work st, on_pair (ne_recv_release_local_slot rx_slot) s3)))"

definition wan_rx_round ::
  "'c dp_env \<Rightarrow> round_env \<Rightarrow> nat \<Rightarrow> ne_dp_idle \<times> dp_state \<Rightarrow> (ne_dp_idle \<times> dp_state) cres" where
  "wan_rx_round env re rx_slot = (\<lambda>(st, s).
     let s1 = dp_burst_refill_wan rx_slot s;
         (batch, p) = ne_recv_wan_slot rx_slot NE_BATCH_SIZE (pair (fwd s1));
         s2 = on_pair (\<lambda>_. p) s1 in
     if batch = [] then Done (rx_idle re st s2)
     else cbind (rx_packets (wan_rx_packet env) batch s2) (\<lambda>s3.
       Done (ne_dp_idle_note_work st, on_pair (ne_recv_release_wan_slot rx_slot) s3)))"

section \<open>Crypto workers\<close>

definition crypto_idle_pause :: "round_env \<Rightarrow> nat \<Rightarrow> ne_dp_idle \<Rightarrow> dp_state \<Rightarrow> ne_dp_idle \<times> dp_state" where
  "crypto_idle_pause re w st s =
     (let wake_id = NE_DP_WAKE_CRYPTO w in
      case ne_dp_idle_arm (re_busy re) (re_efd re) (re_idle_now re) wake_id st (idle s) of
        (act, st1, g1) \<Rightarrow>
          if act = IdleCold then
            if ne_ring_count (local_to_mid (fwd s) ! w) \<noteq> 0 \<or> ne_ring_count (wan_to_mid (fwd s) ! w) \<noteq> 0
            then (ne_dp_idle_note_work st1, s\<lparr>idle := ne_dp_idle_disarm wake_id g1\<rparr>)
            else (st1, s\<lparr>idle := ne_dp_idle_poll (re_busy re) (re_efd re) wake_id g1\<rparr>)
          else (st1, s\<lparr>idle := g1\<rparr>))"

text \<open>The two dequeue steps of a worker; the flag is the local \<^verbatim>\<open>did_work\<close>.\<close>

definition worker_take_wan :: "'c dp_env \<Rightarrow> nat \<Rightarrow> dp_state \<Rightarrow> (bool \<times> dp_state) cres" where
  "worker_take_wan env w s =
     (case ne_ring_try_pop (wan_to_mid (fwd s) ! w) of
        None \<Rightarrow> Done (False, s)
      | Some (job, r) \<Rightarrow>
          cbind (dataplane_process_wan env job (s\<lparr>fwd := (fwd s)\<lparr>wan_to_mid := (wan_to_mid (fwd s))[w := r]\<rparr>\<rparr>))
            (\<lambda>s1. Done (True, s1)))"

definition worker_take_local :: "'c dp_env \<Rightarrow> nat \<Rightarrow> dp_state \<Rightarrow> (bool \<times> dp_state) cres" where
  "worker_take_local env w s =
     (case ne_ring_try_pop (local_to_mid (fwd s) ! w) of
        None \<Rightarrow> Done (False, s)
      | Some (job, r) \<Rightarrow>
          cbind (dataplane_process_local env job
              (s\<lparr>fwd := (fwd s)\<lparr>local_to_mid := (local_to_mid (fwd s))[w := r]\<rparr>,
                 rt := dp_out_ring_bind (int (ne_packet.tx_slot job)) (rt s)\<rparr>))
            (\<lambda>s1. Done (True, s1)))"

record worker_local =
  gc_tick :: u32
  w_idle :: ne_dp_idle

definition crypto_worker_round ::
  "'c dp_env \<Rightarrow> round_env \<Rightarrow> nat \<Rightarrow> worker_local \<times> dp_state \<Rightarrow> (worker_local \<times> dp_state) cres" where
  "crypto_worker_round env re w = (\<lambda>(wl, s).
     cbind (worker_take_wan env w s) (\<lambda>(d1, s1).
     cbind (worker_take_local env w s1) (\<lambda>(d2, s2).
       let tick = gc_tick wl + 1;
           (tick1, s3) = (if 2048 \<le> tick
              then (0, s2\<lparr>g_tables := l2_crypto_frag_gc (int w) (re_core_now re) (g_tables s2)\<rparr>) else (tick, s2));
           (st, s4) = (if d1 \<or> d2 then (ne_dp_idle_note_work (w_idle wl), s3) else crypto_idle_pause re w (w_idle wl) s3)
       in Done (\<lparr>gc_tick = tick1, w_idle = st\<rparr>, s4))))"

fun rounds :: "('e \<Rightarrow> 'x \<Rightarrow> 'x cres) \<Rightarrow> 'e list \<Rightarrow> 'x \<Rightarrow> 'x cres" where
  "rounds f [] x = Done x"
| "rounds f (e # es) x = cbind (f e x) (rounds f es)"

definition crypto_worker_thread :: "('c dp_env \<times> round_env) list \<Rightarrow> nat \<Rightarrow> dp_state \<Rightarrow> (worker_local \<times> dp_state) cres" where
  "crypto_worker_thread es w s =
     rounds (\<lambda>(env, re). crypto_worker_round env re w) es
       (\<lparr>gc_tick = 0, w_idle = \<lparr>idle_start_ns = 0\<rparr>\<rparr>,
        s\<lparr>rt := dp_crypto_worker_bind (int w) (rt s), l2 := l2_crypto_bind_worker (of_nat w) (l2 s)\<rparr>)"

definition local_rx_thread :: "('c dp_env \<times> round_env) list \<Rightarrow> nat \<Rightarrow> dp_state \<Rightarrow> (ne_dp_idle \<times> dp_state) cres" where
  "local_rx_thread es rx_slot s = rounds (\<lambda>(env, re). local_rx_round env re rx_slot) es (\<lparr>idle_start_ns = 0\<rparr>, s)"

definition wan_rx_thread :: "('c dp_env \<times> round_env) list \<Rightarrow> nat \<Rightarrow> dp_state \<Rightarrow> (ne_dp_idle \<times> dp_state) cres" where
  "wan_rx_thread es rx_slot s = rounds (\<lambda>(env, re). wan_rx_round env re rx_slot) es (\<lparr>idle_start_ns = 0\<rparr>, s)"

section \<open>Transmit threads\<close>

definition DP_TX_BURST_MAX :: nat where "DP_TX_BURST_MAX = 8"

text \<open>The rings a transmit slot drains, as indices: its own one.\<close>

definition tx_collect_worker_rings :: "int \<Rightarrow> int \<Rightarrow> nat list" where
  "tx_collect_worker_rings txs nslots =
     (let n = (if nslots < 1 then 1 else nslots) in if txs < 0 \<or> n \<le> txs then [] else [nat txs])"

definition tx_slot_has_pending :: "nat \<Rightarrow> forwarder \<Rightarrow> bool" where
  "tx_slot_has_pending txs f \<longleftrightarrow> txs < NE_TX_SLOTS \<and>
     (list_ex (\<lambda>li. ne_ring_count (mid_to_local f ! li ! txs) \<noteq> 0) [0..<fwd_local_count f] \<or>
      list_ex (\<lambda>wi. ne_ring_count (mid_to_wan f ! wi ! txs) \<noteq> 0) [0..<fwd_wan_count f])"

text \<open>The queue counts of the live interfaces, LAN side first.\<close>

definition live_queue_counts :: "forwarder \<Rightarrow> nat list" where
  "live_queue_counts f =
     (let io = pair f in
      map (\<lambda>i. queue_count (locals io ! i)) (filter ((!) (local_live io)) [0..<fwd_local_count f]) @
      map (\<lambda>i. queue_count (wans io ! i)) (filter ((!) (wan_live io)) [0..<fwd_wan_count f]))"

definition forwarder_active_tx_slots :: "forwarder \<Rightarrow> nat" where
  "forwarder_active_tx_slots f =
     (let counts = live_queue_counts f;
          n = fold (\<lambda>q n. if q < n then q else n) counts NE_TX_SLOTS
      in if counts \<noteq> [] \<and> 0 < n then n else 1)"

text \<open>The burst loop; \<open>k\<close> counts the bursts left, \<open>drain\<close> is \<^verbatim>\<open>ne_tx_drain_local_all\<close> or \<^verbatim>\<open>ne_tx_drain_wan_all\<close>.\<close>

fun burst_loop :: "nat \<Rightarrow> (ne_pair_io \<Rightarrow> ne_packet ne_ring list \<Rightarrow> u32 \<Rightarrow> nat \<times> ne_pair_io \<times> ne_packet ne_ring list \<times> u32)
    \<Rightarrow> nat \<Rightarrow> ne_pair_io \<Rightarrow> ne_packet ne_ring list \<Rightarrow> u32 \<Rightarrow> nat \<times> ne_pair_io \<times> ne_packet ne_ring list \<times> u32" where
  "burst_loop 0 drain n p rings rr = (n, p, rings, rr)"
| "burst_loop (Suc k) drain n p rings rr =
     (case drain p rings rr of (sent, p1, rings1, rr1) \<Rightarrow>
        if sent = 0 then (n, p1, rings1, rr1) else burst_loop k drain (n + sent) p1 rings1 rr1)"

definition dp_burst_tx_local :: "nat \<Rightarrow> nat \<Rightarrow> u32 \<times> dp_state \<Rightarrow> nat \<times> u32 \<times> dp_state" where
  "dp_burst_tx_local li txs = (\<lambda>(rr, s).
     let f = fwd s in
     if \<not> ne_pair_local_live (pair f) li then (0, rr, s)
     else case tx_collect_worker_rings (int txs) (int NE_TX_SLOTS) of
       [] \<Rightarrow> (0, rr, s)
     | k # _ \<Rightarrow>
         (case burst_loop DP_TX_BURST_MAX (\<lambda>p rings rr. ne_tx_drain_local_all p rings li txs rr) 0 (pair f)
                 [ring_at (MidToLocal li k) f] rr of
            (n, p, rings, rr1) \<Rightarrow> (n, rr1, s\<lparr>fwd := ring_put (MidToLocal li k) (hd rings) (f\<lparr>pair := p\<rparr>)\<rparr>)))"

definition dp_burst_tx_wan :: "nat \<Rightarrow> nat \<Rightarrow> u32 \<times> dp_state \<Rightarrow> nat \<times> u32 \<times> dp_state" where
  "dp_burst_tx_wan wi txs = (\<lambda>(rr, s).
     let f = fwd s in
     if \<not> ne_pair_wan_live (pair f) wi then (0, rr, s)
     else case tx_collect_worker_rings (int txs) (int NE_TX_SLOTS) of
       [] \<Rightarrow> (0, rr, s)
     | k # _ \<Rightarrow>
         (case burst_loop DP_TX_BURST_MAX (\<lambda>p rings rr. ne_tx_drain_wan_all p rings wi txs rr) 0 (pair f)
                 [ring_at (MidToWan wi k) f] rr of
            (n, p, rings, rr1) \<Rightarrow> (n, rr1, s\<lparr>fwd := ring_put (MidToWan wi k) (hd rings) (f\<lparr>pair := p\<rparr>)\<rparr>)))"

text \<open>The thread's local state: its round-robin cursor and its idle record.\<close>

record tx_local =
  tx_rr :: u32
  tx_idle :: ne_dp_idle

definition tx_idle_pause :: "round_env \<Rightarrow> nat \<Rightarrow> ne_dp_idle \<Rightarrow> dp_state \<Rightarrow> ne_dp_idle \<times> dp_state" where
  "tx_idle_pause re txs st s =
     (let wake_id = NE_DP_WAKE_TX txs in
      case ne_dp_idle_arm (re_busy re) (re_efd re) (re_idle_now re) wake_id st (idle s) of
        (act, st1, g1) \<Rightarrow>
          if act = IdleCold then
            if tx_slot_has_pending txs (fwd s)
            then (ne_dp_idle_note_work st1, s\<lparr>idle := ne_dp_idle_disarm wake_id g1\<rparr>)
            else (st1, s\<lparr>idle := ne_dp_idle_poll (re_busy re) (re_efd re) wake_id g1\<rparr>)
          else (st1, s\<lparr>idle := g1\<rparr>))"

definition tx_round :: "round_env \<Rightarrow> nat \<Rightarrow> tx_local \<times> dp_state \<Rightarrow> tx_local \<times> dp_state" where
  "tx_round re txs = (\<lambda>(tl, s).
     let s1 = on_pair (ne_drain_cq_wan txs) (on_pair (ne_drain_cq_local txs) s);
         acc = (\<lambda>burst i (d, rr, s). case burst i txs (rr, s) of (n, rr1, s1) \<Rightarrow> (d + n, rr1, s1));
         (d1, rr1, s2) = fold (acc dp_burst_tx_local) [0..<fwd_local_count (fwd s1)] (0, tx_rr tl, s1);
         (d2, rr2, s3) = fold (acc dp_burst_tx_wan) [0..<fwd_wan_count (fwd s1)] (d1, rr1, s2);
         (st, s4) = (if d2 \<noteq> 0 then (ne_dp_idle_note_work (tx_idle tl), s3) else tx_idle_pause re txs (tx_idle tl) s3)
     in (\<lparr>tx_rr = rr2, tx_idle = st\<rparr>, s4))"

definition tx_thread :: "round_env list \<Rightarrow> nat \<Rightarrow> dp_state \<Rightarrow> tx_local \<times> dp_state" where
  "tx_thread es txs s = fold (\<lambda>re. tx_round re txs) es (\<lparr>tx_rr = 0, tx_idle = \<lparr>idle_start_ns = 0\<rparr>\<rparr>, s)"

end
