(* ===== verification/Sock_View.thy ===== *)
theory Sock_View
  imports Forwarder
begin

text \<open>
  The dataplane never touches sockets: \<open>sock_view p\<close> is everything of the pair that closing looks at (queue counts, sockets, interface counts), and
  every round of every thread leaves it as it is. So the books kept by set-up stay balanced while the threads run.
\<close>

definition iface_view :: "ne_iface \<Rightarrow> nat \<times> int option list" where
  "iface_view f = (queue_count f, map xsk (queues f))"

definition sock_view :: "ne_pair_io \<Rightarrow> (nat \<times> int option list) list \<times> (nat \<times> int option list) list \<times> nat \<times> nat" where
  "sock_view p = (map iface_view (locals p), map iface_view (wans p), local_count p, wan_count p)"

section \<open>One queue\<close>

lemma recv_add_xsk [simp]: "xsk (recv_add d slot) = xsk slot"
  by (simp add: recv_add_def reject_addr_def)

lemma refill_xsk [simp]: "xsk (fst (refill_op slot pl)) = xsk slot"
  by (simp add: refill_op_def refill_fq_queue_def Let_def split: prod.split bool.split)

lemma release_xsk [simp]: "xsk (fst (release_rx_queue slot pl)) = xsk slot"
  by (simp add: release_rx_queue_def Let_def split: prod.split)

lemma drain_cq_xsk [simp]: "xsk (fst (drain_cq_queue slot pl)) = xsk slot"
  by (simp add: drain_cq_queue_def Let_def split: prod.split)

lemma tx_drain_xsk [simp]: "xsk (tx_queue (tx_drain_queue slot src pl mf)) = xsk slot"
  by (simp add: tx_drain_queue_def Let_def split: prod.split)

lemma recv_desc_xsk: "xsk (fst (recv_desc mx pd wi li d st)) = xsk (fst st)"
proof -
  have "xsk (fold reject_addr as slot) = xsk slot" for as slot by (induction as arbitrary: slot) (auto simp: reject_addr_def)
  then show ?thesis by (cases st) (simp add: recv_desc_def drop_chain_def Let_def)
qed

lemma recv_queue_xsk [simp]: "xsk (snd (recv_queue slot mx pd wi li)) = xsk slot"
proof -
  have "xsk (fst (fold (recv_desc mx pd wi li) ds st)) = xsk (fst st)" for ds st
    by (induction ds arbitrary: st) (simp_all add: recv_desc_xsk)
  from this [of _ "(slot\<lparr>q_rx := r\<rparr>, [])" for r] show ?thesis by (auto simp: recv_queue_def Let_def split: prod.split) (metis fst_conv)
qed

section \<open>Loops\<close>

lemma map_put: "g y = g (xs ! i) \<Longrightarrow> map g (xs[i := y]) = map g xs"
  by (metis list_update_id map_update)

locale view_keeper =
  fixes f :: "'x \<Rightarrow> 'p \<Rightarrow> 'x \<times> 'p" and view :: "'x \<Rightarrow> 'v"
  assumes keep: "view (fst (f x pl)) = view x"
begin

lemma loop_keep: "map view (fst (fold (list_step sel f) is (xs, pl))) = map view xs"
proof (induction "is" arbitrary: xs pl)
  case (Cons i "is")
  obtain ys m where s: "list_step sel f i (xs, pl) = (ys, m)" by force
  have "map view ys = map view xs" using s keep [of "xs ! i" pl] map_put [of view _ xs i] by (auto simp: list_step_def split_beta split: if_splits)
  then show ?case using Cons.IH [of ys m] s by simp
qed simp

end

text \<open>A queue operation that keeps the socket keeps the view of an interface, and that of a side.\<close>

locale sock_keeper = view_keeper f xsk for f :: queue_op
begin

lemma for_queues_view: "iface_view (fst (for_queues sel f iface pl)) = iface_view iface"
  using loop_keep [of sel "[0..<queue_count iface]" "queues iface" pl] by (simp add: for_queues_def iface_view_def split_beta)

end

sublocale sock_keeper \<subseteq> iface: view_keeper "\<lambda>iface. for_queues (sel iface) f iface" iface_view for sel
  by unfold_locales (rule for_queues_view)

interpretation refill_keeps: sock_keeper refill_op by unfold_locales simp
interpretation release_keeps: sock_keeper release_rx_queue by unfold_locales simp
interpretation drain_keeps: sock_keeper drain_cq_queue by unfold_locales simp

lemma on_side_view:
  assumes "view_keeper g iface_view"
  shows "sock_view (on_locals lv g p) = sock_view p" "sock_view (on_wans lv g p) = sock_view p"
  using view_keeper.loop_keep [OF assms, of lv] by (simp_all add: on_locals_def on_wans_def sock_view_def split_beta)

lemma housekeeping_view [simp]:
  "sock_view (ne_refill_fq_local_slot k p) = sock_view p" "sock_view (ne_refill_fq_wan_slot k p) = sock_view p"
  "sock_view (ne_recv_release_local_slot k p) = sock_view p" "sock_view (ne_recv_release_wan_slot k p) = sock_view p"
  "sock_view (ne_drain_cq_local k p) = sock_view p" "sock_view (ne_drain_cq_wan k p) = sock_view p"
  unfolding ne_refill_fq_local_slot_def ne_refill_fq_wan_slot_def ne_recv_release_local_slot_def ne_recv_release_wan_slot_def
    ne_drain_cq_local_def ne_drain_cq_wan_def refill_fq_iface_slot_def drain_cq_iface_slot_def
  using on_side_view [OF refill_keeps.iface.view_keeper_axioms] on_side_view [OF release_keeps.iface.view_keeper_axioms]
    on_side_view [OF drain_keeps.iface.view_keeper_axioms] by simp_all

lemma recv_step_view: "iface_view (fst (recv_step sel mx pd wi li q st)) = iface_view (fst st)"
proof -
  have "xsk (snd (recv_queue ((queues f ! q)\<lparr>rx_pending := 0\<rparr>) n pd wi li)) = xsk (queues f ! q)" for f n by simp
  then show ?thesis by (cases st) (simp add: recv_step_def iface_view_def split_beta Let_def map_put)
qed

lemma recv_steps_view: "iface_view (fst (fold (recv_step sel mx pd wi li) qs st)) = iface_view (fst st)"
  by (induction qs arbitrary: st) (simp_all add: recv_step_view)

lemma recv_view [simp]:
  "sock_view (snd (ne_recv_local_slot k mx p)) = sock_view p" "sock_view (snd (ne_recv_wan_slot k mx p)) = sock_view p"
proof -
  have f: "map iface_view (fst (fold h is st)) = map iface_view (fst st)"
    if "\<And>i st. map iface_view (fst (h i st)) = map iface_view (fst st)" for h :: "nat \<Rightarrow> ne_iface list \<times> ne_packet list \<Rightarrow> _" and "is" st
    using that by (induction "is" arbitrary: st) auto
  show "sock_view (snd (ne_recv_local_slot k mx p)) = sock_view p"
    unfolding ne_recv_local_slot_def Let_def
    by (simp add: sock_view_def split_beta) (subst f; simp add: split_beta recv_steps_view map_put)
  show "sock_view (snd (ne_recv_wan_slot k mx p)) = sock_view p"
    unfolding ne_recv_wan_slot_def Let_def
    by (simp add: sock_view_def split_beta) (subst f; simp add: split_beta recv_steps_view map_put)
qed

end
