(* ===== verification/Forwarder_Safe.thy ===== *)
theory Forwarder_Safe
  imports Sock_View
begin

text \<open>
  Frame ownership over whole thread rounds. \<open>owns F js s\<close> extends the ownership invariant of the packet path
  by the rings between the receive threads and the workers: the frames in the pool, in all rings
  and in the hands of the thread are together \<open>F\<close>, and every packet waiting for a worker is well formed.
\<close>

section \<open>What the packet path leaves alone\<close>

definition dims :: "ne_pair \<Rightarrow> nat \<times> nat \<times> u32" where
  "dims p = (frame_size p, length (bufs p), pl_cap (pool p))"

definition pair_view :: "dp_state \<Rightarrow> (nat \<times> int option list) list \<times> (nat \<times> int option list) list \<times> nat \<times> nat" where
  "pair_view s = sock_view (pair (fwd s))"

lemma pair_view_updates [simp]:
  "pair_view (set_buf w b s) = pair_view s" "pair_view (set_aux w b s) = pair_view s" "pair_view (s\<lparr>rt := a\<rparr>) = pair_view s"
  "pair_view (s\<lparr>l2 := c\<rparr>) = pair_view s" "pair_view (s\<lparr>g_tables := d\<rparr>) = pair_view s" "pair_view (s\<lparr>idle := e\<rparr>) = pair_view s"
  "pair_view (s\<lparr>fwd := ring_put ref r (fwd s)\<rparr>) = pair_view s" "pair_view (dp_wake s) = pair_view s" "pair_view (set_mem m s) = pair_view s"
  by (simp_all add: pair_view_def set_buf_def set_aux_def dp_wake_def set_mem_def sock_view_def) (cases ref; simp)+

definition shape ::
  "dp_state \<Rightarrow> ne_packet ne_ring list \<times> ne_packet ne_ring list \<times> (nat \<times> nat \<times> u32) \<times>
     (nat \<times> int option list) list \<times> (nat \<times> int option list) list \<times> nat \<times> nat" where
  "shape s = (local_to_mid (fwd s), wan_to_mid (fwd s), dims (dp_mem s), pair_view s)"

lemma shape_updates [simp]:
  "shape (set_buf w b s) = shape s" "shape (set_aux w b s) = shape s" "shape (s\<lparr>rt := a\<rparr>) = shape s"
  "shape (s\<lparr>l2 := c\<rparr>) = shape s" "shape (s\<lparr>g_tables := d\<rparr>) = shape s" "shape (s\<lparr>idle := e\<rparr>) = shape s"
  "shape (s\<lparr>fwd := ring_put ref r (fwd s)\<rparr>) = shape s" "shape (dp_wake s) = shape s"
  by (auto simp: shape_def dp_wake_def) (cases ref; simp add: dp_mem_def set_buf_def set_aux_def)+

lemma shape_set_mem [simp]: "dims m = dims (dp_mem s) \<Longrightarrow> shape (set_mem m s) = shape s"
  by (simp add: shape_def) (simp add: set_mem_def)

lemma alloc_dims: "ne_frame_alloc p = (r, p') \<Longrightarrow> dims p' = dims p"
  by (auto simp: ne_frame_alloc_def pool_pop_def dims_def Let_def split: prod.splits list.splits if_splits)

lemma free_dims [simp]: "dims (ne_frame_free p a) = dims p"
  by (simp add: ne_frame_free_def pool_push_def dims_def Let_def)

lemma grow_dims: "packet_grow want k p pkt n c = (p', x) \<Longrightarrow> dims p' = dims p"
  by (induction k arbitrary: p pkt n c)
    (auto simp: Let_def dest: alloc_dims split: if_splits prod.splits option.splits)

lemma trim_dims: "packet_trim is p pkt = (p', pkt') \<Longrightarrow> dims p' = dims p"
  by (induction "is" arbitrary: p pkt) (auto simp: Let_def)

lemma copy_length: "packet_copy src want is off mem pkt = Done (mem', x) \<Longrightarrow> length mem' = length mem"
proof (induction "is" arbitrary: off mem pkt)
  case (Cons i "is")
  then show ?case by (auto simp: Let_def cbind_eq_Done mem_copy_def mem_write_def split: if_splits)
qed simp

lemma write_dims: "ne_packet_write p pkt src want = (r, p', pkt') \<Longrightarrow> dims p' = dims p"
  by (auto simp: ne_packet_write_def Let_def mem_then_def dims_def split: if_splits prod.splits cres.splits
      dest!: grow_dims trim_dims copy_length)

lemma shape_free [simp]: "shape (dp_free j s) = shape s"
proof -
  have "dims (free_segs p pkt is) = dims p" for p pkt "is" by (induction "is" arbitrary: p) auto
  then show ?thesis by (simp add: dp_free_def ne_packet_free_def Let_def)
qed

lemma push_shape: "dp_ring_push ref j s = (ok, j', s') \<Longrightarrow> shape s' = shape s"
  by (auto simp: dp_ring_push_def simp del: ring_put.simps split: if_splits option.splits)

lemma push_split_shape: "push_split_to_wan j l1 t n2 w s = (ok, j', s') \<Longrightarrow> shape s' = shape s"
  by (auto simp: push_split_to_wan_def Let_def simp del: ring_put.simps split: if_splits option.splits)

lemma mem_then_cases:
  "mem_then r x f = y \<Longrightarrow> (\<And>a. r = Done a \<Longrightarrow> f a = y \<Longrightarrow> P) \<Longrightarrow> (y = (Fail, x) \<Longrightarrow> P) \<Longrightarrow> (y = (Fault, x) \<Longrightarrow> P) \<Longrightarrow> P"
  by (cases r) auto

lemma encrypt_whole_shape: "encrypt_whole env pr w job pkt s = (r, (s', j')) \<Longrightarrow> shape s' = shape s"
  by (auto simp: encrypt_whole_def Let_def split: prod.splits if_splits elim!: mem_then_cases dest!: write_dims)

lemma encrypt_split_shape: "encrypt_split env wdp w job pkt s = (r, (s', j')) \<Longrightarrow> shape s' = shape s"
  by (auto simp: encrypt_split_def Let_def split: prod.splits if_splits elim!: mem_then_cases dest!: push_split_shape write_dims)

lemma encrypt_to_wan_shape: "encrypt_to_wan env wdp pr fo job s = (r, (s', j')) \<Longrightarrow> shape s' = shape s"
  by (auto simp: encrypt_to_wan_def Let_def split: prod.splits if_splits option.splits dest!: encrypt_split_shape encrypt_whole_shape)

lemma process_local_shape:
  assumes "dataplane_process_local env job s = Done s'"
  shows "shape s' = shape s"
proof -
  have "shape (snd (snd (push_to_wan w j t))) = shape t" for w j t
    using push_shape by (auto simp: push_to_wan_def) (metis prod.collapse)
  then show ?thesis
    using assms by (auto simp: dataplane_process_local_def Let_def split: if_splits cres.splits prod.splits dest!: encrypt_to_wan_shape)
qed

lemma deliver_shape: "deliver_local w job pkt n s = Done s' \<Longrightarrow> shape s' = shape s"
  by (auto simp: deliver_local_def forward_local_def Let_def split: if_splits cres.splits prod.splits dest!: push_shape write_dims)

lemma process_wan_shape: "dataplane_process_wan env job s = Done s' \<Longrightarrow> shape s' = shape s"
  by (auto simp: dataplane_process_wan_def Let_def split: if_splits cres.splits prod.splits option.splits dest!: deliver_shape)

section \<open>Ownership with the input rings\<close>

definition good_packet :: "nat \<Rightarrow> ne_packet \<Rightarrow> bool" where
  "good_packet k p \<longleftrightarrow> packet_ok p \<and> rooms_le k p \<and> readable k p"

definition rings_frames :: "ne_packet ne_ring list \<Rightarrow> u64 multiset" where
  "rings_frames rs = sum_list (map ring_frames rs)"

definition rings_good :: "(ne_packet \<Rightarrow> bool) \<Rightarrow> ne_packet ne_ring list \<Rightarrow> bool" where
  "rings_good P rs \<longleftrightarrow> length rs = NE_CRYPTO_WORKERS \<and> (\<forall>r\<in>set rs. ring_ok r \<and> (\<forall>p\<in>set (ring_list r). P p))"

definition fits :: "bool \<Rightarrow> u64 multiset \<Rightarrow> dp_state \<Rightarrow> bool" where
  "fits T F s \<longleftrightarrow> size F \<le> unat (pl_cap (pool (dp_mem s))) \<and>
     (\<forall>a\<in>#F. T \<or> unat a + frame_size (dp_mem s) \<le> length (bufs (dp_mem s)))"

definition owns_in :: "bool \<Rightarrow> u64 multiset \<Rightarrow> ne_packet list \<Rightarrow> dp_state \<Rightarrow> bool" where
  "owns_in T F js s \<longleftrightarrow> fits T F s \<and>
     rings_good (\<lambda>p. good_packet (frame_size (dp_mem s)) p \<and> len p \<le> 9014) (local_to_mid (fwd s)) \<and>
     rings_good (good_packet (frame_size (dp_mem s))) (wan_to_mid (fwd s)) \<and>
     (\<exists>G. F = G + rings_frames (local_to_mid (fwd s)) + rings_frames (wan_to_mid (fwd s)) \<and> owned T G js s)"

abbreviation owns :: "u64 multiset \<Rightarrow> ne_packet list \<Rightarrow> dp_state \<Rightarrow> bool" where
  "owns \<equiv> owns_in False"

abbreviation accounts_all :: "u64 multiset \<Rightarrow> ne_packet list \<Rightarrow> dp_state \<Rightarrow> bool" where
  "accounts_all \<equiv> owns_in True"

lemmas owns_def = owns_in_def

lemma ownsI:
  assumes "fits T F s" "rings_good (\<lambda>p. good_packet (frame_size (dp_mem s)) p \<and> len p \<le> 9014) (local_to_mid (fwd s))"
    "rings_good (good_packet (frame_size (dp_mem s))) (wan_to_mid (fwd s))"
    "F = G + rings_frames (local_to_mid (fwd s)) + rings_frames (wan_to_mid (fwd s))" "owned T G js s"
  shows "owns_in T F js s"
  using assms unfolding owns_def by blast

lemma ownsE:
  assumes "owns_in T F js s"
  obtains G where "fits T F s" "rings_good (\<lambda>p. good_packet (frame_size (dp_mem s)) p \<and> len p \<le> 9014) (local_to_mid (fwd s))"
    "rings_good (good_packet (frame_size (dp_mem s))) (wan_to_mid (fwd s))"
    "F = G + rings_frames (local_to_mid (fwd s)) + rings_frames (wan_to_mid (fwd s))" "owned T G js s"
  using assms unfolding owns_def by blast

lemma fits_shape: "shape s' = shape s \<Longrightarrow> fits T F s' = fits T F s"
  by (simp add: shape_def dims_def fits_def)

lemma fits_mono: "fits T (F + G) s \<Longrightarrow> fits T F s"
  by (auto simp: fits_def)

text \<open>A packet in hand that a step does not touch can be set aside.\<close>

lemma holds_frame:
  "owned T (G + frames_of js) (ks @ js) s \<longleftrightarrow> owned T G ks s \<and> fits T (G + frames_of js) s \<and>
     (\<forall>j\<in>set js. packet_ok j \<and> rooms_le (frame_size (dp_mem s)) j)"
proof -
  have e: "dp_frames s + frames_of (ks @ js) = G + frames_of js \<longleftrightarrow> dp_frames s + frames_of ks = G"
    by (simp flip: add.assoc)
  show ?thesis unfolding holds_def e fits_def by auto
qed

lemma holds_frame_ex:
  assumes "owned T F (ks @ js) s" shows "\<exists>G. F = G + frames_of js \<and> owned T G ks s"
proof -
  let ?G = "dp_frames s + frames_of ks"
  have "F = ?G + frames_of js" using assms by (simp add: holds_def flip: add.assoc)
  then show ?thesis using assms holds_frame [of T ?G js ks s] by auto
qed

lemma owns_part:
  assumes "owns_in T F (ks @ js) s" obtains G where "owned T G ks s"
proof -
  obtain G where "owned T G (ks @ js) s" using assms unfolding owns_def by blast
  then show ?thesis using that holds_frame_ex by blast
qed

lemma owns_step:
  assumes "owns_in T F (ks @ js) s" "shape s' = shape s"
    and "\<And>G. owned T G ks s \<Longrightarrow> owned T G ks' s'"
  shows "owns_in T F (ks' @ js) s'"
proof -
  obtain G where G: "F = G + rings_frames (local_to_mid (fwd s)) + rings_frames (wan_to_mid (fwd s))" "owned T G (ks @ js) s"
    using assms(1) unfolding owns_def by blast
  obtain H where H: "G = H + frames_of js" "owned T H ks s" using holds_frame_ex [OF G(2)] by blast
  have sh: "local_to_mid (fwd s') = local_to_mid (fwd s)" "wan_to_mid (fwd s') = wan_to_mid (fwd s)"
    "frame_size (dp_mem s') = frame_size (dp_mem s)"
    using assms(2) by (simp_all add: shape_def dims_def)
  have F: "fits T F s'" using assms(1) fits_shape [OF assms(2)] by (simp add: owns_def)
  then have "fits T G s'" unfolding G(1) by (rule fits_mono [OF fits_mono])
  moreover have "\<forall>j\<in>set js. packet_ok j \<and> rooms_le (frame_size (dp_mem s)) j" using G(2) by (simp add: holds_def)
  ultimately have "owned T G (ks' @ js) s'" using holds_frame [of T H js ks' s'] assms(3) [OF H(2)] H(1) sh(3) by simp
  then show ?thesis using assms(1) G(1) F unfolding owns_def sh by blast
qed

lemma owns_process_local:
  assumes "owns_in T F (job # js) s" "worker_ok env s" "readable (frame_size (dp_mem s)) job" "len job \<le> 9014"
  shows "(\<exists>s'. dataplane_process_local env job s = Done s' \<and> owns_in T F js s' \<and> worker_ok env s') \<or>
    T \<and> dataplane_process_local env job s = Fault"
proof -
  obtain G where "owned T G [job] s" using owns_part [of T F "[job]" js s] assms(1) by auto
  from process_local_owned [OF assms(2) this assms(3,4)] show ?thesis
  proof (elim disjE exE conjE)
    fix s' assume s': "dataplane_process_local env job s = Done s'" "worker_ok env s'"
    have "owned T H [] s'" if "owned T H [job] s" for H
      using process_local_owned [OF assms(2) that assms(3,4)] s'(1) by simp
    then have "owns_in T F ([] @ js) s'"
      using owns_step [of T F "[job]" js s s' "[]"] assms(1) process_local_shape [OF s'(1)] by simp
    then show ?thesis using s' by simp
  qed simp
qed

lemma owns_process_wan:
  assumes "owns_in T F (job # js) s" "worker_ok env s" "readable (frame_size (dp_mem s)) job"
  shows "(\<exists>s'. dataplane_process_wan env job s = Done s' \<and> owns_in T F js s' \<and> worker_ok env s') \<or>
    T \<and> dataplane_process_wan env job s = Fault"
proof -
  obtain G where "owned T G [job] s" using owns_part [of T F "[job]" js s] assms(1) by auto
  from process_wan_owned [OF assms(2) this assms(3)] show ?thesis
  proof (elim disjE exE conjE)
    fix s' assume s': "dataplane_process_wan env job s = Done s'" "worker_ok env s'"
    have "owned T H [] s'" if "owned T H [job] s" for H
      using process_wan_owned [OF assms(2) that assms(3)] s'(1) by simp
    then have "owns_in T F ([] @ js) s'"
      using owns_step [of T F "[job]" js s s' "[]"] assms(1) process_wan_shape [OF s'(1)] by simp
    then show ?thesis using s' by simp
  qed simp
qed

lemma owns_free: "owns_in T F (job # js) s \<Longrightarrow> owns_in T F js (dp_free job s)"
  using owns_step [of T F "[job]" js s "dp_free job s" "[]"] holds_free by auto

section \<open>Taking from and giving to an input ring\<close>

lemma holds_rotate: "owned T F (js @ [job]) s = owned T F (job # js) s"
  by (auto simp: holds_def add_ac)

lemma rings_update:
  "w < length rs \<Longrightarrow> rings_frames (rs[w := r]) + ring_frames (rs ! w) = rings_frames rs + ring_frames r"
  using sum_list_update_add [of w "map ring_frames rs" "ring_frames r"] by (simp add: rings_frames_def map_update)

lemma rings_take:
  assumes "rings_good P rs" "w < NE_CRYPTO_WORKERS" "ne_ring_try_pop (rs ! w) = Some (job, r)"
  shows "rings_good P (rs[w := r])" "P job" "rings_frames rs = rings_frames (rs[w := r]) + mset (packet_frames job)"
proof -
  have l: "w < length rs" and o: "ring_ok (rs ! w)" "\<forall>p\<in>set (ring_list (rs ! w)). P p"
    using assms(1,2) by (auto simp: rings_good_def)
  have "ring_inv (rs ! w)" using o(1) assms(3) by (auto simp: ring_ok_def ne_ring_try_pop_def zero_ring_def)
  note p = ring_pop_Some [OF this assms(3)]
  show "P job" using o(2) p(2) by simp
  have "ring_ok r \<and> (\<forall>p\<in>set (ring_list r). P p)" using o(2) p(1,2) by (simp add: ring_ok_def)
  then show "rings_good P (rs[w := r])"
    using assms(1) set_update_subset_insert [of rs w r] by (auto simp: rings_good_def)
  have "rings_frames (rs[w := r]) + mset (packet_frames job) + ring_frames r = rings_frames rs + ring_frames r"
    using rings_update [OF l, of r] p(2) by (simp add: ring_frames_def add_ac)
  then show "rings_frames rs = rings_frames (rs[w := r]) + mset (packet_frames job)" by simp
qed

lemma rings_give:
  assumes "rings_good P rs" "w < NE_CRYPTO_WORKERS" "P job" "ne_ring_try_push (rs ! w) job = Some r"
  shows "rings_good P (rs[w := r])" "rings_frames (rs[w := r]) = rings_frames rs + mset (packet_frames job)"
proof -
  have l: "w < length rs" and o: "ring_ok (rs ! w)" "\<forall>p\<in>set (ring_list (rs ! w)). P p"
    using assms(1,2) by (auto simp: rings_good_def)
  note p = ring_push_ok [OF o(1) assms(4)]
  have "ring_ok r \<and> (\<forall>p\<in>set (ring_list r). P p)" using o(2) p assms(3) by (simp add: ring_ok_def)
  then show "rings_good P (rs[w := r])"
    using assms(1) set_update_subset_insert [of rs w r] by (auto simp: rings_good_def)
  have "rings_frames (rs[w := r]) + ring_frames (rs ! w) = rings_frames rs + mset (packet_frames job) + ring_frames (rs ! w)"
    using rings_update [OF l, of r] p(2) by (simp add: ring_frames_def add_ac)
  then show "rings_frames (rs[w := r]) = rings_frames rs + mset (packet_frames job)" by simp
qed

abbreviation set_wan_in :: "ne_packet ne_ring list \<Rightarrow> dp_state \<Rightarrow> dp_state" where
  "set_wan_in x s \<equiv> s\<lparr>fwd := (fwd s)\<lparr>wan_to_mid := x\<rparr>\<rparr>"

abbreviation set_local_in :: "ne_packet ne_ring list \<Rightarrow> dp_state \<Rightarrow> dp_state" where
  "set_local_in x s \<equiv> s\<lparr>fwd := (fwd s)\<lparr>local_to_mid := x\<rparr>\<rparr>"

lemma in_rings_simps [simp]:
  "owned T G js (set_wan_in x s) = owned T G js s" "owned T G js (set_local_in x s) = owned T G js s"
  "dp_mem (set_wan_in x s) = dp_mem s" "dp_mem (set_local_in x s) = dp_mem s"
  "fits T F (set_wan_in x s) = fits T F s" "fits T F (set_local_in x s) = fits T F s"
  "worker_ok env (set_wan_in x s) = worker_ok env s" "worker_ok env (set_local_in x s) = worker_ok env s"
  by (simp_all add: holds_def dp_frames_def out_frames_def rings_ok_def dp_mem_def fits_def worker_ok_def)

lemma holds_take:
  assumes "owned T G js s" "fits T (G + mset (packet_frames job)) s" "good_packet (frame_size (dp_mem s)) job"
  shows "owned T (G + mset (packet_frames job)) (job # js) s"
  using assms holds_frame [of T G "[job]" js s] by (simp add: holds_rotate good_packet_def)

lemma holds_give:
  assumes "owned T F (job # js) s" shows "\<exists>G. F = G + mset (packet_frames job) \<and> owned T G js s"
  using holds_frame_ex [of T F js "[job]" s] assms by (simp add: holds_rotate)

lemma owns_take_wan:
  assumes "owns_in T F js s" "w < NE_CRYPTO_WORKERS" "ne_ring_try_pop (wan_to_mid (fwd s) ! w) = Some (job, r)"
  shows "owns_in T F (job # js) (set_wan_in ((wan_to_mid (fwd s))[w := r]) s)" "good_packet (frame_size (dp_mem s)) job"
proof -
  obtain G where G: "fits T F s" "rings_good (\<lambda>p. good_packet (frame_size (dp_mem s)) p \<and> len p \<le> 9014) (local_to_mid (fwd s))"
    "rings_good (good_packet (frame_size (dp_mem s))) (wan_to_mid (fwd s))"
    "F = G + rings_frames (local_to_mid (fwd s)) + rings_frames (wan_to_mid (fwd s))" "owned T G js s"
    using assms(1) by (rule ownsE)
  note t = rings_take [OF G(3) assms(2,3)]
  have F: "F = (G + mset (packet_frames job)) + rings_frames (local_to_mid (fwd s)) + rings_frames ((wan_to_mid (fwd s))[w := r])"
    unfolding G(4) t(3) by (simp add: add_ac)
  have "fits T (G + mset (packet_frames job)) s" using G(1) unfolding F by (rule fits_mono [OF fits_mono])
  from holds_take [OF G(5) this t(2)] show "owns_in T F (job # js) (set_wan_in ((wan_to_mid (fwd s))[w := r]) s)"
    by (intro ownsI [of T F _ "G + mset (packet_frames job)"]) (simp_all add: G(1,2) t(1), rule F)
  show "good_packet (frame_size (dp_mem s)) job" by (rule t(2))
qed

lemma owns_take_local:
  assumes "owns_in T F js s" "w < NE_CRYPTO_WORKERS" "ne_ring_try_pop (local_to_mid (fwd s) ! w) = Some (job, r)"
  shows "owns_in T F (job # js) (set_local_in ((local_to_mid (fwd s))[w := r]) s)" "good_packet (frame_size (dp_mem s)) job" "len job \<le> 9014"
proof -
  obtain G where G: "fits T F s" "rings_good (\<lambda>p. good_packet (frame_size (dp_mem s)) p \<and> len p \<le> 9014) (local_to_mid (fwd s))"
    "rings_good (good_packet (frame_size (dp_mem s))) (wan_to_mid (fwd s))"
    "F = G + rings_frames (local_to_mid (fwd s)) + rings_frames (wan_to_mid (fwd s))" "owned T G js s"
    using assms(1) by (rule ownsE)
  note t = rings_take [OF G(2) assms(2,3)]
  have F: "F = (G + mset (packet_frames job)) + rings_frames ((local_to_mid (fwd s))[w := r]) + rings_frames (wan_to_mid (fwd s))"
    unfolding G(4) t(3) by (simp add: add_ac)
  have "fits T (G + mset (packet_frames job)) s" using G(1) unfolding F by (rule fits_mono [OF fits_mono])
  from holds_take [OF G(5) this] t(2) show "owns_in T F (job # js) (set_local_in ((local_to_mid (fwd s))[w := r]) s)"
    by (intro ownsI [of T F _ "G + mset (packet_frames job)"]) (simp_all add: G(1,3) t(1), rule F)
  show "good_packet (frame_size (dp_mem s)) job" "len job \<le> 9014" using t(2) by simp_all
qed

lemma owns_give_wan:
  assumes "owns_in T F (job # js) s" "w < NE_CRYPTO_WORKERS" "good_packet (frame_size (dp_mem s)) job"
    "ne_ring_try_push (wan_to_mid (fwd s) ! w) job = Some r"
  shows "owns_in T F js (set_wan_in ((wan_to_mid (fwd s))[w := r]) s)"
proof -
  obtain G where G: "fits T F s" "rings_good (\<lambda>p. good_packet (frame_size (dp_mem s)) p \<and> len p \<le> 9014) (local_to_mid (fwd s))"
    "rings_good (good_packet (frame_size (dp_mem s))) (wan_to_mid (fwd s))"
    "F = G + rings_frames (local_to_mid (fwd s)) + rings_frames (wan_to_mid (fwd s))" "owned T G (job # js) s"
    using assms(1) by (rule ownsE)
  note t = rings_give [OF G(3) assms(2,3,4)]
  obtain H where H: "G = H + mset (packet_frames job)" "owned T H js s" using holds_give [OF G(5)] by blast
  show ?thesis
    by (rule ownsI [of T F _ H]) (simp_all add: G(1,2) t H(2), simp add: G(4) H(1) add_ac)
qed

lemma owns_give_local:
  assumes "owns_in T F (job # js) s" "w < NE_CRYPTO_WORKERS" "good_packet (frame_size (dp_mem s)) job" "len job \<le> 9014"
    "ne_ring_try_push (local_to_mid (fwd s) ! w) job = Some r"
  shows "owns_in T F js (set_local_in ((local_to_mid (fwd s))[w := r]) s)"
proof -
  obtain G where G: "fits T F s" "rings_good (\<lambda>p. good_packet (frame_size (dp_mem s)) p \<and> len p \<le> 9014) (local_to_mid (fwd s))"
    "rings_good (good_packet (frame_size (dp_mem s))) (wan_to_mid (fwd s))"
    "F = G + rings_frames (local_to_mid (fwd s)) + rings_frames (wan_to_mid (fwd s))" "owned T G (job # js) s"
    using assms(1) by (rule ownsE)
  note t = rings_give [OF G(2) assms(2) _ assms(5), OF conjI [OF assms(3,4)]]
  obtain H where H: "G = H + mset (packet_frames job)" "owned T H js s" using holds_give [OF G(5)] by blast
  show ?thesis
    by (rule ownsI [of T F _ H]) (simp_all add: G(1,3) t H(2), simp add: G(4) H(1) add_ac)
qed

section \<open>A worker\<close>

lemma owns_scratch [simp]:
  "owns_in T F js (s\<lparr>rt := a\<rparr>) = owns_in T F js s" "owns_in T F js (s\<lparr>l2 := c\<rparr>) = owns_in T F js s"
  "owns_in T F js (s\<lparr>g_tables := d\<rparr>) = owns_in T F js s" "owns_in T F js (s\<lparr>idle := e\<rparr>) = owns_in T F js s"
  by (simp_all add: owns_def fits_def)

lemma worker_ok_bind [simp]: "worker_ok env s \<Longrightarrow> worker_ok env (s\<lparr>rt := dp_out_ring_bind k (rt s)\<rparr>)"
  using ring_bind_bound [of k "rt s"] by (auto simp: worker_ok_def dp_crypto_current_worker_idx_def) (simp add: dp_out_ring_bind_def)+

lemma take_wan_ok:
  assumes "owns_in T F [] s" "worker_ok env s" "w < NE_CRYPTO_WORKERS"
  shows "(\<exists>d s'. worker_take_wan env w s = Done (d, s') \<and> owns_in T F [] s' \<and> worker_ok env s') \<or>
    T \<and> worker_take_wan env w s = Fault"
proof (cases "ne_ring_try_pop (wan_to_mid (fwd s) ! w)")
  case None
  then show ?thesis using assms by (auto simp: worker_take_wan_def)
next
  case (Some a)
  then obtain job r where p: "ne_ring_try_pop (wan_to_mid (fwd s) ! w) = Some (job, r)" by (cases a) auto
  note t = owns_take_wan [OF assms(1,3) p]
  have w: "worker_ok env (set_wan_in ((wan_to_mid (fwd s))[w := r]) s)" using assms(2) by simp
  show ?thesis using owns_process_wan [OF t(1) w] t(2) p by (auto simp: worker_take_wan_def good_packet_def)
qed

lemma take_local_ok:
  assumes "owns_in T F [] s" "worker_ok env s" "w < NE_CRYPTO_WORKERS"
  shows "(\<exists>d s'. worker_take_local env w s = Done (d, s') \<and> owns_in T F [] s' \<and> worker_ok env s') \<or>
    T \<and> worker_take_local env w s = Fault"
proof (cases "ne_ring_try_pop (local_to_mid (fwd s) ! w)")
  case None
  then show ?thesis using assms by (auto simp: worker_take_local_def)
next
  case (Some a)
  then obtain job r where p: "ne_ring_try_pop (local_to_mid (fwd s) ! w) = Some (job, r)" by (cases a) auto
  note t = owns_take_local [OF assms(1,3) p]
  let ?s1 = "set_local_in ((local_to_mid (fwd s))[w := r]) s"
  let ?s = "?s1\<lparr>rt := dp_out_ring_bind (int (ne_packet.tx_slot job)) (rt ?s1)\<rparr>"
  have w: "worker_ok env ?s" using assms(2) by (intro worker_ok_bind) simp
  have o: "owns_in T F [job] ?s" using t(1) by simp
  show ?thesis using owns_process_local [OF o w] t(2,3) p by (auto simp: worker_take_local_def good_packet_def)
qed

lemma gc_table_ok:
  assumes "table_ok ft" shows "table_ok (opt_frag_gc_table ft now)"
proof -
  let ?f = "\<lambda>n es. let i = unat (gc_cursor ft + of_nat n) mod L2_FRAG_TABLE_SIZE; e = es ! i
    in if opt_occupied e \<and> opt_expired now e then es[i := opt_clear_entry e] else es"
  have "length (fold ?f ns es) = 256 \<and> (\<forall>e\<in>set (fold ?f ns es). entry_ok e)"
    if "length es = 256" "\<forall>e\<in>set es. entry_ok e" for ns es
    using that
  proof (induction ns arbitrary: es)
    case (Cons n ns)
    let ?i = "unat (gc_cursor ft + of_nat n) mod 256"
    have "entry_ok (opt_clear_entry (es ! ?i))" using Cons.prems by (simp add: entry_ok_clear)
    then have "\<forall>e\<in>set (?f n es). entry_ok e" "length (?f n es) = 256"
      using Cons.prems set_update_subset_insert [of es ?i "opt_clear_entry (es ! ?i)"] by (auto simp: Let_def L2_FRAG_TABLE_SIZE_def)
    then show ?case using Cons.IH by simp
  qed simp
  note f = this
  have "length (entries ft) = 256" "\<forall>e\<in>set (entries ft). entry_ok e" using assms by (simp_all add: table_ok_def all_set_conv_all_nth)
  from f [OF this, of "[0..<256]"] show ?thesis
    by (simp add: table_ok_def opt_frag_gc_table_def Let_def all_set_conv_all_nth del: upt_rec_numeral)
qed

lemma gc_tables_ok: "tables_ok g \<Longrightarrow> tables_ok (l2_crypto_frag_gc w now g)"
  by (auto simp: tables_ok_def l2_crypto_frag_gc_def l2_udp_frag_gc_def opt_table_get_def Let_def gc_table_ok split: option.splits if_splits)

lemma pause_ok:
  assumes "crypto_idle_pause re w st s = (st', s')"
  shows "owns_in T F js s' = owns_in T F js s" "worker_ok env s' = worker_ok env s"
  using assms by (auto simp: crypto_idle_pause_def Let_def worker_ok_updates split: prod.splits if_splits)

lemma worker_round_ok:
  assumes "owns_in T F [] s" "worker_ok env s" "w < NE_CRYPTO_WORKERS"
  shows "(\<exists>wl' s'. crypto_worker_round env re w (wl, s) = Done (wl', s') \<and> owns_in T F [] s' \<and> worker_ok env s') \<or>
    T \<and> crypto_worker_round env re w (wl, s) = Fault"
  using take_wan_ok [OF assms]
proof (elim disjE exE conjE)
  fix d1 s1 assume s1: "worker_take_wan env w s = Done (d1, s1)" "owns_in T F [] s1" "worker_ok env s1"
  show ?thesis
    using take_local_ok [OF s1(2,3) assms(3)]
  proof (elim disjE exE conjE)
    fix d2 s2 assume s2: "worker_take_local env w s1 = Done (d2, s2)" "owns_in T F [] s2" "worker_ok env s2"
    let ?g = "s2\<lparr>g_tables := l2_crypto_frag_gc (int w) (re_core_now re) (g_tables s2)\<rparr>"
    have g: "owns_in T F [] ?g" "worker_ok env ?g"
      using s2(2,3) gc_tables_ok worker_okD(4) [OF s2(3)] by (auto intro: worker_ok_updates(5))
    obtain st s3 where p: "crypto_idle_pause re w (w_idle wl) s2 = (st, s3)" by force
    obtain st' s3' where p': "crypto_idle_pause re w (w_idle wl) ?g = (st', s3')" by force
    show ?thesis
      using s1(1) s2 g p p' pause_ok(1) [OF p] pause_ok(2) [OF p, of env] pause_ok(1) [OF p'] pause_ok(2) [OF p', of env]
      by (simp add: crypto_worker_round_def Let_def)
  qed (use s1(1) in \<open>simp add: crypto_worker_round_def\<close>)
qed (simp add: crypto_worker_round_def)

text \<open>The state a worker thread needs before it binds itself to its index.\<close>

definition worker_ready :: "dp_state \<Rightarrow> bool" where
  "worker_ready s \<longleftrightarrow> ctx_ok (crypto (fwd s)) \<and> trf_ok (l2 s) \<and> tables_ok (g_tables s) \<and>
     bufs_ok (crypto_buf (fwd s)) \<and> bufs_ok (crypto_aux (fwd s))"

lemma worker_bound_ok:
  assumes "worker_ready s" "aead_laws (env_lib env)" "w < NE_CRYPTO_WORKERS"
  shows "worker_ok env (s\<lparr>rt := dp_crypto_worker_bind (int w) (rt s), l2 := l2_crypto_bind_worker x (l2 s)\<rparr>)"
proof -
  have a: "0 < unat (dp_active_tx_slots (rt s))" "unat (dp_active_tx_slots (rt s)) \<le> 4" using active_slots_range [of "rt s"] by auto
  then have "w mod unat (dp_active_tx_slots (rt s)) < 6"
    using mod_less_divisor [OF a(1), of w] by linarith
  then show ?thesis
    using assms by (simp add: worker_ready_def worker_ok_def dp_crypto_current_worker_idx_def dp_out_ring_idx_def
        dp_crypto_worker_bind_def trf_ok_def l2_crypto_bind_worker_def)
qed

lemma worker_ok_env: "worker_ok env s \<Longrightarrow> aead_laws (env_lib env') \<Longrightarrow> worker_ok env' s"
  by (simp add: worker_ok_def)

lemma worker_rounds_ok:
  fixes env :: "'c dp_env" and es :: "('c dp_env \<times> round_env) list"
  assumes "owns_in T F [] s" "worker_ok env s" "w < NE_CRYPTO_WORKERS" "list_all (\<lambda>(env, re). aead_laws (env_lib env)) es"
  shows "(\<exists>wl' s'. rounds (\<lambda>(env, re). crypto_worker_round env re w) es (wl, s) = Done (wl', s') \<and> owns_in T F [] s') \<or>
    T \<and> rounds (\<lambda>(env, re). crypto_worker_round env re w) es (wl, s) = Fault"
  using assms
proof (induction es arbitrary: wl s env)
  case (Cons e es)
  obtain env' re where e: "e = (env', re)" by force
  have w: "worker_ok env' s" using Cons.prems(2,4) e worker_ok_env by auto
  from worker_round_ok [OF Cons.prems(1) w Cons.prems(3), of re wl] show ?case
  proof (elim disjE exE conjE)
    fix wl1 s1 assume r: "crypto_worker_round env' re w (wl, s) = Done (wl1, s1)" "owns_in T F [] s1" "worker_ok env' s1"
    show ?thesis using Cons.IH [OF r(2,3) Cons.prems(3)] Cons.prems(4) e r(1) by simp
  qed (simp add: e)
qed auto

lemma accounts_all_owns: "accounts_all F js s \<longleftrightarrow> owns_in (short_frame F s) F js s"
proof -
  have f: "fits True F s \<longleftrightarrow> fits (short_frame F s) F s" by (auto simp: fits_def short_frame_def not_less)
  have "owned True G js s \<longleftrightarrow> owned (short_frame F s) G js s" if "G \<subseteq># F" for G
    using mset_subset_eqD [OF that] by (auto simp: owned_def short_frame_def not_less)
  then show ?thesis unfolding owns_in_def f by (metis (no_types, lifting) add.assoc mset_subset_eq_add_left)
qed

lemma owns_mono: "owns_in T F js s \<Longrightarrow> accounts_all F js s"
  by (auto simp: owns_in_def fits_def dest: owned_mono)

lemma owns_short: "owns_in T F js s \<Longrightarrow> short_frame F s \<Longrightarrow> T"
  by (auto simp: owns_in_def fits_def short_frame_def)


section \<open>Receive dispatch\<close>

definition rx_ok :: "dp_state \<Rightarrow> bool" where
  "rx_ok s \<longleftrightarrow> route_inv (rt s) \<and> dp_crypto_current_worker_idx (rt s) = - 1"

lemma good_relabel [simp]: "good_packet k (ne_packet.tx_slot_update f job) = good_packet k job"
  by (simp add: good_packet_def packet_ok_def rooms_le_def readable_def packet_nsegs_def seg_room_def)

lemma owns_relabel: "owns_in T F (job # js) s \<Longrightarrow> owns_in T F (ne_packet.tx_slot_update f job # js) s"
  using owns_step [of T F "[job]" js s s "[ne_packet.tx_slot_update f job]"] holds_relabel [of T _ job "[]" s "ne_packet.tx_slot_update f job"]
  by simp

lemma rt_free [simp]: "rt (dp_free job s) = rt s" by (simp add: dp_free_def)

lemma frame_size_free [simp]: "frame_size (dp_mem (dp_free job s)) = frame_size (dp_mem s)"
  using shape_free [of job s] by (simp add: shape_def dims_def)

lemma push_local_ok:
  assumes "owns_in T F (job # js) s" "w < NE_CRYPTO_WORKERS" "good_packet (frame_size (dp_mem s)) job" "len job \<le> 9014"
  shows "owns_in T F js (push_local_to_mid w job s)" "rt (push_local_to_mid w job s) = rt s"
    "frame_size (dp_mem (push_local_to_mid w job s)) = frame_size (dp_mem s)"
  using assms owns_free [OF assms(1)] owns_give_local [OF assms(1-4)]
  by (auto simp: push_local_to_mid_def split: option.split)

lemma push_wan_ok:
  assumes "owns_in T F (job # js) s" "w < NE_CRYPTO_WORKERS" "good_packet (frame_size (dp_mem s)) job"
  shows "owns_in T F js (push_wan_to_mid w job s)" "rt (push_wan_to_mid w job s) = rt s"
    "frame_size (dp_mem (push_wan_to_mid w job s)) = frame_size (dp_mem s)"
  using assms owns_free [OF assms(1)] owns_give_wan [OF assms(1-3)]
  by (auto simp: push_wan_to_mid_def split: option.split)

text \<open>
  Where the packets of a batch went: \<open>os\<close> names for each packet the worker whose input ring it was appended to,
  or \<open>None\<close> when its frames were returned to the pool. \<open>inp\<close> is the side's array of input rings, \<open>oth\<close> that of the
  other side. The transmit slot stamped on a packet is left out of the comparison.
\<close>

definition untag :: "ne_packet \<Rightarrow> ne_packet" where
  "untag p = ne_packet.tx_slot_update (\<lambda>_. 0) p"

definition went :: "nat option \<Rightarrow> nat option list \<Rightarrow> ne_packet list \<Rightarrow> ne_packet list" where
  "went x os batch = map snd (filter (\<lambda>(y, p). y = x) (zip os batch))"

definition dispatched ::
  "(forwarder \<Rightarrow> ne_packet ne_ring list) \<Rightarrow> (forwarder \<Rightarrow> ne_packet ne_ring list) \<Rightarrow> nat option list \<Rightarrow> ne_packet list \<Rightarrow>
   dp_state \<Rightarrow> dp_state \<Rightarrow> bool" where
  "dispatched inp oth os batch s s' \<longleftrightarrow> length os = length batch \<and> set os \<subseteq> insert None (Some ` {..<NE_CRYPTO_WORKERS}) \<and>
     (\<forall>w<NE_CRYPTO_WORKERS. map untag (ring_list (inp (fwd s') ! w)) = map untag (ring_list (inp (fwd s) ! w) @ went (Some w) os batch)) \<and>
     pool_list (pool (dp_mem s')) = pool_list (pool (dp_mem s)) @ concat (map packet_frames (went None os batch)) \<and>
     oth (fwd s') = oth (fwd s) \<and> mid_to_wan (fwd s') = mid_to_wan (fwd s) \<and> mid_to_local (fwd s') = mid_to_local (fwd s)"

lemma dispatched_Nil: "dispatched inp oth [] [] s s"
  by (simp add: dispatched_def went_def)

lemma dispatched_Cons:
  assumes "dispatched inp oth [x] [p] s s1" "dispatched inp oth os ps s1 s2"
  shows "dispatched inp oth (x # os) (p # ps) s s2"
  using assms by (auto simp: dispatched_def went_def)

lemma free_placed:
  assumes "owns_in T F (job # js) s" "inp = local_to_mid \<and> oth = wan_to_mid \<or> inp = wan_to_mid \<and> oth = local_to_mid"
  shows "dispatched inp oth [None] [job] s (dp_free job s)"
proof -
  obtain G where "owned T G (job # js) s" using assms(1) by (rule ownsE)
  note d = ownedD [OF this]
  obtain m z where f: "ne_packet_free (dp_mem s) job = (m, z)" by force
  note p = packet_free_frames [OF d(1,2) f]
  show ?thesis using assms(2) p by (auto simp: dispatched_def went_def dp_free_def f) (auto simp: set_mem_def)
qed

lemma push_local_placed:
  assumes "owns_in T F (job # js) s" "w < NE_CRYPTO_WORKERS"
  shows "\<exists>x. dispatched local_to_mid wan_to_mid [x] [job] s (push_local_to_mid w job s)"
proof (cases "ne_ring_try_push (local_to_mid (fwd s) ! w) job")
  case None
  then show ?thesis using free_placed [OF assms(1)] by (auto simp: push_local_to_mid_def)
next
  case (Some r)
  have g: "rings_good (\<lambda>p. good_packet (frame_size (dp_mem s)) p \<and> len p \<le> 9014) (local_to_mid (fwd s))"
    using assms(1) by (rule ownsE)
  then have "ring_ok (local_to_mid (fwd s) ! w)" "w < length (local_to_mid (fwd s))" using assms(2) by (auto simp: rings_good_def)
  note p = ring_push_ok [OF this(1) Some] this(2)
  show ?thesis
    using Some p assms(2)
    by (intro exI [of _ "Some w"])
      (auto simp: push_local_to_mid_def dispatched_def went_def nth_list_update dp_mem_def)
qed

lemma push_wan_placed:
  assumes "owns_in T F (job # js) s" "w < NE_CRYPTO_WORKERS"
  shows "\<exists>x. dispatched wan_to_mid local_to_mid [x] [job] s (push_wan_to_mid w job s)"
proof (cases "ne_ring_try_push (wan_to_mid (fwd s) ! w) job")
  case None
  then show ?thesis using free_placed [OF assms(1)] by (auto simp: push_wan_to_mid_def)
next
  case (Some r)
  have g: "rings_good (good_packet (frame_size (dp_mem s))) (wan_to_mid (fwd s))" using assms(1) by (rule ownsE)
  then have "ring_ok (wan_to_mid (fwd s) ! w)" "w < length (wan_to_mid (fwd s))" using assms(2) by (auto simp: rings_good_def)
  note p = ring_push_ok [OF this(1) Some] this(2)
  show ?thesis
    using Some p assms(2)
    by (intro exI [of _ "Some w"])
      (auto simp: push_wan_to_mid_def dispatched_def went_def nth_list_update dp_mem_def)
qed

text \<open>The transmit slot and the routing state do not matter for where a packet goes.\<close>

lemma dispatched_untag: "dispatched inp oth os [untag p] s s' = dispatched inp oth os [p] s s'"
proof -
  have "packet_frames (untag p) = packet_frames p" "untag (untag p) = untag p"
    by (simp_all add: untag_def packet_frames_def packet_nsegs_def)
  then show ?thesis by (auto simp: dispatched_def went_def length_Suc_conv)
qed

lemma untag_tagged: "untag (ne_packet.tx_slot_update f p) = untag p"
  by (simp add: untag_def)

lemma dispatched_rt [simp]: "dispatched inp oth os ps (s\<lparr>rt := a\<rparr>) s' = dispatched inp oth os ps s s'"
  "dispatched inp oth os ps s (s'\<lparr>rt := a\<rparr>) = dispatched inp oth os ps s s'"
  by (simp_all add: dispatched_def)

text \<open>What one packet of a received batch does; the two sides differ in the length limit and the rings.\<close>

definition rx_step_ok ::
  "(forwarder \<Rightarrow> ne_packet ne_ring list) \<Rightarrow> (forwarder \<Rightarrow> ne_packet ne_ring list) \<Rightarrow> (ne_packet \<Rightarrow> dp_state \<Rightarrow> dp_state cres) \<Rightarrow> bool" where
  "rx_step_ok inp oth f \<longleftrightarrow> (\<forall>T F job js s.
     owns_in T F (job # js) s \<and> rx_ok s \<and> good_packet (frame_size (dp_mem s)) job \<and> len job \<le> 9014 \<longrightarrow>
     (\<exists>s' x. f job s = Done s' \<and> owns_in T F js s' \<and> rx_ok s' \<and> frame_size (dp_mem s') = frame_size (dp_mem s) \<and>
       dispatched inp oth [x] [job] s s'))"

lemma local_rx_step_ok: "rx_step_ok local_to_mid wan_to_mid (local_rx_packet env)"
proof (unfold rx_step_ok_def, intro allI impI, elim conjE)
  fix T F job js s
  assume a: "owns_in T F (job # js) s" "rx_ok s" "good_packet (frame_size (dp_mem s)) job" "len job \<le> 9014"
  let ?pkt = "packet_bytes job s"
  obtain r rs where r: "dp_flow_route_get ?pkt (len job) (- 1) (rt s) = (r, rs)" by force
  have g: "route_inv rs" "worker_idx r < NE_CRYPTO_WORKERS" using route_inv_get [OF _ r] a(2) by (auto simp: rx_ok_def)
  let ?job = "ne_packet.tx_slot_update (\<lambda>_. dp_flow_route.tx_slot r mod 256) job" and ?s = "s\<lparr>rt := rs\<rparr>"
  have "rx_ok ?s" using g(1) route_get_tls [OF r] a(2) by (simp add: rx_ok_def dp_crypto_current_worker_idx_def)
  moreover have "local_rx_packet env job s = Done (push_local_to_mid (worker_idx r) ?job ?s)"
    by (simp add: local_rx_packet_def dataplane_local_needs_mid_def dp_crypto_pick_local_worker_def r)
  moreover have o: "owns_in T F (?job # js) ?s" using owns_relabel [OF a(1)] by simp
  moreover obtain x where "dispatched local_to_mid wan_to_mid [x] [?job] ?s (push_local_to_mid (worker_idx r) ?job ?s)"
    using push_local_placed [OF o g(2)] by blast
  then have "dispatched local_to_mid wan_to_mid [x] [job] s (push_local_to_mid (worker_idx r) ?job ?s)"
    using dispatched_untag [of _ _ _ ?job] dispatched_untag [of _ _ _ job] by (simp add: untag_tagged)
  ultimately show "\<exists>s' x. local_rx_packet env job s = Done s' \<and> owns_in T F js s' \<and> rx_ok s' \<and>
      frame_size (dp_mem s') = frame_size (dp_mem s) \<and> dispatched local_to_mid wan_to_mid [x] [job] s s'"
    using push_local_ok [of T F ?job js ?s "worker_idx r"] g(2) a(3,4) by (auto simp: rx_ok_def)
qed

lemma wan_rx_step_ok: "rx_step_ok wan_to_mid local_to_mid (wan_rx_packet env)"
proof (unfold rx_step_ok_def, intro allI impI, elim conjE)
  fix T F job js s
  assume a: "owns_in T F (job # js) s" "rx_ok s" "good_packet (frame_size (dp_mem s)) job"
  have b: "rx_ok (dp_free job s)" "owns_in T F js (dp_free job s)" using a(2) owns_free [OF a(1)] by (simp_all add: rx_ok_def)
  have fp: "dispatched wan_to_mid local_to_mid [None] [job] s (dp_free job s)" using free_placed [OF a(1)] by simp
  let ?s = "\<lambda>k. s\<lparr>rt := dp_out_ring_bind k (rt s)\<rparr>"
  have f: "dp_free job (?s k) = (dp_free job s)\<lparr>rt := dp_out_ring_bind k (rt s)\<rparr>" for k
    by (simp add: dp_free_def) (simp add: set_mem_def)
  have i: "rx_ok (?s k)" for k
    using a(2) by (auto simp: rx_ok_def dp_crypto_current_worker_idx_def dp_out_ring_bind_def intro: route_inv_same_tables)
  have p: "dataplane_process_wan env job (?s k) = Done (dp_free job (?s k))" for k
    using i by (simp add: dataplane_process_wan_def rx_ok_def Let_def)
  let ?pkt = "packet_bytes job s"
  have e: "wan_rx_packet env job s = (if dataplane_wan_needs_mid ?pkt (len job) then
      (case dp_crypto_pick_wan_worker True ?pkt (len job) of None \<Rightarrow> Done (dp_free job s)
       | Some wi \<Rightarrow> Done (if NE_CRYPTO_WORKERS \<le> wi then dp_free job s else push_wan_to_mid wi job s))
      else Done (dp_free job (?s (int (dp_pick_tx_slot ?pkt (len job) (rt s))))))"
    unfolding wan_rx_packet_def Let_def p ..
  have "(\<exists>w. wan_rx_packet env job s = Done (push_wan_to_mid w job s) \<and> w < NE_CRYPTO_WORKERS) \<or>
      wan_rx_packet env job s = Done (dp_free job s) \<or> (\<exists>k. wan_rx_packet env job s = Done (dp_free job (?s k)))"
    unfolding e by (cases "dp_crypto_pick_wan_worker True ?pkt (len job)") auto
  then consider (mid) w where "wan_rx_packet env job s = Done (push_wan_to_mid w job s)" "w < NE_CRYPTO_WORKERS"
    | (free) "wan_rx_packet env job s = Done (dp_free job s)"
    | (other) k where "wan_rx_packet env job s = Done (dp_free job (?s k))" by blast
  then show "\<exists>s' x. wan_rx_packet env job s = Done s' \<and> owns_in T F js s' \<and> rx_ok s' \<and>
      frame_size (dp_mem s') = frame_size (dp_mem s) \<and> dispatched wan_to_mid local_to_mid [x] [job] s s'"
  proof cases
    case mid
    then show ?thesis
      using push_wan_placed [OF a(1) mid(2)] push_wan_ok [OF a(1) mid(2) a(3)] a(2) by (auto simp: rx_ok_def)
  next
    case free
    then show ?thesis using b fp by auto
  next
    case other
    then show ?thesis using b fp i f by (auto simp: rx_ok_def)
  qed
qed

lemma rx_packets_ok:
  assumes "rx_step_ok inp oth f" "owns_in T F batch s" "rx_ok s"
    "list_all (\<lambda>p. good_packet (frame_size (dp_mem s)) p \<and> len p \<le> 9014) batch"
  shows "\<exists>s' os. rx_packets f batch s = Done s' \<and> owns_in T F [] s' \<and> rx_ok s' \<and> dispatched inp oth os batch s s'"
  using assms(2-4)
proof (induction batch arbitrary: s)
  case Nil
  then show ?case using dispatched_Nil by auto
next
  case (Cons job rest)
  obtain s1 x where s1: "f job s = Done s1" "owns_in T F rest s1" "rx_ok s1" "frame_size (dp_mem s1) = frame_size (dp_mem s)"
    "dispatched inp oth [x] [job] s s1"
    using assms(1) Cons.prems unfolding rx_step_ok_def by (metis list.pred_inject(2))
  obtain s' os where "rx_packets f rest s1 = Done s'" "owns_in T F [] s'" "rx_ok s'" "dispatched inp oth os rest s1 s'"
    using Cons.IH [OF s1(2,3)] Cons.prems(3) s1(4) by auto
  then show ?case using s1(1) dispatched_Cons [OF s1(5)] by auto
qed

text \<open>C5: Dispatching a received batch sends every packet to a worker or back to the pool: each packet of the batch is
  appended, in order, to the input ring of its side of exactly one existing worker, or its frames are
  returned to the pool when that ring is full or no worker can be named. The input rings get nothing else,
  the other side's input rings and all output rings stay as they are, and no frame is lost or duplicated.
  This holds for both receive threads and needs no room condition.\<close>
theorem rx_dispatch_conserves_frames:
  assumes "accounts_all F batch s" "rx_ok s" "list_all (\<lambda>p. good_packet (frame_size (dp_mem s)) p \<and> len p \<le> 9014) batch"
    and "f = local_rx_packet env \<and> inp = local_to_mid \<and> oth = wan_to_mid \<or> f = wan_rx_packet env \<and> inp = wan_to_mid \<and> oth = local_to_mid"
  shows "\<exists>s' os. rx_packets f batch s = Done s' \<and> accounts_all F [] s' \<and> rx_ok s' \<and> dispatched inp oth os batch s s'"
  using assms(4) rx_packets_ok [OF _ assms(1-3)] local_rx_step_ok wan_rx_step_ok by blast

section \<open>Every output ring has a consumer\<close>

lemma fold_min_le: "fold (\<lambda>q n. if q < n then q else n) qs m \<le> m \<and> (q \<in> set qs \<longrightarrow> fold (\<lambda>q n. if q < n then q else n) qs m \<le> q)"
  for m :: nat
proof (induction qs arbitrary: m)
  case (Cons x qs)
  show ?case using Cons.IH [of "if x < m then x else m"] by (auto split: if_splits)
qed simp

lemma active_slots_bounds:
  assumes "nq \<in> set (live_queue_counts f)" "0 < nq"
  shows "0 < forwarder_active_tx_slots f" "forwarder_active_tx_slots f \<le> NE_TX_SLOTS" "forwarder_active_tx_slots f \<le> nq"
  using assms fold_min_le [of "live_queue_counts f" 4 nq] by (auto simp: forwarder_active_tx_slots_def Let_def)

text \<open>C17: No packet waits in a ring nobody drains: the ring index a worker binds is below the number of transmit threads
  started, and the transmit slot of that index owns a queue on every live interface that has queues.\<close>
theorem every_output_ring_served:
  assumes "nq \<in> set (live_queue_counts f)" "0 < nq"
    and "st = dp_route_set_active_tx_slots (of_nat (forwarder_active_tx_slots f)) st0"
    and "k = dp_out_ring_idx (dp_out_ring_bind i st)"
  shows "k < forwarder_active_tx_slots f \<and> (\<exists>q<nq. xsk_queue_for_tx_slot q k nq)"
proof -
  note b = active_slots_bounds [OF assms(1,2)]
  define n where "n = forwarder_active_tx_slots f"
  have n: "0 < n" "n \<le> 4" "n \<le> nq" using b by (simp_all add: n_def)
  have u: "unat (of_nat n :: u32) = n" using n(2) by (simp add: unat_of_nat)
  have "unat (dp_active_tx_slots st) = n"
    using n u by (auto simp: assms(3) dp_active_tx_slots_def dp_route_set_active_tx_slots_def Let_def word_less_nat_alt word_le_nat_alt unat_eq_zero
        simp flip: n_def)
  then have k: "k < n" using n(1) by (auto simp: assms(4) dp_out_ring_idx_def dp_out_ring_bind_def nat_less_iff)
  then have "xsk_queue_for_tx_slot k k nq" using n by (auto simp: xsk_queue_for_tx_slot_def Let_def)
  moreover have "k < nq" using k n(3) by simp
  ultimately show ?thesis using k by (auto simp flip: n_def)
qed

theorem every_output_ring_served_witness:
  "dp_out_ring_idx (dp_out_ring_bind 3 (dp_route_set_active_tx_slots (of_nat (forwarder_active_tx_slots (fwd (work_state ping)))) route_init))
     < forwarder_active_tx_slots (fwd (work_state ping))"
proof -
  have "1 \<in> set (live_queue_counts (fwd (work_state ping)))"
    by (simp add: live_queue_counts_def work_state_def demo_io_def demo_iface_def upt_conv_Cons Let_def)
  then show ?thesis using every_output_ring_served by simp
qed

section \<open>A ping on its way\<close>

definition quiet_round :: round_env where
  "quiet_round = \<lparr>re_busy = None, re_efd = (\<lambda>i. int i + 20), re_idle_now = 1000, re_core_now = 1000\<rparr>"

lemma ping_good: "good_packet 4096 (work_job ping)" "len (work_job ping) \<le> 9014"
  using work_state_holds [of ping] ping_facts(1) by (auto simp: good_packet_def holds_def) (simp add: work_job_def)

lemma ping_owned: "owns {#0, 4096, 8192#} [work_job ping] (work_state ping)"
proof -
  have l: "0 < length ping" "length ping \<le> 4096" by (simp_all add: ping_facts)
  note h = work_state_holds [OF l]
  have r: "rings_frames (replicate 6 work_ring) = {#}" "rings_good P (replicate 6 work_ring)" for P
    using work_ring_ok by (auto simp: rings_frames_def rings_good_def ring_frames_def ring_ok_def) (simp_all add: numeral_eq_Suc)
  have i: "local_to_mid (fwd (work_state ping)) = replicate 6 work_ring" "wan_to_mid (fwd (work_state ping)) = replicate 6 work_ring"
    by (simp_all add: work_state_def)
  have "fits False {#0, 4096, 8192#} (work_state ping)" using h(1) by (simp add: fits_def holds_def)
  then show ?thesis by (rule ownsI [OF _ _ _ _ h(1)]) (simp_all only: i r add_0_right)
qed

theorem rx_dispatch_conserves_frames_witness:
  "\<exists>s' os. rx_packets (local_rx_packet work_env) [work_job ping] ((work_state ping)\<lparr>rt := route_init\<rparr>) = Done s' \<and>
     accounts_all {#0, 4096, 8192#} [] s' \<and> rx_ok s' \<and>
     dispatched local_to_mid wan_to_mid os [work_job ping] ((work_state ping)\<lparr>rt := route_init\<rparr>) s'"
proof -
  have "rx_ok ((work_state ping)\<lparr>rt := route_init\<rparr>)"
    using route_init_inv by (simp add: rx_ok_def dp_crypto_current_worker_idx_def) (simp add: route_init_def)
  moreover have "frame_size (dp_mem (work_state ping)) = 4096" using work_state_holds(3) [of ping] ping_facts(1) by simp
  ultimately show ?thesis
    using rx_dispatch_conserves_frames [of _ "[work_job ping]" "(work_state ping)\<lparr>rt := route_init\<rparr>" _ work_env
        local_to_mid wan_to_mid] owns_mono [OF ping_owned] ping_good
    by simp
qed


end
