(* ===== verification/Host.thy ===== *)
theory Host
  imports Forwarder_Safe "HOL-Library.Char_ord"
begin

text \<open>
  What set-up and tear-down work on: \<open>host\<close> is what the operating system, libxdp and libbpf answer, \<open>ledger\<close> what the process
  holds there, so that a leak is a difference of ledgers, and \<open>ne_setup\<close> the whole \<^verbatim>\<open>struct ne_pair\<close> of
  \<^verbatim>\<open>inc/core/iface/interface.h\<close>: the dataplane's view \<open>ne_pair_io\<close> with the fields only set-up uses, and the ledger.
\<close>

section \<open>The host\<close>

text \<open>What \<^verbatim>\<open>xsk_socket__create_shared\<close> stores: the socket's descriptor and the four rings.\<close>

record xsk_new =
  new_fd :: int
  new_rx :: "xdp_desc xsk_ring"
  new_tx :: "xdp_desc xsk_ring"
  new_fq :: "u64 xsk_ring"
  new_cq :: "u64 xsk_ring"

text \<open>Queries by interface name: the number of \<^verbatim>\<open>rx-\<close> entries under \<^verbatim>\<open>/sys/class/net\<close> (\<open>None\<close> when the directory cannot be
  read), the index (0 when there is none), the up flag; the success of the \<^verbatim>\<open>ip\<close> and \<^verbatim>\<open>ethtool\<close> commands; the success
  of the allocations; the UMEM's rings and descriptor; the answer to the \<open>n\<close>-th socket creation, given the fill and
  completion rings passed in; and, per object file, what libbpf says.\<close>

record host =
  h_rx_queues :: "string \<Rightarrow> nat option"
  h_ifindex :: "string \<Rightarrow> nat"
  h_flags_up :: "string \<Rightarrow> bool"
  h_promisc :: "string \<Rightarrow> bool"
  h_ethtool :: "string \<Rightarrow> bool"
  h_xdp_off :: "string \<Rightarrow> bool"
  h_mmap :: bool
  h_pool_calloc :: bool
  h_pool_lock :: bool
  h_umem :: "(u64 xsk_ring \<times> u64 xsk_ring) option"
  h_umem_fd :: int
  h_xsk :: "nat \<Rightarrow> string \<Rightarrow> nat \<Rightarrow> u64 xsk_ring \<times> u64 xsk_ring \<Rightarrow> xsk_new option"
  h_readable :: "string \<Rightarrow> bool"
  h_self_exe :: "string option"
  h_bpf_open :: "string \<Rightarrow> bool"
  h_bpf_prog :: "string \<Rightarrow> string \<Rightarrow> bool"
  h_bpf_map :: "string \<Rightarrow> string \<Rightarrow> bool"
  h_bpf_flags :: "string \<Rightarrow> bool"
  h_bpf_load :: "string \<Rightarrow> bool"
  h_bpf_attach :: "nat \<Rightarrow> bool"
  h_update_xskmap :: "int \<Rightarrow> bool"
  h_update_elem :: "nat \<Rightarrow> bool"

section \<open>The ledger\<close>

text \<open>Open sockets by descriptor, sockets that refer to the UMEM, UMEM registrations, mapped areas; open BPF objects, numbered by
  the order in which they were opened; interfaces, by index, with an XDP program; per object the sockets in its
  \<^verbatim>\<open>xsks_map\<close> by queue and the EtherType in its \<^verbatim>\<open>wan_config_map\<close>; and the number of socket creations so far.\<close>

record ledger =
  open_xsks :: "int multiset"
  umem_refs :: nat
  open_umems :: nat
  mapped :: nat
  open_bpf :: "nat multiset"
  bpf_opened :: nat
  attached :: "nat \<Rightarrow> bool"
  xskmap :: "nat \<Rightarrow> nat \<Rightarrow> int option"
  wan_config :: "nat \<Rightarrow> u16 option"
  xsk_calls :: nat

definition xsk_socket_delete :: "int \<Rightarrow> ledger \<Rightarrow> ledger" where
  \<comment> \<open>\<^verbatim>\<open>xsk_socket__delete\<close>\<close>
  "xsk_socket_delete fd l = l\<lparr>open_xsks := open_xsks l - {#fd#}, umem_refs := umem_refs l - 1\<rparr>"

definition xsk_umem_delete :: "ledger \<Rightarrow> ledger" where
  \<comment> \<open>\<^verbatim>\<open>xsk_umem__delete\<close> refuses while sockets refer to the UMEM\<close>
  "xsk_umem_delete l = (if umem_refs l \<noteq> 0 then l else l\<lparr>open_umems := open_umems l - 1\<rparr>)"

definition bpf_object_close :: "nat \<Rightarrow> ledger \<Rightarrow> ledger" where
  "bpf_object_close ob l = l\<lparr>open_bpf := open_bpf l - {#ob#}\<rparr>"

section \<open>The pair\<close>

definition NE_RING :: u32 where "NE_RING = 16384"
definition NE_N_FRAMES :: u32 where "NE_N_FRAMES = 524288"
definition NE_FQ_PREFILL :: nat where "NE_FQ_PREFILL = 16384"
definition NE_QUEUE_OVERRIDE :: nat where "NE_QUEUE_OVERRIDE = 0"
definition MAX_INTERFACES :: nat where "MAX_INTERFACES = 16"
definition MAX_QUEUES :: nat where "MAX_QUEUES = 64"
definition XDP_FLAGS_DRV_MODE :: u32 where "XDP_FLAGS_DRV_MODE = 4"

record ne_setup =
  io :: ne_pair_io
  umem :: bool
  umem_fq :: "(nat \<times> nat) option"
  area :: bool
  bpf_locals :: "nat option list"
  bpf_wans :: "nat option list"
  xdp_local_on :: "bool list"
  xdp_wan_on :: "bool list"
  xdp_flags :: u32
  led :: ledger

text \<open>\<open>umem_fq\<close> is \<open>(umem_fq_li, umem_fq_q)\<close>, \<open>None\<close> for -1; \<open>area\<close> tells that \<^verbatim>\<open>bufs\<close> is mapped.\<close>

datatype side = Lan | Wan

fun ifaces :: "side \<Rightarrow> ne_pair_io \<Rightarrow> ne_iface list" where
  "ifaces Lan p = locals p"
| "ifaces Wan p = wans p"

fun iface_count :: "side \<Rightarrow> ne_pair_io \<Rightarrow> nat" where
  "iface_count Lan p = local_count p"
| "iface_count Wan p = wan_count p"

fun live_flags :: "side \<Rightarrow> ne_pair_io \<Rightarrow> bool list" where
  "live_flags Lan p = local_live p"
| "live_flags Wan p = wan_live p"

fun set_ifaces :: "side \<Rightarrow> ne_iface list \<Rightarrow> ne_pair_io \<Rightarrow> ne_pair_io" where
  "set_ifaces Lan fs p = p\<lparr>locals := fs\<rparr>"
| "set_ifaces Wan fs p = p\<lparr>wans := fs\<rparr>"

definition iface_at :: "side \<Rightarrow> nat \<Rightarrow> ne_setup \<Rightarrow> ne_iface" where
  "iface_at sd i s = ifaces sd (io s) ! i"

definition put_iface :: "side \<Rightarrow> nat \<Rightarrow> ne_iface \<Rightarrow> ne_setup \<Rightarrow> ne_setup" where
  "put_iface sd i f s = s\<lparr>io := set_ifaces sd ((ifaces sd (io s))[i := f]) (io s)\<rparr>"

fun bpf_objs :: "side \<Rightarrow> ne_setup \<Rightarrow> nat option list" where
  "bpf_objs Lan s = bpf_locals s"
| "bpf_objs Wan s = bpf_wans s"

fun set_bpf :: "side \<Rightarrow> nat \<Rightarrow> nat option \<Rightarrow> ne_setup \<Rightarrow> ne_setup" where
  "set_bpf Lan i ob s = s\<lparr>bpf_locals := (bpf_locals s)[i := ob]\<rparr>"
| "set_bpf Wan i ob s = s\<lparr>bpf_wans := (bpf_wans s)[i := ob]\<rparr>"

fun set_xdp_on :: "side \<Rightarrow> nat \<Rightarrow> bool \<Rightarrow> ne_setup \<Rightarrow> ne_setup" where
  "set_xdp_on Lan i on s = s\<lparr>xdp_local_on := (xdp_local_on s)[i := on]\<rparr>"
| "set_xdp_on Wan i on s = s\<lparr>xdp_wan_on := (xdp_wan_on s)[i := on]\<rparr>"

definition set_led :: "(ledger \<Rightarrow> ledger) \<Rightarrow> ne_setup \<Rightarrow> ne_setup" where
  "set_led f s = s\<lparr>led := f (led s)\<rparr>"

fun cfg_names :: "side \<Rightarrow> app_config \<Rightarrow> string list" where
  "cfg_names Lan cfg = cfg_locals cfg"
| "cfg_names Wan cfg = cfg_wans cfg"

fun cfg_count :: "side \<Rightarrow> app_config \<Rightarrow> nat" where
  "cfg_count Lan cfg = cfg_local_count cfg"
| "cfg_count Wan cfg = cfg_wan_count cfg"

text \<open>The structures after \<^verbatim>\<open>memset(p, 0, sizeof(*p))\<close>.\<close>

definition zero_xsk_ring :: "'a xsk_ring" where
  "zero_xsk_ring = \<lparr>cached_prod = 0, cached_cons = 0, xr_mask = 0, xr_size = 0, producer = 0, consumer = 0, xr_ring = [], need_wakeup = False\<rparr>"

definition zero_queue :: ne_xsk_queue where
  "zero_queue = \<lparr>xsk = None, q_rx = zero_xsk_ring, q_tx = zero_xsk_ring, q_fq = zero_xsk_ring, q_cq = zero_xsk_ring, rx_pending = 0,
     rx_reject_addrs = [], rx_chain_dropped = 0, rx_chain = zero_packet, rx_chain_invalid = False\<rparr>"

definition zero_iface :: ne_iface where
  "zero_iface = \<lparr>ifindex = 0, ifname = [], queue_count = 0, queues = replicate MAX_QUEUES zero_queue, tx_no_free = 0,
     if_xdp_flags = 0, xdp_sg_enabled = False\<rparr>"

definition zero_pair_io :: ne_pair_io where
  "zero_pair_io = \<lparr>io_mem = \<lparr>bufs = [], frame_size = 0, pool = zero_pool\<rparr>, n_frames = 0,
     locals = replicate MAX_INTERFACES zero_iface, local_count = 0, wans = replicate MAX_INTERFACES zero_iface, wan_count = 0,
     local_queue_total = 0, wan_queue_total = 0, local_live = replicate MAX_INTERFACES False, wan_live = replicate MAX_INTERFACES False\<rparr>"

definition zero_setup :: "ledger \<Rightarrow> ne_setup" where
  "zero_setup l = \<lparr>io = zero_pair_io, umem = False, umem_fq = Some (0, 0), area = False,
     bpf_locals = replicate MAX_INTERFACES None, bpf_wans = replicate MAX_INTERFACES None,
     xdp_local_on = replicate MAX_INTERFACES False, xdp_wan_on = replicate MAX_INTERFACES False, xdp_flags = 0, led = l\<rparr>"

section \<open>Interface names\<close>

definition isalnum :: "char \<Rightarrow> bool" where
  \<comment> \<open>in the C locale\<close>
  "isalnum c \<longleftrightarrow> (CHR ''0'' \<le> c \<and> c \<le> CHR ''9'') \<or> (CHR ''A'' \<le> c \<and> c \<le> CHR ''Z'') \<or> (CHR ''a'' \<le> c \<and> c \<le> CHR ''z'')"

text \<open>A sequence of steps each of which may fail; the first failure ends it.\<close>

fun run_steps :: "('s \<Rightarrow> bool \<times> 's) list \<Rightarrow> 's \<Rightarrow> bool \<times> 's" where
  "run_steps [] s = (True, s)"
| "run_steps (f # fs) s = (case f s of (False, s1) \<Rightarrow> (False, s1) | (True, s1) \<Rightarrow> run_steps fs s1)"

end
