(* ===== verification/Xdp_Attach.thy ===== *)
theory Xdp_Attach
  imports Host
begin

text \<open>
  \<^verbatim>\<open>src/core/iface/xdp_attach.c\<close>: removing XDP programs from interfaces, loading the two BPF objects, attaching their programs
  and registering the AF_XDP sockets in their maps. Sleeps and log lines have no effect on the state.
\<close>

section \<open>Detaching\<close>

definition xdp_attach_ifname_safe :: "string \<Rightarrow> bool" where
  "xdp_attach_ifname_safe ifn \<longleftrightarrow>
     ifn \<noteq> [] \<and> list_all (\<lambda>c. \<not> (\<not> isalnum c \<and> c \<noteq> CHR ''_'' \<and> c \<noteq> CHR ''-'' \<and> c \<noteq> CHR ''.'')) ifn"

definition xdp_attach_link_off :: "host \<Rightarrow> string \<Rightarrow> ledger \<Rightarrow> ledger" where
  "xdp_attach_link_off h ifn l =
     (if \<not> xdp_attach_ifname_safe ifn then l
      else if h_xdp_off h ifn then l\<lparr>attached := (attached l)(h_ifindex h ifn := False)\<rparr> else l)"

definition xdp_attach_detach_ifname :: "host \<Rightarrow> string \<Rightarrow> ledger \<Rightarrow> ledger" where
  "xdp_attach_detach_ifname h ifn l = (if ifn = [] then l else xdp_attach_link_off h ifn l)"

definition xdp_attach_detach_config :: "host \<Rightarrow> app_config \<Rightarrow> ledger \<Rightarrow> ledger" where
  "xdp_attach_detach_config h cfg l =
     fold (\<lambda>i. xdp_attach_detach_ifname h (cfg_wans cfg ! i)) [0..<min (cfg_wan_count cfg) MAX_INTERFACES]
       (fold (\<lambda>i. xdp_attach_detach_ifname h (cfg_locals cfg ! i)) [0..<min (cfg_local_count cfg) MAX_INTERFACES] l)"

definition xdp_attach_prepare_init :: "host \<Rightarrow> app_config \<Rightarrow> ledger \<Rightarrow> ledger" where
  "xdp_attach_prepare_init h cfg l = xdp_attach_detach_config h cfg (xdp_attach_detach_config h cfg l)"

section \<open>Loading\<close>

definition xdp_attach_ifindex :: "host \<Rightarrow> string \<Rightarrow> nat option" where
  "xdp_attach_ifindex h ifn = (if ifn = [] then None else if h_ifindex h ifn = 0 then None else Some (h_ifindex h ifn))"

definition xdp_attach_prog :: "host \<Rightarrow> nat \<Rightarrow> ledger \<Rightarrow> bool \<times> ledger" where
  "xdp_attach_prog h idx l =
     (if h_bpf_attach h idx then (True, l\<lparr>attached := (attached l)(idx := True)\<rparr>) else (False, l))"

definition PATH_MAX :: nat where "PATH_MAX = 4096"

text \<open>\<^verbatim>\<open>strrchr(s, '/')\<close> and cutting there.\<close>

definition cut_last_slash :: "string \<Rightarrow> string option" where
  "cut_last_slash p = (case dropWhile (\<lambda>c. c \<noteq> CHR ''/'') (rev p) of [] \<Rightarrow> None | _ # r \<Rightarrow> Some (rev r))"

definition resolve_bpf_object_path :: "host \<Rightarrow> string \<Rightarrow> string" where
  "resolve_bpf_object_path h p =
     (if take 1 p = ''/'' \<or> h_readable h p then p
      else case h_self_exe h of
        None \<Rightarrow> p
      | Some exe \<Rightarrow>
          if exe = [] then p
          else case cut_last_slash (take (PATH_MAX - 1) exe) of
            None \<Rightarrow> p
          | Some base \<Rightarrow> if PATH_MAX \<le> length (base @ ''/'' @ p) then p else base @ ''/'' @ p)"

definition strstr :: "string \<Rightarrow> string \<Rightarrow> bool" where
  \<comment> \<open>whether the second argument occurs in the first\<close>
  "strstr hay needle \<longleftrightarrow> list_ex (\<lambda>k. take (length needle) (drop k hay) = needle) [0..<Suc (length hay)]"

definition open_bpf_object :: "host \<Rightarrow> string \<Rightarrow> string \<Rightarrow> string \<Rightarrow> ledger \<Rightarrow> nat option \<times> ledger" where
  "open_bpf_object h p prog_name map_name l =
     (let open_path = resolve_bpf_object_path h p in
      if \<not> h_bpf_open h open_path then (None, l)
      else let ob = bpf_opened l;
               la = l\<lparr>open_bpf := open_bpf l + {#ob#}, bpf_opened := bpf_opened l + 1\<rparr> in
        if \<not> h_bpf_prog h open_path prog_name \<or> \<not> h_bpf_map h open_path map_name then (None, bpf_object_close ob la)
        else if strstr prog_name ''_frags'' \<and> \<not> h_bpf_flags h prog_name then (None, bpf_object_close ob la)
        else if \<not> h_bpf_load h open_path then (None, bpf_object_close ob la)
        else (Some ob, la))"

definition update_xsk_map_queue :: "host \<Rightarrow> int \<Rightarrow> nat \<Rightarrow> nat \<Rightarrow> ledger \<Rightarrow> bool \<times> ledger" where
  "update_xsk_map_queue h fd ob q l =
     (if h_update_xskmap h fd \<or> h_update_elem h q
      then (True, l\<lparr>xskmap := (xskmap l)(ob := (xskmap l ob)(q \<mapsto> fd))\<rparr>) else (False, l))"

text \<open>The loop over the queues from the first index of the list on.\<close>

fun update_xsk_map_loop :: "host \<Rightarrow> ne_iface \<Rightarrow> nat \<Rightarrow> nat list \<Rightarrow> ledger \<Rightarrow> bool \<times> ledger" where
  "update_xsk_map_loop h iface ob [] l = (True, l)"
| "update_xsk_map_loop h iface ob (q # qs) l =
     (case xsk (queues iface ! q) of
        None \<Rightarrow> (False, l)
      | Some fd \<Rightarrow> (case update_xsk_map_queue h fd ob q l of
          (False, la) \<Rightarrow> (False, la)
        | (True, la) \<Rightarrow> update_xsk_map_loop h iface ob qs la))"

definition update_xsk_map_iface :: "host \<Rightarrow> ne_iface \<Rightarrow> nat \<Rightarrow> ledger \<Rightarrow> bool \<times> ledger" where
  "update_xsk_map_iface h iface ob l = update_xsk_map_loop h iface ob [0..<queue_count iface] l"

definition update_wan_fake_ethertype :: "host \<Rightarrow> string \<Rightarrow> nat \<Rightarrow> ledger \<Rightarrow> ledger" where
  "update_wan_fake_ethertype h open_path ob l =
     (if \<not> h_bpf_map h open_path ''wan_config_map'' then l
      else if h_update_elem h 0 then l\<lparr>wan_config := (wan_config l)(ob \<mapsto> NE_L2_FAKE_ETHERTYPE)\<rparr> else l)"

section \<open>Attaching\<close>

definition xdp_attach_bind_local :: "host \<Rightarrow> app_config \<Rightarrow> nat \<Rightarrow> ne_setup \<Rightarrow> bool \<times> ne_setup" where
  "xdp_attach_bind_local h cfg li s =
     (if local_count (io s) \<le> li then (False, s)
      else let iface = locals (io s) ! li;
               prog_name = (if xdp_sg_enabled iface then ''xdp_redirect_prog_frags'' else ''xdp_redirect_prog'') in
      if xdp_attach_ifindex h (ifname iface) = None then (False, s)
      else let s1 = (case bpf_locals s ! li of
                       None \<Rightarrow> s
                     | Some ob \<Rightarrow> set_xdp_on Lan li False (set_bpf Lan li None (set_led (bpf_object_close ob) s))) in
      case open_bpf_object h (cfg_bpf_file cfg) prog_name ''xsks_map'' (led s1) of
        (None, l) \<Rightarrow> (False, s1\<lparr>led := l\<rparr>)
      | (Some ob, l) \<Rightarrow>
          (let s2 = set_bpf Lan li (Some ob) (s1\<lparr>led := l\<rparr>);
               la = xdp_attach_link_off h (ifname iface) l in
           case xdp_attach_prog h (ifindex iface) la of
             (False, lb) \<Rightarrow> (False, set_bpf Lan li None (s2\<lparr>led := bpf_object_close ob lb\<rparr>))
           | (True, lb) \<Rightarrow>
               (let (ok, lc) = update_xsk_map_iface h iface ob lb
                in (ok, (set_xdp_on Lan li True s2)\<lparr>led := lc\<rparr>))))"

definition xdp_attach_bind_wan :: "host \<Rightarrow> app_config \<Rightarrow> nat \<Rightarrow> ne_setup \<Rightarrow> bool \<times> ne_setup" where
  "xdp_attach_bind_wan h cfg wi s =
     (if wan_count (io s) \<le> wi then (False, s)
      else let iface = wans (io s) ! wi;
               prog_name = (if xdp_sg_enabled iface then ''xdp_wan_redirect_prog_frags'' else ''xdp_wan_redirect_prog'') in
      if xdp_attach_ifindex h (ifname iface) = None then (False, s)
      else case open_bpf_object h (cfg_bpf_wan_file cfg) prog_name ''wan_xsks_map'' (led s) of
        (None, l) \<Rightarrow> (False, s\<lparr>led := l\<rparr>)
      | (Some ob, l) \<Rightarrow>
          (let s2 = set_bpf Wan wi (Some ob) (s\<lparr>led := l\<rparr>);
               la = xdp_attach_link_off h (ifname iface)
                      (update_wan_fake_ethertype h (resolve_bpf_object_path h (cfg_bpf_wan_file cfg)) ob l) in
           case xdp_attach_prog h (ifindex iface) la of
             (False, lb) \<Rightarrow> (False, set_bpf Wan wi None (s2\<lparr>led := bpf_object_close ob lb\<rparr>))
           | (True, lb) \<Rightarrow>
               (let (ok, lc) = update_xsk_map_iface h iface ob lb
                in (ok, (set_xdp_on Wan wi True s2)\<lparr>led := lc\<rparr>))))"

definition xdp_attach_all :: "host \<Rightarrow> app_config \<Rightarrow> ne_setup \<Rightarrow> bool \<times> ne_setup" where
  "xdp_attach_all h cfg s =
     run_steps (map (xdp_attach_bind_local h cfg) [0..<local_count (io s)] @
                map (xdp_attach_bind_wan h cfg) [0..<wan_count (io s)]) s"

end
