(* ===== verification/Iface_Setup.thy ===== *)
theory Iface_Setup
  imports Xdp_Attach
begin

text \<open>
  Opening and closing the interfaces (\<^verbatim>\<open>src/core/iface/xdp_interface.c\<close>): queue counts, preflight checks, the memory area and
  its pool, the AF_XDP sockets with their rollback, the prefill of the fill queues, and \<^verbatim>\<open>ne_pair_close\<close>. Log
  lines, sleeps and \<^verbatim>\<open>setrlimit\<close> have no effect on the state. Heap blocks are not in the ledger.
\<close>

section \<open>Interface queries\<close>

definition ifname_is_safe :: "string \<Rightarrow> bool" where
  "ifname_is_safe ifn \<longleftrightarrow> ifn \<noteq> [] \<and> list_all (\<lambda>c. isalnum c \<or> c = CHR ''_'' \<or> c = CHR ''-'' \<or> c = CHR ''.'') ifn"

definition interface_set_queue_count :: "host \<Rightarrow> string \<Rightarrow> nat \<Rightarrow> bool" where
  \<comment> \<open>whether one of the two \<^verbatim>\<open>ethtool\<close> commands succeeds\<close>
  "interface_set_queue_count h ifn desired = (if \<not> ifname_is_safe ifn \<or> desired = 0 then False else h_ethtool h ifn)"

definition interface_set_promisc :: "host \<Rightarrow> string \<Rightarrow> bool" where
  "interface_set_promisc h ifn = (if \<not> ifname_is_safe ifn then False else h_promisc h ifn)"

definition interface_get_queue_count :: "host \<Rightarrow> string \<Rightarrow> nat" where
  "interface_get_queue_count h ifn =
     (if \<not> ifname_is_safe ifn then 1
      else case h_rx_queues h ifn of None \<Rightarrow> 1 | Some n \<Rightarrow> if n > 0 then n else 1)"

definition resolve_iface_queue_count :: "host \<Rightarrow> string \<Rightarrow> nat" where
  "resolve_iface_queue_count h ifn =
     (let hw = interface_get_queue_count h ifn;
          hw = (if hw < 1 then 1 else hw);
          want = (if NE_QUEUE_OVERRIDE > 0 then NE_QUEUE_OVERRIDE else hw);
          want = (if MAX_QUEUES < want then MAX_QUEUES else want)
      in if want < 1 then 1 else want)"

definition apply_iface_queue_count :: "host \<Rightarrow> string \<Rightarrow> nat \<Rightarrow> bool" where
  "apply_iface_queue_count h ifn want =
     (if NE_QUEUE_OVERRIDE > 0 \<and> interface_get_queue_count h ifn \<noteq> want then interface_set_queue_count h ifn want else True)"

definition interface_is_up :: "host \<Rightarrow> string \<Rightarrow> bool" where
  "interface_is_up h ifn = (if \<not> ifname_is_safe ifn then False else h_flags_up h ifn)"

definition interface_preflight :: "host \<Rightarrow> string \<Rightarrow> bool" where
  "interface_preflight h ifn =
     (if \<not> ifname_is_safe ifn then False else if h_ifindex h ifn = 0 then False else interface_is_up h ifn)"

section \<open>Sockets of one interface\<close>

definition is_umem_fq_owner_queue :: "ne_setup \<Rightarrow> side \<Rightarrow> nat \<Rightarrow> nat \<Rightarrow> bool" where
  "is_umem_fq_owner_queue s sd i q =
     (case umem_fq s of None \<Rightarrow> False | Some (li, fq) \<Rightarrow> if MAX_INTERFACES \<le> li then False else sd = Lan \<and> i = li \<and> q = fq)"

definition zero_queue_rings :: "ne_xsk_queue \<Rightarrow> bool \<Rightarrow> ne_xsk_queue" where
  "zero_queue_rings slot preserve_fq_cq =
     (let sl = slot\<lparr>rx_pending := 0, rx_reject_addrs := [], rx_chain := zero_packet, rx_chain_invalid := False,
                    q_rx := zero_xsk_ring, q_tx := zero_xsk_ring\<rparr>
      in if \<not> preserve_fq_cq then sl\<lparr>q_fq := zero_xsk_ring, q_cq := zero_xsk_ring\<rparr> else sl)"

text \<open>Deleting a queue's socket: \<^verbatim>\<open>xsk_socket__delete(slot->xsk); slot->xsk = NULL\<close>.\<close>

definition delete_xsk :: "ne_xsk_queue \<Rightarrow> ledger \<Rightarrow> ne_xsk_queue \<times> ledger" where
  "delete_xsk slot l = (case xsk slot of None \<Rightarrow> (slot, l) | Some fd \<Rightarrow> (slot\<lparr>xsk := None\<rparr>, xsk_socket_delete fd l))"

definition queue_holds_umem_fd :: "host \<Rightarrow> bool \<Rightarrow> ne_xsk_queue \<Rightarrow> bool" where
  \<comment> \<open>\<open>um\<close> tells that \<^verbatim>\<open>p->umem\<close> is set\<close>
  "queue_holds_umem_fd h um slot \<longleftrightarrow> um \<and> xsk slot = Some (h_umem_fd h)"

definition delete_in_pass :: "host \<Rightarrow> bool \<Rightarrow> nat \<Rightarrow> ne_xsk_queue \<Rightarrow> ledger \<Rightarrow> ne_xsk_queue \<times> ledger" where
  "delete_in_pass h um pass slot l =
     (if pass = 0 \<and> queue_holds_umem_fd h um slot \<or> pass = 1 \<and> \<not> queue_holds_umem_fd h um slot then (slot, l)
      else delete_xsk slot l)"

definition delete_iface_xsks :: "host \<Rightarrow> bool \<Rightarrow> nat \<Rightarrow> ne_iface \<Rightarrow> ledger \<Rightarrow> ne_iface \<times> ledger" where
  "delete_iface_xsks h um nq iface l =
     (let (qs, l1) = fold (\<lambda>pass. fold (list_step (\<lambda>_. True) (delete_in_pass h um pass)) [0..<nq]) [0, 1] (queues iface, l)
      in (iface\<lparr>queues := qs\<rparr>, l1))"

definition on_iface :: "side \<Rightarrow> nat \<Rightarrow> (ne_iface \<Rightarrow> ledger \<Rightarrow> ne_iface \<times> ledger) \<Rightarrow> ne_setup \<Rightarrow> ne_setup" where
  "on_iface sd i f s = (let (iface, l) = f (iface_at sd i s) (led s) in (put_iface sd i iface s)\<lparr>led := l\<rparr>)"

definition delete_side :: "host \<Rightarrow> side \<Rightarrow> nat \<Rightarrow> ne_setup \<Rightarrow> ne_setup" where
  "delete_side h sd i s =
     (if live_flags sd (io s) ! i \<or> queue_count (iface_at sd i s) > 0
      then on_iface sd i (\<lambda>iface. delete_iface_xsks h (umem s) (queue_count iface) iface) s else s)"

definition delete_all_live_xsks :: "host \<Rightarrow> ne_setup \<Rightarrow> ne_setup" where
  "delete_all_live_xsks h s = fold (\<lambda>i s. delete_side h Wan i (delete_side h Lan i s)) [0..<MAX_INTERFACES] s"

definition xsk_create_queue :: "host \<Rightarrow> string \<Rightarrow> nat \<Rightarrow> bool \<Rightarrow> ne_xsk_queue \<Rightarrow> ledger \<Rightarrow> bool \<times> ne_xsk_queue \<times> ledger" where
  "xsk_create_queue h ifn q preserve slot0 l =
     (let slot = zero_queue_rings slot0 preserve;
          la = l\<lparr>xsk_calls := xsk_calls l + 1\<rparr> in
      case h_xsk h (xsk_calls l) ifn q (q_fq slot, q_cq slot) of
        None \<Rightarrow> (False, slot, la)
      | Some x \<Rightarrow> (True, slot\<lparr>xsk := Some (new_fd x), q_rx := new_rx x, q_tx := new_tx x, q_fq := new_fq x, q_cq := new_cq x\<rparr>,
                   la\<lparr>open_xsks := open_xsks la + {#new_fd x#}, umem_refs := umem_refs la + 1\<rparr>))"

text \<open>One queue of the rollback, whose \<open>own\<close> tells the queue with the UMEM's own rings.\<close>

definition rollback_queue :: "bool \<Rightarrow> ne_xsk_queue \<Rightarrow> ledger \<Rightarrow> ne_xsk_queue \<times> ledger" where
  "rollback_queue own slot l = (let (slot1, la) = delete_xsk slot l in (zero_queue_rings slot1 own, la))"

definition open_iface_queues_rollback :: "(nat \<Rightarrow> bool) \<Rightarrow> nat \<Rightarrow> ne_iface \<Rightarrow> ledger \<Rightarrow> ne_iface \<times> ledger" where
  "open_iface_queues_rollback own opened iface l =
     (let (qs, la) = fold (\<lambda>j. list_step (\<lambda>_. True) (rollback_queue (own j)) j) [0..<opened] (queues iface, l)
      in (iface\<lparr>queues := qs, queue_count := 0, ifindex := 0, ifname := [], if_xdp_flags := 0, xdp_sg_enabled := False\<rparr>, la))"

text \<open>The creation loop over the given queues; the first component is the queue that failed, if any.\<close>

fun create_queues :: "host \<Rightarrow> string \<Rightarrow> (nat \<Rightarrow> bool) \<Rightarrow> nat list \<Rightarrow> ne_xsk_queue list \<Rightarrow> ledger \<Rightarrow> nat option \<times> ne_xsk_queue list \<times> ledger" where
  "create_queues h ifn own [] qs l = (None, qs, l)"
| "create_queues h ifn own (q # is) qs l =
     (case xsk_create_queue h ifn q (own q) (qs ! q) l of
        (False, slot, la) \<Rightarrow> (Some q, qs[q := slot], la)
      | (True, slot, la) \<Rightarrow> create_queues h ifn own is (qs[q := slot]) la)"

definition open_iface_queues :: "host \<Rightarrow> string \<Rightarrow> (nat \<Rightarrow> bool) \<Rightarrow> nat \<Rightarrow> ne_iface \<Rightarrow> ledger \<Rightarrow> bool \<times> ne_iface \<times> ledger" where
  "open_iface_queues h ifn own n iface l =
     (if n = 0 \<or> MAX_QUEUES < n then (False, iface, l)
      else let f1 = iface\<lparr>ifindex := h_ifindex h ifn\<rparr> in
      if ifindex f1 = 0 then (False, f1, l)
      else let f2 = f1\<lparr>ifname := copy_ifname ifn, queue_count := n, if_xdp_flags := 0, xdp_sg_enabled := False\<rparr> in
      case create_queues h ifn own [0..<n] (queues f2) l of
        (None, qs, la) \<Rightarrow> (True, f2\<lparr>queues := qs, if_xdp_flags := XDP_FLAGS_DRV_MODE, xdp_sg_enabled := True\<rparr>, la)
      | (Some q, qs, la) \<Rightarrow> (let (f3, lb) = open_iface_queues_rollback own q (f2\<lparr>queues := qs\<rparr>) la in (False, f3, lb)))"

section \<open>Prefill\<close>

definition prefill_iface :: "nat \<Rightarrow> ne_iface \<Rightarrow> ne_pool \<Rightarrow> ne_iface \<times> ne_pool" where
  "prefill_iface want_per_queue iface pl = for_queues (\<lambda>_. True) (\<lambda>slot pl. prefill_queue slot pl want_per_queue) iface pl"

definition prefill_per_queue :: "nat \<Rightarrow> nat \<Rightarrow> nat" where
  \<comment> \<open>the first argument is \<^verbatim>\<open>p->n_frames\<close>\<close>
  "prefill_per_queue frames queue_total =
     (if queue_total = 0 then NE_BATCH_SIZE
      else let budget = frames * 3 div 4;
               per_queue = budget div queue_total;
               per_queue = (if NE_FQ_PREFILL < per_queue then NE_FQ_PREFILL else per_queue)
           in if per_queue < NE_BATCH_SIZE then NE_BATCH_SIZE else per_queue)"

section \<open>Opening\<close>

fun add_queue_total :: "side \<Rightarrow> nat \<Rightarrow> ne_pair_io \<Rightarrow> ne_pair_io" where
  "add_queue_total Lan n p = p\<lparr>local_queue_total := local_queue_total p + n\<rparr>"
| "add_queue_total Wan n p = p\<lparr>wan_queue_total := wan_queue_total p + n\<rparr>"

definition preflight_step :: "host \<Rightarrow> app_config \<Rightarrow> side \<Rightarrow> nat \<Rightarrow> ne_setup \<Rightarrow> bool \<times> ne_setup" where
  "preflight_step h cfg sd i s =
     (let ifn = cfg_names sd cfg ! i; nq = resolve_iface_queue_count h ifn in
      if \<not> interface_preflight h ifn then (False, s)
      else if \<not> apply_iface_queue_count h ifn nq then (False, s)
      else let s1 = put_iface sd i ((iface_at sd i s)\<lparr>queue_count := nq\<rparr>) s
           in (True, s1\<lparr>io := add_queue_total sd nq (io s1)\<rparr>))"

definition mmap_step :: "host \<Rightarrow> ne_setup \<Rightarrow> bool \<times> ne_setup" where
  "mmap_step h s =
     (let n = unat NE_N_FRAMES;
          s1 = s\<lparr>io := (io s)\<lparr>n_frames := n\<rparr>\<rparr> in
      if \<not> h_mmap h then (False, s1)
      else (True, s1\<lparr>io := (io s1)\<lparr>io_mem := (io_mem (io s1))\<lparr>bufs := replicate (n * frame_size (io_mem (io s1))) 0\<rparr>\<rparr>,
                     area := True, led := (led s1)\<lparr>mapped := mapped (led s1) + 1\<rparr>\<rparr>))"

definition pool_fill :: "nat \<Rightarrow> nat \<Rightarrow> ne_pool \<Rightarrow> ne_pool" where
  \<comment> \<open>the loop that pushes the address of every frame\<close>
  "pool_fill n fs pl = fold (\<lambda>i pl. snd (pool_push pl [of_nat i * of_nat fs])) [0..<n] pl"

definition pool_step :: "host \<Rightarrow> ne_setup \<Rightarrow> bool \<times> ne_setup" where
  "pool_step h s =
     (let m = io_mem (io s);
          (ok, pl) = pool_init (h_pool_calloc h) (h_pool_lock h) (pool m) (of_nat (n_frames (io s)));
          pl1 = (if ok then pool_fill (n_frames (io s)) (frame_size m) pl else pl)
      in (ok, s\<lparr>io := (io s)\<lparr>io_mem := m\<lparr>pool := pl1\<rparr>\<rparr>\<rparr>))"

definition promisc_step :: "host \<Rightarrow> app_config \<Rightarrow> side \<Rightarrow> nat \<Rightarrow> ne_setup \<Rightarrow> bool \<times> ne_setup" where
  "promisc_step h cfg sd i s = (interface_set_promisc h (cfg_names sd cfg ! i), s)"

definition scrub_step :: "host \<Rightarrow> app_config \<Rightarrow> side \<Rightarrow> nat \<Rightarrow> ne_setup \<Rightarrow> bool \<times> ne_setup" where
  "scrub_step h cfg sd i s = (True, set_led (xdp_attach_detach_ifname h (cfg_names sd cfg ! i)) s)"

definition umem_step :: "host \<Rightarrow> ne_setup \<Rightarrow> bool \<times> ne_setup" where
  "umem_step h s =
     (case h_umem h of
        None \<Rightarrow> (False, s)
      | Some (fq, cq) \<Rightarrow>
          (let f = iface_at Lan 0 s;
               s1 = put_iface Lan 0 (f\<lparr>queues := (queues f)[0 := (queues f ! 0)\<lparr>q_fq := fq, q_cq := cq\<rparr>]\<rparr>) s
           in (True, s1\<lparr>umem := True, umem_fq := Some (0, 0), led := (led s1)\<lparr>open_umems := open_umems (led s1) + 1, umem_refs := 0\<rparr>\<rparr>)))"

definition open_on :: "host \<Rightarrow> string \<Rightarrow> side \<Rightarrow> nat \<Rightarrow> nat \<Rightarrow> ne_setup \<Rightarrow> bool \<times> ne_setup" where
  "open_on h ifn sd i n s =
     (let (ok, f, l) = open_iface_queues h ifn (is_umem_fq_owner_queue s sd i) n (iface_at sd i s) (led s)
      in (ok, (put_iface sd i f s)\<lparr>led := l\<rparr>))"

definition sockets_step :: "host \<Rightarrow> app_config \<Rightarrow> side \<Rightarrow> nat \<Rightarrow> ne_setup \<Rightarrow> bool \<times> ne_setup" where
  "sockets_step h cfg sd i s =
     (let ifn = cfg_names sd cfg ! i; wanted = queue_count (iface_at sd i s) in
      case open_on h ifn sd i wanted s of
        (True, s1) \<Rightarrow> (True, s1)
      | (False, s1) \<Rightarrow> open_on h ifn sd i wanted (set_led (xdp_attach_detach_ifname h ifn) s1))"

definition prefill_step :: "ne_setup \<Rightarrow> bool \<times> ne_setup" where
  "prefill_step s =
     (let p = io s;
          want = prefill_per_queue (n_frames p) (local_queue_total p + wan_queue_total p);
          p1 = on_wans (\<lambda>_. True) (prefill_iface want) (on_locals (\<lambda>_. True) (prefill_iface want) p)
      in (True, s\<lparr>io := p1\<lparr>local_live := fold (\<lambda>i fl. fl[i := True]) [0..<local_count p1] (local_live p1),
                           wan_live := fold (\<lambda>i fl. fl[i := True]) [0..<wan_count p1] (wan_live p1)\<rparr>\<rparr>))"

definition open_start :: "app_config \<Rightarrow> ledger \<Rightarrow> ne_setup" where
  "open_start cfg l =
     (let s = zero_setup l in
      s\<lparr>umem_fq := None,
        io := (io s)\<lparr>local_count := (if MAX_INTERFACES < cfg_local_count cfg then MAX_INTERFACES else cfg_local_count cfg),
                     wan_count := (if MAX_INTERFACES < cfg_wan_count cfg then MAX_INTERFACES else cfg_wan_count cfg),
                     io_mem := (io_mem (io s))\<lparr>frame_size := NE_FRAME\<rparr>\<rparr>,
        xdp_flags := XDP_FLAGS_DRV_MODE\<rparr>)"

definition each :: "(side \<Rightarrow> nat \<Rightarrow> 'a) \<Rightarrow> nat \<Rightarrow> nat \<Rightarrow> 'a list" where
  \<comment> \<open>a loop over the LAN interfaces followed by one over the WAN interfaces\<close>
  "each f nl nw = map (f Lan) [0..<nl] @ map (f Wan) [0..<nw]"

definition open_steps :: "host \<Rightarrow> app_config \<Rightarrow> nat \<Rightarrow> nat \<Rightarrow> (ne_setup \<Rightarrow> bool \<times> ne_setup) list" where
  "open_steps h cfg nl nw =
     each (preflight_step h cfg) nl nw @ [mmap_step h, pool_step h] @
     each (promisc_step h cfg) nl nw @ each (scrub_step h cfg) nl nw @ [umem_step h] @
     each (sockets_step h cfg) nl nw @ [prefill_step]"

section \<open>Closing\<close>

definition close_bpf :: "side \<Rightarrow> nat \<Rightarrow> ne_setup \<Rightarrow> ne_setup" where
  "close_bpf sd i s =
     set_xdp_on sd i False
       (case bpf_objs sd s ! i of None \<Rightarrow> s | Some ob \<Rightarrow> set_bpf sd i None (set_led (bpf_object_close ob) s))"

definition close_detach :: "host \<Rightarrow> app_config option \<Rightarrow> ne_setup \<Rightarrow> ledger \<Rightarrow> ledger" where
  "close_detach h cfg s l =
     (case cfg of
        Some c \<Rightarrow> xdp_attach_detach_config h c l
      | None \<Rightarrow> fold (\<lambda>ifn. if ifn \<noteq> [] then xdp_attach_detach_ifname h ifn else id)
                  (map ifname (take (local_count (io s)) (locals (io s))) @ map ifname (take (wan_count (io s)) (wans (io s)))) l)"

definition ne_pair_close :: "host \<Rightarrow> app_config option \<Rightarrow> ne_setup \<Rightarrow> ne_setup" where
  "ne_pair_close h cfg s =
     (let s1 = delete_all_live_xsks h s;
          s2 = fold (close_bpf Wan) [0..<wan_count (io s1)] (fold (close_bpf Lan) [0..<local_count (io s1)] s1);
          s3 = set_led (close_detach h cfg s2) s2;
          s4 = (if umem s3 then (set_led xsk_umem_delete s3)\<lparr>umem := False\<rparr> else s3);
          s5 = s4\<lparr>io := (io s4)\<lparr>io_mem := (io_mem (io s4))\<lparr>pool := pool_destroy (pool (io_mem (io s4)))\<rparr>\<rparr>\<rparr>;
          s6 = (if area s5 then set_led (\<lambda>l. l\<lparr>mapped := mapped l - 1\<rparr>) s5 else s5)
      in zero_setup (led s6))"

definition ne_pair_open :: "host \<Rightarrow> app_config \<Rightarrow> ne_setup \<Rightarrow> bool \<times> ne_setup" where
  "ne_pair_open h cfg s0 =
     (if cfg_local_count cfg = 0 then (False, s0)
      else let s = open_start cfg (led s0) in
      case run_steps (open_steps h cfg (local_count (io s)) (wan_count (io s))) s of
        (True, s1) \<Rightarrow> (True, s1)
      | (False, s1) \<Rightarrow> (False, ne_pair_close h (Some cfg) (set_led (xdp_attach_detach_config h cfg) s1)))"

end
