(* ===== verification/Setup_Safe.thy ===== *)
theory Setup_Safe
  imports Iface_Setup
begin

text \<open>
  Set-up and tear-down are balanced. The locale \<open>frame_op\<close> is the contract of an operation on one element and the ledger:
  whatever the ledger counts beyond what the element holds stays counted. Its lemmas lift the contract to loops over the
  queues of an interface and to an interface of the pair; deletion and rollback interpret it, once for the open
  sockets and once for the references to the UMEM. \<open>booked l s\<close> says that the ledger of \<open>s\<close> is \<open>l\<close> plus exactly what \<open>s\<close> holds.
\<close>

section \<open>Balanced loops\<close>

lemma sum_list_split: "k < length xs \<Longrightarrow> sum_list xs = sum_list (xs[k := 0]) + xs ! k" for xs :: "'a :: comm_monoid_add list"
  using sum_list_update_add [of k xs 0] by simp

lemma sum_list_put: "k < length xs \<Longrightarrow> sum_list (xs[k := y]) = sum_list (xs[k := 0]) + y" for xs :: "'a :: comm_monoid_add list"
  using sum_list_update_add [of k "xs[k := 0]" y] by simp

lemma fold_list_step_nth:
  assumes "fold (\<lambda>j. list_step (\<lambda>_. True) (op j) j) [0..<n] (xs, l) = (xs', l')" "n \<le> length xs"
  shows "length xs' = length xs \<and> (\<forall>q<length xs. if q < n then \<exists>l0. xs' ! q = fst (op q (xs ! q) l0) else xs' ! q = xs ! q)"
  using assms
proof (induction n arbitrary: xs' l')
  case (Suc n)
  obtain ys m where y: "fold (\<lambda>j. list_step (\<lambda>_. True) (op j) j) [0..<n] (xs, l) = (ys, m)" by force
  obtain x m' where x: "op n (ys ! n) m = (x, m')" by force
  have ih: "length ys = length xs" "\<And>q. q < length xs \<Longrightarrow> if q < n then \<exists>l0. ys ! q = fst (op q (xs ! q) l0) else ys ! q = xs ! q"
    using Suc.IH [OF y] Suc.prems(2) by auto
  have "list_step (\<lambda>_. True) (op n) n (ys, m) = (xs', l')" using Suc.prems(1) y by simp
  then have xs': "xs' = ys[n := x]" using x by (simp add: list_step_def)
  have "ys ! n = xs ! n" using ih(2) [of n] Suc.prems(2) by simp
  then have "x = fst (op n (xs ! n) m)" using x by simp
  then have "if q < Suc n then \<exists>l0. xs' ! q = fst (op q (xs ! q) l0) else xs' ! q = xs ! q" if "q < length xs" for q
    using ih(2) [OF that] Suc.prems(2) ih(1) that xs' by (cases "q = n") (auto split: if_splits)
  moreover have "length xs' = length xs" using ih(1) xs' by simp
  ultimately show ?case by blast
qed simp

locale frame_op =
  fixes op :: "nat \<Rightarrow> 'x \<Rightarrow> 'l \<Rightarrow> 'x \<times> 'l" and val :: "'l \<Rightarrow> 'm :: comm_monoid_add" and held :: "'x \<Rightarrow> 'm"
  assumes frame: "val l = B + held x \<Longrightarrow> op j x l = (x', l') \<Longrightarrow> val l' = B + held x'"
begin

lemma list_step_frame:
  assumes "val l = B + sum_list (map held xs)" "j < length xs" "list_step sel (op j) j (xs, l) = (xs', l')"
  shows "val l' = B + sum_list (map held xs')" "length xs' = length xs"
proof -
  obtain x m where x: "op j (xs ! j) l = (x, m)" by force
  have "val l = (B + sum_list ((map held xs)[j := 0])) + held (xs ! j)"
    using assms(1,2) sum_list_split [of j "map held xs"] by (simp add: add_ac)
  then have "val m = (B + sum_list ((map held xs)[j := 0])) + held x" using frame x by blast
  also have "\<dots> = B + sum_list (map held (xs[j := x]))"
    using assms(2) sum_list_put [of j "map held xs" "held x"] by (simp add: add_ac map_update)
  finally show "val l' = B + sum_list (map held xs')" "length xs' = length xs"
    using assms(1,3) x by (auto simp: list_step_def split: if_splits)
qed

lemma loop_frame:
  assumes "val l = B + sum_list (map held xs)" "n \<le> length xs"
    "fold (\<lambda>j. list_step (\<lambda>_. True) (op j) j) [0..<n] (xs, l) = (xs', l')"
  shows "val l' = B + sum_list (map held xs')"
  using assms(2,3)
proof (induction n arbitrary: xs' l')
  case (Suc n)
  obtain ys m where y: "fold (\<lambda>j. list_step (\<lambda>_. True) (op j) j) [0..<n] (xs, l) = (ys, m)" by force
  have len: "n < length ys" using fold_list_step_nth [OF y] Suc.prems(1) by simp
  have st: "list_step (\<lambda>_. True) (op n) n (ys, m) = (xs', l')" using Suc.prems(2) y by simp
  have "val m = B + sum_list (map held ys)" using Suc.IH [OF _ y] Suc.prems(1) by simp
  from list_step_frame(1) [OF this len st] show ?case .
qed (use assms(1) in simp)

end

section \<open>Sockets held\<close>

definition queue_socks :: "ne_xsk_queue \<Rightarrow> int multiset" where
  "queue_socks slot = (case xsk slot of None \<Rightarrow> {#} | Some fd \<Rightarrow> {#fd#})"

definition iface_socks :: "ne_iface \<Rightarrow> int multiset" where
  "iface_socks iface = sum_list (map queue_socks (queues iface))"

definition socks :: "ne_setup \<Rightarrow> int multiset" where
  "socks s = sum_list (map iface_socks (locals (io s))) + sum_list (map iface_socks (wans (io s)))"

lemma queue_socks_simps [simp]:
  "queue_socks (zero_queue_rings slot p) = queue_socks slot" "xsk (zero_queue_rings slot p) = xsk slot"
  "xsk slot = None \<Longrightarrow> queue_socks slot = {#}"
  by (auto simp: queue_socks_def zero_queue_rings_def Let_def)

lemma delete_xsk_frame:
  assumes "delete_xsk slot l = (slot', l')"
  shows "open_xsks l = B + queue_socks slot \<Longrightarrow> open_xsks l' = B + queue_socks slot'"
    "umem_refs l = n + size (queue_socks slot) \<Longrightarrow> umem_refs l' = n + size (queue_socks slot')"
    "xsk slot' = None"
  using assms by (auto simp: delete_xsk_def queue_socks_def xsk_socket_delete_def split: option.splits)

interpretation del_socks: frame_op "\<lambda>_. delete_in_pass h um pass" open_xsks queue_socks for h um pass
  by unfold_locales (auto simp: delete_in_pass_def dest: delete_xsk_frame(1) split: if_splits)

interpretation del_refs: frame_op "\<lambda>_. delete_in_pass h um pass" umem_refs "\<lambda>q. size (queue_socks q)" for h um pass
  by unfold_locales (auto simp: delete_in_pass_def dest: delete_xsk_frame(2) split: if_splits)

interpretation roll_socks: frame_op "\<lambda>j. rollback_queue (own j)" open_xsks queue_socks for own
  by unfold_locales (auto simp: rollback_queue_def Let_def dest: delete_xsk_frame(1) split: prod.splits)

interpretation roll_refs: frame_op "\<lambda>j. rollback_queue (own j)" umem_refs "\<lambda>q. size (queue_socks q)" for own
  by unfold_locales (auto simp: rollback_queue_def Let_def dest: delete_xsk_frame(2) split: prod.splits)

lemma size_socks: "size (sum_list (map queue_socks qs)) = sum_list (map (\<lambda>q. size (queue_socks q)) qs)"
  by (induction qs) auto

lemma no_socks: "(\<And>q. q < length qs \<Longrightarrow> xsk (qs ! q) = None) \<Longrightarrow> sum_list (map queue_socks qs) = {#}"
proof -
  assume "\<And>q. q < length qs \<Longrightarrow> xsk (qs ! q) = None"
  then have "\<forall>slot\<in>set qs. xsk slot = None" by (auto simp: in_set_conv_nth)
  then show ?thesis by (induction qs) auto
qed

text \<open>How an operation changes the sockets of the ledger, given what it held before and holds after; all else it leaves.\<close>

definition sock_frame :: "int multiset \<Rightarrow> int multiset \<Rightarrow> ledger \<Rightarrow> ledger \<Rightarrow> bool" where
  "sock_frame H H' l l' \<longleftrightarrow>
     (\<forall>B. open_xsks l = B + H \<longrightarrow> open_xsks l' = B + H') \<and> (\<forall>n. umem_refs l = n + size H \<longrightarrow> umem_refs l' = n + size H')"

definition other_fields ::
  "ledger \<Rightarrow> nat \<times> nat \<times> nat multiset \<times> nat \<times> (nat \<Rightarrow> bool) \<times> (nat \<Rightarrow> nat \<Rightarrow> int option) \<times> (nat \<Rightarrow> u16 option)" where
  "other_fields l = (open_umems l, mapped l, open_bpf l, bpf_opened l, attached l, xskmap l, wan_config l)"

lemma sock_frame_refl [simp]: "sock_frame H H l l"
  by (simp add: sock_frame_def)

lemma sock_frame_trans: "sock_frame H H' l l' \<Longrightarrow> sock_frame H' H'' l' l'' \<Longrightarrow> sock_frame H H'' l l''"
  by (simp add: sock_frame_def)

text \<open>The context of an operation: a part it does not touch.\<close>

lemma sock_frame_context:
  assumes "sock_frame H H' l l'"
  shows "sock_frame (C + H) (C + H') l l'"
proof -
  have "open_xsks l' = B + (C + H')" if "open_xsks l = B + (C + H)" for B
    using assms that unfolding sock_frame_def by (metis add.assoc)
  moreover have "umem_refs l' = n + size (C + H')" if "umem_refs l = n + size (C + H)" for n
    using assms that unfolding sock_frame_def by (metis add.assoc size_union)
  ultimately show ?thesis unfolding sock_frame_def by blast
qed

section \<open>Deleting the sockets of an interface\<close>

definition all_closed :: "ne_iface \<Rightarrow> bool" where
  "all_closed iface \<longleftrightarrow> length (queues iface) = MAX_QUEUES \<and> (\<forall>slot\<in>set (queues iface). xsk slot = None)"

text \<open>Only the first \<open>queue_count\<close> queues of an interface have sockets.\<close>

definition counted :: "ne_iface \<Rightarrow> bool" where
  "counted iface \<longleftrightarrow> length (queues iface) = MAX_QUEUES \<and> queue_count iface \<le> MAX_QUEUES \<and>
     (\<forall>q<MAX_QUEUES. queue_count iface \<le> q \<longrightarrow> xsk (queues iface ! q) = None)"

lemma all_closed_socks: "all_closed iface \<Longrightarrow> iface_socks iface = {#}"
  unfolding iface_socks_def all_closed_def by (rule no_socks) auto

lemma delete_pass_spec:
  assumes "fold (list_step (\<lambda>_. True) (delete_in_pass h um pass)) [0..<n] (qs, l) = (qs', l')" "n \<le> length qs"
  shows "sock_frame (sum_list (map queue_socks qs)) (sum_list (map queue_socks qs')) l l'" "length qs' = length qs"
    "\<And>q. q < length qs \<Longrightarrow> n \<le> q \<Longrightarrow> qs' ! q = qs ! q"
    "\<And>q. q < n \<Longrightarrow> \<exists>l0. qs' ! q = fst (delete_in_pass h um pass (qs ! q) l0)"
proof -
  note st = assms(1)
  show "sock_frame (sum_list (map queue_socks qs)) (sum_list (map queue_socks qs')) l l'"
    unfolding sock_frame_def size_socks
    using del_socks.loop_frame [OF _ assms(2) st] del_refs.loop_frame [OF _ assms(2) st] by blast
  note f = fold_list_step_nth [OF st assms(2)]
  show "length qs' = length qs" using f by blast
  show "qs' ! q = qs ! q" if "q < length qs" "n \<le> q" for q
    using f [THEN conjunct2, rule_format, OF that(1)] that(2) by simp
  show "\<exists>l0. qs' ! q = fst (delete_in_pass h um pass (qs ! q) l0)" if "q < n" for q
    using f [THEN conjunct2, rule_format, of q] that assms(2) by simp
qed

lemma delete_iface_spec:
  assumes "delete_iface_xsks h um (queue_count iface) iface l = (iface', l')" "counted iface"
  shows "sock_frame (iface_socks iface) (iface_socks iface') l l'" "all_closed iface'"
    "iface' = iface\<lparr>queues := queues iface'\<rparr>"
proof -
  let ?n = "queue_count iface"
  have n: "?n \<le> length (queues iface)" using assms(2) by (simp add: counted_def)
  obtain qs1 la where p0: "fold (list_step (\<lambda>_. True) (delete_in_pass h um 0)) [0..<?n] (queues iface, l) = (qs1, la)" by force
  obtain qs2 lb where p1: "fold (list_step (\<lambda>_. True) (delete_in_pass h um 1)) [0..<?n] (qs1, la) = (qs2, lb)" by force
  note a = delete_pass_spec [OF p0 n]
  note b = delete_pass_spec [OF p1 n [folded a(2)]]
  have r: "iface' = iface\<lparr>queues := qs2\<rparr>" "l' = lb" using assms(1) p0 p1 by (auto simp: delete_iface_xsks_def)
  show "sock_frame (iface_socks iface) (iface_socks iface') l l'"
    using sock_frame_trans [OF a(1) b(1)] by (simp add: r iface_socks_def)
  show "iface' = iface\<lparr>queues := queues iface'\<rparr>" by (simp add: r)
  have "xsk (qs2 ! q) = None" if "q < MAX_QUEUES" for q
  proof (cases "q < ?n")
    case True
    then obtain m m' where "qs1 ! q = fst (delete_in_pass h um 0 (queues iface ! q) m)"
      "qs2 ! q = fst (delete_in_pass h um 1 (qs1 ! q) m')" using a(4) b(4) by blast
    then show ?thesis
      by (auto simp: delete_in_pass_def delete_xsk_def queue_holds_umem_fd_def split: if_splits option.splits)
  next
    case False
    then show ?thesis using a(3) b(3) assms(2) that a(2) by (simp add: counted_def)
  qed
  then show "all_closed iface'" using a(2) b(2) assms(2) by (auto simp: all_closed_def counted_def r in_set_conv_nth)
qed

section \<open>Creating the sockets of an interface\<close>

lemma sock_frame_put:
  assumes "sock_frame (f (xs ! k)) (f x) l l'" "k < length xs"
  shows "sock_frame (sum_list (map f xs)) (sum_list (map f (xs[k := x]))) l l'"
  using sock_frame_context [OF assms(1), of "sum_list ((map f xs)[k := {#}])"] assms(2)
    sum_list_split [of k "map f xs"] sum_list_put [of k "map f xs" "f x"] by (simp add: map_update)

lemma loop_keeps:
  assumes "\<And>j x l. g (snd (op j x l)) = g l"
  shows "g (snd (fold (\<lambda>j. list_step sel (op j) j) is st)) = g (snd st)"
proof (induction "is" arbitrary: st)
  case (Cons j "is")
  show ?case using Cons [of "list_step sel (op j) j st"] assms by (simp add: list_step_def split_beta)
qed simp

lemma delete_xsk_keeps [simp]: "other_fields (snd (delete_xsk slot l)) = other_fields l"
  by (simp add: delete_xsk_def other_fields_def xsk_socket_delete_def split: option.split)

lemma rollback_queue_keeps [simp]: "other_fields (snd (rollback_queue own slot l)) = other_fields l"
  using delete_xsk_keeps [of slot l] by (simp add: rollback_queue_def split_beta del: delete_xsk_keeps)

lemma delete_iface_keeps: "other_fields (snd (delete_iface_xsks h um nq iface l)) = other_fields l"
proof -
  have "other_fields (snd (delete_in_pass h um pass slot l)) = other_fields l" for pass slot l
    by (simp add: delete_in_pass_def)
  note k = loop_keeps [of other_fields "\<lambda>_. delete_in_pass h um _", OF this]
  show ?thesis by (simp add: delete_iface_xsks_def split_beta k)
qed

text \<open>A queue just as \<^verbatim>\<open>xsk_socket__create_shared\<close> left it.\<close>

definition created :: "host \<Rightarrow> string \<Rightarrow> nat \<Rightarrow> ne_xsk_queue \<Rightarrow> bool" where
  "created h ifn q slot \<longleftrightarrow> (\<exists>n r x. h_xsk h n ifn q r = Some x \<and> xsk slot = Some (new_fd x) \<and> q_rx slot = new_rx x \<and> q_tx slot = new_tx x \<and>
     q_fq slot = new_fq x \<and> q_cq slot = new_cq x \<and> rx_pending slot = 0 \<and> rx_reject_addrs slot = [] \<and> rx_chain slot = zero_packet)"

lemma created_open: "created h ifn q slot \<Longrightarrow> xsk slot \<noteq> None"
  by (auto simp: created_def)

lemma create_queue_spec:
  assumes "xsk_create_queue h ifn q own slot l = (ok, slot', l')" "xsk slot = None"
  shows "sock_frame (queue_socks slot) (queue_socks slot') l l'" "other_fields l' = other_fields l"
    "ok \<Longrightarrow> created h ifn q slot'" "\<not> ok \<Longrightarrow> xsk slot' = None"
proof -
  have z: "xsk (zero_queue_rings slot own) = None" "queue_socks slot = {#}" using assms(2) by simp_all
  have r: "rx_pending (zero_queue_rings slot own) = 0" "rx_reject_addrs (zero_queue_rings slot own) = []"
    "rx_chain (zero_queue_rings slot own) = zero_packet" by (simp_all add: zero_queue_rings_def Let_def)
  have "sock_frame {#} (queue_socks slot') l l' \<and> other_fields l' = other_fields l \<and>
    (ok \<longrightarrow> created h ifn q slot') \<and> (\<not> ok \<longrightarrow> xsk slot' = None)"
    using assms(1) z
    by (auto simp: xsk_create_queue_def Let_def sock_frame_def other_fields_def queue_socks_def created_def r split: option.splits) blast
  then show "sock_frame (queue_socks slot) (queue_socks slot') l l'" "other_fields l' = other_fields l"
    "ok \<Longrightarrow> created h ifn q slot'" "\<not> ok \<Longrightarrow> xsk slot' = None"
    by (simp_all add: z)
qed

lemma create_queues_spec:
  assumes "create_queues h ifn own [k..<n] qs l = (r, qs', l')" "k \<le> n" "n \<le> length qs"
    "\<And>q. k \<le> q \<Longrightarrow> q < length qs \<Longrightarrow> xsk (qs ! q) = None"
  shows "sock_frame (sum_list (map queue_socks qs)) (sum_list (map queue_socks qs')) l l' \<and> length qs' = length qs \<and>
    other_fields l' = other_fields l \<and> (\<forall>q<k. qs' ! q = qs ! q) \<and>
    (case r of None \<Rightarrow> \<forall>q. k \<le> q \<longrightarrow> q < length qs \<longrightarrow> (if q < n then created h ifn q (qs' ! q) else xsk (qs' ! q) = None)
     | Some m \<Rightarrow> k \<le> m \<and> m < n \<and> (\<forall>q. m \<le> q \<longrightarrow> q < length qs \<longrightarrow> xsk (qs' ! q) = None))"
  using assms
proof (induction "n - k" arbitrary: k qs l)
  case 0
  then show ?case by simp
next
  case (Suc d)
  then have kn: "k < n" "[k..<n] = k # [Suc k..<n]" by (simp_all add: upt_conv_Cons)
  obtain ok slot la where c: "xsk_create_queue h ifn k (own k) (qs ! k) l = (ok, slot, la)" by (metis prod_cases3)
  have k: "k < length qs" "xsk (qs ! k) = None" using Suc.prems kn(1) by simp_all
  note cs = create_queue_spec [OF c k(2)]
  have f: "sock_frame (sum_list (map queue_socks qs)) (sum_list (map queue_socks (qs[k := slot]))) l la"
    by (rule sock_frame_put [OF cs(1) k(1)])
  show ?case
  proof (cases ok)
    case False
    then have e: "r = Some k" "qs' = qs[k := slot]" "l' = la" using Suc.prems(1) c kn(2) by auto
    have "xsk (qs' ! q) = None" if "k \<le> q" "q < length qs" for q
      using that Suc.prems(4) cs(4) False e(2) k(1) by (cases "q = k") auto
    then show ?thesis using e f cs(2) kn(1) by simp
  next
    case True
    have st: "create_queues h ifn own [Suc k..<n] (qs[k := slot]) la = (r, qs', l')" using Suc.prems(1) c kn(2) True by simp
    have d: "d = n - Suc k" "Suc k \<le> n" "n \<le> length (qs[k := slot])" using Suc.hyps(2) Suc.prems(3) kn(1) by simp_all
    have nn: "xsk (qs[k := slot] ! q) = None" if "Suc k \<le> q" "q < length (qs[k := slot])" for q
      using Suc.prems(4) [of q] that by simp
    have ih: "sock_frame (sum_list (map queue_socks (qs[k := slot]))) (sum_list (map queue_socks qs')) la l'"
      "length qs' = length qs" "other_fields l' = other_fields la" "\<And>q. q < Suc k \<Longrightarrow> qs' ! q = qs[k := slot] ! q"
      "case r of None \<Rightarrow> \<forall>q. Suc k \<le> q \<longrightarrow> q < length qs \<longrightarrow> (if q < n then created h ifn q (qs' ! q) else xsk (qs' ! q) = None)
       | Some m \<Rightarrow> Suc k \<le> m \<and> m < n \<and> (\<forall>q. m \<le> q \<longrightarrow> q < length qs \<longrightarrow> xsk (qs' ! q) = None)"
      using Suc.hyps(1) [OF d(1) st d(2,3) nn, unfolded length_list_update] by blast+
    have "created h ifn k (qs' ! k)" using ih(4) [of k] k(1) cs(3) True by simp
    then have "case r of None \<Rightarrow> \<forall>q. k \<le> q \<longrightarrow> q < length qs \<longrightarrow> (if q < n then created h ifn q (qs' ! q) else xsk (qs' ! q) = None)
      | Some m \<Rightarrow> k \<le> m \<and> m < n \<and> (\<forall>q. m \<le> q \<longrightarrow> q < length qs \<longrightarrow> xsk (qs' ! q) = None)"
      using ih(5) kn(1) by (cases r) (auto simp: Suc_le_eq le_eq_less_or_eq [of k])
    then show ?thesis using sock_frame_trans [OF f ih(1)] ih(2-4) cs(2) by simp
  qed
qed

lemma rollback_spec:
  assumes "open_iface_queues_rollback own m iface l = (iface', l')" "m \<le> length (queues iface)"
    "\<And>q. m \<le> q \<Longrightarrow> q < length (queues iface) \<Longrightarrow> xsk (queues iface ! q) = None"
  shows "sock_frame (iface_socks iface) (iface_socks iface') l l'" "other_fields l' = other_fields l"
    "length (queues iface') = length (queues iface)" "\<forall>slot\<in>set (queues iface'). xsk slot = None" "queue_count iface' = 0"
proof -
  obtain qs la where st: "fold (\<lambda>j. list_step (\<lambda>_. True) (rollback_queue (own j)) j) [0..<m] (queues iface, l) = (qs, la)" by force
  have r: "queues iface' = qs" "l' = la" "queue_count iface' = 0"
    using assms(1) st by (auto simp: open_iface_queues_rollback_def)
  show "queue_count iface' = 0" by (rule r)
  show "sock_frame (iface_socks iface) (iface_socks iface') l l'"
    unfolding sock_frame_def iface_socks_def r size_socks
    using roll_socks.loop_frame [OF _ assms(2) st] roll_refs.loop_frame [OF _ assms(2) st] by blast
  show "other_fields l' = other_fields l"
    using loop_keeps [of other_fields "\<lambda>j. rollback_queue (own j)" "\<lambda>_. True" "[0..<m]" "(queues iface, l)"] st r by simp
  note f = fold_list_step_nth [OF st assms(2)]
  show len: "length (queues iface') = length (queues iface)" using f r by blast
  have "xsk (qs ! q) = None" if "q < length qs" for q
  proof (cases "q < m")
    case True
    then obtain l0 where "qs ! q = fst (rollback_queue (own q) (queues iface ! q) l0)"
      using f [THEN conjunct2, rule_format, of q] assms(2) by auto
    then show ?thesis by (auto simp: rollback_queue_def delete_xsk_def Let_def split: option.splits)
  next
    case False
    then show ?thesis using f [THEN conjunct2, rule_format, of q] assms(3) [of q] that len r(1) by simp
  qed
  then show "\<forall>slot\<in>set (queues iface'). xsk slot = None" by (auto simp: r in_set_conv_nth)
qed

text \<open>Opening the queues of an interface without sockets: all of them on success, none on failure.\<close>

lemma open_iface_spec:
  assumes "open_iface_queues h ifn own n iface l = (ok, iface', l')" "all_closed iface" "queue_count iface \<le> MAX_QUEUES"
  shows "sock_frame (iface_socks iface) (iface_socks iface') l l'" "other_fields l' = other_fields l" "counted iface'"
    "\<not> ok \<Longrightarrow> all_closed iface'"
    "ok \<Longrightarrow> 0 < n \<and> queue_count iface' = n \<and> n \<le> MAX_QUEUES \<and> (\<forall>q<n. created h ifn q (queues iface' ! q)) \<and> ifindex iface' = h_ifindex h ifn \<and>
       ifname iface' = copy_ifname ifn \<and> xdp_sg_enabled iface'"
proof -
  let ?f2 = "iface\<lparr>ifindex := h_ifindex h ifn, ifname := copy_ifname ifn, queue_count := n, if_xdp_flags := 0, xdp_sg_enabled := False\<rparr>"
  have len: "length (queues iface) = MAX_QUEUES" "\<And>q. q < MAX_QUEUES \<Longrightarrow> xsk (queues iface ! q) = None"
    using assms(2) by (auto simp: all_closed_def)
  have closed: "counted f" if "all_closed f" "queue_count f \<le> MAX_QUEUES" for f
    using that by (auto simp: counted_def all_closed_def)
  have "sock_frame (iface_socks iface) (iface_socks iface') l l' \<and> other_fields l' = other_fields l \<and> counted iface' \<and>
    (\<not> ok \<longrightarrow> all_closed iface') \<and> (ok \<longrightarrow> 0 < n \<and> queue_count iface' = n \<and> n \<le> MAX_QUEUES \<and> (\<forall>q<n. created h ifn q (queues iface' ! q)) \<and>
     ifindex iface' = h_ifindex h ifn \<and> ifname iface' = copy_ifname ifn \<and> xdp_sg_enabled iface')"
  proof (cases "n = 0 \<or> MAX_QUEUES < n \<or> h_ifindex h ifn = 0")
    case True
    then have e: "\<not> ok" "l' = l" "iface' = iface \<or> iface' = iface\<lparr>ifindex := h_ifindex h ifn\<rparr>"
      using assms(1) by (auto simp: open_iface_queues_def Let_def split: if_splits)
    then have "all_closed iface'" "queue_count iface' \<le> MAX_QUEUES" using assms(2,3) by (auto simp: all_closed_def)
    then show ?thesis using e closed by (auto simp: all_closed_socks assms(2))
  next
    case False
    obtain r qs la where c: "create_queues h ifn own [0..<n] (queues iface) l = (r, qs, la)" by (metis prod_cases3)
    note cs = create_queues_spec [OF c, simplified len(1)]
    have cs: "sock_frame (iface_socks iface) (sum_list (map queue_socks qs)) l la" "length qs = MAX_QUEUES" "other_fields la = other_fields l"
      "case r of None \<Rightarrow> \<forall>q. 0 \<le> q \<longrightarrow> q < MAX_QUEUES \<longrightarrow> (if q < n then created h ifn q (qs ! q) else xsk (qs ! q) = None)
       | Some m \<Rightarrow> 0 \<le> m \<and> m < n \<and> (\<forall>q. m \<le> q \<longrightarrow> q < MAX_QUEUES \<longrightarrow> xsk (qs ! q) = None)"
      using cs False len by (auto simp: iface_socks_def)
    show ?thesis
    proof (cases r)
      case None
      then have e: "ok" "iface' = ?f2\<lparr>queues := qs, if_xdp_flags := XDP_FLAGS_DRV_MODE, xdp_sg_enabled := True\<rparr>" "l' = la"
        using assms(1) c False by (auto simp: open_iface_queues_def Let_def)
      show ?thesis using cs None False by (auto simp: e iface_socks_def counted_def)
    next
      case (Some m)
      obtain f3 lb where rb: "open_iface_queues_rollback own m (?f2\<lparr>queues := qs\<rparr>) la = (f3, lb)" by force
      have e: "\<not> ok" "iface' = f3" "l' = lb"
        using assms(1) c False Some rb by (auto simp: open_iface_queues_def Let_def)
      have m: "m \<le> length (queues (?f2\<lparr>queues := qs\<rparr>))" using cs Some False by simp
      have n: "xsk (queues (?f2\<lparr>queues := qs\<rparr>) ! q) = None" if "m \<le> q" "q < length (queues (?f2\<lparr>queues := qs\<rparr>))" for q
        using cs(2,4) Some that by simp
      note rs = rollback_spec [OF rb m n]
      have "all_closed f3" using rs(3,4) cs(2) by (simp add: all_closed_def)
      moreover have "sock_frame (iface_socks iface) (iface_socks f3) l lb"
        using sock_frame_trans [OF cs(1)] rs(1) by (simp add: iface_socks_def)
      ultimately show ?thesis using e closed rs(2,5) cs(3) by simp
    qed
  qed
  then show "sock_frame (iface_socks iface) (iface_socks iface') l l'" "other_fields l' = other_fields l" "counted iface'"
    "\<not> ok \<Longrightarrow> all_closed iface'"
    "ok \<Longrightarrow> 0 < n \<and> queue_count iface' = n \<and> n \<le> MAX_QUEUES \<and> (\<forall>q<n. created h ifn q (queues iface' ! q)) \<and> ifindex iface' = h_ifindex h ifn \<and>
       ifname iface' = copy_ifname ifn \<and> xdp_sg_enabled iface'"
    by blast+
qed

end
