(* ===== verification/Setup_Open.thy ===== *)
theory Setup_Open
  imports Setup_Safe
begin

text \<open>
  \<^verbatim>\<open>ne_pair_open\<close> and \<^verbatim>\<open>ne_pair_close\<close> as a whole: what is held after success, and that failure and closing give everything back.
  \<open>steps_ok P fs Q J\<close> is a Hoare triple for a sequence of fallible steps: from \<open>P\<close> it ends in \<open>Q\<close>, or in \<open>J\<close> when a step fails.
\<close>

section \<open>Sequences of fallible steps\<close>

definition steps_ok :: "('s \<Rightarrow> bool) \<Rightarrow> ('s \<Rightarrow> bool \<times> 's) list \<Rightarrow> ('s \<Rightarrow> bool) \<Rightarrow> ('s \<Rightarrow> bool) \<Rightarrow> bool" where
  "steps_ok P fs Q J \<longleftrightarrow> (\<forall>s ok s'. P s \<longrightarrow> run_steps fs s = (ok, s') \<longrightarrow> (if ok then Q s' else J s'))"

lemma steps_ok_step:
  assumes "\<And>s ok s'. P s \<Longrightarrow> f s = (ok, s') \<Longrightarrow> if ok then Q s' else J s'"
  shows "steps_ok P [f] Q J"
  unfolding steps_ok_def
proof (intro allI impI)
  fix s ok s' assume p: "P s" and r: "run_steps [f] s = (ok, s')"
  have "f s = (ok, s')" using r by (cases "f s") (auto split: bool.splits)
  then show "if ok then Q s' else J s'" by (rule assms [OF p])
qed

lemma run_steps_append:
  "run_steps (fs @ gs) s = (case run_steps fs s of (True, s1) \<Rightarrow> run_steps gs s1 | (False, s1) \<Rightarrow> (False, s1))"
  by (induction fs arbitrary: s) (auto split: prod.splits bool.splits)

lemma steps_ok_append:
  assumes "steps_ok P fs Q J" "steps_ok Q gs R J"
  shows "steps_ok P (fs @ gs) R J"
  unfolding steps_ok_def
proof (intro allI impI)
  fix s ok s' assume p: "P s" and r: "run_steps (fs @ gs) s = (ok, s')"
  obtain ok1 s1 where f: "run_steps fs s = (ok1, s1)" by force
  have "if ok1 then Q s1 else J s1" using assms(1) p f unfolding steps_ok_def by blast
  then show "if ok then R s' else J s'"
    using r f assms(2) unfolding steps_ok_def by (auto simp: run_steps_append split: bool.splits)
qed

lemma steps_ok_loop:
  assumes "\<And>i s ok s'. i < n \<Longrightarrow> I i s \<Longrightarrow> f i s = (ok, s') \<Longrightarrow> if ok then I (Suc i) s' else J s'"
  shows "steps_ok (I 0) (map f [0..<n]) (I n) J"
proof -
  have "steps_ok (I 0) (map f [0..<k]) (I k) J" if "k \<le> n" for k
    using that
  proof (induction k)
    case (Suc k)
    have "steps_ok (I k) [f k] (I (Suc k)) J" by (rule steps_ok_step) (rule assms, use Suc.prems in simp_all)
    then show ?case using steps_ok_append [OF Suc.IH] Suc.prems by simp
  qed (simp add: steps_ok_def)
  then show ?thesis by blast
qed

lemma steps_ok_conseq: "steps_ok P fs Q J \<Longrightarrow> (\<And>s. P' s \<Longrightarrow> P s) \<Longrightarrow> (\<And>s. Q s \<Longrightarrow> Q' s) \<Longrightarrow> steps_ok P' fs Q' J"
  by (fastforce simp: steps_ok_def)

text \<open>The two loops of \<open>each\<close>: the invariant counts the interfaces done on either side.\<close>

lemma steps_ok_each:
  assumes "\<And>i s ok s'. i < nl \<Longrightarrow> I i 0 s \<Longrightarrow> f Lan i s = (ok, s') \<Longrightarrow> if ok then I (Suc i) 0 s' else J s'"
    "\<And>i s ok s'. i < nw \<Longrightarrow> I nl i s \<Longrightarrow> f Wan i s = (ok, s') \<Longrightarrow> if ok then I nl (Suc i) s' else J s'"
  shows "steps_ok (I 0 0) (each f nl nw) (I nl nw) J"
  unfolding each_def
  by (rule steps_ok_append [OF steps_ok_loop [of nl "\<lambda>i. I i 0"] steps_ok_loop [of nw "\<lambda>i. I nl i"]]) (fact assms)+

section \<open>The books\<close>

definition option_mset :: "'a option \<Rightarrow> 'a multiset" where
  "option_mset x = (case x of None \<Rightarrow> {#} | Some y \<Rightarrow> {#y#})"

definition bpf_held :: "ne_setup \<Rightarrow> nat multiset" where
  "bpf_held s = sum_list (map option_mset (bpf_locals s)) + sum_list (map option_mset (bpf_wans s))"

definition sized :: "ne_setup \<Rightarrow> bool" where
  "sized s \<longleftrightarrow> (\<forall>sd. length (ifaces sd (io s)) = MAX_INTERFACES \<and> length (bpf_objs sd s) = MAX_INTERFACES \<and>
     iface_count sd (io s) \<le> MAX_INTERFACES \<and> (\<forall>i<MAX_INTERFACES. iface_count sd (io s) \<le> i \<longrightarrow> bpf_objs sd s ! i = None) \<and>
     (\<forall>f\<in>set (ifaces sd (io s)). counted f))"

definition booked :: "ledger \<Rightarrow> ne_setup \<Rightarrow> bool" where
  "booked l s \<longleftrightarrow> sized s \<and>
     open_xsks (led s) = open_xsks l + socks s \<and> (umem s \<longrightarrow> umem_refs (led s) = size (socks s)) \<and>
     (\<not> umem s \<longrightarrow> socks s = {#}) \<and>
     open_umems (led s) = open_umems l + of_bool (umem s) \<and> mapped (led s) = mapped l + of_bool (area s) \<and>
     open_bpf (led s) = open_bpf l + bpf_held s"

definition released :: "ledger \<Rightarrow> ledger \<Rightarrow> bool" where
  "released l l' \<longleftrightarrow> open_xsks l' = open_xsks l \<and> open_umems l' = open_umems l \<and> mapped l' = mapped l \<and> open_bpf l' = open_bpf l"

text \<open>Access to the sides.\<close>

lemma iface_at_put [simp]:
  "i < length (ifaces sd (io s)) \<Longrightarrow> iface_at sd i (put_iface sd i f s) = f"
  "sd' \<noteq> sd \<or> j \<noteq> i \<Longrightarrow> iface_at sd' j (put_iface sd i f s) = iface_at sd' j s"
  "led (put_iface sd i f s) = led s" "umem (put_iface sd i f s) = umem s" "area (put_iface sd i f s) = area s"
  "bpf_objs sd' (put_iface sd i f s) = bpf_objs sd' s" "iface_count sd' (io (put_iface sd i f s)) = iface_count sd' (io s)"
  "bpf_objs sd' (s\<lparr>io := p\<rparr>) = bpf_objs sd' s" "umem_fq (put_iface sd i f s) = umem_fq s" "io_mem (io (put_iface sd i f s)) = io_mem (io s)"
  "n_frames (io (put_iface sd i f s)) = n_frames (io s)"
  by (cases sd; cases sd'; auto simp: iface_at_def put_iface_def)+

lemma ifaces_put:
  "ifaces sd' (io (put_iface sd i f s)) = (if sd' = sd then (ifaces sd (io s))[i := f] else ifaces sd' (io s))"
  by (cases sd; cases sd'; simp add: put_iface_def)

lemma put_iface_same_led [simp]: "(put_iface sd i f s)\<lparr>led := led s\<rparr> = put_iface sd i f s"
  by (simp add: put_iface_def)

lemma iface_at_led [simp]: "iface_at sd i (s\<lparr>led := l\<rparr>) = iface_at sd i s"
  by (simp add: iface_at_def)

lemma socks_alt: "socks s = sum_list (map iface_socks (ifaces Lan (io s))) + sum_list (map iface_socks (ifaces Wan (io s)))"
  by (simp add: socks_def)

lemma sum_list_mset_empty: "sum_list (map f xs) = {#} \<longleftrightarrow> (\<forall>x\<in>set xs. f x = {#})" for f :: "'a \<Rightarrow> 'b multiset"
  by (induction xs) auto

lemma socks_empty: "socks s = {#} \<longleftrightarrow> (\<forall>sd. \<forall>f\<in>set (ifaces sd (io s)). iface_socks f = {#})"
proof
  assume "socks s = {#}"
  then show "\<forall>sd. \<forall>f\<in>set (ifaces sd (io s)). iface_socks f = {#}"
    by (auto simp: socks_alt sum_list_mset_empty) (metis (full_types) ifaces.simps side.exhaust)
qed (simp add: socks_alt sum_list_mset_empty flip: ifaces.simps)

lemma socks_put:
  assumes "sock_frame (iface_socks (iface_at sd i s)) (iface_socks f) l l'" "i < length (ifaces sd (io s))"
  shows "sock_frame (socks s) (socks (put_iface sd i f s)) l l'"
proof -
  note p = sock_frame_put [of iface_socks "ifaces sd (io s)", OF assms(1) [unfolded iface_at_def] assms(2)]
  show ?thesis
  proof (cases sd)
    case Lan
    then show ?thesis
      using sock_frame_context [OF p, of "sum_list (map iface_socks (ifaces Wan (io s)))"] unfolding socks_alt ifaces_put
      by (simp add: add.commute)
  next
    case Wan
    then show ?thesis
      using sock_frame_context [OF p, of "sum_list (map iface_socks (ifaces Lan (io s)))"] unfolding socks_alt ifaces_put by simp
  qed
qed

lemma sized_put: "sized s \<Longrightarrow> counted f \<Longrightarrow> sized (put_iface sd i f s)"
  unfolding sized_def ifaces_put using set_update_subset_insert [of "ifaces sd (io s)" i f] by auto

lemma bpf_held_put [simp]: "bpf_held (put_iface sd i f s) = bpf_held s" "bpf_held (s\<lparr>led := l\<rparr>) = bpf_held s"
  by (simp_all add: bpf_held_def put_iface_def)

lemma sized_led [simp]: "bpf_objs sd (s\<lparr>led := l\<rparr>) = bpf_objs sd s" "sized (s\<lparr>led := l\<rparr>) = sized s" "socks (s\<lparr>led := l\<rparr>) = socks s"
proof -
  show o: "bpf_objs sd (s\<lparr>led := l\<rparr>) = bpf_objs sd s" for sd by (cases sd) auto
  then show "sized (s\<lparr>led := l\<rparr>) = sized s" by (simp add: sized_def)
qed (simp add: socks_def)

text \<open>An operation on one interface that keeps its balance keeps the books.\<close>

lemma booked_put:
  assumes "booked l0 s" "sock_frame (iface_socks (iface_at sd i s)) (iface_socks f) (led s) l'" "other_fields l' = other_fields (led s)"
    "i < MAX_INTERFACES" "counted f" "umem s \<or> iface_socks f = iface_socks (iface_at sd i s)"
  shows "booked l0 ((put_iface sd i f s)\<lparr>led := l'\<rparr>)"
proof -
  have i: "i < length (ifaces sd (io s))" using assms(1,4) by (simp add: booked_def sized_def)
  note sf = socks_put [OF assms(2) i]
  have "open_xsks l' = open_xsks l0 + socks (put_iface sd i f s)" using sf assms(1) by (simp add: sock_frame_def booked_def)
  moreover have "umem s \<longrightarrow> umem_refs l' = size (socks (put_iface sd i f s))"
    using sf assms(1) unfolding sock_frame_def booked_def by (metis add_0)
  moreover have "socks (put_iface sd i f s) = {#}" if "\<not> umem s"
  proof -
    have "iface_socks f = iface_socks (iface_at sd i s)" "socks s = {#}" using assms(1,6) that by (auto simp: booked_def)
    then have "sock_frame {#} (socks (put_iface sd i f s)) l' l'" using socks_put [OF _ i, of f l' l'] by simp
    then show ?thesis unfolding sock_frame_def by (metis add.right_neutral add_cancel_left_right)
  qed
  ultimately show ?thesis
    using assms(1,3) sized_put [OF _ assms(5)] by (auto simp: booked_def other_fields_def)
qed

section \<open>Closing\<close>

text \<open>What the deletion of sockets leaves alone.\<close>

definition rest_of :: "ne_setup \<Rightarrow> bool \<times> bool \<times> nat option list \<times> nat option list \<times> nat \<times> nat" where
  "rest_of s = (umem s, area s, bpf_locals s, bpf_wans s, local_count (io s), wan_count (io s))"

lemma rest_of_put [simp]: "rest_of (put_iface sd i f s) = rest_of s" "rest_of (s\<lparr>led := l\<rparr>) = rest_of s"
  by (cases sd; simp add: rest_of_def put_iface_def)+

lemma sized_counted: "sized s \<Longrightarrow> i < MAX_INTERFACES \<Longrightarrow> counted (iface_at sd i s)"
  unfolding sized_def iface_at_def by (metis nth_mem)

lemma sized_length: "sized s \<Longrightarrow> length (ifaces sd (io s)) = MAX_INTERFACES"
  by (simp add: sized_def)

lemma closed_counted: "all_closed f \<Longrightarrow> queue_count f \<le> MAX_QUEUES \<Longrightarrow> counted f"
  by (simp add: counted_def all_closed_def)

lemma counted_zero: "counted f \<Longrightarrow> queue_count f = 0 \<Longrightarrow> all_closed f"
  by (auto simp: counted_def all_closed_def in_set_conv_nth)

lemma delete_side_spec:
  assumes "booked l0 s" "i < MAX_INTERFACES"
  shows "booked l0 (delete_side h sd i s)" "all_closed (iface_at sd i (delete_side h sd i s))"
    "\<And>sd' j. sd' \<noteq> sd \<or> j \<noteq> i \<Longrightarrow> iface_at sd' j (delete_side h sd i s) = iface_at sd' j s"
    "rest_of (delete_side h sd i s) = rest_of s"
proof -
  let ?f = "iface_at sd i s"
  have c: "counted ?f" "i < length (ifaces sd (io s))" using assms by (simp_all add: booked_def sized_counted sized_length)
  obtain f l' where d: "delete_iface_xsks h (umem s) (queue_count ?f) ?f (led s) = (f, l')" by force
  note ds = delete_iface_spec [OF d c(1)]
  have k: "other_fields l' = other_fields (led s)" using delete_iface_keeps [of h "umem s" "queue_count ?f" ?f "led s"] d by simp
  have cf: "counted f" using ds(2,3) c(1) by (auto simp: counted_def all_closed_def) (metis ne_iface.select_convs(3) ne_iface.surjective ne_iface.update_convs(4))
  have u: "umem s \<or> iface_socks f = iface_socks ?f"
  proof (cases "umem s")
    case False
    then have "iface_socks ?f = {#}"
      using assms(1) c(2) unfolding booked_def socks_empty iface_at_def by (metis nth_mem)
    then show ?thesis using all_closed_socks [OF ds(2)] by simp
  qed simp
  have b: "booked l0 ((put_iface sd i f s)\<lparr>led := l'\<rparr>)" by (rule booked_put [OF assms(1) ds(1) k assms(2) cf u])
  have e: "delete_side h sd i s = (if live_flags sd (io s) ! i \<or> queue_count ?f > 0 then (put_iface sd i f s)\<lparr>led := l'\<rparr> else s)"
    using d by (simp add: delete_side_def on_iface_def)
  show "booked l0 (delete_side h sd i s)" using b assms(1) by (simp add: e)
  show "all_closed (iface_at sd i (delete_side h sd i s))" using ds(2) c counted_zero by (simp add: e)
  show "iface_at sd' j (delete_side h sd i s) = iface_at sd' j s" if "sd' \<noteq> sd \<or> j \<noteq> i" for sd' j
    using that by (simp add: e)
  show "rest_of (delete_side h sd i s) = rest_of s" by (simp add: e)
qed

lemma delete_all_spec:
  assumes "booked l0 s"
  shows "booked l0 (delete_all_live_xsks h s)" "socks (delete_all_live_xsks h s) = {#}"
    "rest_of (delete_all_live_xsks h s) = rest_of s"
proof -
  let ?d = "\<lambda>n. fold (\<lambda>i s. delete_side h Wan i (delete_side h Lan i s)) [0..<n] s"
  have d: "booked l0 (?d n) \<and> (\<forall>sd. \<forall>j<n. all_closed (iface_at sd j (?d n))) \<and> rest_of (?d n) = rest_of s" if "n \<le> MAX_INTERFACES" for n
    using that
  proof (induction n)
    case (Suc n)
    let ?s = "?d n" and ?t = "delete_side h Lan n (?d n)"
    have n: "n < MAX_INTERFACES" and ih: "booked l0 ?s" "\<forall>sd. \<forall>j<n. all_closed (iface_at sd j ?s)" "rest_of ?s = rest_of s"
      using Suc by auto
    note a = delete_side_spec [OF ih(1) n, where h = h and sd = Lan]
    note b = delete_side_spec [OF a(1) n, where h = h and sd = Wan]
    have "all_closed (iface_at sd j (delete_side h Wan n ?t))" if "j < Suc n" for sd j
    proof (cases "j = n")
      case True
      then show ?thesis using a(2) b(2,3) by (cases sd) auto
    next
      case False
      then show ?thesis using that ih(2) a(3) b(3) by simp
    qed
    then show ?case using b(1,4) a(4) ih(3) by simp
  qed (use assms in simp)
  note r = d [OF order_refl, folded delete_all_live_xsks_def]
  show "booked l0 (delete_all_live_xsks h s)" "rest_of (delete_all_live_xsks h s) = rest_of s" using r by blast+
  have "all_closed f" if "f \<in> set (ifaces sd (io (delete_all_live_xsks h s)))" for sd f
    using r that by (auto simp: booked_def sized_def iface_at_def in_set_conv_nth)
  then show "socks (delete_all_live_xsks h s) = {#}"
    using all_closed_socks by (simp add: socks_empty)
qed

lemma set_xdp_on_keeps [simp]:
  "booked l0 (set_xdp_on sd i b s) = booked l0 s" "bpf_objs sd' (set_xdp_on sd i b s) = bpf_objs sd' s"
  "io (set_xdp_on sd i b s) = io s" "umem (set_xdp_on sd i b s) = umem s" "area (set_xdp_on sd i b s) = area s"
  "led (set_xdp_on sd i b s) = led s" "socks (set_xdp_on sd i b s) = socks s" "rest_of (set_xdp_on sd i b s) = rest_of s"
proof -
  show o: "bpf_objs sd' (set_xdp_on sd i b s) = bpf_objs sd' s" for sd' by (cases sd; cases sd') auto
  show i: "io (set_xdp_on sd i b s) = io s" "umem (set_xdp_on sd i b s) = umem s" "area (set_xdp_on sd i b s) = area s"
    "led (set_xdp_on sd i b s) = led s" "socks (set_xdp_on sd i b s) = socks s" "rest_of (set_xdp_on sd i b s) = rest_of s"
    by (cases sd; simp add: socks_def rest_of_def)+
  have "bpf_held (set_xdp_on sd i b s) = bpf_held s" using o [of Lan] o [of Wan] by (simp add: bpf_held_def)
  then show "booked l0 (set_xdp_on sd i b s) = booked l0 s" by (simp add: booked_def sized_def o i)
qed

text \<open>Storing or dropping a BPF object handle.\<close>

lemma set_bpf_keeps [simp]:
  "io (set_bpf sd i ob s) = io s" "umem (set_bpf sd i ob s) = umem s" "area (set_bpf sd i ob s) = area s"
  "led (set_bpf sd i ob s) = led s" "socks (set_bpf sd i ob s) = socks s"
  "bpf_objs sd' (set_bpf sd i ob s) = (if sd' = sd then (bpf_objs sd s)[i := ob] else bpf_objs sd' s)"
  by (cases sd; cases sd'; simp add: socks_def)+

lemma bpf_held_alt: "bpf_held s = sum_list (map option_mset (bpf_objs Lan s)) + sum_list (map option_mset (bpf_objs Wan s))"
  by (simp add: bpf_held_def)

lemma bpf_held_set:
  assumes "i < length (bpf_objs sd s)"
  shows "bpf_held (set_bpf sd i ob s) + option_mset (bpf_objs sd s ! i) = bpf_held s + option_mset ob"
proof -
  have "sum_list ((map option_mset (bpf_objs sd s))[i := option_mset ob]) + option_mset (bpf_objs sd s ! i)
    = sum_list (map option_mset (bpf_objs sd s)) + option_mset ob"
    using sum_list_update_add [of i "map option_mset (bpf_objs sd s)" "option_mset ob"] assms by simp
  then show ?thesis by (cases sd) (simp_all add: bpf_held_def map_update ac_simps)
qed

lemma booked_bpf:
  assumes "booked l0 s" "i < iface_count sd (io s) \<or> ob = None" "i < MAX_INTERFACES"
    "open_bpf l' + option_mset (bpf_objs sd s ! i) = open_bpf (led s) + option_mset ob"
    "open_xsks l' = open_xsks (led s)" "umem_refs l' = umem_refs (led s)" "open_umems l' = open_umems (led s)" "mapped l' = mapped (led s)"
  shows "booked l0 ((set_bpf sd i ob s)\<lparr>led := l'\<rparr>)"
proof -
  have i: "i < length (bpf_objs sd s)" using assms(1,3) by (simp add: booked_def sized_def)
  have "(bpf_objs sd s)[i := ob] ! j = None" if "j < MAX_INTERFACES" "iface_count sd (io s) \<le> j" for j
    using assms(1,2) that i by (cases "j = i") (auto simp: booked_def sized_def)
  then have "sized (set_bpf sd i ob s)" using assms(1) by (simp add: booked_def sized_def)
  moreover have "open_bpf l' = open_bpf l0 + bpf_held (set_bpf sd i ob s)"
  proof -
    have "open_bpf l' + option_mset (bpf_objs sd s ! i) = open_bpf l0 + (bpf_held s + option_mset ob)"
      using assms(1,4) by (simp add: booked_def add.assoc)
    also have "\<dots> = open_bpf l0 + bpf_held (set_bpf sd i ob s) + option_mset (bpf_objs sd s ! i)"
      unfolding bpf_held_set [OF i, symmetric] by (simp only: add.assoc)
    finally show ?thesis by simp
  qed
  ultimately show ?thesis using assms(1,5-8) by (simp add: booked_def)
qed

lemma close_bpf_spec:
  assumes "booked l0 s" "i < MAX_INTERFACES"
  shows "booked l0 (close_bpf sd i s)" "bpf_objs sd (close_bpf sd i s) = (bpf_objs sd s)[i := None]"
    "sd' \<noteq> sd \<Longrightarrow> bpf_objs sd' (close_bpf sd i s) = bpf_objs sd' s"
    "io (close_bpf sd i s) = io s" "umem (close_bpf sd i s) = umem s" "area (close_bpf sd i s) = area s"
proof -
  have i: "i < length (bpf_objs sd s)" using assms by (simp add: booked_def sized_def)
  have "booked l0 (close_bpf sd i s) \<and> bpf_objs sd (close_bpf sd i s) = (bpf_objs sd s)[i := None] \<and>
    (sd' \<noteq> sd \<longrightarrow> bpf_objs sd' (close_bpf sd i s) = bpf_objs sd' s)"
  proof (cases "bpf_objs sd s ! i")
    case None
    then show ?thesis using assms(1) list_update_id [of "bpf_objs sd s" i] by (simp add: close_bpf_def)
  next
    case (Some ob)
    have "bpf_held s = bpf_held (set_bpf sd i None s) + {#ob#}" using bpf_held_set [OF i, of None] Some by (simp add: option_mset_def)
    then have "ob \<in># bpf_held s" by simp
    then have "ob \<in># open_bpf (led s)" using assms(1) by (simp add: booked_def)
    then have "booked l0 ((set_bpf sd i None s)\<lparr>led := bpf_object_close ob (led s)\<rparr>)"
      using Some by (intro booked_bpf [OF assms(1)]) (simp_all add: assms bpf_object_close_def option_mset_def)
    moreover have "set_bpf sd i None (set_led (bpf_object_close ob) s) = (set_bpf sd i None s)\<lparr>led := bpf_object_close ob (led s)\<rparr>"
      by (cases sd) (simp_all add: set_led_def)
    ultimately show ?thesis using Some by (simp add: close_bpf_def)
  qed
  then show "booked l0 (close_bpf sd i s)" "bpf_objs sd (close_bpf sd i s) = (bpf_objs sd s)[i := None]"
    "sd' \<noteq> sd \<Longrightarrow> bpf_objs sd' (close_bpf sd i s) = bpf_objs sd' s" by blast+
  show "io (close_bpf sd i s) = io s" "umem (close_bpf sd i s) = umem s" "area (close_bpf sd i s) = area s"
    by (simp_all add: close_bpf_def set_led_def split: option.split)
qed

lemma close_bpf_loop:
  assumes "booked l0 s"
  shows "n \<le> MAX_INTERFACES \<Longrightarrow> booked l0 (fold (close_bpf sd) [0..<n] s)"
    "n \<le> MAX_INTERFACES \<Longrightarrow> j < n \<Longrightarrow> bpf_objs sd (fold (close_bpf sd) [0..<n] s) ! j = None"
    "n \<le> MAX_INTERFACES \<Longrightarrow> n \<le> j \<Longrightarrow> bpf_objs sd (fold (close_bpf sd) [0..<n] s) ! j = bpf_objs sd s ! j"
    "n \<le> MAX_INTERFACES \<Longrightarrow> sd' \<noteq> sd \<Longrightarrow> bpf_objs sd' (fold (close_bpf sd) [0..<n] s) = bpf_objs sd' s"
    "n \<le> MAX_INTERFACES \<Longrightarrow> (io (fold (close_bpf sd) [0..<n] s), umem (fold (close_bpf sd) [0..<n] s), area (fold (close_bpf sd) [0..<n] s))
       = (io s, umem s, area s)"
proof (induction n)
  case (Suc n)
  note c = close_bpf_spec [OF Suc.IH(1), where sd = sd]
  have len: "length (bpf_objs sd (fold (close_bpf sd) [0..<n] s)) = MAX_INTERFACES" if "n \<le> MAX_INTERFACES"
    using Suc.IH(1) [OF that] by (simp add: booked_def sized_def)
  {
    case 1 then show ?case using c(1) by simp
  next
    case 2 then show ?case using c(2) Suc.IH(2) len by (cases "j = n") auto
  next
    case 3 then show ?case using c(2) Suc.IH(3) by simp
  next
    case 4 then show ?case using c(3) Suc.IH(4) by simp
  next
    case 5 then show ?case using c(4-6) Suc.IH(5) by simp
  }
qed (use assms in simp_all)

definition holdings :: "ledger \<Rightarrow> int multiset \<times> nat \<times> nat \<times> nat \<times> nat multiset" where
  "holdings l = (open_xsks l, umem_refs l, open_umems l, mapped l, open_bpf l)"

lemma holdings_detach [simp]:
  "holdings (xdp_attach_link_off h ifn l) = holdings l" "holdings (xdp_attach_detach_ifname h ifn l) = holdings l"
  "holdings (xdp_attach_detach_config h cfg l) = holdings l" "holdings (close_detach h c s l) = holdings l"
proof -
  show o: "holdings (xdp_attach_link_off h ifn l) = holdings l" for ifn l by (simp add: xdp_attach_link_off_def holdings_def)
  show i: "holdings (xdp_attach_detach_ifname h ifn l) = holdings l" for ifn l by (simp add: xdp_attach_detach_ifname_def o)
  have f: "holdings (fold g xs l) = holdings l" if "\<And>x l. holdings (g x l) = holdings l" for g and xs :: "'a list" and l
    using that by (induction xs arbitrary: l) auto
  show cfg: "holdings (xdp_attach_detach_config h cfg l) = holdings l" for cfg by (simp add: xdp_attach_detach_config_def f i)
  show "holdings (close_detach h c s l) = holdings l" by (simp add: close_detach_def f i cfg split: option.split)
qed

lemma booked_holdings: "holdings l' = holdings l \<Longrightarrow> booked l0 (s\<lparr>led := l'\<rparr>) = booked l0 (s\<lparr>led := l\<rparr>)"
  by (auto simp: booked_def holdings_def)

lemma close_releases:
  assumes "booked l0 s"
  shows "released l0 (led (ne_pair_close h c s))"
proof -
  define s1 where "s1 = delete_all_live_xsks h s"
  define s2 where "s2 = fold (close_bpf Wan) [0..<wan_count (io s1)] (fold (close_bpf Lan) [0..<local_count (io s1)] s1)"
  note d = delete_all_spec [OF assms, of h, folded s1_def]
  have n: "local_count (io s1) \<le> MAX_INTERFACES" "wan_count (io s1) \<le> MAX_INTERFACES"
    using d(1) unfolding booked_def sized_def by (metis iface_count.simps)+
  note a = close_bpf_loop [OF d(1) n(1), where sd = Lan]
  note b = close_bpf_loop [OF a(1) n(2), where sd = Wan, folded s2_def]
  have eq: "io s2 = io s1" "umem s2 = umem s1" "area s2 = area s1" using a(5) b(5) by simp_all
  have none: "bpf_objs sd s2 ! j = None" if "j < MAX_INTERFACES" for sd j
  proof (cases "j < iface_count sd (io s1)")
    case True
    then show ?thesis using a(2) b(2) b(4) [of Lan] by (cases sd) simp_all
  next
    case False
    then show ?thesis using b(1) that by (simp add: booked_def sized_def eq)
  qed
  have len: "length (bpf_objs sd s2) = MAX_INTERFACES" for sd using b(1) by (simp add: booked_def sized_def)
  have "option_mset ob = {#}" if "ob \<in> set (bpf_objs sd s2)" for ob sd
    using that none by (auto simp: in_set_conv_nth len option_mset_def)
  then have "bpf_held s2 = {#}" unfolding bpf_held_alt by (simp add: sum_list_mset_empty del: bpf_objs.simps)
  moreover have "socks s2 = {#}" using d(2) by (simp add: socks_def eq)
  moreover define s3 where "s3 = set_led (close_detach h c s2) s2"
  have h3: "holdings (led s3) = holdings (led s2)" by (simp add: s3_def set_led_def)
  ultimately show ?thesis
    using b(1) unfolding released_def ne_pair_close_def Let_def s1_def [symmetric] s2_def [symmetric] s3_def [symmetric]
    by (auto simp: booked_def holdings_def zero_setup_def set_led_def xsk_umem_delete_def) (auto simp: s3_def set_led_def)
qed

section \<open>Opening\<close>

definition frames_all :: "u64 list" where
  "frames_all = map (\<lambda>i. of_nat i * 4096) [0..<524288]"

text \<open>An interface with its queue count settled (\<open>pre\<close>) and with its sockets open (\<open>opn\<close>).\<close>

definition iface_stage :: "host \<Rightarrow> string \<Rightarrow> bool \<Rightarrow> bool \<Rightarrow> ne_iface \<Rightarrow> bool" where
  "iface_stage h ifn pre opn f \<longleftrightarrow> queue_count f = (if pre then resolve_iface_queue_count h ifn else 0) \<and>
     (if opn then (\<forall>q<queue_count f. created h ifn q (queues f ! q)) \<and> ifindex f = h_ifindex h ifn \<and> ifname f = copy_ifname ifn \<and>
        xdp_sg_enabled f
      else all_closed f)"

definition mem_stage :: "nat \<Rightarrow> ne_setup \<Rightarrow> bool" where
  "mem_stage m s \<longleftrightarrow> frame_size (io_mem (io s)) = 4096 \<and>
     (if m = 0 then \<not> area s
      else area s \<and> n_frames (io s) = 524288 \<and> length (bufs (io_mem (io s))) = 2147483648) \<and>
     (m = 2 \<longrightarrow> pool_inv (pool (io_mem (io s))) \<and> pl_cap (pool (io_mem (io s))) = 524288 \<and> pool_list (pool (io_mem (io s))) = frames_all)"

definition stage ::
  "host \<Rightarrow> app_config \<Rightarrow> ledger \<Rightarrow> nat \<Rightarrow> nat \<times> nat \<Rightarrow> bool \<Rightarrow> nat \<Rightarrow> nat \<Rightarrow> ne_setup \<Rightarrow> bool" where
  "stage h cfg l0 m pre um ol ow s \<longleftrightarrow> booked l0 s \<and> mem_stage m s \<and> umem s = um \<and> bpf_held s = {#} \<and>
     local_count (io s) = min (cfg_local_count cfg) MAX_INTERFACES \<and> wan_count (io s) = min (cfg_wan_count cfg) MAX_INTERFACES \<and>
     local_queue_total (io s) = sum_list (map queue_count (locals (io s))) \<and>
     wan_queue_total (io s) = sum_list (map queue_count (wans (io s))) \<and>
     (\<forall>i<MAX_INTERFACES. iface_stage h (cfg_locals cfg ! i) (i < fst pre) (i < ol) (iface_at Lan i s) \<and>
        iface_stage h (cfg_wans cfg ! i) (i < snd pre) (i < ow) (iface_at Wan i s))"

fun total_of :: "side \<Rightarrow> ne_pair_io \<Rightarrow> nat" where
  "total_of Lan p = local_queue_total p"
| "total_of Wan p = wan_queue_total p"

fun on_side :: "side \<Rightarrow> 'a \<Rightarrow> 'a \<Rightarrow> 'a" where
  "on_side Lan x y = x"
| "on_side Wan x y = y"

lemma all_sides: "(\<forall>sd. P sd) \<longleftrightarrow> P Lan \<and> P Wan" for P :: "side \<Rightarrow> bool"
  by (metis side.exhaust)

lemma stage_alt:
  "stage h cfg l0 m pre um ol ow s \<longleftrightarrow> booked l0 s \<and> mem_stage m s \<and> umem s = um \<and> bpf_held s = {#} \<and>
     (\<forall>sd. iface_count sd (io s) = min (cfg_count sd cfg) MAX_INTERFACES \<and>
        total_of sd (io s) = sum_list (map queue_count (ifaces sd (io s))) \<and>
        (\<forall>i<MAX_INTERFACES. iface_stage h (cfg_names sd cfg ! i) (i < on_side sd (fst pre) (snd pre)) (i < on_side sd ol ow) (iface_at sd i s)))"
  unfolding stage_def all_sides by auto

lemma stageD:
  assumes "stage h cfg l0 m pre um ol ow s"
  shows "booked l0 s" "mem_stage m s" "umem s = um" "bpf_held s = {#}"
    "\<And>sd. iface_count sd (io s) = min (cfg_count sd cfg) MAX_INTERFACES"
    "\<And>sd. total_of sd (io s) = sum_list (map queue_count (ifaces sd (io s)))"
    "\<And>sd j. j < MAX_INTERFACES \<Longrightarrow>
       iface_stage h (cfg_names sd cfg ! j) (j < on_side sd (fst pre) (snd pre)) (j < on_side sd ol ow) (iface_at sd j s)"
  using assms unfolding stage_alt by blast+

lemma stageI:
  assumes "booked l0 s" "mem_stage m s" "umem s = um" "bpf_held s = {#}"
    "\<And>sd. iface_count sd (io s) = min (cfg_count sd cfg) MAX_INTERFACES"
    "\<And>sd. total_of sd (io s) = sum_list (map queue_count (ifaces sd (io s)))"
    "\<And>sd j. j < MAX_INTERFACES \<Longrightarrow>
       iface_stage h (cfg_names sd cfg ! j) (j < on_side sd (fst pre) (snd pre)) (j < on_side sd ol ow) (iface_at sd j s)"
  shows "stage h cfg l0 m pre um ol ow s"
  using assms unfolding stage_alt by blast

lemma on_side_same [simp]: "on_side sd x x = x" by (cases sd) simp_all

text \<open>The host refuses nothing the configuration asks for.\<close>

definition host_grants :: "host \<Rightarrow> app_config \<Rightarrow> bool" where
  "host_grants h cfg \<longleftrightarrow> h_mmap h \<and> h_pool_calloc h \<and> h_pool_lock h \<and> h_umem h \<noteq> None \<and> (\<forall>n ifn q r. h_xsk h n ifn q r \<noteq> None) \<and>
     (\<forall>sd. \<forall>i<min (cfg_count sd cfg) MAX_INTERFACES.
        interface_preflight h (cfg_names sd cfg ! i) \<and> interface_set_promisc h (cfg_names sd cfg ! i))"

definition refused :: "host \<Rightarrow> app_config \<Rightarrow> ledger \<Rightarrow> ne_setup \<Rightarrow> bool" where
  "refused h cfg l0 s \<longleftrightarrow> booked l0 s \<and> \<not> host_grants h cfg"

lemma resolve_bounds: "0 < resolve_iface_queue_count h ifn" "resolve_iface_queue_count h ifn \<le> MAX_QUEUES"
  by (auto simp: resolve_iface_queue_count_def NE_QUEUE_OVERRIDE_def MAX_QUEUES_def Let_def)

lemma booked_io:
  assumes "\<And>sd. ifaces sd p = ifaces sd (io s)" "\<And>sd. iface_count sd p = iface_count sd (io s)"
  shows "booked l0 (s\<lparr>io := p\<rparr>) = booked l0 s"
proof -
  have "bpf_objs sd (s\<lparr>io := p\<rparr>) = bpf_objs sd s" for sd by (cases sd) auto
  then show ?thesis by (simp add: booked_def sized_def socks_alt bpf_held_alt assms del: ifaces.simps bpf_objs.simps)
qed

lemma open_start_booked: "booked l0 (open_start cfg l0)"
proof -
  have c: "counted zero_iface" by (simp add: counted_def zero_iface_def zero_queue_def MAX_QUEUES_def)
  have z: "iface_socks zero_iface = {#}"
    by (rule all_closed_socks) (simp add: all_closed_def zero_iface_def zero_queue_def)
  have "ifaces sd (io (open_start cfg l0)) = replicate MAX_INTERFACES zero_iface" "bpf_objs sd (open_start cfg l0) = replicate MAX_INTERFACES None"
    "iface_count sd (io (open_start cfg l0)) \<le> MAX_INTERFACES" for sd
    by (cases sd; simp add: open_start_def zero_setup_def zero_pair_io_def Let_def)+
  moreover from this have "socks (open_start cfg l0) = {#}" "bpf_held (open_start cfg l0) = {#}"
    using z unfolding socks_alt bpf_held_alt by (simp_all add: sum_list_mset_empty option_mset_def del: ifaces.simps bpf_objs.simps map_replicate)
  moreover have "led (open_start cfg l0) = l0" "\<not> umem (open_start cfg l0)" "\<not> area (open_start cfg l0)"
    by (simp_all add: open_start_def zero_setup_def Let_def)
  ultimately show ?thesis using c by (simp add: booked_def sized_def)
qed

fun bump :: "side \<Rightarrow> nat \<times> nat \<Rightarrow> nat \<times> nat" where
  "bump Lan (a, b) = (Suc a, b)"
| "bump Wan (a, b) = (a, Suc b)"

lemma mem_stage_cong:
  "io_mem (io s') = io_mem (io s) \<Longrightarrow> n_frames (io s') = n_frames (io s) \<Longrightarrow> area s' = area s \<Longrightarrow> mem_stage m s' = mem_stage m s"
  by (simp add: mem_stage_def)

lemma add_total_keeps [simp]:
  "ifaces sd' (add_queue_total sd n p) = ifaces sd' p" "iface_count sd' (add_queue_total sd n p) = iface_count sd' p"
  "io_mem (add_queue_total sd n p) = io_mem p" "n_frames (add_queue_total sd n p) = n_frames p"
  "total_of sd' (add_queue_total sd n p) = total_of sd' p + (if sd' = sd then n else 0)"
  by (cases sd; cases sd'; simp)+

lemma total_of_put [simp]: "total_of sd' (io (put_iface sd i f s)) = total_of sd' (io s)"
  by (cases sd; cases sd'; simp add: put_iface_def)

lemma preflight_ok:
  assumes "stage h cfg l0 0 pre False 0 0 s" "i = on_side sd (fst pre) (snd pre)" "i < min (cfg_count sd cfg) MAX_INTERFACES"
    "preflight_step h cfg sd i s = (ok, s')"
  shows "if ok then stage h cfg l0 0 (bump sd pre) False 0 0 s' else refused h cfg l0 s'"
proof -
  let ?f = "iface_at sd i s" and ?nq = "resolve_iface_queue_count h (cfg_names sd cfg ! i)"
  let ?f' = "?f\<lparr>queue_count := ?nq\<rparr>"
  let ?s1 = "put_iface sd i ?f' s"
  note st = stageD [OF assms(1)]
  have i: "i < MAX_INTERFACES" using assms(3) by simp
  have len: "length (ifaces sd' (io s)) = MAX_INTERFACES" for sd' using st(1) by (simp add: booked_def sized_length)
  have c: "all_closed ?f" "queue_count ?f = 0" using st(7) [OF i, of sd] assms(2) by (simp_all add: iface_stage_def)
  have cf: "counted ?f'" "all_closed ?f'" using c(1) resolve_bounds by (auto simp: counted_def all_closed_def)
  have "booked l0 (?s1\<lparr>led := led s\<rparr>)"
    by (rule booked_put [OF st(1) _ _ i cf(1)]) (simp_all add: iface_socks_def)
  then have b: "booked l0 (?s1\<lparr>io := add_queue_total sd ?nq (io ?s1)\<rparr>)" by (simp add: booked_io)
  have t: "sum_list (map queue_count ((ifaces sd (io s))[i := ?f'])) = sum_list (map queue_count (ifaces sd (io s))) + ?nq"
    using sum_list_update_add [of i "map queue_count (ifaces sd (io s))" ?nq] i len c(2) by (simp add: map_update iface_at_def)
  have at: "iface_at sd' j (?s1\<lparr>io := add_queue_total sd ?nq (io ?s1)\<rparr>) = (if sd' = sd \<and> j = i then ?f' else iface_at sd' j s)" for sd' j
    using i len [of sd] by (auto simp: iface_at_def ifaces_put)
  have bm: "on_side sd' (fst (bump sd pre)) (snd (bump sd pre)) = (if sd' = sd then Suc (on_side sd' (fst pre) (snd pre)) else on_side sd' (fst pre) (snd pre))"
    for sd' by (cases pre; cases sd; cases sd'; simp)
  have f': "iface_stage h (cfg_names sd cfg ! i) True False ?f'" using cf(2) by (simp add: iface_stage_def)
  have "iface_stage h (cfg_names sd' cfg ! j) (j < on_side sd' (fst (bump sd pre)) (snd (bump sd pre))) False
      (iface_at sd' j (?s1\<lparr>io := add_queue_total sd ?nq (io ?s1)\<rparr>))" if "j < MAX_INTERFACES" for sd' j
    using st(7) [OF that, of sd'] f' assms(2) unfolding at bm by (auto simp: less_Suc_eq)
  then have "stage h cfg l0 0 (bump sd pre) False 0 0 (?s1\<lparr>io := add_queue_total sd ?nq (io ?s1)\<rparr>)"
    using b st(2-6) t by (intro stageI) (simp_all add: ifaces_put mem_stage_def bpf_held_alt)
  moreover have "refused h cfg l0 s" if "\<not> interface_preflight h (cfg_names sd cfg ! i)"
    using that st(1) assms(3) by (auto simp: refused_def host_grants_def)
  moreover have "apply_iface_queue_count h (cfg_names sd cfg ! i) ?nq" by (simp add: apply_iface_queue_count_def NE_QUEUE_OVERRIDE_def)
  ultimately show ?thesis using assms(4) by (auto simp: preflight_step_def Let_def split: if_splits)
qed

text \<open>Filling the pool pushes every frame address once.\<close>

lemma pool_fill_spec:
  assumes "pool_inv pl" "length (pool_list pl) + n \<le> unat (pl_cap pl)"
  shows "pool_list (pool_fill n fs pl) = pool_list pl @ map (\<lambda>i. of_nat i * of_nat fs) [0..<n] \<and> pool_inv (pool_fill n fs pl) \<and>
    pl_cap (pool_fill n fs pl) = pl_cap pl"
  using assms(2)
proof (induction n)
  case (Suc n)
  let ?p = "pool_fill n fs pl"
  have e: "pool_fill (Suc n) fs pl = snd (pool_push ?p [of_nat n * of_nat fs])" by (simp add: pool_fill_def)
  obtain k p' where p': "pool_push ?p [of_nat n * of_nat fs] = (k, p')" by force
  have ih: "pool_inv ?p" "pl_cap ?p = pl_cap pl" "pool_list ?p = pool_list pl @ map (\<lambda>i. of_nat i * of_nat fs) [0..<n]"
    using Suc by simp_all
  note sp = pool_push_spec [OF ih(1) p']
  have "k = 1" using sp(1) Suc.prems ih(2,3) by simp
  then show ?case using sp(2-4) ih(2,3) by (simp add: e p')
qed (use assms(1) in \<open>simp add: pool_fill_def\<close>)

lemma booked_mem: "booked l0 (s\<lparr>io := (io s)\<lparr>io_mem := m, n_frames := n\<rparr>\<rparr>) = booked l0 s"
proof -
  have "ifaces sd ((io s)\<lparr>io_mem := m, n_frames := n\<rparr>) = ifaces sd (io s)"
    "iface_count sd ((io s)\<lparr>io_mem := m, n_frames := n\<rparr>) = iface_count sd (io s)" for sd by (cases sd; simp)+
  then show ?thesis by (rule booked_io)
qed

lemma mmap_ok:
  assumes "stage h cfg l0 0 pre False 0 0 s" "mmap_step h s = (ok, s')"
  shows "if ok then stage h cfg l0 1 pre False 0 0 s' else refused h cfg l0 s'"
proof -
  note st = stageD [OF assms(1)]
  let ?m = "(io_mem (io s))\<lparr>bufs := replicate (524288 * frame_size (io_mem (io s))) 0\<rparr>"
  define s1 where
    "s1 = s\<lparr>io := (io s)\<lparr>n_frames := 524288, io_mem := ?m\<rparr>, area := True, led := (led s)\<lparr>mapped := mapped (led s) + 1\<rparr>\<rparr>"
  have sides: "ifaces sd (io s1) = ifaces sd (io s)" "iface_count sd (io s1) = iface_count sd (io s)" "bpf_objs sd s1 = bpf_objs sd s"
    "total_of sd (io s1) = total_of sd (io s)" "iface_at sd j s1 = iface_at sd j s" for sd j by (cases sd; simp add: iface_at_def s1_def)+
  have n: "unat NE_N_FRAMES = 524288" by (simp add: NE_N_FRAMES_def)
  have keep: "socks s1 = socks s" "bpf_held s1 = bpf_held s" "umem s1 = umem s" by (simp_all add: socks_def bpf_held_def s1_def)
  then have "booked l0 s1" using st(1,2) by (simp add: booked_def sized_def sides mem_stage_def) (simp add: s1_def)
  moreover have "mem_stage 1 s1" using st(2) by (simp add: mem_stage_def s1_def)
  ultimately have "stage h cfg l0 1 pre False 0 0 s1"
    using st(3-7) by (intro stageI) (simp_all add: sides keep)
  moreover have "booked l0 (s\<lparr>io := (io s)\<lparr>n_frames := 524288\<rparr>\<rparr>)"
    using st(1) booked_mem [where s = s and m = "io_mem (io s)" and n = 524288] by simp
  ultimately show ?thesis using assms(2) by (auto simp: mmap_step_def Let_def n s1_def refused_def host_grants_def split: if_splits)
qed

lemma pool_ok:
  assumes "stage h cfg l0 1 pre False 0 0 s" "pool_step h s = (ok, s')"
  shows "if ok then stage h cfg l0 2 pre False 0 0 s' else refused h cfg l0 s'"
proof -
  note st = stageD [OF assms(1)]
  have m: "frame_size (io_mem (io s)) = 4096" "n_frames (io s) = 524288" using st(2) by (simp_all add: mem_stage_def)
  obtain ok1 pl where pi: "pool_init (h_pool_calloc h) (h_pool_lock h) (pool (io_mem (io s))) 524288 = (ok1, pl)" by force
  define pl1 where "pl1 = (if ok1 then pool_fill 524288 4096 pl else pl)"
  have s': "ok = ok1" "s' = s\<lparr>io := (io s)\<lparr>io_mem := (io_mem (io s))\<lparr>pool := pl1\<rparr>\<rparr>\<rparr>"
    using assms(2) pi by (auto simp: pool_step_def Let_def m pl1_def)
  have sides: "ifaces sd (io s') = ifaces sd (io s)" "iface_count sd (io s') = iface_count sd (io s)" "bpf_objs sd s' = bpf_objs sd s"
    "total_of sd (io s') = total_of sd (io s)" "iface_at sd j s' = iface_at sd j s" for sd j by (cases sd; simp add: iface_at_def s')+
  have b: "booked l0 s'" using st(1) booked_mem [where s = s and m = "(io_mem (io s))\<lparr>pool := pl1\<rparr>" and n = "n_frames (io s)"] by (simp add: s')
  have "stage h cfg l0 2 pre False 0 0 s'" if ok
  proof -
    have pl: "pool_inv pl" "pl_cap pl = 524288" "pool_list pl = []"
      using pi that s'(1) by (auto simp: pool_init_def pool_inv_def pow2_cap_def pool_list_def slots_def split: if_splits)
    have "mem_stage 2 s'"
      using pool_fill_spec [OF pl(1), of 524288 4096] pl that s'(1) st(2)
      by (simp add: mem_stage_def s'(2) pl1_def frames_all_def del: upt_rec_numeral)
    moreover have "umem s' = umem s" "bpf_held s' = bpf_held s" by (simp_all add: s' bpf_held_def)
    ultimately show ?thesis using st(3-7) b by (intro stageI) (simp_all add: sides)
  qed
  moreover have "\<not> host_grants h cfg" if "\<not> ok"
    using that pi s'(1) by (auto simp: host_grants_def pool_init_def split: if_splits)
  ultimately show ?thesis using b by (simp add: refused_def)
qed

lemma stage_led:
  assumes "stage h cfg l0 m pre um ol ow s" "holdings l' = holdings (led s)"
  shows "stage h cfg l0 m pre um ol ow (s\<lparr>led := l'\<rparr>)"
proof -
  have "booked l0 (s\<lparr>led := l'\<rparr>)" using booked_holdings [OF assms(2), of l0 s] stageD(1) [OF assms(1)] by simp
  then show ?thesis using stageD [OF assms(1)] by (intro stageI) (simp_all add: mem_stage_def)
qed

lemma promisc_ok:
  assumes "stage h cfg l0 m pre um ol ow s" "i < min (cfg_count sd cfg) MAX_INTERFACES" "promisc_step h cfg sd i s = (ok, s')"
  shows "if ok then stage h cfg l0 m pre um ol ow s' else refused h cfg l0 s'"
  using assms stageD(1) by (auto simp: promisc_step_def refused_def host_grants_def)

lemma scrub_ok:
  assumes "stage h cfg l0 m pre um ol ow s" "scrub_step h cfg sd i s = (ok, s')"
  shows "if ok then stage h cfg l0 m pre um ol ow s' else refused h cfg l0 s'"
  using stage_led [OF assms(1), of "xdp_attach_detach_ifname h (cfg_names sd cfg ! i) (led s)"] assms(2)
  by (auto simp: scrub_step_def set_led_def)

lemma umem_ok:
  assumes "stage h cfg l0 2 pre False 0 0 s" "umem_step h s = (ok, s')"
  shows "if ok then stage h cfg l0 2 pre True 0 0 s' else refused h cfg l0 s'"
proof (cases "h_umem h")
  case None
  then show ?thesis using assms stageD(1) by (auto simp: umem_step_def refused_def host_grants_def)
next
  case (Some r)
  obtain fq cq where r: "r = (fq, cq)" by force
  note st = stageD [OF assms(1)]
  have z: "0 < MAX_INTERFACES" by (simp add: MAX_INTERFACES_def)
  let ?f = "iface_at Lan 0 s"
  define f where "f = ?f\<lparr>queues := (queues ?f)[0 := (queues ?f ! 0)\<lparr>q_fq := fq, q_cq := cq\<rparr>]\<rparr>"
  have len: "length (ifaces Lan (io s)) = MAX_INTERFACES" using st(1) sized_length [of s Lan] unfolding booked_def by blast
  have c: "all_closed ?f" using st(7) [OF z, of Lan] by (simp add: iface_stage_def)
  then have l0q: "0 < length (queues ?f)" by (simp add: all_closed_def MAX_QUEUES_def)
  have cf: "all_closed f"
  proof -
    have "xsk (queues ?f ! 0) = None" using c l0q by (simp add: all_closed_def)
    then have "\<forall>slot\<in>set (queues f). xsk slot = None"
      using c set_update_subset_insert [of "queues ?f" 0] unfolding all_closed_def f_def by force
    then show ?thesis using c by (simp add: all_closed_def f_def)
  qed
  have "queue_count f \<le> MAX_QUEUES" using sized_counted [OF _ z, of s Lan] st(1) by (simp add: booked_def counted_def f_def)
  then have kf: "counted f" "iface_socks f = iface_socks ?f"
    using cf c by (simp_all add: all_closed_socks closed_counted)
  have "booked l0 ((put_iface Lan 0 f s)\<lparr>led := led s\<rparr>)" by (rule booked_put [OF st(1) _ _ z kf(1)]) (simp_all add: kf(2))
  then have b: "booked l0 (put_iface Lan 0 f s)" by simp
  have s': "ok" "s' = (put_iface Lan 0 f s)\<lparr>umem := True, umem_fq := Some (0, 0),
      led := (led s)\<lparr>open_umems := open_umems (led s) + 1, umem_refs := 0\<rparr>\<rparr>"
    using assms(2) Some r by (auto simp: umem_step_def f_def Let_def)
  have sides: "ifaces sd (io s') = ifaces sd (io (put_iface Lan 0 f s))" "iface_count sd (io s') = iface_count sd (io s)"
    "bpf_objs sd s' = bpf_objs sd s" "total_of sd (io s') = total_of sd (io s)" "io_mem (io s') = io_mem (io s)"
    "n_frames (io s') = n_frames (io s)" "area s' = area s" "umem s'" for sd
    by (cases sd; simp add: s'(2) put_iface_def)+
  have at: "iface_at sd j s' = (if sd = Lan \<and> j = 0 then f else iface_at sd j s)" for sd j
    using len z by (simp add: iface_at_def sides ifaces_put del: ifaces.simps)
  have sk: "socks s' = socks (put_iface Lan 0 f s)" "bpf_held s' = bpf_held s" by (simp_all add: socks_alt bpf_held_alt sides del: ifaces.simps bpf_objs.simps)
  have "socks s' = {#}" using b st(3) sk(1) by (simp add: booked_def)
  then have "booked l0 s'"
    using b st(3) sk by (simp add: booked_def sized_def sides) (simp add: s'(2))
  moreover have "iface_stage h (cfg_names sd cfg ! j) (j < on_side sd (fst pre) (snd pre)) False (iface_at sd j s')" if "j < MAX_INTERFACES" for sd j
    using st(7) [OF that, of sd] cf by (auto simp: at iface_stage_def f_def)
  moreover have "sum_list (map queue_count (ifaces Lan (io s'))) = sum_list (map queue_count (ifaces Lan (io s)))"
    using len z sum_list_update_add [of 0 "map queue_count (ifaces Lan (io s))" "queue_count f"]
    by (simp add: sides ifaces_put map_update f_def iface_at_def del: ifaces.simps)
  then have "total_of sd (io s') = sum_list (map queue_count (ifaces sd (io s')))" for sd
    using st(6) [of sd] by (cases sd) (simp_all add: sides ifaces_put del: ifaces.simps total_of.simps)
  ultimately have "stage h cfg l0 2 pre True 0 0 s'"
    using st(2-5) by (intro stageI) (simp_all add: sides sk mem_stage_def)
  then show ?thesis using s'(1) by simp
qed

lemma create_queues_grants:
  assumes "\<And>n q r. h_xsk h n ifn q r \<noteq> None" "create_queues h ifn own is qs l = (r, qs', l')"
  shows "r = None"
  using assms(2)
proof (induction "is" arbitrary: qs l)
  case (Cons q "is")
  obtain x where "h_xsk h (xsk_calls l) ifn q (q_fq (zero_queue_rings (qs ! q) (own q)), q_cq (zero_queue_rings (qs ! q) (own q))) = Some x"
    using assms(1) by blast
  then show ?case using Cons by (simp add: xsk_create_queue_def Let_def)
qed simp

lemma open_iface_grants:
  assumes "\<And>n q r. h_xsk h n ifn q r \<noteq> None" "0 < n" "n \<le> MAX_QUEUES" "h_ifindex h ifn \<noteq> 0"
  shows "fst (open_iface_queues h ifn own n iface l)"
proof -
  obtain r qs la where c: "create_queues h ifn own [0..<n] (queues iface) l = (r, qs, la)" by (metis prod_cases3)
  then show ?thesis using create_queues_grants [OF assms(1) c] assms(2-4) by (simp add: open_iface_queues_def Let_def)
qed

lemma open_on_ok:
  assumes "booked l0 s" "umem s" "i < MAX_INTERFACES" "all_closed (iface_at sd i s)" "queue_count (iface_at sd i s) \<le> MAX_QUEUES"
    "open_on h ifn sd i n s = (ok, s')"
  obtains f l' where "s' = (put_iface sd i f s)\<lparr>led := l'\<rparr>" "booked l0 s'" "other_fields l' = other_fields (led s)" "counted f"
    "\<not> ok \<Longrightarrow> all_closed f" "ok \<Longrightarrow> n = resolve_iface_queue_count h ifn \<Longrightarrow> iface_stage h ifn True True f"
    "ok \<Longrightarrow> queue_count f = n"
proof -
  obtain ok1 f l' where o: "open_iface_queues h ifn (is_umem_fq_owner_queue s sd i) n (iface_at sd i s) (led s) = (ok1, f, l')"
    by (metis prod_cases3)
  then have e: "s' = (put_iface sd i f s)\<lparr>led := l'\<rparr>" "ok = ok1" using assms(6) by (auto simp: open_on_def)
  note os = open_iface_spec [OF o assms(4,5)]
  have "booked l0 s'" unfolding e by (rule booked_put [OF assms(1) os(1,2) assms(3) os(3)]) (simp add: assms(2))
  then show ?thesis
    using os(2-5) by (intro that [OF e(1)]) (auto simp: e(2) iface_stage_def)
qed

lemma put_put [simp]: "put_iface sd i f ((put_iface sd i g s)\<lparr>led := l\<rparr>) = (put_iface sd i f s)\<lparr>led := l\<rparr>"
  by (cases sd) (simp_all add: put_iface_def)

lemma sockets_ok:
  assumes "stage h cfg l0 2 pre True ol ow s" "i = on_side sd ol ow" "i < min (cfg_count sd cfg) MAX_INTERFACES" "i < on_side sd (fst pre) (snd pre)"
    "sockets_step h cfg sd i s = (ok, s')"
  shows "if ok then stage h cfg l0 2 pre True (fst (bump sd (ol, ow))) (snd (bump sd (ol, ow))) s' else refused h cfg l0 s'"
proof -
  note st = stageD [OF assms(1)]
  have i: "i < MAX_INTERFACES" using assms(3) by simp
  let ?ifn = "cfg_names sd cfg ! i" and ?f = "iface_at sd i s"
  let ?n = "resolve_iface_queue_count h ?ifn"
  have c: "all_closed ?f" "queue_count ?f = ?n" using st(7) [OF i, of sd] assms(2,4) by (auto simp: iface_stage_def)
  have len: "i < length (ifaces sd (io s))" using st(1) i by (simp add: booked_def sized_length)
  have fin: "stage h cfg l0 2 pre True (fst (bump sd (ol, ow))) (snd (bump sd (ol, ow))) s'"
    if "s' = (put_iface sd i f s)\<lparr>led := l'\<rparr>" "booked l0 s'" "iface_stage h ?ifn True True f" for f l'
  proof -
    have at: "iface_at sd' j s' = (if sd' = sd \<and> j = i then f else iface_at sd' j s)" for sd' j
      using that(1) len by auto
    have q: "queue_count f = queue_count ?f" using that(3) c(2) by (simp add: iface_stage_def)
    have "sum_list (map queue_count ((ifaces sd (io s))[i := f])) = sum_list (map queue_count (ifaces sd (io s)))"
      using len q by (simp add: map_update iface_at_def) (metis list_update_id map_update)
    then have "total_of sd' (io s') = sum_list (map queue_count (ifaces sd' (io s')))" for sd'
      using st(6) [of sd'] that(1) by (simp add: ifaces_put)
    moreover have "iface_stage h (cfg_names sd' cfg ! j) (j < on_side sd' (fst pre) (snd pre))
        (j < on_side sd' (fst (bump sd (ol, ow))) (snd (bump sd (ol, ow)))) (iface_at sd' j s')" if "j < MAX_INTERFACES" for sd' j
      using st(7) [OF that, of sd'] \<open>iface_stage h ?ifn True True f\<close> assms(2,4) unfolding at
      by (cases sd; cases sd') (auto simp: less_Suc_eq)
    ultimately show ?thesis using st(2-5) that(1,2) by (intro stageI) (simp_all add: mem_stage_def)
  qed
  obtain ok1 s1 where o1: "open_on h ?ifn sd i ?n s = (ok1, s1)" by force
  have pre: "umem s" "queue_count ?f \<le> MAX_QUEUES" using st(3) c(2) resolve_bounds by simp_all
  obtain f l' where
    f: "s1 = (put_iface sd i f s)\<lparr>led := l'\<rparr>" "booked l0 s1" "counted f" "\<not> ok1 \<Longrightarrow> all_closed f" "ok1 \<Longrightarrow> iface_stage h ?ifn True True f"
    by (rule open_on_ok [OF st(1) pre(1) i c(1) pre(2) o1]) blast
  show ?thesis
  proof (cases ok1)
    case True
    then have "s' = s1" ok using assms(5) o1 c(2) by (auto simp: sockets_step_def Let_def)
    then show ?thesis using fin [OF _ _ f(5) [OF True]] f(1,2) by simp
  next
    case False
    let ?s2 = "set_led (xdp_attach_detach_ifname h ?ifn) s1"
    have s2: "?s2 = (put_iface sd i f s)\<lparr>led := xdp_attach_detach_ifname h ?ifn l'\<rparr>" by (simp add: set_led_def f(1))
    have o2: "open_on h ?ifn sd i ?n ?s2 = (ok, s')" using assms(5) o1 c(2) False by (auto simp: sockets_step_def Let_def)
    have b2: "booked l0 ?s2" using f(2) booked_holdings [of _ "led s1" l0 s1] by (simp add: set_led_def)
    have at2: "iface_at sd i ?s2 = f" "umem ?s2" using s2 len st(3) by simp_all
    have cl: "all_closed (iface_at sd i ?s2)" "queue_count (iface_at sd i ?s2) \<le> MAX_QUEUES"
      using f(3,4) False at2(1) by (simp_all add: counted_def)
    obtain g m' where
      g: "s' = (put_iface sd i g ?s2)\<lparr>led := m'\<rparr>" "booked l0 s'" "ok \<Longrightarrow> iface_stage h ?ifn True True g"
      by (rule open_on_ok [OF b2 at2(2) i cl o2]) blast
    have "s' = (put_iface sd i g s)\<lparr>led := m'\<rparr>" using g(1) s2 by simp
    moreover have "\<not> host_grants h cfg"
    proof
      assume g: "host_grants h cfg"
      then have x: "h_xsk h n ?ifn q r \<noteq> None" for n q r unfolding host_grants_def by blast
      have "h_ifindex h ?ifn \<noteq> 0" using g assms(3) by (auto simp: host_grants_def interface_preflight_def split: if_splits)
      then have "fst (open_on h ?ifn sd i ?n s)"
        using open_iface_grants [OF x resolve_bounds] by (simp add: open_on_def split_beta)
      then show False using o1 False by simp
    qed
    ultimately show ?thesis using fin [OF _ g(2)] g(2,3) by (simp add: refused_def)
  qed
qed

end
