(* ===== verification/Setup_Fill.thy ===== *)
theory Setup_Fill
  imports Setup_Open
begin

text \<open>
  The last step of \<^verbatim>\<open>ne_pair_open\<close>, the prefill of the fill queues, and the theorems on opening. The locale \<open>frame_taker\<close> is the contract
  of an operation that takes a known number of frames from the front of the pool; its lemma gives a loop the frames
  in consecutive slices. It is interpreted on the prefill of one queue and, with that, on the prefill of an interface.
\<close>

section \<open>Taking frames in slices\<close>

locale frame_taker =
  fixes op :: "'x \<Rightarrow> ne_pool \<Rightarrow> 'x \<times> ne_pool" and need :: "'x \<Rightarrow> nat" and ok :: "'x \<Rightarrow> bool" and got :: "'x \<Rightarrow> u64 list \<Rightarrow> 'x \<Rightarrow> bool"
  assumes taker: "ok x \<Longrightarrow> pool_inv pl \<Longrightarrow> need x \<le> length (pool_list pl) \<Longrightarrow> op x pl = (x', pl') \<Longrightarrow>
    got x (take (need x) (pool_list pl)) x' \<and> pool_list pl' = drop (need x) (pool_list pl) \<and> pool_inv pl' \<and> pl_cap pl' = pl_cap pl"
begin

definition before :: "'x list \<Rightarrow> nat \<Rightarrow> nat" where
  "before xs j = sum_list (map need (take j xs))"

lemma before_Suc: "j < length xs \<Longrightarrow> before xs (Suc j) = before xs j + need (xs ! j)"
  by (simp add: before_def take_Suc_conv_app_nth)

lemma loop_slices:
  assumes "n \<le> length xs" "\<forall>j<n. ok (xs ! j)" "pool_inv pl" "before xs n \<le> length (pool_list pl)"
    "fold (list_step (\<lambda>_. True) op) [0..<n] (xs, pl) = (xs', pl')"
  shows "length xs' = length xs \<and> (\<forall>j<n. got (xs ! j) (take (need (xs ! j)) (drop (before xs j) (pool_list pl))) (xs' ! j)) \<and>
    (\<forall>j. n \<le> j \<longrightarrow> xs' ! j = xs ! j) \<and> pool_list pl' = drop (before xs n) (pool_list pl) \<and> pool_inv pl' \<and> pl_cap pl' = pl_cap pl"
  using assms
proof (induction n arbitrary: xs' pl')
  case 0
  then show ?case by (simp add: before_def)
next
  case (Suc n)
  obtain ys m where y: "fold (list_step (\<lambda>_. True) op) [0..<n] (xs, pl) = (ys, m)" by force
  have n: "n < length xs" using Suc.prems(1) by simp
  note b = before_Suc [OF n]
  have ih: "length ys = length xs" "\<forall>j<n. got (xs ! j) (take (need (xs ! j)) (drop (before xs j) (pool_list pl))) (ys ! j)"
    "\<forall>j. n \<le> j \<longrightarrow> ys ! j = xs ! j" "pool_list m = drop (before xs n) (pool_list pl)" "pool_inv m" "pl_cap m = pl_cap pl"
    using Suc.IH [OF _ _ _ _ y] Suc.prems(1-4) b by auto
  obtain x m' where x: "op (xs ! n) m = (x, m')" by force
  have st: "list_step (\<lambda>_. True) op n (ys, m) = (xs', pl')" using Suc.prems(5) y by simp
  then have e: "xs' = ys[n := x]" "pl' = m'" using x ih(3) by (auto simp: list_step_def)
  have "need (xs ! n) \<le> length (pool_list m)" using Suc.prems(4) b ih(4) by simp
  from taker [OF _ ih(5) this x] Suc.prems(2) have t: "got (xs ! n) (take (need (xs ! n)) (pool_list m)) x"
    "pool_list m' = drop (need (xs ! n)) (pool_list m)" "pool_inv m'" "pl_cap m' = pl_cap m" by auto
  have "got (xs ! j) (take (need (xs ! j)) (drop (before xs j) (pool_list pl))) (xs' ! j)" if "j < Suc n" for j
    using that ih(1,2,4) t(1) n by (cases "j = n") (simp_all add: e)
  then show ?case using ih t(2-4) e b n by (simp add: add.commute)
qed

end

section \<open>Prefill\<close>

definition fresh_queue :: "nat \<Rightarrow> ne_xsk_queue \<Rightarrow> bool" where
  "fresh_queue want slot \<longleftrightarrow> prod_inv (q_fq slot) \<and> xsk_list (q_fq slot) = [] \<and> want \<le> unat (xr_size (q_fq slot))"

definition filled_queue :: "ne_xsk_queue \<Rightarrow> u64 list \<Rightarrow> ne_xsk_queue \<Rightarrow> bool" where
  "filled_queue slot as slot' \<longleftrightarrow> slot' = slot\<lparr>q_fq := q_fq slot'\<rparr> \<and> xsk_list (q_fq slot') = as \<and> prod_inv (q_fq slot')"

interpretation queue_taker: frame_taker "\<lambda>slot pl. prefill_queue slot pl want" "\<lambda>_. want" "fresh_queue want" filled_queue for want
proof
  fix slot slot' :: ne_xsk_queue and pl pl' :: ne_pool
  assume f: "fresh_queue want slot" "pool_inv pl" "want \<le> length (pool_list pl)" "prefill_queue slot pl want = (slot', pl')"
  obtain fq pl1 where p: "prefill_loop want (q_fq slot) pl = (fq, pl1)" by force
  have e: "slot' = slot\<lparr>q_fq := fq\<rparr>" "pl' = pl1" using f(4) p by (auto simp: prefill_queue_def)
  show "filled_queue slot (take want (pool_list pl)) slot' \<and> pool_list pl' = drop want (pool_list pl) \<and> pool_inv pl' \<and> pl_cap pl' = pl_cap pl"
    using prefill_loop_spec [OF _ f(2) _ p] f(1) by (simp add: fresh_queue_def filled_queue_def e)
qed

definition fresh_iface :: "nat \<Rightarrow> ne_iface \<Rightarrow> bool" where
  "fresh_iface want f \<longleftrightarrow> queue_count f \<le> length (queues f) \<and> (\<forall>q<queue_count f. fresh_queue want (queues f ! q))"

definition filled_iface :: "nat \<Rightarrow> ne_iface \<Rightarrow> u64 list \<Rightarrow> ne_iface \<Rightarrow> bool" where
  "filled_iface want f as f' \<longleftrightarrow> f' = f\<lparr>queues := queues f'\<rparr> \<and> length (queues f') = length (queues f) \<and>
     (\<forall>q<queue_count f. filled_queue (queues f ! q) (take want (drop (q * want) as)) (queues f' ! q)) \<and>
     (\<forall>q. queue_count f \<le> q \<longrightarrow> queues f' ! q = queues f ! q)"

lemma queue_before: "j \<le> length qs \<Longrightarrow> queue_taker.before want qs j = j * want"
  by (simp add: queue_taker.before_def map_replicate_const sum_list_replicate min_def)

interpretation iface_taker: frame_taker "prefill_iface want" "\<lambda>f. queue_count f * want" "fresh_iface want" "filled_iface want" for want
proof
  fix f f' :: ne_iface and pl pl' :: ne_pool
  let ?n = "queue_count f"
  assume a: "fresh_iface want f" "pool_inv pl" "?n * want \<le> length (pool_list pl)" "prefill_iface want f pl = (f', pl')"
  obtain qs pl1 where s: "fold (list_step (\<lambda>_. True) (\<lambda>slot pl. prefill_queue slot pl want)) [0..<?n] (queues f, pl) = (qs, pl1)" by force
  have e: "f' = f\<lparr>queues := qs\<rparr>" "pl' = pl1" using a(4) s by (auto simp: prefill_iface_def for_queues_def)
  have n: "?n \<le> length (queues f)" "\<forall>q<?n. fresh_queue want (queues f ! q)" using a(1) by (auto simp: fresh_iface_def)
  note l = queue_taker.loop_slices [OF n a(2) _ s]
  have slice: "take want (drop (q * want) (take (?n * want) (pool_list pl))) = take want (drop (q * want) (pool_list pl))" if "q < ?n" for q
  proof -
    have "q * want + want \<le> ?n * want" using that mult_le_mono1 [of "Suc q" ?n want] by simp
    then show ?thesis by (simp add: drop_take min_def)
  qed
  show "filled_iface want f (take (?n * want) (pool_list pl)) f' \<and> pool_list pl' = drop (?n * want) (pool_list pl) \<and> pool_inv pl' \<and> pl_cap pl' = pl_cap pl"
    using l a(3) n(1) slice by (auto simp: queue_before filled_iface_def e)
qed

text \<open>Whatever the rings are, the prefill changes nothing but the fill rings and the pool.\<close>

definition refilled :: "ne_iface \<Rightarrow> ne_iface \<Rightarrow> bool" where
  "refilled f f' \<longleftrightarrow> f' = f\<lparr>queues := queues f'\<rparr> \<and> length (queues f') = length (queues f) \<and>
     (\<forall>q<length (queues f). \<exists>x. queues f' ! q = (queues f ! q)\<lparr>q_fq := x\<rparr>)"

lemma refilled_same:
  assumes "refilled f f'"
  shows "queue_count f' = queue_count f" "ifindex f' = ifindex f" "ifname f' = ifname f" "xdp_sg_enabled f' = xdp_sg_enabled f"
    "length (queues f') = length (queues f)" "\<And>q. q < length (queues f) \<Longrightarrow> xsk (queues f' ! q) = xsk (queues f ! q)"
    "iface_socks f' = iface_socks f" "counted f' = counted f"
proof -
  have e: "f' = f\<lparr>queues := queues f'\<rparr>" using assms by (simp add: refilled_def)
  show same: "queue_count f' = queue_count f" "ifindex f' = ifindex f" "ifname f' = ifname f" "xdp_sg_enabled f' = xdp_sg_enabled f"
    by (subst e, simp)+
  show len: "length (queues f') = length (queues f)" using assms by (simp add: refilled_def)
  show x: "xsk (queues f' ! q) = xsk (queues f ! q)" if "q < length (queues f)" for q
    using assms that by (auto simp: refilled_def dest: spec [of _ q])
  have "map queue_socks (queues f') = map queue_socks (queues f)"
    by (rule nth_equalityI) (simp_all add: len x queue_socks_def)
  then show "iface_socks f' = iface_socks f" by (simp add: iface_socks_def)
  show "counted f' = counted f" using x by (auto simp: counted_def same len)
qed

lemma prefill_iface_refilled:
  assumes "prefill_iface want f pl = (f', pl')" "queue_count f \<le> length (queues f)"
  shows "refilled f f'"
proof -
  obtain qs pl1 where s: "fold (\<lambda>j. list_step (\<lambda>_. True) ((\<lambda>_ slot pl. prefill_queue slot pl want) j) j) [0..<queue_count f] (queues f, pl) = (qs, pl1)"
    by force
  have e: "f' = f\<lparr>queues := qs\<rparr>" using assms(1) s by (auto simp: prefill_iface_def for_queues_def)
  have pq: "\<exists>x. fst (prefill_queue slot pl want) = slot\<lparr>q_fq := x\<rparr>" for slot pl by (auto simp: prefill_queue_def split_beta)
  have id: "\<exists>x. slot = slot\<lparr>q_fq := x\<rparr>" for slot :: ne_xsk_queue by (rule exI [of _ "q_fq slot"]) simp
  note n = fold_list_step_nth [OF s assms(2)]
  have "\<exists>x. qs ! q = (queues f ! q)\<lparr>q_fq := x\<rparr>" if "q < length (queues f)" for q
    using n [THEN conjunct2, rule_format, OF that] pq id by (auto split: if_splits)
  then show ?thesis using n by (simp add: refilled_def e)
qed

lemma prefill_side_refilled:
  assumes "fold (list_step (\<lambda>_. True) (prefill_iface want)) [0..<n] (fs, pl) = (fs', pl')" "n \<le> length fs" "\<forall>f\<in>set fs. counted f"
  shows "length fs' = length fs" "\<And>i. i < length fs \<Longrightarrow> refilled (fs ! i) (fs' ! i)"
proof -
  note n = fold_list_step_nth [OF assms(1,2)]
  show "length fs' = length fs" using n by blast
  show "refilled (fs ! i) (fs' ! i)" if "i < length fs" for i
  proof -
    have c: "queue_count (fs ! i) \<le> length (queues (fs ! i))" using assms(3) that by (simp add: counted_def)
    have "refilled f f" for f by (auto simp: refilled_def) (metis ne_xsk_queue.surjective ne_xsk_queue.update_convs(4))
    then show ?thesis
      using n [THEN conjunct2, rule_format, OF that] prefill_iface_refilled [OF _ c] by (auto split: if_splits) (metis prod.collapse)
  qed
qed

section \<open>The opened pair\<close>

definition queues_before :: "ne_iface list \<Rightarrow> nat \<Rightarrow> nat" where
  "queues_before fs i = sum_list (map queue_count (take i fs))"

definition iface_open :: "host \<Rightarrow> string \<Rightarrow> ne_iface \<Rightarrow> bool" where
  "iface_open h ifn f \<longleftrightarrow> queue_count f = resolve_iface_queue_count h ifn \<and> (\<forall>q<queue_count f. xsk (queues f ! q) \<noteq> None) \<and>
     ifindex f = h_ifindex h ifn \<and> ifname f = copy_ifname ifn \<and> xdp_sg_enabled f"

definition ready :: "host \<Rightarrow> app_config \<Rightarrow> ledger \<Rightarrow> ne_setup \<Rightarrow> bool" where
  "ready h cfg l0 s \<longleftrightarrow> booked l0 s \<and> umem s \<and> area s \<and> bpf_held s = {#} \<and> n_frames (io s) = 524288 \<and>
     frame_size (io_mem (io s)) = 4096 \<and> length (bufs (io_mem (io s))) = 2147483648 \<and>
     (\<forall>sd. iface_count sd (io s) = min (cfg_count sd cfg) MAX_INTERFACES \<and>
        total_of sd (io s) = queues_before (ifaces sd (io s)) (iface_count sd (io s)) \<and>
        (\<forall>i<iface_count sd (io s). iface_open h (cfg_names sd cfg ! i) (iface_at sd i s)))"

lemma iface_stage_open: "counted f \<Longrightarrow> refilled f f' \<Longrightarrow> iface_stage h ifn True True f \<Longrightarrow> iface_open h ifn f'"
  using created_open refilled_same [of f f'] by (fastforce simp: iface_stage_def iface_open_def counted_def)

text \<open>The loops of the prefill, with the pool in between.\<close>

lemma prefill_stepE:
  assumes "prefill_step s = (ok, s')"
  obtains ls pl1 ws pl2 want where "ok" "want = prefill_per_queue (n_frames (io s)) (local_queue_total (io s) + wan_queue_total (io s))"
    "fold (list_step (\<lambda>_. True) (prefill_iface want)) [0..<local_count (io s)] (locals (io s), pool (io_mem (io s))) = (ls, pl1)"
    "fold (list_step (\<lambda>_. True) (prefill_iface want)) [0..<wan_count (io s)] (wans (io s), pl1) = (ws, pl2)"
    "s' = s\<lparr>io := (io s)\<lparr>locals := ls, wans := ws, io_mem := (io_mem (io s))\<lparr>pool := pl2\<rparr>,
       local_live := fold (\<lambda>i fl. fl[i := True]) [0..<local_count (io s)] (local_live (io s)),
       wan_live := fold (\<lambda>i fl. fl[i := True]) [0..<wan_count (io s)] (wan_live (io s))\<rparr>\<rparr>"
proof -
  define want where "want = prefill_per_queue (n_frames (io s)) (local_queue_total (io s) + wan_queue_total (io s))"
  obtain ls pl1 where l: "fold (list_step (\<lambda>_. True) (prefill_iface want)) [0..<local_count (io s)] (locals (io s), pool (io_mem (io s))) = (ls, pl1)"
    by force
  obtain ws pl2 where w: "fold (list_step (\<lambda>_. True) (prefill_iface want)) [0..<wan_count (io s)] (wans (io s), pl1) = (ws, pl2)" by force
  show ?thesis
    by (rule that [OF _ want_def l w]) (use assms l w in \<open>simp_all add: prefill_step_def on_locals_def on_wans_def Let_def flip: want_def\<close>)
qed

text \<open>Interfaces beyond the configured ones have no queues.\<close>

lemma stage_total:
  assumes "stage h cfg l0 2 (min (cfg_local_count cfg) MAX_INTERFACES, min (cfg_wan_count cfg) MAX_INTERFACES) True ol ow s"
  shows "total_of sd (io s) = queues_before (ifaces sd (io s)) (iface_count sd (io s))"
proof -
  note st = stageD [OF assms]
  let ?n = "iface_count sd (io s)" and ?fs = "ifaces sd (io s)"
  have sz: "length ?fs = MAX_INTERFACES" "?n \<le> length ?fs" using st(1) by (simp_all add: booked_def sized_def)
  have "queue_count f = 0" if "f \<in> set (drop ?n ?fs)" for f
  proof -
    from that obtain k where k: "k < length (drop ?n ?fs)" "f = drop ?n ?fs ! k" by (auto simp: in_set_conv_nth)
    then have "?n + k < MAX_INTERFACES" "f = ?fs ! (?n + k)" using sz by auto
    then show ?thesis using st(7) [of "?n + k" sd] st(5) [of sd] by (cases sd) (simp_all add: iface_stage_def iface_at_def)
  qed
  then have "sum_list (map queue_count (drop ?n ?fs)) = 0" by simp
  moreover have "sum_list (map queue_count ?fs) = queues_before ?fs ?n + sum_list (map queue_count (drop ?n ?fs))"
    unfolding queues_before_def by (metis append_take_drop_id map_append sum_list_append)
  ultimately show ?thesis using st(6) [of sd] by simp
qed

lemma prefill_ok:
  assumes "stage h cfg l0 2 (min (cfg_local_count cfg) MAX_INTERFACES, min (cfg_wan_count cfg) MAX_INTERFACES) True
      (min (cfg_local_count cfg) MAX_INTERFACES) (min (cfg_wan_count cfg) MAX_INTERFACES) s" "prefill_step s = (ok, s')"
  shows "if ok then ready h cfg l0 s' else refused h cfg l0 s'"
proof -
  note st = stageD [OF assms(1)]
  obtain ls pl1 ws pl2 want where p: "ok"
    "fold (list_step (\<lambda>_. True) (prefill_iface want)) [0..<local_count (io s)] (locals (io s), pool (io_mem (io s))) = (ls, pl1)"
    "fold (list_step (\<lambda>_. True) (prefill_iface want)) [0..<wan_count (io s)] (wans (io s), pl1) = (ws, pl2)"
    "s' = s\<lparr>io := (io s)\<lparr>locals := ls, wans := ws, io_mem := (io_mem (io s))\<lparr>pool := pl2\<rparr>,
       local_live := fold (\<lambda>i fl. fl[i := True]) [0..<local_count (io s)] (local_live (io s)),
       wan_live := fold (\<lambda>i fl. fl[i := True]) [0..<wan_count (io s)] (wan_live (io s))\<rparr>\<rparr>"
    by (rule prefill_stepE [OF assms(2)])
  have sz: "length (ifaces sd (io s)) = MAX_INTERFACES" "iface_count sd (io s) \<le> length (ifaces sd (io s))"
    "\<forall>f\<in>set (ifaces sd (io s)). counted f" for sd using st(1) by (simp_all add: booked_def sized_def)
  note rl = prefill_side_refilled [OF p(2)] and rw = prefill_side_refilled [OF p(3)]
  have r: "length (ifaces sd (io s')) = MAX_INTERFACES \<and> (\<forall>i<MAX_INTERFACES. refilled (iface_at sd i s) (iface_at sd i s'))" for sd
    using rl rw sz [of sd] by (cases sd) (simp_all add: p(4) iface_at_def)
  have sides: "iface_count sd (io s') = iface_count sd (io s)" "bpf_objs sd s' = bpf_objs sd s" "total_of sd (io s') = total_of sd (io s)" for sd
    by (cases sd; simp add: p(4))+
  have keep: "umem s' = umem s" "area s' = area s" "led s' = led s" "n_frames (io s') = n_frames (io s)"
    "frame_size (io_mem (io s')) = frame_size (io_mem (io s))" "bufs (io_mem (io s')) = bufs (io_mem (io s))" by (simp_all add: p(4))
  have map_eq: "map g (ifaces sd (io s')) = map g (ifaces sd (io s))" if "\<And>f f'. refilled f f' \<Longrightarrow> g f' = g f" for g :: "ne_iface \<Rightarrow> 'a" and sd
    using r [of sd] sz(1) [of sd] that by (intro nth_equalityI) (auto simp: iface_at_def)
  have sk: "socks s' = socks s" "bpf_held s' = bpf_held s"
    using map_eq [of iface_socks] refilled_same(7) by (auto simp: socks_alt bpf_held_alt sides simp del: ifaces.simps bpf_objs.simps)
  have "counted f" if "f \<in> set (ifaces sd (io s'))" for f sd
  proof -
    from that obtain i where "i < MAX_INTERFACES" "f = iface_at sd i s'" using r [of sd] by (auto simp: in_set_conv_nth iface_at_def)
    then show ?thesis using r [of sd] refilled_same(8) sized_counted [of s i sd] st(1) by (auto simp: booked_def)
  qed
  then have b: "booked l0 s'" using st(1) r by (simp add: booked_def sized_def sides sk keep)
  have "iface_open h (cfg_names sd cfg ! i) (iface_at sd i s')" if "i < iface_count sd (io s')" for sd i
  proof -
    have i: "i < MAX_INTERFACES" "i < min (cfg_count sd cfg) MAX_INTERFACES" using that st(5) [of sd] by (auto simp: sides)
    then have "iface_stage h (cfg_names sd cfg ! i) True True (iface_at sd i s)" using st(7) [OF i(1), of sd] by (cases sd) auto
    then show ?thesis using iface_stage_open sized_counted [of s i sd] r i(1) st(1) by (auto simp: booked_def)
  qed
  moreover have "total_of sd (io s') = queues_before (ifaces sd (io s')) (iface_count sd (io s'))" for sd
    using stage_total [OF assms(1), of sd] map_eq [of queue_count sd] refilled_same(1)
    unfolding queues_before_def take_map [symmetric] by (simp add: sides del: take_map)
  ultimately show ?thesis
    using b st(2-5) p(1) by (simp add: ready_def keep sk sides mem_stage_def)
qed

section \<open>Where the frames are\<close>

definition frames_from :: "nat \<Rightarrow> nat \<Rightarrow> u64 list" where
  "frames_from a n = map (\<lambda>k. of_nat k * 4096) [a..<a + n]"

definition rings_fresh :: "host \<Rightarrow> bool" where
  \<comment> \<open>libxdp returns empty fill rings of the configured size\<close>
  "rings_fresh h \<longleftrightarrow> (\<forall>n ifn q r x. h_xsk h n ifn q r = Some x \<longrightarrow>
     prod_inv (new_fq x) \<and> xsk_list (new_fq x) = [] \<and> xr_size (new_fq x) = NE_RING)"

definition side_filled :: "nat \<Rightarrow> nat \<Rightarrow> nat \<Rightarrow> ne_iface list \<Rightarrow> bool" where
  "side_filled want off n fs \<longleftrightarrow> (\<forall>i<n. \<forall>q<queue_count (fs ! i). prod_inv (q_fq (queues (fs ! i) ! q)) \<and>
     xsk_list (q_fq (queues (fs ! i) ! q)) = frames_from ((off + queues_before fs i + q) * want) want)"

definition filled :: "ne_pair_io \<Rightarrow> bool" where
  "filled p \<longleftrightarrow> (let total = local_queue_total p + wan_queue_total p; want = prefill_per_queue 524288 total in
     side_filled want 0 (local_count p) (locals p) \<and> side_filled want (local_queue_total p) (wan_count p) (wans p) \<and>
     pool_inv (pool (io_mem p)) \<and> pl_cap (pool (io_mem p)) = 524288 \<and> total * want \<le> 393216 \<and>
     pool_list (pool (io_mem p)) = frames_from (total * want) (524288 - total * want))"

lemma frames_from_slice: "a + n \<le> 524288 \<Longrightarrow> take n (drop a frames_all) = frames_from a n"
  by (simp add: frames_all_def frames_from_def take_map drop_map del: upt_rec_numeral)

lemma frames_from_rest: "a \<le> 524288 \<Longrightarrow> drop a frames_all = frames_from a (524288 - a)"
  by (simp add: frames_all_def frames_from_def drop_map del: upt_rec_numeral)

lemma prefill_per_queue_bounds:
  assumes "T \<le> 2048"
  shows "T * prefill_per_queue 524288 T \<le> 393216" "prefill_per_queue 524288 T \<le> 16384"
proof -
  have e: "prefill_per_queue 524288 T = min 16384 (393216 div T)" if "0 < T"
  proof -
    have "393216 div 2048 \<le> 393216 div T" by (rule div_le_mono2) (use assms that in simp_all)
    then show ?thesis using that by (simp add: prefill_per_queue_def Let_def NE_BATCH_SIZE_def NE_FQ_PREFILL_def min_def)
  qed
  have "T * min 16384 (393216 div T) \<le> T * (393216 div T)" by (rule mult_le_mono2) simp
  also have "\<dots> \<le> 393216" by (rule times_div_less_eq_dividend)
  finally show "T * prefill_per_queue 524288 T \<le> 393216" using e by (cases T) simp_all
  show "prefill_per_queue 524288 T \<le> 16384" using e by (cases T) (simp_all add: prefill_per_queue_def NE_BATCH_SIZE_def)
qed

lemma iface_before: "iface_taker.before want fs i = queues_before fs i * want"
proof -
  have "sum_list (map (\<lambda>f. queue_count f * want) xs) = sum_list (map queue_count xs) * want" for xs
    by (induction xs) (auto simp: distrib_right)
  then show ?thesis by (simp add: iface_taker.before_def queues_before_def)
qed

lemma queues_before_mono: "i < length fs \<Longrightarrow> i < n \<Longrightarrow> queues_before fs i + queue_count (fs ! i) \<le> queues_before fs n"
proof -
  assume "i < length fs" "i < n"
  then have "take n fs = take i fs @ fs ! i # take (n - Suc i) (drop (Suc i) fs)"
    by (metis Cons_nth_drop_Suc add_diff_inverse_nat less_imp_le_nat not_less take_Suc_Cons take_add Suc_diff_Suc)
  then show ?thesis by (simp add: queues_before_def)
qed

text \<open>One side, with \<open>off\<close> queues filled before.\<close>

lemma side_fills:
  assumes "fold (list_step (\<lambda>_. True) (prefill_iface want)) [0..<n] (fs, pl) = (fs', pl')" "n \<le> length fs"
    "\<forall>i<n. fresh_iface want (fs ! i)" "pool_inv pl" "pool_list pl = drop (off * want) frames_all"
    "(off + queues_before fs n) * want \<le> 524288"
  shows "side_filled want off n fs' \<and> pool_list pl' = drop ((off + queues_before fs n) * want) frames_all \<and> pool_inv pl' \<and>
    pl_cap pl' = pl_cap pl \<and> map queue_count fs' = map queue_count fs"
proof -
  have fa: "length frames_all = 524288" by (simp add: frames_all_def del: upt_rec_numeral)
  have le: "iface_taker.before want fs n \<le> length (pool_list pl)" using assms(5,6) fa by (simp add: iface_before distrib_right)
  note l = iface_taker.loop_slices [OF assms(2,3,4) le assms(1), unfolded iface_before]
  have qc: "queue_count (fs' ! i) = queue_count (fs ! i)" if "i < length fs" for i
  proof (cases "i < n")
    case True
    then have "fs' ! i = (fs ! i)\<lparr>queues := queues (fs' ! i)\<rparr>" using l unfolding filled_iface_def by blast
    then show ?thesis by (metis ne_iface.select_convs(3) ne_iface.surjective ne_iface.update_convs(4))
  qed (use l in simp)
  have mq: "map queue_count fs' = map queue_count fs" using l qc by (intro nth_equalityI) simp_all
  then have qb: "queues_before fs' i = queues_before fs i" for i by (simp add: queues_before_def flip: take_map)
  have "prod_inv (q_fq (queues (fs' ! i) ! q)) \<and> xsk_list (q_fq (queues (fs' ! i) ! q)) = frames_from ((off + queues_before fs i + q) * want) want"
    if i: "i < n" "q < queue_count (fs ! i)" for i q
  proof -
    let ?as = "take (queue_count (fs ! i) * want) (drop (queues_before fs i * want) (pool_list pl))"
    have "filled_iface want (fs ! i) ?as (fs' ! i)" using l i(1) by blast
    then have f: "filled_queue (queues (fs ! i) ! q) (take want (drop (q * want) ?as)) (queues (fs' ! i) ! q)"
      using i(2) by (simp add: filled_iface_def)
    have "Suc (off + queues_before fs i + q) \<le> off + queues_before fs n"
      using queues_before_mono [of i fs n] i assms(2) by simp
    from mult_le_mono1 [OF this, of want] have b: "Suc (off + queues_before fs i + q) * want \<le> 524288" using assms(6) by (rule le_trans)
    have "Suc q * want \<le> queue_count (fs ! i) * want" using i(2) by (intro mult_le_mono1) simp
    then have "take want (drop (q * want) ?as) = take want (drop ((off + queues_before fs i + q) * want) frames_all)"
      by (simp add: assms(5) drop_take min_def distrib_right add_ac)
    also have "\<dots> = frames_from ((off + queues_before fs i + q) * want) want"
      using b by (intro frames_from_slice) (simp add: distrib_right)
    finally show ?thesis using f by (simp add: filled_queue_def)
  qed
  then show ?thesis
    using l mq assms(2,5) qc unfolding side_filled_def qb by (simp add: distrib_right add.commute)
qed

lemma created_fresh: "rings_fresh h \<Longrightarrow> created h ifn q slot \<Longrightarrow> want \<le> 16384 \<Longrightarrow> fresh_queue want slot"
  by (auto simp: rings_fresh_def created_def fresh_queue_def NE_RING_def)

lemma counts_bound: "\<forall>f\<in>set fs. queue_count f \<le> m \<Longrightarrow> sum_list (map queue_count fs) \<le> length fs * m"
  by (induction fs) auto

lemma prefill_fills:
  assumes "stage h cfg l0 2 (min (cfg_local_count cfg) MAX_INTERFACES, min (cfg_wan_count cfg) MAX_INTERFACES) True
      (min (cfg_local_count cfg) MAX_INTERFACES) (min (cfg_wan_count cfg) MAX_INTERFACES) s"
    "rings_fresh h" "prefill_step s = (ok, s')"
  shows "filled (io s')"
proof -
  note st = stageD [OF assms(1)]
  obtain ls pl1 ws pl2 want where p: "want = prefill_per_queue (n_frames (io s)) (local_queue_total (io s) + wan_queue_total (io s))"
    "fold (list_step (\<lambda>_. True) (prefill_iface want)) [0..<local_count (io s)] (locals (io s), pool (io_mem (io s))) = (ls, pl1)"
    "fold (list_step (\<lambda>_. True) (prefill_iface want)) [0..<wan_count (io s)] (wans (io s), pl1) = (ws, pl2)"
    "s' = s\<lparr>io := (io s)\<lparr>locals := ls, wans := ws, io_mem := (io_mem (io s))\<lparr>pool := pl2\<rparr>,
       local_live := fold (\<lambda>i fl. fl[i := True]) [0..<local_count (io s)] (local_live (io s)),
       wan_live := fold (\<lambda>i fl. fl[i := True]) [0..<wan_count (io s)] (wan_live (io s))\<rparr>\<rparr>"
    by (rule prefill_stepE [OF assms(3)])
  let ?n = "\<lambda>sd. iface_count sd (io s)" and ?fs = "\<lambda>sd. ifaces sd (io s)"
  have sz: "length (?fs sd) = MAX_INTERFACES" "?n sd \<le> length (?fs sd)" "\<forall>f\<in>set (?fs sd). counted f" for sd
    using st(1) by (simp_all add: booked_def sized_def)
  have at: "iface_stage h (cfg_names sd cfg ! i) (i < ?n sd) (i < ?n sd) (?fs sd ! i)" if "i < MAX_INTERFACES" for sd i
    using st(5) [of sd] st(7) [OF that, of sd] by (cases sd) (auto simp: iface_at_def)
  note tot = stage_total [OF assms(1)]
  have b64: "sum_list (map queue_count (?fs sd)) \<le> 1024" for sd
    using counts_bound [of "?fs sd" 64] sz(1,3) [of sd] by (simp add: counted_def MAX_INTERFACES_def MAX_QUEUES_def)
  define T where "T = local_queue_total (io s) + wan_queue_total (io s)"
  have "T \<le> 2048" using b64 [of Lan] b64 [of Wan] st(6) [of Lan] st(6) [of Wan] by (simp add: T_def)
  note bounds = prefill_per_queue_bounds [OF this]
  have w: "want = prefill_per_queue 524288 T" using p(1) st(2) by (simp add: T_def mem_stage_def)
  have "fresh_iface want (?fs sd ! i)" if "i < ?n sd" for sd i
  proof -
    have i: "i < length (?fs sd)" "i < MAX_INTERFACES" using that sz(1) [of sd] sz(2) [of sd] by simp_all
    then have c: "counted (?fs sd ! i)" using sz(3) [of sd] by simp
    have "created h (cfg_names sd cfg ! i) q (queues (?fs sd ! i) ! q)" if "q < queue_count (?fs sd ! i)" for q
      using at [OF i(2), of sd] that \<open>i < ?n sd\<close> by (simp add: iface_stage_def)
    then have "\<forall>q<queue_count (?fs sd ! i). fresh_queue want (queues (?fs sd ! i) ! q)"
      using created_fresh [OF assms(2)] bounds(2) unfolding w by blast
    then show ?thesis using c by (simp add: fresh_iface_def counted_def)
  qed
  then have fresh: "\<forall>i<?n sd. fresh_iface want (?fs sd ! i)" for sd by blast
  have pl0: "pool_inv (pool (io_mem (io s)))" "pool_list (pool (io_mem (io s))) = drop (0 * want) frames_all" "pl_cap (pool (io_mem (io s))) = 524288"
    using st(2) by (simp_all add: mem_stage_def)
  have Tb: "(0 + queues_before (locals (io s)) (local_count (io s))) * want \<le> 524288"
    "(local_queue_total (io s) + queues_before (wans (io s)) (wan_count (io s))) * want \<le> 524288" "T * want \<le> 393216"
    using bounds(1) tot [of Lan] tot [of Wan] by (auto simp: w T_def distrib_right)
  note L = side_fills [OF p(2) _ _ pl0(1,2) Tb(1)]
  have L: "side_filled want 0 (local_count (io s)) ls" "pool_list pl1 = drop (local_queue_total (io s) * want) frames_all" "pool_inv pl1"
    "pl_cap pl1 = 524288" "map queue_count ls = map queue_count (locals (io s))"
    using L sz(2) [of Lan] fresh [of Lan] tot [of Lan] pl0(3) by simp_all
  note W = side_fills [OF p(3) _ _ L(3,2) Tb(2)]
  have W: "side_filled want (local_queue_total (io s)) (wan_count (io s)) ws" "pool_list pl2 = drop (T * want) frames_all" "pool_inv pl2"
    "pl_cap pl2 = 524288" "map queue_count ws = map queue_count (wans (io s))"
    using W sz(2) [of Wan] fresh [of Wan] tot [of Wan] L(4) by (simp_all add: T_def)
  have "drop (T * want) frames_all = frames_from (T * want) (524288 - T * want)" using Tb(3) by (intro frames_from_rest) simp
  then show ?thesis using L(1) W(1-4) Tb(3) by (simp add: filled_def Let_def p(4) flip: T_def w)
qed

definition opened :: "host \<Rightarrow> app_config \<Rightarrow> ledger \<Rightarrow> ne_setup \<Rightarrow> bool" where
  "opened h cfg l0 s \<longleftrightarrow> ready h cfg l0 s \<and> (rings_fresh h \<longrightarrow> filled (io s))"

lemma open_start_stage: "stage h cfg l0 0 (0, 0) False 0 0 (open_start cfg l0)"
proof -
  have i: "ifaces sd (io (open_start cfg l0)) = replicate MAX_INTERFACES zero_iface" "total_of sd (io (open_start cfg l0)) = 0"
    "iface_count sd (io (open_start cfg l0)) = min (cfg_count sd cfg) MAX_INTERFACES" "bpf_objs sd (open_start cfg l0) = replicate MAX_INTERFACES None" for sd
    by (cases sd; simp add: open_start_def zero_setup_def zero_pair_io_def Let_def min_def)+
  have "all_closed zero_iface" "queue_count zero_iface = 0" by (simp_all add: all_closed_def zero_iface_def zero_queue_def)
  then have "iface_stage h ifn False False zero_iface" for ifn by (simp add: iface_stage_def)
  moreover have "bpf_held (open_start cfg l0) = {#}"
    unfolding bpf_held_alt by (simp add: i sum_list_mset_empty option_mset_def del: bpf_objs.simps map_replicate)
  moreover have "sum_list (map queue_count (replicate n zero_iface)) = 0" for n using \<open>queue_count zero_iface = 0\<close> by (induction n) auto
  moreover have "mem_stage 0 (open_start cfg l0)" "\<not> umem (open_start cfg l0)"
    by (simp_all add: mem_stage_def open_start_def zero_setup_def zero_pair_io_def Let_def NE_FRAME_def)
  ultimately show ?thesis
    using open_start_booked by (intro stageI) (simp_all add: i iface_at_def del: map_replicate)
qed

lemma open_steps_ok:
  assumes "nl = min (cfg_local_count cfg) MAX_INTERFACES" "nw = min (cfg_wan_count cfg) MAX_INTERFACES"
  shows "steps_ok (stage h cfg l0 0 (0, 0) False 0 0) (open_steps h cfg nl nw) (opened h cfg l0) (refused h cfg l0)"
proof -
  have lt: "i < nl \<Longrightarrow> i < min (cfg_count Lan cfg) MAX_INTERFACES" "i < nw \<Longrightarrow> i < min (cfg_count Wan cfg) MAX_INTERFACES" for i
    by (simp_all add: assms)
  let ?J = "refused h cfg l0" and ?S = "\<lambda>m. stage h cfg l0 m (nl, nw)"
  have pre: "steps_ok (stage h cfg l0 0 (0, 0) False 0 0) (each (preflight_step h cfg) nl nw) (?S 0 False 0 0) ?J"
  proof (rule steps_ok_each [of nl "\<lambda>i j. stage h cfg l0 0 (i, j) False 0 0"], goal_cases)
    case (1 i s ok s')
    then show ?case using preflight_ok [of h cfg l0 "(i, 0)" s i Lan ok s'] lt(1) by (simp split: if_splits)
  next
    case (2 i s ok s')
    then show ?case using preflight_ok [of h cfg l0 "(nl, i)" s i Wan ok s'] lt(2) by (simp split: if_splits)
  qed
  have "steps_ok (?S 0 False 0 0) [mmap_step h] (?S 1 False 0 0) ?J" by (rule steps_ok_step) (rule mmap_ok)
  moreover have "steps_ok (?S 1 False 0 0) [pool_step h] (?S 2 False 0 0) ?J" by (rule steps_ok_step) (rule pool_ok)
  ultimately have mem: "steps_ok (?S 0 False 0 0) [mmap_step h, pool_step h] (?S 2 False 0 0) ?J"
    using steps_ok_append [of _ "[mmap_step h]" _ _ "[pool_step h]"] by simp
  have prom: "steps_ok (?S 2 False 0 0) (each (promisc_step h cfg) nl nw) (?S 2 False 0 0) ?J"
    by (rule steps_ok_each [of nl "\<lambda>_ _. ?S 2 False 0 0"]) (rule promisc_ok, assumption, rule lt, assumption+)+
  have scrub: "steps_ok (?S 2 False 0 0) (each (scrub_step h cfg) nl nw) (?S 2 False 0 0) ?J"
    by (rule steps_ok_each [of nl "\<lambda>_ _. ?S 2 False 0 0"]) (rule scrub_ok, assumption+)+
  have um: "steps_ok (?S 2 False 0 0) [umem_step h] (?S 2 True 0 0) ?J" by (rule steps_ok_step) (rule umem_ok)
  have so: "steps_ok (?S 2 True 0 0) (each (sockets_step h cfg) nl nw) (?S 2 True nl nw) ?J"
  proof (rule steps_ok_each [of nl "\<lambda>i j. ?S 2 True i j"], goal_cases)
    case (1 i s ok s')
    then show ?case using sockets_ok [of h cfg l0 "(nl, nw)" i 0 s i Lan ok s'] lt(1) by (simp split: if_splits)
  next
    case (2 i s ok s')
    then show ?case using sockets_ok [of h cfg l0 "(nl, nw)" nl i s i Wan ok s'] lt(2) by (simp split: if_splits)
  qed
  have fill: "steps_ok (?S 2 True nl nw) [prefill_step] (opened h cfg l0) ?J"
    unfolding assms by (rule steps_ok_step) (use prefill_ok prefill_fills in \<open>fastforce simp: opened_def split: if_splits\<close>)
  show ?thesis
    unfolding open_steps_def
    by (rule steps_ok_append [OF pre steps_ok_append [OF mem steps_ok_append [OF prom steps_ok_append [OF scrub steps_ok_append [OF um
          steps_ok_append [OF so fill]]]]]])
qed

section \<open>Theorems\<close>

lemma ne_pair_open_spec:
  assumes "ne_pair_open h cfg s0 = (ok, s)"
  shows "if ok then opened h cfg (led s0) s else released (led s0) (led s) \<and> (cfg_local_count cfg = 0 \<or> \<not> host_grants h cfg)"
proof (cases "cfg_local_count cfg = 0")
  case True
  then show ?thesis using assms by (auto simp: ne_pair_open_def released_def)
next
  case False
  let ?s = "open_start cfg (led s0)"
  obtain ok1 s1 where r: "run_steps (open_steps h cfg (local_count (io ?s)) (wan_count (io ?s))) ?s = (ok1, s1)" by force
  have n: "local_count (io ?s) = min (cfg_local_count cfg) MAX_INTERFACES" "wan_count (io ?s) = min (cfg_wan_count cfg) MAX_INTERFACES"
    by (simp_all add: open_start_def zero_setup_def Let_def min_def)
  have o: "if ok1 then opened h cfg (led s0) s1 else refused h cfg (led s0) s1"
    using open_steps_ok [OF n, of h "led s0"] open_start_stage [of h cfg "led s0"] r unfolding steps_ok_def by blast
  have "released (led s0) (led (ne_pair_close h (Some cfg) (set_led (xdp_attach_detach_config h cfg) s1)))" if "refused h cfg (led s0) s1"
    using that booked_holdings [of _ "led s1" "led s0" s1] by (intro close_releases) (simp add: refused_def set_led_def)
  then show ?thesis using assms False r o by (auto simp: ne_pair_open_def Let_def refused_def split: bool.splits if_splits)
qed

definition all_sockets :: "nat \<Rightarrow> ne_iface list \<Rightarrow> bool" where
  "all_sockets n fs \<longleftrightarrow> list_all (\<lambda>f. 0 < queue_count f \<and> list_all (\<lambda>slot. xsk slot \<noteq> None) (take (queue_count f) (queues f))) (take n fs)"

lemma ready_sockets:
  assumes "ready h cfg l0 s"
  shows "all_sockets (iface_count sd (io s)) (ifaces sd (io s))"
  unfolding all_sockets_def list_all_length
proof (intro allI impI)
  fix i assume i: "i < length (take (iface_count sd (io s)) (ifaces sd (io s)))"
  have "iface_open h (cfg_names sd cfg ! i) (ifaces sd (io s) ! i)" using assms i by (simp add: ready_def iface_at_def)
  then show "0 < queue_count (take (iface_count sd (io s)) (ifaces sd (io s)) ! i) \<and>
      (\<forall>n<length (take (queue_count (take (iface_count sd (io s)) (ifaces sd (io s)) ! i)) (queues (take (iface_count sd (io s)) (ifaces sd (io s)) ! i))).
        xsk (take (queue_count (take (iface_count sd (io s)) (ifaces sd (io s)) ! i)) (queues (take (iface_count sd (io s)) (ifaces sd (io s)) ! i)) ! n) \<noteq> None)"
    using i resolve_bounds(1) [of h "cfg_names sd cfg ! i"] by (simp add: iface_open_def)
qed

text \<open>C9: Opening the interfaces is all or nothing, whatever the host answers and at whichever stage it refuses. On success the process holds
  exactly the sockets stored in the queues, one for every queue of every configured interface, one UMEM and one
  mapping; on failure (after rollback, retry and \<^verbatim>\<open>ne_pair_close\<close>) it holds the sockets, UMEMs, mappings and BPF objects it
  held before.\<close>
theorem ne_pair_open_all_or_nothing:
  "case ne_pair_open h cfg s0 of
     (True, s) \<Rightarrow> open_xsks (led s) = open_xsks (led s0) + socks s \<and> all_sockets (local_count (io s)) (locals (io s)) \<and>
        all_sockets (wan_count (io s)) (wans (io s)) \<and> open_umems (led s) = open_umems (led s0) + 1 \<and>
        mapped (led s) = mapped (led s0) + 1 \<and> open_bpf (led s) = open_bpf (led s0)
   | (False, s) \<Rightarrow> released (led s0) (led s)"
proof -
  obtain ok s where r: "ne_pair_open h cfg s0 = (ok, s)" by force
  show ?thesis
  proof (cases ok)
    case True
    then have rd: "ready h cfg (led s0) s" using ne_pair_open_spec [OF r] by (simp add: opened_def)
    have "all_sockets (local_count (io s)) (locals (io s))" "all_sockets (wan_count (io s)) (wans (io s))"
      using ready_sockets [OF rd, of Lan] ready_sockets [OF rd, of Wan] by simp_all
    moreover have "booked (led s0) s" "umem s" "area s" "bpf_held s = {#}" using rd by (simp_all add: ready_def)
    ultimately show ?thesis using r True by (simp add: booked_def)
  qed (use ne_pair_open_spec [OF r] r in simp)
qed

text \<open>C15: Opening fails only when the host refuses something: with one LAN interface at least, interfaces that exist and are up, and
  every allocation, command and socket granted, \<^verbatim>\<open>ne_pair_open\<close> succeeds.\<close>
theorem ne_pair_open_complete:
  assumes "host_grants h cfg" "0 < cfg_local_count cfg"
  shows "fst (ne_pair_open h cfg s0)"
  using ne_pair_open_spec [of h cfg s0] assms by (cases "ne_pair_open h cfg s0") (auto split: if_splits)

text \<open>C14: Opening hands out each frame once and keeps a quarter of them: the queues, LAN first and in order, get consecutive runs of
  the same length \<open>want\<close>, the pool keeps all frames after the last run, and the runs together are at most three
  quarters of the 524288 frames.\<close>
theorem open_distributes_frames:
  assumes "ne_pair_open h cfg s0 = (True, s)" "rings_fresh h"
    and "T = local_queue_total (io s) + wan_queue_total (io s)" "want = prefill_per_queue 524288 T"
  shows "side_filled want 0 (local_count (io s)) (locals (io s)) \<and>
    side_filled want (local_queue_total (io s)) (wan_count (io s)) (wans (io s)) \<and>
    pool_list (pool (io_mem (io s))) = frames_from (T * want) (524288 - T * want) \<and> T * want \<le> 393216 \<and>
    pool_inv (pool (io_mem (io s)))"
  using ne_pair_open_spec [OF assms(1)] assms(2-4) by (simp add: opened_def filled_def Let_def)

section \<open>A concrete host\<close>

definition fresh_ring :: "'a \<Rightarrow> 'a xsk_ring" where
  "fresh_ring x = \<lparr>cached_prod = 0, cached_cons = NE_RING, xr_mask = NE_RING - 1, xr_size = NE_RING, producer = 0, consumer = 0,
     xr_ring = replicate (unat NE_RING) x, need_wakeup = False\<rparr>"

definition demo_xsk :: "int \<Rightarrow> xsk_new" where
  "demo_xsk fd = \<lparr>new_fd = fd, new_rx = fresh_ring \<lparr>d_addr = 0, d_len = 0, d_options = 0\<rparr>,
     new_tx = fresh_ring \<lparr>d_addr = 0, d_len = 0, d_options = 0\<rparr>, new_fq = fresh_ring 0, new_cq = fresh_ring 0\<rparr>"

text \<open>Two interfaces with four receive queues each; every request is granted.\<close>

definition demo_host :: host where
  "demo_host = \<lparr>h_rx_queues = (\<lambda>_. Some 4), h_ifindex = (\<lambda>n. if n = ''enp1s0f0'' then 2 else if n = ''enp2s0f0'' then 3 else 0),
     h_flags_up = (\<lambda>_. True), h_promisc = (\<lambda>_. True), h_ethtool = (\<lambda>_. True), h_xdp_off = (\<lambda>_. True),
     h_mmap = True, h_pool_calloc = True, h_pool_lock = True, h_umem = Some (fresh_ring 0, fresh_ring 0), h_umem_fd = 10,
     h_xsk = (\<lambda>n _ _ _. Some (demo_xsk (10 + int n))), h_readable = (\<lambda>_. True), h_self_exe = None, h_bpf_open = (\<lambda>_. True),
     h_bpf_prog = (\<lambda>_ _. True), h_bpf_map = (\<lambda>_ _. True), h_bpf_flags = (\<lambda>_. True), h_bpf_load = (\<lambda>_. True), h_bpf_attach = (\<lambda>_. True),
     h_update_xskmap = (\<lambda>_. True), h_update_elem = (\<lambda>_. True)\<rparr>"

definition demo_cfg :: app_config where
  "demo_cfg = \<lparr>cfg_locals = [''enp1s0f0''], cfg_local_count = 1, cfg_wans = [''enp2s0f0''], cfg_wan_count = 1,
     cfg_bpf_file = ''./lib/lan.o'', cfg_bpf_wan_file = ''./lib/wan.o'', cfg_fake_ethertype_ipv4 = 0x104A, cfg_key = core_key\<rparr>"

definition empty_ledger :: ledger where
  "empty_ledger = \<lparr>open_xsks = {#}, umem_refs = 0, open_umems = 0, mapped = 0, open_bpf = {#}, bpf_opened = 0, attached = (\<lambda>_. False),
     xskmap = (\<lambda>_ _. None), wan_config = (\<lambda>_. None), xsk_calls = 0\<rparr>"

lemma demo_rings_fresh: "rings_fresh demo_host"
proof -
  have "pow2_cap NE_RING" by (simp add: pow2_cap_def NE_RING_def)
  then have "prod_inv (fresh_ring 0 :: u64 xsk_ring)" "xsk_list (fresh_ring 0 :: u64 xsk_ring) = []"
    by (simp_all add: prod_inv_def ring_shape_def fresh_ring_def xsk_list_def slots_def)
  moreover have "xr_size (fresh_ring x) = NE_RING" for x :: u64 by (simp add: fresh_ring_def)
  ultimately show ?thesis by (auto simp: rings_fresh_def demo_host_def demo_xsk_def)
qed

lemma demo_safe: "ifname_is_safe ''enp1s0f0''" "ifname_is_safe ''enp2s0f0''"
  by (simp_all add: ifname_is_safe_def isalnum_def less_eq_char_def)

lemma demo_grants: "host_grants demo_host demo_cfg"
proof -
  have "interface_preflight demo_host (cfg_names sd demo_cfg ! 0) \<and> interface_set_promisc demo_host (cfg_names sd demo_cfg ! 0)" for sd
    using demo_safe by (cases sd) (simp_all add: interface_preflight_def interface_is_up_def interface_set_promisc_def demo_host_def demo_cfg_def)
  moreover have "cfg_count sd demo_cfg = 1" for sd by (cases sd) (simp_all add: demo_cfg_def)
  ultimately show ?thesis by (simp add: host_grants_def demo_host_def MAX_INTERFACES_def)
qed

theorem ne_pair_open_complete_witness: "fst (ne_pair_open demo_host demo_cfg (zero_setup empty_ledger))"
  using ne_pair_open_complete [OF demo_grants] by (simp add: demo_cfg_def)

theorem open_distributes_frames_witness:
  "\<exists>s. ne_pair_open demo_host demo_cfg (zero_setup empty_ledger) = (True, s) \<and> local_queue_total (io s) + wan_queue_total (io s) = 8 \<and>
     side_filled 16384 0 1 (locals (io s)) \<and> side_filled 16384 4 1 (wans (io s)) \<and>
     pool_list (pool (io_mem (io s))) = frames_from 131072 393216"
proof -
  obtain ok s where r: "ne_pair_open demo_host demo_cfg (zero_setup empty_ledger) = (ok, s)" by force
  have ok: ok using ne_pair_open_spec [OF r] demo_grants by (auto simp: demo_cfg_def split: if_splits)
  have rd: "ready demo_host demo_cfg (led (zero_setup empty_ledger)) s" using ne_pair_open_spec [OF r] ok by (simp add: opened_def)
  have q: "resolve_iface_queue_count demo_host (cfg_names sd demo_cfg ! 0) = 4" for sd
    using demo_safe by (cases sd) (simp_all add: resolve_iface_queue_count_def interface_get_queue_count_def demo_cfg_def demo_host_def
        NE_QUEUE_OVERRIDE_def MAX_QUEUES_def)
  have c: "iface_count sd (io s) = 1" "0 < length (ifaces sd (io s))" for sd
    using rd by (cases sd; simp add: ready_def demo_cfg_def MAX_INTERFACES_def booked_def sized_def all_sides)+
  have "iface_open demo_host (cfg_names sd demo_cfg ! 0) (ifaces sd (io s) ! 0)" for sd using rd c by (simp add: ready_def iface_at_def)
  then have "queue_count (ifaces sd (io s) ! 0) = 4" for sd using q by (simp add: iface_open_def)
  then have t: "total_of sd (io s) = 4" for sd
    using rd c by (simp add: ready_def queues_before_def take_Suc_conv_app_nth)
  have w: "prefill_per_queue 524288 8 = 16384" by (simp add: prefill_per_queue_def NE_FQ_PREFILL_def NE_BATCH_SIZE_def)
  show ?thesis
    using open_distributes_frames [of demo_host demo_cfg "zero_setup empty_ledger" s 8 16384] demo_rings_fresh r ok t [of Lan] t [of Wan] w
      c [of Lan] c [of Wan] by simp
qed

end
