(* ===== verification/Rounds_View.thy ===== *)
theory Rounds_View
  imports Setup_Fill
begin

text \<open>
  No round of a dataplane thread changes what the tear-down looks at: the sockets, queue counts and interface counts of the pair.
  \<open>event\<close> is one round of one thread with the values of its thread-local variables; a run of the dataplane is a list of
  events, so that every interleaving of whole rounds is a run.
\<close>

section \<open>Transmission\<close>

lemma tx_drain_iface_ring_view: "iface_view (fst (snd (tx_drain_iface_ring f src pl mf t))) = iface_view f"
  by (simp add: tx_drain_iface_ring_def Let_def iface_view_def map_put split: list.split)

lemma tx_drain_all_view: "iface_view (fst (snd (tx_drain_iface_all_rings f srcs pl mf t rr))) = iface_view f"
proof -
  have "iface_view (fst (snd (fold (\<lambda>i (sent, iface, srcs, pl).
       let s = (start + i) mod length srcs; (k, iface', src', pl') = tx_drain_iface_ring iface (srcs ! s) pl mf t
       in (sent + k, iface', srcs[s := src'], pl')) is st))) = iface_view (fst (snd st))" for start "is" st
    by (induction "is" arbitrary: st) (simp_all add: split_beta Let_def tx_drain_iface_ring_view)
  from this [of _ _ "(0, f, srcs, pl)"] show ?thesis by (simp add: tx_drain_iface_all_rings_def Let_def split_beta)
qed

lemma tx_drain_pair_view:
  "sock_view (fst (snd (ne_tx_drain_local_all p srcs i t rr))) = sock_view p"
  "sock_view (fst (snd (ne_tx_drain_wan_all p srcs i t rr))) = sock_view p"
  by (simp_all add: ne_tx_drain_local_all_def ne_tx_drain_wan_all_def sock_view_def split_beta map_put tx_drain_all_view)

lemma burst_loop_view:
  assumes "\<And>p rings rr. sock_view (fst (snd (drain p rings rr))) = sock_view p"
  shows "sock_view (fst (snd (burst_loop k drain n p rings rr))) = sock_view p"
proof (induction k arbitrary: n p rings rr)
  case (Suc k)
  show ?case using Suc.IH assms [of p rings rr] by (simp add: split_beta)
qed simp

lemma ring_put_pair [simp]: "pair (ring_put ref r f) = pair f"
  by (cases ref) simp_all

lemma burst_view:
  "pair_view (snd (snd (dp_burst_tx_local i t (rr, s)))) = pair_view s" "pair_view (snd (snd (dp_burst_tx_wan i t (rr, s)))) = pair_view s"
  using burst_loop_view [of "\<lambda>p rings rr. ne_tx_drain_local_all p rings i t rr"] burst_loop_view [of "\<lambda>p rings rr. ne_tx_drain_wan_all p rings i t rr"]
  by (simp_all add: dp_burst_tx_local_def dp_burst_tx_wan_def Let_def pair_view_def split_beta tx_drain_pair_view split: list.split del: ring_put.simps)

lemma tx_round_view: "pair_view (snd (tx_round re t (tx0, s))) = pair_view s"
proof -
  have f: "pair_view (snd (snd (fold (\<lambda>i (d, rr, s). case burst i t (rr, s) of (n, rr1, s1) \<Rightarrow> (d + n, rr1, s1)) js st))) = pair_view (snd (snd st))"
    if "\<And>i rr s. pair_view (snd (snd (burst i t (rr, s)))) = pair_view s" for burst :: "nat \<Rightarrow> nat \<Rightarrow> u32 \<times> dp_state \<Rightarrow> nat \<times> u32 \<times> dp_state" and js st
  proof -
    have "pair_view (snd (snd (burst i t y))) = pair_view (snd y)" for i y using that [of i "fst y" "snd y"] by simp
    then show ?thesis by (induction js arbitrary: st) (simp_all add: split_beta)
  qed
  have "pair_view (snd (tx_idle_pause re t st s)) = pair_view s" for st s
    by (simp add: tx_idle_pause_def Let_def split_beta)
  note idle_view = this
  let ?s1 = "on_pair (ne_drain_cq_wan t) (on_pair (ne_drain_cq_local t) s)"
  let ?acc = "\<lambda>burst i (d, rr, s). case burst i t (rr, s) of (n, rr1, s1) \<Rightarrow> (d + n, rr1, s1)"
  obtain d1 rr1 s2 where a: "fold (?acc dp_burst_tx_local) [0..<fwd_local_count (fwd ?s1)] (0, tx_rr tx0, ?s1) = (d1, rr1, s2)"
    by (metis prod_cases3)
  obtain d2 rr2 s3 where b: "fold (?acc dp_burst_tx_wan) [0..<fwd_wan_count (fwd ?s1)] (d1, rr1, s2) = (d2, rr2, s3)"
    by (metis prod_cases3)
  have "pair_view ?s1 = pair_view s" by (simp add: on_pair_def pair_view_def)
  then have "pair_view s3 = pair_view s"
    using f [where burst = dp_burst_tx_local, OF burst_view(1), where js = "[0..<fwd_local_count (fwd ?s1)]" and st = "(0, tx_rr tx0, ?s1)"]
      f [where burst = dp_burst_tx_wan, OF burst_view(2), where js = "[0..<fwd_wan_count (fwd ?s1)]" and st = "(d1, rr1, s2)"]
    unfolding a b by simp
  then show ?thesis
    using idle_view [of "tx_idle tx0" s3] unfolding tx_round_def Let_def prod.case a b
    by (cases "tx_idle_pause re t (tx_idle tx0) s3") simp
qed

section \<open>Reception and workers\<close>

lemma shape_view: "shape s' = shape s \<Longrightarrow> pair_view s' = pair_view s"
  by (simp add: shape_def)

lemma dp_free_view [simp]: "pair_view (dp_free job s) = pair_view s"
  by (rule shape_view) (rule shape_free)

lemma fwd_rings_view [simp]:
  "pair_view (s\<lparr>fwd := (fwd s)\<lparr>local_to_mid := x\<rparr>\<rparr>) = pair_view s" "pair_view (s\<lparr>fwd := (fwd s)\<lparr>wan_to_mid := x\<rparr>\<rparr>) = pair_view s"
  by (simp_all add: pair_view_def)

lemma push_mid_view [simp]:
  "pair_view (push_local_to_mid wi job s) = pair_view s" "pair_view (push_wan_to_mid wi job s) = pair_view s"
  by (simp_all add: push_local_to_mid_def push_wan_to_mid_def pair_view_def dp_free_def set_mem_def sock_view_def split: option.split)

lemma rx_packet_view:
  "local_rx_packet env job s = Done s' \<Longrightarrow> pair_view s' = pair_view s"
  "wan_rx_packet env job s = Done s' \<Longrightarrow> pair_view s' = pair_view s"
  by (auto simp: local_rx_packet_def wan_rx_packet_def Let_def split: if_splits prod.splits option.splits
      dest!: process_local_shape process_wan_shape shape_view)

lemma rx_packets_view:
  assumes "\<And>job s s'. f job s = Done s' \<Longrightarrow> pair_view s' = pair_view s" "rx_packets f batch s = Done s'"
  shows "pair_view s' = pair_view s"
  using assms(2) by (induction batch arbitrary: s) (auto simp: cbind_eq_Done dest: assms(1))

lemma rx_idle_view: "pair_view (snd (rx_idle re st s)) = pair_view s"
  by (simp add: rx_idle_def split_beta)

lemma rx_round_view:
  "local_rx_round env re k (st, s) = Done (st', s') \<Longrightarrow> pair_view s' = pair_view s"
  "wan_rx_round env re k (st, s) = Done (st', s') \<Longrightarrow> pair_view s' = pair_view s"
proof -
  have o: "pair_view (on_pair f s) = pair_view s" if "sock_view (f (pair (fwd s))) = sock_view (pair (fwd s))" for f s
    using that by (simp add: on_pair_def pair_view_def)
  show "pair_view s' = pair_view s" if q: "local_rx_round env re k (st, s) = Done (st', s')"
  proof -
    let ?s1 = "dp_burst_refill_local k s"
    obtain batch p where r: "ne_recv_local_slot k NE_BATCH_SIZE (pair (fwd ?s1)) = (batch, p)" by force
    let ?s2 = "on_pair (\<lambda>_. p) ?s1"
    have "sock_view p = sock_view (pair (fwd ?s1))" using recv_view(1) [of k NE_BATCH_SIZE "pair (fwd ?s1)"] r by simp
    then have v: "pair_view ?s2 = pair_view s" by (simp add: o dp_burst_refill_local_def)
    show ?thesis
    proof (cases "batch = []")
      case True
      then show ?thesis using q r v rx_idle_view [of re st ?s2] by (auto simp: local_rx_round_def Let_def)
    next
      case False
      then obtain s3 where s3: "rx_packets (local_rx_packet env) batch ?s2 = Done s3" "s' = on_pair (ne_recv_release_local_slot k) s3"
        using q r by (auto simp: local_rx_round_def Let_def cbind_eq_Done)
      have "pair_view s3 = pair_view ?s2" by (rule rx_packets_view [OF _ s3(1)]) (erule rx_packet_view(1))
      then show ?thesis using v s3(2) by (simp add: o)
    qed
  qed
  show "pair_view s' = pair_view s" if q: "wan_rx_round env re k (st, s) = Done (st', s')"
  proof -
    let ?s1 = "dp_burst_refill_wan k s"
    obtain batch p where r: "ne_recv_wan_slot k NE_BATCH_SIZE (pair (fwd ?s1)) = (batch, p)" by force
    let ?s2 = "on_pair (\<lambda>_. p) ?s1"
    have "sock_view p = sock_view (pair (fwd ?s1))" using recv_view(2) [of k NE_BATCH_SIZE "pair (fwd ?s1)"] r by simp
    then have v: "pair_view ?s2 = pair_view s" by (simp add: o dp_burst_refill_wan_def)
    show ?thesis
    proof (cases "batch = []")
      case True
      then show ?thesis using q r v rx_idle_view [of re st ?s2] by (auto simp: wan_rx_round_def Let_def)
    next
      case False
      then obtain s3 where s3: "rx_packets (wan_rx_packet env) batch ?s2 = Done s3" "s' = on_pair (ne_recv_release_wan_slot k) s3"
        using q r by (auto simp: wan_rx_round_def Let_def cbind_eq_Done)
      have "pair_view s3 = pair_view ?s2" by (rule rx_packets_view [OF _ s3(1)]) (erule rx_packet_view(2))
      then show ?thesis using v s3(2) by (simp add: o)
    qed
  qed
qed

lemma worker_round_view:
  assumes "crypto_worker_round env re w (wl, s) = Done (wl', s')"
  shows "pair_view s' = pair_view s"
proof -
  have a: "pair_view t' = pair_view t" if "worker_take_wan env w t = Done (d, t')" for t d t'
    using that by (auto simp: worker_take_wan_def cbind_eq_Done split: option.splits dest!: process_wan_shape shape_view)
  have "pair_view t' = pair_view t" if "worker_take_local env w t = Done (d, t')" for t d t'
    using that by (auto simp: worker_take_local_def cbind_eq_Done split: option.splits dest!: process_local_shape shape_view)
  note b = this
  have "pair_view (snd (crypto_idle_pause re w st t)) = pair_view t" for st t
    by (simp add: crypto_idle_pause_def Let_def split_beta)
  note c = this
  show ?thesis
    using assms a b c by (auto simp: crypto_worker_round_def cbind_eq_Done Let_def split_beta split: if_splits)
qed

section \<open>Runs of the dataplane\<close>

text \<open>Thread-local variables are loaded before a round: those of the routing component from \<open>r\<close>, those of the crypto component from
  \<open>l\<close>, where the process-wide \<^verbatim>\<open>initialized\<close> and \<^verbatim>\<open>g_udp_epoch\<close> stay.\<close>

definition load_tls :: "route_state \<Rightarrow> l2_state \<Rightarrow> dp_state \<Rightarrow> dp_state" where
  "load_tls r l s = s\<lparr>
     rt := (rt s)\<lparr>tls_crypto_worker_idx := tls_crypto_worker_idx r, tls_out_ring_idx := tls_out_ring_idx r,
       tls_udp_seq_fallback := tls_udp_seq_fallback r, tls_udp_seq_stamp := tls_udp_seq_stamp r\<rparr>,
     l2 := l\<lparr>initialized := initialized (l2 s), g_udp_epoch := g_udp_epoch (l2 s), lib_calls := lib_calls (l2 s)\<rparr>\<rparr>"

datatype 'c event =
    LocalRxRound "'c dp_env" round_env nat ne_dp_idle route_state l2_state
  | WanRxRound "'c dp_env" round_env nat ne_dp_idle route_state l2_state
  | CryptoRound "'c dp_env" round_env nat worker_local route_state l2_state
  | TxRound round_env nat tx_local
  | KernelMove side nat nat "xdp_desc xsk_ring" "xdp_desc xsk_ring" "u64 xsk_ring" "u64 xsk_ring"

text \<open>The kernel may change the rings of a queue in any way.\<close>

fun kernel_move :: "side \<Rightarrow> nat \<Rightarrow> (ne_iface \<Rightarrow> ne_iface) \<Rightarrow> ne_pair_io \<Rightarrow> ne_pair_io" where
  "kernel_move Lan i g p = p\<lparr>locals := (locals p)[i := g (locals p ! i)]\<rparr>"
| "kernel_move Wan i g p = p\<lparr>wans := (wans p)[i := g (wans p ! i)]\<rparr>"

fun exec_event :: "'c event \<Rightarrow> dp_state \<Rightarrow> dp_state cres" where
  "exec_event (LocalRxRound env re k st r l) s = cbind (local_rx_round env re k (st, load_tls r l s)) (\<lambda>(_, s'). Done s')"
| "exec_event (WanRxRound env re k st r l) s = cbind (wan_rx_round env re k (st, load_tls r l s)) (\<lambda>(_, s'). Done s')"
| "exec_event (CryptoRound env re w wl r l) s = cbind (crypto_worker_round env re w (wl, load_tls r l s)) (\<lambda>(_, s'). Done s')"
| "exec_event (TxRound re t tx0) s = Done (snd (tx_round re t (tx0, s)))"
| "exec_event (KernelMove sd i q rx tx fq cq) s = Done (on_pair (kernel_move sd i (\<lambda>f. f\<lparr>queues :=
     (queues f)[q := (queues f ! q)\<lparr>q_rx := rx, q_tx := tx, q_fq := fq, q_cq := cq\<rparr>]\<rparr>)) s)"

lemma load_tls_view [simp]: "pair_view (load_tls r l s) = pair_view s"
  by (simp add: load_tls_def pair_view_def)

lemma exec_event_view: "exec_event ev s = Done s' \<Longrightarrow> pair_view s' = pair_view s"
proof (cases ev)
  case (KernelMove sd i q rx tx fq cq)
  assume "exec_event ev s = Done s'"
  then show ?thesis using KernelMove
    by (cases sd) (auto simp: on_pair_def pair_view_def sock_view_def iface_view_def map_put)
qed (auto simp: cbind_eq_Done tx_round_view dest!: rx_round_view worker_round_view)

lemma run_events_view: "rounds exec_event evs s = Done s' \<Longrightarrow> pair_view s' = pair_view s"
  by (induction evs arbitrary: s) (auto simp: cbind_eq_Done dest!: exec_event_view)

end
