(* ===== verification/Lifecycle.thy ===== *)
theory Lifecycle
  imports Rounds_View
begin

text \<open>
  The life of the process: \<^verbatim>\<open>forwarder_init\<close>, \<^verbatim>\<open>forwarder_run\<close>, \<^verbatim>\<open>forwarder_cleanup\<close> and \<^verbatim>\<open>forwarder_stop\<close> of
  \<^verbatim>\<open>src/core/forwarder/forwarder.c\<close> and \<^verbatim>\<open>main.c\<close>. \<open>life\<close> is the process state; the pair of the forwarder is \<open>io (pr x)\<close> while
  it is set up and \<open>pair (fwd (dp x))\<close> while the threads run. \<open>sys\<close> is what the process meets: the host, the stop
  signals (\<open>sys_stop k\<close>: one arrives just before the \<open>k\<close>-th access of \<^verbatim>\<open>running\<close> in \<^verbatim>\<open>forwarder_init\<close>, the fourth being the
  final store), the outcomes of the ring allocations and of \<^verbatim>\<open>pthread_create\<close>.
\<close>

section \<open>State\<close>

record life =
  run_flag :: bool
  pr :: ne_setup
  dp :: dp_state

datatype ring_id = InLocal nat | InWan nat | OutLocal nat nat | OutWan nat nat

datatype thread = LocalRx nat | Tx nat | Crypto nat | WanRx nat

record 'c sys =
  sys_host :: host
  sys_busy :: "string option"
  sys_efd :: "nat \<Rightarrow> int"
  sys_stop :: "nat \<Rightarrow> bool"
  sys_ring :: "ring_id \<Rightarrow> bool \<times> bool \<times> bool"
  sys_create :: "thread \<Rightarrow> bool"
  sys_affinity :: "(nat \<Rightarrow> bool) option"
  sys_lib :: "'c scrypt_api"
  sys_mtu :: "string \<Rightarrow> int option"
  sys_calloc :: bool

definition zero_forwarder :: forwarder where
  "zero_forwarder = \<lparr>fwd_locals = replicate MAX_INTERFACES \<lparr>fi_ifindex = 0, fi_ifname = []\<rparr>, fwd_local_count = 0,
     fwd_wans = replicate MAX_INTERFACES \<lparr>fi_ifindex = 0, fi_ifname = []\<rparr>, fwd_wan_count = 0, pair = zero_pair_io,
     crypto = \<lparr>ctx_key = replicate 32 0, ctx_initialized = False\<rparr>,
     local_to_mid = replicate NE_CRYPTO_WORKERS zero_ring, wan_to_mid = replicate NE_CRYPTO_WORKERS zero_ring,
     mid_to_wan = replicate MAX_INTERFACES (replicate NE_CRYPTO_WORKERS zero_ring),
     mid_to_local = replicate MAX_INTERFACES (replicate NE_CRYPTO_WORKERS zero_ring),
     crypto_buf = replicate NE_CRYPTO_WORKERS (replicate NE_JUMBO_FRAME_MAX 0),
     crypto_aux = replicate NE_CRYPTO_WORKERS (replicate NE_JUMBO_FRAME_MAX 0)\<rparr>"

section \<open>Stopping\<close>

definition set_idle :: "(idle_globals \<Rightarrow> idle_globals) \<Rightarrow> life \<Rightarrow> life" where
  "set_idle f x = x\<lparr>dp := (dp x)\<lparr>idle := f (idle (dp x))\<rparr>\<rparr>"

definition forwarder_stop :: "life \<Rightarrow> life" where
  "forwarder_stop x = set_idle ne_dp_idle_wake_all (x\<lparr>run_flag := False\<rparr>)"

definition forwarder_should_stop :: "life \<Rightarrow> bool" where
  "forwarder_should_stop x \<longleftrightarrow> \<not> run_flag x"

definition stop_signal :: "'c sys \<Rightarrow> nat \<Rightarrow> life \<Rightarrow> life" where
  "stop_signal y k x = (if sys_stop y k then forwarder_stop x else x)"

section \<open>Cleaning up\<close>

definition destroy_rings :: "forwarder \<Rightarrow> forwarder" where
  "destroy_rings f = f\<lparr>local_to_mid := map ne_ring_destroy (local_to_mid f), wan_to_mid := map ne_ring_destroy (wan_to_mid f),
     mid_to_wan := map (map ne_ring_destroy) (mid_to_wan f), mid_to_local := map (map ne_ring_destroy) (mid_to_local f)\<rparr>"

definition forwarder_cleanup :: "'c sys \<Rightarrow> app_config \<Rightarrow> life \<Rightarrow> life" where
  \<comment> \<open>\<open>cfg\<close> is \<^verbatim>\<open>fwd->cfg\<close>\<close>
  "forwarder_cleanup y cfg x =
     (let f = destroy_rings (fwd (dp x));
          s = ne_pair_close (sys_host y) (Some cfg) ((pr x)\<lparr>io := pair f\<rparr>)
      in set_idle ne_dp_idle_shutdown (x\<lparr>pr := s, dp := (dp x)\<lparr>fwd := f\<lparr>pair := io s\<rparr>\<rparr>\<rparr>))"

section \<open>Initialisation\<close>

definition init_iface_meta :: "host \<Rightarrow> string \<Rightarrow> fwd_iface" where
  "init_iface_meta h ifn = \<lparr>fi_ifindex = h_ifindex h ifn, fi_ifname = copy_ifname ifn\<rparr>"

definition init_meta :: "host \<Rightarrow> app_config \<Rightarrow> forwarder \<Rightarrow> forwarder" where
  "init_meta h cfg f =
     (let nl = (if MAX_INTERFACES < cfg_local_count cfg then MAX_INTERFACES else cfg_local_count cfg);
          nw = (if MAX_INTERFACES < cfg_wan_count cfg then MAX_INTERFACES else cfg_wan_count cfg)
      in f\<lparr>fwd_local_count := nl, fwd_wan_count := nw,
           fwd_locals := fold (\<lambda>i fs. fs[i := init_iface_meta h (cfg_locals cfg ! i)]) [0..<nl] (fwd_locals f),
           fwd_wans := fold (\<lambda>i fs. fs[i := init_iface_meta h (cfg_wans cfg ! i)]) [0..<nw] (fwd_wans f)\<rparr>)"

fun ring_of :: "ring_id \<Rightarrow> forwarder \<Rightarrow> ne_packet ne_ring" where
  "ring_of (InLocal w) f = local_to_mid f ! w"
| "ring_of (InWan w) f = wan_to_mid f ! w"
| "ring_of (OutLocal i w) f = mid_to_local f ! i ! w"
| "ring_of (OutWan i w) f = mid_to_wan f ! i ! w"

fun store_ring :: "ring_id \<Rightarrow> ne_packet ne_ring \<Rightarrow> forwarder \<Rightarrow> forwarder" where
  "store_ring (InLocal w) r f = f\<lparr>local_to_mid := (local_to_mid f)[w := r]\<rparr>"
| "store_ring (InWan w) r f = f\<lparr>wan_to_mid := (wan_to_mid f)[w := r]\<rparr>"
| "store_ring (OutLocal i w) r f = f\<lparr>mid_to_local := (mid_to_local f)[i := (mid_to_local f ! i)[w := r]]\<rparr>"
| "store_ring (OutWan i w) r f = f\<lparr>mid_to_wan := (mid_to_wan f)[i := (mid_to_wan f ! i)[w := r]]\<rparr>"

definition init_ring :: "'c sys \<Rightarrow> ring_id \<Rightarrow> forwarder \<Rightarrow> bool \<times> forwarder" where
  "init_ring y rid f =
     (case sys_ring y rid of (a, b, c) \<Rightarrow>
        (case ne_ring_init a b c zero_packet (ring_of rid f) NE_RING False of (ok, r) \<Rightarrow> (ok, store_ring rid r f)))"

definition ring_ids :: "nat \<Rightarrow> nat \<Rightarrow> ring_id list" where
  \<comment> \<open>in the order of the three loops\<close>
  "ring_ids nl nw = concat (map (\<lambda>w. [InLocal w, InWan w]) [0..<NE_CRYPTO_WORKERS]) @
     concat (map (\<lambda>i. map (OutLocal i) [0..<NE_CRYPTO_WORKERS]) [0..<nl]) @
     concat (map (\<lambda>i. map (OutWan i) [0..<NE_CRYPTO_WORKERS]) [0..<nw])"

definition init_rings :: "'c sys \<Rightarrow> forwarder \<Rightarrow> bool \<times> forwarder" where
  "init_rings y f = run_steps (map (init_ring y) (ring_ids (fwd_local_count f) (fwd_wan_count f))) f"

definition init_begin :: "'c sys \<Rightarrow> app_config \<Rightarrow> life \<Rightarrow> life" where
  \<comment> \<open>from the \<^verbatim>\<open>memset\<close> to \<^verbatim>\<open>xdp_attach_prepare_init\<close>\<close>
  "init_begin y cfg x = set_idle (ne_dp_idle_init (sys_busy y) (sys_efd y))
     (x\<lparr>pr := set_led (xdp_attach_prepare_init (sys_host y) cfg) (zero_setup (led (pr x))),
        dp := (dp x)\<lparr>fwd := init_meta (sys_host y) cfg zero_forwarder\<rparr>\<rparr>)"

definition init_crypto :: "app_config \<Rightarrow> life \<Rightarrow> life" where
  "init_crypto cfg x = x\<lparr>dp := (dp x)\<lparr>fwd := (fwd (dp x))\<lparr>crypto := packet_crypto_init (cfg_key cfg)\<rparr>\<rparr>\<rparr>"

definition set_pair :: "ne_setup \<Rightarrow> life \<Rightarrow> life" where
  "set_pair s x = x\<lparr>pr := s, dp := on_pair (\<lambda>_. io s) (dp x)\<rparr>"

definition set_fwd :: "forwarder \<Rightarrow> life \<Rightarrow> life" where
  "set_fwd f x = x\<lparr>dp := (dp x)\<lparr>fwd := f\<rparr>\<rparr>"

definition forwarder_init :: "'c sys \<Rightarrow> app_config \<Rightarrow> life \<Rightarrow> bool \<times> life" where
  "forwarder_init y cfg x0 =
     (let h = sys_host y in
      if cfg_local_count cfg = 0 then (False, x0)
      else let x1 = stop_signal y 0 x0 in
      if forwarder_should_stop x1 then (False, x1)
      else let x2 = stop_signal y 1 (init_begin y cfg x1) in
      if forwarder_should_stop x2 then (False, x2)
      else let x3 = init_crypto cfg x2 in
      case ne_pair_open h cfg (pr x3) of
        (False, s) \<Rightarrow> (False, set_idle ne_dp_idle_shutdown (set_pair s x3))
      | (True, s) \<Rightarrow>
        (case xdp_attach_all h cfg s of
           (False, s1) \<Rightarrow> (False, forwarder_cleanup y cfg (set_pair s1 x3))
         | (True, s1) \<Rightarrow>
             (let x4 = stop_signal y 2 (set_pair s1 x3) in
              if forwarder_should_stop x4 then (False, forwarder_cleanup y cfg x4)
              else case init_rings y (fwd (dp x4)) of
                (False, f) \<Rightarrow> (False, forwarder_cleanup y cfg (set_fwd f x4))
              | (True, f) \<Rightarrow> (True, (stop_signal y 3 (set_fwd f x4))\<lparr>run_flag := True\<rparr>))))"

section \<open>Running\<close>

definition planned_threads :: "forwarder \<Rightarrow> thread list" where
  "planned_threads f =
     map LocalRx [0..<ne_rx_lan_slots_for (local_queue_total (pair f))] @ map Tx [0..<forwarder_active_tx_slots f] @
     map Crypto [0..<NE_CRYPTO_WORKERS] @ map WanRx [0..<ne_rx_wan_slots_for (wan_queue_total (pair f))]"

definition joined_threads :: "forwarder \<Rightarrow> thread list" where
  \<comment> \<open>the joins at the end of \<^verbatim>\<open>forwarder_run\<close>, when every creation succeeded\<close>
  "joined_threads f =
     map LocalRx [0..<ne_rx_lan_slots_for (local_queue_total (pair f))] @ map Tx [0..<NE_TX_SLOTS] @
     map Crypto [0..<NE_CRYPTO_WORKERS] @ map WanRx [0..<ne_rx_wan_slots_for (wan_queue_total (pair f))]"

record run_log =
  started :: "thread list"
  joined :: "thread list"

text \<open>The threads run until \<^verbatim>\<open>running\<close> is cleared, by a signal or, when a creation fails, by \<^verbatim>\<open>forwarder_join_started\<close>; \<open>evs\<close> is what
  they and the kernel do until the last join returns.\<close>

definition forwarder_join_started :: "thread list \<Rightarrow> life \<Rightarrow> thread list \<times> life" where
  "forwarder_join_started ts x = (ts, forwarder_stop x)"

definition forwarder_run :: "'c sys \<Rightarrow> 'c event list \<Rightarrow> life \<Rightarrow> (run_log \<times> life) cres" where
  "forwarder_run y evs x =
     (if forwarder_should_stop x then Done (\<lparr>started = [], joined = []\<rparr>, x)
      else if \<not> ne_cpu_map_validate (sys_affinity y) then Done (\<lparr>started = [], joined = []\<rparr>, x)
      else let f = fwd (dp x);
               x1 = x\<lparr>dp := (dp x)\<lparr>rt := dp_route_set_active_tx_slots (of_nat (forwarder_active_tx_slots f)) (rt (dp x))\<rparr>\<rparr>;
               ts = takeWhile (sys_create y) (planned_threads f) in
        cbind (rounds exec_event evs (dp x1)) (\<lambda>s.
          if ts \<noteq> planned_threads f
          then let (js, x2) = forwarder_join_started ts (x1\<lparr>dp := s\<rparr>) in Done (\<lparr>started = ts, joined = js\<rparr>, x2)
          else Done (\<lparr>started = ts, joined = joined_threads f\<rparr>, forwarder_stop (x1\<lparr>dp := s\<rparr>))))"

section \<open>The program\<close>

definition zero_l2 :: l2_state where
  "zero_l2 = \<lparr>initialized = False, nonce_salt = replicate 8 0, nonce_counter = 0, nonce_ready = False, cipher_e = False, cipher_d = False,
     lib_calls = 0, g_worker_idx = 0, g_udp_epoch = 0, g_udp_tx_seq = 0, g_udp_tx_datagram_id = 0, g_udp_tx_datagram_clock = 0,
     g_udp_tx_valid = False\<rparr>"

definition boot :: "ledger \<Rightarrow> life" where
  \<comment> \<open>static initial values and the forwarder from \<^verbatim>\<open>calloc\<close>\<close>
  "boot l = \<lparr>run_flag = True, pr = zero_setup l,
     dp = \<lparr>fwd = zero_forwarder, rt = route_init, l2 = zero_l2, g_tables = (\<lambda>_. None), idle = idle_zero\<rparr>\<rparr>"

definition main :: "'c sys \<Rightarrow> 'c event list \<Rightarrow> ledger \<Rightarrow> (nat \<times> life) cres" where
  "main y evs l =
     (let x = boot l; on_l2 = (\<lambda>v x. x\<lparr>dp := (dp x)\<lparr>l2 := v\<rparr>\<rparr>) in
      case (if sys_calloc y then static_config_build (sys_mtu y) else None) of
        None \<Rightarrow> Done (1, x)
      | Some cfg \<Rightarrow>
          (case trf_pqc_init_global (sys_lib y) (l2 (dp x)) of
             (Inl e, v) \<Rightarrow> Done (1, on_l2 v x)
           | (Inr _, v) \<Rightarrow>
               (case forwarder_init y cfg (on_l2 v x) of
                  (False, x1) \<Rightarrow> Done (1, on_l2 (trf_pqc_cleanup (l2 (dp x1))) x1)
                | (True, x1) \<Rightarrow> cbind (forwarder_run y evs x1) (\<lambda>(lg, x2).
                    let x3 = forwarder_cleanup y cfg x2 in Done (0, on_l2 (trf_pqc_cleanup (l2 (dp x3))) x3)))))"

end
