(* ===== verification/Attach_Safe.thy ===== *)
theory Attach_Safe
  imports Lifecycle
begin

text \<open>
  Attaching the XDP programs keeps the books, and when it succeeds every AF_XDP socket is in the map of the object attached to its
  interface, under its own queue.
\<close>

section \<open>Maps\<close>

lemma update_loop_spec:
  assumes "update_xsk_map_loop h f ob qs l = (ok, l')"
  shows "\<exists>m. l' = l\<lparr>xskmap := (xskmap l)(ob := m)\<rparr> \<and> (\<forall>q. q \<notin> set qs \<longrightarrow> m q = xskmap l ob q) \<and>
    (ok \<longrightarrow> (\<forall>q\<in>set qs. xsk (queues f ! q) \<noteq> None \<and> m q = xsk (queues f ! q)))"
  using assms
proof (induction qs arbitrary: l)
  case Nil
  then show ?case by (intro exI [of _ "xskmap l ob"]) auto
next
  case (Cons q qs)
  have same: ?case if "l' = l" "\<not> ok" using that by (intro exI [of _ "xskmap l ob"]) auto
  show ?case
  proof (cases "xsk (queues f ! q)")
    case None
    then show ?thesis using Cons.prems same by simp
  next
    case (Some fd)
    show ?thesis
    proof (cases "h_update_xskmap h fd \<or> h_update_elem h q")
      case False
      then show ?thesis using Cons.prems Some same by (simp add: update_xsk_map_queue_def)
    next
      case True
      let ?l1 = "l\<lparr>xskmap := (xskmap l)(ob := (xskmap l ob)(q \<mapsto> fd))\<rparr>"
      have "update_xsk_map_loop h f ob qs ?l1 = (ok, l')" using Cons.prems Some True by (simp add: update_xsk_map_queue_def)
      from Cons.IH [OF this] obtain m where m: "l' = ?l1\<lparr>xskmap := (xskmap ?l1)(ob := m)\<rparr>" "\<forall>q. q \<notin> set qs \<longrightarrow> m q = xskmap ?l1 ob q"
        "ok \<longrightarrow> (\<forall>q\<in>set qs. xsk (queues f ! q) \<noteq> None \<and> m q = xsk (queues f ! q))" by blast
      have "m q = Some fd" if ok using m(2,3) that Some by (cases "q \<in> set qs") auto
      moreover have "l' = l\<lparr>xskmap := (xskmap l)(ob := m)\<rparr>" unfolding m(1) by (simp del: fun_upd_apply)
      moreover have "\<forall>q'. q' \<notin> set (q # qs) \<longrightarrow> m q' = xskmap l ob q'" using m(2) by simp
      moreover have "ok \<longrightarrow> (\<forall>q'\<in>set (q # qs). xsk (queues f ! q') \<noteq> None \<and> m q' = xsk (queues f ! q'))" using m(3) Some calculation(1) by simp
      ultimately show ?thesis by blast
    qed
  qed
qed

lemma open_bpf_cases:
  assumes "open_bpf_object h p prog mp l = (r, l')"
  shows "(r = None \<and> l' = l\<lparr>bpf_opened := bpf_opened l'\<rparr> \<and> bpf_opened l \<le> bpf_opened l') \<or>
    (r = Some (bpf_opened l) \<and> l' = l\<lparr>open_bpf := open_bpf l + {#bpf_opened l#}, bpf_opened := Suc (bpf_opened l)\<rparr>)"
  using assms by (auto simp: open_bpf_object_def Let_def bpf_object_close_def split: if_splits)

lemma link_off_fields [simp]:
  "bpf_opened (xdp_attach_link_off h ifn l) = bpf_opened l" "xskmap (xdp_attach_link_off h ifn l) = xskmap l"
  "bpf_opened (update_wan_fake_ethertype h p ob l) = bpf_opened l" "xskmap (update_wan_fake_ethertype h p ob l) = xskmap l"
  "holdings (update_wan_fake_ethertype h p ob l) = holdings l"
  by (simp_all add: xdp_attach_link_off_def update_wan_fake_ethertype_def holdings_def)

section \<open>Binding one interface\<close>

fun xdp_attach_bind :: "side \<Rightarrow> host \<Rightarrow> app_config \<Rightarrow> nat \<Rightarrow> ne_setup \<Rightarrow> bool \<times> ne_setup" where
  "xdp_attach_bind Lan h cfg i s = xdp_attach_bind_local h cfg i s"
| "xdp_attach_bind Wan h cfg i s = xdp_attach_bind_wan h cfg i s"

text \<open>What a binding does to the ledger after the object \<open>ob\<close> has been stored.\<close>

definition bound_ledger :: "ne_iface \<Rightarrow> bool \<Rightarrow> ledger \<Rightarrow> ledger \<Rightarrow> bool" where
  "bound_ledger f ok l l' \<longleftrightarrow> (let ob = bpf_opened l in bpf_opened l' = Suc ob \<and>
     open_bpf l' = open_bpf l + {#ob#} \<and> holdings (l'\<lparr>open_bpf := open_bpf l\<rparr>) = holdings l \<and>
     (\<forall>ob'. ob' \<noteq> ob \<longrightarrow> xskmap l' ob' = xskmap l ob') \<and>
     (ok \<longrightarrow> (\<forall>q<queue_count f. xsk (queues f ! q) \<noteq> None \<and> xskmap l' ob q = xsk (queues f ! q))))"

lemma bind_finish:
  assumes "update_xsk_map_iface h f ob la = (ok, lb)" "ob = bpf_opened l" "bpf_opened la = Suc ob" "xskmap la = xskmap l"
    "holdings la = holdings (l\<lparr>open_bpf := open_bpf l + {#ob#}\<rparr>)"
  shows "bound_ledger f ok l lb"
  using update_loop_spec [OF assms(1) [unfolded update_xsk_map_iface_def]] assms(2-5)
  by (auto simp: bound_ledger_def holdings_def)

definition failed_bind :: "ne_setup \<Rightarrow> ne_setup \<Rightarrow> bool" where
  "failed_bind s s' \<longleftrightarrow> (\<exists>l'. s' = s\<lparr>led := l'\<rparr> \<and> holdings l' = holdings (led s) \<and> bpf_opened (led s) \<le> bpf_opened l' \<and> xskmap l' = xskmap (led s))"

definition stored_bind :: "side \<Rightarrow> nat \<Rightarrow> bool \<Rightarrow> ne_setup \<Rightarrow> ne_setup \<Rightarrow> bool" where
  "stored_bind sd i ok s s' \<longleftrightarrow> (\<exists>l'. s' = (set_xdp_on sd i True (set_bpf sd i (Some (bpf_opened (led s))) s))\<lparr>led := l'\<rparr> \<and>
     bound_ledger (iface_at sd i s) ok (led s) l')"

text \<open>The common end of both binding functions, from the moment the object \<open>ob\<close> is open.\<close>

lemma bind_tail:
  fixes s :: ne_setup
  assumes "ob = bpf_opened (led s)" "bpf_objs sd s ! i = None" "bpf_opened la = Suc ob" "xskmap la = xskmap (led s)"
    "holdings la = holdings ((led s)\<lparr>open_bpf := open_bpf (led s) + {#ob#}\<rparr>)"
    and "(case xdp_attach_prog h idx la of
             (False, lb) \<Rightarrow> (False, set_bpf sd i None ((set_bpf sd i (Some ob) (s\<lparr>led := l0\<rparr>))\<lparr>led := bpf_object_close ob lb\<rparr>))
           | (True, lb) \<Rightarrow>
               (let (ok, lc) = update_xsk_map_iface h (iface_at sd i s) ob lb
                in (ok, (set_xdp_on sd i True (set_bpf sd i (Some ob) (s\<lparr>led := l0\<rparr>)))\<lparr>led := lc\<rparr>))) = (ok, s')"
  shows "\<not> ok \<and> failed_bind s s' \<or> stored_bind sd i ok s s'"
proof (cases "h_bpf_attach h idx")
  case False
  then have s': "\<not> ok" "s' = set_bpf sd i None ((set_bpf sd i (Some ob) (s\<lparr>led := l0\<rparr>))\<lparr>led := bpf_object_close ob la\<rparr>)"
    using assms(6) by (auto simp: xdp_attach_prog_def)
  have "set_bpf sd i None ((set_bpf sd i (Some ob) (s\<lparr>led := l0\<rparr>))\<lparr>led := l\<rparr>) = s\<lparr>led := l\<rparr>" for l
    using assms(2) list_update_id [of "bpf_locals s" i] list_update_id [of "bpf_wans s" i] by (cases s; cases sd) simp_all
  then have "failed_bind s s'" using assms(3-5) s'(2) unfolding failed_bind_def
    by (intro exI [of _ "bpf_object_close ob la"]) (simp add: bpf_object_close_def holdings_def assms(1))
  then show ?thesis using s'(1) by simp
next
  case True
  let ?lb = "la\<lparr>attached := (attached la)(idx := True)\<rparr>"
  obtain ok1 lc where u: "update_xsk_map_iface h (iface_at sd i s) ob ?lb = (ok1, lc)" by force
  then have s': "ok = ok1" "s' = (set_xdp_on sd i True (set_bpf sd i (Some ob) (s\<lparr>led := l0\<rparr>)))\<lparr>led := lc\<rparr>"
    using assms(6) True by (auto simp: xdp_attach_prog_def)
  have "bound_ledger (iface_at sd i s) ok (led s) lc"
    using bind_finish [OF u assms(1)] assms(3-5) s'(1) by (simp add: holdings_def)
  moreover have "s' = (set_xdp_on sd i True (set_bpf sd i (Some ob) s))\<lparr>led := lc\<rparr>" unfolding s'(2) by (cases sd) simp_all
  ultimately show ?thesis unfolding stored_bind_def assms(1) by blast
qed

lemma bind_cases:
  assumes "xdp_attach_bind sd h cfg i s = (ok, s')" "bpf_objs sd s ! i = None"
  shows "\<not> ok \<and> failed_bind s s' \<or> stored_bind sd i ok s s'"
proof -
  have same: "failed_bind s s" unfolding failed_bind_def by (intro exI [of _ "led s"]) simp
  let ?f = "iface_at sd i s"
  let ?path = "case sd of Lan \<Rightarrow> cfg_bpf_file cfg | Wan \<Rightarrow> cfg_bpf_wan_file cfg"
  let ?prog = "case sd of Lan \<Rightarrow> (if xdp_sg_enabled ?f then ''xdp_redirect_prog_frags'' else ''xdp_redirect_prog'')
    | Wan \<Rightarrow> (if xdp_sg_enabled ?f then ''xdp_wan_redirect_prog_frags'' else ''xdp_wan_redirect_prog'')"
  let ?mp = "case sd of Lan \<Rightarrow> ''xsks_map'' | Wan \<Rightarrow> ''wan_xsks_map''"
  obtain r l where op: "open_bpf_object h ?path ?prog ?mp (led s) = (r, l)" by force
  show ?thesis
  proof (cases "iface_count sd (io s) \<le> i \<or> xdp_attach_ifindex h (ifname ?f) = None")
    case True
    then have "xdp_attach_bind sd h cfg i s = (False, s)"
      by (cases sd) (auto simp: xdp_attach_bind_local_def xdp_attach_bind_wan_def Let_def iface_at_def)
    then show ?thesis using assms same by simp
  next
    case False
    then obtain y where f: "\<not> iface_count sd (io s) \<le> i" "xdp_attach_ifindex h (ifname ?f) = Some y" by auto
    show ?thesis
    proof (cases r)
      case None
      then have "xdp_attach_bind sd h cfg i s = (False, s\<lparr>led := l\<rparr>)"
        using assms(2) f op by (cases sd) (auto simp: xdp_attach_bind_local_def xdp_attach_bind_wan_def Let_def iface_at_def)
      then have "s' = s\<lparr>led := l\<rparr>" "\<not> ok" using assms(1) by simp_all
      moreover have "holdings l = holdings (led s)" "bpf_opened (led s) \<le> bpf_opened l" "xskmap l = xskmap (led s)"
        using open_bpf_cases [OF op] None by (auto simp: holdings_def) (metis ledger.select_convs ledger.surjective ledger.update_convs)+
      ultimately show ?thesis unfolding failed_bind_def by blast
    next
      case (Some ob)
      then have l: "ob = bpf_opened (led s)" "l = (led s)\<lparr>open_bpf := open_bpf (led s) + {#ob#}, bpf_opened := Suc ob\<rparr>"
        using open_bpf_cases [OF op] by auto
      let ?la = "xdp_attach_link_off h (ifname ?f)
        (case sd of Lan \<Rightarrow> l | Wan \<Rightarrow> update_wan_fake_ethertype h (resolve_bpf_object_path h (cfg_bpf_wan_file cfg)) ob l)"
      have hl: "holdings l = holdings ((led s)\<lparr>open_bpf := open_bpf (led s) + {#ob#}\<rparr>)" by (simp add: l(2) holdings_def)
      have la: "bpf_opened ?la = Suc ob" "xskmap ?la = xskmap (led s)" "holdings ?la = holdings ((led s)\<lparr>open_bpf := open_bpf (led s) + {#ob#}\<rparr>)"
        using hl by (cases sd; simp add: l(2))+
      note tail = bind_tail [OF l(1) assms(2) la, where idx = "ifindex ?f" and ?l0.0 = l and h = h]
      show ?thesis
      proof (cases sd)
        case Lan
        show ?thesis unfolding Lan
          by (rule tail [unfolded Lan])
            (use assms f op Some Lan in \<open>simp add: xdp_attach_bind_local_def Let_def iface_at_def split: prod.splits bool.splits\<close>)
      next
        case Wan
        show ?thesis unfolding Wan
          by (rule tail [unfolded Wan])
            (use assms f op Some Wan in \<open>simp add: xdp_attach_bind_wan_def Let_def iface_at_def split: prod.splits bool.splits\<close>)
      qed
    qed
  qed
qed

section \<open>Binding them all\<close>

definition registered :: "nat option \<Rightarrow> ne_iface \<Rightarrow> ledger \<Rightarrow> bool" where
  \<comment> \<open>every queue's socket is in the object's map, under the queue's number\<close>
  "registered ob f l \<longleftrightarrow> (case ob of None \<Rightarrow> False | Some b \<Rightarrow>
     list_all (\<lambda>q. xsk (queues f ! q) \<noteq> None \<and> xskmap l b q = xsk (queues f ! q)) [0..<queue_count f])"

definition side_bound :: "side \<Rightarrow> nat \<Rightarrow> ne_setup \<Rightarrow> bool" where
  "side_bound sd n s \<longleftrightarrow> (\<forall>j<MAX_INTERFACES. if j < n then registered (bpf_objs sd s ! j) (iface_at sd j s) (led s) \<and>
     the (bpf_objs sd s ! j) < bpf_opened (led s) else bpf_objs sd s ! j = None)"

definition attaching :: "ledger \<Rightarrow> ne_setup \<Rightarrow> nat \<Rightarrow> nat \<Rightarrow> ne_setup \<Rightarrow> bool" where
  "attaching l0 s0 nl nw s \<longleftrightarrow> booked l0 s \<and> io s = io s0 \<and> umem s = umem s0 \<and> area s = area s0 \<and> side_bound Lan nl s \<and> side_bound Wan nw s"

lemma booked_xdp_on [simp]: "booked l0 (set_xdp_on sd i b s) = booked l0 s"
proof -
  have "bpf_objs sd' (set_xdp_on sd i b s) = bpf_objs sd' s" "io (set_xdp_on sd i b s) = io s" for sd' by (cases sd; cases sd'; simp)+
  then have "sized (set_xdp_on sd i b s) = sized s" "socks (set_xdp_on sd i b s) = socks s" "bpf_held (set_xdp_on sd i b s) = bpf_held s"
    by (simp_all add: sized_def socks_alt bpf_held_alt del: ifaces.simps bpf_objs.simps)
  moreover have "led (set_xdp_on sd i b s) = led s" "umem (set_xdp_on sd i b s) = umem s" "area (set_xdp_on sd i b s) = area s"
    by (cases sd; simp)+
  ultimately show ?thesis by (simp add: booked_def)
qed

lemma registered_keep:
  assumes "registered ob f l" "the ob < bpf_opened l" "bpf_opened l \<le> bpf_opened l'" "\<forall>b<bpf_opened l. xskmap l' b = xskmap l b"
  shows "registered ob f l' \<and> the ob < bpf_opened l'"
  using assms by (cases ob) (auto simp: registered_def)

lemma side_bound_keep:
  assumes "side_bound sd n s" "bpf_objs sd s' = bpf_objs sd s" "io s' = io s" "bpf_opened (led s) \<le> bpf_opened (led s')"
    "\<forall>ob<bpf_opened (led s). xskmap (led s') ob = xskmap (led s) ob"
  shows "side_bound sd n s'"
  unfolding side_bound_def
proof (intro allI impI)
  fix j assume "j < MAX_INTERFACES"
  then have b: "if j < n then registered (bpf_objs sd s ! j) (iface_at sd j s) (led s) \<and> the (bpf_objs sd s ! j) < bpf_opened (led s)
    else bpf_objs sd s ! j = None" using assms(1) by (simp add: side_bound_def)
  have "iface_at sd j s' = iface_at sd j s" using assms(3) by (simp add: iface_at_def)
  then show "if j < n then registered (bpf_objs sd s' ! j) (iface_at sd j s') (led s') \<and> the (bpf_objs sd s' ! j) < bpf_opened (led s')
    else bpf_objs sd s' ! j = None"
    using b assms(2) registered_keep [OF _ _ assms(4,5)] by (auto split: if_splits)
qed

lemma stored_bind_booked:
  assumes "stored_bind sd i ok s s'" "booked l0 s" "i < iface_count sd (io s)" "bpf_objs sd s ! i = None"
  shows "booked l0 s'"
proof -
  obtain l' where s': "s' = (set_xdp_on sd i True (set_bpf sd i (Some (bpf_opened (led s))) s))\<lparr>led := l'\<rparr>"
    "bound_ledger (iface_at sd i s) ok (led s) l'" using assms(1) unfolding stored_bind_def by blast
  have "i < MAX_INTERFACES" using assms(2,3) by (auto simp: booked_def sized_def dest: less_le_trans)
  then have "booked l0 ((set_bpf sd i (Some (bpf_opened (led s))) s)\<lparr>led := l'\<rparr>)"
    using s'(2) assms by (intro booked_bpf) (auto simp: bound_ledger_def Let_def option_mset_def holdings_def)
  then have "booked l0 (set_xdp_on sd i True ((set_bpf sd i (Some (bpf_opened (led s))) s)\<lparr>led := l'\<rparr>))" by simp
  moreover have "set_xdp_on sd i True (s1\<lparr>led := l'\<rparr>) = (set_xdp_on sd i True s1)\<lparr>led := l'\<rparr>" for s1 :: ne_setup
    by (cases sd; cases s1) simp_all
  ultimately show ?thesis unfolding s'(1) by simp
qed

lemma stored_bind_fields:
  assumes "stored_bind sd i ok s s'"
  shows "io s' = io s" "umem s' = umem s" "area s' = area s" "bpf_objs sd s' = (bpf_objs sd s)[i := Some (bpf_opened (led s))]"
    "sd' \<noteq> sd \<Longrightarrow> bpf_objs sd' s' = bpf_objs sd' s" "bound_ledger (iface_at sd i s) ok (led s) (led s')"
  using assms unfolding stored_bind_def by (cases sd; cases sd'; auto)+

lemma failed_bind_booked: "failed_bind s s' \<Longrightarrow> booked l0 s \<Longrightarrow> booked l0 s'"
  using booked_holdings [of _ "led s" l0 s] by (auto simp: failed_bind_def)

lemma bind_step:
  assumes "xdp_attach_bind sd h cfg i s = (ok, s')" "booked l0 s" "i < iface_count sd (io s)" "side_bound sd i s"
  shows "booked l0 s' \<and> io s' = io s \<and> umem s' = umem s \<and> area s' = area s \<and>
    (ok \<longrightarrow> side_bound sd (Suc i) s' \<and> (\<forall>sd' n. sd' \<noteq> sd \<longrightarrow> side_bound sd' n s \<longrightarrow> side_bound sd' n s'))"
proof -
  have i: "i < MAX_INTERFACES" using assms(2,3) by (auto simp: booked_def sized_def dest: less_le_trans)
  then have none: "bpf_objs sd s ! i = None" using assms(4) by (simp add: side_bound_def)
  consider "\<not> ok" "failed_bind s s'" | "stored_bind sd i ok s s'" using bind_cases [OF assms(1) none] by blast
  then show ?thesis
  proof cases
    case 1
    then show ?thesis using failed_bind_booked [OF 1(2) assms(2)] by (auto simp: failed_bind_def)
  next
    case 2
    note f = stored_bind_fields [OF 2]
    have up: "bpf_opened (led s) \<le> bpf_opened (led s')" "\<forall>ob<bpf_opened (led s). xskmap (led s') ob = xskmap (led s) ob"
      using f(6) by (auto simp: bound_ledger_def Let_def)
    have "side_bound sd' n s'" if "sd' \<noteq> sd" "side_bound sd' n s" for sd' n
      by (rule side_bound_keep [OF that(2) _ f(1) up]) (use f(5) that(1) in simp)
    moreover have "side_bound sd (Suc i) s'" if ok
      unfolding side_bound_def
    proof (intro allI impI)
      fix j assume j: "j < MAX_INTERFACES"
      have new: "registered (Some (bpf_opened (led s))) (iface_at sd i s) (led s')" "bpf_opened (led s) < bpf_opened (led s')"
        using f(6) that by (auto simp: bound_ledger_def Let_def registered_def list_all_iff)
      have at: "iface_at sd k s' = iface_at sd k s" for k using f(1) by (simp add: iface_at_def)
      have len: "length (bpf_objs sd s) = MAX_INTERFACES" using assms(2) by (simp add: booked_def sized_def)
      have old: "if j < i then registered (bpf_objs sd s ! j) (iface_at sd j s) (led s') \<and> the (bpf_objs sd s ! j) < bpf_opened (led s')
        else bpf_objs sd s ! j = None"
        using assms(4) [unfolded side_bound_def, rule_format, OF j] registered_keep [OF _ _ up] by (auto split: if_splits)
      show "if j < Suc i then registered (bpf_objs sd s' ! j) (iface_at sd j s') (led s') \<and> the (bpf_objs sd s' ! j) < bpf_opened (led s')
        else bpf_objs sd s' ! j = None"
        using old new len i by (cases "j = i") (auto simp: at f(4) nth_list_update less_Suc_eq)
    qed
    ultimately show ?thesis using stored_bind_booked [OF 2 assms(2,3) none] f(1-3) by blast
  qed
qed

lemma attach_all_each:
  "xdp_attach_all h cfg s0 = run_steps (each (\<lambda>sd. xdp_attach_bind sd h cfg) (local_count (io s0)) (wan_count (io s0))) s0"
proof -
  have b: "xdp_attach_bind Lan h cfg = xdp_attach_bind_local h cfg" "xdp_attach_bind Wan h cfg = xdp_attach_bind_wan h cfg"
    by (auto intro!: ext)
  show ?thesis unfolding xdp_attach_all_def each_def b by simp
qed

lemma attaching_start:
  assumes "booked l0 s0" "bpf_held s0 = {#}"
  shows "attaching l0 s0 0 0 s0"
proof -
  have "side_bound sd 0 s0" for sd
  proof -
    have "\<forall>ob\<in>set (bpf_objs sd s0). ob = None" using assms(2)
      by (cases sd) (auto simp: bpf_held_def sum_list_mset_empty option_mset_def split: option.splits)
    then show ?thesis using assms(1) by (auto simp: side_bound_def booked_def sized_def)
  qed
  then show ?thesis using assms(1) by (simp add: attaching_def)
qed

lemma attach_all_spec:
  assumes "xdp_attach_all h cfg s0 = (ok, s)" "booked l0 s0" "bpf_held s0 = {#}"
  shows "if ok then attaching l0 s0 (local_count (io s0)) (wan_count (io s0)) s else booked l0 s \<and> io s = io s0"
proof -
  let ?J = "\<lambda>s. booked l0 s \<and> io s = io s0"
  have "steps_ok (attaching l0 s0 0 0) (each (\<lambda>sd. xdp_attach_bind sd h cfg) (local_count (io s0)) (wan_count (io s0)))
      (attaching l0 s0 (local_count (io s0)) (wan_count (io s0))) ?J"
  proof (rule steps_ok_each)
    fix i s ok s' assume i: "i < local_count (io s0)" "attaching l0 s0 i 0 s" "xdp_attach_bind Lan h cfg i s = (ok, s')"
    then show "if ok then attaching l0 s0 (Suc i) 0 s' else ?J s'"
      using bind_step [OF i(3), of l0] by (auto simp: attaching_def)
  next
    fix i s ok s' assume i: "i < wan_count (io s0)" "attaching l0 s0 (local_count (io s0)) i s" "xdp_attach_bind Wan h cfg i s = (ok, s')"
    then show "if ok then attaching l0 s0 (local_count (io s0)) (Suc i) s' else ?J s'"
      using bind_step [OF i(3), of l0] by (auto simp: attaching_def)
  qed
  then show ?thesis using assms(1) attaching_start [OF assms(2,3)] unfolding attach_all_each steps_ok_def by blast
qed

section \<open>Nothing refused\<close>

definition attach_grants :: "host \<Rightarrow> app_config \<Rightarrow> bool" where
  "attach_grants h cfg \<longleftrightarrow> (\<forall>p. h_bpf_open h p \<and> h_bpf_load h p) \<and> (\<forall>p n. h_bpf_prog h p n \<and> h_bpf_map h p n) \<and> (\<forall>n. h_bpf_flags h n) \<and>
     (\<forall>i. h_bpf_attach h i) \<and> (\<forall>fd. h_update_xskmap h fd) \<and>
     (\<forall>sd. \<forall>i<min (cfg_count sd cfg) MAX_INTERFACES. cfg_names sd cfg ! i \<noteq> [] \<and> h_ifindex h (copy_ifname (cfg_names sd cfg ! i)) \<noteq> 0)"

lemma update_loop_granted:
  assumes "\<forall>fd. h_update_xskmap h fd" "\<forall>q\<in>set qs. xsk (queues f ! q) \<noteq> None"
  shows "fst (update_xsk_map_loop h f ob qs l)"
  using assms by (induction qs arbitrary: l) (auto simp: update_xsk_map_queue_def)

lemma bind_granted:
  assumes "attach_grants h cfg" "iface_open h (cfg_names sd cfg ! i) (iface_at sd i s)" "i < iface_count sd (io s)"
    "iface_count sd (io s) = min (cfg_count sd cfg) MAX_INTERFACES"
  shows "fst (xdp_attach_bind sd h cfg i s)"
proof -
  let ?f = "iface_at sd i s"
  have "ifname ?f = copy_ifname (cfg_names sd cfg ! i)" and x: "\<forall>q<queue_count ?f. xsk (queues ?f ! q) \<noteq> None" using assms(2) by (simp_all add: iface_open_def)
  then have idx: "xdp_attach_ifindex h (ifname ?f) \<noteq> None"
    using assms(1,3,4) by (auto simp: attach_grants_def xdp_attach_ifindex_def copy_ifname_def IF_NAMESIZE_def)
  have g: "\<exists>l'. open_bpf_object h p n m l = (Some (bpf_opened l), l')" "xdp_attach_prog h k l = (True, l\<lparr>attached := (attached l)(k := True)\<rparr>)" for p n m l k
    using assms(1) by (auto simp: attach_grants_def open_bpf_object_def xdp_attach_prog_def Let_def)
  have up: "fst (update_xsk_map_iface h ?f ob l)" for ob l
    using update_loop_granted [of h "[0..<queue_count ?f]" ?f ob l] x assms(1) by (simp add: update_xsk_map_iface_def attach_grants_def)
  show ?thesis
  proof (cases sd)
    case Lan
    define s1 where "s1 = (case bpf_locals s ! i of None \<Rightarrow> s
      | Some ob \<Rightarrow> set_xdp_on Lan i False (set_bpf Lan i None (set_led (bpf_object_close ob) s)))"
    obtain l1 where "open_bpf_object h (cfg_bpf_file cfg) (if xdp_sg_enabled (locals (io s) ! i) then ''xdp_redirect_prog_frags'' else ''xdp_redirect_prog'')
      ''xsks_map'' (led s1) = (Some (bpf_opened (led s1)), l1)" using g(1) by blast
    then show ?thesis using Lan idx assms(3) up [unfolded Lan iface_at_def ifaces.simps]
      by (simp add: xdp_attach_bind_local_def Let_def iface_at_def g(2) s1_def [symmetric] split_beta)
  next
    case Wan
    obtain l1 where "open_bpf_object h (cfg_bpf_wan_file cfg) (if xdp_sg_enabled (wans (io s) ! i) then ''xdp_wan_redirect_prog_frags'' else ''xdp_wan_redirect_prog'')
      ''wan_xsks_map'' (led s) = (Some (bpf_opened (led s)), l1)" using g(1) by blast
    then show ?thesis using Wan idx assms(3) up [unfolded Wan iface_at_def ifaces.simps]
      by (simp add: xdp_attach_bind_wan_def Let_def iface_at_def g(2)  split_beta)
  qed
qed

lemma attach_all_granted:
  assumes "attach_grants h cfg" "ready h cfg l0 s0"
  shows "fst (xdp_attach_all h cfg s0)"
proof -
  have c: "iface_count sd (io s0) = min (cfg_count sd cfg) MAX_INTERFACES"
    "\<forall>i<iface_count sd (io s0). iface_open h (cfg_names sd cfg ! i) (iface_at sd i s0)" for sd
    using assms(2) unfolding ready_def by blast+
  let ?P = "\<lambda>nl nw s. attaching l0 s0 nl nw s"
  have ok: "ok \<and> booked l0 s' \<and> io s' = io s0 \<and> umem s' = umem s0 \<and> area s' = area s0 \<and> side_bound sd (Suc i) s' \<and>
      (\<forall>sd' n. sd' \<noteq> sd \<longrightarrow> side_bound sd' n s \<longrightarrow> side_bound sd' n s')"
    if "i < iface_count sd (io s0)" "booked l0 s" "io s = io s0" "umem s = umem s0" "area s = area s0" "side_bound sd i s"
      "xdp_attach_bind sd h cfg i s = (ok, s')" for i s ok s' sd
  proof -
    have "iface_open h (cfg_names sd cfg ! i) (iface_at sd i s)" using c(2) [of sd] that(1,3) by (simp add: iface_at_def)
    then have "ok" using bind_granted [OF assms(1)] c(1) [of sd] that(1,3,7) by fastforce
    then show ?thesis using bind_step [OF that(7,2)] that by simp
  qed
  have "steps_ok (?P 0 0) (each (\<lambda>sd. xdp_attach_bind sd h cfg) (local_count (io s0)) (wan_count (io s0)))
      (?P (local_count (io s0)) (wan_count (io s0))) (\<lambda>_. False)"
  proof (rule steps_ok_each)
    fix i s ok s' assume i: "i < local_count (io s0)" "?P i 0 s" "xdp_attach_bind Lan h cfg i s = (ok, s')"
    then show "if ok then ?P (Suc i) 0 s' else False" using ok [OF _ _ _ _ _ _ i(3)] by (auto simp: attaching_def)
  next
    fix i s ok s' assume i: "i < wan_count (io s0)" "?P (local_count (io s0)) i s" "xdp_attach_bind Wan h cfg i s = (ok, s')"
    then show "if ok then ?P (local_count (io s0)) (Suc i) s' else False" using ok [OF _ _ _ _ _ _ i(3)] by (auto simp: attaching_def)
  qed
  moreover have "?P 0 0 s0" by (rule attaching_start) (use assms(2) in \<open>simp_all add: ready_def\<close>)
  ultimately show ?thesis unfolding attach_all_each steps_ok_def by (metis prod.collapse)
qed

section \<open>The property\<close>

definition all_registered :: "side \<Rightarrow> ne_setup \<Rightarrow> bool" where
  "all_registered sd s \<longleftrightarrow> list_all (\<lambda>j. registered (bpf_objs sd s ! j) (iface_at sd j s) (led s)) [0..<iface_count sd (io s)]"

lemma side_bound_all: "side_bound sd (iface_count sd (io s)) s \<Longrightarrow> iface_count sd (io s) \<le> MAX_INTERFACES \<Longrightarrow> all_registered sd s"
  unfolding side_bound_def all_registered_def list_all_iff by fastforce

text \<open>C13: After opening and attaching, an XDP program's redirect reaches the interface's own sockets: for every interface on either side
  the object kept for it has, under each queue number of that interface, that queue's socket in its \<^verbatim>\<open>xsks_map\<close>. When an
  attachment fails, at whichever interface, closing the pair gives back every socket, the UMEM, the mapping and every
  BPF object.\<close>
theorem attach_registers_all_queues:
  "case ne_pair_open h cfg s0 of
     (False, s) \<Rightarrow> True
   | (True, s) \<Rightarrow> (case xdp_attach_all h cfg s of
       (True, s') \<Rightarrow> all_registered Lan s' \<and> all_registered Wan s' \<and> io s' = io s
     | (False, s') \<Rightarrow> released (led s0) (led (ne_pair_close h (Some cfg) s')))"
proof -
  obtain ok s where o: "ne_pair_open h cfg s0 = (ok, s)" by force
  obtain att s' where a: "xdp_attach_all h cfg s = (att, s')" by force
  show ?thesis
  proof (cases ok)
    case True
    then have r: "booked (led s0) s" "bpf_held s = {#}" using ne_pair_open_spec [OF o] by (simp_all add: opened_def ready_def)
    note sp = attach_all_spec [OF a r]
    have m: "iface_count sd (io s) \<le> MAX_INTERFACES" for sd using r(1) by (simp add: booked_def sized_def)
    show ?thesis
    proof (cases att)
      case True
      then have "all_registered Lan s'" "all_registered Wan s'" "io s' = io s"
        using sp side_bound_all [of Lan s'] side_bound_all [of Wan s'] m [of Lan] m [of Wan] by (auto simp: attaching_def)
      then show ?thesis using o a \<open>ok\<close> True by simp
    qed (use sp o a \<open>ok\<close> close_releases [of "led s0" s' h "Some cfg"] in simp)
  qed (use o in simp)
qed

end
