(* ===== verification/Lifecycle_Safe.thy ===== *)
theory Lifecycle_Safe
  imports Attach_Safe
begin

text \<open>
  The process gives everything back: initialisation that fails, for whatever reason and at whatever point, and a whole run of
  \<^verbatim>\<open>main\<close> end with the sockets, UMEMs, mappings and BPF objects the process started with.
\<close>

section \<open>The books and the dataplane\<close>

lemma counted_view: "counted f \<longleftrightarrow> (case iface_view f of (n, xs) \<Rightarrow> length xs = MAX_QUEUES \<and> n \<le> MAX_QUEUES \<and>
     (\<forall>q<MAX_QUEUES. n \<le> q \<longrightarrow> xs ! q = None))"
  unfolding counted_def iface_view_def by auto

lemma counted_all_view: "(\<forall>f\<in>set fs. counted f) \<longleftrightarrow> list_all (\<lambda>(n, xs). length xs = MAX_QUEUES \<and> n \<le> MAX_QUEUES \<and>
     (\<forall>q<MAX_QUEUES. n \<le> q \<longrightarrow> xs ! q = None)) (map iface_view fs)"
  by (simp add: counted_view list_all_iff)

lemma iface_socks_view: "iface_socks f = sum_list (map option_mset (snd (iface_view f)))"
  by (simp add: iface_socks_def iface_view_def comp_def queue_socks_def [abs_def] option_mset_def [abs_def])

lemma sock_view_ifaces:
  assumes "sock_view p = sock_view p'"
  shows "map iface_view (ifaces sd p) = map iface_view (ifaces sd p')" "iface_count sd p = iface_count sd p'"
  using assms by (cases sd; simp add: sock_view_def)+

lemma booked_view:
  assumes "sock_view p = sock_view (io s)"
  shows "booked l (s\<lparr>io := p\<rparr>) = booked l s"
proof -
  note v = sock_view_ifaces [OF assms]
  have "sum_list (map iface_socks (ifaces sd p)) = sum_list (map iface_socks (ifaces sd (io s)))" for sd
    using arg_cong [OF v(1) [of sd], of "\<lambda>vs. sum_list (map (\<lambda>v. sum_list (map option_mset (snd v))) vs)"] by (simp add: comp_def iface_socks_view [abs_def])
  then have "socks (s\<lparr>io := p\<rparr>) = socks s" by (simp add: socks_alt del: ifaces.simps)
  moreover have "length (ifaces sd p) = length (ifaces sd (io s))" for sd using arg_cong [OF v(1), of length] by simp
  moreover have "(\<forall>f\<in>set (ifaces sd p). counted f) = (\<forall>f\<in>set (ifaces sd (io s)). counted f)" for sd
    unfolding counted_all_view v(1) by (rule refl)
  ultimately show ?thesis by (simp add: booked_def sized_def bpf_held_alt v(2) del: ifaces.simps bpf_objs.simps)
qed

lemma released_base: "holdings l = holdings l' \<Longrightarrow> released l r = released l' r"
  by (auto simp: released_def holdings_def)

lemma booked_base: "holdings l = holdings l' \<Longrightarrow> booked l s = booked l' s"
  by (auto simp: booked_def holdings_def)

lemma released_refl [simp]: "released l l" by (simp add: released_def)

definition running_books :: "ledger \<Rightarrow> life \<Rightarrow> bool" where
  "running_books l x \<longleftrightarrow> booked l ((pr x)\<lparr>io := pair (fwd (dp x))\<rparr>)"

lemma cleanup_releases: "running_books l x \<Longrightarrow> released l (led (pr (forwarder_cleanup y cfg x)))"
  using close_releases [of l "(pr x)\<lparr>io := pair (fwd (dp x))\<rparr>"] by (simp add: running_books_def forwarder_cleanup_def set_idle_def Let_def destroy_rings_def)

section \<open>Initialisation\<close>

lemma stop_signal_fields [simp]: "pr (stop_signal y k x) = pr x" "fwd (dp (stop_signal y k x)) = fwd (dp x)"
  "rt (dp (stop_signal y k x)) = rt (dp x)" "l2 (dp (stop_signal y k x)) = l2 (dp x)" "g_tables (dp (stop_signal y k x)) = g_tables (dp x)"
  by (simp_all add: stop_signal_def forwarder_stop_def set_idle_def)

lemma set_idle_fields [simp]: "pr (set_idle f x) = pr x" "fwd (dp (set_idle f x)) = fwd (dp x)"
  "rt (dp (set_idle f x)) = rt (dp x)" "l2 (dp (set_idle f x)) = l2 (dp x)" "g_tables (dp (set_idle f x)) = g_tables (dp x)"
  "run_flag (set_idle f x) = run_flag x" "idle (dp (set_idle f x)) = f (idle (dp x))"
  by (simp_all add: set_idle_def)

lemma store_ring_pair [simp]: "pair (store_ring rid r f) = pair f"
  by (cases rid) simp_all

lemma run_steps_keep:
  assumes "\<And>f s ok s'. f \<in> set fs \<Longrightarrow> f s = (ok, s') \<Longrightarrow> g s' = g s" "run_steps fs s = (ok, s')"
  shows "g s' = g s"
  using assms
proof (induction fs arbitrary: s)
  case (Cons f fs)
  obtain ok1 s1 where f: "f s = (ok1, s1)" by force
  then have "g s1 = g s" using Cons.prems(1) [of f s ok1 s1] by simp
  moreover have "g s' = g s1" if ok1
  proof (rule Cons.IH)
    show "g s' = g s" if "f \<in> set fs" "f s = (ok, s')" for f s ok s' using Cons.prems(1) [of f s ok s'] that by simp
  qed (use Cons.prems(2) f that in simp)
  ultimately show ?case using Cons.prems(2) f by (cases ok1) auto
qed simp

lemma init_rings_pair: "init_rings y f = (ok, f') \<Longrightarrow> pair f' = pair f"
  unfolding init_rings_def by (rule run_steps_keep) (auto simp: init_ring_def split: prod.splits)

lemma prepare_holdings [simp]: "holdings (xdp_attach_prepare_init h cfg l) = holdings l"
  by (simp add: xdp_attach_prepare_init_def)

lemma set_pair_fields [simp]: "pr (set_pair s x) = s" "pair (fwd (dp (set_pair s x))) = io s" "run_flag (set_pair s x) = run_flag x"
  "fwd (dp (set_pair s x)) = (fwd (dp x))\<lparr>pair := io s\<rparr>" "rt (dp (set_pair s x)) = rt (dp x)" "l2 (dp (set_pair s x)) = l2 (dp x)"
  "g_tables (dp (set_pair s x)) = g_tables (dp x)" "idle (dp (set_pair s x)) = idle (dp x)"
  by (simp_all add: set_pair_def on_pair_def)

text \<open>The ways through \<^verbatim>\<open>forwarder_init\<close>.\<close>

lemma forwarder_init_cases:
  assumes "forwarder_init y cfg x0 = (ok, x)"
  obtains (none) "\<not> ok" "x = x0"
  | (early) "\<not> ok" "x = stop_signal y 0 x0"
  | (prepared) "\<not> ok" "x = stop_signal y 1 (init_begin y cfg (stop_signal y 0 x0))" "sys_stop y 1"
  | (refused) s where "\<not> ok" "x = set_idle ne_dp_idle_shutdown (set_pair s (init_crypto cfg (stop_signal y 1 (init_begin y cfg (stop_signal y 0 x0)))))"
      "ne_pair_open (sys_host y) cfg (pr (init_begin y cfg x0)) = (False, s)"
  | (attach) s s1 where "\<not> ok"
      "x = forwarder_cleanup y cfg (set_pair s1 (init_crypto cfg (stop_signal y 1 (init_begin y cfg (stop_signal y 0 x0)))))"
      "ne_pair_open (sys_host y) cfg (pr (init_begin y cfg x0)) = (True, s)" "xdp_attach_all (sys_host y) cfg s = (False, s1)"
  | (attached) s s1 x4 where
      "x4 = stop_signal y 2 (set_pair s1 (init_crypto cfg (stop_signal y 1 (init_begin y cfg (stop_signal y 0 x0)))))"
      "ne_pair_open (sys_host y) cfg (pr (init_begin y cfg x0)) = (True, s)" "xdp_attach_all (sys_host y) cfg s = (True, s1)"
      "(ok, x) = (if forwarder_should_stop x4 then (False, forwarder_cleanup y cfg x4)
              else case init_rings y (fwd (dp x4)) of
                (False, f) \<Rightarrow> (False, forwarder_cleanup y cfg (set_fwd f x4))
              | (True, f) \<Rightarrow> (True, (stop_signal y 3 (set_fwd f x4))\<lparr>run_flag := True\<rparr>))"
proof -
  let ?x3 = "init_crypto cfg (stop_signal y 1 (init_begin y cfg (stop_signal y 0 x0)))"
  have p: "pr ?x3 = pr (init_begin y cfg x0)" by (simp add: init_crypto_def init_begin_def)
  obtain op s where o: "ne_pair_open (sys_host y) cfg (pr (init_begin y cfg x0)) = (op, s)" by force
  obtain att s1 where a: "xdp_attach_all (sys_host y) cfg s = (att, s1)" by force
  consider "cfg_local_count cfg = 0 \<or> forwarder_should_stop (stop_signal y 0 x0)"
    | "cfg_local_count cfg \<noteq> 0" "\<not> forwarder_should_stop (stop_signal y 0 x0)"
        "forwarder_should_stop (stop_signal y 1 (init_begin y cfg (stop_signal y 0 x0)))"
    | "cfg_local_count cfg \<noteq> 0" "\<not> forwarder_should_stop (stop_signal y 0 x0)"
        "\<not> forwarder_should_stop (stop_signal y 1 (init_begin y cfg (stop_signal y 0 x0)))" by blast
  then show thesis
  proof cases
    case 1
    then show ?thesis using assms none early by (auto simp: forwarder_init_def Let_def split: if_splits)
  next
    case 2
    then have "sys_stop y 1" by (auto simp: forwarder_should_stop_def stop_signal_def init_begin_def split: if_splits)
    then show ?thesis using 2 assms prepared by (simp add: forwarder_init_def Let_def)
  next
    case 3
    then have e: "(ok, x) = (case (op, s) of
        (False, s) \<Rightarrow> (False, set_idle ne_dp_idle_shutdown (set_pair s ?x3))
      | (True, s) \<Rightarrow>
        (case (att, s1) of
           (False, s1) \<Rightarrow> (False, forwarder_cleanup y cfg (set_pair s1 ?x3))
         | (True, s1) \<Rightarrow>
             (let x4 = stop_signal y 2 (set_pair s1 ?x3) in
              if forwarder_should_stop x4 then (False, forwarder_cleanup y cfg x4)
              else case init_rings y (fwd (dp x4)) of
                (False, f) \<Rightarrow> (False, forwarder_cleanup y cfg (set_fwd f x4))
              | (True, f) \<Rightarrow> (True, (stop_signal y 3 (set_fwd f x4))\<lparr>run_flag := True\<rparr>))))"
      unfolding assms [symmetric] forwarder_init_def Let_def p o by (cases op; simp add: a)
    show ?thesis
    proof (cases op)
      case False
      then show ?thesis using e o by (intro refused) auto
    next
      case op: True
      show ?thesis
      proof (cases att)
        case False
        then show ?thesis using op e o a by (intro attach [of s1 s]) auto
      next
        case True
        then have at: "xdp_attach_all (sys_host y) cfg s = (True, s1)" "ne_pair_open (sys_host y) cfg (pr (init_begin y cfg x0)) = (True, s)"
          using a op o by simp_all
        show ?thesis by (rule attached [OF refl at(2,1)]) (use op True e in \<open>simp add: Let_def del: One_nat_def\<close>)
      qed
    qed
  qed
qed

lemma forwarder_init_books:
  assumes "forwarder_init y cfg x0 = (ok, x)"
  shows "if ok then running_books (led (pr x0)) x else released (led (pr x0)) (led (pr x))"
proof -
  let ?h = "sys_host y" and ?x3 = "init_crypto cfg (stop_signal y 1 (init_begin y cfg (stop_signal y 0 x0)))"
  let ?l = "xdp_attach_prepare_init ?h cfg (led (pr x0))"
  have l: "holdings ?l = holdings (led (pr x0))" by simp
  have led: "led (pr (init_begin y cfg x0)) = ?l" "led (pr (init_begin y cfg (stop_signal y 0 x0))) = ?l"
    by (simp_all add: init_begin_def set_led_def zero_setup_def)
  have b: "booked (led (pr x0)) s1" if "ne_pair_open ?h cfg (pr (init_begin y cfg x0)) = (True, s)" "xdp_attach_all ?h cfg s = (att, s1)" for s att s1
    using ne_pair_open_spec [OF that(1)] attach_all_spec [OF that(2), of ?l] led(1) booked_base [OF l, of s1]
    by (auto simp: opened_def ready_def attaching_def split: if_splits)
  show ?thesis
    using assms
  proof (cases rule: forwarder_init_cases)
    case prepared
    then show ?thesis using released_base [OF l, of ?l] by (simp add: led)
  next
    case (refused s)
    then show ?thesis using ne_pair_open_spec [OF refused(3)] released_base [OF l] by (simp add: led)
  next
    case (attach s s1)
    have "running_books (led (pr x0)) (set_pair s1 ?x3)" using b [OF attach(3,4)] by (simp add: running_books_def)
    then show ?thesis using attach(1,2) cleanup_releases by simp
  next
    case (attached s s1 x4)
    obtain ok1 f where r: "init_rings y (fwd (dp x4)) = (ok1, f)" by force
    have r4: "running_books (led (pr x0)) x4" using b [OF attached(2,3)] attached(1) by (simp add: running_books_def)
    moreover have "running_books (led (pr x0)) (set_fwd f x4)" using r4 init_rings_pair [OF r] by (simp add: running_books_def set_fwd_def)
    ultimately show ?thesis using attached(4) r cleanup_releases [of _ x4] cleanup_releases [of _ "set_fwd f x4"]
      by (cases ok1) (auto simp: running_books_def split: if_splits)
  qed simp_all
qed

section \<open>A whole run\<close>

lemma forwarder_run_books:
  assumes "forwarder_run y evs x = Done (lg, x')" "running_books l x"
  shows "running_books l x'"
proof -
  have keep: "running_books l (x\<lparr>dp := s\<rparr>)" if "pair_view s = pair_view (dp x)" for s
    using assms(2) booked_view [of "pair (fwd s)" "(pr x)\<lparr>io := pair (fwd (dp x))\<rparr>" l] that by (simp add: running_books_def pair_view_def)
  have stop: "running_books l (forwarder_stop z) = running_books l z" for z by (simp add: running_books_def forwarder_stop_def)
  show ?thesis
  proof (cases "forwarder_should_stop x \<or> \<not> ne_cpu_map_validate (sys_affinity y)")
    case True
    then show ?thesis using assms by (auto simp: forwarder_run_def split: if_splits)
  next
    case False
    let ?d = "(dp x)\<lparr>rt := dp_route_set_active_tx_slots (of_nat (forwarder_active_tx_slots (fwd (dp x)))) (rt (dp x))\<rparr>"
    obtain s where s: "rounds exec_event evs ?d = Done s" "x' = forwarder_stop (x\<lparr>dp := s\<rparr>)"
      using assms(1) False by (auto simp: forwarder_run_def forwarder_join_started_def Let_def cbind_eq_Done split: if_splits)
    have "pair_view s = pair_view (dp x)" using run_events_view [OF s(1)] by simp
    then show ?thesis using keep stop s(2) by simp
  qed
qed

text \<open>C8: Whatever happens, the process gives back what it took: whichever call fails during set-up, whenever a stop signal arrives,
  whichever thread cannot be created and whatever the threads and the kernel do while they run, when \<^verbatim>\<open>main\<close> returns the process
  holds the AF_XDP sockets, UMEMs, mappings and BPF objects it started with.\<close>
theorem main_releases_everything:
  assumes "main y evs l = Done (rc, x)"
  shows "released l (led (pr x))"
proof (cases "sys_calloc y \<and> static_config_build (sys_mtu y) \<noteq> None")
  case False
  then show ?thesis using assms by (auto simp: main_def boot_def zero_setup_def Let_def split: if_splits)
next
  case True
  then obtain cfg where c: "sys_calloc y" "static_config_build (sys_mtu y) = Some cfg" by auto
  obtain r v where t: "trf_pqc_init_global (sys_lib y) (l2 (dp (boot l))) = (r, v)" by force
  show ?thesis
  proof (cases r)
    case (Inl e)
    then show ?thesis using assms c t by (auto simp: main_def boot_def zero_setup_def Let_def)
  next
    case (Inr u)
    define x0 where "x0 = (boot l)\<lparr>dp := (dp (boot l))\<lparr>l2 := v\<rparr>\<rparr>"
    have l: "led (pr x0) = l" by (simp add: x0_def boot_def zero_setup_def)
    obtain ok x1 where i: "forwarder_init y cfg x0 = (ok, x1)" by force
    note b = forwarder_init_books [OF i, unfolded l]
    show ?thesis
    proof (cases ok)
      case False
      then show ?thesis using assms b c t Inr i by (auto simp: main_def Let_def simp flip: x0_def)
    next
      case True
      then obtain lg x2 where r: "forwarder_run y evs x1 = Done (lg, x2)" "led (pr x) = led (pr (forwarder_cleanup y cfg x2))"
        using assms c t Inr i by (auto simp: main_def Let_def cbind_eq_Done simp flip: x0_def)
      then show ?thesis using cleanup_releases [OF forwarder_run_books [OF r(1)]] b True by simp
    qed
  qed
qed

end
