(* ===== verification/Init_Ready.thy ===== *)
theory Init_Ready
  imports Lifecycle_Safe
begin

text \<open>
  What \<^verbatim>\<open>forwarder_init\<close> establishes: the invariants from which the theorems on the threads start. The rings between the threads are empty
  and usable, the frames not given to the kernel are in the pool, and the crypto context, the scratch buffers and
  the routing tables are in order.
\<close>

section \<open>Rings\<close>

definition clean :: "ne_packet ne_ring \<Rightarrow> bool" where
  "clean r \<longleftrightarrow> ring_ok r \<and> ring_list r = []"

definition usable :: "ne_packet ne_ring \<Rightarrow> bool" where
  "usable r \<longleftrightarrow> ring_inv r \<and> ring_list r = [] \<and> r_cap r = NE_RING"

definition row_clean :: "ne_packet ne_ring list \<Rightarrow> bool" where
  "row_clean rs \<longleftrightarrow> length rs = NE_CRYPTO_WORKERS \<and> (\<forall>r\<in>set rs. clean r)"

definition grid_clean :: "ne_packet ne_ring list list \<Rightarrow> bool" where
  "grid_clean g \<longleftrightarrow> length g = MAX_INTERFACES \<and> (\<forall>rs\<in>set g. row_clean rs)"

definition rings_clean :: "forwarder \<Rightarrow> bool" where
  "rings_clean f \<longleftrightarrow> row_clean (local_to_mid f) \<and> row_clean (wan_to_mid f) \<and> grid_clean (mid_to_local f) \<and> grid_clean (mid_to_wan f)"

definition no_rings :: "forwarder \<Rightarrow> forwarder" where
  "no_rings f = f\<lparr>local_to_mid := [], wan_to_mid := [], mid_to_wan := [], mid_to_local := []\<rparr>"

lemma usable_clean: "usable r \<Longrightarrow> clean r"
  by (simp add: usable_def clean_def ring_ok_def)

lemma zero_clean: "clean zero_ring"
  by (simp add: clean_def ring_ok_def zero_ring_def ring_list_def slots_def)

fun rid_ok :: "ring_id \<Rightarrow> bool" where
  "rid_ok (InLocal w) \<longleftrightarrow> w < NE_CRYPTO_WORKERS"
| "rid_ok (InWan w) \<longleftrightarrow> w < NE_CRYPTO_WORKERS"
| "rid_ok (OutLocal i w) \<longleftrightarrow> i < MAX_INTERFACES \<and> w < NE_CRYPTO_WORKERS"
| "rid_ok (OutWan i w) \<longleftrightarrow> i < MAX_INTERFACES \<and> w < NE_CRYPTO_WORKERS"

lemma rings_clean_lengths:
  assumes "rings_clean f"
  shows "length (local_to_mid f) = NE_CRYPTO_WORKERS" "length (wan_to_mid f) = NE_CRYPTO_WORKERS"
    "length (mid_to_local f) = MAX_INTERFACES" "length (mid_to_wan f) = MAX_INTERFACES"
    "i < MAX_INTERFACES \<Longrightarrow> length (mid_to_local f ! i) = NE_CRYPTO_WORKERS" "i < MAX_INTERFACES \<Longrightarrow> length (mid_to_wan f ! i) = NE_CRYPTO_WORKERS"
  using assms by (simp_all add: rings_clean_def row_clean_def grid_clean_def)

lemma ring_of_store:
  assumes "rings_clean f" "rid_ok rid"
  shows "ring_of rid' (store_ring rid r f) = (if rid' = rid then r else ring_of rid' f)"
  using assms(2) rings_clean_lengths [OF assms(1)] by (cases rid; cases rid') (simp_all add: nth_list_update)

lemma row_clean_put: "row_clean rs \<Longrightarrow> clean r \<Longrightarrow> row_clean (rs[w := r])"
  using set_update_subset_insert [of rs w r] by (auto simp: row_clean_def)

lemma grid_clean_put: "grid_clean g \<Longrightarrow> clean r \<Longrightarrow> i < MAX_INTERFACES \<Longrightarrow> grid_clean (g[i := (g ! i)[w := r]])"
  using set_update_subset_insert [of g i "(g ! i)[w := r]"] row_clean_put [of "g ! i" r w] by (auto simp: grid_clean_def)

lemma store_clean:
  assumes "rings_clean f" "rid_ok rid" "clean r"
  shows "rings_clean (store_ring rid r f)" "no_rings (store_ring rid r f) = no_rings f"
proof -
  show "rings_clean (store_ring rid r f)"
    using assms row_clean_put grid_clean_put unfolding rings_clean_def by (cases rid) simp_all
  show "no_rings (store_ring rid r f) = no_rings f" by (cases rid) (simp_all add: no_rings_def)
qed

lemma NE_RING_pow2: "\<not> (NE_RING = 0 \<or> NE_RING AND (NE_RING - 1) \<noteq> 0)"
  unfolding NE_RING_def by simp

lemma init_ring_step:
  assumes "init_ring y rid f = (ok, f')" "rings_clean f" "rid_ok rid"
  shows "rings_clean f' \<and> no_rings f' = no_rings f \<and>
    (ok \<longrightarrow> usable (ring_of rid f') \<and> (\<forall>rid'. usable (ring_of rid' f) \<longrightarrow> usable (ring_of rid' f')))"
proof -
  obtain a b c where s: "sys_ring y rid = (a, b, c)" by (cases "sys_ring y rid") auto
  obtain ok1 r where i: "ne_ring_init a b c zero_packet (ring_of rid f) NE_RING False = (ok1, r)" by force
  have e: "ok = ok1" "f' = store_ring rid r f" using assms(1) s i by (auto simp: init_ring_def)
  have u: "usable r" if ok1 using ring_inv_init [of a b c zero_packet "ring_of rid f" NE_RING False r] i that by (simp add: usable_def)
  moreover have "clean r" using usable_clean u i zero_clean NE_RING_pow2 by (auto simp: ne_ring_init_def split: if_splits)
  ultimately show ?thesis
    using store_clean [OF assms(2,3)] ring_of_store [OF assms(2,3)] e by auto
qed

lemma init_rings_loop:
  assumes "run_steps (map (init_ring y) ids) f = (ok, f')" "rings_clean f" "list_all rid_ok ids"
  shows "rings_clean f' \<and> no_rings f' = no_rings f \<and>
    (ok \<longrightarrow> list_all (\<lambda>rid. usable (ring_of rid f')) ids \<and> (\<forall>rid'. usable (ring_of rid' f) \<longrightarrow> usable (ring_of rid' f')))"
  using assms
proof (induction ids arbitrary: f)
  case (Cons rid ids)
  obtain ok1 f1 where s: "init_ring y rid f = (ok1, f1)" by force
  note st = init_ring_step [OF s Cons.prems(2)]
  show ?case
  proof (cases ok1)
    case True
    then show ?thesis using Cons.IH [of f1] st Cons.prems s by auto
  next
    case False
    then show ?thesis using st Cons.prems s by auto
  qed
qed simp

lemma ring_ids_ok: "nl \<le> MAX_INTERFACES \<Longrightarrow> nw \<le> MAX_INTERFACES \<Longrightarrow> list_all rid_ok (ring_ids nl nw)"
  by (auto simp: ring_ids_def list_all_iff)

definition rings_usable :: "forwarder \<Rightarrow> bool" where
  \<comment> \<open>the input rings and the output rings of the configured interfaces\<close>
  "rings_usable f \<longleftrightarrow> list_all usable (local_to_mid f) \<and> list_all usable (wan_to_mid f) \<and>
     list_all (list_all usable) (take (fwd_local_count f) (mid_to_local f)) \<and> list_all (list_all usable) (take (fwd_wan_count f) (mid_to_wan f))"

lemma in_ring_ids:
  "w < NE_CRYPTO_WORKERS \<Longrightarrow> InLocal w \<in> set (ring_ids nl nw)" "w < NE_CRYPTO_WORKERS \<Longrightarrow> InWan w \<in> set (ring_ids nl nw)"
  "i < nl \<Longrightarrow> w < NE_CRYPTO_WORKERS \<Longrightarrow> OutLocal i w \<in> set (ring_ids nl nw)"
  "i < nw \<Longrightarrow> w < NE_CRYPTO_WORKERS \<Longrightarrow> OutWan i w \<in> set (ring_ids nl nw)"
  by (auto simp: ring_ids_def image_iff)

lemma ring_ids_usable:
  assumes "rings_clean f" "list_all (\<lambda>rid. usable (ring_of rid f)) (ring_ids (fwd_local_count f) (fwd_wan_count f))"
    "fwd_local_count f \<le> MAX_INTERFACES" "fwd_wan_count f \<le> MAX_INTERFACES"
  shows "rings_usable f"
proof -
  have u: "\<And>w. w < NE_CRYPTO_WORKERS \<Longrightarrow> usable (local_to_mid f ! w) \<and> usable (wan_to_mid f ! w)"
    "\<And>i w. i < fwd_local_count f \<Longrightarrow> w < NE_CRYPTO_WORKERS \<Longrightarrow> usable (mid_to_local f ! i ! w)"
    "\<And>i w. i < fwd_wan_count f \<Longrightarrow> w < NE_CRYPTO_WORKERS \<Longrightarrow> usable (mid_to_wan f ! i ! w)"
  proof -
    have m: "rid \<in> set (ring_ids (fwd_local_count f) (fwd_wan_count f)) \<Longrightarrow> usable (ring_of rid f)" for rid using assms(2) by (simp add: list_all_iff)
    show "usable (local_to_mid f ! w) \<and> usable (wan_to_mid f ! w)" if "w < NE_CRYPTO_WORKERS" for w
      using m [OF in_ring_ids(1)] m [OF in_ring_ids(2)] that by simp
    show "usable (mid_to_local f ! i ! w)" if "i < fwd_local_count f" "w < NE_CRYPTO_WORKERS" for i w
      using m [OF in_ring_ids(3)] that by simp
    show "usable (mid_to_wan f ! i ! w)" if "i < fwd_wan_count f" "w < NE_CRYPTO_WORKERS" for i w
      using m [OF in_ring_ids(4)] that by simp
  qed
  show ?thesis unfolding rings_usable_def list_all_length using u rings_clean_lengths [OF assms(1)] assms(3,4) by simp
qed

lemma zero_rings_clean: "rings_clean (init_meta h cfg zero_forwarder)"
  using zero_clean by (simp add: rings_clean_def row_clean_def grid_clean_def init_meta_def zero_forwarder_def Let_def)

section \<open>The invariants of the threads\<close>

definition dp_ready :: "dp_state \<Rightarrow> bool" where
  \<comment> \<open>what the theorems on the worker and receive threads assume, with every frame outside the pool at the kernel\<close>
  "dp_ready s \<longleftrightarrow> owns (mset (pool_list (pool (dp_mem s)))) [] s \<and> worker_ready s \<and> rx_ok s"

lemma clean_rings_frames:
  assumes "rings_clean f"
  shows "out_frames f = {#}" "rings_ok f" "rings_frames (local_to_mid f) = {#}" "rings_frames (wan_to_mid f) = {#}"
    "rings_good P (local_to_mid f)" "rings_good P (wan_to_mid f)"
proof -
  have row: "rings_frames rs = {#}" "rings_good P rs" if "row_clean rs" for rs
    using that by (auto simp: rings_frames_def sum_list_mset_empty ring_frames_def row_clean_def clean_def rings_good_def)
  have grid: "grid_frames g = {#}" "grid_ok g" if "grid_clean g" for g
    using that row(1) by (auto simp: grid_frames_def sum_list_mset_empty rings_frames_def grid_clean_def grid_ok_def row_clean_def clean_def MAX_INTERFACES_def)
  show "out_frames f = {#}" "rings_ok f" "rings_frames (local_to_mid f) = {#}" "rings_frames (wan_to_mid f) = {#}"
    "rings_good P (local_to_mid f)" "rings_good P (wan_to_mid f)"
    using assms row grid by (simp_all add: rings_clean_def out_frames_def rings_ok_def)
qed

lemma pool_frames_fit:
  assumes "opened h cfg l s" "rings_fresh h" "m = io_mem (io s)"
  shows "pool_inv (pool m)" "size (mset (pool_list (pool m))) \<le> unat (pl_cap (pool m))" "frame_size m = 4096"
    "a \<in> set (pool_list (pool m)) \<Longrightarrow> unat a + 4096 \<le> length (bufs m)"
proof -
  have r: "frame_size m = 4096" "length (bufs m) = 2147483648" and f: "filled (io s)" using assms by (simp_all add: opened_def ready_def)
  define n where "n = (local_queue_total (io s) + wan_queue_total (io s)) *
    prefill_per_queue 524288 (local_queue_total (io s) + wan_queue_total (io s))"
  have p: "pool_inv (pool m)" "pl_cap (pool m) = 524288" "pool_list (pool m) = frames_from n (524288 - n)" "n \<le> 393216"
    using f by (simp_all add: filled_def Let_def assms(3) n_def)
  show "pool_inv (pool m)" "frame_size m = 4096" using p r by simp_all
  show "size (mset (pool_list (pool m))) \<le> unat (pl_cap (pool m))" unfolding p(2,3) by (simp add: frames_from_def)
  show "unat a + 4096 \<le> length (bufs m)" if "a \<in> set (pool_list (pool m))"
  proof -
    have "a \<in> (\<lambda>k. of_nat k * 4096) ` set [n..<524288]" using that p(4) unfolding p(3) frames_from_def by (simp del: upt_rec_numeral)
    then obtain k where k: "a = of_nat k * 4096" "k < 524288" by auto
    have "unat a = k * 4096" unfolding k(1) by (subst unat_mult_lem [THEN iffD1]) (use k(2) in \<open>simp_all add: unat_of_nat\<close>)
    then show ?thesis using k(2) r(2) by simp
  qed
qed

lemma init_meta_fields [simp]:
  "crypto (init_meta h cfg f) = crypto f" "crypto_buf (init_meta h cfg f) = crypto_buf f" "crypto_aux (init_meta h cfg f) = crypto_aux f"
  "fwd_local_count (init_meta h cfg f) = min (cfg_local_count cfg) MAX_INTERFACES" "fwd_wan_count (init_meta h cfg f) = min (cfg_wan_count cfg) MAX_INTERFACES"
  by (simp_all add: init_meta_def Let_def min_def)

lemma no_rings_fields:
  assumes "no_rings f' = no_rings f"
  shows "crypto f' = crypto f" "crypto_buf f' = crypto_buf f" "crypto_aux f' = crypto_aux f" "pair f' = pair f"
    "fwd_local_count f' = fwd_local_count f" "fwd_wan_count f' = fwd_wan_count f"
  using arg_cong [OF assms, of crypto] arg_cong [OF assms, of crypto_buf] arg_cong [OF assms, of crypto_aux] arg_cong [OF assms, of pair]
    arg_cong [OF assms, of fwd_local_count] arg_cong [OF assms, of fwd_wan_count] by (simp_all add: no_rings_def)

lemma dp_readyI:
  assumes "opened h cfg l s" "rings_fresh h" "io_mem (pair (fwd d)) = io_mem (io s)" "rings_clean (fwd d)"
    and "worker_ready d" "rx_ok d"
  shows "dp_ready d"
proof -
  let ?m = "io_mem (pair (fwd d))" and ?F = "mset (pool_list (pool (dp_mem d)))"
  note p = pool_frames_fit [OF assms(1-3)]
  note c = clean_rings_frames [OF assms(4)]
  have m: "dp_mem d = ?m" by (simp add: dp_mem_def)
  have "holds ?F [] d" using p c(1,2) unfolding holds_def dp_frames_def by (simp add: m frames_of_def)
  moreover have "fits False ?F d" using p unfolding fits_def by (simp add: m)
  ultimately have "owns ?F [] d" using c(3-6) by (intro ownsI [of _ _ _ ?F]) simp_all
  then show ?thesis using assms(5,6) by (simp add: dp_ready_def)
qed

text \<open>C10: Successful initialisation establishes the invariants from which the threads start: the frames of the pool and of all rings are together
  the pool, every input and output ring of a configured interface is an empty ring of 16384 slots, the key is loaded, the
  scratch buffers have their size, the routing tables are consistent, and \<^verbatim>\<open>running\<close> is set.\<close>
theorem forwarder_init_ready:
  assumes "forwarder_init y cfg x0 = (True, x)" "rings_fresh (sys_host y)" "length (cfg_key cfg) = 32"
    and "trf_ok (l2 (dp x0))" "tables_ok (g_tables (dp x0))" "rx_ok (dp x0)"
  shows "dp_ready (dp x) \<and> run_flag x \<and> rings_usable (fwd (dp x))"
  using assms(1)
proof (cases rule: forwarder_init_cases)
  case (attached s s1 x4)
  obtain ok1 f where r: "init_rings y (fwd (dp x4)) = (ok1, f)" by force
  then have ok: ok1 "x = (stop_signal y 3 (set_fwd f x4))\<lparr>run_flag := True\<rparr>" using attached(4) by (auto split: if_splits bool.splits)
  let ?f = "fwd (dp x4)"
  have f: "?f = (init_meta (sys_host y) cfg zero_forwarder)\<lparr>crypto := packet_crypto_init (cfg_key cfg), pair := io s1\<rparr>"
    unfolding attached(1) by (simp add: init_crypto_def init_begin_def)
  have clean: "rings_clean ?f" using zero_rings_clean [of "sys_host y" cfg] unfolding f by (simp add: rings_clean_def)
  have "list_all rid_ok (ring_ids (fwd_local_count ?f) (fwd_wan_count ?f))" by (rule ring_ids_ok) (simp_all add: f)
  then have i: "rings_clean f" "no_rings f = no_rings ?f" "list_all (\<lambda>rid. usable (ring_of rid f)) (ring_ids (fwd_local_count ?f) (fwd_wan_count ?f))"
    using init_rings_loop [OF r [unfolded init_rings_def] clean] ok(1) by blast+
  note n = no_rings_fields [OF i(2)]
  let ?l = "led (pr (init_begin y cfg x0))"
  have op: "opened (sys_host y) cfg ?l s" using ne_pair_open_spec [OF attached(2)] by simp
  have "io s1 = io s" using attach_all_spec [OF attached(3), of ?l] op by (auto simp: opened_def ready_def attaching_def)
  have x: "fwd (dp x) = f" "l2 (dp x) = l2 (dp x0)" "g_tables (dp x) = g_tables (dp x0)" "rt (dp x) = rt (dp x0)" "run_flag x"
    unfolding ok(2) by (simp_all add: set_fwd_def attached(1) init_crypto_def init_begin_def)
  have "worker_ready (dp x)"
    using assms(3-5) unfolding worker_ready_def x n f by (simp add: ctx_ok_def packet_crypto_init_def bufs_ok_def zero_forwarder_def)
  moreover have "rx_ok (dp x)" using assms(6) by (simp add: rx_ok_def x)
  ultimately have "dp_ready (dp x)"
    by (intro dp_readyI [OF op assms(2)]) (use \<open>io s1 = io s\<close> i(1) n(4) in \<open>simp_all add: x f\<close>)
  moreover have "rings_usable f" by (rule ring_ids_usable [OF i(1)]) (use i(3) n(5,6) in \<open>simp_all add: f\<close>)
  ultimately show ?thesis using x by simp
qed simp_all

lemma forwarder_init_granted:
  assumes "host_grants (sys_host y) cfg" "attach_grants (sys_host y) cfg" "\<forall>rid. sys_ring y rid = (True, True, True)"
    "\<not> sys_stop y 0" "\<not> sys_stop y 1" "\<not> sys_stop y 2" "run_flag x0" "cfg_local_count cfg \<noteq> 0"
  shows "fst (forwarder_init y cfg x0)"
proof -
  obtain ok x where r: "forwarder_init y cfg x0 = (ok, x)" by force
  have first: "\<not> forwarder_should_stop (stop_signal y 0 x0)" using assms(4,7) by (simp add: stop_signal_def forwarder_should_stop_def)
  have second: "\<not> forwarder_should_stop (stop_signal y 1 (init_begin y cfg (stop_signal y 0 x0)))"
    using assms(4,5,7) by (simp add: stop_signal_def forwarder_should_stop_def init_begin_def)
  obtain op s where o: "ne_pair_open (sys_host y) cfg (pr (init_crypto cfg (stop_signal y 1 (init_begin y cfg (stop_signal y 0 x0))))) = (op, s)" by force
  have op: op "ready (sys_host y) cfg (led (pr (init_crypto cfg (stop_signal y 1 (init_begin y cfg (stop_signal y 0 x0)))))) s"
    using ne_pair_open_spec [OF o] assms(1,8) by (auto simp: opened_def split: if_splits)
  obtain s1 where a: "xdp_attach_all (sys_host y) cfg s = (True, s1)"
    using attach_all_granted [OF assms(2) op(2)] by (cases "xdp_attach_all (sys_host y) cfg s") simp
  let ?x4 = "stop_signal y 2 (set_pair s1 (init_crypto cfg (stop_signal y 1 (init_begin y cfg (stop_signal y 0 x0)))))"
  have "\<not> forwarder_should_stop ?x4" using assms(6) second by (simp add: stop_signal_def forwarder_should_stop_def init_crypto_def)
  moreover have "fst (run_steps (map (init_ring y) ids) f)" for ids f
    using assms(3) NE_RING_pow2 by (induction ids arbitrary: f) (simp_all add: init_ring_def ne_ring_init_def)
  then have "fst (init_rings y (fwd (dp ?x4)))" by (simp add: init_rings_def)
  ultimately show ?thesis using assms(8) first second o op(1) a unfolding forwarder_init_def Let_def
    by (cases "init_rings y (fwd (dp ?x4))") (simp del: One_nat_def)
qed

section \<open>Stop requests and joins\<close>

text \<open>A stop request that arrives after the last check of \<^verbatim>\<open>forwarder_init\<close> is overwritten by its final store: the threads are
  started and run.\<close>

theorem late_stop_request_lost:
  assumes "forwarder_init y cfg x0 = (True, x)" "sys_stop y 3"
  shows "\<not> forwarder_should_stop x"
  using assms(1)
proof (cases rule: forwarder_init_cases)
  case (attached s s1 x4)
  then show ?thesis by (auto simp: forwarder_should_stop_def split: if_splits prod.splits bool.splits)
qed simp_all

text \<open>A stop request during \<^verbatim>\<open>xdp_attach_prepare_init\<close> makes \<^verbatim>\<open>forwarder_init\<close> return without closing the event descriptors it
  opened.\<close>

theorem early_stop_keeps_eventfds:
  assumes "run_flag x0" "\<not> g_ready (idle (dp x0))" "cfg_local_count cfg \<noteq> 0" "\<not> sys_stop y 0" "sys_stop y 1"
  shows "\<exists>x. forwarder_init y cfg x0 = (False, x) \<and> g_ready (idle (dp x)) \<and> g_efd (idle (dp x)) = map (sys_efd y) [0..<NE_DP_WAKE_N]"
proof -
  have keep: "g_ready (ne_dp_idle_wake_all g) = g_ready g \<and> g_efd (ne_dp_idle_wake_all g) = g_efd g" for g
  proof -
    have "g_ready (fold (\<lambda>i g. if g_efd g ! i < 0 then g else eventfd_signal i (g\<lparr>g_sleeping := (g_sleeping g)[i := True]\<rparr>)) js g) = g_ready g \<and>
      g_efd (fold (\<lambda>i g. if g_efd g ! i < 0 then g else eventfd_signal i (g\<lparr>g_sleeping := (g_sleeping g)[i := True]\<rparr>)) js g) = g_efd g" for js
      by (induction js arbitrary: g) (simp_all add: eventfd_signal_def)
    then show ?thesis by (simp add: ne_dp_idle_wake_all_def)
  qed
  have "stop_signal y 0 x0 = x0" using assms(4) by (simp add: stop_signal_def)
  then show ?thesis using assms keep
    by (simp add: forwarder_init_def forwarder_should_stop_def stop_signal_def forwarder_stop_def init_begin_def ne_dp_idle_init_def Let_def)
qed

text \<open>With fewer than four transmit queues \<^verbatim>\<open>forwarder_run\<close> joins transmit threads it never created.\<close>

theorem run_joins_threads_never_started:
  assumes "forwarder_run y evs x = Done (lg, x')" "run_flag x" "ne_cpu_map_validate (sys_affinity y)" "\<forall>t. sys_create y t"
    and "forwarder_active_tx_slots (fwd (dp x)) < NE_TX_SLOTS"
  shows "Tx 3 \<in> set (joined lg) \<and> Tx 3 \<notin> set (started lg)"
proof -
  have "takeWhile (sys_create y) ts = ts" for ts using assms(4) by (simp add: takeWhile_eq_all_conv)
  then have "lg = \<lparr>started = planned_threads (fwd (dp x)), joined = joined_threads (fwd (dp x))\<rparr>"
    using assms(1-3) by (auto simp: forwarder_run_def forwarder_should_stop_def Let_def cbind_eq_Done)
  then show ?thesis using assms(5) by (auto simp: planned_threads_def joined_threads_def)
qed

section \<open>A concrete run\<close>

definition demo_sys :: "bool sys" where
  "demo_sys = \<lparr>sys_host = demo_host, sys_busy = None, sys_efd = (\<lambda>i. int i + 20), sys_stop = (\<lambda>_. False), sys_ring = (\<lambda>_. (True, True, True)),
     sys_create = (\<lambda>_. True), sys_affinity = Some (\<lambda>_. True), sys_lib = demo_api, sys_mtu = (\<lambda>_. Some 9000), sys_calloc = True\<rparr>"

definition demo_boot :: life where
  "demo_boot = (boot empty_ledger)\<lparr>dp := (dp (boot empty_ledger))\<lparr>l2 := zero_l2\<lparr>initialized := True\<rparr>\<rparr>\<rparr>"

lemma demo_attach_grants: "attach_grants demo_host demo_cfg"
proof -
  have "cfg_count sd demo_cfg = 1" "cfg_names sd demo_cfg ! 0 \<noteq> []" "h_ifindex demo_host (copy_ifname (cfg_names sd demo_cfg ! 0)) \<noteq> 0" for sd
    by (cases sd; simp add: demo_cfg_def demo_host_def copy_ifname_def IF_NAMESIZE_def)+
  then show ?thesis by (simp add: attach_grants_def MAX_INTERFACES_def) (simp add: demo_host_def)
qed

lemma demo_init:
  assumes "\<not> st 0" "\<not> st 1" "\<not> st 2"
  obtains x where "forwarder_init (demo_sys\<lparr>sys_stop := st\<rparr>) demo_cfg demo_boot = (True, x)"
proof -
  have "fst (forwarder_init (demo_sys\<lparr>sys_stop := st\<rparr>) demo_cfg demo_boot)"
    by (rule forwarder_init_granted) (use assms demo_grants demo_attach_grants in \<open>simp_all add: demo_sys_def demo_boot_def boot_def demo_cfg_def\<close>)
  then show ?thesis using that by (cases "forwarder_init (demo_sys\<lparr>sys_stop := st\<rparr>) demo_cfg demo_boot") simp
qed

lemma run_no_events: "\<exists>lg x'. forwarder_run y [] x = Done (lg, x')"
  by (simp add: forwarder_run_def forwarder_join_started_def Let_def)

lemma demo_sys_quiet: "demo_sys\<lparr>sys_stop := \<lambda>_. False\<rparr> = demo_sys"
  by (simp add: demo_sys_def)

lemma demo_rx_ok: "rx_ok (dp demo_boot)" "trf_ok (l2 (dp demo_boot))" "tables_ok (g_tables (dp demo_boot))"
  using route_init_inv by (simp_all add: rx_ok_def demo_boot_def boot_def trf_ok_def zero_l2_def tables_ok_def route_init_def dp_crypto_current_worker_idx_def)

theorem forwarder_init_ready_witness:
  "\<exists>x. forwarder_init demo_sys demo_cfg demo_boot = (True, x) \<and> dp_ready (dp x) \<and> rings_usable (fwd (dp x)) \<and> run_flag x"
proof -
  obtain x where x: "forwarder_init demo_sys demo_cfg demo_boot = (True, x)" using demo_init [of "\<lambda>_. False"] by (auto simp: demo_sys_quiet)
  have "sys_host demo_sys = demo_host" "length (cfg_key demo_cfg) = 32" by (simp_all add: demo_sys_def demo_cfg_def)
  then show ?thesis using forwarder_init_ready [OF x _ _ demo_rx_ok(2,3,1)] demo_rings_fresh x by auto
qed

theorem late_stop_request_lost_witness:
  "\<exists>x. forwarder_init (demo_sys\<lparr>sys_stop := \<lambda>k. k = 3\<rparr>) demo_cfg demo_boot = (True, x) \<and> \<not> forwarder_should_stop x"
proof -
  obtain x where x: "forwarder_init (demo_sys\<lparr>sys_stop := \<lambda>k. k = 3\<rparr>) demo_cfg demo_boot = (True, x)" using demo_init [of "\<lambda>k. k = 3"] by auto
  then show ?thesis using late_stop_request_lost [OF x] by auto
qed

theorem main_releases_everything_witness:
  "\<exists>x. main demo_sys [] empty_ledger = Done (0, x) \<and> released empty_ledger (led (pr x))"
proof -
  obtain x1 where x1: "forwarder_init demo_sys demo_cfg demo_boot = (True, x1)" using demo_init [of "\<lambda>_. False"] by (auto simp: demo_sys_quiet)
  have c: "static_config_build (sys_mtu demo_sys) = Some demo_cfg" "sys_calloc demo_sys" "sys_lib demo_sys = demo_api"
    by (simp_all add: static_config_build_def demo_sys_def demo_cfg_def require_mtu_9000_def copy_ifname_def IF_NAMESIZE_def NE_L2_FAKE_ETHERTYPE_def Let_def)
  have t: "trf_pqc_init_global demo_api (l2 (dp (boot empty_ledger))) = (Inr (), zero_l2\<lparr>initialized := True\<rparr>)"
    by (simp add: trf_pqc_init_global_def boot_def zero_l2_def demo_api_def)
  obtain lg x2 where r: "forwarder_run demo_sys [] x1 = Done (lg, x2)" using run_no_events by blast
  then obtain x where "main demo_sys [] empty_ledger = Done (0, x)"
    using c t x1 by (simp add: main_def Let_def demo_boot_def)
  then show ?thesis using main_releases_everything by blast
qed

theorem run_joins_threads_never_started_witness:
  "\<exists>lg x'. forwarder_run demo_sys [] \<lparr>run_flag = True, pr = zero_setup empty_ledger, dp = work_state ping\<rparr> = Done (lg, x') \<and>
     Tx 3 \<in> set (joined lg) \<and> Tx 3 \<notin> set (started lg)"
proof -
  let ?x = "\<lparr>run_flag = True, pr = zero_setup empty_ledger, dp = work_state ping\<rparr>"
  have v: "ne_cpu_map_validate (sys_affinity demo_sys)" "\<forall>t. sys_create demo_sys t" "run_flag ?x"
    using cpu_map_validate_iff [of "Some (\<lambda>_. True)"] by (simp_all add: demo_sys_def)
  have a: "forwarder_active_tx_slots (fwd (dp ?x)) < NE_TX_SLOTS"
    by (simp add: forwarder_active_tx_slots_def live_queue_counts_def work_state_def demo_io_def demo_iface_def upt_conv_Cons Let_def)
  obtain lg x' where "forwarder_run demo_sys [] ?x = Done (lg, x')" using run_no_events by blast
  then show ?thesis using run_joins_threads_never_started [OF _ v(3,1,2) a] by blast
qed

theorem early_stop_keeps_eventfds_witness:
  "\<exists>x. forwarder_init (demo_sys\<lparr>sys_stop := \<lambda>k. k = 1\<rparr>) demo_cfg demo_boot = (False, x) \<and> g_ready (idle (dp x))"
  using early_stop_keeps_eventfds [of demo_boot demo_cfg "demo_sys\<lparr>sys_stop := \<lambda>k. k = 1\<rparr>"]
  by (auto simp: demo_boot_def boot_def idle_zero_def demo_cfg_def)

end
