(* ===== verification/Stats.thy ===== *)
theory Stats
  imports Host
begin

text \<open>
  Socket statistics (\<^verbatim>\<open>xdp_stats_add\<close>, \<^verbatim>\<open>collect_xdp_stats\<close> and \<^verbatim>\<open>ne_pair_xdp_socket_stats\<close> of \<^verbatim>\<open>src/core/iface/xdp_interface.c\<close>): the
  counters of all sockets of a side are added up, each socket once. \<open>ask\<close> is \<^verbatim>\<open>getsockopt\<close> with \<^verbatim>\<open>XDP_STATISTICS\<close> by
  descriptor, \<open>None\<close> when it fails.
\<close>

record xdp_statistics =
  st_rx_dropped :: u64
  st_rx_invalid_descs :: u64
  st_tx_invalid_descs :: u64
  st_rx_ring_full :: u64
  st_rx_fill_ring_empty_descs :: u64
  st_tx_ring_empty_descs :: u64

record ne_xdp_socket_stats =
  sockets_queried :: u32
  query_errors :: u32
  rx_dropped :: u64
  rx_invalid_descs :: u64
  tx_invalid_descs :: u64
  rx_ring_full :: u64
  rx_fill_ring_empty_descs :: u64
  tx_ring_empty_descs :: u64

definition zero_stats :: ne_xdp_socket_stats where
  "zero_stats = \<lparr>sockets_queried = 0, query_errors = 0, rx_dropped = 0, rx_invalid_descs = 0, tx_invalid_descs = 0, rx_ring_full = 0,
     rx_fill_ring_empty_descs = 0, tx_ring_empty_descs = 0\<rparr>"

definition xdp_stats_add :: "ne_xdp_socket_stats \<Rightarrow> xdp_statistics \<Rightarrow> ne_xdp_socket_stats" where
  "xdp_stats_add dst src = dst\<lparr>
     rx_dropped := rx_dropped dst + st_rx_dropped src,
     rx_invalid_descs := rx_invalid_descs dst + st_rx_invalid_descs src,
     tx_invalid_descs := tx_invalid_descs dst + st_tx_invalid_descs src,
     rx_ring_full := rx_ring_full dst + st_rx_ring_full src,
     rx_fill_ring_empty_descs := rx_fill_ring_empty_descs dst + st_rx_fill_ring_empty_descs src,
     tx_ring_empty_descs := tx_ring_empty_descs dst + st_tx_ring_empty_descs src\<rparr>"

text \<open>The body of the inner loop: \<open>seen\<close> is \<^verbatim>\<open>seen_fds\<close> up to \<^verbatim>\<open>seen_count\<close>.\<close>

definition stats_queue ::
  "(int \<Rightarrow> xdp_statistics option) \<Rightarrow> int option \<Rightarrow> int list \<times> ne_xdp_socket_stats \<Rightarrow> int list \<times> ne_xdp_socket_stats" where
  "stats_queue ask sock = (\<lambda>(seen, out).
     case sock of
       None \<Rightarrow> (seen, out)
     | Some fd \<Rightarrow>
         if fd < 0 then (seen, out)
         else if fd \<in> set seen then (seen, out)
         else let seen1 = (if length seen < MAX_INTERFACES * MAX_QUEUES then seen @ [fd] else seen);
                  out1 = out\<lparr>sockets_queried := sockets_queried out + 1\<rparr> in
           (case ask fd of
              Some st \<Rightarrow> (seen1, xdp_stats_add out1 st)
            | None \<Rightarrow> (seen1, out1\<lparr>query_errors := query_errors out1 + 1\<rparr>)))"

definition collect_xdp_stats :: "(int \<Rightarrow> xdp_statistics option) \<Rightarrow> ne_iface list \<Rightarrow> nat \<Rightarrow> ne_xdp_socket_stats" where
  "collect_xdp_stats ask fs n =
     snd (fold (\<lambda>i. fold (\<lambda>q. stats_queue ask (xsk (queues (fs ! i) ! q))) [0..<queue_count (fs ! i)]) [0..<n] ([], zero_stats))"

definition ne_pair_xdp_socket_stats :: "(int \<Rightarrow> xdp_statistics option) \<Rightarrow> ne_pair_io \<Rightarrow> ne_xdp_socket_stats \<times> ne_xdp_socket_stats" where
  "ne_pair_xdp_socket_stats ask p = (collect_xdp_stats ask (locals p) (local_count p), collect_xdp_stats ask (wans p) (wan_count p))"

section \<open>Each socket counts once\<close>

definition socks_in :: "ne_iface list \<Rightarrow> nat \<Rightarrow> int option list" where
  "socks_in fs n = concat (map (\<lambda>i. map (\<lambda>q. xsk (queues (fs ! i) ! q)) [0..<queue_count (fs ! i)]) [0..<n])"

text \<open>The sums over a set of descriptors, modulo the width of each counter.\<close>

definition tally :: "(int \<Rightarrow> xdp_statistics option) \<Rightarrow> int set \<Rightarrow> ne_xdp_socket_stats" where
  "tally ask S = (let ok = \<lambda>g. (\<Sum>fd\<in>S. case ask fd of None \<Rightarrow> 0 | Some st \<Rightarrow> g st) in
     \<lparr>sockets_queried = of_nat (card S), query_errors = of_nat (card {fd \<in> S. ask fd = None}), rx_dropped = ok st_rx_dropped,
      rx_invalid_descs = ok st_rx_invalid_descs, tx_invalid_descs = ok st_tx_invalid_descs, rx_ring_full = ok st_rx_ring_full,
      rx_fill_ring_empty_descs = ok st_rx_fill_ring_empty_descs, tx_ring_empty_descs = ok st_tx_ring_empty_descs\<rparr>)"

lemma tally_insert:
  assumes "finite S" "fd \<notin> S"
  shows "tally ask (insert fd S) = (let out1 = (tally ask S)\<lparr>sockets_queried := sockets_queried (tally ask S) + 1\<rparr> in
    case ask fd of Some st \<Rightarrow> xdp_stats_add out1 st | None \<Rightarrow> out1\<lparr>query_errors := query_errors out1 + 1\<rparr>)"
proof -
  have "{x. (x = fd \<or> x \<in> S) \<and> ask x = None} = (if ask fd = None then insert fd {x \<in> S. ask x = None} else {x \<in> S. ask x = None})" by auto
  then show ?thesis using assms by (cases "ask fd") (simp_all add: tally_def xdp_stats_add_def Let_def ac_simps)
qed

definition fds_of :: "int option list \<Rightarrow> int set" where
  "fds_of os = {fd. Some fd \<in> set os \<and> 0 \<le> fd}"

lemma stats_fold:
  assumes "length seen + length os \<le> MAX_INTERFACES * MAX_QUEUES"
  shows "snd (fold (stats_queue ask) os (seen, tally ask (set seen))) = tally ask (set seen \<union> fds_of os)"
  using assms
proof (induction os arbitrary: seen)
  case (Cons x os)
  show ?case
  proof (cases "\<exists>fd. x = Some fd \<and> 0 \<le> fd \<and> fd \<notin> set seen")
    case False
    then have "stats_queue ask x (seen, tally ask (set seen)) = (seen, tally ask (set seen))" by (auto simp: stats_queue_def split: option.split)
    moreover have "set seen \<union> fds_of (x # os) = set seen \<union> fds_of os" using False by (auto simp: fds_of_def)
    ultimately show ?thesis using Cons by simp
  next
    case True
    then obtain fd where fd: "x = Some fd" "0 \<le> fd" "fd \<notin> set seen" by blast
    have "length seen < MAX_INTERFACES * MAX_QUEUES" using Cons.prems by simp
    then have "stats_queue ask x (seen, tally ask (set seen)) = (seen @ [fd], tally ask (set (seen @ [fd])))"
      using fd tally_insert [of "set seen" fd ask] by (simp add: stats_queue_def Let_def split: option.split)
    moreover have "set seen \<union> fds_of (x # os) = set (seen @ [fd]) \<union> fds_of os" using fd by (auto simp: fds_of_def)
    ultimately show ?thesis using Cons.IH [of "seen @ [fd]"] Cons.prems by (simp add: fd(1))
  qed
qed (simp add: fds_of_def)

lemma collect_flat: "collect_xdp_stats ask fs n = snd (fold (stats_queue ask) (socks_in fs n) ([], tally ask (set [])))"
proof -
  have "fold (\<lambda>i. fold (\<lambda>q. stats_queue ask (xsk (queues (fs ! i) ! q))) [0..<queue_count (fs ! i)]) is st =
      fold (stats_queue ask) (concat (map (\<lambda>i. map (\<lambda>q. xsk (queues (fs ! i) ! q)) [0..<queue_count (fs ! i)]) is)) st" for "is" st
    by (induction "is" arbitrary: st) (simp_all add: fold_map comp_def)
  moreover have "tally ask {} = zero_stats" by (simp add: tally_def zero_stats_def)
  ultimately show ?thesis by (simp add: collect_xdp_stats_def socks_in_def)
qed

lemma socks_in_length:
  assumes "n \<le> MAX_INTERFACES" "list_all (\<lambda>f. queue_count f \<le> MAX_QUEUES) (take n fs)" "n \<le> length fs"
  shows "length (socks_in fs n) \<le> MAX_INTERFACES * MAX_QUEUES"
proof -
  have "sum_list (map (\<lambda>i. queue_count (fs ! i)) [0..<n]) \<le> sum_list (map (\<lambda>_. MAX_QUEUES) [0..<n])"
    by (rule sum_list_mono) (use assms(2,3) in \<open>auto simp: list_all_length\<close>)
  also have "\<dots> \<le> MAX_INTERFACES * MAX_QUEUES" using assms(1) by (simp add: sum_list_triv)
  finally show ?thesis by (simp add: socks_in_def length_concat comp_def)
qed

text \<open>C40: Statistics count every socket once: the result for a side is the sum, modulo the counters' widths, of the kernel's counters over the
  set of the side's valid socket descriptors, with the number of those descriptors and of the failed queries; the
  table of descriptors seen never overflows.\<close>
theorem xdp_stats_each_socket_once:
  assumes "n \<le> MAX_INTERFACES" "list_all (\<lambda>f. queue_count f \<le> MAX_QUEUES) (take n fs)" "n \<le> length fs"
  shows "collect_xdp_stats ask fs n = tally ask (fds_of (socks_in fs n))"
  using stats_fold [of "[]" "socks_in fs n" ask] socks_in_length [OF assms] by (simp add: collect_flat)

text \<open>Two queues that share a socket, one without, one with a failing query.\<close>

definition stats_iface :: ne_iface where
  "stats_iface = zero_iface\<lparr>queue_count := 4, queues :=
     [zero_queue\<lparr>xsk := Some 7\<rparr>, zero_queue\<lparr>xsk := Some 7\<rparr>, zero_queue, zero_queue\<lparr>xsk := Some 9\<rparr>]\<rparr>"

definition stats_answer :: "int \<Rightarrow> xdp_statistics option" where
  "stats_answer fd = (if fd = 7 then Some \<lparr>st_rx_dropped = 5, st_rx_invalid_descs = 0, st_tx_invalid_descs = 1, st_rx_ring_full = 2,
     st_rx_fill_ring_empty_descs = 3, st_tx_ring_empty_descs = 4\<rparr> else None)"

theorem xdp_stats_each_socket_once_witness:
  "collect_xdp_stats stats_answer [stats_iface] 1 = tally stats_answer {7, 9} \<and>
   sockets_queried (collect_xdp_stats stats_answer [stats_iface] 1) = 2 \<and> query_errors (collect_xdp_stats stats_answer [stats_iface] 1) = 1"
proof -
  have "[0..<4::nat] = [0,1,2,3]" by (simp add: upt_rec)
  then have s: "socks_in [stats_iface] 1 = [Some 7, Some 7, None, Some 9]" by (simp add: socks_in_def stats_iface_def zero_queue_def)
  have f: "fds_of (socks_in [stats_iface] 1) = {7, 9}" unfolding s by (auto simp: fds_of_def)
  have "collect_xdp_stats stats_answer [stats_iface] 1 = tally stats_answer {7, 9}"
    using xdp_stats_each_socket_once [of 1 "[stats_iface]" stats_answer] f by (simp add: MAX_INTERFACES_def MAX_QUEUES_def stats_iface_def)
  moreover have "{fd. (fd = 7 \<or> fd = 9) \<and> stats_answer fd = None} = {9}" by (auto simp: stats_answer_def)
  ultimately show ?thesis by (simp add: tally_def Let_def)
qed

end
