(* ===== verification/Bpf.thy ===== *)
theory Bpf
  imports Dataplane_E2E Forwarder_Safe
begin

text \<open>
  The two XDP programs, \<^verbatim>\<open>bpf/lan.c\<close> and \<^verbatim>\<open>bpf/wan.c\<close>, which decide in the driver which frames enter the dataplane.
  A frame is its linear part (the bytes between \<^verbatim>\<open>data\<close> and \<^verbatim>\<open>data_end\<close>), its whole length
  (\<^verbatim>\<open>xdp_get_buff_len\<close>) and the receive queue; \<open>Redirect q\<close> is the call \<^verbatim>\<open>bpf_redirect_map(&map, q, 0)\<close>.
\<close>

record xdp_md =
  xd_data :: bytes
  xd_len :: nat
  rx_queue_index :: nat

datatype xdp_verdict = XDP_PASS | XDP_DROP | Redirect nat

definition lan_redirect :: "xdp_md \<Rightarrow> xdp_verdict" where
  "lan_redirect ctx =
     (let data = xd_data ctx in
      if length data < 14 then XDP_PASS
      else if eth_read_et data 12 \<noteq> ETH_P_IP \<or> length data < 14 + 20 then XDP_PASS
      else let protocol = data ! (14 + 9) in
        if protocol \<noteq> 1 \<and> protocol \<noteq> 6 \<and> protocol \<noteq> 17 \<and> protocol \<noteq> 89 then XDP_PASS
        else let ip_len = be16 (data ! (14 + 2)) (data ! (14 + 3));
                 packet_len = xd_len ctx in
          if ip_len < 20 \<or> 9000 < ip_len \<or> packet_len < 14 + unat ip_len \<or> 14 + 9000 < packet_len then XDP_DROP
          else Redirect (rx_queue_index ctx))"

definition xdp_redirect_prog_frags :: "xdp_md \<Rightarrow> xdp_verdict" where
  "xdp_redirect_prog_frags ctx = lan_redirect ctx"

definition ETH_P_ENCRYPTED_UDP :: u16 where "ETH_P_ENCRYPTED_UDP = 0x104B"
definition ETH_P_8021Q :: u16 where "ETH_P_8021Q = 0x8100"
definition ETH_P_8021AD :: u16 where "ETH_P_8021AD = 0x88A8"

definition wan_redirect :: "u16 option \<Rightarrow> xdp_md \<Rightarrow> xdp_verdict" where
  \<comment> \<open>the first argument is the result of the lookup in \<^verbatim>\<open>wan_config_map\<close>\<close>
  "wan_redirect encrypted_et ctx =
     (let data = xd_data ctx in
      if length data < 14 then XDP_PASS
      else let ether_type = eth_read_et data 12 in
        if ether_type = ETH_P_8021Q \<or> ether_type = ETH_P_8021AD then XDP_PASS
        else let encrypted = (ether_type = ETH_P_ENCRYPTED_UDP \<or>
                   (case encrypted_et of None \<Rightarrow> False | Some et \<Rightarrow> et \<noteq> 0 \<and> ether_type = et)) in
          if \<not> encrypted then XDP_PASS
          else if 14 + 9000 < xd_len ctx then XDP_DROP
          else Redirect (rx_queue_index ctx))"

definition xdp_wan_redirect_prog_frags :: "u16 option \<Rightarrow> xdp_md \<Rightarrow> xdp_verdict" where
  "xdp_wan_redirect_prog_frags encrypted_et ctx = wan_redirect encrypted_et ctx"

section \<open>What the programs let through\<close>

text \<open>The frame in memory: its first bytes are the linear part.\<close>

definition frame_of :: "xdp_md \<Rightarrow> bytes \<Rightarrow> bool" where
  "frame_of ctx pkt \<longleftrightarrow> length (xd_data ctx) \<le> xd_len ctx \<and> xd_len ctx \<le> length pkt \<and> take (length (xd_data ctx)) pkt = xd_data ctx"

lemma frame_nth: "frame_of ctx pkt \<Longrightarrow> k < length (xd_data ctx) \<Longrightarrow> pkt ! k = xd_data ctx ! k"
  unfolding frame_of_def by (metis nth_take)

lemma frame_et: "frame_of ctx pkt \<Longrightarrow> 14 \<le> length (xd_data ctx) \<Longrightarrow> eth_read_et pkt 12 = eth_read_et (xd_data ctx) 12"
  using frame_nth [of ctx pkt 12] frame_nth [of ctx pkt 13] by (simp add: eth_read_et_def)

text \<open>What the LAN side is meant to carry: an untagged IPv4 frame of one of the four protocols whose datagram, by its own total length, is
  complete in the frame and no longer than the MTU.\<close>

definition lan_frame :: "bytes \<Rightarrow> nat \<Rightarrow> bool" where
  "lan_frame pkt n \<longleftrightarrow> be16 (pkt ! 12) (pkt ! 13) = 0x0800 \<and> pkt ! 23 \<in> {1, 6, 17, 89} \<and>
     20 \<le> unat (be16 (pkt ! 16) (pkt ! 17)) \<and> unat (be16 (pkt ! 16) (pkt ! 17)) \<le> 9000 \<and>
     14 + unat (be16 (pkt ! 16) (pkt ! 17)) \<le> n \<and> n \<le> 14 + 9000"

lemma lan_redirect_iff:
  assumes "frame_of ctx pkt"
  shows "xdp_redirect_prog_frags ctx = Redirect q \<longleftrightarrow> q = rx_queue_index ctx \<and> 34 \<le> length (xd_data ctx) \<and> lan_frame pkt (xd_len ctx)"
proof (cases "34 \<le> length (xd_data ctx)")
  case True
  then have n: "xd_data ctx ! k = pkt ! k" if "k < 34" for k using that frame_nth [OF assms, of k] by simp
  show ?thesis
    using True by (auto simp: xdp_redirect_prog_frags_def lan_redirect_def lan_frame_def eth_read_et_be16 n ETH_P_IP_def Let_def
        word_le_nat_alt word_less_nat_alt split: if_splits)
qed (auto simp: xdp_redirect_prog_frags_def lan_redirect_def Let_def)

text \<open>C12: The LAN program admits exactly the frames the dataplane is meant for, and the packet path is safe for each of them: a frame
  is redirected, to its own receive queue, iff its linear part holds the Ethernet and IPv4 header, it is an untagged IPv4
  frame of ICMP, TCP, UDP or OSPF, its IP total length is between 20 and 9000 and lies inside the frame, and the frame has at most
  9014 bytes. A worker that gets such a frame as a packet of that length processes it to the end with every frame
  accounted for, or faults only because some address in circulation has less than a frame of memory behind it.\<close>
theorem lan_redirect_admits_safe_frames:
  assumes "frame_of ctx pkt" "len job = xd_len ctx"
    and "worker_ok env s" "accounts F [job] s" "readable (frame_size (dp_mem s)) job"
  shows "(xdp_redirect_prog_frags ctx = Redirect q \<longleftrightarrow> q = rx_queue_index ctx \<and> 34 \<le> length (xd_data ctx) \<and> lan_frame pkt (xd_len ctx)) \<and>
    (xdp_redirect_prog_frags ctx = Redirect q \<longrightarrow>
      (\<exists>s'. dataplane_process_local env job s = Done s' \<and> accounts F [] s') \<or> dataplane_process_local env job s = Fault \<and> short_frame F s)"
proof -
  note iff = lan_redirect_iff [OF assms(1)]
  have "(\<exists>s'. dataplane_process_local env job s = Done s' \<and> accounts F [] s') \<or> dataplane_process_local env job s = Fault \<and> short_frame F s"
    if "xdp_redirect_prog_frags ctx = Redirect q"
    using process_local_owned [OF assms(3) assms(4) [unfolded accounts_owned] assms(5)] that iff assms(2) owned_mono
    by (fastforce simp: lan_frame_def)
  then show ?thesis using iff by blast
qed

text \<open>The worker a marked frame names: the byte after the EtherType is a worker number, or the processor of a worker.\<close>

definition wire_worker :: "bytes \<Rightarrow> nat \<Rightarrow> nat option" where
  "wire_worker pkt n = (if n < 15 then None else if unat (pkt ! 14) < 6 then Some (unat (pkt ! 14))
     else if unat (pkt ! 14) < 9 then Some (unat (pkt ! 14) - 3) else None)"

lemma pick_wan_worker_wire:
  assumes "crypto_eth_l2_has_marker pkt n"
  shows "dp_crypto_pick_wan_worker True pkt n = wire_worker pkt n"
proof -
  have "dp_crypto_worker_idx_for_cpu b = (if unat b < 9 then Some (unat b - 3) else None)" if "\<not> unat b < 6" for b :: u8
  proof (cases "unat b < 9")
    case True
    with that have "unat b = 6 \<or> unat b = 7 \<or> unat b = 8" by auto
    then have "b = 6 \<or> b = 7 \<or> b = 8" by (auto simp: word_unat_eq_iff)
    then show ?thesis by (auto simp: dp_crypto_worker_idx_for_cpu_def NE_CPU_CRYPTO_def)
  next
    case False
    then have "b \<notin> {3, 4, 5, 6, 7, 8}" by auto
    then show ?thesis using False by (simp add: dp_crypto_worker_idx_for_cpu_def NE_CPU_CRYPTO_def)
  qed
  then show ?thesis using assms by (simp add: dp_crypto_pick_wan_worker_def wire_worker_def eth_eqs)
qed

text \<open>C16: The WAN program and the receive thread agree. With the marker EtherType configured and at least the Ethernet header in the
  linear part, the program redirects exactly the frames of EtherType 0x104A or 0x104B of at most 9014 bytes; everything else
  stays with the kernel or is dropped. The receive thread never processes a redirected frame itself: it queues the frame for the
  worker named by the byte after the EtherType, and frees it when the frame has no such byte or the byte names no
  worker, so not every frame taken from the kernel reaches a worker.\<close>
theorem wan_redirect_iff_marked:
  assumes "frame_of ctx (packet_bytes job s)" "14 \<le> length (xd_data ctx)" "len job = xd_len ctx"
  shows "(xdp_wan_redirect_prog_frags (Some NE_L2_FAKE_ETHERTYPE) ctx = Redirect (rx_queue_index ctx) \<longleftrightarrow>
      be16 (packet_bytes job s ! 12) (packet_bytes job s ! 13) \<in> {0x104A, 0x104B} \<and> xd_len ctx \<le> 9014) \<and>
    (xdp_wan_redirect_prog_frags (Some NE_L2_FAKE_ETHERTYPE) ctx = Redirect (rx_queue_index ctx) \<longrightarrow>
      wan_rx_packet env job s = Done (case wire_worker (packet_bytes job s) (len job) of
        None \<Rightarrow> dp_free job s | Some w \<Rightarrow> push_wan_to_mid w job s))"
proof -
  define pkt where "pkt = packet_bytes job s"
  have l: "\<not> xd_len ctx < 14" using assms(1,2) by (simp add: frame_of_def)
  have et: "eth_read_et (xd_data ctx) 12 = be16 (pkt ! 12) (pkt ! 13)"
    using frame_et [OF assms(1,2)] by (simp add: pkt_def eth_read_et_be16)
  have m: "crypto_eth_l2_has_marker pkt (len job) \<longleftrightarrow> be16 (pkt ! 12) (pkt ! 13) \<in> {0x104A, 0x104B}"
    using l assms(3) by (auto simp: eth_eqs eth_read_et_be16 eth_consts)
  have iff: "xdp_wan_redirect_prog_frags (Some NE_L2_FAKE_ETHERTYPE) ctx = Redirect (rx_queue_index ctx) \<longleftrightarrow>
      be16 (pkt ! 12) (pkt ! 13) \<in> {0x104A, 0x104B} \<and> xd_len ctx \<le> 9014"
    using assms(2) by (auto simp: xdp_wan_redirect_prog_frags_def wan_redirect_def et eth_consts ETH_P_8021Q_def ETH_P_8021AD_def
        ETH_P_ENCRYPTED_UDP_def Let_def)
  have "wan_rx_packet env job s = Done (case wire_worker pkt (len job) of None \<Rightarrow> dp_free job s | Some w \<Rightarrow> push_wan_to_mid w job s)"
    if "be16 (pkt ! 12) (pkt ! 13) \<in> {0x104A, 0x104B}"
    using that m pick_wan_worker_wire [of pkt "len job"]
    by (auto simp: wan_rx_packet_def dataplane_wan_needs_mid_def wire_worker_def simp flip: pkt_def)
  then show ?thesis using iff by (simp flip: pkt_def)
qed

text \<open>The peer's WAN program lets the tunnel's own frames through: the wire form of every frame of up to 8983
  bytes is redirected to the receive queue it arrived on.\<close>
theorem tunnel_frames_pass_wan_program:
  assumes "worker_ok env s" "length nonce = 12" "27 \<le> length plain" "length plain \<le> 8983"
    and "wire = wire_of env s nonce plain" "14 \<le> m" "xd_data ctx = take m wire" "xd_len ctx = length wire"
  shows "xdp_wan_redirect_prog_frags (Some NE_L2_FAKE_ETHERTYPE) ctx = Redirect (rx_queue_index ctx)"
proof -
  have l: "length wire = length plain + 31" using length_wire_of [OF assms(1,2)] assms(3,5) by simp
  have "eth_read_et wire 12 = NE_L2_FAKE_ETHERTYPE"
    using assms(3) by (simp add: assms(5) wire_of_def data_wire_def eth_read_et_def nth_append eth_consts)
  then have "eth_read_et (xd_data ctx) 12 = NE_L2_FAKE_ETHERTYPE" using assms(6,7) by (simp add: eth_read_et_def)
  then show ?thesis
    using assms(4,6-8) l
    by (simp add: xdp_wan_redirect_prog_frags_def wan_redirect_def eth_consts ETH_P_8021Q_def ETH_P_8021AD_def
        ETH_P_ENCRYPTED_UDP_def Let_def)
qed

section \<open>Witnesses\<close>

definition lan_ping :: bytes where
  "lan_ping = replicate 12 2 @ [0x08, 0x00] @ [0x45, 0, 0, 25, 0, 0, 0, 0, 64, 1] @ replicate 15 1"

lemma lan_ping_facts: "length lan_ping = 39" "lan_ping ! 12 = 8" "lan_ping ! 13 = 0" "lan_ping ! 16 = 0" "lan_ping ! 17 = 25" "lan_ping ! 23 = 1"
  by (simp_all add: lan_ping_def nth_append)

theorem lan_redirect_admits_safe_frames_witness:
  "xdp_redirect_prog_frags \<lparr>xd_data = lan_ping, xd_len = 39, rx_queue_index = 2\<rparr> = Redirect 2 \<and>
   (\<exists>s'. dataplane_process_local work_env (work_job lan_ping) (work_state lan_ping) = Done s' \<and> accounts {#0, 4096, 8192#} [] s')"
proof -
  let ?ctx = "\<lparr>xd_data = lan_ping, xd_len = 39, rx_queue_index = 2\<rparr>"
  have l: "0 < length lan_ping" "length lan_ping \<le> 4096" by (simp_all add: lan_ping_facts)
  note h = work_state_holds [OF l]
  have f: "frame_of ?ctx lan_ping" "len (work_job lan_ping) = 39" by (simp_all add: frame_of_def lan_ping_facts work_job_def)
  have "lan_frame lan_ping 39" by (simp add: lan_frame_def lan_ping_facts be16_def)
  then show ?thesis
    using lan_redirect_admits_safe_frames [of ?ctx lan_ping "work_job lan_ping" work_env "work_state lan_ping" _ 2, OF f(1) _ work_env_ok owned_mono [OF h(1)]]
      f(2) h(2,3) owned_short [OF h(1)] by (auto simp: lan_ping_facts)
qed

definition marked_frame :: bytes where
  "marked_frame = replicate 12 2 @ [0x10, 0x4A, 4] @ replicate 40 0"

theorem wan_redirect_iff_marked_witness:
  "xdp_wan_redirect_prog_frags (Some NE_L2_FAKE_ETHERTYPE) \<lparr>xd_data = take 40 marked_frame, xd_len = 55, rx_queue_index = 2\<rparr> = Redirect 2 \<and>
   wan_rx_packet work_env (work_job marked_frame) (work_state marked_frame) =
     Done (push_wan_to_mid 4 (work_job marked_frame) (work_state marked_frame))"
proof -
  let ?ctx = "\<lparr>xd_data = take 40 marked_frame, xd_len = 55, rx_queue_index = 2\<rparr>"
  have b: "packet_bytes (work_job marked_frame) (work_state marked_frame) = marked_frame @ replicate 12233 0"
    by (simp add: packet_bytes_def work_job_def zero_packet_def work_mem) (simp add: marked_frame_def)
  have n: "marked_frame ! 12 = 0x10" "marked_frame ! 13 = 0x4A" "marked_frame ! 14 = 4" "length marked_frame = 55"
    by (simp_all add: marked_frame_def nth_append)
  have "frame_of ?ctx (packet_bytes (work_job marked_frame) (work_state marked_frame))" by (simp add: frame_of_def b n)
  moreover have "len (work_job marked_frame) = 55" by (simp add: work_job_def n)
  ultimately show ?thesis
    using wan_redirect_iff_marked [of ?ctx "work_job marked_frame" "work_state marked_frame" work_env]
    by (simp add: b n nth_append be16_def wire_worker_def)
qed

theorem tunnel_frames_pass_wan_program_witness:
  "xdp_wan_redirect_prog_frags (Some NE_L2_FAKE_ETHERTYPE)
     \<lparr>xd_data = take 64 (wire_of work_env (work_state ping) (replicate 12 7) ping), xd_len = 70, rx_queue_index = 1\<rparr> = Redirect 1"
proof -
  let ?w = "wire_of work_env (work_state ping) (replicate 12 7) ping"
  have "length ?w = 70" using length_wire_of [OF work_env_ok, of "replicate 12 7" ping ping] by (simp add: ping_facts)
  then show ?thesis
    using tunnel_frames_pass_wan_program [OF work_env_ok, of "replicate 12 7" ping ?w ping 64 "\<lparr>xd_data = take 64 ?w, xd_len = 70, rx_queue_index = 1\<rparr>"]
    by (simp add: ping_facts)
qed

end
