(* ===== verification/Two_Writes.thy ===== *)
theory Two_Writes
  imports Dataplane_E2E
begin

text \<open>
  Two packets stored one after the other. When the frames a worker can reach do not overlap, writing one packet leaves the
  bytes of another alone; so the two fragments of a split datagram, the first in the received packet and the second in
  frames taken from the pool, can both be read back.
\<close>

section \<open>Frames that do not overlap\<close>

definition apart :: "nat \<Rightarrow> u64 multiset \<Rightarrow> bool" where
  "apart n F \<longleftrightarrow> (\<forall>a\<in>#F. \<forall>b\<in>#F - {#a#}. away (unat a, n) (unat b, n))"

lemma apart_mono: "A \<subseteq># F \<Longrightarrow> apart n F \<Longrightarrow> apart n A"
proof -
  assume a: "A \<subseteq># F" "apart n F"
  have "A - {#x#} \<subseteq># F - {#x#}" for x
    by (rule mset_subset_eqI) (simp add: diff_le_mono mset_subset_eq_count [OF a(1)])
  then show "apart n A" using a unfolding apart_def by (meson mset_subset_eqD)
qed

lemma apart_list: "apart n (mset xs) \<longleftrightarrow> sorted_wrt (\<lambda>a b. away (unat a, n) (unat b, n)) xs"
proof (induction xs)
  case (Cons a xs)
  have "apart n (mset (a # xs)) \<longleftrightarrow> (\<forall>b\<in>set xs. away (unat a, n) (unat b, n)) \<and> apart n (mset xs)"
  proof
    assume h: "apart n (mset (a # xs))"
    then have "\<forall>b\<in>set xs. away (unat a, n) (unat b, n)" by (auto simp: apart_def)
    moreover have "apart n (mset xs)" by (rule apart_mono [OF _ h]) simp
    ultimately show "(\<forall>b\<in>set xs. away (unat a, n) (unat b, n)) \<and> apart n (mset xs)" ..
  next
    assume h: "(\<forall>b\<in>set xs. away (unat a, n) (unat b, n)) \<and> apart n (mset xs)"
    have "away (unat x, n) (unat y, n)" if "x \<in># mset (a # xs)" "y \<in># mset (a # xs) - {#x#}" for x y
    proof (cases "x = a")
      case True
      then show ?thesis using that h by simp
    next
      case False
      then have x: "x \<in># mset xs" and y: "y = a \<or> y \<in># mset xs - {#x#}"
        using that by (auto simp: add_mset_remove_trivial_If)
      then show ?thesis using h away_sym by (auto simp: apart_def)
    qed
    then show "apart n (mset (a # xs))" by (simp add: apart_def)
  qed
  then show ?case using Cons.IH by simp
qed (simp add: apart_def)

lemma apart_spans_ok:
  assumes "holds F (j # js) s" "apart (frame_size (dp_mem s)) F"
  shows "spans_ok (dp_mem s) j"
proof -
  let ?m = "dp_mem s" and ?f = "frame_size (dp_mem s)"
  note d = holdsD [OF assms(1)]
  have "mset (packet_frames j @ pool_list (pool ?m)) \<subseteq># F"
    using assms(1) by (auto simp: holds_def dp_frames_def)
  then have "apart ?f (mset (packet_frames j @ pool_list (pool ?m)))" using apart_mono assms(2) by blast
  then have s: "sorted_wrt (\<lambda>a b. away (unat a, ?f) (unat b, ?f)) (packet_frames j @ pool_list (pool ?m))"
    unfolding apart_list .
  have shrink: "away (seg_span j i) (unat b, k)" if "away (unat (packet_seg_addr j i), ?f) (unat b, k)" "i < packet_nsegs j" for i b k
    using that d(4) away_mono by (auto simp: seg_span_def rooms_le_def)
  have a: "sorted_wrt (\<lambda>i k. away (unat (packet_seg_addr j i), ?f) (unat (packet_seg_addr j k), ?f)) [0..<packet_nsegs j]"
    using s by (simp add: sorted_wrt_append packet_frames_def sorted_wrt_map)
  have "sorted_wrt (\<lambda>i k. away (seg_span j i) (seg_span j k)) [0..<packet_nsegs j]"
  proof (rule sorted_wrt_mono_rel [OF _ a])
    fix i k assume ik: "i \<in> set [0..<packet_nsegs j]" "k \<in> set [0..<packet_nsegs j]"
      "away (unat (packet_seg_addr j i), ?f) (unat (packet_seg_addr j k), ?f)"
    then have "away (seg_span j i) (unat (packet_seg_addr j k), ?f)" using shrink by simp
    then have "away (unat (packet_seg_addr j k), ?f) (seg_span j i)" by (simp only: away_sym)
    then have "away (seg_span j k) (seg_span j i)"
      using ik(2) shrink by (simp add: seg_span_def)
    then show "away (seg_span j i) (seg_span j k)" by (simp only: away_sym)
  qed
  moreover have "away (seg_span j i) (unat b, ?f)" if "i < packet_nsegs j" "b \<in> set (pool_list (pool ?m))" for i b
    by (intro shrink that(1)) (use that s in \<open>auto simp: sorted_wrt_append packet_frames_def\<close>)
  moreover have "sorted_wrt (\<lambda>a b. away (unat a, ?f) (unat b, ?f)) (pool_list (pool ?m))"
    using s by (simp add: sorted_wrt_append)
  ultimately have "sorted_wrt away (spans ?m j)"
    by (auto simp: spans_def sorted_wrt_append sorted_wrt_map)
  then show ?thesis using d(3) by (simp add: spans_ok_def spans_fit_def)
qed

section \<open>Two writes\<close>

definition filled :: "nat \<Rightarrow> ne_packet \<Rightarrow> bool" where
  "filled k pkt \<longleftrightarrow> nsegs pkt \<noteq> 0 \<and> (\<forall>i<nsegs pkt. 0 < seg_len pkt ! i \<and> seg_len pkt ! i \<le> k)"

lemma write_filled:
  assumes "holds F (j # js) s" "n \<le> length src" "ne_packet_write (dp_mem s) j src n = (Done True, m, j')"
  shows "filled (frame_size (dp_mem s)) j'" "length (pool_list (pool (dp_mem s))) \<le> length (pool_list (pool m)) + 4"
proof -
  note d = holdsD [OF assms(1)]
  have "filled (frame_size (dp_mem s)) j' \<and> length (pool_list (pool (dp_mem s))) \<le> length (pool_list (pool m)) + 4"
    using assms(3) d(1,2)
  proof (cases rule: packet_write_cases)
    case (copied p1 pkt1 n1 mem pkt2 off pkt3)
    define u where "u = used_segs pkt2 n1 0"
    note t = packet_write_copied [OF d(1,2) copied(1,3,4,5) u_def copied(6) [folded u_def] copied(8) [folded u_def]]
    have sh: "packet_shape pkt1" using copied(3) by (simp add: grown_def)
    have sub: "set [0..<n1] \<subseteq> {..<4}" using t(3) by auto
    note l = packet_copy_lens [OF copied(5) _ assms(2) _ sub sh]
    have "seg_room pkt1 i \<le> frame_size (dp_mem s)" if "i < n1" for i
      using copied(3) d(4) that by (cases "i < packet_nsegs j") (auto simp: grown_def rooms_le_def)
    moreover have "seg_len j' ! i \<le> seg_room pkt1 i" if "i < u" for i using l t(2,11) that by simp
    ultimately have "seg_len j' ! i \<le> frame_size (dp_mem s)" if "i < u" for i using t(2) that by (meson le_trans less_le_trans)
    moreover have "nsegs j' = u" using copied(8) by (simp add: u_def)
    moreover have "pool_list (pool (dp_mem s)) = map (packet_seg_addr pkt1) [packet_nsegs j..<n1] @ pool_list (pool p1)"
      using copied(3) by (simp add: grown_def)
    ultimately show ?thesis using t(1,3,6,12) by (simp add: filled_def)
  qed simp_all
  then show "filled (frame_size (dp_mem s)) j'" "length (pool_list (pool (dp_mem s))) \<le> length (pool_list (pool m)) + 4" by auto
qed

lemma linearize_segs_cong:
  assumes "length m' = length m" "\<forall>i\<in>set is. seg_len k ! i \<noteq> 0 \<and>
      mem_read m' (unat (packet_seg_addr k i)) (seg_len k ! i) = mem_read m (unat (packet_seg_addr k i)) (seg_len k ! i)"
  shows "linearize_segs m' k n is off dst = linearize_segs m k n is off dst"
  using assms(2)
proof (induction "is" arbitrary: off dst)
  case (Cons i "is")
  have "mem_copy dst off m' (unat (packet_seg_addr k i)) (seg_len k ! i) = mem_copy dst off m (unat (packet_seg_addr k i)) (seg_len k ! i)"
    using Cons.prems assms(1) by (simp add: mem_copy_def)
  moreover have "linearize_segs m' k n is = linearize_segs m k n is" using Cons by (intro ext) simp
  ultimately show ?case using Cons.prems by (simp add: Let_def)
qed simp

lemma write_keeps:
  assumes h: "holds F (j # k # js) s" and ap: "apart (frame_size (dp_mem s)) F" and k: "filled (frame_size (dp_mem s)) k"
    and n: "n \<le> length src" and w: "ne_packet_write (dp_mem s) j src n = (r, m, j')" and c: "carries (dp_mem s) k bs"
  shows "carries m k bs"
proof -
  let ?m = "dp_mem s" and ?f = "frame_size (dp_mem s)"
  note d = holdsD [OF h]
  have "mset (packet_frames j @ pool_list (pool ?m) @ packet_frames k) \<subseteq># F"
    using h by (auto simp: holds_def dp_frames_def)
  from apart_mono [OF this ap]
  have s: "sorted_wrt (\<lambda>a b. away (unat a, ?f) (unat b, ?f)) (packet_frames j @ pool_list (pool ?m) @ packet_frames k)"
    unfolding apart_list .
  have nk: "packet_nsegs k = nsegs k" using k by (simp add: filled_def packet_nsegs_def)
  have aw: "away x (unat (packet_seg_addr k i), seg_len k ! i)" if x: "x \<in> set (spans ?m j)" and i: "i < nsegs k" for x i
  proof -
    let ?b = "unat (packet_seg_addr k i)"
    have "\<exists>a. x = (unat a, snd x) \<and> snd x \<le> ?f \<and> (a \<in> set (packet_frames j) \<or> a \<in> set (pool_list (pool ?m)))"
      using x d(4) by (force simp: spans_def seg_span_def rooms_le_def packet_frames_def)
    then obtain a where a: "x = (unat a, snd x)" "snd x \<le> ?f" "a \<in> set (packet_frames j) \<or> a \<in> set (pool_list (pool ?m))" by blast
    then have "away (unat a, ?f) (?b, ?f)" using s i nk by (auto simp: sorted_wrt_append packet_frames_def)
    then have "away (unat a, snd x) (?b, ?f)" using a(2) by (rule away_mono)
    then have "away (?b, ?f) x" using a(1) away_sym by metis
    then have "away (?b, seg_len k ! i) x" by (rule away_mono) (use k i in \<open>auto simp: filled_def\<close>)
    then show ?thesis by (simp only: away_sym)
  qed
  let ?src = "take n src"
  have w': "ne_packet_write ?m j ?src (length ?src) = (r, m, j')" using w packet_write_take [OF n] n by simp
  have rd: "mem_read (bufs m) (unat (packet_seg_addr k i)) (seg_len k ! i) = mem_read (bufs ?m) (unat (packet_seg_addr k i)) (seg_len k ! i)"
    if "i < nsegs k" for i
    using packet_write_reads_back [OF d(1,2) apart_spans_ok [OF h ap] w'] aw that by blast
  have ln: "length (bufs m) = length (bufs ?m)" by (rule packet_write_area(2) [OF d n w])
  have "linearize_segs (bufs m) k (nsegs k) [0..<nsegs k] 0 dst = linearize_segs (bufs ?m) k (nsegs k) [0..<nsegs k] 0 dst" for dst
    by (rule linearize_segs_cong [OF ln]) (use k rd in \<open>auto simp: filled_def\<close>)
  then have "ne_packet_linearize m k dst x = ne_packet_linearize ?m k dst x" for dst x
    using k by (simp add: ne_packet_linearize_def filled_def Let_def)
  then show ?thesis using c by (simp add: carries_def)
qed

lemma write_two:
  assumes h: "holds F [job] s" and ap: "apart (frame_size (dp_mem s)) F"
    and cap: "9014 \<le> packet_capacity (dp_mem s) job" "5 \<le> length (pool_list (pool (dp_mem s)))" "308 \<le> frame_size (dp_mem s)"
    and l: "0 < length bs" "length bs \<le> 9014" "0 < length cs" "length cs \<le> 308"
  obtains m1 j m2 t where "ne_packet_write (dp_mem s) job (bs @ r0) (length bs) = (Done True, m1, j)"
    "ne_packet_write m1 zero_packet (cs @ r1) (length cs) = (Done True, m2, t)"
    "carries m2 j bs" "carries m2 t cs" "holds F [t, j] (set_mem m2 s)"
proof -
  have st: "can_store (length bs) job s" using apart_spans_ok [OF h ap] cap(1) l(2) by (simp add: can_store_def)
  obtain m1 j where w1: "ne_packet_write (dp_mem s) job (bs @ r0) (length bs) = (Done True, m1, j)" "carries m1 j (take (length bs) (bs @ r0))"
    by (rule write_carries [OF h st l(1), of "bs @ r0"]) (use l(2) in auto)
  have le1: "length bs \<le> length (bs @ r0)" by simp
  let ?s1 = "set_mem m1 s"
  have h1: "holds F [zero_packet, j] ?s1" using holds_write [OF h le1 w1(1)] by (simp add: holds_zero)
  note a1 = packet_write_area [OF holdsD [OF h] le1 w1(1)] and f1 = write_filled [OF h le1 w1(1)]
  have ap1: "apart (frame_size (dp_mem ?s1)) F" using ap a1(3) by simp
  have "308 \<le> min 4 (length (pool_list (pool m1))) * frame_size (dp_mem s)"
  proof -
    have "1 \<le> min 4 (length (pool_list (pool m1)))" using f1(2) cap(2) by simp
    then have "1 * frame_size (dp_mem s) \<le> min 4 (length (pool_list (pool m1))) * frame_size (dp_mem s)" by (rule mult_le_mono1)
    then show ?thesis using cap(3) by (simp only: mult_1)
  qed
  moreover have "packet_nsegs zero_packet = 0" by (simp add: packet_nsegs_def zero_packet_def)
  ultimately have "308 \<le> packet_capacity m1 zero_packet" using a1(3) by (simp add: packet_capacity_def)
  then have st1: "can_store (length cs) zero_packet ?s1" using apart_spans_ok [OF h1 ap1] l(4) by (simp add: can_store_def)
  obtain m2 t where w2: "ne_packet_write (dp_mem ?s1) zero_packet (cs @ r1) (length cs) = (Done True, m2, t)"
    "carries m2 t (take (length cs) (cs @ r1))"
    by (rule write_carries [OF h1 st1 l(3), of "cs @ r1"]) (use l(4) in auto)
  have le2: "length cs \<le> length (cs @ r1)" by simp
  have "carries m2 j bs"
    by (rule write_keeps [OF h1 ap1 _ le2 w2(1)]) (use f1(1) a1(3) w1(2) in simp_all)
  moreover have "holds F [t, j] (set_mem m2 s)" using holds_write [OF h1 le2 w2(1)] by simp
  ultimately show ?thesis using that w1(1) w2 by simp
qed

end
