(* ===== verification/Tunnel_Udp.thy ===== *)
theory Tunnel_Udp
  imports Two_Writes
begin

unbundle bit_operations_syntax

text \<open>
  The tunnel end to end for UDP datagrams that have to be split: \<^verbatim>\<open>dataplane_process_local\<close> numbers the datagram, seals
  it in two fragments, stores them in two packets and pushes both at once; two calls of \<^verbatim>\<open>dataplane_process_wan\<close> in one worker
  of the peer decrypt them, keep the first in the fragment table and emit the joined frame. The statement composes flow
  parsing, sequence numbers, the split, the packet writes, the pair push, worker selection, reassembly and flow routing.
\<close>

section \<open>Sending a datagram in two fragments\<close>

definition has_room2 :: "ring_ref \<Rightarrow> dp_state \<Rightarrow> bool" where
  "has_room2 ref s \<longleftrightarrow> ring_inv (ring_at ref (fwd s)) \<and> length (ring_list (ring_at ref (fwd s))) + 2 \<le> unat (r_cap (ring_at ref (fwd s)))"

definition emits2 :: "ring_ref \<Rightarrow> dp_state \<Rightarrow> dp_state \<Rightarrow> bytes \<Rightarrow> bytes \<Rightarrow> bool" where
  "emits2 ref s s' bs cs \<longleftrightarrow> (\<exists>p q. ring_list (ring_at ref (fwd s')) = ring_list (ring_at ref (fwd s)) @ [p, q] \<and>
     carries (dp_mem s') p bs \<and> carries (dp_mem s') q cs)"

lemma carries_relabel:
  "carries m (j\<lparr>len := length bs, dir := a, wan_idx := b\<rparr>) bs = carries m j bs" if "len j = length bs"
  using that linearize_relabel [of "j\<lparr>len := length bs, dir := a, wan_idx := b\<rparr>" j] by (simp add: carries_def)

lemma push_split_emits:
  assumes "has_room2 (MidToWan 0 (dp_out_ring_idx (rt s))) s" "dp_out_ring_idx (rt s) < NE_CRYPTO_WORKERS" "rings_ok (fwd s)"
    "fwd_wan_count (fwd s) = 1" "carries (dp_mem s) j bs" "carries (dp_mem s) t cs"
    "0 < length bs" "length bs \<le> 9216" "0 < length cs" "length cs \<le> 9216"
  shows "\<exists>j' s'. push_split_to_wan j (length bs) t (length cs) 0 s = (True, j', s') \<and>
    emits2 (MidToWan 0 (dp_out_ring_idx (rt s))) s s' bs cs"
proof -
  let ?ref = "MidToWan 0 (dp_out_ring_idx (rt s))"
  define tx where "tx = ring_at ?ref (fwd s)"
  let ?j = "j\<lparr>len := length bs, dir := NE_DIR_WAN, wan_idx := 0\<rparr>" and ?t = "t\<lparr>len := length cs, dir := NE_DIR_WAN, wan_idx := 0\<rparr>"
  have inv: "ring_inv tx" and room: "length (ring_list tx) + 2 \<le> unat (r_cap tx)" using assms(1) by (auto simp: has_room2_def tx_def)
  obtain r where r: "ne_ring_try_push_pair tx ?j ?t = Some r" using ring_push_pair_None [OF inv, of ?j ?t] room by fastforce
  have ok: "ring_ok tx" using inv by (simp add: ring_ok_def)
  note p = ring_push_pair_ok [OF ok r]
  have "unat (ne_ring_count tx + 2) = unat (ne_ring_count tx) + 2"
    using room u32_lt [of "r_cap tx"] by (simp add: length_ring_list unat_word_ariths)
  then have cnt: "\<not> r_cap tx < ne_ring_count tx + 2" using room by (simp add: word_less_nat_alt length_ring_list)
  let ?s = "s\<lparr>fwd := ring_put ?ref r (fwd s)\<rparr>"
  have at: "ring_at ?ref (fwd (dp_wake ?s)) = r"
    using assms(2,3) by (auto simp: rings_ok_def grid_ok_def dp_wake_def)
  have m: "dp_mem (dp_wake ?s) = dp_mem s" by (simp add: dp_mem_def dp_wake_def)
  have ln: "len j = length bs" "len t = length cs" using assms(5,6) by (simp_all add: carries_def)
  have "emits2 ?ref s (dp_wake ?s) bs cs"
    unfolding emits2_def at m using p(2) assms(5,6) ln carries_relabel
    by (intro exI [of _ ?j] exI [of _ ?t]) (simp add: tx_def)
  moreover have "push_split_to_wan j (length bs) t (length cs) 0 s = (True, ?j, dp_wake ?s)"
    using cnt assms(4,7-10) r unfolding push_split_to_wan_def Let_def tx_def by (simp add: NE_JUMBO_FRAME_MAX_def)
  ultimately show ?thesis by blast
qed

lemma epoch_set_seq: "fst (l2_crypto_epoch os (l2_crypto_udp_set_tx_seq q st)) = fst (l2_crypto_epoch os st)"
  by (simp add: l2_crypto_epoch_def l2_crypto_udp_set_tx_seq_def split_beta)

text \<open>The two fragments of a frame and what a peer needs to know about them.\<close>

definition fragments :: "'c scrypt_api \<Rightarrow> bytes \<Rightarrow> u32 \<Rightarrow> u32 \<Rightarrow> bytes \<Rightarrow> bytes \<Rightarrow> bytes \<Rightarrow> bool" where
  "fragments lib key e d plain f0 f1 \<longleftrightarrow> (\<exists>w n0 n1 m q p0 p1. plain = m @ [0x08, 0x00] @ p0 @ p1 \<and> length m = 12 \<and> first_part_ok p0 \<and>
     length n0 = 12 \<and> length n1 = 12 \<and> f0 = udp_wire lib key w n0 m (L2_UDP_KIND_FRAG0, e, q, d) p0 \<and>
     f1 = udp_wire lib key w n1 m (L2_UDP_KIND_FRAG1, e, q, d) p1)"

lemma encrypt_split_emits:
  assumes ok: "worker_ok env s" and h: "holds F [job] s" and ap: "apart (frame_size (dp_mem s)) F"
    and cap: "9014 \<le> packet_capacity (dp_mem s) job" "5 \<le> length (pool_list (pool (dp_mem s)))" "308 \<le> frame_size (dp_mem s)"
    and room: "has_room2 (MidToWan 0 (dp_out_ring_idx (rt s))) s" "fwd_wan_count (fwd s) = 1" "g_udp_tx_valid (l2 s)" "w < NE_CRYPTO_WORKERS"
    and pk: "len job = length plain" "length (plain @ r) = 9216" "eth_read_et (plain @ r) 12 = ETH_P_IP"
      "8968 < length plain" "l2_split_sizes (plain @ r) (length plain) 14 \<noteq> None"
  shows "\<exists>s' j' f0 f1. encrypt_split env 0 w job (plain @ r) s = (Done 1, (s', j')) \<and>
    fragments (env_lib env) (ctx_key (crypto (fwd s))) (fst (l2_crypto_epoch (env_os env) (l2 s))) (g_udp_tx_datagram_id (l2 s)) plain f0 f1 \<and>
    length f0 \<le> 9014 \<and> length f1 \<le> 308 \<and> length f0 + length f1 = length plain + 106 \<and> emits2 (MidToWan 0 (dp_out_ring_idx (rt s))) s s' f0 f1"
proof -
  note k = worker_okD [OF ok]
  obtain ihl h1 h2 where sz: "l2_split_sizes (plain @ r) (length plain) 14 = Some (ihl, h1, h2)" using pk(5) by auto
  note b = split_sizes_bounds [OF sz]
  have n: "length plain \<le> 9216" using pk(2) by simp
  obtain m p0 p1 n0 n1 r0 r1 st' where f:
    "take (length plain) (plain @ r) = m @ [0x08, 0x00] @ p0 @ p1" "length m = 12" "length p0 = ihl + 8 + h1" "length p1 = h2"
    "length n0 = 12" "length n1 = 12" "trf_ok st'"
    and eq: "l2_crypto_split_udp (env_os env) (env_lib env) (crypto (fwd s)) (plain @ r) (length plain) 9216 (crypto_aux (fwd s) ! w) 9216 (l2 s) = (Done
      ((udp_wire (env_lib env) (ctx_key (crypto (fwd s))) (g_worker_idx (l2 s)) n0 m
          (L2_UDP_KIND_FRAG0, fst (l2_crypto_epoch (env_os env) (l2 s)), g_udp_tx_seq (l2 s), g_udp_tx_datagram_id (l2 s)) p0 @ r0, length p0 + 60),
       (udp_wire (env_lib env) (ctx_key (crypto (fwd s))) (g_worker_idx (l2 s)) n1 m
          (L2_UDP_KIND_FRAG1, fst (l2_crypto_epoch (env_os env) (l2 s)), g_udp_tx_seq (l2 s), g_udp_tx_datagram_id (l2 s)) p1 @ r1, length p1 + 60)), st')"
    by (rule l2_split_ok [OF k(1-3) room(3) pk(3) n pk(2) k(7) [OF room(4)] sz, of "env_os env"]) (rule that; assumption)
  define f0 f1 where "f0 = udp_wire (env_lib env) (ctx_key (crypto (fwd s))) (g_worker_idx (l2 s)) n0 m
      (L2_UDP_KIND_FRAG0, fst (l2_crypto_epoch (env_os env) (l2 s)), g_udp_tx_seq (l2 s), g_udp_tx_datagram_id (l2 s)) p0"
    and "f1 = udp_wire (env_lib env) (ctx_key (crypto (fwd s))) (g_worker_idx (l2 s)) n1 m
      (L2_UDP_KIND_FRAG1, fst (l2_crypto_epoch (env_os env) (l2 s)), g_udp_tx_seq (l2 s), g_udp_tx_datagram_id (l2 s)) p1"
  have len: "length f0 = length p0 + 60" "length f1 = length p1 + 60"
    using length_wires(2) [OF k(1) ctx_okD(2) [OF k(2)]] f(2,5,6) by (simp_all add: f0_def f1_def)
  have l: "0 < length f0" "length f0 \<le> 9014" "0 < length f1" "length f1 \<le> 308" using b f(3,4) len n pk(4) by auto
  have "(plain @ r) ! 14 = p0 ! 0"
    using f(1-3) b(1) pk(4) by (simp add: nth_append)
  then have "first_part_ok p0" using b f(3) by (simp add: first_part_ok_def)
  then have fr: "fragments (env_lib env) (ctx_key (crypto (fwd s))) (fst (l2_crypto_epoch (env_os env) (l2 s))) (g_udp_tx_datagram_id (l2 s)) plain f0 f1"
    unfolding fragments_def f0_def f1_def using f
    by (intro exI [of _ "g_worker_idx (l2 s)"] exI [of _ n0] exI [of _ n1] exI [of _ m] exI [of _ "g_udp_tx_seq (l2 s)"] exI [of _ p0] exI [of _ p1]) simp
  let ?s1 = "set_aux w (f1 @ r1) (set_buf w (f0 @ r0) (s\<lparr>l2 := st'\<rparr>))"
  have h1: "holds F [job] ?s1" "apart (frame_size (dp_mem ?s1)) F" using h ap by simp_all
  obtain m1 j m2 t where w: "ne_packet_write (dp_mem ?s1) job (f0 @ r0) (length f0) = (Done True, m1, j)"
    "ne_packet_write m1 zero_packet (f1 @ r1) (length f1) = (Done True, m2, t)"
    "carries m2 j f0" "carries m2 t f1" "holds F [t, j] (set_mem m2 ?s1)"
    by (rule write_two [OF h1 _ _ _ l, of r0 r1]) (use cap in auto)
  let ?s2 = "set_mem m2 ?s1"
  have c: "carries (dp_mem ?s2) j f0" "carries (dp_mem ?s2) t f1" "rings_ok (fwd ?s2)" using w by (simp_all add: holds_def)
  have rm: "has_room2 (MidToWan 0 (dp_out_ring_idx (rt ?s2))) ?s2" "dp_out_ring_idx (rt ?s2) < NE_CRYPTO_WORKERS" "fwd_wan_count (fwd ?s2) = 1"
    using room k(5) by (simp_all add: has_room2_def del: ring_at.simps)
  obtain j' s' where p: "push_split_to_wan j (length f0) t (length f1) 0 ?s2 = (True, j', s')"
    "emits2 (MidToWan 0 (dp_out_ring_idx (rt ?s2))) ?s2 s' f0 f1"
    using push_split_emits [OF rm(1,2) c(3) rm(3) c(1,2)] l by fastforce
  have "encrypt_split env 0 w job (plain @ r) s = (Done 1, (s', j'))"
    using eq w(1,2) p(1) pk(1) by (simp add: encrypt_split_def NE_JUMBO_FRAME_MAX_def Let_def flip: f0_def f1_def len)
  moreover have "emits2 (MidToWan 0 (dp_out_ring_idx (rt s))) s s' f0 f1"
    using p(2) unfolding emits2_def by (simp del: ring_at.simps)
  moreover have "length plain = 14 + length p0 + length p1" using b f(3,4) by simp
  ultimately show ?thesis using fr l len by (intro exI [of _ s'] exI [of _ j'] exI [of _ f0] exI [of _ f1]) simp
qed

section \<open>The flow of a datagram\<close>

lemma parse_flow_append:
  assumes "length p = n" shows "dp_parse_flow (p @ r) n = dp_parse_flow p n"
proof -
  have et: "eth_read_et (p @ r) 12 = eth_read_et p 12" if "14 \<le> n" using that assms by (simp add: eth_read_et_def nth_append)
  have off: "crypto_eth_ipv4_offset (p @ r) n = crypto_eth_ipv4_offset p n"
    by (auto simp: crypto_eth_ipv4_offset_def crypto_eth_inner_et_off_def Let_def et)
  have "x + 20 \<le> n" if "crypto_eth_ipv4_offset p n = Some x" for x
    using that by (auto simp: crypto_eth_ipv4_offset_def split: option.splits if_splits)
  then show ?thesis using assms by (auto simp: dp_parse_flow_def off nth_append Let_def split: option.split)
qed

lemma ihl_bound: "unat (b AND 0x0F) * 4 \<le> 60" for b :: u8
proof -
  have "b AND 0x0F \<le> (0x0F :: u8)" by (rule word_and_le1)
  then show ?thesis by (simp add: word_le_nat_alt)
qed

lemma udp_flow:
  assumes "flow_proto p n = IPPROTO_UDP" "100 \<le> n"
  obtains f where "dp_parse_flow p n = Some f" "proto f = IPPROTO_UDP"
proof -
  obtain x where x: "crypto_eth_ipv4_offset p n = Some x" "x = 14"
    using assms by (auto simp: flow_proto_def IPPROTO_UDP_def crypto_eth_ipv4_offset_def crypto_eth_inner_et_off_def
        Let_def split: option.splits if_splits)
  note i = ihl_bound [of "p ! 14"]
  show ?thesis
    using that assms x i by (auto simp: flow_proto_def dp_parse_flow_def Let_def IPPROTO_UDP_def IPPROTO_TCP_def split: if_splits)
qed

lemma udp_numbered:
  assumes "dp_parse_flow p n = Some f" "proto f = IPPROTO_UDP"
  obtains q rs where "dp_udp_next_tx_seq p n st = (Some q, rs)"
proof -
  obtain key d where k: "dp_route_key_parse_direction p n = Some (key, d)" "protocol key = IPPROTO_UDP"
    using that assms
    by (cases "ntohl (dst_ip f) < ntohl (src_ip f) \<or> ntohl (src_ip f) = ntohl (dst_ip f) \<and> dst_port f < src_port f")
      (auto simp: dp_route_key_parse_direction_def dp_route_key_from_tuple_def Let_def)
  have a: "\<exists>q rs. apfst Some x = (Some q, rs)" for x :: "u32 \<times> route_state" by (cases x) simp
  have "\<exists>q rs. dp_udp_next_tx_seq p n st = (Some q, rs)"
    unfolding dp_udp_next_tx_seq_def dp_next_udp_tx_seq_def k(1) using k(2) a
    by (auto simp: Let_def split_beta split: option.split)
  then show ?thesis using that by blast
qed

lemma split_sizes_udp:
  assumes "eth_read_et p 12 = ETH_P_IP" "drop_bit 4 (p ! 14) = 4" "flow_proto p n = IPPROTO_UDP" "8968 < n"
  shows "l2_split_sizes p n 14 \<noteq> None"
proof -
  note i = ihl_bound [of "p ! 14"]
  have "crypto_eth_ipv4_offset p n = Some 14"
    using assms(1,4) by (simp add: crypto_eth_ipv4_offset_def crypto_eth_inner_et_off_def eth_match_et_def)
  then have "20 \<le> unat (p ! 14 AND 0x0F) * 4" "p ! 23 = 17"
    using assms(3) by (auto simp: flow_proto_def IPPROTO_UDP_def Let_def split: if_splits)
  then show ?thesis using assms(2,4) i by (auto simp: l2_split_sizes_def Let_def l2_sizes)
qed

definition udp_sender_ready :: "'c dp_env \<Rightarrow> u64 multiset \<Rightarrow> ne_packet \<Rightarrow> dp_state \<Rightarrow> bytes \<Rightarrow> bool" where
  "udp_sender_ready env F job s plain \<longleftrightarrow> worker_ok env s \<and> holds F [job] s \<and> apart (frame_size (dp_mem s)) F \<and>
     carries (dp_mem s) job plain \<and> 9014 \<le> packet_capacity (dp_mem s) job \<and> 5 \<le> length (pool_list (pool (dp_mem s))) \<and>
     308 \<le> frame_size (dp_mem s) \<and> fwd_wan_count (fwd s) = 1 \<and> has_room2 (MidToWan 0 (dp_out_ring_idx (rt s))) s"

lemma worker_ok_numbered:
  assumes "worker_ok env s" "dp_udp_next_tx_seq pkt n (rt s) = (q, rs)"
  shows "worker_ok env (s\<lparr>rt := rs, l2 := l2_crypto_udp_set_tx_seq sq (l2 s)\<rparr>)" "dp_out_ring_idx rs = dp_out_ring_idx (rt s)"
  using assms(1) next_seq_tls [OF assms(2)]
  by (auto simp: worker_ok_def dp_crypto_current_worker_idx_def dp_out_ring_idx_def l2_crypto_udp_set_tx_seq_def trf_ok_def)

text \<open>A UDP frame up to the point where it is sealed, whole or in two parts.\<close>

lemma local_udp:
  assumes ok: "worker_ok env s" and c: "carries (dp_mem s) job plain" "length plain \<le> 9216" and wc: "fwd_wan_count (fwd s) = 1"
    and f: "dp_parse_flow plain (length plain) = Some f" "proto f = IPPROTO_UDP"
    and pf: "flow_proto plain (length plain) = IPPROTO_UDP" and w: "w = nat (dp_crypto_current_worker_idx (rt s))"
  obtains r q rs where "length (plain @ r) = 9216" "w < NE_CRYPTO_WORKERS" "dp_out_ring_idx rs = dp_out_ring_idx (rt s)"
    "worker_ok env ((set_buf w (plain @ r) s)\<lparr>rt := rs, l2 := l2_crypto_udp_set_tx_seq q (l2 s)\<rparr>)"
    "dataplane_process_local env job s =
      (case (if l2_crypto_need_split L2_PROTO_UDP (length plain)
             then encrypt_split env 0 w job (plain @ r) ((set_buf w (plain @ r) s)\<lparr>rt := rs, l2 := l2_crypto_udp_set_tx_seq q (l2 s)\<rparr>)
             else encrypt_whole env L2_PROTO_UDP w job (plain @ r) ((set_buf w (plain @ r) s)\<lparr>rt := rs, l2 := l2_crypto_udp_set_tx_seq q (l2 s)\<rparr>)) of
         (Fault, _) \<Rightarrow> Fault
       | (Fail, (s2, job2)) \<Rightarrow> Done (dp_free job2 s2)
       | (Done enc, (s2, job2)) \<Rightarrow> if enc > 0 then Done s2 else Done (snd (snd (push_to_wan 0 job2 s2))))"
proof -
  have wi: "\<not> (dp_crypto_current_worker_idx (rt s) < 0 \<or> int NE_CRYPTO_WORKERS \<le> dp_crypto_current_worker_idx (rt s))" "w < NE_CRYPTO_WORKERS"
    using ok by (auto simp: worker_ok_def w nat_less_iff)
  define r where "r = drop (length plain) (crypto_buf (fwd s) ! w)"
  have lb: "length (crypto_buf (fwd s) ! w) = 9216" by (rule worker_okD(6) [OF ok wi(2)])
  have ln: "ne_packet_linearize (dp_mem s) job (crypto_buf (fwd s) ! w) NE_JUMBO_FRAME_MAX = Done (plain @ r)" "len job = length plain"
    using c(1) lb by (auto simp: carries_def r_def)
  have lr: "length (plain @ r) = 9216" using c(2) lb by (simp add: r_def)
  have pa: "flow_proto (plain @ r) (length plain) = IPPROTO_UDP" "dp_parse_flow (plain @ r) (length plain) = Some f"
    using pf f(1) flow_proto_append [of plain _ r] parse_flow_append [of plain _ r] by simp_all
  obtain q rs where q: "dp_udp_next_tx_seq (plain @ r) (length plain) (rt s) = (Some q, rs)" by (rule udp_numbered [OF pa(2) f(2)])
  let ?s1 = "set_buf w (plain @ r) s"
  have b2: "set_buf w (plain @ r) ?s1 = ?s1" by (simp add: set_buf_def)
  note wn = worker_ok_numbered [of env ?s1, OF worker_ok_updates(2) [OF ok lr], simplified, OF q]
  have buf: "(crypto_buf (fwd s))[w := plain @ r] ! w = plain @ r" using ok wi(2) by (simp add: worker_ok_def bufs_ok_def)
  let ?s2 = "?s1\<lparr>rt := rs, l2 := l2_crypto_udp_set_tx_seq q (l2 s)\<rparr>"
  have enc: "encrypt_to_wan env 0 L2_PROTO_UDP True job ?s1 = (if l2_crypto_need_split L2_PROTO_UDP (length plain)
      then encrypt_split env 0 w job (plain @ r) ?s2 else encrypt_whole env L2_PROTO_UDP w job (plain @ r) ?s2)"
    using wi(1) q ln(2) buf b2 by (simp add: encrypt_to_wan_def Let_def flip: w)
  have cl: "l2_crypto_classify IPPROTO_UDP = L2_PROTO_UDP" by (simp add: l2_crypto_classify_def IPPROTO_UDP_def)
  show ?thesis
    by (rule that [OF lr wi(2) wn(2) wn(1)])
      (use wi(1) ln pa wc cl in \<open>simp add: dataplane_process_local_def Let_def enc flip: w\<close>)
qed

lemma send_split:
  assumes ready: "udp_sender_ready env F job s plain"
    and et: "eth_read_et plain 12 = ETH_P_IP" "drop_bit 4 (plain ! 14) = 4" "flow_proto plain (length plain) = IPPROTO_UDP"
    and n: "8968 < length plain" "length plain \<le> 9216"
  shows "\<exists>s' f0 f1. dataplane_process_local env job s = Done s' \<and>
    fragments (env_lib env) (ctx_key (crypto (fwd s))) (fst (l2_crypto_epoch (env_os env) (l2 s))) (g_udp_tx_datagram_clock (l2 s)) plain f0 f1 \<and>
    length f0 \<le> 9014 \<and> length f1 \<le> 308 \<and> length f0 + length f1 = length plain + 106 \<and> emits2 (MidToWan 0 (dp_out_ring_idx (rt s))) s s' f0 f1"
proof -
  note a = ready [unfolded udp_sender_ready_def]
  have ok: "worker_ok env s" and c: "carries (dp_mem s) job plain" and wc: "fwd_wan_count (fwd s) = 1" using a by simp_all
  obtain f where f: "dp_parse_flow plain (length plain) = Some f" "proto f = IPPROTO_UDP"
    by (rule udp_flow [OF et(3)]) (use n in auto)
  define w where "w = nat (dp_crypto_current_worker_idx (rt s))"
  obtain r q rs where p: "length (plain @ r) = 9216" "w < NE_CRYPTO_WORKERS" "dp_out_ring_idx rs = dp_out_ring_idx (rt s)"
    "worker_ok env ((set_buf w (plain @ r) s)\<lparr>rt := rs, l2 := l2_crypto_udp_set_tx_seq q (l2 s)\<rparr>)"
    "dataplane_process_local env job s =
      (case (if l2_crypto_need_split L2_PROTO_UDP (length plain)
             then encrypt_split env 0 w job (plain @ r) ((set_buf w (plain @ r) s)\<lparr>rt := rs, l2 := l2_crypto_udp_set_tx_seq q (l2 s)\<rparr>)
             else encrypt_whole env L2_PROTO_UDP w job (plain @ r) ((set_buf w (plain @ r) s)\<lparr>rt := rs, l2 := l2_crypto_udp_set_tx_seq q (l2 s)\<rparr>)) of
         (Fault, _) \<Rightarrow> Fault
       | (Fail, (s2, job2)) \<Rightarrow> Done (dp_free job2 s2)
       | (Done enc, (s2, job2)) \<Rightarrow> if enc > 0 then Done s2 else Done (snd (snd (push_to_wan 0 job2 s2))))"
    by (rule local_udp [OF ok c n(2) wc f et(3) w_def]) (rule that; assumption)
  let ?s2 = "(set_buf w (plain @ r) s)\<lparr>rt := rs, l2 := l2_crypto_udp_set_tx_seq q (l2 s)\<rparr>"
  have et': "eth_read_et (plain @ r) 12 = ETH_P_IP" "drop_bit 4 ((plain @ r) ! 14) = 4" "flow_proto (plain @ r) (length plain) = IPPROTO_UDP"
    using et n(1) flow_proto_append [of plain _ r] by (simp_all add: eth_read_et_def nth_append)
  have sz: "l2_split_sizes (plain @ r) (length plain) 14 \<noteq> None" by (rule split_sizes_udp [OF et' n(1)])
  have h2: "holds F [job] ?s2" "apart (frame_size (dp_mem ?s2)) F" "9014 \<le> packet_capacity (dp_mem ?s2) job"
    "5 \<le> length (pool_list (pool (dp_mem ?s2)))" "308 \<le> frame_size (dp_mem ?s2)"
    "has_room2 (MidToWan 0 (dp_out_ring_idx (rt ?s2))) ?s2" "fwd_wan_count (fwd ?s2) = 1" "g_udp_tx_valid (l2 ?s2)"
    using a p(3) by (simp_all add: has_room2_def l2_crypto_udp_set_tx_seq_def del: ring_at.simps)
  have ln: "len job = length plain" using c by (simp add: carries_def)
  obtain s' j' f0 f1 where e: "encrypt_split env 0 w job (plain @ r) ?s2 = (Done 1, (s', j'))"
    "fragments (env_lib env) (ctx_key (crypto (fwd ?s2))) (fst (l2_crypto_epoch (env_os env) (l2 ?s2))) (g_udp_tx_datagram_id (l2 ?s2)) plain f0 f1"
    "length f0 \<le> 9014 \<and> length f1 \<le> 308 \<and> length f0 + length f1 = length plain + 106" "emits2 (MidToWan 0 (dp_out_ring_idx (rt ?s2))) ?s2 s' f0 f1"
    using encrypt_split_emits [OF p(4) h2 p(2) ln p(1) et'(1) n(1) sz] by blast
  have "l2_crypto_need_split L2_PROTO_UDP (length plain)"
    using n(1) by (simp add: l2_crypto_need_split_def l2_crypto_need_udp_split_def l2_udp_need_split_def l2_sizes)
  then have "dataplane_process_local env job s = Done s'" using p(5) e(1) by simp
  moreover have "emits2 (MidToWan 0 (dp_out_ring_idx (rt s))) s s' f0 f1"
    using e(4) p(3) unfolding emits2_def by (simp del: ring_at.simps)
  ultimately show ?thesis
    using e(2,3) by (intro exI [of _ s'] exI [of _ f0] exI [of _ f1]) (simp add: epoch_set_seq, simp add: l2_crypto_udp_set_tx_seq_def)
qed

section \<open>Receiving fragments\<close>

definition udp_receiver_ready :: "'c dp_env \<Rightarrow> u64 multiset \<Rightarrow> ne_packet \<Rightarrow> dp_state \<Rightarrow> bytes \<Rightarrow> bool" where
  "udp_receiver_ready env F job s wire \<longleftrightarrow> worker_ok env s \<and> holds F [job] s \<and> carries (dp_mem s) job wire \<and>
     fwd_local_count (fwd s) = 1 \<and> (\<forall>k<NE_CRYPTO_WORKERS. has_room (MidToLocal 0 k) s)"

lemma udp_wire_recognised:
  assumes "length m = 12" "length nonce = 12" "length part \<le> n"
  shows "crypto_eth_l2_has_marker (udp_wire lib key w nonce m (k, e, q, d) part @ r) (n + 60)"
    "is_udp_wire (udp_wire lib key w nonce m (k, e, q, d) part @ r) (n + 60)"
    "dp_crypto_pick_wan_worker True (udp_wire lib key w nonce m (k, e, q, d) part @ r) (n + 60) =
      (if unat w < NE_CRYPTO_WORKERS then Some (unat w) else dp_crypto_worker_idx_for_cpu w)"
proof -
  let ?u = "udp_wire lib key w nonce m (k, e, q, d) part @ r"
  have et: "eth_read_et ?u 12 = NE_L2_FAKE_ETHERTYPE_UDP" "?u ! 14 = w" and mk: "mem_read ?u 27 4 = udp_mark"
    using assms by (simp_all add: udp_wire_def be16_consts nth_append mem_read_def l2_udp_marker_def udp_mark_def)
  show "crypto_eth_l2_has_marker ?u (n + 60)" "is_udp_wire ?u (n + 60)"
    using et(1) mk by (simp_all add: is_udp_wire_def eth_eqs L2_NONCE_SIZE_def)
  then show "dp_crypto_pick_wan_worker True ?u (n + 60) = (if unat w < NE_CRYPTO_WORKERS then Some (unat w) else dp_crypto_worker_idx_for_cpu w)"
    using et by (simp add: dp_crypto_pick_wan_worker_def eth_eqs)
qed

text \<open>The state after the decryption of a fragment, before the outcome of the reassembly is looked at.\<close>

lemma receive_fragment:
  assumes ready: "udp_receiver_ready env F job s wire"
    and wire: "wire = udp_wire (env_lib env) (ctx_key (crypto (fwd s))) worker nonce m (kd, e, q, d) part"
    and l: "length nonce = 12" "length m = 12" "length part \<le> 9156" "kd \<in> {L2_UDP_KIND_FRAG0, L2_UDP_KIND_FRAG1}"
    and t: "opt_table_get (env_calloc env) (dp_crypto_current_worker_idx (rt s)) True (g_tables s) = (Some ft, g1)"
    and w: "w = nat (dp_crypto_current_worker_idx (rt s))"
  obtains junk ls b where "trf_ok ls" "length b = 9216" "length (crypto_aux (fwd s) ! w) = 9216"
    "\<And>rr ft'. l2_reassemble ft (frag_pkt m part junk) (14 + length part) e d q kd (crypto_aux (fwd s) ! w) (env_now env) = (rr, ft') \<Longrightarrow>
      dataplane_process_wan env job s =
        (let s2 = (set_buf w b s)\<lparr>l2 := ls, g_tables := g1(opt_table_idx (dp_crypto_current_worker_idx (rt s)) := Some ft')\<rparr> in
         case rr of Fault \<Rightarrow> Fault | Fail \<Rightarrow> Done (dp_free job s2) | Done None \<Rightarrow> Done (dp_free job s2)
         | Done (Some (out, n)) \<Rightarrow> deliver_local w job out n (set_aux w out s2))"
proof -
  note a = ready [unfolded udp_receiver_ready_def]
  have ok: "worker_ok env s" using a by simp
  note k = worker_okD [OF ok]
  have wi: "\<not> (dp_crypto_current_worker_idx (rt s) < 0 \<or> int NE_CRYPTO_WORKERS \<le> dp_crypto_current_worker_idx (rt s))" "w < NE_CRYPTO_WORKERS"
    using ok by (auto simp: worker_ok_def w nat_less_iff)
  have lw: "length wire = length part + 60"
    using length_wires(2) [OF k(1) ctx_okD(2) [OF k(2)] l(1,2)] by (simp add: wire)
  define r where "r = drop (length wire) (crypto_buf (fwd s) ! w)"
  have ln: "ne_packet_linearize (dp_mem s) job (crypto_buf (fwd s) ! w) NE_JUMBO_FRAME_MAX = Done (wire @ r)" "len job = length part + 60"
    using a k(6) [OF wi(2)] lw by (auto simp: carries_def r_def)
  have lp: "length (wire @ r) = 9216" using l(3) lw k(6) [OF wi(2)] by (simp add: r_def)
  have rec: "crypto_eth_l2_has_marker (wire @ r) (length part + 60)" "is_udp_wire (wire @ r) (length part + 60)"
    using udp_wire_recognised [OF l(2,1) order_refl] by (simp_all add: wire)
  obtain junk ls where d: "trf_ok ls"
    "l2_crypto_reassemble_udp (env_calloc env) (env_lib env) (dp_crypto_current_worker_idx (rt s)) (crypto (fwd s)) (wire @ r) (length part + 60)
       (crypto_aux (fwd s) ! w) (env_now env) (l2 s, g_tables s) =
      (case l2_reassemble ft (frag_pkt m part junk) (14 + length part) e d q kd (crypto_aux (fwd s) ! w) (env_now env) of
         (rr, ft') \<Rightarrow> (rr, (ls, g1(opt_table_idx (dp_crypto_current_worker_idx (rt s)) := Some ft'))))"
    unfolding wire by (rule reasm_fragment [OF k(1-3) l(2,1,4) t])
  show ?thesis
  proof (rule that [OF d(1) lp k(7) [OF wi(2)]])
    fix rr ft'
    assume "l2_reassemble ft (frag_pkt m part junk) (14 + length part) e d q kd (crypto_aux (fwd s) ! w) (env_now env) = (rr, ft')"
    then show "dataplane_process_wan env job s =
        (let s2 = (set_buf w (wire @ r) s)\<lparr>l2 := ls, g_tables := g1(opt_table_idx (dp_crypto_current_worker_idx (rt s)) := Some ft')\<rparr> in
         case rr of Fault \<Rightarrow> Fault | Fail \<Rightarrow> Done (dp_free job s2) | Done None \<Rightarrow> Done (dp_free job s2)
         | Done (Some (out, n)) \<Rightarrow> deliver_local w job out n (set_aux w out s2))"
      using wi(1) ln rec d(2) by (simp add: dataplane_process_wan_def Let_def flip: w)
  qed
qed

lemma dp_free_keeps: "g_tables (dp_free j s) = g_tables s" "ring_at ref (fwd (dp_free j s)) = ring_at ref (fwd s)" "rt (dp_free j s) = rt s"
  by (simp_all add: dp_free_def)

definition new_datagram :: "'c dp_env \<Rightarrow> u32 \<Rightarrow> u32 \<Rightarrow> dp_state \<Rightarrow> bool" where
  "new_datagram env e d s \<longleftrightarrow>
     (case g_tables s (opt_table_idx (dp_crypto_current_worker_idx (rt s))) of None \<Rightarrow> env_calloc env | Some ft \<Rightarrow> fresh e d ft)"

text \<open>A fragment table that waits for the other half of the datagram.\<close>

definition half_received :: "u32 \<Rightarrow> u32 \<Rightarrow> u32 \<Rightarrow> u64 \<Rightarrow> (opt_entry \<Rightarrow> bool) \<Rightarrow> opt_table option \<Rightarrow> bool" where
  "half_received e d q t P o1 \<longleftrightarrow> (\<exists>ft idx. o1 = Some ft \<and> waiting e d q t ft idx \<and> P (entries ft ! idx))"

lemma receive_half:
  assumes ready: "udp_receiver_ready env F job s wire" and new: "new_datagram env e d s"
    and wire: "wire = udp_wire (env_lib env) (ctx_key (crypto (fwd s))) worker nonce m (kd, e, q, d) part"
    and l: "length nonce = 12" "length m = 12" "length part \<le> 9156"
    and kd: "kd = L2_UDP_KIND_FRAG0 \<and> first_part_ok part \<and> P = has_first m part \<or> kd = L2_UDP_KIND_FRAG1 \<and> P = has_second part"
  shows "\<exists>s1. dataplane_process_wan env job s = Done s1 \<and> (\<forall>ref. ring_at ref (fwd s1) = ring_at ref (fwd s)) \<and>
    half_received e d q (env_now env) P (g_tables s1 (opt_table_idx (dp_crypto_current_worker_idx (rt s))))"
proof -
  let ?wi = "dp_crypto_current_worker_idx (rt s)"
  have tk: "tables_ok (g_tables s)" using ready worker_okD(4) by (auto simp: udp_receiver_ready_def)
  obtain ft g1 where t: "opt_table_get (env_calloc env) ?wi True (g_tables s) = (Some ft, g1)" "table_ok ft" "fresh e d ft"
  proof (cases "g_tables s (opt_table_idx ?wi)")
    case None
    then show ?thesis using that new zero_table_facts by (simp add: opt_table_get_def new_datagram_def)
  next
    case (Some ft)
    then show ?thesis using that new tk by (simp add: opt_table_get_def new_datagram_def tables_ok_def)
  qed
  have k2: "kd \<in> {L2_UDP_KIND_FRAG0, L2_UDP_KIND_FRAG1}" using kd by auto
  define w where "w = nat ?wi"
  obtain junk ls b where r: "\<And>rr ft'. l2_reassemble ft (frag_pkt m part junk) (14 + length part) e d q kd (crypto_aux (fwd s) ! w) (env_now env) = (rr, ft') \<Longrightarrow>
      dataplane_process_wan env job s =
        (let s2 = (set_buf w b s)\<lparr>l2 := ls, g_tables := g1(opt_table_idx ?wi := Some ft')\<rparr> in
         case rr of Fault \<Rightarrow> Fault | Fail \<Rightarrow> Done (dp_free job s2) | Done None \<Rightarrow> Done (dp_free job s2)
         | Done (Some (out, n)) \<Rightarrow> deliver_local w job out n (set_aux w out s2))"
    by (rule receive_fragment [OF ready wire l k2 t(1) w_def]) blast
  have le: "14 + length part \<le> 9216" using l(3) by simp
  obtain ft' idx where h: "l2_reassemble ft (frag_pkt m part junk) (14 + length part) e d q kd (crypto_aux (fwd s) ! w) (env_now env) = (Done None, ft')"
    "waiting e d q (env_now env) ft' idx" "P (entries ft' ! idx)"
    using kd reassemble_first_half [OF t(2,3) l(2) _ le] reassemble_second_half [OF t(2,3) l(2) le] by metis
  show ?thesis
    by (rule exI [of _ "dp_free job ((set_buf w b s)\<lparr>l2 := ls, g_tables := g1(opt_table_idx ?wi := Some ft')\<rparr>)"])
      (use r [OF h(1)] h(2,3) in \<open>auto simp: dp_free_keeps half_received_def simp del: ring_at.simps\<close>)
qed

lemma receive_join:
  assumes ready: "udp_receiver_ready env F job s wire" and store: "can_store (length (m @ [0x08, 0x00] @ p0 @ p1)) job s"
    and wire: "wire = udp_wire (env_lib env) (ctx_key (crypto (fwd s))) worker nonce m (kd, e, q, d) part"
    and l: "length nonce = 12" "length m = 12" "14 + length p0 + length p1 \<le> 9216" "length part \<le> 9156" "first_part_ok p0"
    and kd: "kd = L2_UDP_KIND_FRAG0 \<and> part = p0 \<and> P = has_second p1 \<or> kd = L2_UDP_KIND_FRAG1 \<and> part = p1 \<and> P = has_first m p0"
    and half: "half_received e d q t P (g_tables s (opt_table_idx (dp_crypto_current_worker_idx (rt s))))"
    and now: "\<not> L2_FRAG_TIMEOUT_NS < env_now env - t"
  shows "\<exists>s' k. dataplane_process_wan env job s = Done s' \<and> k < NE_CRYPTO_WORKERS \<and>
    emits (MidToLocal 0 k) s s' (m @ [0x08, 0x00] @ p0 @ p1)"
proof -
  note a = ready [unfolded udp_receiver_ready_def]
  have ok: "worker_ok env s" using a by simp
  let ?wi = "dp_crypto_current_worker_idx (rt s)" and ?n = "14 + length p0 + length p1" and ?out = "m @ [0x08, 0x00] @ p0 @ p1"
  obtain ft idx where ft: "g_tables s (opt_table_idx ?wi) = Some ft" "waiting e d q t ft idx" "P (entries ft ! idx)"
    using half by (auto simp: half_received_def)
  have tg: "opt_table_get (env_calloc env) ?wi True (g_tables s) = (Some ft, g_tables s)" using ft(1) by (simp add: opt_table_get_def)
  have k2: "kd \<in> {L2_UDP_KIND_FRAG0, L2_UDP_KIND_FRAG1}" using kd by auto
  define w where "w = nat ?wi"
  obtain junk ls b where r: "trf_ok ls" "length b = 9216" "length (crypto_aux (fwd s) ! w) = 9216"
    "\<And>rr ft'. l2_reassemble ft (frag_pkt m part junk) (14 + length part) e d q kd (crypto_aux (fwd s) ! w) (env_now env) = (rr, ft') \<Longrightarrow>
      dataplane_process_wan env job s =
        (let s2 = (set_buf w b s)\<lparr>l2 := ls, g_tables := (g_tables s)(opt_table_idx ?wi := Some ft')\<rparr> in
         case rr of Fault \<Rightarrow> Fault | Fail \<Rightarrow> Done (dp_free job s2) | Done None \<Rightarrow> Done (dp_free job s2)
         | Done (Some (out, n)) \<Rightarrow> deliver_local w job out n (set_aux w out s2))"
    by (rule receive_fragment [OF ready wire l(1,2,4) k2 tg w_def]) (rule that; assumption)
  obtain ft' out where j: "l2_reassemble ft (frag_pkt m part junk) (14 + length part) e d q kd (crypto_aux (fwd s) ! w) (env_now env) =
      (Done (Some (out, ?n)), ft')" "take ?n out = ?out" "table_ok ft'"
    using kd ft(3) reassemble_join1 [OF ft(2) now _ l(2,3) r(3)] reassemble_join0 [OF ft(2) now _ l(2,5,3) r(3)] by metis
  have "table_ok ft" using ft(2) by (simp add: waiting_def)
  then have lo: "length out = 9216" using reassemble_outcome [OF _ r(3) j(1)] by simp
  let ?s2 = "set_aux w out ((set_buf w b s)\<lparr>l2 := ls, g_tables := (g_tables s)(opt_table_idx ?wi := Some ft')\<rparr>)"
  have "tables_ok ((g_tables s)(opt_table_idx ?wi := Some ft'))" using worker_okD(4) [OF ok] j(3) by (auto simp: tables_ok_def)
  then have "worker_ok env ((set_buf w b s)\<lparr>l2 := ls, g_tables := (g_tables s)(opt_table_idx ?wi := Some ft')\<rparr>)"
    by (intro worker_ok_updates(5) worker_ok_updates(4) worker_ok_updates(2) ok r)
  then have w2: "worker_ok env ?s2" using lo by (rule worker_ok_updates(3))
  have h2: "holds F [job] ?s2" "can_store ?n job ?s2" "fwd_local_count (fwd ?s2) = 1"
    using a store l(2) by (simp_all add: store_scratch add.assoc) (simp add: set_aux_def set_buf_def)
  have room: "has_room (MidToLocal 0 k) ?s2" if "k < NE_CRYPTO_WORKERS" for k
    using a that unfolding has_room_def by (simp del: ring_at.simps)
  obtain s' i where e: "deliver_local w job out ?n ?s2 = Done s'" "i < NE_CRYPTO_WORKERS" "emits (MidToLocal 0 i) ?s2 s' (take ?n out)"
    using deliver_emits [OF w2 h2(1,2) _ l(3) _ h2(3) room] lo l(3) by force
  have "emits (MidToLocal 0 i) s s' ?out" using e(3) j(2) unfolding emits_def by (simp del: ring_at.simps)
  then show ?thesis using e(1,2) r(4) [OF j(1)] by (intro exI [of _ s'] exI [of _ i]) simp
qed

section \<open>End to end\<close>

text \<open>Two frames are joined: any worker of a peer with this key that holds nothing of the datagram keeps the first of them, emits
  nothing, and when the same worker gets the second within the timeout, whatever happened to its memory and
  rings in between, it emits the datagram.\<close>

definition joins :: "'c scrypt_api \<Rightarrow> bytes \<Rightarrow> u32 \<Rightarrow> u32 \<Rightarrow> bytes \<Rightarrow> bytes \<Rightarrow> bytes \<Rightarrow> bool" where
  "joins lib key e d f f' plain \<longleftrightarrow>
     (\<forall>env F job s. env_lib env = lib \<and> ctx_key (crypto (fwd s)) = key \<and> udp_receiver_ready env F job s f \<and> new_datagram env e d s \<longrightarrow>
        (\<exists>s1. dataplane_process_wan env job s = Done s1 \<and> (\<forall>ref. ring_at ref (fwd s1) = ring_at ref (fwd s)) \<and>
          (\<forall>env' F' job' s'. env_lib env' = lib \<and> ctx_key (crypto (fwd s')) = key \<and> udp_receiver_ready env' F' job' s' f' \<and>
             can_store (length plain) job' s' \<and> g_tables s' = g_tables s1 \<and>
             dp_crypto_current_worker_idx (rt s') = dp_crypto_current_worker_idx (rt s) \<and>
             env_now env' - env_now env \<le> L2_FRAG_TIMEOUT_NS \<longrightarrow>
             (\<exists>s2 k. dataplane_process_wan env' job' s' = Done s2 \<and> k < NE_CRYPTO_WORKERS \<and> emits (MidToLocal 0 k) s' s2 plain))))"

lemma join_pair:
  assumes f: "length m = 12" "first_part_ok p0" "length na = 12" "length nb = 12" "14 + length p0 + length p1 \<le> 9216"
      "length pa \<le> 9156" "length pb \<le> 9156"
    and kd: "ka = L2_UDP_KIND_FRAG0 \<and> pa = p0 \<and> kb = L2_UDP_KIND_FRAG1 \<and> pb = p1 \<and> P = has_first m p0 \<or>
      ka = L2_UDP_KIND_FRAG1 \<and> pa = p1 \<and> kb = L2_UDP_KIND_FRAG0 \<and> pb = p0 \<and> P = has_second p1"
  shows "joins lib key e d (udp_wire lib key w na m (ka, e, q, d) pa) (udp_wire lib key w nb m (kb, e, q, d) pb) (m @ [0x08, 0x00] @ p0 @ p1)"
    (is "joins _ _ _ _ ?fa ?fb ?plain")
  unfolding joins_def
proof (intro allI impI, elim conjE)
  fix env :: "'a dp_env" and F job s
  assume s: "env_lib env = lib" "ctx_key (crypto (fwd s)) = key" "udp_receiver_ready env F job s ?fa" "new_datagram env e d s"
  have ka: "ka = L2_UDP_KIND_FRAG0 \<and> first_part_ok pa \<and> P = has_first m pa \<or> ka = L2_UDP_KIND_FRAG1 \<and> P = has_second pa" using kd f(2) by auto
  have fa: "?fa = udp_wire (env_lib env) (ctx_key (crypto (fwd s))) w na m (ka, e, q, d) pa" using s by simp
  obtain s1 where s1: "dataplane_process_wan env job s = Done s1" "\<forall>ref. ring_at ref (fwd s1) = ring_at ref (fwd s)"
    "half_received e d q (env_now env) P (g_tables s1 (opt_table_idx (dp_crypto_current_worker_idx (rt s))))"
    using receive_half [OF s(3,4) fa f(3,1,6) ka] by blast
  have "\<exists>s2 k. dataplane_process_wan env' job' s' = Done s2 \<and> k < NE_CRYPTO_WORKERS \<and> emits (MidToLocal 0 k) s' s2 ?plain"
    if t: "env_lib env' = lib" "ctx_key (crypto (fwd s')) = key" "udp_receiver_ready env' F' job' s' ?fb" "can_store (length ?plain) job' s'"
      "g_tables s' = g_tables s1" "dp_crypto_current_worker_idx (rt s') = dp_crypto_current_worker_idx (rt s)"
      "env_now env' - env_now env \<le> L2_FRAG_TIMEOUT_NS" for env' :: "'a dp_env" and F' job' s'
  proof (rule receive_join [OF t(3,4) _ f(4,1,5,7,2)])
    show "?fb = udp_wire (env_lib env') (ctx_key (crypto (fwd s'))) w nb m (kb, e, q, d) pb" using t by simp
    show "kb = L2_UDP_KIND_FRAG0 \<and> pb = p0 \<and> P = has_second p1 \<or> kb = L2_UDP_KIND_FRAG1 \<and> pb = p1 \<and> P = has_first m p0" using kd by auto
    show "half_received e d q (env_now env) P (g_tables s' (opt_table_idx (dp_crypto_current_worker_idx (rt s'))))" using s1(3) t by simp
  qed (use t in simp)
  then show "\<exists>s1. dataplane_process_wan env job s = Done s1 \<and> (\<forall>ref. ring_at ref (fwd s1) = ring_at ref (fwd s)) \<and>
      (\<forall>env' F' job' s'. env_lib env' = lib \<and> ctx_key (crypto (fwd s')) = key \<and> udp_receiver_ready env' F' job' s' ?fb \<and>
         can_store (length ?plain) job' s' \<and> g_tables s' = g_tables s1 \<and>
         dp_crypto_current_worker_idx (rt s') = dp_crypto_current_worker_idx (rt s) \<and>
         env_now env' - env_now env \<le> L2_FRAG_TIMEOUT_NS \<longrightarrow>
         (\<exists>s2 k. dataplane_process_wan env' job' s' = Done s2 \<and> k < NE_CRYPTO_WORKERS \<and> emits (MidToLocal 0 k) s' s2 ?plain))"
    using s1(1,2) by blast
qed

lemma fragments_join:
  assumes "fragments lib key e d plain f0 f1" "length plain \<le> 9216" "length f0 \<le> 9014" "length f1 \<le> 9014" "aead_laws lib" "length key = 32"
  shows "joins lib key e d f0 f1 plain" "joins lib key e d f1 f0 plain"
    "dp_crypto_pick_wan_worker True f0 (length f0) = dp_crypto_pick_wan_worker True f1 (length f1)"
proof -
  obtain w n0 n1 m q p0 p1 where f: "plain = m @ [0x08, 0x00] @ p0 @ p1" "length m = 12" "first_part_ok p0" "length n0 = 12" "length n1 = 12"
    "f0 = udp_wire lib key w n0 m (L2_UDP_KIND_FRAG0, e, q, d) p0" "f1 = udp_wire lib key w n1 m (L2_UDP_KIND_FRAG1, e, q, d) p1"
    using assms(1) by (auto simp: fragments_def)
  have l: "length f0 = length p0 + 60" "length f1 = length p1 + 60"
    using length_wires(2) [OF assms(5,6)] f(2,4-7) by simp_all
  then have n: "length p0 \<le> 9156" "length p1 \<le> 9156" "14 + length p0 + length p1 \<le> 9216" using assms(2-4) f(1,2) by auto
  show "joins lib key e d f0 f1 plain" unfolding f(1,6,7) by (rule join_pair [OF f(2-5) n(3,1,2), where P = "has_first m p0"]) simp
  show "joins lib key e d f1 f0 plain" unfolding f(1,6,7) by (rule join_pair [OF f(2,3,5,4) n(3,2,1), where P = "has_second p1"]) simp
  show "dp_crypto_pick_wan_worker True f0 (length f0) = dp_crypto_pick_wan_worker True f1 (length f1)"
    using udp_wire_recognised(3) [OF f(2,4) order_refl, of lib key w "L2_UDP_KIND_FRAG0" e q d p0 "[]"]
      udp_wire_recognised(3) [OF f(2,5) order_refl, of lib key w "L2_UDP_KIND_FRAG1" e q d p1 "[]"] l f(6,7) by simp
qed

text \<open>C2: An oversized UDP datagram through the tunnel. A worker that takes an IPv4/UDP frame too long to be sealed whole
  puts two frames next to each other into one WAN ring, each within the MTU and both naming the same peer worker. In
  whichever order that worker gets them, 200 ms apart at most, it emits nothing after the first and the
  original frame, byte for byte, after the second.\<close>
theorem tunnel_udp_split_end_to_end:
  assumes "udp_sender_ready env F job s plain" "eth_read_et plain 12 = ETH_P_IP" "drop_bit 4 (plain ! 14) = 4"
    "flow_proto plain (length plain) = IPPROTO_UDP" "l2_crypto_need_split L2_PROTO_UDP (length plain)" "length plain \<le> 9216"
  shows "\<exists>s' f0 f1. dataplane_process_local env job s = Done s' \<and> emits2 (MidToWan 0 (dp_out_ring_idx (rt s))) s s' f0 f1 \<and>
    length f0 \<le> 14 + 9000 \<and> length f1 \<le> 308 \<and> length f0 + length f1 = length plain + 106 \<and>
    dp_crypto_pick_wan_worker True f0 (length f0) = dp_crypto_pick_wan_worker True f1 (length f1) \<and>
    joins (env_lib env) (ctx_key (crypto (fwd s))) (fst (l2_crypto_epoch (env_os env) (l2 s))) (g_udp_tx_datagram_clock (l2 s)) f0 f1 plain \<and>
    joins (env_lib env) (ctx_key (crypto (fwd s))) (fst (l2_crypto_epoch (env_os env) (l2 s))) (g_udp_tx_datagram_clock (l2 s)) f1 f0 plain"
proof -
  have n: "8968 < length plain"
    using assms(5) by (simp add: l2_crypto_need_split_def l2_crypto_need_udp_split_def l2_udp_need_split_def l2_sizes)
  have ok: "worker_ok env s" using assms(1) by (simp add: udp_sender_ready_def)
  note k = worker_okD(1) [OF ok] ctx_okD(2) [OF worker_okD(2) [OF ok]]
  obtain s' f0 f1 where s': "dataplane_process_local env job s = Done s'" "emits2 (MidToWan 0 (dp_out_ring_idx (rt s))) s s' f0 f1"
    "length f0 \<le> 9014" "length f1 \<le> 308" "length f0 + length f1 = length plain + 106"
    "fragments (env_lib env) (ctx_key (crypto (fwd s))) (fst (l2_crypto_epoch (env_os env) (l2 s))) (g_udp_tx_datagram_clock (l2 s)) plain f0 f1"
    using send_split [OF assms(1-4) n assms(6)] by blast
  show ?thesis
    using s'(1-5) fragments_join [OF s'(6) assms(6) s'(3) _ k] by (intro exI [of _ s'] exI [of _ f0] exI [of _ f1]) simp
qed

section \<open>A jumbo datagram through the tunnel\<close>

text \<open>A worker with eight frames of 4096 bytes: up to three hold the packet, five are free.\<close>

definition big_pool :: ne_pool where
  "big_pool = \<lparr>pl_buf = [12288, 16384, 20480, 24576, 28672, 0, 0, 0], pl_cap = 8, pl_mask = 7, pl_head = 5, pl_tail = 0\<rparr>"

definition big_state :: "bytes \<Rightarrow> dp_state" where
  "big_state bs = set_mem \<lparr>bufs = bs @ replicate (32768 - length bs) 0, frame_size = 4096, pool = big_pool\<rparr> (work_state [])"

definition big_job :: "bytes \<Rightarrow> ne_packet" where
  "big_job bs = zero_packet\<lparr>len := length bs, seg_addr := [4096, 8192, 0], seg_len := [4096, 4096, length bs - 8192, 0],
     seg_cap := [4096, 4096, length bs - 8192, 0], nsegs := 3\<rparr>"

lemma big_pool_ok: "pool_inv big_pool" "pool_list big_pool = [12288, 16384, 20480, 24576, 28672]"
  by (simp_all add: pool_inv_def pool_list_def big_pool_def pow2_cap_def slots_def ring_slot_def word_le_nat_alt upt_conv_Cons)

lemma big_mem: "dp_mem (big_state bs) = \<lparr>bufs = bs @ replicate (32768 - length bs) 0, frame_size = 4096, pool = big_pool\<rparr>"
  by (simp add: big_state_def)

lemma big_state_ok: "worker_ok work_env (big_state bs)"
  by (simp add: big_state_def worker_ok_updates work_env_ok)

lemma big_rings: "ref_ok ref \<Longrightarrow> ring_at ref (fwd (big_state bs)) = work_ring" "rings_ok (fwd (big_state bs))"
  "out_frames (fwd (big_state bs)) = {#}"
proof -
  show "ring_at ref (fwd (big_state bs)) = work_ring" if "ref_ok ref"
    using that by (cases ref) (simp_all add: big_state_def, simp_all add: work_state_def)
  have "holds {#0, 4096, 8192#} [work_job [0]] (work_state [0])" by (rule work_state_holds) simp_all
  then have r: "rings_ok (fwd (work_state [0]))" and o: "dp_frames (work_state [0]) + frames_of [work_job [0]] = {#0, 4096, 8192#}"
    by (simp_all add: holds_def)
  show "rings_ok (fwd (big_state bs))" using r by (simp add: big_state_def) (simp add: work_state_def rings_ok_def)
  have "out_frames (fwd (work_state [])) = {#}"
    using work_ring_ok(2) by (simp add: work_state_def out_frames_def grid_frames_def ring_frames_def) (simp add: numeral_eq_Suc)
  then show "out_frames (fwd (big_state bs)) = {#}" by (simp add: big_state_def)
qed

lemma big_apart: "apart 4096 {#0, 4096, 8192, 12288, 16384, 20480, 24576, 28672#}" "apart 4096 {#0, 12288, 16384, 20480, 24576, 28672#}"
  using apart_list [of 4096 "[0, 4096, 8192, 12288, 16384, 20480, 24576, 28672]"] apart_list [of 4096 "[0, 12288, 16384, 20480, 24576, 28672]"]
  by (simp_all add: away_def)

lemma big_job_facts:
  assumes "8192 < length bs" "length bs \<le> 9216"
  shows "holds {#0, 4096, 8192, 12288, 16384, 20480, 24576, 28672#} [big_job bs] (big_state bs)" "carries (dp_mem (big_state bs)) (big_job bs) bs"
    "packet_capacity (dp_mem (big_state bs)) (big_job bs) = length bs + 4096"
proof -
  have n: "packet_nsegs (big_job bs) = 3" "[0..<3] = [0, 1, 2 :: nat]" by (simp_all add: big_job_def packet_nsegs_def upt_conv_Cons)
  have a: "packet_seg_addr (big_job bs) 0 = 0" "packet_seg_addr (big_job bs) 1 = 4096" "packet_seg_addr (big_job bs) 2 = 8192"
    "packet_seg_addr (big_job bs) (Suc 0) = 4096"
    by (simp_all add: packet_seg_addr_def) (simp_all add: big_job_def zero_packet_def)
  have r: "seg_room (big_job bs) 0 = 4096" "seg_room (big_job bs) 1 = 4096" "seg_room (big_job bs) 2 = length bs - 8192"
    using assms by (simp_all add: seg_room_def) (simp_all add: big_job_def)
  have l3: "i < 3 \<longleftrightarrow> i = 0 \<or> i = 1 \<or> i = 2" for i :: nat by auto
  have "packet_ok (big_job bs)" using assms r unfolding packet_ok_def n(1) l3 by auto (simp_all add: big_job_def zero_packet_def)
  moreover have "rooms_le 4096 (big_job bs)" using assms r unfolding rooms_le_def n(1) l3 by auto
  moreover have "packet_frames (big_job bs) = [0, 4096, 8192]" unfolding packet_frames_def n using a by simp
  ultimately show "holds {#0, 4096, 8192, 12288, 16384, 20480, 24576, 28672#} [big_job bs] (big_state bs)"
    using assms big_pool_ok big_rings(2,3)
    by (simp add: holds_def dp_frames_def big_mem) (simp add: big_pool_def)
  show "packet_capacity (dp_mem (big_state bs)) (big_job bs) = length bs + 4096"
    using assms r by (simp add: packet_capacity_def n big_mem big_pool_ok)
  let ?mem = "bs @ replicate (32768 - length bs) 0"
  have sl: "seg_len (big_job bs) = [4096, 4096, length bs - 8192, 0]" "len (big_job bs) = length bs" "nsegs (big_job bs) = 3"
    by (simp_all add: big_job_def)
  have st: "stored ?mem (big_job bs) [0, 1, 2] = bs"
  proof -
    have "take 4096 bs @ take 4096 (drop 4096 bs) @ drop 8192 bs = bs"
    proof -
      have "drop 8192 bs = drop 4096 (drop 4096 bs)" by simp
      then show ?thesis by (simp only: append_take_drop_id)
    qed
    then show ?thesis using assms by (simp add: stored_def sl a mem_read_def)
  qed
  have "linearize_segs ?mem (big_job bs) 3 [0, 1, 2] 0 dst = Done (bs @ drop (length bs) dst, length bs)" if "length dst = 9216" "length bs \<le> 9216" for dst
    using linearize_stored [of "[0, 1, 2]" "big_job bs" ?mem 0 dst 3] st assms that by (simp add: sl a)
  then show "carries (dp_mem (big_state bs)) (big_job bs) bs"
    using assms by (simp add: carries_def sl ne_packet_linearize_def NE_PACKET_MAX_SEGS_def big_mem n(2) NE_JUMBO_FRAME_MAX_def)
qed

lemma short_job_facts:
  assumes "0 < length bs" "length bs \<le> 4096"
  shows "holds {#0, 12288, 16384, 20480, 24576, 28672#} [work_job bs] (big_state bs)" "carries (dp_mem (big_state bs)) (work_job bs) bs"
    "packet_capacity (dp_mem (big_state bs)) (work_job bs) = length bs + 12288"
proof -
  have "packet_ok (work_job bs)" "rooms_le 4096 (work_job bs)" "frames_of [work_job bs] = {#0#}"
    using work_state_holds(1) [OF assms] assms work_nsegs [of bs]
    by (auto simp: holds_def packet_frames_def work_mem)
  then show "holds {#0, 12288, 16384, 20480, 24576, 28672#} [work_job bs] (big_state bs)"
    using assms big_pool_ok big_rings(2,3)
    by (simp add: holds_def dp_frames_def big_mem) (simp add: big_pool_def)
  show "packet_capacity (dp_mem (big_state bs)) (work_job bs) = length bs + 12288"
    using assms by (simp add: packet_capacity_def work_nsegs big_mem big_pool_ok)
  have "ne_packet_linearize (dp_mem (big_state bs)) (work_job bs) dst 9216 = Done (bs @ drop (length bs) dst)" if "length dst = 9216" for dst
    using assms that
    by (simp add: ne_packet_linearize_def big_mem NE_PACKET_MAX_SEGS_def mem_copy_def mem_write_def mem_read_def)
      (simp add: work_job_def zero_packet_def packet_seg_addr_def mem_copy_def mem_write_def mem_read_def Let_def)
  then show "carries (dp_mem (big_state bs)) (work_job bs) bs"
    by (simp add: carries_def NE_JUMBO_FRAME_MAX_def) (simp add: work_job_def)
qed

definition datagram :: bytes where "datagram = take 9000 demo_jumbo"

lemma datagram_facts:
  "length datagram = 9000" "eth_read_et datagram 12 = ETH_P_IP" "drop_bit 4 (datagram ! 14) = 4"
  "flow_proto datagram (length datagram) = IPPROTO_UDP" "l2_crypto_need_split L2_PROTO_UDP (length datagram)"
proof -
  show l: "length datagram = 9000" by (simp add: datagram_def demo_jumbo_facts)
  have n: "datagram ! 12 = 0x08" "datagram ! 13 = 0x00" "datagram ! 14 = 0x45" "datagram ! 23 = 17"
    by (simp_all add: datagram_def demo_jumbo_nth)
  then show "eth_read_et datagram 12 = ETH_P_IP" "drop_bit 4 (datagram ! 14) = 4" by (simp_all add: eth_read_et_def eth_consts)
  then show "flow_proto datagram (length datagram) = IPPROTO_UDP"
    using l n by (simp add: flow_proto_def eth_eqs IPPROTO_UDP_def)
  show "l2_crypto_need_split L2_PROTO_UDP (length datagram)"
    using l by (simp add: l2_crypto_need_split_def l2_crypto_need_udp_split_def l2_udp_need_split_def l2_sizes)
qed

lemma big_receiver:
  assumes "holds G [job] (big_state bs)" "carries (dp_mem (big_state bs)) job bs" "tables_ok g"
  shows "udp_receiver_ready work_env G job ((big_state bs)\<lparr>g_tables := g\<rparr>) bs"
proof -
  have "has_room (MidToLocal 0 k) ((big_state bs)\<lparr>g_tables := g\<rparr>)" if "k < NE_CRYPTO_WORKERS" for k
    using that big_rings(1) [of "MidToLocal 0 k" bs] work_ring_ok unfolding has_room_def by (simp del: ring_at.simps) (simp add: work_ring_def)
  moreover have "fwd_local_count (fwd (big_state bs)) = 1" by (simp add: big_state_def set_mem_def) (simp add: work_state_def)
  ultimately show ?thesis
    using assms worker_ok_updates(5) [OF big_state_ok assms(3)] by (simp add: udp_receiver_ready_def)
qed

lemma big_consts:
  "dp_out_ring_idx (rt (big_state bs)) = 2" "ctx_key (crypto (fwd (big_state bs))) = ctx_key demo_ctx"
  "dp_crypto_current_worker_idx (rt (big_state bs)) = 2" "g_tables (big_state bs) = (\<lambda>_. None)" "fwd_wan_count (fwd (big_state bs)) = 1"
  by (simp_all add: big_state_def dp_out_ring_idx_def dp_crypto_current_worker_idx_def) (simp_all add: work_state_def)

lemma big_sender:
  "udp_sender_ready work_env {#0, 4096, 8192, 12288, 16384, 20480, 24576, 28672#} (big_job datagram) (big_state datagram) datagram"
proof -
  have l: "8192 < length datagram" "length datagram \<le> 9216" by (simp_all add: datagram_facts)
  have "has_room2 (MidToWan 0 2) (big_state datagram)"
    using big_rings(1) [of "MidToWan 0 2" datagram] work_ring_ok unfolding has_room2_def by (simp del: ring_at.simps) (simp add: work_ring_def)
  then show ?thesis
    unfolding udp_sender_ready_def big_consts big_job_facts(3) [OF l] datagram_facts(1)
    using big_state_ok big_job_facts(1,2) [OF l] big_apart(1) big_pool_ok(2)
    by (intro conjI) (simp_all add: big_mem)
qed

lemma readable_big: "8192 < length bs \<Longrightarrow> length bs \<le> 9216 \<Longrightarrow> readable 4096 (big_job bs)"
  by (auto simp: readable_def packet_nsegs_def big_job_def less_Suc_eq numeral_3_eq_3)

lemma big_first:
  assumes "8192 < length bs" "length bs \<le> 9216" "dataplane_process_wan work_env (big_job bs) (big_state bs) = Done p"
  shows "tables_ok (g_tables p)"
proof -
  have "readable (frame_size (dp_mem (big_state bs))) (big_job bs)" using readable_big [OF assms(1,2)] by (simp add: big_mem)
  then have "worker_ok work_env p"
    using process_wan_ok [OF big_state_ok big_job_facts(1) [OF assms(1,2)]] assms(3) by auto
  then show ?thesis by (rule worker_okD(4))
qed

theorem tunnel_udp_split_end_to_end_witness:
  "\<exists>s' f0 f1 p1 p2 k. dataplane_process_local work_env (big_job datagram) (big_state datagram) = Done s' \<and>
     emits2 (MidToWan 0 2) (big_state datagram) s' f0 f1 \<and>
     dataplane_process_wan work_env (big_job f0) (big_state f0) = Done p1 \<and>
     dataplane_process_wan work_env (work_job f1) ((big_state f1)\<lparr>g_tables := g_tables p1\<rparr>) = Done p2 \<and>
     emits (MidToLocal 0 k) ((big_state f1)\<lparr>g_tables := g_tables p1\<rparr>) p2 datagram"
proof -
  have l: "length datagram \<le> 9216" by (simp add: datagram_facts)
  obtain s' f0 f1 where s': "dataplane_process_local work_env (big_job datagram) (big_state datagram) = Done s'"
    "emits2 (MidToWan 0 2) (big_state datagram) s' f0 f1" "length f0 \<le> 9014" "length f1 \<le> 308" "length f0 + length f1 = 9106"
    "joins (env_lib work_env) (ctx_key demo_ctx) (fst (l2_crypto_epoch (env_os work_env) (l2 (big_state datagram))))
       (g_udp_tx_datagram_clock (l2 (big_state datagram))) f0 f1 datagram"
    using tunnel_udp_split_end_to_end [OF big_sender datagram_facts(2-5) l, unfolded big_consts datagram_facts(1)] by force
  have n: "8192 < length f0" "length f0 \<le> 9216" "0 < length f1" "length f1 \<le> 4096" using s'(3-5) by auto
  have "tables_ok (g_tables (big_state f0))" by (simp add: tables_ok_def big_consts)
  from big_receiver [OF big_job_facts(1,2) [OF n(1,2)] this]
  have r0: "udp_receiver_ready work_env {#0, 4096, 8192, 12288, 16384, 20480, 24576, 28672#} (big_job f0) (big_state f0) f0" by simp
  have nd: "new_datagram work_env e d (big_state f0)" for e d unfolding new_datagram_def big_consts by (simp add: work_env_def)
  from s'(6) [unfolded joins_def, rule_format, OF conjI [OF refl conjI [OF big_consts(2) conjI [OF r0 nd]]]]
  obtain p1 where p1: "dataplane_process_wan work_env (big_job f0) (big_state f0) = Done p1"
    and second: "\<And>env' F' job' s'. env_lib env' = env_lib work_env \<and> ctx_key (crypto (fwd s')) = ctx_key demo_ctx \<and>
       udp_receiver_ready env' F' job' s' f1 \<and> can_store (length datagram) job' s' \<and> g_tables s' = g_tables p1 \<and>
       dp_crypto_current_worker_idx (rt s') = dp_crypto_current_worker_idx (rt (big_state f0)) \<and>
       env_now env' - env_now work_env \<le> L2_FRAG_TIMEOUT_NS \<longrightarrow>
       (\<exists>s2 k. dataplane_process_wan env' job' s' = Done s2 \<and> k < NE_CRYPTO_WORKERS \<and> emits (MidToLocal 0 k) s' s2 datagram)"
    by blast
  let ?p = "(big_state f1)\<lparr>g_tables := g_tables p1\<rparr>"
  note h1 = short_job_facts [OF n(3,4)]
  have r1: "udp_receiver_ready work_env {#0, 12288, 16384, 20480, 24576, 28672#} (work_job f1) ?p f1"
    by (rule big_receiver [OF h1(1,2) big_first [OF n(1,2) p1]])
  have "spans_ok (dp_mem (big_state f1)) (work_job f1)"
    by (rule apart_spans_ok [OF h1(1)]) (use big_apart(2) in \<open>simp add: big_mem\<close>)
  then have st: "can_store (length datagram) (work_job f1) ?p"
    using h1(3) by (simp add: can_store_def datagram_facts(1))
  have "\<exists>s2 k. dataplane_process_wan work_env (work_job f1) ?p = Done s2 \<and> k < NE_CRYPTO_WORKERS \<and> emits (MidToLocal 0 k) ?p s2 datagram"
    using second [of work_env ?p "{#0, 12288, 16384, 20480, 24576, 28672#}" "work_job f1"] r1 st
    by (simp add: big_consts)
  then show ?thesis using s'(1,2) p1 by blast
qed

end
