(* ===== verification/Tunnel_Whole.thy ===== *)
theory Tunnel_Whole
  imports Tunnel_Udp
begin

text \<open>
  The tunnel end to end for UDP datagrams that are sealed whole, through the same two functions as in
  \<open>Tunnel_Udp\<close>: the frame carries the shim with the sequence number, and the receiving worker passes it on at once.
\<close>

section \<open>Sending\<close>

lemma udp_frame_parts:
  assumes "dp_parse_flow plain (length plain) = Some f" "proto f = IPPROTO_UDP"
  obtains m l3 where "plain = m @ [0x08, 0x00] @ l3" "length m = 12" "20 \<le> length l3" "flow_proto plain (length plain) = IPPROTO_UDP"
proof -
  obtain x where x: "crypto_eth_ipv4_offset plain (length plain) = Some x" using assms(1) by (auto simp: dp_parse_flow_def split: option.splits)
  then have n: "34 \<le> length plain" "eth_read_et plain 12 = ETH_P_IP" by (auto simp: ipv4_offset_eq split: if_splits)
  have pf: "flow_proto plain (length plain) = IPPROTO_UDP"
    using assms x by (auto simp: dp_parse_flow_def flow_proto_def Let_def split: if_splits)
  obtain m l3 where f: "length m = 12" "length l3 = length plain - 14" "take (length plain) plain = m @ [0x08, 0x00] @ l3"
    by (rule split_ipv4_frame [OF n(1) order_refl n(2)])
  have "20 \<le> length l3" using f(2) n(1) by linarith
  then show ?thesis using that [OF _ f(1)] f(3) pf by simp
qed

lemma encrypt_whole_udp_emits:
  assumes ok: "worker_ok env s" and h: "holds F [job] s" and ln: "len job = length plain" and st: "can_store (length plain + 46) job s"
    and v: "g_udp_tx_valid (l2 s)" and p: "plain = m @ [0x08, 0x00] @ l3" "length m = 12" "20 \<le> length l3" "length plain \<le> 8968"
      "length (plain @ r) = 9216"
  shows "\<exists>s' j' nonce e. encrypt_whole env L2_PROTO_UDP w job (plain @ r) s = (Done 0, (s', j')) \<and> holds F [j'] s' \<and> length nonce = 12 \<and>
    carries (dp_mem s') j' (udp_wire (env_lib env) (ctx_key (crypto (fwd s))) (g_worker_idx (l2 s)) nonce m
      (L2_UDP_KIND_FULL, e, g_udp_tx_seq (l2 s), g_udp_tx_datagram_id (l2 s)) l3) \<and>
    rt s' = rt s \<and> (\<forall>ref. ring_at ref (fwd s') = ring_at ref (fwd s))"
proof -
  note k = worker_okD [OF ok]
  have lp: "length plain = 14 + length l3" "46 \<le> length r" "length l3 \<le> 9156" using p by auto
  obtain nonce ls e where e: "length nonce = 12"
    "l2_do_encrypt_udp (env_os env) (env_lib env) (crypto (fwd s)) (m @ [0x08, 0x00] @ l3 @ r) (14 + length l3) (l2 s) =
      (Done (udp_wire (env_lib env) (ctx_key (crypto (fwd s))) (g_worker_idx (l2 s)) nonce m
               (L2_UDP_KIND_FULL, e, g_udp_tx_seq (l2 s), g_udp_tx_datagram_id (l2 s)) l3 @ drop 46 r, length l3 + 60), ls)"
    by (rule do_encrypt_udp_full [OF k(1-3) v p(2,3) lp(3,2)]) (rule that; assumption)
  define u where "u = udp_wire (env_lib env) (ctx_key (crypto (fwd s))) (g_worker_idx (l2 s)) nonce m
      (L2_UDP_KIND_FULL, e, g_udp_tx_seq (l2 s), g_udp_tx_datagram_id (l2 s)) l3"
  have lu: "length u = length l3 + 60" using length_wires(2) [OF k(1) ctx_okD(2) [OF k(2)] e(1) p(2)] by (simp add: u_def)
  have et: "eth_read_et (plain @ r) 12 = ETH_P_IP" using p(1,2) by (simp add: be16_consts)
  have enc: "l2_crypto_encrypt (env_os env) (env_lib env) L2_PROTO_UDP (crypto (fwd s)) (plain @ r) (length plain) (l2 s) = (Done (u @ drop 46 r, length l3 + 60), ls)"
    using e(2) et p(1-3) lp(1) ctx_okD(1) [OF k(2)]
    by (simp add: l2_crypto_encrypt_def l2_udp_encrypt_def eth_eqs l2_sizes u_def)
  let ?s1 = "set_buf w (u @ drop 46 r) (s\<lparr>l2 := ls\<rparr>)"
  have h1: "holds F [job] ?s1" "can_store (length u) job ?s1" using h st lu lp(1) by (simp_all add: store_scratch add.commute)
  have pos: "0 < length u" "length u \<le> 9216" using lu lp p(4) by auto
  obtain m1 j where w: "ne_packet_write (dp_mem ?s1) job (u @ drop 46 r) (length u) = (Done True, m1, j)" "carries m1 j (take (length u) (u @ drop 46 r))"
    by (rule write_carries [OF h1 pos, of "u @ drop 46 r"]) auto
  have "holds F [j] (set_mem m1 ?s1)" using holds_write [OF h1(1) _ w(1)] by auto
  moreover have "encrypt_whole env L2_PROTO_UDP w job (plain @ r) s = (Done 0, (set_mem m1 ?s1, j))"
    using w(1) ln enc p(4) lp(1) lu by (simp add: encrypt_whole_def l2_sizes Let_def)
  ultimately show ?thesis using e(1) w(2)
    by (intro exI [of _ "set_mem m1 ?s1"] exI [of _ j] exI [of _ nonce] exI [of _ e]) (simp add: u_def)
qed

definition udp_whole_ready :: "'c dp_env \<Rightarrow> u64 multiset \<Rightarrow> ne_packet \<Rightarrow> dp_state \<Rightarrow> bytes \<Rightarrow> bool" where
  "udp_whole_ready env F job s plain \<longleftrightarrow> worker_ok env s \<and> holds F [job] s \<and> carries (dp_mem s) job plain \<and>
     can_store (length plain + 46) job s \<and> fwd_wan_count (fwd s) = 1 \<and> has_room (MidToWan 0 (dp_out_ring_idx (rt s))) s"

lemma send_udp_whole:
  assumes ready: "udp_whole_ready env F job s plain" and n: "length plain \<le> 8968"
    and f: "dp_parse_flow plain (length plain) = Some f" "proto f = IPPROTO_UDP"
  shows "\<exists>s' nonce e q m l3. dataplane_process_local env job s = Done s' \<and> length nonce = 12 \<and> length m = 12 \<and> 20 \<le> length l3 \<and>
    plain = m @ [0x08, 0x00] @ l3 \<and> emits (MidToWan 0 (dp_out_ring_idx (rt s))) s s'
      (udp_wire (env_lib env) (ctx_key (crypto (fwd s))) (g_worker_idx (l2 s)) nonce m
        (L2_UDP_KIND_FULL, e, q, g_udp_tx_datagram_clock (l2 s)) l3)"
proof -
  note a = ready [unfolded udp_whole_ready_def]
  have ok: "worker_ok env s" and c: "carries (dp_mem s) job plain" and wc: "fwd_wan_count (fwd s) = 1" using a by simp_all
  obtain m l3 where p: "plain = m @ [0x08, 0x00] @ l3" "length m = 12" "20 \<le> length l3" "flow_proto plain (length plain) = IPPROTO_UDP"
    by (rule udp_frame_parts [OF f])
  define w where "w = nat (dp_crypto_current_worker_idx (rt s))"
  have n': "length plain \<le> 9216" using n by simp
  obtain r q rs where l: "length (plain @ r) = 9216" "w < NE_CRYPTO_WORKERS" "dp_out_ring_idx rs = dp_out_ring_idx (rt s)"
    "worker_ok env ((set_buf w (plain @ r) s)\<lparr>rt := rs, l2 := l2_crypto_udp_set_tx_seq q (l2 s)\<rparr>)"
    "dataplane_process_local env job s =
      (case (if l2_crypto_need_split L2_PROTO_UDP (length plain)
             then encrypt_split env 0 w job (plain @ r) ((set_buf w (plain @ r) s)\<lparr>rt := rs, l2 := l2_crypto_udp_set_tx_seq q (l2 s)\<rparr>)
             else encrypt_whole env L2_PROTO_UDP w job (plain @ r) ((set_buf w (plain @ r) s)\<lparr>rt := rs, l2 := l2_crypto_udp_set_tx_seq q (l2 s)\<rparr>)) of
         (Fault, _) \<Rightarrow> Fault
       | (Fail, (s2, job2)) \<Rightarrow> Done (dp_free job2 s2)
       | (Done enc, (s2, job2)) \<Rightarrow> if enc > 0 then Done s2 else Done (snd (snd (push_to_wan 0 job2 s2))))"
    by (rule local_udp [OF ok c n' wc f p(4) w_def]) (rule that; assumption)
  let ?s2 = "(set_buf w (plain @ r) s)\<lparr>rt := rs, l2 := l2_crypto_udp_set_tx_seq q (l2 s)\<rparr>"
  have ns: "\<not> l2_crypto_need_split L2_PROTO_UDP (length plain)"
    using n by (simp add: l2_crypto_need_split_def l2_crypto_need_udp_split_def l2_udp_need_split_def l2_sizes)
  have h2: "holds F [job] ?s2" "len job = length plain" "can_store (length plain + 46) job ?s2" "g_udp_tx_valid (l2 ?s2)"
    using a c by (simp_all add: can_store_def carries_def l2_crypto_udp_set_tx_seq_def)
  have lk: "g_worker_idx (l2 ?s2) = g_worker_idx (l2 s)" "g_udp_tx_datagram_id (l2 ?s2) = g_udp_tx_datagram_clock (l2 s)"
    "rt ?s2 = rs" "ring_at ref (fwd ?s2) = ring_at ref (fwd s)" "crypto (fwd ?s2) = crypto (fwd s)" for ref
    by (simp_all add: l2_crypto_udp_set_tx_seq_def del: ring_at.simps)
  from encrypt_whole_udp_emits [OF l(4) h2 p(1-3) n l(1), of w, unfolded lk]
  obtain s3 j3 nonce e where e: "encrypt_whole env L2_PROTO_UDP w job (plain @ r) ?s2 = (Done 0, (s3, j3))" "holds F [j3] s3" "length nonce = 12"
    "carries (dp_mem s3) j3 (udp_wire (env_lib env) (ctx_key (crypto (fwd s))) (g_worker_idx (l2 s)) nonce m
      (L2_UDP_KIND_FULL, e, g_udp_tx_seq (l2 ?s2), g_udp_tx_datagram_clock (l2 s)) l3)"
    "rt s3 = rs" "\<And>ref. ring_at ref (fwd s3) = ring_at ref (fwd s)" by blast
  let ?u = "udp_wire (env_lib env) (ctx_key (crypto (fwd s))) (g_worker_idx (l2 s)) nonce m
      (L2_UDP_KIND_FULL, e, g_udp_tx_seq (l2 ?s2), g_udp_tx_datagram_clock (l2 s)) l3"
  have "length ?u = length l3 + 60"
    using length_wires(2) [OF worker_okD(1) [OF ok] ctx_okD(2) [OF worker_okD(2) [OF ok]] e(3) p(2)] by simp
  then have lu: "length ?u \<le> 9216" using n p(1,2) by simp
  have rm: "has_room (MidToWan 0 (dp_out_ring_idx (rt s3))) s3" "dp_out_ring_idx (rt s3) < NE_CRYPTO_WORKERS"
    using a l(3) worker_okD(5) [OF ok] e(5,6) by (simp_all add: has_room_def del: ring_at.simps)
  have "emits (MidToWan 0 (dp_out_ring_idx (rt s))) s (snd (snd (push_to_wan 0 j3 s3))) ?u"
    using send_frame [OF e(2,4) lu rm] l(3) e(5,6) by (simp add: emits_def del: ring_at.simps)
  moreover have "dataplane_process_local env job s = Done (snd (snd (push_to_wan 0 j3 s3)))" using l(5) ns e(1) by simp
  ultimately show ?thesis using e(3) p(1-3) by blast
qed

section \<open>Receiving\<close>

lemma reasm_full:
  assumes "aead_laws lib" "ctx_ok ctx" "trf_ok peer" "length m = 12" "length nonce = 12" "20 \<le> length l3" "14 + length l3 \<le> 9216" "length out = 9216"
  obtains ls where "trf_ok ls"
    "l2_crypto_reassemble_udp c lib wi ctx (udp_wire lib (ctx_key ctx) w nonce m (L2_UDP_KIND_FULL, e, q, d) l3 @ post) (length l3 + 60) out now (peer, g) =
      (Done (Some ((m @ [0x08, 0x00] @ l3) @ drop (14 + length l3) out, 14 + length l3)), (ls, g))"
proof -
  obtain junk ls where d: "trf_ok ls"
    "l2_do_decrypt_udp lib ctx (udp_wire lib (ctx_key ctx) w nonce m (L2_UDP_KIND_FULL, e, q, d) l3 @ post) (length l3 + 60) peer =
     (Done (m @ [0x08, 0x00] @ l3 @ junk, 14 + length l3, L2_UDP_KIND_FULL, e, q, d), ls)"
    by (rule do_decrypt_udp_wire [OF assms(1-5), of L2_UDP_KIND_FULL]) (auto simp: l2_kinds)
  have t: "take (14 + length l3) (m @ [0x08, 0x00] @ l3 @ junk) = m @ [0x08, 0x00] @ l3" using assms(4) by simp
  have "mem_write out 0 (m @ [0x08, 0x00] @ l3) = Done ((m @ [0x08, 0x00] @ l3) @ drop (14 + length l3) out)"
    using assms(4,7,8) by (simp add: mem_write_def)
  moreover have "crypto_pkt_is_ipv4 (m @ [0x08, 0x00] @ l3 @ junk) (14 + length l3)" using assms(4,6) by (simp add: is_ipv4_eq be16_consts)
  ultimately show ?thesis
    by (intro that [OF d(1)])
      (simp add: l2_crypto_reassemble_udp_def l2_udp_reasm_def d(2) t del: take_append append_assoc append_Cons)
qed

lemma receive_udp_whole:
  assumes ready: "udp_receiver_ready env F job s wire" and store: "can_store (14 + length l3) job s"
    and wire: "wire = udp_wire (env_lib env) (ctx_key (crypto (fwd s))) worker nonce m (L2_UDP_KIND_FULL, e, q, d) l3"
    and l: "length nonce = 12" "length m = 12" "20 \<le> length l3" "length l3 \<le> 9156"
  shows "\<exists>s' k. dataplane_process_wan env job s = Done s' \<and> k < NE_CRYPTO_WORKERS \<and> emits (MidToLocal 0 k) s s' (m @ [0x08, 0x00] @ l3)"
proof -
  note a = ready [unfolded udp_receiver_ready_def]
  have ok: "worker_ok env s" using a by simp
  note k = worker_okD [OF ok]
  define w where "w = nat (dp_crypto_current_worker_idx (rt s))"
  have wi: "\<not> (dp_crypto_current_worker_idx (rt s) < 0 \<or> int NE_CRYPTO_WORKERS \<le> dp_crypto_current_worker_idx (rt s))" "w < NE_CRYPTO_WORKERS"
    using ok by (auto simp: worker_ok_def w_def nat_less_iff)
  have lw: "length wire = length l3 + 60" using length_wires(2) [OF k(1) ctx_okD(2) [OF k(2)] l(1,2)] by (simp add: wire)
  define r where "r = drop (length wire) (crypto_buf (fwd s) ! w)"
  have ln: "ne_packet_linearize (dp_mem s) job (crypto_buf (fwd s) ! w) NE_JUMBO_FRAME_MAX = Done (wire @ r)" "len job = length l3 + 60"
    using a k(6) [OF wi(2)] lw by (auto simp: carries_def r_def)
  have lp: "length (wire @ r) = 9216" using l(4) lw k(6) [OF wi(2)] by (simp add: r_def)
  have rec: "crypto_eth_l2_has_marker (wire @ r) (length l3 + 60)" "is_udp_wire (wire @ r) (length l3 + 60)"
    using udp_wire_recognised [OF l(2,1) order_refl] by (simp_all add: wire)
  let ?plain = "m @ [0x08, 0x00] @ l3" and ?n = "14 + length l3"
  define out where "out = ?plain @ drop ?n (crypto_aux (fwd s) ! w)"
  have n: "?n \<le> 9216" using l(4) by simp
  obtain ls where d: "trf_ok ls"
    "l2_crypto_reassemble_udp (env_calloc env) (env_lib env) (dp_crypto_current_worker_idx (rt s)) (crypto (fwd s)) (wire @ r) (length l3 + 60)
       (crypto_aux (fwd s) ! w) (env_now env) (l2 s, g_tables s) = (Done (Some (out, ?n)), (ls, g_tables s))"
    unfolding wire out_def by (rule reasm_full [OF k(1-3) l(2,1,3) n k(7) [OF wi(2)]])
  have lo: "length out = 9216" "take ?n out = ?plain" using k(7) [OF wi(2)] l(2) n by (simp_all add: out_def)
  let ?s2 = "set_aux w out ((set_buf w (wire @ r) s)\<lparr>l2 := ls, g_tables := g_tables s\<rparr>)"
  have "worker_ok env ((set_buf w (wire @ r) s)\<lparr>l2 := ls, g_tables := g_tables s\<rparr>)"
    by (intro worker_ok_updates(5) worker_ok_updates(4) worker_ok_updates(2) ok d(1) lp k(4))
  then have w2: "worker_ok env ?s2" using lo(1) by (rule worker_ok_updates(3))
  have h2: "holds F [job] ?s2" "can_store ?n job ?s2" "fwd_local_count (fwd ?s2) = 1"
    using a store by (simp_all add: store_scratch) (simp add: set_aux_def set_buf_def)
  have room: "has_room (MidToLocal 0 k) ?s2" if "k < NE_CRYPTO_WORKERS" for k
    using a that unfolding has_room_def by (simp del: ring_at.simps)
  obtain s' i where e: "deliver_local w job out ?n ?s2 = Done s'" "i < NE_CRYPTO_WORKERS" "emits (MidToLocal 0 i) ?s2 s' (take ?n out)"
    using deliver_emits [OF w2 h2(1,2) _ n _ h2(3) room] lo n by force
  have "emits (MidToLocal 0 i) s s' ?plain" using e(3) lo(2) unfolding emits_def by (simp del: ring_at.simps)
  moreover have "dataplane_process_wan env job s = Done s'"
    using wi(1) ln rec d(2) e(1) by (simp add: dataplane_process_wan_def Let_def flip: w_def)
  ultimately show ?thesis using e(2) by blast
qed

text \<open>C3: The tunnel end to end, for UDP datagrams that are sealed whole: the worker numbers the datagram, adds 46 bytes and puts the
  frame into its WAN ring, and any worker of a peer with the same key that takes these wire bytes puts the original frame,
  byte for byte, into a LAN ring.\<close>
theorem tunnel_udp_whole_end_to_end:
  assumes "udp_whole_ready env F job s plain" "dp_parse_flow plain (length plain) = Some f" "proto f = IPPROTO_UDP"
    "\<not> l2_crypto_need_split L2_PROTO_UDP (length plain)"
  shows "\<exists>s' wire. dataplane_process_local env job s = Done s' \<and> emits (MidToWan 0 (dp_out_ring_idx (rt s))) s s' wire \<and>
    length wire = length plain + 46 \<and>
    (\<forall>penv G pjob p. env_lib penv = env_lib env \<and> ctx_key (crypto (fwd p)) = ctx_key (crypto (fwd s)) \<and>
       udp_receiver_ready penv G pjob p wire \<and> can_store (length plain) pjob p \<longrightarrow>
       (\<exists>p' k. dataplane_process_wan penv pjob p = Done p' \<and> k < NE_CRYPTO_WORKERS \<and> emits (MidToLocal 0 k) p p' plain))"
proof -
  have n: "length plain \<le> 8968"
    using assms(4) by (simp add: l2_crypto_need_split_def l2_crypto_need_udp_split_def l2_udp_need_split_def l2_sizes)
  have ok: "worker_ok env s" using assms(1) by (simp add: udp_whole_ready_def)
  note k = worker_okD(1) [OF ok] ctx_okD(2) [OF worker_okD(2) [OF ok]]
  obtain s' nonce e q m l3 where s': "dataplane_process_local env job s = Done s'" "length nonce = 12" "length m = 12" "20 \<le> length l3"
    "plain = m @ [0x08, 0x00] @ l3" "emits (MidToWan 0 (dp_out_ring_idx (rt s))) s s'
      (udp_wire (env_lib env) (ctx_key (crypto (fwd s))) (g_worker_idx (l2 s)) nonce m
        (L2_UDP_KIND_FULL, e, q, g_udp_tx_datagram_clock (l2 s)) l3)" (is "emits _ _ _ ?w")
    using send_udp_whole [OF assms(1) n assms(2,3)] by blast
  have lp: "length plain = 14 + length l3" using s'(3,5) by simp
  have "length ?w = length plain + 46" using length_wires(2) [OF k s'(2,3)] lp by simp
  moreover have "\<exists>p' k. dataplane_process_wan penv pjob p = Done p' \<and> k < NE_CRYPTO_WORKERS \<and> emits (MidToLocal 0 k) p p' plain"
    if p: "env_lib penv = env_lib env" "ctx_key (crypto (fwd p)) = ctx_key (crypto (fwd s))" "udp_receiver_ready penv G pjob p ?w"
      "can_store (length plain) pjob p" for penv :: "'a dp_env" and G pjob p
  proof -
    have "?w = udp_wire (env_lib penv) (ctx_key (crypto (fwd p))) (g_worker_idx (l2 s)) nonce m
        (L2_UDP_KIND_FULL, e, q, g_udp_tx_datagram_clock (l2 s)) l3" using p(1,2) by simp
    from receive_udp_whole [OF p(3) p(4) [unfolded lp] this s'(2-4)] n lp show ?thesis by (simp add: s'(5))
  qed
  ultimately show ?thesis using s'(1,6) by blast
qed

section \<open>A datagram through the tunnel\<close>

lemma demo_udp_frame:
  "length demo_udp = 50" "\<not> l2_crypto_need_split L2_PROTO_UDP (length demo_udp)"
  "\<exists>f. dp_parse_flow demo_udp (length demo_udp) = Some f \<and> proto f = IPPROTO_UDP"
proof -
  show l: "length demo_udp = 50" by (simp add: demo_udp_def)
  show "\<not> l2_crypto_need_split L2_PROTO_UDP (length demo_udp)"
    using l by (simp add: l2_crypto_need_split_def l2_crypto_need_udp_split_def l2_udp_need_split_def l2_sizes)
  have n: "demo_udp ! 12 = 0x08" "demo_udp ! 13 = 0x00" "demo_udp ! 14 = 0x45" "demo_udp ! 23 = 17" by (simp_all add: demo_udp_def nth_append)
  then have "crypto_eth_ipv4_offset demo_udp (length demo_udp) = Some 14" by (simp add: ipv4_offset_eq l eth_read_et_def eth_consts)
  then show "\<exists>f. dp_parse_flow demo_udp (length demo_udp) = Some f \<and> proto f = IPPROTO_UDP"
    by (simp add: dp_parse_flow_def Let_def n l IPPROTO_UDP_def)
qed

theorem tunnel_udp_whole_end_to_end_witness:
  "\<exists>s' wire p' k. dataplane_process_local work_env (work_job demo_udp) (work_state demo_udp) = Done s' \<and> length wire = 96 \<and>
     emits (MidToWan 0 2) (work_state demo_udp) s' wire \<and>
     dataplane_process_wan work_env (work_job wire) (work_state wire) = Done p' \<and>
     emits (MidToLocal 0 k) (work_state wire) p' demo_udp"
proof -
  have l: "0 < length demo_udp" "length demo_udp \<le> 4096" by (simp_all add: demo_udp_frame)
  have c: "dp_out_ring_idx (rt (work_state bs)) = 2" "ctx_key (crypto (fwd (work_state bs))) = ctx_key demo_ctx"
    "fwd_wan_count (fwd (work_state bs)) = 1" "fwd_local_count (fwd (work_state bs)) = 1" for bs
    by (simp_all add: work_state_def dp_out_ring_idx_def)
  have ready: "udp_whole_ready work_env {#0, 4096, 8192#} (work_job demo_udp) (work_state demo_udp) demo_udp"
    using work_env_ok work_state_holds(1) [OF l] work_carries [OF l] by (simp add: udp_whole_ready_def c demo_udp_frame(1))
  obtain f where f: "dp_parse_flow demo_udp (length demo_udp) = Some f" "proto f = IPPROTO_UDP" using demo_udp_frame(3) by blast
  obtain s' wire where w: "dataplane_process_local work_env (work_job demo_udp) (work_state demo_udp) = Done s'"
    "emits (MidToWan 0 2) (work_state demo_udp) s' wire" "length wire = 96"
    and rec: "\<And>penv G pjob p. env_lib penv = env_lib work_env \<and> ctx_key (crypto (fwd p)) = ctx_key demo_ctx \<and>
       udp_receiver_ready penv G pjob p wire \<and> can_store (length demo_udp) pjob p \<longrightarrow>
       (\<exists>p' k. dataplane_process_wan penv pjob p = Done p' \<and> k < NE_CRYPTO_WORKERS \<and> emits (MidToLocal 0 k) p p' demo_udp)"
    using tunnel_udp_whole_end_to_end [OF ready f demo_udp_frame(2), unfolded c demo_udp_frame(1)]
    by (simp add: demo_udp_frame(1)) blast
  have lw: "0 < length wire" "length wire \<le> 4096" using w(3) by simp_all
  have "udp_receiver_ready work_env {#0, 4096, 8192#} (work_job wire) (work_state wire) wire"
    using work_env_ok work_state_holds(1) [OF lw] work_carries [OF lw] by (simp add: udp_receiver_ready_def c)
  moreover have "can_store (length demo_udp) (work_job wire) (work_state wire)" using work_carries(2) [OF lw] by (simp add: demo_udp_frame(1))
  ultimately have "\<exists>p' k. dataplane_process_wan work_env (work_job wire) (work_state wire) = Done p' \<and> k < NE_CRYPTO_WORKERS \<and>
      emits (MidToLocal 0 k) (work_state wire) p' demo_udp"
    using rec [of work_env "work_state wire" "{#0, 4096, 8192#}" "work_job wire"] c(2) by blast
  then show ?thesis using w by blast
qed

end
