(* ===== verification/Icmp_Drop.thy ===== *)
theory Icmp_Drop
  imports Tunnel_Udp Route_Inv
begin

text \<open>
  What the LAN direction does with an ICMP packet that is too long for one frame. \<^verbatim>\<open>l2_crypto_need_split\<close> asks for a split,
  \<^verbatim>\<open>encrypt_to_wan\<close> wants a sequence number for every split, and \<^verbatim>\<open>dp_udp_next_tx_seq\<close> has one for TCP and UDP only: the
  packet is dropped. The lemmas follow the whole handler up to the freed frames.
\<close>

lemma icmp_flow:
  assumes "flow_proto p n = IPPROTO_ICMP"
  obtains f where "dp_parse_flow p n = Some f" "proto f = IPPROTO_ICMP" "p ! 23 = 1"
proof -
  obtain x where x: "crypto_eth_ipv4_offset p n = Some x" "x = 14"
    using assms by (auto simp: flow_proto_def IPPROTO_ICMP_def crypto_eth_ipv4_offset_def crypto_eth_inner_et_off_def
        Let_def split: option.splits if_splits)
  show ?thesis
    using that assms x
    by (auto simp: flow_proto_def dp_parse_flow_def Let_def IPPROTO_ICMP_def IPPROTO_UDP_def IPPROTO_TCP_def split: if_splits)
qed

lemma clamp_not_tcp: "p ! 23 \<noteq> 6 \<Longrightarrow> snd (crypto_tcp_clamp_mss p n mtu ov) = p"
  using clamp_mss_skip [of p n mtu ov] by (auto simp: clamp_pre_def)

lemma encrypt_oversized_icmp:
  assumes "0 \<le> dp_crypto_current_worker_idx (rt s)" "dp_crypto_current_worker_idx (rt s) < int NE_CRYPTO_WORKERS"
    and "pkt = crypto_buf (fwd s) ! nat (dp_crypto_current_worker_idx (rt s))"
    and "flow_proto pkt (len job) = IPPROTO_ICMP" "8983 < len job"
  shows "encrypt_to_wan env 0 L2_PROTO_ICMP fok job s =
    (Fail, (set_buf (nat (dp_crypto_current_worker_idx (rt s))) pkt s, job))"
proof -
  obtain f where f: "dp_parse_flow pkt (len job) = Some f" "proto f = IPPROTO_ICMP" "pkt ! 23 = 1" by (rule icmp_flow [OF assms(4)])
  have "l2_crypto_need_split L2_PROTO_ICMP (len job)" using assms(5) by (simp add: l2_crypto_need_split_def l2_sizes)
  moreover have "snd (crypto_tcp_clamp_mss pkt (len job) L2_CRYPTO_MTU L2_CRYPTO_DATA_OVERHEAD) = pkt" using f(3) by (simp add: clamp_not_tcp)
  ultimately show ?thesis
    using assms(1,2) icmp_not_numbered [OF f(1,2), of "rt s"]
    by (simp add: encrypt_to_wan_def Let_def flip: assms(3))
qed

lemma dp_free_pool:
  assumes "owned T F (j # js) s"
  shows "pool_list (pool (dp_mem (dp_free j s))) = pool_list (pool (dp_mem s)) @ packet_frames j"
proof -
  obtain m q where f: "ne_packet_free (dp_mem s) j = (m, q)" by force
  then show ?thesis using packet_free_frames [OF ownedD(1,2) [OF assms] f] by (simp add: dp_free_def)
qed

text \<open>C32: An ICMP packet of more than 8983 bytes is not split but dropped: \<^verbatim>\<open>dataplane_process_local\<close> returns, puts exactly the packet's
  frames at the end of the pool, and pushes nothing on any ring. The size test asks for a split of such a packet, but a split
  needs a sequence number, which an ICMP flow never gets.\<close>
theorem oversized_icmp_is_dropped:
  assumes "worker_ok env s" "accounts F [job] s" "carries (dp_mem s) job plain"
    and "flow_proto plain (length plain) = IPPROTO_ICMP" "8983 < length plain" "length plain \<le> 9216"
  shows "l2_crypto_need_split (l2_crypto_classify IPPROTO_ICMP) (length plain) \<and> (\<exists>s'. dataplane_process_local env job s = Done s' \<and>
    pool_list (pool (dp_mem s')) = pool_list (pool (dp_mem s)) @ packet_frames job \<and>
    mid_to_wan (fwd s') = mid_to_wan (fwd s) \<and> mid_to_local (fwd s') = mid_to_local (fwd s) \<and>
    local_to_mid (fwd s') = local_to_mid (fwd s) \<and> wan_to_mid (fwd s') = wan_to_mid (fwd s) \<and> rt s' = rt s \<and> l2 s' = l2 s)"
proof -
  have split: "l2_crypto_need_split (l2_crypto_classify IPPROTO_ICMP) (length plain)"
    using assms(5) by (simp add: l2_crypto_need_split_def l2_crypto_classify_def IPPROTO_ICMP_def l2_sizes)
  define w where "w = nat (dp_crypto_current_worker_idx (rt s))"
  have wi: "0 \<le> dp_crypto_current_worker_idx (rt s)" "dp_crypto_current_worker_idx (rt s) < int NE_CRYPTO_WORKERS" "w < NE_CRYPTO_WORKERS"
    using assms(1) by (auto simp: worker_ok_def w_def nat_less_iff)
  define r where "r = drop (length plain) (crypto_buf (fwd s) ! w)"
  have ln: "ne_packet_linearize (dp_mem s) job (crypto_buf (fwd s) ! w) NE_JUMBO_FRAME_MAX = Done (plain @ r)" "len job = length plain"
    using assms(3) worker_okD(6) [OF assms(1) wi(3)] by (auto simp: carries_def r_def)
  let ?s1 = "set_buf w (plain @ r) s"
  have fp: "flow_proto (plain @ r) (length plain) = IPPROTO_ICMP" using assms(4) flow_proto_append [of plain _ r] by simp
  have buf: "(crypto_buf (fwd s))[w := plain @ r] ! w = plain @ r" using assms(1) wi(3) by (simp add: worker_ok_def bufs_ok_def)
  have enc: "encrypt_to_wan env 0 (l2_crypto_classify IPPROTO_ICMP) fok job ?s1 = (Fail, (?s1, job))" for fok
    using encrypt_oversized_icmp [of ?s1 "plain @ r" job env fok] wi ln(2) fp buf assms(5)
    by (simp add: l2_crypto_classify_def IPPROTO_ICMP_def flip: w_def) (simp add: set_buf_def)
  have eq: "dataplane_process_local env job s = Done (dp_free job ?s1)"
    using wi(1,2) ln fp enc by (simp add: dataplane_process_local_def Let_def flip: w_def)
  have "accounts F [job] ?s1" using assms(2) by simp
  from dp_free_pool [OF this] show ?thesis
    using eq split by (simp add: dp_free_def) (simp add: set_mem_def set_buf_def)
qed

definition big_ping :: bytes where
  "big_ping = replicate 12 2 @ [0x08, 0x00] @ [0x45] @ replicate 8 0 @ [1] @ replicate 8976 0"

lemma big_ping_facts: "length big_ping = 9000" "flow_proto big_ping 9000 = IPPROTO_ICMP"
proof -
  have n: "big_ping ! 12 = 0x08" "big_ping ! 13 = 0x00" "big_ping ! 14 = 0x45" "big_ping ! 23 = 1"
    by (simp_all add: big_ping_def nth_append)
  show "length big_ping = 9000" by (simp add: big_ping_def)
  have "eth_read_et big_ping 12 = ETH_P_IP" using n by (simp add: eth_read_et_def eth_consts)
  then show "flow_proto big_ping 9000 = IPPROTO_ICMP" using n by (simp add: flow_proto_def eth_eqs IPPROTO_ICMP_def)
qed

theorem oversized_icmp_is_dropped_witness:
  "\<exists>s'. dataplane_process_local work_env (big_job big_ping) (big_state big_ping) = Done s' \<and>
     pool_list (pool (dp_mem s')) = [12288, 16384, 20480, 24576, 28672] @ packet_frames (big_job big_ping) \<and>
     mid_to_wan (fwd s') = mid_to_wan (fwd (big_state big_ping))"
proof -
  have l: "8192 < length big_ping" "length big_ping \<le> 9216" "8983 < length big_ping" by (simp_all add: big_ping_facts)
  have "pool_list (pool (dp_mem (big_state big_ping))) = [12288, 16384, 20480, 24576, 28672]" by (simp add: big_mem big_pool_ok)
  then show ?thesis
    using oversized_icmp_is_dropped [OF big_state_ok owned_mono [OF big_job_facts(1) [OF l(1,2)]] big_job_facts(2) [OF l(1,2)] _ l(3,2)]
    by (auto simp: big_ping_facts)
qed

end
