(* ===== verification/Route_Refine.thy ===== *)
theory Route_Refine
  imports Route_Inv
begin

text \<open>
  The route table as an abstract map from flows to routes. The contract of the flow router is the locale \<open>route_service\<close>: a known flow
  keeps its route, an unknown one is entered once while there is room for it, and otherwise gets a default
  that is not remembered. \<^verbatim>\<open>dp_flow_route_get_key\<close> over the set-associative table implements it; that the
  map only grows under any traffic is proved from the contract.
\<close>

section \<open>The contract\<close>

definition table_get :: "bool \<Rightarrow> 'r \<Rightarrow> 'r \<Rightarrow> 'k \<Rightarrow> ('k \<rightharpoonup> 'r) \<Rightarrow> 'r \<times> ('k \<rightharpoonup> 'r)" where
  "table_get room new dflt k t =
     (case t k of Some r \<Rightarrow> (r, t) | None \<Rightarrow> if room then (new, t(k \<mapsto> new)) else (dflt, t))"

locale route_service =
  fixes get :: "'k \<Rightarrow> 'h \<Rightarrow> 's \<Rightarrow> 'r \<times> 's"
    and table :: "'s \<Rightarrow> 'k \<rightharpoonup> 'r"
    and room :: "'k \<Rightarrow> 's \<Rightarrow> bool"
    and new :: "'h \<Rightarrow> 's \<Rightarrow> 'r"
    and dflt :: "'k \<Rightarrow> 's \<Rightarrow> 'r"
  assumes get_refines: "map_prod id table (get k h s) = table_get (room k s) (new h s) (dflt k s) k (table s)"
begin

lemma get_cases:
  "table s k = Some r \<Longrightarrow> fst (get k h s) = r"
  "table s k = None \<Longrightarrow> \<not> room k s \<Longrightarrow> fst (get k h s) = dflt k s"
  "table s k = None \<Longrightarrow> room k s \<Longrightarrow> fst (get k h s) = new h s \<and> table (snd (get k h s)) k = Some (fst (get k h s))"
  using get_refines [of k h s] by (cases "get k h s"; simp add: table_get_def)+

lemma get_grows: "table s \<subseteq>\<^sub>m table (snd (get k h s))"
  using get_refines [of k h s] by (cases "get k h s") (auto simp: table_get_def map_le_def split: option.splits if_splits)

lemma gets_grow: "table s \<subseteq>\<^sub>m table (fold (\<lambda>(k, h) s. snd (get k h s)) qs s)"
proof (induction qs arbitrary: s)
  case (Cons q qs)
  obtain k h where q: "q = (k, h)" by force
  show ?case using map_le_trans [OF get_grows Cons.IH] by (simp add: q)
qed simp

lemma remembered:
  assumes "table (snd (get k h s)) k \<noteq> None"
  shows "fst (get k h' (fold (\<lambda>(k, h) s. snd (get k h s)) qs (snd (get k h s)))) = fst (get k h s)"
proof -
  have "table (snd (get k h s)) k = Some (fst (get k h s))"
    using get_refines [of k h s] assms by (cases "get k h s") (auto simp: table_get_def split: option.splits if_splits)
  then have "table (fold (\<lambda>(k, h) s. snd (get k h s)) qs (snd (get k h s))) k = Some (fst (get k h s))"
    using gets_grow [of "snd (get k h s)" qs] unfolding map_le_def by (metis domI)
  then show ?thesis by (rule get_cases(1))
qed

end

section \<open>The set-associative table\<close>

definition routes :: "route_state \<Rightarrow> dp_route_key \<rightharpoonup> dp_flow_route" where
  "routes st key = (let s = g_route_table st (route_set_idx (dp_route_key_hash key)) in
     map_option (\<lambda>w. entry_route (s ! w)) (route_lookup key s))"

definition set_has_room :: "dp_route_key \<Rightarrow> route_state \<Rightarrow> bool" where
  "set_has_room key st \<longleftrightarrow> (\<exists>e\<in>set (g_route_table st (route_set_idx (dp_route_key_hash key))). \<not> re_valid e)"

definition choose_route :: "int \<Rightarrow> route_state \<Rightarrow> dp_flow_route" where
  "choose_route hint st =
     \<lparr>worker_idx = (if 0 \<le> hint \<and> hint < 6 then nat hint
        else fst (dp_route_least_loaded (g_worker_connection_count st) 6 (g_worker_rr st))),
      tx_slot = fst (dp_route_least_loaded (g_tx_connection_count st) (unat (dp_active_tx_slots st)) (g_tx_rr st))\<rparr>"

lemma routes_insert:
  assumes "route_lookup key (g_route_table st si) = None" "w < length (g_route_table st si)" "\<not> re_valid (g_route_table st si ! w)"
    "g_route_table st' = (g_route_table st)(si := (g_route_table st si)[w := e])" "re_valid e" "re_key e = key"
    and si: "si = route_set_idx (dp_route_key_hash key)"
  shows "routes st' = (routes st)(key \<mapsto> entry_route e)"
proof
  fix k
  let ?s = "g_route_table st si"
  have other: "route_lookup k (?s[w := e]) = route_lookup k ?s" if "k \<noteq> key" for k
    using that assms(2,3,6) unfolding route_lookup_def by (intro first_index_update) auto
  have kept: "entry_route (?s[w := e] ! v) = entry_route (?s ! v)" if "route_lookup k ?s = Some v" for v
    using lookup_SomeD [OF that] assms(3) by (cases "v = w") auto
  show "routes st' k = ((routes st)(key \<mapsto> entry_route e)) k"
  proof (cases "k = key")
    case True
    have "route_lookup key (?s[w := e]) \<noteq> None"
      using assms(2,5,6) set_update_memI [of w ?s e] unfolding lookup_None by blast
    then obtain v where v: "route_lookup key (?s[w := e]) = Some v" by auto
    have "v = w"
    proof (rule ccontr)
      assume "v \<noteq> w"
      then have "v < length ?s" "re_valid (?s ! v)" "re_key (?s ! v) = key" using lookup_SomeD [OF v] by auto
      then show False using assms(1) lookup_None nth_mem by metis
    qed
    then show ?thesis using True v assms(2,4) si by (simp add: routes_def Let_def)
  next
    case False
    then show ?thesis using assms(4) other [OF False] kept
      by (cases "route_set_idx (dp_route_key_hash k) = si"; cases "route_lookup k ?s") (simp_all add: routes_def Let_def)
  qed
qed

lemma route_get_refines:
  "map_prod id routes (dp_flow_route_get_key key hint st) =
     table_get (set_has_room key st) (choose_route hint st) (hash_route (dp_route_key_hash key) st) key (routes st)"
proof (rule get_key_cases [where st = st and key = key and hint = hint])
  fix w
  assume "route_lookup key (g_route_table st (route_set_idx (dp_route_key_hash key))) = Some w"
    "dp_flow_route_get_key key hint st = (entry_route (g_route_table st (route_set_idx (dp_route_key_hash key)) ! w), st)"
  then show ?thesis by (simp add: table_get_def routes_def)
next
  assume "route_lookup key (g_route_table st (route_set_idx (dp_route_key_hash key))) = None"
    "\<forall>e\<in>set (g_route_table st (route_set_idx (dp_route_key_hash key))). re_valid e"
    "dp_flow_route_get_key key hint st = (hash_route (dp_route_key_hash key) st, st)"
  then show ?thesis by (simp add: table_get_def set_has_room_def) (simp add: routes_def)
next
  fix w st1 e
  let ?si = "route_set_idx (dp_route_key_hash key)"
  assume a: "route_lookup key (g_route_table st ?si) = None" "w < length (g_route_table st ?si)" "\<not> re_valid (g_route_table st ?si ! w)"
    "dp_flow_route_get_key key hint st = (entry_route e, st1)"
    "g_route_table st1 = (g_route_table st)(?si := (g_route_table st ?si)[w := e])" "re_valid e" "re_key e = key"
    "re_worker_idx e = (if 0 \<le> hint \<and> hint < 6 then nat hint
         else fst (dp_route_least_loaded (g_worker_connection_count st) 6 (g_worker_rr st)))"
    "re_tx_slot e = fst (dp_route_least_loaded (g_tx_connection_count st) (unat (dp_active_tx_slots st)) (g_tx_rr st))"
  have "entry_route e = choose_route hint st" using a(8,9) by (simp add: entry_route_def choose_route_def)
  moreover have "routes st1 = (routes st)(key \<mapsto> entry_route e)" by (rule routes_insert [OF a(1-3,5-7) refl])
  moreover have "set_has_room key st" using a(2,3) nth_mem unfolding set_has_room_def by blast
  moreover have "routes st key = None" using a(1) by (simp add: routes_def)
  ultimately show ?thesis using a(4) by (simp add: table_get_def)
qed

interpretation flow_router: route_service dp_flow_route_get_key routes set_has_room choose_route "\<lambda>key. hash_route (dp_route_key_hash key)"
  by unfold_locales (rule route_get_refines)

section \<open>Numbering leaves the routes alone\<close>

lemma routes_take_seq:
  assumes "route_lookup k (g_route_table st si) = Some way"
  shows "routes (snd (entry_take_seq si way d st)) = routes st"
proof
  fix key
  let ?s = "g_route_table st si" and ?e = "g_route_table st si ! way"
  let ?e' = "?e\<lparr>re_udp_tx_seq := (re_udp_tx_seq ?e)[d := re_udp_tx_seq ?e ! d + 1]\<rparr>"
  have w: "way < length ?s" using lookup_SomeD [OF assms] by simp
  have "route_lookup key (?s[way := ?e']) = route_lookup key ?s"
    unfolding route_lookup_def by (rule first_index_update) (use w in auto)
  moreover have "entry_route (?s[way := ?e'] ! i) = entry_route (?s ! i)" for i
    using w by (cases "i = way") (simp_all add: entry_route_def)
  ultimately show "routes (snd (entry_take_seq si way d st)) key = routes st key"
    by (simp add: routes_def entry_take_seq_def Let_def)
qed

lemma routes_fallback: "routes (snd (fallback_take_seq key h d st)) = routes st"
  by (auto simp: fallback_take_seq_def routes_def Let_def fun_eq_iff split: sum.splits)

lemma get_known_routes:
  assumes "dp_route_key_parse pkt n = Some key" "route_lookup key (g_route_table st (route_set_idx (dp_route_key_hash key))) = Some way"
  shows "snd (dp_flow_route_get pkt n hint st) = st"
  using assms by (simp add: dp_flow_route_get_def dp_flow_route_get_key_def Let_def)

lemma routes_next_seq:
  "routes (snd (dp_udp_next_tx_seq pkt n st)) =
     (if fst (dp_udp_next_tx_seq pkt n st) = None then routes st
      else routes (snd (dp_flow_route_get pkt n (dp_crypto_current_worker_idx st) st)))"
proof (cases "fst (dp_udp_next_tx_seq pkt n st)")
  case None
  then show ?thesis
    by (auto simp: dp_udp_next_tx_seq_def dp_next_udp_tx_seq_def Let_def split_beta split: option.splits if_splits)
next
  case (Some q)
  obtain key d where p: "dp_route_key_parse_direction pkt n = Some (key, d)"
    using Some by (cases "dp_route_key_parse_direction pkt n") (auto simp: dp_udp_next_tx_seq_def dp_next_udp_tx_seq_def)
  have kp: "dp_route_key_parse pkt n = Some key" using p by (simp add: dp_route_key_parse_def)
  obtain st1 where st1: "dp_udp_next_tx_seq pkt n st = (Some q, st1)" using Some by (metis prod.collapse)
  note u = parsed_protocol [OF p st1]
  obtain rt sa where g: "dp_flow_route_get pkt n (dp_crypto_current_worker_idx st) st = (rt, sa)" by force
  note un = next_seq_unfold [OF p u refl g]
  let ?si = "route_set_idx (dp_route_key_hash key)"
  have "routes st1 = routes sa"
  proof (cases "route_lookup key (g_route_table st ?si)")
    case (Some way)
    then have "sa = st" using get_known_routes [OF kp, of st] g by (metis snd_conv)
    then show ?thesis using st1 un Some routes_take_seq [OF Some, of d] by (cases "entry_take_seq ?si way d st") auto
  next
    case None
    show ?thesis
    proof (cases "route_lookup key (g_route_table sa ?si)")
      case (Some way)
      then show ?thesis using st1 un None routes_take_seq [OF Some, of d] by (cases "entry_take_seq ?si way d sa") auto
    next
      case none: None
      then show ?thesis using st1 un None routes_fallback [of key "dp_route_key_hash key" d sa]
        by (cases "fallback_take_seq key (dp_route_key_hash key) d sa") auto
    qed
  qed
  then show ?thesis using Some st1 g by simp
qed

text \<open>C28: The set-associative route table is a map from flows to routes. Looking up a flow refines the abstract operation: a known flow
  gets its route and nothing changes, an unknown flow is entered with the hinted or least loaded worker and the
  least loaded transmit slot while its set has a free way, and gets the hashed route, unremembered, when the set is
  full; no other flow is affected. Numbering a datagram changes the map exactly as routing it does.\<close>
theorem route_table_refines_map:
  "map_prod id routes (dp_flow_route_get_key key hint st) =
     table_get (set_has_room key st) (choose_route hint st) (hash_route (dp_route_key_hash key) st) key (routes st) \<and>
   routes (snd (dp_udp_next_tx_seq pkt n st)) =
     (if fst (dp_udp_next_tx_seq pkt n st) = None then routes st
      else routes (snd (dp_flow_route_get pkt n (dp_crypto_current_worker_idx st) st)))"
  using route_get_refines routes_next_seq by simp

text \<open>A flow that has an entry keeps it over any number of look-ups of any flows.\<close>

lemma route_remembered:
  "routes (snd (dp_flow_route_get_key key h st)) key \<noteq> None \<Longrightarrow>
   fst (dp_flow_route_get_key key h' (fold (\<lambda>(k, h) s. snd (dp_flow_route_get_key k h s)) qs (snd (dp_flow_route_get_key key h st)))) =
     fst (dp_flow_route_get_key key h st)"
  by (rule flow_router.remembered)

end
