(* ===== verification/Spec2Isabelle.thy ===== *)
theory Spec2Isabelle
  imports Ring_Conc Xsk_Slot Init_Ready Stats Bpf Tunnel_Whole Icmp_Drop Route_Refine
begin

text \<open>
  \<^bold>\<open>The program.\<close> An encrypting layer-2 tunnel on AF_XDP. Frames of a LAN interface are received in user
  space, encrypted with AES-256-GCM under one fixed key and sent on a WAN interface; frames that arrive on
  the WAN interface with one of the tunnel's two EtherTypes are decrypted and sent on the LAN. Two XDP programs
  choose the frames, receive threads hand them to crypto workers, the workers push the results into output rings
  and transmit threads send them. Packets live in one memory area (UMEM) cut into frames of 4096 bytes; the
  frames circulate between a pool, the kernel's rings, the program's rings and the threads.

  \<^bold>\<open>Conventions.\<close> C structs are records, enums and tagged outcomes datatypes, fixed-width integers words of that
  width; an \<^verbatim>\<open>int\<close> that is an index or a count is a \<open>nat\<close> where the code checks its sign, otherwise an \<open>int\<close>. A function that
  writes to a caller's buffer has the outcome type \<open>cres\<close> of \<open>Prelude\<close>: \<open>Done\<close> a result, \<open>Fail\<close> the
  error return, or \<open>Fault\<close> for an access outside the buffer, so that \<open>\<noteq> Fault\<close> is memory safety. State is passed
  explicitly; loops are structural recursion, \<open>fold\<close> over an index list, or \<open>function\<close> with a measure. The only fuel is
  that of the completion drain, the ring's contents plus one, shown to be enough in \<open>Xsk_Flow\<close>. What the program
  asks of the outside is an argument: clocks, random bytes, the environment, system-call results, and the
  scrypt library's seal and open functions, with named hypotheses only where a theorem needs them (that opening
  inverts sealing, the length of the tag).

  \<^bold>\<open>Theories and sources\<close> (under \<^verbatim>\<open>src/\<close>):

  \<^item> \<open>Prelude\<close>: C integer types, outcomes, checked copies, big-endian fields, list and multiset facts, and the locale
    \<open>step_invariant\<close> (a relation, its start states and an inductive invariant), interpreted by every step relation below.
  \<^item> \<open>Eth_Parse\<close>, \<open>Tcp_Mss\<close>: \<^verbatim>\<open>src/crypto/common/eth_parse.c\<close>, header recognition and the MSS clamp with its
    incremental checksum: the sum is kept for an even option offset, for an odd one exactly when the old and the new MSS agree modulo 257, and
    the clamped MSS fits the MTU.
  \<^item> \<open>Ring\<close>, \<open>Ring_Conc\<close>: \<^verbatim>\<open>ne_ring_*\<close> of \<^verbatim>\<open>src/core/iface/xdp_interface.c\<close>. The locale \<open>bounded_fifo\<close> is the contract; the rings
    and the frame pool interpret it. \<open>Ring_Conc\<close> interleaves the accesses of one producer (single and pair pushes) and one consumer.
  \<^item> \<open>Traffic_Crypto\<close>: \<^verbatim>\<open>src/crypto/pqc/traffic_crypto.c\<close>, \<^verbatim>\<open>crypto_pqc_layer.h\<close>, \<^verbatim>\<open>packet_crypto.c\<close>: nonces, in-place
    sealing, the key context; when nonces repeat.
  \<^item> \<open>L2_Wire\<close>, \<open>L2_Frag\<close>, \<open>L2_Reasm\<close>, \<open>L2_Safe\<close>: \<^verbatim>\<open>src/crypto/pqc/pqc_l2_option.c\<close>: the DATA and UDP wire formats and their
    round trips, splitting in two and reassembly in either order, the reassembly table and its garbage collection, memory
    safety on arbitrary received bytes.
  \<^item> \<open>Cpu_Map\<close>: \<^verbatim>\<open>src/core/util/cpu_map.c\<close> and \<^verbatim>\<open>static_config.c\<close>.
  \<^item> \<open>Flow_Route\<close>, \<open>Route_Props\<close>, \<open>Route_Inv\<close>, \<open>Route_Refine\<close>: \<^verbatim>\<open>src/core/dataplane/crypto_route.c\<close>, \<^verbatim>\<open>packet_util.c\<close>: sticky routes, range
    and load counters as an invariant of every operation, sequence numbers, and the table as a refinement of a map from flows to
    routes (the locale \<open>route_service\<close>).
  \<^item> \<open>Umem\<close>, \<open>Umem_Props\<close>, \<open>Umem_Copy\<close>: the frame pool and packets of \<^verbatim>\<open>xdp_interface.c\<close> over a byte-addressed area:
    conservation of frames, the write/read round trip, and what happens to a frame that comes back under an
    address with headroom: it is given a whole frame of capacity and a full write overruns it.
  \<^item> \<open>Xsk_Ring\<close>: the inline ring functions of \<^verbatim>\<open>include/xdp/xsk.h\<close> with the kernel as the other side of a step relation.
  \<^item> \<open>Xsk_Queue\<close>, \<open>Xsk_Recv\<close>, \<open>Xsk_Flow\<close>: receive, release, completion, fill and transmit of one queue; reception equals a
    reference parser of descriptor chains and accounts for every frame up to the overflow of its list of rejected addresses; the
    descriptors of a transmission parse back to the segments of the packets sent.
  \<^item> \<open>Xsk_Iface\<close>, \<open>Xsk_Frames\<close>: the loops over interfaces and queues of a thread slot; the locales \<open>frame_mover\<close> and
    \<open>queue_mover\<close> lift frame conservation from a queue to an interface and to a side, and are interpreted on
    release, drain and refill. \<open>Xsk_Slot\<close> shows on the receive entry points that a batch not released before the next
    receive is lost, which both receive threads bring about.
  \<^item> \<open>Idle\<close>: \<^verbatim>\<open>src/core/dataplane/idle.c\<close>: staged idling, and the handshake between a thread going to sleep and its producers over
    store buffers: a wake-up can be lost exactly when one side lacks a full fence, as both do in the code.
  \<^item> \<open>Dataplane\<close>, \<open>Dataplane_Safe\<close>, \<open>Dataplane_E2E\<close>: \<^verbatim>\<open>local_egress.c\<close> and \<^verbatim>\<open>wan_ingress.c\<close>, the whole handlers over the
    forwarder's state: frames are conserved on every path, and a frame sent through two machines arrives unchanged.
    The state predicate \<open>owned T F js s\<close> accounts for all frames \<open>F\<close>; with \<open>T = False\<close> (\<open>holds\<close>) every address also has a whole frame of
    memory behind it, with \<open>T = True\<close> (\<open>accounts\<close>) it need not. The conservation theorems start from \<open>accounts\<close>, and a
    handler can fault only when some address is short of room (\<open>short_frame\<close>); the end-to-end theorems assume \<open>holds\<close>.
  \<^item> \<open>Two_Writes\<close>, \<open>Tunnel_Udp\<close>, \<open>Tunnel_Whole\<close>: the same two handlers for UDP, end to end: a datagram sealed whole arrives unchanged, and an
    oversized one, sent as two frames, arrives unchanged in whichever order the frames come. \<open>Two_Writes\<close> has what this needs of the
    memory: with frames that do not overlap (the hypothesis \<open>apart\<close>) one write leaves the bytes of another packet alone. \<open>Icmp_Drop\<close>: an
    ICMP packet that would have to be split is dropped.
  \<^item> \<open>Forwarder\<close>, \<open>Forwarder_Safe\<close>: the thread bodies of \<^verbatim>\<open>src/core/forwarder/forwarder.c\<close>; a thread is the iteration of its body over a
    list of environments, one per round. A received batch ends packet by packet in a worker's input ring or in the pool.
  \<^item> \<open>Host\<close>: the operating system, libxdp and libbpf as a record of answers, and the ledger of what the process holds there (sockets,
    UMEMs, mappings, BPF objects, socket maps); the whole \<^verbatim>\<open>struct ne_pair\<close>.
  \<^item> \<open>Xdp_Attach\<close>, \<open>Attach_Safe\<close>: \<^verbatim>\<open>src/core/iface/xdp_attach.c\<close>: loading, attaching and detaching, and that every socket is registered with the
    program of its interface.
  \<^item> \<open>Iface_Setup\<close>, \<open>Setup_Safe\<close>, \<open>Setup_Open\<close>, \<open>Setup_Fill\<close>: \<^verbatim>\<open>ne_pair_open\<close> and \<^verbatim>\<open>ne_pair_close\<close> of \<^verbatim>\<open>xdp_interface.c\<close>. \<open>Setup_Safe\<close> treats the
    sockets of one interface (the locale \<open>frame_op\<close>), \<open>Setup_Open\<close> has Hoare triples \<open>steps_ok\<close> for sequences of fallible steps and
    the balance \<open>booked\<close> between the ledger and the pair, \<open>Setup_Fill\<close> the distribution of the frames (the locale \<open>frame_taker\<close>) and the
    properties of opening.
  \<^item> \<open>Sock_View\<close>, \<open>Rounds_View\<close>: no round of any thread, and nothing the kernel does to the rings, changes what closing looks at.
  \<^item> \<open>Lifecycle\<close>, \<open>Lifecycle_Safe\<close>, \<open>Init_Ready\<close>: \<^verbatim>\<open>forwarder_init\<close>, \<^verbatim>\<open>forwarder_run\<close>, \<^verbatim>\<open>forwarder_cleanup\<close> and \<^verbatim>\<open>main.c\<close>: everything is
    given back on every way out, initialisation establishes the invariants the threads need, and three ways in which stop requests and
    joins go wrong.
  \<^item> \<open>Stats\<close>: the socket statistics of \<^verbatim>\<open>xdp_interface.c\<close>.
  \<^item> \<open>Bpf\<close>: \<^verbatim>\<open>bpf/lan.c\<close> and \<^verbatim>\<open>bpf/wan.c\<close>, exactly which frames they redirect, that processing such a frame is safe, and what the
    WAN receive thread does with it.

  \<^bold>\<open>Limits.\<close> Operations under a lock, and the packet handlers, are atomic; \<open>Ring_Conc\<close>, \<open>Xsk_Ring\<close> and \<open>Idle\<close> are the places where
  interleavings are explored. The rings publish with release stores and are read with acquire loads, so that their steps are
  interleaved one after the other; \<open>Idle\<close>, where a store is followed by a load of another variable, has explicit store buffers. The
  completion drain is a single call during which the kernel publishes nothing. The MSS clamp takes its two size parameters as
  natural numbers; the only call passes 9000 and 31. Event counters are unbounded. The bytes left in scratch
  buffers after a failed call are not tracked where no caller reads them. \<^verbatim>\<open>l2_do_encrypt\<close> has no room check of its own:
  its safety theorem takes the room as a hypothesis, which \<open>Bpf\<close> derives from the length limit of the LAN program.

  The host gives the same answer to the same question throughout set-up, except that socket creations are numbered and may each be answered
  differently. What deleting a socket or a UMEM and closing a BPF object do to the
  ledger is fixed as documented by libxdp and libbpf. Heap blocks are not in the ledger. A run of the threads is a list of rounds with the values of the thread-local variables
  loaded for each, so that every interleaving of whole rounds is a run.

  \<^bold>\<open>Not modelled.\<close> Log and warning output; CPU pinning (no effect on the state); the vendored headers
  \<^verbatim>\<open>include/bpf\<close> and \<^verbatim>\<open>include/xdp\<close> apart from the ring functions of \<^verbatim>\<open>xsk.h\<close>; the prebuilt libraries.
\<close>

end
